(* ===== verification/Prelude.thy ===== *)
theory Prelude
  imports Main "HOL-Library.Word"
begin

text \<open>
  What the components share: the machine types, the faults a C execution can run into,
  the sequencing of fallible code, C strings and the handful of standard library
  functions the sources call on them (\<open>strlen\<close>, \<open>strncpy\<close>, \<open>atol\<close>, \<open>atoi\<close>), flat
  byte memory with checked reads and writes, and the generic list and word lemmas the
  component theories use.

  C's \<open>char\<close> is Isabelle's \<open>char\<close> (256 values), \<open>uint8_t\<close> and \<open>unsigned char\<close> are
  \<open>8 word\<close>; fixed width integers are words, an \<open>int\<close> that cannot leave its range in
  the code at hand is \<open>int\<close>.
\<close>

unbundle bit_operations_syntax

section \<open>Machine types\<close>

type_synonym u8 = "8 word"
type_synonym u16 = "16 word"
type_synonym u32 = "32 word"
type_synonym u64 = "64 word"

section \<open>Collections\<close>

named_theorems conv_simps \<open>conversions between characters, bytes and numbers\<close>
named_theorems fault_simps \<open>sequencing of fallible code\<close>
named_theorems mem_simps \<open>reads and writes of flat memory\<close>

section \<open>Faults\<close>

text \<open>
  How an execution can fail to return a value: a failed \<open>ASSERT\<close> (the process aborts),
  an access outside an array, a null pointer, an access to memory that was given back,
  a read of memory that was never written, a write into an object that no longer
  belongs to the writer, a division by zero, a loop that a sequential execution never leaves,
  signed arithmetic that leaves the range of its type.
\<close>

datatype fault = AssertFail | OutOfBounds | NullDeref | UseAfterFree | Uninitialised | Corrupt | DivZero | Spins | Overflow

primrec rbind :: "fault + 'a \<Rightarrow> ('a \<Rightarrow> fault + 'b) \<Rightarrow> fault + 'b" where
  "rbind (Inl e) f = Inl e"
| "rbind (Inr x) f = f x"

declare rbind.simps [fault_simps]

definition c_assert :: "bool \<Rightarrow> fault + unit" where
  "c_assert b = (if b then Inr () else Inl AssertFail)"

lemma c_assert_simps [simp, fault_simps]:
  "c_assert True = Inr ()" "c_assert False = Inl AssertFail"
  by (simp_all add: c_assert_def)

lemma c_assert_Inr [simp]: "c_assert b = Inr u \<longleftrightarrow> b"
  by (simp add: c_assert_def)

lemma rbind_Inr_iff: "rbind m f = Inr y \<longleftrightarrow> (\<exists>x. m = Inr x \<and> f x = Inr y)"
  by (cases m) auto

lemma rbind_InrE:
  assumes "rbind m f = Inr y"
  obtains x where "m = Inr x" "f x = Inr y"
  using assms by (auto simp: rbind_Inr_iff)

lemma rbind_assoc: "rbind (rbind m f) g = rbind m (\<lambda>x. rbind (f x) g)"
  by (cases m) auto

lemma rbind_cong [fundef_cong]:
  "m = m' \<Longrightarrow> (\<And>x. m' = Inr x \<Longrightarrow> f x = f' x) \<Longrightarrow> rbind m f = rbind m' f'"
  by (cases m') auto

lemma rbind_assert [simp]: "rbind (c_assert b) f = (if b then f () else Inl AssertFail)"
  by (simp add: c_assert_def)

text \<open>Pointers that may be null.\<close>

definition deref :: "'a option \<Rightarrow> fault + 'a" where
  "deref p = (case p of None \<Rightarrow> Inl NullDeref | Some x \<Rightarrow> Inr x)"

lemma deref_simps [simp, fault_simps]: "deref None = Inl NullDeref" "deref (Some x) = Inr x"
  by (simp_all add: deref_def)

lemma deref_Inr_iff [simp]: "deref p = Inr x \<longleftrightarrow> p = Some x"
  by (cases p) auto

text \<open>The value of an \<open>int\<close> expression, which must stay in 32 bits.\<close>

definition c_int :: "int \<Rightarrow> fault + int" where
  "c_int x = (if - (2 ^ 31) \<le> x \<and> x < 2 ^ 31 then Inr x else Inl Overflow)"

lemma c_int_ok [simp]: "- (2 ^ 31) \<le> x \<Longrightarrow> x < 2 ^ 31 \<Longrightarrow> c_int x = Inr x"
  by (simp add: c_int_def)

section \<open>Characters and bytes\<close>

definition nat_char :: "char \<Rightarrow> nat" where
  "nat_char c = of_char c"

definition byte_of_char :: "char \<Rightarrow> u8" where
  "byte_of_char c = word_of_nat (of_char c)"

definition char_of_byte :: "u8 \<Rightarrow> char" where
  "char_of_byte b = char_of (unat b)"

lemma nat_char_less [simp]: "nat_char c < 256"
  by (simp add: nat_char_def)

lemma nat_char_inject [simp]: "nat_char c = nat_char d \<longleftrightarrow> c = d"
  by (simp add: nat_char_def)

lemma char_of_nat_char [simp]: "char_of (nat_char c) = c"
  by (simp add: nat_char_def)

lemma nat_char_char_of: "n < 256 \<Longrightarrow> nat_char (char_of n) = n"
  by (simp add: nat_char_def)

lemma unat_byte_of_char [simp]: "unat (byte_of_char c) = nat_char c"
  using nat_char_less [of c]
  by (simp add: byte_of_char_def nat_char_def unat_of_nat)

lemma nat_char_of_byte [simp]: "nat_char (char_of_byte b) = unat b"
  using unsigned_less [of b, where ?'a = nat]
  by (simp add: char_of_byte_def nat_char_char_of)

lemma char_of_byte_of_char [simp, conv_simps]: "char_of_byte (byte_of_char c) = c"
  by (simp add: char_of_byte_def)

lemma byte_of_char_of_byte [simp, conv_simps]: "byte_of_char (char_of_byte b) = b"
  by (simp add: word_unat_eq_iff)

lemma char_of_byte_0 [simp]: "char_of_byte 0 = CHR 0x00"
  by (simp add: char_of_byte_def char_of_def)

lemma byte_of_char_0 [simp]: "byte_of_char (CHR 0x00) = 0"
  by (metis byte_of_char_of_byte char_of_byte_0)

section \<open>C strings\<close>

abbreviation NUL :: char where
  "NUL \<equiv> CHR 0x00"

text \<open>The string a \<open>char*\<close> denotes: the bytes up to the first NUL.\<close>

definition cstr :: "char list \<Rightarrow> string" where
  "cstr = takeWhile (\<lambda>c. c \<noteq> NUL)"

definition strlen :: "char list \<Rightarrow> nat" where
  "strlen s = length (cstr s)"

lemma cstr_Nil [simp]: "cstr [] = []"
  by (simp add: cstr_def)

lemma cstr_Cons [simp]: "cstr (c # s) = (if c = NUL then [] else c # cstr s)"
  by (simp add: cstr_def)

lemma NUL_notin_cstr [simp]: "NUL \<notin> set (cstr s)"
  by (auto simp: cstr_def dest: set_takeWhileD)

lemma cstr_id [simp]: "NUL \<notin> set s \<Longrightarrow> cstr s = s"
  by (auto simp: cstr_def takeWhile_eq_all_conv)

lemma cstr_append_NUL [simp]: "NUL \<notin> set s \<Longrightarrow> cstr (s @ NUL # t) = s"
  by (induction s) auto

lemma strlen_le_length: "strlen s \<le> length s"
  by (simp add: strlen_def cstr_def length_takeWhile_le)

text \<open>
  \<open>strncpy(dst, src, n)\<close> into a field that was cleared before: the first \<open>n\<close>
  characters of the source string, which the cleared field terminates when \<open>n\<close> is
  smaller than the field.
\<close>

definition strncpy_cleared :: "nat \<Rightarrow> string \<Rightarrow> string" where
  "strncpy_cleared n src = take n (cstr src)"

lemma length_strncpy_cleared: "length (strncpy_cleared n src) \<le> n"
  by (simp add: strncpy_cleared_def)

lemma strncpy_cleared_id: "NUL \<notin> set s \<Longrightarrow> length s \<le> n \<Longrightarrow> strncpy_cleared n s = s"
  by (simp add: strncpy_cleared_def)

text \<open>
  \<open>atol\<close> and \<open>atoi\<close> of the C library: blanks, an optional sign, decimal digits up to the
  first other character; 0 when there is no digit. \<open>atol\<close> stops at the ends of the
  64 bit range (as \<open>strtol\<close> does), \<open>atoi\<close> keeps the low 32 bits of it.
\<close>

definition is_space :: "char \<Rightarrow> bool" where
  "is_space c = (c = CHR '' '' \<or> (9 \<le> nat_char c \<and> nat_char c \<le> 13))"

definition is_digit :: "char \<Rightarrow> bool" where
  "is_digit c = (48 \<le> nat_char c \<and> nat_char c \<le> 57)"

fun digits_value :: "int \<Rightarrow> string \<Rightarrow> int" where
  "digits_value acc [] = acc"
| "digits_value acc (c # cs) =
     (if is_digit c then digits_value (10 * acc + int (nat_char c - 48)) cs else acc)"

definition clamp64 :: "int \<Rightarrow> int" where
  "clamp64 x = max (- (2 ^ 63)) (min (2 ^ 63 - 1) x)"

definition atol :: "string \<Rightarrow> int" where
  "atol s =
     (case dropWhile is_space s of
        [] \<Rightarrow> 0
      | c # cs \<Rightarrow>
          if c = CHR ''-'' then clamp64 (- digits_value 0 cs)
          else if c = CHR ''+'' then clamp64 (digits_value 0 cs)
          else clamp64 (digits_value 0 (c # cs)))"

definition atoi :: "string \<Rightarrow> int" where
  "atoi s = sint (word_of_int (atol s) :: 32 word)"

text \<open>The \<open>%d\<close> of \<open>sprintf\<close>.\<close>

fun show_nat :: "nat \<Rightarrow> string" where
  "show_nat n =
     (if n < 10 then [char_of (48 + n)] else show_nat (n div 10) @ [char_of (48 + n mod 10)])"

declare show_nat.simps [simp del]

definition show_int :: "int \<Rightarrow> string" where
  "show_int i = (if i < 0 then CHR ''-'' # show_nat (nat (- i)) else show_nat (nat i))"

lemma nat_char_digit: "(n :: nat) < 10 \<Longrightarrow> nat_char (char_of (48 + n)) = 48 + n"
  by (rule nat_char_char_of) simp

lemma is_digit_digit: "(n :: nat) < 10 \<Longrightarrow> is_digit (char_of (48 + n))"
  by (simp add: is_digit_def nat_char_digit)

lemma digits_value_append:
  "list_all is_digit s \<Longrightarrow> digits_value acc (s @ t) = digits_value (digits_value acc s) t"
  by (induction s arbitrary: acc) auto

lemma show_nat_digits: "list_all is_digit (show_nat n) \<and> show_nat n \<noteq> []"
proof (induction n rule: less_induct)
  case (less n)
  then show ?case
    by (subst show_nat.simps) (subst show_nat.simps, simp add: is_digit_digit)
qed

lemma digits_value_show_nat: "digits_value 0 (show_nat n) = int n"
proof (induction n rule: less_induct)
  case (less n)
  show ?case
  proof (cases "n < 10")
    case True
    then show ?thesis by (simp add: show_nat.simps [of n] is_digit_digit nat_char_digit)
  next
    case False
    then have "digits_value 0 (show_nat (n div 10)) = int (n div 10)" by (intro less) simp
    moreover have "show_nat n = show_nat (n div 10) @ [char_of (48 + n mod 10)]"
      using False by (simp add: show_nat.simps [of n])
    ultimately show ?thesis
      by (simp add: show_nat_digits digits_value_append is_digit_digit nat_char_digit of_nat_div of_nat_mod)
  qed
qed

lemma is_digit_not: "is_digit c \<Longrightarrow> \<not> is_space c \<and> c \<noteq> CHR ''-'' \<and> c \<noteq> CHR ''+'' \<and> c \<noteq> NUL"
  by (auto simp: is_digit_def is_space_def nat_char_def)

lemma atol_show_int:
  assumes "- (2 ^ 63) \<le> i" "i < 2 ^ 63"
  shows "atol (show_int i) = i"
proof (cases "i < 0")
  case True
  then show ?thesis
    using assms by (simp add: show_int_def atol_def is_space_def nat_char_def digits_value_show_nat clamp64_def)
next
  case False
  obtain c cs where cs: "show_nat (nat i) = c # cs" "is_digit c"
    using show_nat_digits [of "nat i"] by (cases "show_nat (nat i)") auto
  then have "atol (c # cs) = clamp64 (digits_value 0 (c # cs))"
    using is_digit_not [OF cs(2)] by (simp add: atol_def del: digits_value.simps)
  then show ?thesis
    using False assms cs digits_value_show_nat [of "nat i"]
    by (simp add: show_int_def clamp64_def del: digits_value.simps)
qed

lemma atoi_show_int:
  assumes "- (2 ^ 31) \<le> i" "i < 2 ^ 31"
  shows "atoi (show_int i) = i"
  using assms by (simp add: atoi_def atol_show_int signed_of_int signed_take_bit_int_eq_self)

lemma show_int_inject:
  assumes "- (2 ^ 31) \<le> i" "i < 2 ^ 31" "- (2 ^ 31) \<le> j" "j < 2 ^ 31"
  shows "show_int i = show_int j \<longleftrightarrow> i = j"
  using assms atoi_show_int by metis

lemma length_show_nat: "n < 10 ^ Suc k \<Longrightarrow> length (show_nat n) \<le> Suc k"
proof (induction k arbitrary: n)
  case 0
  then show ?case by (simp add: show_nat.simps)
next
  case (Suc k)
  have "n div 10 < 10 ^ Suc k" using Suc.prems by (simp add: less_mult_imp_div_less)
  then show ?case using Suc.IH [of "n div 10"] by (subst show_nat.simps) simp
qed

lemma show_int_chars:
  "set (show_int i) \<subseteq> insert (CHR ''-'') {c. is_digit c}" "show_int i \<noteq> []"
  using show_nat_digits [of "nat i"] show_nat_digits [of "nat (- i)"]
  by (auto simp: show_int_def list_all_iff)

lemma length_show_int: "- (2 ^ 31) \<le> i \<Longrightarrow> i < 2 ^ 31 \<Longrightarrow> length (show_int i) \<le> 11"
  using length_show_nat [of "nat i" 9] length_show_nat [of "nat (- i)" 9] by (auto simp: show_int_def nat_less_iff)

section \<open>Flat memory\<close>

text \<open>A buffer is a list of cells; reading or writing outside it is a fault.\<close>

definition rd :: "'a list \<Rightarrow> nat \<Rightarrow> fault + 'a" where
  "rd m i = (if i < length m then Inr (m ! i) else Inl OutOfBounds)"

definition wr :: "'a list \<Rightarrow> nat \<Rightarrow> 'a \<Rightarrow> fault + 'a list" where
  "wr m i x = (if i < length m then Inr (m[i := x]) else Inl OutOfBounds)"

lemma rd_Inr_iff [mem_simps]: "rd m i = Inr x \<longleftrightarrow> i < length m \<and> x = m ! i"
  by (auto simp: rd_def)

lemma wr_Inr_iff [mem_simps]: "wr m i x = Inr m' \<longleftrightarrow> i < length m \<and> m' = m[i := x]"
  by (auto simp: wr_def)

lemma rd_in [simp]: "i < length m \<Longrightarrow> rd m i = Inr (m ! i)"
  by (simp add: rd_def)

lemma wr_in [simp]: "i < length m \<Longrightarrow> wr m i x = Inr (m[i := x])"
  by (simp add: wr_def)

text \<open>\<open>memcpy\<close> of a whole block to an offset, and a read of a block.\<close>

definition put :: "nat \<Rightarrow> 'a list \<Rightarrow> 'a list \<Rightarrow> 'a list" where
  "put i xs m = take i m @ xs @ drop (i + length xs) m"

definition blk :: "nat \<Rightarrow> nat \<Rightarrow> 'a list \<Rightarrow> 'a list" where
  "blk i n m = take n (drop i m)"

lemma length_put [simp]: "i + length xs \<le> length m \<Longrightarrow> length (put i xs m) = length m"
  by (simp add: put_def)

lemma length_blk [simp]: "length (blk i n m) = min n (length m - i)"
  by (simp add: blk_def)

lemma blk_put_same [mem_simps]: "i + length xs \<le> length m \<Longrightarrow> blk i (length xs) (put i xs m) = xs"
  by (simp add: blk_def put_def)

lemma blk_put_below [mem_simps]:
  "j + n \<le> i \<Longrightarrow> i \<le> length m \<Longrightarrow> blk j n (put i xs m) = blk j n m"
  by (simp add: blk_def put_def take_drop min_def)

lemma blk_put_above [mem_simps]:
  "i + length xs \<le> j \<Longrightarrow> i + length xs \<le> length m \<Longrightarrow> blk j n (put i xs m) = blk j n m"
  by (simp add: blk_def put_def)

lemma put_nth_below: "k < i \<Longrightarrow> i \<le> length m \<Longrightarrow> put i xs m ! k = m ! k"
  by (simp add: put_def nth_append)

lemma take_put_below: "n \<le> i \<Longrightarrow> i \<le> length m \<Longrightarrow> take n (put i xs m) = take n m"
  by (simp add: put_def min_def)

lemma put_put_append [mem_simps]:
  "i + length a + length b \<le> length m \<Longrightarrow> put (i + length a) b (put i a m) = put i (a @ b) m"
  by (cases a) (auto simp: put_def min_def ac_simps)

lemma put_Nil [simp]: "put i [] m = m"
  by (simp add: put_def)

lemma put_nth_above: "i + length xs \<le> k \<Longrightarrow> k < length m \<Longrightarrow> put i xs m ! k = m ! k"
  by (auto simp: put_def nth_append min_def not_less)

lemma put_update_end [mem_simps]:
  "i + length xs < length m \<Longrightarrow> (put i xs m)[i + length xs := x] = put i (xs @ [x]) m"
  by (auto simp: put_def list_update_append min_def Cons_nth_drop_Suc [symmetric])

lemma put_update_last [mem_simps]:
  "i + length xs < length m \<Longrightarrow> (put i (xs @ [y]) m)[i + length xs := x] = put i (xs @ [x]) m"
  by (auto simp: put_def list_update_append min_def)

text \<open>
  \<open>memcpy\<close> to and from a buffer at a signed offset. A C \<open>int\<close> that meets a \<open>size_t\<close> is
  first converted: \<open>usize\<close>.
\<close>

definition usize :: "int \<Rightarrow> int" where
  "usize x = x mod 2 ^ 64"

lemma usize_id [simp]: "0 \<le> x \<Longrightarrow> x < 2 ^ 64 \<Longrightarrow> usize x = x"
  by (simp add: usize_def)

definition copy_in :: "int \<Rightarrow> 'a list \<Rightarrow> 'a list \<Rightarrow> fault + 'a list" where
  "copy_in i xs m =
     (if 0 \<le> i \<and> nat i + length xs \<le> length m then Inr (put (nat i) xs m) else Inl OutOfBounds)"

definition copy_out :: "int \<Rightarrow> nat \<Rightarrow> 'a list \<Rightarrow> fault + 'a list" where
  "copy_out i n m =
     (if 0 \<le> i \<and> nat i + n \<le> length m then Inr (blk (nat i) n m) else Inl OutOfBounds)"

lemma copy_in_ok [simp]: "0 \<le> i \<Longrightarrow> nat i + length xs \<le> length m \<Longrightarrow> copy_in i xs m = Inr (put (nat i) xs m)"
  by (simp add: copy_in_def)

lemma copy_out_ok [simp]: "0 \<le> i \<Longrightarrow> nat i + n \<le> length m \<Longrightarrow> copy_out i n m = Inr (blk (nat i) n m)"
  by (simp add: copy_out_def)

lemma blk_Suc: "i < length m \<Longrightarrow> blk i (Suc n) m = m ! i # blk (Suc i) n m"
  by (simp add: blk_def Cons_nth_drop_Suc [symmetric])

lemma blk_0 [simp]: "blk i 0 m = []"
  by (simp add: blk_def)

lemma blk_append_split: "blk i (a + b) m = blk i a m @ blk (i + a) b m"
  by (simp add: blk_def take_add add.commute)

text \<open>What \<open>n\<close> bytes of memory hold before they are written.\<close>

definition junk :: "(nat \<Rightarrow> 'a) \<Rightarrow> nat \<Rightarrow> 'a list" where
  "junk old n = map old [0..<n]"

lemma length_junk [simp]: "length (junk old n) = n"
  by (simp add: junk_def)

lemma blk_junk: "i + n \<le> m \<Longrightarrow> blk i n (junk old m) = map old [i..<i + n]"
  by (simp add: blk_def junk_def drop_map take_map)

end
