(* ===== verification/Md5.thy ===== *)
theory Md5
  imports Prelude
begin

text \<open>
  \<open>antlib/commandlib/md5.c\<close>: the context, the transform written out as its table of 64
  steps, the incremental update, the padding, and the digests of the program built on it.
  The loop over whole blocks has a 32 bit index that wraps for inputs of \<open>2^32 - 64\<close> bytes
  and more: it then reads behind the input, or never ends.
\<close>

section \<open>Context and transform\<close>

type_synonym md5_state = "u32 \<times> u32 \<times> u32 \<times> u32"

record md5_ctx =
  md_count0 :: u32
  md_count1 :: u32
  md_state :: md5_state
  md_buffer :: "u8 list"

definition F :: "u32 \<Rightarrow> u32 \<Rightarrow> u32 \<Rightarrow> u32" where
  "F x y z = ((x AND y) OR (NOT x AND z))"

definition G :: "u32 \<Rightarrow> u32 \<Rightarrow> u32 \<Rightarrow> u32" where
  "G x y z = ((x AND z) OR (y AND NOT z))"

definition H :: "u32 \<Rightarrow> u32 \<Rightarrow> u32 \<Rightarrow> u32" where
  "H x y z = (x XOR y XOR z)"

definition I :: "u32 \<Rightarrow> u32 \<Rightarrow> u32 \<Rightarrow> u32" where
  "I x y z = (y XOR (x OR NOT z))"

definition ROTATE_LEFT :: "u32 \<Rightarrow> nat \<Rightarrow> u32" where
  "ROTATE_LEFT x n = (push_bit n x OR drop_bit (32 - n) x)"

text \<open>
  One macro call \<open>XX(a, b, c, d, x[k], s, ac)\<close>. The calls rotate the four registers, so the
  next call sees the tuple \<open>(d, a, b, c)\<close>; after 64 calls the tuple is in order again.
\<close>

definition md5_step ::
  "(u32 \<Rightarrow> u32 \<Rightarrow> u32 \<Rightarrow> u32) \<Rightarrow> u32 list \<Rightarrow> nat \<times> nat \<times> u32 \<Rightarrow> md5_state \<Rightarrow> md5_state" where
  "md5_step fn x = (\<lambda>(k, s, ac) (a, b, c, d).
     let a = a + (fn b c d + x ! k + ac);
         a = ROTATE_LEFT a s;
         a = a + b
     in (d, a, b, c))"

text \<open>The rows \<open>(k, s, ac)\<close> of the four rounds, in the code's order.\<close>

definition FF_steps :: "(nat \<times> nat \<times> u32) list" where
  "FF_steps = [
   (0, 7, 0xd76aa478), (1, 12, 0xe8c7b756), (2, 17, 0x242070db), (3, 22, 0xc1bdceee),
   (4, 7, 0xf57c0faf), (5, 12, 0x4787c62a), (6, 17, 0xa8304613), (7, 22, 0xfd469501),
   (8, 7, 0x698098d8), (9, 12, 0x8b44f7af), (10, 17, 0xffff5bb1), (11, 22, 0x895cd7be),
   (12, 7, 0x6b901122), (13, 12, 0xfd987193), (14, 17, 0xa679438e), (15, 22, 0x49b40821)]"

definition GG_steps :: "(nat \<times> nat \<times> u32) list" where
  "GG_steps = [
   (1, 5, 0xf61e2562), (6, 9, 0xc040b340), (11, 14, 0x265e5a51), (0, 20, 0xe9b6c7aa),
   (5, 5, 0xd62f105d), (10, 9, 0x2441453), (15, 14, 0xd8a1e681), (4, 20, 0xe7d3fbc8),
   (9, 5, 0x21e1cde6), (14, 9, 0xc33707d6), (3, 14, 0xf4d50d87), (8, 20, 0x455a14ed),
   (13, 5, 0xa9e3e905), (2, 9, 0xfcefa3f8), (7, 14, 0x676f02d9), (12, 20, 0x8d2a4c8a)]"

definition HH_steps :: "(nat \<times> nat \<times> u32) list" where
  "HH_steps = [
   (5, 4, 0xfffa3942), (8, 11, 0x8771f681), (11, 16, 0x6d9d6122), (14, 23, 0xfde5380c),
   (1, 4, 0xa4beea44), (4, 11, 0x4bdecfa9), (7, 16, 0xf6bb4b60), (10, 23, 0xbebfbc70),
   (13, 4, 0x289b7ec6), (0, 11, 0xeaa127fa), (3, 16, 0xd4ef3085), (6, 23, 0x4881d05),
   (9, 4, 0xd9d4d039), (12, 11, 0xe6db99e5), (15, 16, 0x1fa27cf8), (2, 23, 0xc4ac5665)]"

definition II_steps :: "(nat \<times> nat \<times> u32) list" where
  "II_steps = [
   (0, 6, 0xf4292244), (7, 10, 0x432aff97), (14, 15, 0xab9423a7), (5, 21, 0xfc93a039),
   (12, 6, 0x655b59c3), (3, 10, 0x8f0ccc92), (10, 15, 0xffeff47d), (1, 21, 0x85845dd1),
   (8, 6, 0x6fa87e4f), (15, 10, 0xfe2ce6e0), (6, 15, 0xa3014314), (13, 21, 0x4e0811a1),
   (4, 6, 0xf7537e82), (11, 10, 0xbd3af235), (2, 15, 0x2ad7d2bb), (9, 21, 0xeb86d391)]"

fun MD5Decode :: "u8 list \<Rightarrow> u32 list" where
  "MD5Decode (b0 # b1 # b2 # b3 # bs) =
     (ucast b0 OR push_bit 8 (ucast b1) OR push_bit 16 (ucast b2) OR push_bit 24 (ucast b3)) # MD5Decode bs"
| "MD5Decode _ = []"

fun MD5Encode :: "u32 list \<Rightarrow> u8 list" where
  "MD5Encode [] = []"
| "MD5Encode (w # ws) =
     [ucast (w AND 0xFF), ucast (drop_bit 8 w AND 0xFF), ucast (drop_bit 16 w AND 0xFF),
      ucast (drop_bit 24 w AND 0xFF)] @ MD5Encode ws"

definition MD5Transform :: "md5_state \<Rightarrow> u8 list \<Rightarrow> md5_state" where
  "MD5Transform st block =
     (let x = MD5Decode block;
          r1 = fold (md5_step F x) FF_steps st;
          r2 = fold (md5_step G x) GG_steps r1;
          r3 = fold (md5_step H x) HH_steps r2;
          (a, b, c, d) = fold (md5_step I x) II_steps r3;
          (s0, s1, s2, s3) = st
      in (s0 + a, s1 + b, s2 + c, s3 + d))"

section \<open>Init, update, final\<close>

definition PADDING :: "u8 list" where
  "PADDING = 0x80 # replicate 63 0"

text \<open>\<open>old\<close>: the buffer of a context on the stack is not initialised.\<close>

definition MD5Init :: "(nat \<Rightarrow> u8) \<Rightarrow> md5_ctx" where
  "MD5Init old =
     \<lparr>md_count0 = 0, md_count1 = 0,
      md_state = (0x67452301, 0xEFCDAB89, 0x98BADCFE, 0x10325476),
      md_buffer = junk old 64\<rparr>"

lemma unat_add_64: "unat (i :: u32) + 64 < 2 ^ 32 \<Longrightarrow> unat (i + 64) = unat i + 64"
  using unat_add_lem [of i 64] by simp

text \<open>
  The loop over whole blocks, from index \<open>i\<close> on: the state and the index it stops at. \<open>input\<close> is the memory
  behind the pointer; once the index has wrapped inside it, every further test succeeds.
\<close>

function md5_loop :: "md5_state \<Rightarrow> u8 list \<Rightarrow> u32 \<Rightarrow> u32 \<Rightarrow> fault + md5_state \<times> u32" where
  "md5_loop st input inputlen i =
     (if i + 64 \<le> inputlen then
        if unat i + 64 > length input then Inl OutOfBounds
        else if unat i + 64 \<ge> 2 ^ 32 then Inl Spins
        else md5_loop (MD5Transform st (blk (unat i) 64 input)) input inputlen (i + 64)
      else Inr (st, i))"
  by pat_completeness auto

termination
proof (relation "measure (\<lambda>(st, input, n, i). 2 ^ 32 - unat i)")
  fix st :: md5_state and input :: "u8 list" and n i :: u32
  assume "\<not> unat i + 64 \<ge> 2 ^ 32"
  then show "((MD5Transform st (blk (unat i) 64 input), input, n, i + 64), st, input, n, i) \<in> measure (\<lambda>(st, input, n, i). 2 ^ 32 - unat i)"
    using unat_add_64 [of i] by simp
qed simp

declare md5_loop.simps [simp del]

definition MD5Update :: "md5_ctx \<Rightarrow> u8 list \<Rightarrow> fault + md5_ctx" where
  "MD5Update ctx input =
     (let inputlen = (word_of_nat (length input) :: u32);
          index = unat (drop_bit 3 (md_count0 ctx) AND 0x3F);
          partlen = 64 - index;
          c0 = md_count0 ctx + push_bit 3 inputlen;
          c1 = (if c0 < push_bit 3 inputlen then md_count1 ctx + 1 else md_count1 ctx);
          c1 = c1 + drop_bit 29 inputlen;
          ctx = ctx\<lparr>md_count0 := c0, md_count1 := c1\<rparr>
      in if partlen \<le> unat inputlen then
           let buf = put index (take partlen input) (md_buffer ctx);
               st = MD5Transform (md_state ctx) buf
           in rbind (md5_loop st input inputlen (word_of_nat partlen)) (\<lambda>(st', i).
              Inr (ctx\<lparr>md_state := st', md_buffer := put 0 (blk (unat i) (unat (inputlen - i)) input) buf\<rparr>))
         else Inr (ctx\<lparr>md_buffer := put index (take (unat inputlen) input) (md_buffer ctx)\<rparr>))"

definition state_words :: "md5_state \<Rightarrow> u32 list" where
  "state_words = (\<lambda>(a, b, c, d). [a, b, c, d])"

definition MD5Final :: "md5_ctx \<Rightarrow> fault + u8 list" where
  "MD5Final ctx =
     (let index = unat (drop_bit 3 (md_count0 ctx) AND 0x3F);
          padlen = (if index < 56 then 56 - index else 120 - index);
          bits = MD5Encode [md_count0 ctx, md_count1 ctx]
      in rbind (MD5Update ctx (take padlen PADDING)) (\<lambda>ctx.
         rbind (MD5Update ctx bits) (\<lambda>ctx.
         Inr (MD5Encode (state_words (md_state ctx))))))"

section \<open>The digests of the program\<close>

definition B16MD5 :: "(nat \<Rightarrow> u8) \<Rightarrow> u8 list \<Rightarrow> fault + u8 list" where
  "B16MD5 old input = rbind (MD5Update (MD5Init old) input) MD5Final"

definition X16CODE :: string where
  "X16CODE = ''0123456789ABCDEF''"

text \<open>The 32 characters of the output array; the code stores a NUL after them.\<close>

definition MD5 :: "(nat \<Rightarrow> u8) \<Rightarrow> u8 list \<Rightarrow> fault + string" where
  "MD5 old input =
     rbind (MD5Update (MD5Init old) input) (\<lambda>ctx. rbind (MD5Final ctx) (\<lambda>decrypt.
     Inr (concat (map (\<lambda>b. [X16CODE ! unat (drop_bit 4 b AND 0x0F), X16CODE ! unat (b AND 0x0F)]) decrypt))))"

definition MYX16CODE :: string where
  "MYX16CODE = ''FECDA0768915423B''"

definition MYMD5_HEAD :: "u8 list" where
  "MYMD5_HEAD = [0x7B, 0x20, 0x7E, 0x26, 0, 0x24, 0x23, 0x21, 0x5C, 0x0A, 0x09, 0x0D, 0x22, 255, 1, 0x7D]"

definition MYMD5_TAIL :: "u8 list" where
  "MYMD5_TAIL = [136, 93, 67, 0, 177, 0x40, 0x53, 0x68, 0x65, 0x6E, 0x79, 0x76, 0x2E, 0x63, 0x6F, 0x6D]"

definition my_hex :: "u8 list \<Rightarrow> string" where
  "my_hex bs = concat (map (\<lambda>b. [MYX16CODE ! unat (b AND 0x0F), MYX16CODE ! unat (drop_bit 4 b AND 0x0F)]) bs)"

text \<open>
  \<open>input0\<close> is the byte at the address of the input, which the code reads even when the
  length is 0.
\<close>

definition MYMD5_ENCRYPT :: "(nat \<Rightarrow> u8) \<Rightarrow> u8 \<Rightarrow> u8 list \<Rightarrow> fault + string" where
  "MYMD5_ENCRYPT old input0 input =
     rbind (MD5Update (MD5Init old) MYMD5_HEAD) (\<lambda>ctx.
     rbind (MD5Update ctx input) (\<lambda>ctx.
     rbind (MD5Update ctx MYMD5_TAIL) (\<lambda>ctx.
     rbind (MD5Final ctx) (\<lambda>decrypt.
     Inr ((my_hex decrypt)[unat input0 mod 32 := CHR ''A''])))))"

definition MYMD5_ENCRYPT2 :: "(nat \<Rightarrow> u8) \<Rightarrow> u8 list \<Rightarrow> u8 list \<Rightarrow> fault + string" where
  "MYMD5_ENCRYPT2 old input1 input2 =
     rbind (MD5Update (MD5Init old) MYMD5_HEAD) (\<lambda>ctx.
     rbind (MD5Update ctx input1) (\<lambda>ctx.
     rbind (MD5Update ctx input2) (\<lambda>ctx.
     rbind (MD5Update ctx MYMD5_TAIL) (\<lambda>ctx.
     rbind (MD5Final ctx) (\<lambda>decrypt. Inr (my_hex decrypt))))))"

section \<open>Whole-message specification\<close>

text \<open>
  MD5 as its definition has it: the message, the byte 0x80, zeros up to 56 modulo 64, the
  length in bits as 8 bytes lowest first; the transform folded over the blocks of 64 bytes.
\<close>

definition md5_init_state :: md5_state where
  "md5_init_state = (0x67452301, 0xEFCDAB89, 0x98BADCFE, 0x10325476)"

definition len_bytes :: "nat \<Rightarrow> u8 list" where
  "len_bytes n = map (\<lambda>i. word_of_nat (8 * n div 2 ^ (8 * i))) [0..<8]"

definition md5_padded :: "u8 list \<Rightarrow> u8 list" where
  "md5_padded m = m @ [0x80] @ replicate ((119 - length m mod 64) mod 64) 0 @ len_bytes (length m)"

fun chunks :: "nat \<Rightarrow> 'a list \<Rightarrow> 'a list list" where
  "chunks n xs = (if n = 0 \<or> length xs < n then [] else take n xs # chunks n (drop n xs))"

declare chunks.simps [simp del]

definition md5_spec :: "u8 list \<Rightarrow> u8 list" where
  "md5_spec m =
     MD5Encode (state_words (fold (\<lambda>b st. MD5Transform st b) (chunks 64 (md5_padded m)) md5_init_state))"

section \<open>Updates whose index does not wrap\<close>

text \<open>The blocks of an input in turn: the state and what is left.\<close>

fun md5_blocks :: "md5_state \<Rightarrow> u8 list \<Rightarrow> md5_state \<times> u8 list" where
  "md5_blocks st input =
     (if length input < 64 then (st, input)
      else md5_blocks (MD5Transform st (take 64 input)) (drop 64 input))"

declare md5_blocks.simps [simp del]

definition md5_update :: "md5_ctx \<Rightarrow> u8 list \<Rightarrow> md5_ctx" where
  "md5_update ctx input =
     (let inputlen = (word_of_nat (length input) :: u32);
          index = unat (drop_bit 3 (md_count0 ctx) AND 0x3F);
          partlen = 64 - index;
          c0 = md_count0 ctx + push_bit 3 inputlen;
          c1 = (if c0 < push_bit 3 inputlen then md_count1 ctx + 1 else md_count1 ctx);
          c1 = c1 + drop_bit 29 inputlen;
          ctx = ctx\<lparr>md_count0 := c0, md_count1 := c1\<rparr>
      in if partlen \<le> length input then
           let buf = put index (take partlen input) (md_buffer ctx);
               st = MD5Transform (md_state ctx) buf;
               (st', rest) = md5_blocks st (drop partlen input)
           in ctx\<lparr>md_state := st', md_buffer := put 0 rest buf\<rparr>
         else ctx\<lparr>md_buffer := put index input (md_buffer ctx)\<rparr>)"

definition md5_final :: "md5_ctx \<Rightarrow> u8 list" where
  "md5_final ctx =
     (let index = unat (drop_bit 3 (md_count0 ctx) AND 0x3F);
          padlen = (if index < 56 then 56 - index else 120 - index);
          bits = MD5Encode [md_count0 ctx, md_count1 ctx];
          ctx = md5_update ctx (take padlen PADDING);
          ctx = md5_update ctx bits
      in MD5Encode (state_words (md_state ctx)))"

lemma md5_blocks_short [simp]: "length x < 64 \<Longrightarrow> md5_blocks st x = (st, x)"
  by (simp add: md5_blocks.simps)

lemma md5_blocks_long:
  "64 \<le> length x \<Longrightarrow> md5_blocks st x = md5_blocks (MD5Transform st (take 64 x)) (drop 64 x)"
  by (subst md5_blocks.simps) simp

lemma unat_length: "length x < 2 ^ 32 \<Longrightarrow> unat (word_of_nat (length x) :: u32) = length x"
  by (simp add: unsigned_of_nat take_bit_nat_eq_self)

lemma md5_loop_blocks:
  "length x < 2 ^ 32 - 64 \<Longrightarrow> unat i \<le> length x \<Longrightarrow>
    \<exists>s j. md5_loop st x (word_of_nat (length x)) i = Inr (s, j) \<and> unat j \<le> length x \<and>
      md5_blocks st (drop (unat i) x) = (s, drop (unat j) x)"
proof (induction st x "word_of_nat (length x) :: u32" i rule: md5_loop.induct)
  case (1 st x i)
  have n: "unat (word_of_nat (length x) :: u32) = length x" using 1(2) by (intro unat_length) simp
  have i: "unat (i + 64) = unat i + 64" "unat i + 64 < 2 ^ 32" using 1(2,3) unat_add_64 [of i] by simp_all
  show ?case
  proof (cases "unat i + 64 \<le> length x")
    case True
    then have "i + 64 \<le> word_of_nat (length x)" using i n by (simp add: word_le_nat_alt)
    with True i 1 show ?thesis
      by (subst md5_loop.simps) (simp add: md5_blocks_long blk_def add.commute)
  next
    case False
    then have "\<not> i + 64 \<le> word_of_nat (length x)" using i n by (simp add: word_le_nat_alt)
    with False 1(3) show ?thesis by (intro exI [of _ st] exI [of _ i]) (simp add: md5_loop.simps [of st])
  qed
qed

lemma MD5Update_short:
  assumes "length x < 2 ^ 32 - 64"
  shows "MD5Update ctx x = Inr (md5_update ctx x)"
proof -
  let ?n = "word_of_nat (length x) :: u32" and ?i = "unat (drop_bit 3 (md_count0 ctx) AND 0x3F)"
  have n: "unat ?n = length x" using assms by (intro unat_length) simp
  show ?thesis
  proof (cases "64 - ?i \<le> length x")
    case True
    have p: "unat (word_of_nat (64 - ?i) :: u32) = 64 - ?i" by (simp add: unsigned_of_nat take_bit_nat_eq_self)
    obtain s j where j: "md5_loop (MD5Transform (md_state ctx) (put ?i (take (64 - ?i) x) (md_buffer ctx))) x ?n (word_of_nat (64 - ?i)) = Inr (s, j)"
      "unat j \<le> length x" "md5_blocks (MD5Transform (md_state ctx) (put ?i (take (64 - ?i) x) (md_buffer ctx))) (drop (64 - ?i) x) = (s, drop (unat j) x)"
      using md5_loop_blocks [OF assms, of "word_of_nat (64 - ?i)"] True unfolding p by blast
    have "unat (?n - j) = length x - unat j" using j(2) n by (simp add: unat_sub word_le_nat_alt)
    then show ?thesis using True j by (simp add: MD5Update_def md5_update_def Let_def n blk_def)
  qed (simp add: MD5Update_def md5_update_def Let_def n)
qed

lemma length_MD5Encode [simp]: "length (MD5Encode ws) = 4 * length ws"
  by (induction ws) auto

lemma MD5Final_total: "MD5Final ctx = Inr (md5_final ctx)"
proof -
  have "length (take n PADDING) < 2 ^ 32 - 64" for n by (simp add: PADDING_def)
  then show ?thesis by (simp add: MD5Final_def md5_final_def Let_def MD5Update_short)
qed

text \<open>A first input of \<open>2^32 - 64\<close> bytes or more: the index wraps, and the last block read lies behind the input.\<close>

lemma md5_loop_wraps:
  "2 ^ 32 - 64 \<le> length x \<Longrightarrow> length x < 2 ^ 32 \<Longrightarrow> unat i mod 64 = 0 \<Longrightarrow>
    md5_loop st x (word_of_nat (length x)) i = Inl OutOfBounds"
proof (induction st x "word_of_nat (length x) :: u32" i rule: md5_loop.induct)
  case (1 st x i)
  have n: "unat (word_of_nat (length x) :: u32) = length x" using 1(3) by (intro unat_length) simp
  show ?case
  proof (cases "unat i + 64 < 2 ^ 32")
    case True
    then have i: "unat (i + 64) = unat i + 64" by (rule unat_add_64)
    have "unat i < 4294967232" using True by simp
    then have "unat i + 64 \<le> 4294967232" using 1(4) by presburger
    then have "unat i + 64 \<le> length x" using 1(2) by simp
    moreover from this have "i + 64 \<le> word_of_nat (length x)" using i n by (simp add: word_le_nat_alt)
    ultimately show ?thesis using True i 1 by (subst md5_loop.simps) (simp add: not_le)
  next
    case False
    have "unat i < 2 ^ 32" using unsigned_less [of i, where ?'a = nat] by simp
    then have "unat i < 4294967296" "\<not> unat i < 4294967232" using False by simp_all
    then have i: "unat i = 4294967232" using 1(4) by presburger
    then have "i = 4294967232" by (metis of_nat_numeral of_nat_unat ucast_id)
    then have "i + 64 = 0" by simp
    then show ?thesis using 1(3) i by (subst md5_loop.simps) simp
  qed
qed

lemma md5_update_reads_past:
  assumes "2 ^ 32 - 64 \<le> length x" "length x < 2 ^ 32"
  shows "MD5Update (MD5Init old) x = Inl OutOfBounds"
proof -
  have n: "unat (word_of_nat (length x) :: u32) = length x" using assms by (intro unat_length) simp
  have "md5_loop st x (word_of_nat (length x)) 64 = Inl OutOfBounds" for st by (rule md5_loop_wraps [OF assms]) simp
  then show ?thesis using assms n by (simp add: MD5Update_def Let_def MD5Init_def)
qed

section \<open>The incremental interface computes the whole-message digest\<close>

lemma md5_blocks_chunks: "fst (md5_blocks st x) = fold (\<lambda>b st. MD5Transform st b) (chunks 64 x) st"
  by (induction st x rule: md5_blocks.induct) (subst md5_blocks.simps, subst chunks.simps, simp)

lemma length_md5_rest: "length (snd (md5_blocks st x)) = length x mod 64"
proof (induction st x rule: md5_blocks.induct)
  case (1 st x)
  then show ?case
    by (cases "length x < 64") (simp_all add: md5_blocks_long le_mod_geq)
qed

lemma md5_blocks_append:
  "md5_blocks st (m @ x) = md5_blocks (fst (md5_blocks st m)) (snd (md5_blocks st m) @ x)"
proof (induction st m rule: md5_blocks.induct)
  case (1 st m)
  then show ?case
    by (cases "length m < 64") (simp_all add: md5_blocks_long)
qed

text \<open>What a context holds after the bytes \<open>m\<close>.\<close>

definition md5_inv :: "md5_ctx \<Rightarrow> u8 list \<Rightarrow> bool" where
  "md5_inv ctx m \<longleftrightarrow>
     md_count0 ctx = word_of_nat (8 * length m) \<and>
     md_count1 ctx = word_of_nat (8 * length m div 2 ^ 32) \<and>
     md_state ctx = fst (md5_blocks md5_init_state m) \<and>
     length (md_buffer ctx) = 64 \<and>
     take (length m mod 64) (md_buffer ctx) = snd (md5_blocks md5_init_state m)"

lemma md5_inv_init: "md5_inv (MD5Init old) []"
  by (simp add: md5_inv_def MD5Init_def md5_init_state_def)

lemma md5_index:
  "md_count0 ctx = word_of_nat (8 * n) \<Longrightarrow> unat (drop_bit 3 (md_count0 ctx) AND 0x3F) = n mod 64"
proof -
  assume c: "md_count0 ctx = word_of_nat (8 * n)"
  have m: "w AND 0x3F = take_bit 6 w" for w :: u32
    by (simp add: take_bit_eq_mask mask_eq_exp_minus_1)
  have "unat (drop_bit 3 (md_count0 ctx) AND 0x3F) = unat (md_count0 ctx) div 8 mod 64"
    unfolding m unsigned_take_bit_eq unsigned_drop_bit_eq
    using unsigned_less [of "md_count0 ctx", where ?'a = nat]
    by (simp add: take_bit_eq_mod drop_bit_eq_div)
  also have "\<dots> = 8 * n mod (8 * 2 ^ 29) div 8 mod 64"
    by (simp only: c unsigned_of_nat take_bit_eq_mod) simp
  also have "\<dots> = n mod 2 ^ 29 mod 64"
    by (simp only: mult_mod_right [symmetric]) simp
  also have "\<dots> = n mod 64"
    by (simp add: mod_mod_cancel)
  finally show ?thesis .
qed

lemma md5_count_carry:
  fixes a b :: nat
  assumes "b < 2 ^ 32"
  shows "(if (word_of_nat (8 * a) + push_bit 3 (word_of_nat b) :: u32) < push_bit 3 (word_of_nat b)
       then word_of_nat (8 * a div 2 ^ 32) + 1 else word_of_nat (8 * a div 2 ^ 32))
       + drop_bit 29 (word_of_nat b)
     = (word_of_nat (8 * (a + b) div 2 ^ 32) :: u32)"
proof -
  let ?M = "2 ^ 32 :: nat"
  let ?x = "8 * a mod ?M" and ?y = "8 * b mod ?M"
  have p: "push_bit 3 (word_of_nat b) = (word_of_nat (8 * b) :: u32)"
    by (simp add: push_bit_eq_mult)
  have d: "drop_bit 29 (word_of_nat b) = (word_of_nat (8 * b div ?M) :: u32)"
  proof -
    have "unat (drop_bit 29 (word_of_nat b) :: u32) = b div 2 ^ 29"
      using assms by (simp add: unsigned_drop_bit_eq unsigned_of_nat) (simp add: drop_bit_eq_div take_bit_eq_mod)
    also have "\<dots> = 8 * b div ?M" by (simp add: div_mult2_eq)
    finally show ?thesis by (metis of_nat_unat ucast_id)
  qed
  have less: "(word_of_nat (8 * a) + word_of_nat (8 * b) :: u32) < word_of_nat (8 * b) \<longleftrightarrow> ?M \<le> ?x + ?y"
  proof -
    have "unat (word_of_nat (8 * a) + word_of_nat (8 * b) :: u32) = (?x + ?y) mod ?M"
      by (simp add: unat_word_ariths unsigned_of_nat take_bit_eq_mod mod_simps)
    moreover have "unat (word_of_nat (8 * b) :: u32) = ?y"
      by (simp only: unsigned_of_nat take_bit_eq_mod) simp
    moreover have "?x < ?M" "?y < ?M" by simp_all
    then have "(?x + ?y) mod ?M < ?y \<longleftrightarrow> ?M \<le> ?x + ?y"
      by (cases "?x + ?y < ?M") (simp_all add: le_mod_geq not_less)
    ultimately show ?thesis by (simp add: word_less_nat_alt)
  qed
  have "8 * (a + b) div ?M = 8 * a div ?M + 8 * b div ?M + (?x + ?y) div ?M"
    using div_add1_eq [of "8 * a" "8 * b" ?M] by (simp only: distrib_left)
  moreover have "(?x + ?y) div ?M = (if ?M \<le> ?x + ?y then 1 else 0)"
  proof -
    have xy: "?x < ?M" "?y < ?M" by simp_all
    show ?thesis
    proof (cases "?M \<le> ?x + ?y")
      case True
      then have "(?x + ?y) div ?M = Suc ((?x + ?y - ?M) div ?M)"
        by (intro le_div_geq) auto
      with True xy show ?thesis by simp
    qed simp
  qed
  ultimately have "8 * (a + b) div ?M = 8 * a div ?M + 8 * b div ?M + (if ?M \<le> ?x + ?y then 1 else 0)"
    by (simp only:)
  then show ?thesis
    unfolding p d less by (simp only: of_nat_add) simp
qed

lemma md5_update_fields:
  assumes "md5_inv ctx m" "length x < 2 ^ 32"
  shows "md_count0 (md5_update ctx x) = word_of_nat (8 * length (m @ x))"
    and "md_count1 (md5_update ctx x) = word_of_nat (8 * length (m @ x) div 2 ^ 32)"
proof -
  have c: "md_count0 ctx = word_of_nat (8 * length m)" "md_count1 ctx = word_of_nat (8 * length m div 2 ^ 32)"
    using assms(1) by (simp_all add: md5_inv_def)
  show "md_count0 (md5_update ctx x) = word_of_nat (8 * length (m @ x))"
    by (simp add: md5_update_def Let_def split_def c push_bit_eq_mult algebra_simps)
  have "md_count1 (md5_update ctx x) =
     (if md_count0 ctx + push_bit 3 (word_of_nat (length x)) < push_bit 3 (word_of_nat (length x))
      then md_count1 ctx + 1 else md_count1 ctx) + drop_bit 29 (word_of_nat (length x))"
    unfolding md5_update_def Let_def split_def
    by (cases ctx)
      (simp only: if_distrib [of md_count1] if_cancel md5_ctx.select_convs md5_ctx.update_convs)
  then show "md_count1 (md5_update ctx x) = word_of_nat (8 * length (m @ x) div 2 ^ 32)"
    using md5_count_carry [OF assms(2), of "length m"] by (simp only: c length_append)
qed

lemma md5_update_branches:
  assumes "unat (drop_bit 3 (md_count0 ctx) AND 0x3F) = i"
  shows "64 - i \<le> length x \<Longrightarrow>
      md_state (md5_update ctx x) = fst (md5_blocks (MD5Transform (md_state ctx)
        (put i (take (64 - i) x) (md_buffer ctx))) (drop (64 - i) x)) \<and>
      md_buffer (md5_update ctx x) = put 0 (snd (md5_blocks (MD5Transform (md_state ctx)
        (put i (take (64 - i) x) (md_buffer ctx))) (drop (64 - i) x))) (put i (take (64 - i) x) (md_buffer ctx))"
    and "\<not> 64 - i \<le> length x \<Longrightarrow>
      md_state (md5_update ctx x) = md_state ctx \<and>
      md_buffer (md5_update ctx x) = put i x (md_buffer ctx)"
  unfolding md5_update_def Let_def split_def assms
  by (cases ctx; simp only: if_True if_False md5_ctx.select_convs md5_ctx.update_convs simp_thms)+

lemma md5_inv_update:
  assumes inv: "md5_inv ctx m" and len: "length x < 2 ^ 32"
  shows "md5_inv (md5_update ctx x) (m @ x)"
proof -
  let ?i = "length m mod 64"
  obtain s r where sr: "md5_blocks md5_init_state m = (s, r)" by (cases "md5_blocks md5_init_state m")
  have i: "unat (drop_bit 3 (md_count0 ctx) AND 0x3F) = ?i"
    using inv by (intro md5_index) (simp add: md5_inv_def)
  have r: "length r = ?i" "take ?i (md_buffer ctx) = r" "md_state ctx = s" "length (md_buffer ctx) = 64"
    using inv length_md5_rest [of md5_init_state m] by (simp_all add: md5_inv_def sr)
  have app: "md5_blocks md5_init_state (m @ x) = md5_blocks s (r @ x)"
    using md5_blocks_append [of md5_init_state m x] sr by simp
  have "md_state (md5_update ctx x) = fst (md5_blocks s (r @ x)) \<and>
      length (md_buffer (md5_update ctx x)) = 64 \<and>
      take (length (m @ x) mod 64) (md_buffer (md5_update ctx x)) = snd (md5_blocks s (r @ x))"
  proof (cases "64 - ?i \<le> length x")
    case True
    have il: "?i < 64" by simp
    have buf: "put ?i (take (64 - ?i) x) (md_buffer ctx) = r @ take (64 - ?i) x"
      using True r il by (simp add: put_def)
    have long: "md5_blocks s (r @ x) = md5_blocks (MD5Transform s (r @ take (64 - ?i) x)) (drop (64 - ?i) x)"
      using True r(1) by (simp add: md5_blocks_long)
    obtain s' r' where b: "md5_blocks (MD5Transform s (r @ take (64 - ?i) x)) (drop (64 - ?i) x) = (s', r')"
      by (cases "md5_blocks (MD5Transform s (r @ take (64 - ?i) x)) (drop (64 - ?i) x)")
    have r': "length r' = length (m @ x) mod 64"
      using length_md5_rest [of md5_init_state "m @ x"] app long b by simp
    then have "length r' < 64" by simp
    then have "length (put 0 r' (r @ take (64 - ?i) x)) = 64"
      using True r(1) il by simp
    then show ?thesis
      using md5_update_branches(1) [OF i True] r' \<open>length r' < 64\<close>
      by (simp only: buf r(3) long b fst_conv snd_conv) (simp add: put_def)
  next
    case False
    then have "length (r @ x) < 64" using r(1) by simp
    moreover have "length (m @ x) mod 64 = ?i + length x"
      using False mod_add_left_eq [of "length m" 64 "length x"] by simp
    ultimately show ?thesis
      using md5_update_branches(2) [OF i False] False r by (simp add: put_def)
  qed
  then show ?thesis
    using md5_update_fields [OF inv len] by (simp add: md5_inv_def app)
qed

lemma MD5Encode_number:
  "MD5Encode [word_of_nat n, word_of_nat (n div 2 ^ 32)] = map (\<lambda>i. word_of_nat (n div 2 ^ (8 * i))) [0..<8]"
proof -
  have byte: "(ucast (drop_bit k (word_of_nat a :: u32) AND 0xFF) :: u8) = word_of_nat (a div 2 ^ k)"
    if "k + 8 \<le> 32" for a k :: nat
  proof -
    have m: "w AND 0xFF = take_bit 8 w" for w :: u32
      by (simp add: take_bit_eq_mask mask_eq_exp_minus_1)
    show ?thesis
      unfolding m using that
      by (intro bit_word_eqI) (auto simp: bit_simps drop_bit_eq_div [symmetric])
  qed
  have "[0..<8] = [0, 1, 2, 3, 4, 5, 6, 7::nat]" by (simp add: upt_rec)
  then show ?thesis
    using byte [of 0] byte [of 8] byte [of 16] byte [of 24]
    by (simp flip: div_mult2_eq)
qed

lemma MD5Encode_count:
  "MD5Encode [word_of_nat (8 * n), word_of_nat (8 * n div 2 ^ 32)] = len_bytes n"
  by (simp only: MD5Encode_number len_bytes_def)

lemma md5_final_spec:
  assumes inv: "md5_inv ctx m"
  shows "md5_final ctx = md5_spec m"
proof -
  let ?i = "length m mod 64"
  let ?p = "if ?i < 56 then 56 - ?i else 120 - ?i"
  have i: "unat (drop_bit 3 (md_count0 ctx) AND 0x3F) = ?i"
    using inv by (intro md5_index) (simp add: md5_inv_def)
  have lp: "length (take ?p PADDING) < 2 ^ 32" by (simp add: PADDING_def)
  have lb: "length (len_bytes (length m)) < 2 ^ 32" by (simp add: len_bytes_def)
  have il: "?i < 64" by simp
  then obtain q where q: "?p = Suc q" "q < 64" "q = (119 - ?i) mod 64"
    by (cases "?i < 56") (auto simp: le_mod_geq that [of "55 - ?i"] that [of "119 - ?i"])
  have pad: "take ?p PADDING = [0x80] @ replicate ((119 - ?i) mod 64) 0"
    using q(2) unfolding q(1) q(3) [symmetric] by (simp add: PADDING_def)
  have bits: "MD5Encode [md_count0 ctx, md_count1 ctx] = len_bytes (length m)"
    using inv MD5Encode_count [of "length m"] by (simp add: md5_inv_def)
  have "md5_inv (md5_update (md5_update ctx (take ?p PADDING)) (len_bytes (length m)))
      ((m @ take ?p PADDING) @ len_bytes (length m))"
    by (intro md5_inv_update inv lp lb)
  then have "md_state (md5_update (md5_update ctx (take ?p PADDING)) (len_bytes (length m))) =
      fold (\<lambda>b st. MD5Transform st b) (chunks 64 (md5_padded m)) md5_init_state"
    by (simp add: md5_inv_def md5_padded_def md5_blocks_chunks pad)
  then show ?thesis
    by (simp only: md5_final_def Let_def i bits md5_spec_def)
qed

lemma md5_incremental_one:
  assumes "length x < 2 ^ 32 - 64"
  shows "rbind (MD5Update (MD5Init old) x) MD5Final = Inr (md5_spec x)"
proof -
  have "md5_inv (md5_update (MD5Init old) x) ([] @ x)" using assms by (intro md5_inv_update md5_inv_init) simp
  from md5_final_spec [OF this] show ?thesis using assms by (simp add: MD5Update_short MD5Final_total)
qed

text \<open>
  C28. Feeding a message to the context in any number of pieces, empty ones and pieces that
  straddle block boundaries included, and finalising gives the MD5 digest of the whole
  message (padding, bit length and block chaining as MD5 defines them), whatever the
  uninitialised buffer of the context held. A piece may have up to \<open>2^32 - 65\<close> bytes; with more
  the 32 bit index of the block loop can wrap.
\<close>

theorem md5_incremental:
  assumes "\<forall>x \<in> set xs. length x < 2 ^ 32 - 64"
  shows "rbind (foldl (\<lambda>ctx x. rbind ctx (\<lambda>ctx. MD5Update ctx x)) (Inr (MD5Init old)) xs) MD5Final = Inr (md5_spec (concat xs))"
proof -
  have "md5_inv ctx m \<Longrightarrow> \<forall>x \<in> set xs. length x < 2 ^ 32 - 64 \<Longrightarrow>
      \<exists>ctx'. foldl (\<lambda>ctx x. rbind ctx (\<lambda>ctx. MD5Update ctx x)) (Inr ctx) xs = Inr ctx' \<and> md5_inv ctx' (m @ concat xs)" for ctx m
  proof (induction xs arbitrary: ctx m)
    case (Cons x xs)
    have "md5_inv (md5_update ctx x) (m @ x)" using Cons.prems by (intro md5_inv_update) auto
    from Cons.IH [OF this] Cons.prems(2) show ?case by (simp add: MD5Update_short)
  qed simp
  from this [OF md5_inv_init assms, of old] show ?thesis using md5_final_spec by (auto simp: MD5Final_total)
qed

theorem md5_incremental_witness:
  "rbind (foldl (\<lambda>ctx x. rbind ctx (\<lambda>ctx. MD5Update ctx x)) (Inr (MD5Init (\<lambda>_. 7))) [[1, 2], [], replicate 70 3]) MD5Final =
    Inr (md5_spec (concat [[1, 2], [], replicate 70 3]))"
  by (rule md5_incremental) simp

lemma length_my_hex [simp]: "length (my_hex bs) = 2 * length bs"
  by (induction bs) (auto simp: my_hex_def)

text \<open>
  The stored password hash of a user is a function of name and password only: it is the
  re-coded MD5 digest of the fixed head, the two inputs and the fixed tail put one after
  the other, always 32 characters, and independent of uninitialised memory.
\<close>

theorem mymd5_encrypt2_digest:
  assumes "length input1 < 2 ^ 32 - 64" "length input2 < 2 ^ 32 - 64"
  shows "MYMD5_ENCRYPT2 old input1 input2 =
    Inr (my_hex (md5_spec (MYMD5_HEAD @ input1 @ input2 @ MYMD5_TAIL)))"
proof -
  have h: "length MYMD5_HEAD < 2 ^ 32 - 64" "length MYMD5_TAIL < 2 ^ 32 - 64" by (simp_all add: MYMD5_HEAD_def MYMD5_TAIL_def)
  have m: "md5_inv (md5_update (md5_update (md5_update (md5_update (MD5Init old) MYMD5_HEAD) input1) input2)
      MYMD5_TAIL) (((([] @ MYMD5_HEAD) @ input1) @ input2) @ MYMD5_TAIL)"
    using assms h by (intro md5_inv_update md5_inv_init) simp_all
  show ?thesis
    using md5_final_spec [OF m] h assms by (simp add: MYMD5_ENCRYPT2_def MD5Update_short MD5Final_total)
qed

theorem mymd5_encrypt2_digest_witness:
  "MYMD5_ENCRYPT2 (\<lambda>_. 9) (map byte_of_char ''bob'') (map byte_of_char ''secret'') =
    Inr (my_hex (md5_spec (MYMD5_HEAD @ map byte_of_char ''bob'' @ map byte_of_char ''secret'' @ MYMD5_TAIL)))"
  by (rule mymd5_encrypt2_digest) simp_all

lemma length_md5_spec [simp]: "length (md5_spec m) = 16"
  by (simp add: md5_spec_def state_words_def split_def)

lemma length_md5_final [simp]: "length (md5_final ctx) = 16"
  by (simp add: md5_final_def Let_def state_words_def split_def)

text \<open>
  The code computes the published MD5 test vector (RFC 1321, A.5) for \<open>abc\<close>.
\<close>

theorem md5_known_answer:
  "MD5 (\<lambda>_. 0) (map byte_of_char ''abc'') = Inr ''900150983CD24FB0D6963F7D28E17F72''"
  by code_simp

end
