(* ===== verification/EncryBook.thy ===== *)
theory EncryBook
  imports Prelude
begin

text \<open>
  \<open>antlib/commandlib/encry_book.c\<close> and \<open>encry_book.h\<close>: a byte substitution cipher. The
  encoding table starts from a fixed table and is shuffled by swaps the key selects; the
  decoding table is filled from it.
\<close>

section \<open>State and tables\<close>

record encry_book =
  eb_enbook :: "u8 list"
  eb_debook :: "u8 list"
  eb_key :: u64

definition initbook :: "u8 list" where
  "initbook = [
   0xE3, 0xA4, 0xE5, 0x7C, 0x0B, 0x9E, 0xBC, 0xFD, 0x67, 0x14, 0xB0, 0x96, 0x44, 0x9A, 0xC2, 0x77,
   0x4F, 0xE9, 0xE1, 0xD6, 0x8B, 0xB4, 0x86, 0x1F, 0x25, 0xDB, 0x93, 0xD8, 0x62, 0xC9, 0xCA, 0x53,
   0xA8, 0xA2, 0xAD, 0x8C, 0x28, 0x64, 0x5A, 0x9B, 0xCD, 0xB7, 0x33, 0x3A, 0xB6, 0xF7, 0x46, 0x5D,
   0x32, 0x0E, 0xD9, 0x90, 0x36, 0xF6, 0x11, 0xAA, 0x54, 0x98, 0x66, 0x47, 0xCF, 0xC0, 0x17, 0x8E,
   0xB2, 0x07, 0x50, 0x72, 0xA3, 0xE2, 0x10, 0x34, 0xED, 0x4D, 0xF9, 0x20, 0x27, 0xB8, 0xC4, 0xBE,
   0x61, 0x37, 0x91, 0x9C, 0xCB, 0xAF, 0x09, 0x5E, 0x6E, 0xEF, 0xB9, 0x55, 0x0C, 0xFC, 0x9D, 0x26,
   0x95, 0x22, 0x1D, 0x2E, 0x7E, 0xD4, 0xC7, 0x29, 0xA6, 0x42, 0x74, 0xA5, 0xC1, 0x65, 0x35, 0x3C,
   0x0F, 0xC3, 0xA1, 0x2A, 0x13, 0x8F, 0x2B, 0x92, 0x06, 0x2C, 0x00, 0xFB, 0x68, 0x7F, 0xBB, 0xEE,
   0xAC, 0x43, 0x01, 0x51, 0x2F, 0x4C, 0x73, 0xCE, 0x60, 0x85, 0x52, 0x0D, 0xAE, 0xE8, 0x79, 0xE4,
   0x6F, 0x69, 0x19, 0x6C, 0x1B, 0x5C, 0xD0, 0xFF, 0xBF, 0x56, 0x38, 0xBA, 0x24, 0x04, 0x39, 0xF8,
   0x3F, 0xB3, 0x9F, 0x16, 0xF1, 0xE6, 0x6D, 0x49, 0x12, 0xD1, 0x81, 0x03, 0x57, 0xD7, 0xCC, 0x18,
   0x7B, 0x6B, 0x63, 0x5F, 0xA0, 0x87, 0xEB, 0x5B, 0xF4, 0x76, 0xF2, 0x45, 0x41, 0x02, 0xC6, 0x78,
   0x84, 0x3E, 0x83, 0x23, 0xEC, 0xB5, 0x15, 0xC8, 0x05, 0x6A, 0x7D, 0x08, 0x75, 0x21, 0x58, 0xB1,
   0xDA, 0x99, 0xDF, 0xF0, 0x89, 0xD3, 0x0A, 0xAB, 0xDC, 0x3B, 0x30, 0x1A, 0x7A, 0x88, 0xDD, 0x59,
   0x4A, 0xC5, 0xA9, 0xF5, 0x2D, 0x4B, 0x71, 0xBD, 0xF3, 0x70, 0x8A, 0xD2, 0x4E, 0x1C, 0xDE, 0x80,
   0xE7, 0x94, 0xFA, 0xE0, 0x8D, 0x97, 0x48, 0xEA, 0x1E, 0x82, 0x3D, 0x40, 0x31, 0xA7, 0xD5, 0xFE]"

section \<open>Shuffling\<close>

text \<open>The macro \<open>EXCHANGE_ENCRYBOOK\<close>: nothing happens for equal indices.\<close>

definition exchange :: "u8 \<Rightarrow> u8 \<Rightarrow> u8 list \<Rightarrow> u8 list" where
  "exchange i j xs =
     (if i \<noteq> j then xs[unat i := xs ! unat j, unat j := xs ! unat i] else xs)"

text \<open>
  One turn of the loop: the bytes \<open>keys[k]\<close> and \<open>keys[k + 4]\<close> name two positions, which are
  exchanged, and both bytes are incremented (modulo 256), for \<open>k\<close> from 0 to 3.
\<close>

definition shuffle_at :: "nat \<Rightarrow> u8 list \<times> u8 list \<Rightarrow> u8 list \<times> u8 list" where
  "shuffle_at k = (\<lambda>(keys, en).
     (keys[k := keys ! k + 1, k + 4 := keys ! (k + 4) + 1], exchange (keys ! k) (keys ! (k + 4)) en))"

definition shuffle_turn :: "u8 list \<times> u8 list \<Rightarrow> u8 list \<times> u8 list" where
  "shuffle_turn = shuffle_at 3 \<circ> shuffle_at 2 \<circ> shuffle_at 1 \<circ> shuffle_at 0"

text \<open>The bytes of the key in memory; \<open>be\<close> is the byte order of the host.\<close>

definition key_bytes :: "bool \<Rightarrow> u64 \<Rightarrow> u8 list" where
  "key_bytes be key =
     (let le = map (\<lambda>i. ucast (drop_bit (8 * i) key)) [0..<8] in if be then rev le else le)"

text \<open>The loop that fills the decoding table, for \<open>n\<close> from 0 to 255.\<close>

definition fill_debook :: "u8 list \<Rightarrow> u8 list \<Rightarrow> u8 list" where
  "fill_debook en de = fold (\<lambda>n de. de[unat (en ! n) := word_of_nat n]) [0..<256] de"

definition update_encrybook :: "bool \<Rightarrow> nat \<Rightarrow> encry_book \<Rightarrow> encry_book" where
  "update_encrybook be turns book =
     (let (keys, en) = (shuffle_turn ^^ turns) (key_bytes be (eb_key book), eb_enbook book)
      in book\<lparr>eb_enbook := en, eb_debook := fill_debook en (eb_debook book)\<rparr>)"

text \<open>\<open>r1\<close> and \<open>r2\<close> are the two results of \<open>rand\<close>.\<close>

definition create_encrybook_key :: "u64 \<Rightarrow> u64 \<Rightarrow> u64" where
  "create_encrybook_key r1 r2 = (0x1010101008080808 OR push_bit 32 r1 OR r2)"

definition get_encrybook :: "bool \<Rightarrow> u64 \<Rightarrow> encry_book \<Rightarrow> encry_book" where
  "get_encrybook be key book =
     update_encrybook be 8 (book\<lparr>eb_enbook := initbook, eb_key := key\<rparr>)"

text \<open>The books of a list get keys made from successive pairs of random numbers.\<close>

fun create_encrybooks :: "bool \<Rightarrow> (u64 \<times> u64) list \<Rightarrow> encry_book list \<Rightarrow> encry_book list" where
  "create_encrybooks be ((r1, r2) # rs) (b # bs) =
     update_encrybook be 8 (b\<lparr>eb_enbook := initbook, eb_key := create_encrybook_key r1 r2\<rparr>)
     # create_encrybooks be rs bs"
| "create_encrybooks be _ bs = bs"

section \<open>Encrypting and decrypting\<close>

definition encry :: "encry_book \<Rightarrow> u8 list \<Rightarrow> u8 list" where
  "encry book datas = map (\<lambda>d. eb_enbook book ! unat d) datas"

definition unencry :: "encry_book \<Rightarrow> u8 list \<Rightarrow> u8 list" where
  "unencry book datas = map (\<lambda>d. eb_debook book ! unat d) datas"

section \<open>The tables are inverse permutations\<close>

text \<open>Both tables have 256 entries; no two positions of the encoding table agree.\<close>

definition book_ok :: "encry_book \<Rightarrow> bool" where
  "book_ok b \<longleftrightarrow> length (eb_enbook b) = 256 \<and> length (eb_debook b) = 256 \<and> distinct (eb_enbook b)"

lemma unat_u8_less [simp]: "unat (x :: u8) < 256"
  using unsigned_less [of x, where ?'a = nat] by simp

text \<open>Whether a list repeats an element, decided by halving the range of its elements.\<close>

primrec halves_distinct :: "nat \<Rightarrow> int \<Rightarrow> int list \<Rightarrow> bool" where
  "halves_distinct 0 b xs = (case xs of [] \<Rightarrow> True | x # ys \<Rightarrow> ys = [])"
| "halves_distinct (Suc k) b xs =
     (halves_distinct k b (filter (\<lambda>x. x < b + 2 ^ k) xs) \<and>
      halves_distinct k (b + 2 ^ k) (filter (\<lambda>x. \<not> x < b + 2 ^ k) xs))"

lemma distinct_filter_split: "distinct (filter P xs) \<Longrightarrow> distinct (filter (\<lambda>x. \<not> P x) xs) \<Longrightarrow> distinct xs"
  by (induction xs) (auto split: if_splits)

lemma halves_distinct: "halves_distinct k b xs \<Longrightarrow> distinct xs"
proof (induction k arbitrary: b xs)
  case 0
  then show ?case by (auto split: list.splits)
next
  case (Suc k)
  then show ?case by (auto intro: distinct_filter_split [of "\<lambda>x. x < b + 2 ^ k"])
qed

lemma initbook_perm: "length initbook = 256" "distinct initbook"
proof -
  show "length initbook = 256" unfolding initbook_def by (simp only: list.size)
  have "halves_distinct 8 0 (map uint initbook)"
    unfolding initbook_def list.map uint_numeral unsigned_0
    by (simp only: len_num0 len_bit0 len_bit1 len_num1) code_simp
  then have "distinct (map uint initbook)" by (rule halves_distinct)
  then show "distinct initbook" by (simp add: distinct_map)
qed

lemma exchange_perm:
  assumes "length xs = 256"
  shows "length (exchange i j xs) = 256" "distinct (exchange i j xs) = distinct xs"
  using assms by (auto simp: exchange_def distinct_swap)

lemma shuffle_at_perm:
  "length (snd p) = 256 \<Longrightarrow> distinct (snd p) \<Longrightarrow>
   length (snd (shuffle_at k p)) = 256 \<and> distinct (snd (shuffle_at k p))"
  by (cases p) (simp add: shuffle_at_def exchange_perm)

lemma shuffle_turns_perm:
  "length (snd p) = 256 \<Longrightarrow> distinct (snd p) \<Longrightarrow>
   length (snd ((shuffle_turn ^^ n) p)) = 256 \<and> distinct (snd ((shuffle_turn ^^ n) p))"
  by (induction n) (auto simp: shuffle_turn_def shuffle_at_perm)

lemma fill_debook_aux:
  fixes en :: "u8 list"
  assumes "length en = 256" "distinct en" "length de = 256" "m \<le> 256"
  shows "length (fold (\<lambda>n de. de[unat (en ! n) := word_of_nat n]) [0..<m] de) = 256 \<and>
    (\<forall>k < m. fold (\<lambda>n de. de[unat (en ! n) := word_of_nat n]) [0..<m] de ! unat (en ! k) = word_of_nat k)"
  using \<open>m \<le> 256\<close>
proof (induction m)
  case 0
  then show ?case using assms by simp
next
  case (Suc m)
  then show ?case
    using assms unat_u8_less [of "en ! m"]
    by (auto simp: nth_list_update less_Suc_eq nth_eq_iff_index_eq simp flip: word_unat_eq_iff simp del: unat_u8_less)
qed

lemma fill_debook:
  assumes "length en = 256" "distinct en" "length de = 256"
  shows "length (fill_debook en de) = 256"
    and "k < 256 \<Longrightarrow> fill_debook en de ! unat (en ! k) = word_of_nat k"
  using fill_debook_aux [OF assms, of 256] by (auto simp only: fill_debook_def)

lemma update_encrybook_ok:
  assumes "book_ok b"
  shows "book_ok (update_encrybook be turns b)"
    and "k < 256 \<Longrightarrow>
      eb_debook (update_encrybook be turns b) ! unat (eb_enbook (update_encrybook be turns b) ! k) = word_of_nat k"
proof -
  obtain ks en where s: "(shuffle_turn ^^ turns) (key_bytes be (eb_key b), eb_enbook b) = (ks, en)"
    by (cases "(shuffle_turn ^^ turns) (key_bytes be (eb_key b), eb_enbook b)")
  have en: "length en = 256" "distinct en"
    using assms shuffle_turns_perm [of "(key_bytes be (eb_key b), eb_enbook b)" turns]
    by (simp_all add: s book_ok_def)
  have de: "length (eb_debook b) = 256" using assms by (simp add: book_ok_def)
  show "book_ok (update_encrybook be turns b)"
    using en de fill_debook(1) [OF en de] by (simp add: update_encrybook_def s book_ok_def)
  show "k < 256 \<Longrightarrow> eb_debook (update_encrybook be turns b) !
      unat (eb_enbook (update_encrybook be turns b) ! k) = word_of_nat k"
    using fill_debook(2) [OF en de] by (simp add: update_encrybook_def s)
qed

text \<open>
  C33. Decryption inverts encryption, and encryption inverts decryption, for every key,
  every data and a host of either byte order: the swaps keep the encoding table a
  permutation of the 256 byte values, and the decoding table is its inverse.
\<close>

theorem encry_roundtrip:
  assumes "length (eb_debook b) = 256"
  shows "unencry (get_encrybook be key b) (encry (get_encrybook be key b) datas) = datas \<and>
    encry (get_encrybook be key b) (unencry (get_encrybook be key b) datas) = datas"
proof -
  let ?b = "get_encrybook be key b"
  let ?en = "eb_enbook ?b" and ?de = "eb_debook ?b"
  have ok: "book_ok (b\<lparr>eb_enbook := initbook, eb_key := key\<rparr>)"
    using assms initbook_perm by (simp add: book_ok_def)
  have bk: "length ?en = 256" "distinct ?en" "length ?de = 256"
    using update_encrybook_ok(1) [OF ok] by (simp_all add: get_encrybook_def book_ok_def)
  have inv: "?de ! unat (?en ! unat x) = x" for x :: u8
    using update_encrybook_ok(2) [OF ok, of "unat x"] by (simp add: get_encrybook_def)
  then have ed: "unencry ?b (encry ?b datas) = datas"
    by (simp add: unencry_def encry_def comp_def)
  have "inj (\<lambda>x :: u8. ?en ! unat x)"
    using bk by (auto simp: inj_def nth_eq_iff_index_eq simp flip: word_unat_eq_iff)
  then have onto: "surj (\<lambda>x :: u8. ?en ! unat x)"
    by (rule finite_UNIV_inj_surj [OF finite])
  have "?en ! unat (?de ! unat y) = y" for y :: u8
  proof -
    obtain x :: u8 where "y = ?en ! unat x" using surjD [OF onto, of y] by blast
    then show ?thesis by (simp only: inv)
  qed
  then have "encry ?b (unencry ?b datas) = datas"
    by (simp add: unencry_def encry_def comp_def)
  then show ?thesis using ed by blast
qed

theorem encry_roundtrip_witness:
  "unencry (get_encrybook False 0x1010101008080808 \<lparr>eb_enbook = [], eb_debook = replicate 256 0, eb_key = 0\<rparr>)
     (encry (get_encrybook False 0x1010101008080808 \<lparr>eb_enbook = [], eb_debook = replicate 256 0, eb_key = 0\<rparr>)
       [72, 105, 0, 255]) = [72, 105, 0, 255]"
  using encry_roundtrip [of "\<lparr>eb_enbook = [], eb_debook = replicate 256 0, eb_key = 0\<rparr>"] by simp

end
