(* ===== verification/StringMap.thy ===== *)
theory StringMap
  imports Prelude
begin

text \<open>
  The contract of a table from C strings to pointers, as its clients use it: a lookup, an
  insertion that refuses a key which is present, and a removal that returns what it
  removed. A run of such operations behaves like a run over a finite map.
\<close>

datatype 'v map_op = MGet string | MSet string 'v | MDel string

datatype 'v map_res = RPtr "'v option" | RInt int

primrec op_key :: "'v map_op \<Rightarrow> string" where
  "op_key (MGet k) = k"
| "op_key (MSet k v) = k"
| "op_key (MDel k) = k"

text \<open>One operation, and a run, on an implementation given by its three functions.\<close>

fun map_step ::
  "('h \<Rightarrow> string option \<Rightarrow> fault + 'v option) \<Rightarrow>
   ('h \<Rightarrow> string option \<Rightarrow> 'v option \<Rightarrow> fault + int \<times> 'h) \<Rightarrow>
   ('h \<Rightarrow> string option \<Rightarrow> fault + 'v option \<times> 'h) \<Rightarrow> 'h \<Rightarrow> 'v map_op \<Rightarrow> fault + 'v map_res \<times> 'h" where
  "map_step lkp ins del h (MGet k) = rbind (lkp h (Some k)) (\<lambda>r. Inr (RPtr r, h))"
| "map_step lkp ins del h (MSet k v) = rbind (ins h (Some k) (Some v)) (\<lambda>(r, h'). Inr (RInt r, h'))"
| "map_step lkp ins del h (MDel k) = rbind (del h (Some k)) (\<lambda>(r, h'). Inr (RPtr r, h'))"

primrec map_run :: "('h \<Rightarrow> 'o \<Rightarrow> fault + 'r \<times> 'h) \<Rightarrow> 'o list \<Rightarrow> 'h \<Rightarrow> fault + 'r list \<times> 'h" where
  "map_run step [] h = Inr ([], h)"
| "map_run step (x # xs) h =
     rbind (step h x) (\<lambda>(r, h'). rbind (map_run step xs h') (\<lambda>(rs, h''). Inr (r # rs, h'')))"

text \<open>The same on a finite map.\<close>

fun spec_step :: "(string \<Rightarrow> 'v option) \<Rightarrow> 'v map_op \<Rightarrow> 'v map_res \<times> (string \<Rightarrow> 'v option)" where
  "spec_step m (MGet k) = (RPtr (m k), m)"
| "spec_step m (MSet k v) = (if m k = None then (RInt 0, m(k \<mapsto> v)) else (RInt (-1), m))"
| "spec_step m (MDel k) = (RPtr (m k), m(k := None))"

primrec spec_run :: "'v map_op list \<Rightarrow> (string \<Rightarrow> 'v option) \<Rightarrow> 'v map_res list \<times> (string \<Rightarrow> 'v option)" where
  "spec_run [] m = ([], m)"
| "spec_run (x # xs) m = (let (r, m1) = spec_step m x; (rs, m2) = spec_run xs m1 in (r # rs, m2))"

locale string_map =
  fixes lkp :: "'h \<Rightarrow> string option \<Rightarrow> fault + 'v option"
    and ins :: "'h \<Rightarrow> string option \<Rightarrow> 'v option \<Rightarrow> fault + int \<times> 'h"
    and del :: "'h \<Rightarrow> string option \<Rightarrow> fault + 'v option \<times> 'h"
    and inv :: "'h \<Rightarrow> bool"
    and ok :: "string \<Rightarrow> bool"
    and absm :: "'h \<Rightarrow> string \<Rightarrow> 'v option"
  assumes get_ok: "inv h \<Longrightarrow> ok k \<Longrightarrow> lkp h (Some k) = Inr (absm h k)"
    and set_ok: "inv h \<Longrightarrow> ok k \<Longrightarrow>
      \<exists>h'. ins h (Some k) (Some v) = Inr (if absm h k = None then 0 else -1, h') \<and> inv h' \<and>
           absm h' = (if absm h k = None then (absm h)(k \<mapsto> v) else absm h)"
    and del_ok: "inv h \<Longrightarrow> ok k \<Longrightarrow>
      \<exists>h'. del h (Some k) = Inr (absm h k, h') \<and> inv h' \<and> absm h' = (absm h)(k := None)"
begin

lemma step_refines:
  assumes "inv h" "ok (op_key x)"
  shows "\<exists>h'. map_step lkp ins del h x = Inr (fst (spec_step (absm h) x), h') \<and> inv h' \<and>
    absm h' = snd (spec_step (absm h) x)"
proof (cases x)
  case (MGet k)
  then show ?thesis using assms get_ok [of h k] by simp
next
  case (MSet k v)
  then show ?thesis using assms set_ok [of h k v] by auto
next
  case (MDel k)
  then show ?thesis using assms del_ok [of h k] by auto
qed

lemma run_refines:
  assumes "inv h" "list_all (\<lambda>x. ok (op_key x)) xs"
  shows "\<exists>h'. map_run (map_step lkp ins del) xs h = Inr (fst (spec_run xs (absm h)), h') \<and> inv h' \<and>
    absm h' = snd (spec_run xs (absm h))"
  using assms
proof (induction xs arbitrary: h)
  case (Cons x xs)
  obtain h1 where h1: "map_step lkp ins del h x = Inr (fst (spec_step (absm h) x), h1)"
    "inv h1" "absm h1 = snd (spec_step (absm h) x)"
    using step_refines [of h x] Cons.prems by auto
  obtain h2 where "map_run (map_step lkp ins del) xs h1 = Inr (fst (spec_run xs (absm h1)), h2)"
    "inv h2" "absm h2 = snd (spec_run xs (absm h1))"
    using Cons.IH [of h1] Cons.prems h1(2) by auto
  with h1 show ?case by (auto simp: split_beta)
qed simp

end

end
