(* ===== verification/StrHash.thy ===== *)
theory StrHash
  imports StringMap "HOL-Library.Multiset"
begin

text \<open>
  \<open>antlib/commandlib/hash.c\<close> and \<open>hash.h\<close>: a hash table from C strings to pointers with
  80 chains, selected by the first character of the key. The chains are lists of nodes;
  the table keeps the caller's key pointers, so the model takes their contents to stay
  as they were when the key was inserted. Pointers that may be null are options.
\<close>

section \<open>State\<close>

record 'v str_hash_node =
  sn_key :: "string option"
  sn_vl :: "'v option"

record 'v str_hash =
  sh_count :: int
  sh_cap :: "'v str_hash_node list list"

definition STRHASH_CAP_MAX :: nat where
  "STRHASH_CAP_MAX = 80"

section \<open>Chain indices\<close>

text \<open>The characters \<open>init_hash_master\<close> numbers, from 1, in its order.\<close>

definition keylist_chars :: "nat list" where
  "keylist_chars = [97..<123] @ [65..<91] @ [48..<58] @
     map nat_char (''!@#$%'' @ ''^=&*-_'' @ ''.?;:,'' @ '' '' @ [CHR 0x09])"

definition init_hash_master :: "int list" where
  "init_hash_master =
     fold (\<lambda>(n, c) kl. kl[c := int n]) (List.enumerate 1 keylist_chars) (replicate 256 0)"

definition get_strindex :: "string option \<Rightarrow> int" where
  "get_strindex key =
     (case key of
        Some (c # _) \<Rightarrow> if c \<noteq> NUL then init_hash_master ! nat_char c else 0
      | _ \<Rightarrow> 0)"

text \<open>\<open>strcmp\<close> of two pointers, as a test for equality.\<close>

definition streq :: "string option \<Rightarrow> string option \<Rightarrow> fault + bool" where
  "streq a b = rbind (deref a) (\<lambda>x. rbind (deref b) (\<lambda>y. Inr (cstr x = cstr y)))"

section \<open>Operations\<close>

definition init_str_hash :: "'v str_hash" where
  "init_str_hash = \<lparr>sh_count = 0, sh_cap = replicate STRHASH_CAP_MAX []\<rparr>"

text \<open>The chain of an index: \<open>h->_cap[index]\<close>.\<close>

definition chain :: "'v str_hash \<Rightarrow> int \<Rightarrow> fault + 'v str_hash_node list" where
  "chain h index = rd (sh_cap h) (nat index)"

primrec find_node :: "string option \<Rightarrow> 'v str_hash_node list \<Rightarrow> fault + 'v option" where
  "find_node key [] = Inr None"
| "find_node key (n # ns) =
     rbind (streq (sn_key n) key) (\<lambda>eq. if eq then Inr (sn_vl n) else find_node key ns)"

definition get_str_hash :: "'v str_hash \<Rightarrow> string option \<Rightarrow> fault + 'v option" where
  "get_str_hash h key =
     (let index = get_strindex key
      in if index = -1 then Inr None else rbind (chain h index) (find_node key))"

definition set_str_hash :: "'v str_hash \<Rightarrow> string option \<Rightarrow> 'v option \<Rightarrow> fault + int \<times> 'v str_hash" where
  "set_str_hash h key vl =
     (let index = get_strindex key
      in if index = -1 then Inr (-1, h)
         else rbind (get_str_hash h key) (\<lambda>old.
           if old \<noteq> None then Inr (-1, h)
           else rbind (chain h index) (\<lambda>ns.
             Inr (0, h\<lparr>sh_cap := (sh_cap h)[nat index := \<lparr>sn_key = key, sn_vl = vl\<rparr> # ns],
                       sh_count := sh_count h + 1\<rparr>))))"

text \<open>The search through \<open>node->_next\<close>: the value found and the chain without its node.\<close>

primrec unlink_node :: "string option \<Rightarrow> 'v str_hash_node list \<Rightarrow> fault + 'v option \<times> 'v str_hash_node list" where
  "unlink_node key [] = Inr (None, [])"
| "unlink_node key (n # ns) =
     rbind (streq (sn_key n) key) (\<lambda>eq.
       if eq then Inr (sn_vl n, ns)
       else rbind (unlink_node key ns) (\<lambda>(v, ns'). Inr (v, n # ns')))"

definition del_str_hash :: "'v str_hash \<Rightarrow> string option \<Rightarrow> fault + 'v option \<times> 'v str_hash" where
  "del_str_hash h key =
     (let index = get_strindex key
      in if index = -1 then Inr (None, h)
         else rbind (chain h index) (\<lambda>ns.
           if ns = [] then Inr (None, h)
           else rbind (unlink_node key ns) (\<lambda>(v, ns').
             Inr (v, h\<lparr>sh_cap := (sh_cap h)[nat index := ns']\<rparr>))))"

text \<open>
  \<open>doall_strhash\<close>: per chain, the nodes after the first one, then the first one. The
  callbacks work on a state of the caller.
\<close>

primrec doall_rest ::
  "('v option \<Rightarrow> 's \<Rightarrow> int \<times> 's) \<Rightarrow> ('v option \<Rightarrow> 's \<Rightarrow> 's) \<Rightarrow> 'v str_hash_node list \<Rightarrow> 's \<Rightarrow>
   'v str_hash_node list \<times> 's" where
  "doall_rest dof freef [] s = ([], s)"
| "doall_rest dof freef (n # ns) s =
     (let (r, s1) = dof (sn_vl n) s
      in if r \<noteq> 0 then doall_rest dof freef ns (freef (sn_vl n) s1)
         else let (ns', s2) = doall_rest dof freef ns s1 in (n # ns', s2))"

fun doall_chain ::
  "('v option \<Rightarrow> 's \<Rightarrow> int \<times> 's) \<Rightarrow> ('v option \<Rightarrow> 's \<Rightarrow> 's) \<Rightarrow> 'v str_hash_node list \<Rightarrow> 's \<Rightarrow>
   'v str_hash_node list \<times> 's" where
  "doall_chain dof freef [] s = ([], s)"
| "doall_chain dof freef (n # ns) s =
     (let (ns', s1) = doall_rest dof freef ns s;
          (r, s2) = dof (sn_vl n) s1
      in if r \<noteq> 0 then (ns', freef (sn_vl n) s2) else (n # ns', s2))"

primrec doall_chains ::
  "('v option \<Rightarrow> 's \<Rightarrow> int \<times> 's) \<Rightarrow> ('v option \<Rightarrow> 's \<Rightarrow> 's) \<Rightarrow> 'v str_hash_node list list \<Rightarrow> 's \<Rightarrow>
   'v str_hash_node list list \<times> 's" where
  "doall_chains dof freef [] s = ([], s)"
| "doall_chains dof freef (c # cs) s =
     (let (c', s1) = doall_chain dof freef c s;
          (cs', s2) = doall_chains dof freef cs s1
      in (c' # cs', s2))"

definition doall_strhash ::
  "'v str_hash \<Rightarrow> ('v option \<Rightarrow> 's \<Rightarrow> int \<times> 's) \<Rightarrow> ('v option \<Rightarrow> 's \<Rightarrow> 's) \<Rightarrow> 's \<Rightarrow> 'v str_hash \<times> 's" where
  "doall_strhash h dof freef s =
     (let (cap, s') = doall_chains dof freef (sh_cap h) s in (h\<lparr>sh_cap := cap\<rparr>, s'))"

text \<open>\<open>clear_str_hash\<close>; a null \<open>free_data\<close> is not called.\<close>

definition clear_str_hash ::
  "'v str_hash \<Rightarrow> ('v option \<Rightarrow> 's \<Rightarrow> 's) option \<Rightarrow> 's \<Rightarrow> 'v str_hash \<times> 's" where
  "clear_str_hash h free_data s =
     (init_str_hash,
      case free_data of None \<Rightarrow> s | Some f \<Rightarrow> fold (\<lambda>n. f (sn_vl n)) (concat (sh_cap h)) s)"

section \<open>Indices\<close>

lemma length_numbering [simp]:
  "length (fold (\<lambda>(n, c) kl. kl[c := int n]) ps kl) = length kl"
  by (induction ps arbitrary: kl) auto

lemma numbering_bounds:
  "list_all (\<lambda>x. 0 \<le> x \<and> x < b) kl \<Longrightarrow> list_all (\<lambda>(n, c). int n < b) ps \<Longrightarrow>
   list_all (\<lambda>x. 0 \<le> x \<and> x < b) (fold (\<lambda>(n, c) kl. kl[c := int n]) ps kl)"
proof (induction ps arbitrary: kl)
  case (Cons p ps)
  obtain n c where p: "p = (n, c)" by (cases p)
  have "list_all (\<lambda>x. 0 \<le> x \<and> x < b) (kl[c := int n])"
    using Cons.prems by (cases "c < length kl") (auto simp: p list_all_length nth_list_update)
  then show ?case using Cons.IH [of "kl[c := int n]"] Cons.prems(2) by (simp add: p)
qed simp

lemma length_init_hash_master [simp]: "length init_hash_master = 256"
  by (simp add: init_hash_master_def)

text \<open>All characters but the tab, which is the last one, get a number below 80.\<close>

lemma keylist_nth:
  assumes "n < 256"
  shows "0 \<le> init_hash_master ! n" "init_hash_master ! n \<le> 80" "init_hash_master ! n = 80 \<longleftrightarrow> n = 9"
proof -
  have chars: "keylist_chars = butlast keylist_chars @ [9]" "length keylist_chars = 80"
    by (code_simp, code_simp)
  let ?kl = "fold (\<lambda>(n, c) kl. kl[c := int n]) (List.enumerate 1 (butlast keylist_chars)) (replicate 256 0)"
  have "init_hash_master = ?kl[9 := 80]"
    unfolding init_hash_master_def by (subst chars(1)) (simp add: enumerate_append_eq chars(2))
  moreover have "list_all (\<lambda>x. 0 \<le> x \<and> x < 80) ?kl"
    by (rule numbering_bounds) (auto simp: list_all_iff chars(2) in_set_enumerate_eq)
  moreover have "length ?kl = 256" by simp
  ultimately obtain kl where kl: "init_hash_master = kl[9 := 80]"
    "list_all (\<lambda>x. 0 \<le> x \<and> x < 80) kl" "length kl = 256" by blast
  then show "0 \<le> init_hash_master ! n" "init_hash_master ! n \<le> 80" "init_hash_master ! n = 80 \<longleftrightarrow> n = 9"
    using assms unfolding kl(1) by (force simp: list_all_length nth_list_update)+
qed

text \<open>A key whose first character is not a tab.\<close>

definition key_ok :: "string \<Rightarrow> bool" where
  "key_ok k \<longleftrightarrow> NUL \<notin> set k \<and> (k = [] \<or> hd k \<noteq> CHR 0x09)"

lemma nat_char_tab: "nat_char c = 9 \<longleftrightarrow> c = CHR 0x09"
proof -
  have "nat_char c = nat_char (CHR 0x09) \<longleftrightarrow> c = CHR 0x09" by (rule nat_char_inject)
  then show ?thesis by (simp add: nat_char_def)
qed

lemma get_strindex_range [simp]: "0 \<le> get_strindex key" "get_strindex key \<noteq> -1"
proof -
  show "0 \<le> get_strindex key"
    using keylist_nth(1) [OF nat_char_less] by (auto simp: get_strindex_def split: option.split list.split)
  then show "get_strindex key \<noteq> -1" by linarith
qed

lemma get_strindex_ok: "key_ok k \<Longrightarrow> nat (get_strindex (Some k)) < 80"
  using keylist_nth [OF nat_char_less, of "hd k"]
  by (cases k) (auto simp: get_strindex_def key_ok_def nat_char_tab)

lemma get_strindex_tab: "get_strindex (Some (CHR 0x09 # k)) = 80"
  using keylist_nth(3) [of 9] nat_char_tab [of "CHR 0x09"] by (simp add: get_strindex_def)

section \<open>The table is a map\<close>

definition node_ok :: "nat \<Rightarrow> 'v str_hash_node \<Rightarrow> bool" where
  "node_ok i n \<longleftrightarrow>
     (\<exists>k v. n = \<lparr>sn_key = Some k, sn_vl = Some v\<rparr> \<and> key_ok k \<and> nat (get_strindex (Some k)) = i)"

definition chain_ok :: "nat \<Rightarrow> 'v str_hash_node list \<Rightarrow> bool" where
  "chain_ok i ns \<longleftrightarrow> list_all (node_ok i) ns \<and> distinct (map sn_key ns)"

definition hash_ok :: "'v str_hash \<Rightarrow> bool" where
  "hash_ok h \<longleftrightarrow> length (sh_cap h) = 80 \<and> (\<forall>i < 80. chain_ok i (sh_cap h ! i))"

definition chain_map :: "'v str_hash_node list \<Rightarrow> string \<Rightarrow> 'v option" where
  "chain_map ns = map_of (map (\<lambda>n. (the (sn_key n), the (sn_vl n))) ns)"

definition hash_map :: "'v str_hash \<Rightarrow> string \<Rightarrow> 'v option" where
  "hash_map h k = (if key_ok k then chain_map (sh_cap h ! nat (get_strindex (Some k))) k else None)"

lemma chain_map_simps [simp]:
  "chain_map [] = Map.empty"
  "chain_map (\<lparr>sn_key = Some k, sn_vl = Some v\<rparr> # ns) = (chain_map ns)(k \<mapsto> v)"
  by (simp_all add: chain_map_def)

lemma chain_ok_Cons:
  "chain_ok i (n # ns) \<longleftrightarrow> node_ok i n \<and> chain_ok i ns \<and> sn_key n \<notin> sn_key ` set ns"
  by (auto simp: chain_ok_def)

lemma chain_ok_Nil [simp]: "chain_ok i []"
  by (simp add: chain_ok_def)

lemma chain_map_None: "chain_ok i ns \<Longrightarrow> Some k \<notin> sn_key ` set ns \<longleftrightarrow> chain_map ns k = None"
  by (induction ns) (auto simp: chain_ok_Cons node_ok_def split: if_splits)

lemma find_node_ok: "chain_ok i ns \<Longrightarrow> key_ok k \<Longrightarrow> find_node (Some k) ns = Inr (chain_map ns k)"
  by (induction ns) (auto simp: chain_ok_Cons node_ok_def streq_def key_ok_def)

lemma unlink_node_ok:
  "chain_ok i ns \<Longrightarrow> key_ok k \<Longrightarrow>
   \<exists>ns'. unlink_node (Some k) ns = Inr (chain_map ns k, ns') \<and> chain_ok i ns' \<and>
     chain_map ns' = (chain_map ns)(k := None) \<and> sn_key ` set ns' \<subseteq> sn_key ` set ns"
proof (induction ns)
  case (Cons n ns)
  from Cons.prems obtain j v where n: "n = \<lparr>sn_key = Some j, sn_vl = Some v\<rparr>" "key_ok j"
    by (auto simp: chain_ok_Cons node_ok_def)
  have eq: "streq (sn_key n) (Some k) = Inr (j = k)"
    using n Cons.prems by (simp add: streq_def key_ok_def)
  have ns: "chain_ok i ns" "Some j \<notin> sn_key ` set ns" "node_ok i n"
    using Cons.prems n(1) by (auto simp: chain_ok_Cons)
  obtain ns' where ns': "unlink_node (Some k) ns = Inr (chain_map ns k, ns')" "chain_ok i ns'"
    "chain_map ns' = (chain_map ns)(k := None)" "sn_key ` set ns' \<subseteq> sn_key ` set ns"
    using Cons.IH [OF ns(1) Cons.prems(2)] by blast
  show ?case
  proof (cases "j = k")
    case True
    then show ?thesis using ns chain_map_None [OF ns(1), of j] eq by (auto simp: n(1))
  next
    case False
    then show ?thesis
      using ns ns' eq by (auto simp: n(1) chain_ok_Cons fun_upd_twist)
  qed
qed simp

lemma hash_chain:
  "hash_ok h \<Longrightarrow> key_ok k \<Longrightarrow>
   chain h (get_strindex (Some k)) = Inr (sh_cap h ! nat (get_strindex (Some k)))"
  using get_strindex_ok [of k] by (simp add: hash_ok_def chain_def)

lemma hash_ok_chain: "hash_ok h \<Longrightarrow> key_ok k \<Longrightarrow> chain_ok (nat (get_strindex (Some k))) (sh_cap h ! nat (get_strindex (Some k)))"
  using get_strindex_ok [of k] by (simp add: hash_ok_def)

lemma hash_update:
  assumes "hash_ok h" "key_ok k" "i = nat (get_strindex (Some k))" "chain_ok i ns"
    and same: "\<And>j. j \<noteq> k \<Longrightarrow> chain_map ns j = chain_map (sh_cap h ! i) j"
  shows "hash_ok (h\<lparr>sh_cap := (sh_cap h)[i := ns]\<rparr>)"
    and "hash_map (h\<lparr>sh_cap := (sh_cap h)[i := ns]\<rparr>) = (hash_map h)(k := chain_map ns k)"
proof -
  have i: "i < 80" "length (sh_cap h) = 80"
    using assms get_strindex_ok by (auto simp: hash_ok_def)
  show "hash_ok (h\<lparr>sh_cap := (sh_cap h)[i := ns]\<rparr>)"
    using assms i by (auto simp: hash_ok_def nth_list_update)
  show "hash_map (h\<lparr>sh_cap := (sh_cap h)[i := ns]\<rparr>) = (hash_map h)(k := chain_map ns k)"
    using assms i get_strindex_ok by (auto simp: hash_map_def nth_list_update fun_eq_iff)
qed

lemma hash_count_irrelevant [simp]:
  "hash_ok (h\<lparr>sh_count := c\<rparr>) = hash_ok h" "hash_map (h\<lparr>sh_count := c\<rparr>) = hash_map h"
  by (auto simp: hash_ok_def hash_map_def fun_eq_iff)

lemma get_str_hash_ok: "hash_ok h \<Longrightarrow> key_ok k \<Longrightarrow> get_str_hash h (Some k) = Inr (hash_map h k)"
  using hash_chain [of h k] find_node_ok [OF hash_ok_chain [of h k]]
  by (simp add: get_str_hash_def hash_map_def)

lemma set_str_hash_ok:
  assumes "hash_ok h" "key_ok k"
  shows "\<exists>h'. set_str_hash h (Some k) (Some v) = Inr (if hash_map h k = None then 0 else -1, h') \<and>
    hash_ok h' \<and> hash_map h' = (if hash_map h k = None then (hash_map h)(k \<mapsto> v) else hash_map h)"
proof (cases "hash_map h k")
  case None
  let ?i = "nat (get_strindex (Some k))"
  let ?ns = "\<lparr>sn_key = Some k, sn_vl = Some v\<rparr> # sh_cap h ! ?i"
  have c: "chain_ok ?i (sh_cap h ! ?i)" using hash_ok_chain assms by blast
  have "chain_map (sh_cap h ! ?i) k = None" using None assms by (simp add: hash_map_def)
  then have "chain_ok ?i ?ns"
    using c chain_map_None [OF c, of k] assms by (simp add: chain_ok_Cons node_ok_def)
  then have "hash_ok (h\<lparr>sh_cap := (sh_cap h)[?i := ?ns]\<rparr>)"
    "hash_map (h\<lparr>sh_cap := (sh_cap h)[?i := ?ns]\<rparr>) = (hash_map h)(k := chain_map ?ns k)"
    using hash_update [OF assms refl, of ?ns] by auto
  then show ?thesis
    using None hash_count_irrelevant [where h = "h\<lparr>sh_cap := (sh_cap h)[?i := ?ns]\<rparr>"]
    by (simp add: set_str_hash_def get_str_hash_ok [OF assms] hash_chain [OF assms] Let_def)
qed (use assms in \<open>simp add: set_str_hash_def get_str_hash_ok\<close>)

lemma del_str_hash_ok:
  assumes "hash_ok h" "key_ok k"
  shows "\<exists>h'. del_str_hash h (Some k) = Inr (hash_map h k, h') \<and> hash_ok h' \<and>
    hash_map h' = (hash_map h)(k := None)"
proof -
  let ?i = "nat (get_strindex (Some k))"
  have c: "chain_ok ?i (sh_cap h ! ?i)" using hash_ok_chain assms by blast
  obtain ns' where ns': "unlink_node (Some k) (sh_cap h ! ?i) = Inr (chain_map (sh_cap h ! ?i) k, ns')"
    "chain_ok ?i ns'" "chain_map ns' = (chain_map (sh_cap h ! ?i))(k := None)"
    using unlink_node_ok [OF c assms(2)] by blast
  have "hash_ok (h\<lparr>sh_cap := (sh_cap h)[?i := ns']\<rparr>)"
    "hash_map (h\<lparr>sh_cap := (sh_cap h)[?i := ns']\<rparr>) = (hash_map h)(k := None)"
    using hash_update [OF assms refl ns'(2)] ns'(3) by auto
  moreover have "hash_map h k = chain_map (sh_cap h ! ?i) k" using assms by (simp add: hash_map_def)
  moreover have "sh_cap h ! ?i = [] \<Longrightarrow> hash_map h k = None"
    using assms by (simp add: hash_map_def)
  ultimately show ?thesis
    using ns'(1) assms(1)
    by (cases "sh_cap h ! ?i = []")
      (auto simp: del_str_hash_def hash_chain [OF assms] Let_def fun_upd_idem)
qed

interpretation strhash: string_map get_str_hash set_str_hash del_str_hash hash_ok key_ok hash_map
  by unfold_locales (auto simp: get_str_hash_ok set_str_hash_ok del_str_hash_ok)

lemma init_str_hash_ok: "hash_ok init_str_hash" "hash_map init_str_hash = Map.empty"
  using get_strindex_ok
  by (auto simp: init_str_hash_def hash_ok_def hash_map_def fun_eq_iff STRHASH_CAP_MAX_def)

section \<open>The counter\<close>

lemma set_str_hash_count:
  "set_str_hash h k v = Inr (r, h') \<Longrightarrow> sh_count h' = sh_count h + (if r = 0 then 1 else 0)"
  by (auto simp: set_str_hash_def Let_def rbind_Inr_iff split: if_splits)

lemma del_str_hash_count: "del_str_hash h k = Inr (r, h') \<Longrightarrow> sh_count h' = sh_count h"
  by (auto simp: del_str_hash_def Let_def rbind_Inr_iff split: if_splits)

lemma strhash_step_count:
  assumes "map_step get_str_hash set_str_hash del_str_hash h x = Inr (r, h')"
  shows "sh_count h' = sh_count h + int (if r = RInt 0 then 1 else 0)"
proof (cases x)
  case (MSet k v)
  then show ?thesis
    using assms by (auto simp: rbind_Inr_iff dest!: set_str_hash_count split: if_splits)
next
  case (MDel k)
  then show ?thesis
    using assms by (auto simp: rbind_Inr_iff dest!: del_str_hash_count)
qed (use assms in \<open>auto simp: rbind_Inr_iff\<close>)

lemma strhash_run_count:
  "map_run (map_step get_str_hash set_str_hash del_str_hash) xs h = Inr (rs, h') \<Longrightarrow>
   sh_count h' = sh_count h + int (count_list rs (RInt 0))"
  by (induction xs arbitrary: h rs) (auto simp: rbind_Inr_iff dest!: strhash_step_count)

section \<open>Visiting and clearing\<close>

lemma doall_rest_filter:
  "doall_rest (\<lambda>v s. (dec v, s)) (\<lambda>v s. s @ [v]) ns s =
   (filter (\<lambda>n. dec (sn_vl n) = 0) ns, s @ map sn_vl (filter (\<lambda>n. dec (sn_vl n) \<noteq> 0) ns))"
  by (induction ns arbitrary: s) auto

lemma doall_chain_filter:
  "\<exists>removed. doall_chain (\<lambda>v s. (dec v, s)) (\<lambda>v s. s @ [v]) ns s =
     (filter (\<lambda>n. dec (sn_vl n) = 0) ns, s @ removed) \<and>
   mset removed = mset (map sn_vl (filter (\<lambda>n. dec (sn_vl n) \<noteq> 0) ns))"
  by (cases ns) (auto simp: doall_rest_filter)

lemma doall_chains_filter:
  "\<exists>removed. doall_chains (\<lambda>v s. (dec v, s)) (\<lambda>v s. s @ [v]) cs s =
     (map (filter (\<lambda>n. dec (sn_vl n) = 0)) cs, s @ removed) \<and>
   mset removed = mset (map sn_vl (filter (\<lambda>n. dec (sn_vl n) \<noteq> 0) (concat cs)))"
proof (induction cs arbitrary: s)
  case (Cons c cs)
  obtain r1 where r1: "doall_chain (\<lambda>v s. (dec v, s)) (\<lambda>v s. s @ [v]) c s =
     (filter (\<lambda>n. dec (sn_vl n) = 0) c, s @ r1)"
    "mset r1 = mset (map sn_vl (filter (\<lambda>n. dec (sn_vl n) \<noteq> 0) c))"
    using doall_chain_filter [of dec c s] by blast
  obtain r2 where "doall_chains (\<lambda>v s. (dec v, s)) (\<lambda>v s. s @ [v]) cs (s @ r1) =
     (map (filter (\<lambda>n. dec (sn_vl n) = 0)) cs, (s @ r1) @ r2)"
    "mset r2 = mset (map sn_vl (filter (\<lambda>n. dec (sn_vl n) \<noteq> 0) (concat cs)))"
    using Cons.IH [of "s @ r1"] by blast
  with r1 show ?case by (intro exI [of _ "r1 @ r2"]) simp
qed simp

section \<open>Properties\<close>



text \<open>
  A key that starts with a tab has index 80, one past the last chain: on every table
  with its 80 chains the lookup, the insertion and the removal of such a key read outside
  the array.
\<close>

theorem strhash_tab_out_of_bounds:
  assumes "length (sh_cap h) = 80"
  shows "get_str_hash h (Some (CHR 0x09 # k)) = Inl OutOfBounds \<and>
    set_str_hash h (Some (CHR 0x09 # k)) v = Inl OutOfBounds \<and>
    del_str_hash h (Some (CHR 0x09 # k)) = Inl OutOfBounds"
  using assms
  by (simp add: get_str_hash_def set_str_hash_def del_str_hash_def chain_def rd_def
      get_strindex_tab Let_def)

theorem strhash_tab_out_of_bounds_witness:
  "get_str_hash (init_str_hash :: nat str_hash) (Some [CHR 0x09]) = Inl OutOfBounds"
  using strhash_tab_out_of_bounds [of "init_str_hash :: nat str_hash" "[]"]
  by (simp add: init_str_hash_def STRHASH_CAP_MAX_def)

text \<open>
  The counter of a table only grows: after any run that does not fault it is its old
  value plus the number of successful insertions, whatever was removed, so it is not the
  number of entries once a key has been deleted.
\<close>

theorem strhash_count_never_drops:
  assumes "map_run (map_step get_str_hash set_str_hash del_str_hash) ops h = Inr (rs, h')"
  shows "sh_count h' = sh_count h + int (count_list rs (RInt 0))"
  using assms by (rule strhash_run_count)

theorem strhash_count_never_drops_witness:
  "\<exists>h rs. map_run (map_step get_str_hash set_str_hash del_str_hash)
       [MSet ''k'' (1 :: nat), MDel ''k''] init_str_hash = Inr (rs, h) \<and>
     hash_map h = Map.empty \<and> sh_count h = 1"
proof -
  let ?ops = "[MSet ''k'' (1 :: nat), MDel ''k'']"
  obtain h where h: "map_run (map_step get_str_hash set_str_hash del_str_hash) ?ops init_str_hash =
      Inr ([RInt 0, RPtr (Some 1)], h)" "hash_map h = Map.empty"
    using strhash.run_refines [of init_str_hash ?ops] by (force simp: key_ok_def init_str_hash_ok)
  then show ?thesis
    using strhash_count_never_drops [OF h(1)] by (auto simp: init_str_hash_def)
qed

text \<open>
  A visit keeps in every chain exactly the nodes the callback answers 0 for, in their
  order, and hands every other value to the freeing callback exactly once.
\<close>

theorem doall_strhash_filters:
  "\<exists>freed. doall_strhash h (\<lambda>v s. (dec v, s)) (\<lambda>v s. s @ [v]) [] =
     (h\<lparr>sh_cap := map (filter (\<lambda>n. dec (sn_vl n) = 0)) (sh_cap h)\<rparr>, freed) \<and>
   mset freed = mset (map sn_vl (filter (\<lambda>n. dec (sn_vl n) \<noteq> 0) (concat (sh_cap h))))"
  using doall_chains_filter [of dec "sh_cap h" "[]"] by (auto simp: doall_strhash_def)

end
