(* ===== verification/IniReader.thy ===== *)
theory IniReader
  imports Prelude
begin

text \<open>
  \<open>antlib/commandlib/ini_reader.c\<close> and \<open>ini_reader.h\<close>: the reader of configuration files.
  A file is the list of its characters (the search for the executable's directory and the
  opening of the file are the caller's argument: \<open>None\<close> for a file that cannot be opened).
  The linked lists of sections and entries are lists; \<open>_cur\<close> is the index of a section.
\<close>

section \<open>State\<close>

record ini_section =
  sec_key :: string
  sec_nodes :: "(string \<times> string) list"

record ini_config =
  ini_sections :: "ini_section list"
  ini_cur :: "nat option"

section \<open>Reading\<close>

text \<open>
  The loop of \<open>_read_ini_line\<close> from its counters \<open>i\<close> (characters stored) and \<open>j\<close>
  (characters read): the characters it stores from here and the rest of the file, \<open>None\<close>
  for the end of the file before the first character. \<open>len\<close> is the size of the buffer.
\<close>

fun read_chars :: "nat \<Rightarrow> nat \<Rightarrow> nat \<Rightarrow> string \<Rightarrow> (string \<times> string) option" where
  "read_chars len i j [] =
     (if i < len then (if j > 0 then Some ([], []) else None) else Some ([], []))"
| "read_chars len i j (ch # f) =
     (if i < len then
        if ch = CHR 0x0A \<or> ch = NUL then Some ([], f)
        else if ch = CHR 0x0D then read_chars len i (j + 1) f
        else map_option (\<lambda>(l, r). (ch # l, r)) (read_chars len (i + 1) (j + 1) f)
      else Some ([], ch # f))"

text \<open>The line gets a NUL behind its last character: the buffer has \<open>len\<close> bytes.\<close>

definition read_ini_line :: "nat \<Rightarrow> string \<Rightarrow> fault + string option \<times> string" where
  "read_ini_line len f =
     (case read_chars len 0 0 f of
        None \<Rightarrow> Inr (None, f)
      | Some (l, r) \<Rightarrow> if length l < len then Inr (Some l, r) else Inl OutOfBounds)"

text \<open>Blanks and comments are removed in place.\<close>

definition squeeze_line :: "string \<Rightarrow> string" where
  "squeeze_line l = filter (\<lambda>c. c \<noteq> CHR '' '' \<and> c \<noteq> CHR 0x09) (takeWhile (\<lambda>c. c \<noteq> CHR ''#'') l)"

definition add_section :: "string \<Rightarrow> ini_config \<Rightarrow> ini_config" where
  "add_section k c =
     \<lparr>ini_sections = ini_sections c @ [\<lparr>sec_key = k, sec_nodes = []\<rparr>],
      ini_cur = Some (length (ini_sections c))\<rparr>"

definition add_node :: "nat \<Rightarrow> string \<Rightarrow> string \<Rightarrow> ini_config \<Rightarrow> ini_config" where
  "add_node i k v c =
     c\<lparr>ini_sections := (ini_sections c)
         [i := (ini_sections c ! i)\<lparr>sec_nodes := sec_nodes (ini_sections c ! i) @ [(k, v)]\<rparr>]\<rparr>"

definition parse_ini_line :: "ini_config \<Rightarrow> string \<Rightarrow> ini_config" where
  "parse_ini_line config line =
     (let buf = squeeze_line line; j = length buf
      in if j = 0 then config
         else if hd buf = CHR ''['' then
           if j > 2 \<and> last buf = CHR '']'' \<and> j < 200
           then add_section (take (j - 2) (tl buf)) config else config
         else case ini_cur config of
           None \<Rightarrow> config
         | Some i \<Rightarrow>
             if hd buf = CHR ''='' then config
             else if CHR ''='' \<in> set buf
             then add_node i (takeWhile (\<lambda>c. c \<noteq> CHR ''='') buf)
                    (tl (dropWhile (\<lambda>c. c \<noteq> CHR ''='') buf)) config
             else config)"

lemma read_chars_consumes:
  "read_chars len i j f = Some (l, r) \<Longrightarrow> length r \<le> length f"
  by (induction len i j f arbitrary: l r rule: read_chars.induct)
    (auto split: if_splits intro!: le_SucI)

lemma read_ini_line_consumes:
  assumes "0 < len" "read_ini_line len f = Inr (Some l, r)"
  shows "length r < length f"
proof (cases f)
  case (Cons ch f')
  then show ?thesis
    using assms by (auto simp: read_ini_line_def split: option.splits prod.splits if_splits dest!: read_chars_consumes)
qed (use assms in \<open>simp add: read_ini_line_def\<close>)

text \<open>The loop of \<open>read_ini_file\<close>, with its buffer of 1000 bytes.\<close>

function read_lines :: "ini_config \<Rightarrow> string \<Rightarrow> fault + ini_config" where
  "read_lines config f =
     (case read_ini_line 1000 f of
        Inl e \<Rightarrow> Inl e
      | Inr (None, r) \<Rightarrow> Inr config
      | Inr (Some l, r) \<Rightarrow> read_lines (if l \<noteq> [] then parse_ini_line config l else config) r)"
  by pat_completeness auto
termination
  by (relation "measure (length \<circ> snd)") (auto dest: read_ini_line_consumes [rotated])

declare read_lines.simps [simp del]

definition read_ini_file :: "string option \<Rightarrow> fault + ini_config option" where
  "read_ini_file file =
     (case file of
        None \<Rightarrow> Inr None
      | Some f \<Rightarrow> rbind (read_lines \<lparr>ini_sections = [], ini_cur = None\<rparr> f) (\<lambda>c. Inr (Some c)))"

section \<open>Lookups\<close>

primrec find_section :: "string \<Rightarrow> ini_section list \<Rightarrow> nat option" where
  "find_section s [] = None"
| "find_section s (x # xs) =
     (if sec_key x = s then Some 0 else map_option Suc (find_section s xs))"

text \<open>The section found becomes the current one, which the next lookup tries first.\<close>

definition get_section :: "ini_config \<Rightarrow> string \<Rightarrow> nat option \<times> ini_config" where
  "get_section c s =
     (case ini_cur c of
        None \<Rightarrow> (None, c)
      | Some i \<Rightarrow>
          if sec_key (ini_sections c ! i) = s then (Some i, c)
          else case find_section s (ini_sections c) of
            Some k \<Rightarrow> (Some k, c\<lparr>ini_cur := Some k\<rparr>)
          | None \<Rightarrow> (None, c))"

definition is_ini_session :: "ini_config \<Rightarrow> string \<Rightarrow> int \<times> ini_config" where
  "is_ini_session c s = (let (r, c') = get_section c s in (if r = None then -1 else 0, c'))"

definition get_value_int :: "ini_config \<Rightarrow> string \<Rightarrow> string \<Rightarrow> int \<Rightarrow> int \<times> ini_config" where
  "get_value_int c s key dflt =
     (case get_section c s of
        (None, c') \<Rightarrow> (dflt, c')
      | (Some i, c') \<Rightarrow>
          (case map_of (sec_nodes (ini_sections c' ! i)) key of
             None \<Rightarrow> dflt | Some v \<Rightarrow> atoi v, c'))"

definition get_value_string :: "ini_config \<Rightarrow> string \<Rightarrow> string \<Rightarrow> string \<Rightarrow> string \<times> ini_config" where
  "get_value_string c s key dflt =
     (case get_section c s of
        (None, c') \<Rightarrow> (dflt, c')
      | (Some i, c') \<Rightarrow>
          (case map_of (sec_nodes (ini_sections c' ! i)) key of
             None \<Rightarrow> dflt | Some v \<Rightarrow> v, c'))"

text \<open>The blocks \<open>close_ini_file\<close> gives back, in its order.\<close>

datatype ini_block = NodeBlock nat nat | SectionBlock nat | ConfigBlock

definition close_ini_file :: "ini_config \<Rightarrow> ini_block list" where
  "close_ini_file c =
     concat (map (\<lambda>i. map (NodeBlock i) [0..<length (sec_nodes (ini_sections c ! i))] @ [SectionBlock i])
               [0..<length (ini_sections c)]) @ [ConfigBlock]"

section \<open>Reading back a printed configuration\<close>

definition plain :: "string \<Rightarrow> bool" where
  "plain l \<longleftrightarrow> set l \<inter> {CHR '' '', CHR 0x09, CHR ''#'', CHR 0x0A, CHR 0x0D, NUL} = {}"

definition entry_ok :: "string \<times> string \<Rightarrow> bool" where
  "entry_ok n \<longleftrightarrow>
     (case n of (k, v) \<Rightarrow> k \<noteq> [] \<and> hd k \<noteq> CHR ''['' \<and> CHR ''='' \<notin> set k \<and> plain k \<and> plain v \<and>
        length k + length v < 999)"

definition section_ok :: "ini_section \<Rightarrow> bool" where
  "section_ok s \<longleftrightarrow>
     sec_key s \<noteq> [] \<and> plain (sec_key s) \<and> length (sec_key s) < 198 \<and> list_all entry_ok (sec_nodes s)"

definition print_node :: "string \<times> string \<Rightarrow> string" where
  "print_node n = fst n @ ''='' @ snd n @ [CHR 0x0A]"

definition print_section :: "ini_section \<Rightarrow> string" where
  "print_section s = ''['' @ sec_key s @ '']'' @ [CHR 0x0A] @ concat (map print_node (sec_nodes s))"

definition print_ini :: "ini_section list \<Rightarrow> string" where
  "print_ini ss = concat (map print_section ss)"

text \<open>The configuration with the given sections, the last one current.\<close>

definition config_of :: "ini_section list \<Rightarrow> ini_config" where
  "config_of ss = \<lparr>ini_sections = ss, ini_cur = if ss = [] then None else Some (length ss - 1)\<rparr>"

lemma plain_simps [simp]:
  "plain []" "plain (l @ m) \<longleftrightarrow> plain l \<and> plain m"
  "plain (c # l) \<longleftrightarrow> c \<notin> {CHR '' '', CHR 0x09, CHR ''#'', CHR 0x0A, CHR 0x0D, NUL} \<and> plain l"
  by (auto simp: plain_def)

lemma read_chars_plain:
  "plain l \<Longrightarrow> i + length l < len \<Longrightarrow> read_chars len i j (l @ CHR 0x0A # f) = Some (l, f)"
  by (induction l arbitrary: i j) auto

lemma squeeze_plain: "plain l \<Longrightarrow> squeeze_line l = l"
proof (induction l)
  case (Cons c l)
  then show ?case by (auto simp: squeeze_line_def)
qed (simp add: squeeze_line_def)

lemma read_lines_plain:
  "plain l \<Longrightarrow> length l < 1000 \<Longrightarrow> l \<noteq> [] \<Longrightarrow>
   read_lines c (l @ CHR 0x0A # f) = read_lines (parse_ini_line c l) f"
  by (subst read_lines.simps) (simp add: read_ini_line_def read_chars_plain)

lemma parse_section_line:
  assumes "k \<noteq> []" "plain k" "length k < 198"
  shows "parse_ini_line c (''['' @ k @ '']'') = add_section k c"
  using assms squeeze_plain [of "''['' @ k @ '']''"]
  by (cases k) (auto simp: parse_ini_line_def Let_def)

lemma takeWhile_eq_key: "CHR ''='' \<notin> set k \<Longrightarrow>
   takeWhile (\<lambda>c. c \<noteq> CHR ''='') (k @ CHR ''='' # v) = k \<and>
   dropWhile (\<lambda>c. c \<noteq> CHR ''='') (k @ CHR ''='' # v) = CHR ''='' # v"
  by (induction k) auto

lemma parse_node_line:
  assumes "entry_ok (k, v)" "ini_cur c = Some i"
  shows "parse_ini_line c (k @ ''='' @ v) = add_node i k v c"
proof -
  define l where "l = k @ ''='' @ v"
  have "squeeze_line l = l"
    using assms unfolding l_def by (intro squeeze_plain) (simp add: entry_ok_def)
  moreover have "hd l \<noteq> CHR ''[''" "hd l \<noteq> CHR ''=''" "l \<noteq> []" "CHR ''='' \<in> set l"
    using assms(1) hd_in_set [of k] by (auto simp: l_def entry_ok_def hd_append simp del: hd_in_set)
  moreover have "takeWhile (\<lambda>c. c \<noteq> CHR ''='') l = k" "dropWhile (\<lambda>c. c \<noteq> CHR ''='') l = CHR ''='' # v"
    using assms takeWhile_eq_key [of k v] by (simp_all add: l_def entry_ok_def)
  ultimately have "parse_ini_line c l = add_node i k v c"
    using assms(2) by (simp add: parse_ini_line_def Let_def)
  then show ?thesis by (simp only: l_def)
qed

lemma read_lines_nodes:
  "list_all entry_ok ns \<Longrightarrow>
   read_lines (config_of (ss @ [\<lparr>sec_key = s, sec_nodes = ms\<rparr>])) (concat (map print_node ns) @ f) =
   read_lines (config_of (ss @ [\<lparr>sec_key = s, sec_nodes = ms @ ns\<rparr>])) f"
proof (induction ns arbitrary: ms)
  case (Cons n ns)
  obtain k v where n: "n = (k, v)" by (cases n)
  have ok: "entry_ok (k, v)" using Cons.prems by (simp add: n)
  let ?c = "config_of (ss @ [\<lparr>sec_key = s, sec_nodes = ms\<rparr>])"
  have "read_lines ?c ((k @ ''='' @ v) @ CHR 0x0A # concat (map print_node ns) @ f) =
    read_lines (parse_ini_line ?c (k @ ''='' @ v)) (concat (map print_node ns) @ f)"
    using ok by (intro read_lines_plain) (auto simp: entry_ok_def)
  also have "parse_ini_line ?c (k @ ''='' @ v) =
    config_of (ss @ [\<lparr>sec_key = s, sec_nodes = ms @ [(k, v)]\<rparr>])"
    using parse_node_line [OF ok, of ?c "length ss"] by (simp add: config_of_def add_node_def)
  finally show ?case using Cons by (simp add: n print_node_def)
qed simp

lemma read_lines_section:
  assumes "section_ok s"
  shows "read_lines (config_of ss) (print_section s @ f) = read_lines (config_of (ss @ [s])) f"
proof -
  have "read_lines (config_of ss) ((''['' @ sec_key s @ '']'') @ CHR 0x0A # concat (map print_node (sec_nodes s)) @ f) =
    read_lines (parse_ini_line (config_of ss) (''['' @ sec_key s @ '']'')) (concat (map print_node (sec_nodes s)) @ f)"
    using assms by (intro read_lines_plain) (auto simp: section_ok_def)
  also have "parse_ini_line (config_of ss) (''['' @ sec_key s @ '']'') =
    config_of (ss @ [\<lparr>sec_key = sec_key s, sec_nodes = []\<rparr>])"
    using parse_section_line [of "sec_key s"] assms
    by (simp add: section_ok_def add_section_def config_of_def)
  finally show ?thesis
    using read_lines_nodes [of "sec_nodes s"] assms
    by (cases s) (simp add: print_section_def section_ok_def)
qed

lemma read_lines_sections:
  "list_all section_ok ts \<Longrightarrow> read_lines (config_of ss) (print_ini ts @ f) = read_lines (config_of (ss @ ts)) f"
  by (induction ts arbitrary: ss) (auto simp: print_ini_def read_lines_section)

lemma read_lines_end: "read_lines c [] = Inr c"
  by (subst read_lines.simps) (simp add: read_ini_line_def)

section \<open>Lookups and the current section\<close>

definition ini_ok :: "ini_config \<Rightarrow> bool" where
  "ini_ok c \<longleftrightarrow> distinct (map sec_key (ini_sections c)) \<and>
     (case ini_cur c of None \<Rightarrow> ini_sections c = [] | Some i \<Rightarrow> i < length (ini_sections c))"

definition ini_lookup :: "ini_section list \<Rightarrow> string \<Rightarrow> string \<Rightarrow> string option" where
  "ini_lookup ss s k = Option.bind (map_of (map (\<lambda>x. (sec_key x, sec_nodes x)) ss) s) (\<lambda>ns. map_of ns k)"

lemma find_section_Some:
  "find_section s ss = Some i \<Longrightarrow> i < length ss \<and> sec_key (ss ! i) = s \<and>
     map_of (map (\<lambda>x. (sec_key x, sec_nodes x)) ss) s = Some (sec_nodes (ss ! i))"
  by (induction ss arbitrary: i) (auto split: if_splits)

lemma find_section_None: "find_section s ss = None \<longleftrightarrow> s \<notin> sec_key ` set ss"
  by (induction ss) auto

lemma find_section_nth:
  "distinct (map sec_key ss) \<Longrightarrow> i < length ss \<Longrightarrow> find_section (sec_key (ss ! i)) ss = Some i"
proof (induction ss arbitrary: i)
  case (Cons x xs)
  then show ?case by (cases i) (force simp: in_set_conv_nth)+
qed simp

lemma get_section_ok:
  assumes "ini_ok c"
  shows "fst (get_section c s) = find_section s (ini_sections c)"
    and "ini_sections (snd (get_section c s)) = ini_sections c"
    and "ini_ok (snd (get_section c s))"
proof -
  show "fst (get_section c s) = find_section s (ini_sections c)"
    using assms find_section_nth [of "ini_sections c"]
    by (auto simp: get_section_def ini_ok_def split: option.splits)
  show "ini_sections (snd (get_section c s)) = ini_sections c"
    by (auto simp: get_section_def split: option.splits)
  show "ini_ok (snd (get_section c s))"
    using assms by (auto simp: get_section_def ini_ok_def dest: find_section_Some split: option.splits)
qed

lemma find_section_lookup:
  "(case find_section s ss of None \<Rightarrow> None | Some i \<Rightarrow> map_of (sec_nodes (ss ! i)) k) = ini_lookup ss s k"
proof (cases "find_section s ss")
  case None
  then have "map_of (map (\<lambda>x. (sec_key x, sec_nodes x)) ss) s = None"
    by (auto simp: map_of_eq_None_iff find_section_None image_iff)
  with None show ?thesis by (simp add: ini_lookup_def)
next
  case (Some i)
  then show ?thesis by (simp add: find_section_Some ini_lookup_def)
qed

lemma read_chars_long:
  "CHR 0x0A \<notin> set l \<Longrightarrow> CHR 0x0D \<notin> set l \<Longrightarrow> NUL \<notin> set l \<Longrightarrow> i \<le> len \<Longrightarrow> len \<le> i + length l \<Longrightarrow>
   \<exists>r. read_chars len i j (l @ f) = Some (take (len - i) l, r)"
proof (induction l arbitrary: i j)
  case Nil
  then show ?case by (cases f) simp_all
next
  case (Cons c l)
  then show ?case
    using Cons.IH [of "i + 1" "j + 1"] by (cases "i < len") (auto simp: take_Cons')
qed

lemma get_value_string_eq:
  "get_value_string c s k dflt =
   (case fst (get_section c s) of
      None \<Rightarrow> dflt
    | Some i \<Rightarrow> (case map_of (sec_nodes (ini_sections c ! i)) k of None \<Rightarrow> dflt | Some v \<Rightarrow> v),
    snd (get_section c s))"
  by (auto simp: get_value_string_def get_section_def split: option.splits)

lemma get_value_int_eq:
  "get_value_int c s k dflt =
   (case fst (get_section c s) of
      None \<Rightarrow> dflt
    | Some i \<Rightarrow> (case map_of (sec_nodes (ini_sections c ! i)) k of None \<Rightarrow> dflt | Some v \<Rightarrow> atoi v),
    snd (get_section c s))"
  by (auto simp: get_value_int_def get_section_def split: option.splits)

lemma get_value_string_ok:
  assumes "ini_ok c"
  shows "fst (get_value_string c s k dflt) = (case ini_lookup (ini_sections c) s k of None \<Rightarrow> dflt | Some v \<Rightarrow> v)"
  using find_section_lookup [where s = s and ss = "ini_sections c" and k = k]
  by (auto simp: get_value_string_eq get_section_ok(1) [OF assms] split: option.splits)

lemma get_value_int_ok:
  assumes "ini_ok c"
  shows "fst (get_value_int c s k dflt) = (case ini_lookup (ini_sections c) s k of None \<Rightarrow> dflt | Some v \<Rightarrow> atoi v)"
  using find_section_lookup [where s = s and ss = "ini_sections c" and k = k]
  by (auto simp: get_value_int_eq get_section_ok(1) [OF assms] split: option.splits)

lemma value_state [simp]:
  "snd (get_value_string c s k d) = snd (get_section c s)"
  "snd (get_value_int c s k n) = snd (get_section c s)"
  "snd (is_ini_session c s) = snd (get_section c s)"
  by (simp_all add: get_value_string_eq get_value_int_eq is_ini_session_def split_beta)

lemma is_ini_session_ok:
  "ini_ok c \<Longrightarrow> fst (is_ini_session c s) = (if s \<in> sec_key ` set (ini_sections c) then 0 else -1)"
  using find_section_None [of s "ini_sections c"]
  by (auto simp: is_ini_session_def split_beta get_section_ok(1))

section \<open>Properties\<close>

text \<open>
  C35. Reading inverts printing: a list of sections with short names and entries, whose texts
  contain no blank, comment sign or line end, and whose keys have no equals sign and do not start with a bracket, comes back from its printed form exactly as
  it was, in order and with every entry, and its last section is the current one. The reader
  returns for it without overrunning its line buffer.
\<close>

theorem ini_print_read:
  assumes "list_all section_ok ss"
  shows "read_ini_file (Some (print_ini ss)) = Inr (Some (config_of ss))"
  using read_lines_sections [OF assms, of "[]" "[]"]
  by (simp add: read_ini_file_def config_of_def read_lines_end)

theorem ini_print_read_witness:
  "read_ini_file (Some (''[gate1]'' @ [CHR 0x0A] @ ''ip=1.2.3.4'' @ [CHR 0x0A] @ ''port=7001'' @ [CHR 0x0A])) =
   Inr (Some \<lparr>ini_sections = [\<lparr>sec_key = ''gate1'', sec_nodes = [(''ip'', ''1.2.3.4''), (''port'', ''7001'')]\<rparr>],
              ini_cur = Some 0\<rparr>)"
  using ini_print_read [of "[\<lparr>sec_key = ''gate1'', sec_nodes = [(''ip'', ''1.2.3.4''), (''port'', ''7001'')]\<rparr>]"]
  by (simp add: section_ok_def entry_ok_def print_ini_def print_section_def print_node_def config_of_def)

text \<open>
  Lookups do not depend on the section the configuration cached: when the section names
  are distinct, string and integer lookups give the entry of the named section, or the
  default, the existence test gives 0 exactly for the sections of the file, and every lookup
  leaves a configuration with the same sections for which this holds again.
\<close>

theorem ini_lookup_ok:
  assumes "ini_ok c"
  shows "fst (get_value_string c s k dflt) =
        (case ini_lookup (ini_sections c) s k of None \<Rightarrow> dflt | Some v \<Rightarrow> v) \<and>
      fst (get_value_int c s k n) =
        (case ini_lookup (ini_sections c) s k of None \<Rightarrow> n | Some v \<Rightarrow> atoi v) \<and>
      fst (is_ini_session c s) = (if s \<in> sec_key ` set (ini_sections c) then 0 else -1) \<and>
      ini_ok (snd (get_value_string c s k dflt)) \<and> ini_ok (snd (get_value_int c s k n)) \<and>
      ini_ok (snd (is_ini_session c s)) \<and>
      ini_sections (snd (get_value_string c s k dflt)) = ini_sections c \<and>
      ini_sections (snd (get_value_int c s k n)) = ini_sections c \<and>
      ini_sections (snd (is_ini_session c s)) = ini_sections c"
  using assms
  by (simp add: get_value_string_ok get_value_int_ok is_ini_session_ok get_section_ok)

theorem ini_lookup_ok_witness:
  "fst (get_value_int (config_of [\<lparr>sec_key = ''a'', sec_nodes = [(''x'', ''12'')]\<rparr>, \<lparr>sec_key = ''b'', sec_nodes = []\<rparr>])
     ''a'' ''x'' 5) = 12"
  using ini_lookup_ok [of "config_of [\<lparr>sec_key = ''a'', sec_nodes = [(''x'', ''12'')]\<rparr>, \<lparr>sec_key = ''b'', sec_nodes = []\<rparr>]"
      "''a''" "''x''" "[]" 5]
  by (simp add: config_of_def ini_ok_def ini_lookup_def atoi_def atol_def clamp64_def is_space_def
      is_digit_def nat_char_def)

text \<open>
  A first line of at least 1000 characters (none of them a line end) makes the reader
  write the terminating NUL behind its buffer, whatever follows.
\<close>

theorem ini_long_line_overruns:
  assumes "1000 \<le> length l" "CHR 0x0A \<notin> set l" "CHR 0x0D \<notin> set l" "NUL \<notin> set l"
  shows "read_ini_file (Some (l @ f)) = Inl OutOfBounds"
proof -
  obtain r where "read_chars 1000 0 0 (l @ f) = Some (take 1000 l, r)"
    using read_chars_long [of l 0 1000 0 f] assms by auto
  then have "read_ini_line 1000 (l @ f) = Inl OutOfBounds"
    using assms by (simp add: read_ini_line_def)
  then show ?thesis
    by (simp add: read_ini_file_def read_lines.simps)
qed

theorem ini_long_line_overruns_witness:
  "read_ini_file (Some (replicate 1000 (CHR ''#'') @ [CHR 0x0A])) = Inl OutOfBounds"
  by (rule ini_long_line_overruns) simp_all

end
