(* ===== verification/ServerConfig.thy ===== *)
theory ServerConfig
  imports IniReader
begin

text \<open>
  \<open>CS_LoginService/server_config.c\<close>: the getters of the login service over the
  configuration file. Every getter returns, beside its value, the configuration whose
  cached section the lookup may have moved.
\<close>

section \<open>Getters\<close>

text \<open>\<open>sprintf(session, "<name>%d", no)\<close>.\<close>

definition slot_name :: "string \<Rightarrow> int \<Rightarrow> string" where
  "slot_name s no = s @ show_int no"

definition read_server_config :: "string option \<Rightarrow> fault + ini_config option" where
  "read_server_config file = read_ini_file file"

definition close_server_config :: "ini_config \<Rightarrow> ini_block list" where
  "close_server_config c = close_ini_file c"

definition config_server_id :: "ini_config \<Rightarrow> int \<times> ini_config" where
  "config_server_id c = get_value_int c ''handlerlib'' ''service_id'' 1"

definition config_handlers_count :: "ini_config \<Rightarrow> int \<times> ini_config" where
  "config_handlers_count c = get_value_int c ''handlerlib'' ''handler_count'' 128"

definition config_tcp_threads_count :: "ini_config \<Rightarrow> int \<times> ini_config" where
  "config_tcp_threads_count c = get_value_int c ''tcplib'' ''tcp_threads_num'' 1"

definition config_work_threads_count :: "ini_config \<Rightarrow> int \<times> ini_config" where
  "config_work_threads_count c = get_value_int c ''worklib'' ''work_threads_num'' 1"

definition config_log_level :: "ini_config \<Rightarrow> int \<times> ini_config" where
  "config_log_level c = get_value_int c ''logerlib'' ''log_level'' 0"

definition config_log_prev :: "ini_config \<Rightarrow> string \<times> ini_config" where
  "config_log_prev c = get_value_string c ''logerlib'' ''log_file_pre'' []"

definition config_server_name :: "ini_config \<Rightarrow> string \<times> ini_config" where
  "config_server_name c = get_value_string c ''service'' ''server_name'' []"

definition config_server_cache_poolsize :: "ini_config \<Rightarrow> int \<times> ini_config" where
  "config_server_cache_poolsize c = get_value_int c ''service'' ''cache_pool_size'' 256"

definition config_server_user_poolsize :: "ini_config \<Rightarrow> int \<times> ini_config" where
  "config_server_user_poolsize c = get_value_int c ''user'' ''user_pool_size'' 1024"

definition config_server_userkey :: "ini_config \<Rightarrow> string \<times> ini_config" where
  "config_server_userkey c = get_value_string c ''user'' ''user_key'' ''happy-ant''"

definition config_server_usertable :: "ini_config \<Rightarrow> string \<times> ini_config" where
  "config_server_usertable c = get_value_string c ''user'' ''user_dbtable'' ''user''"

definition config_server_userserverid :: "ini_config \<Rightarrow> int \<times> ini_config" where
  "config_server_userserverid c = get_value_int c ''user'' ''user_serverid'' 0"

definition is_config_db :: "ini_config \<Rightarrow> int \<Rightarrow> int \<times> ini_config" where
  "is_config_db c no = is_ini_session c (slot_name ''dblib'' no)"

definition config_db_name :: "ini_config \<Rightarrow> int \<Rightarrow> string \<times> ini_config" where
  "config_db_name c no = get_value_string c (slot_name ''dblib'' no) ''db_name'' []"

definition config_db_host :: "ini_config \<Rightarrow> int \<Rightarrow> string \<times> ini_config" where
  "config_db_host c no = get_value_string c (slot_name ''dblib'' no) ''db_host'' []"

definition config_db_port :: "ini_config \<Rightarrow> int \<Rightarrow> int \<times> ini_config" where
  "config_db_port c no = get_value_int c (slot_name ''dblib'' no) ''db_port'' 0"

definition config_db_user :: "ini_config \<Rightarrow> int \<Rightarrow> string \<times> ini_config" where
  "config_db_user c no = get_value_string c (slot_name ''dblib'' no) ''db_user'' []"

definition config_db_pswd :: "ini_config \<Rightarrow> int \<Rightarrow> string \<times> ini_config" where
  "config_db_pswd c no = get_value_string c (slot_name ''dblib'' no) ''db_pswd'' []"

definition config_db_type :: "ini_config \<Rightarrow> int \<Rightarrow> int \<times> ini_config" where
  "config_db_type c no = get_value_int c (slot_name ''dblib'' no) ''db_type'' 0"

definition config_db_concount :: "ini_config \<Rightarrow> int \<Rightarrow> int \<times> ini_config" where
  "config_db_concount c no = get_value_int c (slot_name ''dblib'' no) ''db_concount'' 0"

definition is_config_gate :: "ini_config \<Rightarrow> int \<Rightarrow> int \<times> ini_config" where
  "is_config_gate c no = is_ini_session c (slot_name ''gate'' no)"

definition config_gate_svrid :: "ini_config \<Rightarrow> int \<Rightarrow> int \<times> ini_config" where
  "config_gate_svrid c no = get_value_int c (slot_name ''gate'' no) ''svrid'' 0"

definition config_gate_ip :: "ini_config \<Rightarrow> int \<Rightarrow> string \<times> ini_config" where
  "config_gate_ip c no = get_value_string c (slot_name ''gate'' no) ''ip'' ''0.0.0.0''"

definition config_gate_port :: "ini_config \<Rightarrow> int \<Rightarrow> int \<times> ini_config" where
  "config_gate_port c no = get_value_int c (slot_name ''gate'' no) ''port'' 7000"

definition config_gate_protocol :: "ini_config \<Rightarrow> int \<Rightarrow> int \<times> ini_config" where
  "config_gate_protocol c no = get_value_int c (slot_name ''gate'' no) ''protocol'' 1"

definition config_tcp_handlers_count :: "ini_config \<Rightarrow> int \<times> ini_config" where
  "config_tcp_handlers_count c = get_value_int c ''tcplib'' ''tcp_handlers_num'' 1"

definition is_config_master :: "ini_config \<Rightarrow> int \<times> ini_config" where
  "is_config_master c = is_ini_session c ''mster_server''"

definition config_master_host :: "ini_config \<Rightarrow> string \<times> ini_config" where
  "config_master_host c = get_value_string c ''mster_server'' ''server_host'' ''master.shenyv.com''"

definition config_master_port :: "ini_config \<Rightarrow> int \<times> ini_config" where
  "config_master_port c = get_value_int c ''mster_server'' ''server_port'' 80"

definition config_master_protocol :: "ini_config \<Rightarrow> int \<times> ini_config" where
  "config_master_protocol c = get_value_int c ''mster_server'' ''server_protocol'' 0"

definition is_config_cmd :: "ini_config \<Rightarrow> int \<times> ini_config" where
  "is_config_cmd c = is_ini_session c ''tcp_cmd''"

definition config_cmd_ip :: "ini_config \<Rightarrow> string \<times> ini_config" where
  "config_cmd_ip c = get_value_string c ''tcp_cmd'' ''ip'' ''127.0.0.1''"

definition config_cmd_port :: "ini_config \<Rightarrow> int \<times> ini_config" where
  "config_cmd_port c = get_value_int c ''tcp_cmd'' ''port'' 6666"

definition config_cmd_protocol :: "ini_config \<Rightarrow> int \<times> ini_config" where
  "config_cmd_protocol c = get_value_int c ''tcp_cmd'' ''protocol'' 0"

definition is_config_user :: "ini_config \<Rightarrow> int \<Rightarrow> int \<times> ini_config" where
  "is_config_user c no = is_ini_session c (slot_name ''port_user'' no)"

definition config_user_ip :: "ini_config \<Rightarrow> int \<Rightarrow> string \<times> ini_config" where
  "config_user_ip c no = get_value_string c (slot_name ''port_user'' no) ''ip'' ''127.0.0.1''"

definition config_user_port :: "ini_config \<Rightarrow> int \<Rightarrow> int \<times> ini_config" where
  "config_user_port c no = get_value_int c (slot_name ''port_user'' no) ''port'' 80"

definition config_user_protocol :: "ini_config \<Rightarrow> int \<Rightarrow> int \<times> ini_config" where
  "config_user_protocol c no = get_value_int c (slot_name ''port_user'' no) ''protocol'' 0"

section \<open>The gates of a configuration\<close>

text \<open>The settings of one gate, and the section that holds them.\<close>

record gate_conf =
  gc_no :: int
  gc_svrid :: int
  gc_ip :: string
  gc_port :: int
  gc_protocol :: int

definition int32 :: "int \<Rightarrow> bool" where
  "int32 i \<longleftrightarrow> - (2 ^ 31) \<le> i \<and> i < 2 ^ 31"

definition gate_ok :: "gate_conf \<Rightarrow> bool" where
  "gate_ok g \<longleftrightarrow> int32 (gc_no g) \<and> int32 (gc_svrid g) \<and> int32 (gc_port g) \<and> int32 (gc_protocol g) \<and>
     plain (gc_ip g) \<and> length (gc_ip g) < 900"

definition gate_section :: "gate_conf \<Rightarrow> ini_section" where
  "gate_section g =
     \<lparr>sec_key = slot_name ''gate'' (gc_no g),
      sec_nodes = [(''svrid'', show_int (gc_svrid g)), (''ip'', gc_ip g),
        (''port'', show_int (gc_port g)), (''protocol'', show_int (gc_protocol g))]\<rparr>"

lemma plain_show_int: "plain (show_int i)"
  using show_int_chars(1) [of i]
  by (auto simp: plain_def is_digit_def nat_char_def)

lemma length_show_int32: "int32 i \<Longrightarrow> length (show_int i) \<le> 11"
  by (simp add: int32_def length_show_int)

lemma slot_name_inject:
  "int32 i \<Longrightarrow> int32 j \<Longrightarrow> slot_name s i = slot_name s j \<longleftrightarrow> i = j"
  by (simp add: slot_name_def int32_def show_int_inject)

lemma gate_section_ok: "gate_ok g \<Longrightarrow> section_ok (gate_section g)"
  using length_show_int32 [of "gc_no g"] length_show_int32 [of "gc_svrid g"]
    length_show_int32 [of "gc_port g"] length_show_int32 [of "gc_protocol g"]
  by (auto simp: gate_ok_def section_ok_def gate_section_def entry_ok_def slot_name_def plain_show_int)

lemma gate_lookup:
  assumes "list_all gate_ok gs" "distinct (map gc_no gs)" "g \<in> set gs"
  shows "ini_lookup (map gate_section gs) (slot_name ''gate'' (gc_no g)) k = map_of (sec_nodes (gate_section g)) k"
proof -
  have names: "map (sec_key \<circ> gate_section) gs = map (slot_name ''gate'' \<circ> gc_no) gs"
    by (simp add: gate_section_def)
  have "distinct (map (sec_key \<circ> gate_section) gs)"
    using assms(1,2) unfolding names
    by (auto simp: distinct_map inj_on_def list_all_iff gate_ok_def slot_name_inject)
  then have "distinct (map fst (map (\<lambda>x. (sec_key x, sec_nodes x)) (map gate_section gs)))"
    by (simp add: comp_def)
  moreover have "(slot_name ''gate'' (gc_no g), sec_nodes (gate_section g)) \<in>
    set (map (\<lambda>x. (sec_key x, sec_nodes x)) (map gate_section gs))"
    using assms(3) by (force simp: gate_section_def image_iff)
  ultimately show ?thesis by (simp add: ini_lookup_def)
qed

lemma gate_config_ok:
  assumes "list_all gate_ok gs" "distinct (map gc_no gs)"
  shows "ini_ok (config_of (map gate_section gs))"
proof -
  have "distinct (map (slot_name ''gate'' \<circ> gc_no) gs)"
    using assms by (auto simp: distinct_map inj_on_def list_all_iff gate_ok_def slot_name_inject)
  then show ?thesis by (auto simp: ini_ok_def config_of_def gate_section_def comp_def)
qed

text \<open>
  The gates a configuration file describes are the gates the service reads: for
  numbered sections \<open>gate<no>\<close> with distinct numbers, the file is read without fault, the
  section of each gate is found, and its server id, address, port and protocol come back;
  numbers that are not in the file are reported as absent.
\<close>

theorem gate_config_roundtrip:
  assumes "list_all gate_ok gs" "distinct (map gc_no gs)" "g \<in> set gs" "int32 no" "no \<notin> gc_no ` set gs"
  shows "\<exists>c. read_server_config (Some (print_ini (map gate_section gs))) = Inr (Some c) \<and>
    fst (is_config_gate c (gc_no g)) = 0 \<and> fst (config_gate_svrid c (gc_no g)) = gc_svrid g \<and>
    fst (config_gate_ip c (gc_no g)) = gc_ip g \<and> fst (config_gate_port c (gc_no g)) = gc_port g \<and>
    fst (config_gate_protocol c (gc_no g)) = gc_protocol g \<and> fst (is_config_gate c no) = -1"
proof -
  let ?c = "config_of (map gate_section gs)"
  have "list_all section_ok (map gate_section gs)"
    using assms(1) by (auto simp: list_all_iff gate_section_ok)
  then have read: "read_server_config (Some (print_ini (map gate_section gs))) = Inr (Some ?c)"
    using read_lines_sections [of "map gate_section gs" "[]" "[]"]
    by (simp add: read_server_config_def read_ini_file_def config_of_def read_lines_end)
  have ok: "ini_ok ?c" using gate_config_ok assms by blast
  have secs: "ini_sections ?c = map gate_section gs" by (simp add: config_of_def)
  have g: "gate_ok g" using assms by (simp add: list_all_iff)
  have look: "ini_lookup (map gate_section gs) (slot_name ''gate'' (gc_no g)) k =
    map_of (sec_nodes (gate_section g)) k" for k
    using gate_lookup assms by blast
  have "slot_name ''gate'' (gc_no g) \<in> sec_key ` set (map gate_section gs)"
    using assms(3) by (force simp: gate_section_def image_iff)
  moreover have "slot_name ''gate'' no \<notin> sec_key ` set (map gate_section gs)"
    using assms by (auto simp: gate_section_def list_all_iff gate_ok_def slot_name_inject)
  ultimately have "fst (is_config_gate ?c (gc_no g)) = 0" "fst (is_config_gate ?c no) = -1"
    by (simp_all only: is_config_gate_def is_ini_session_ok [OF ok] secs if_True if_False)
  moreover have "fst (config_gate_svrid ?c (gc_no g)) = gc_svrid g"
    "fst (config_gate_ip ?c (gc_no g)) = gc_ip g" "fst (config_gate_port ?c (gc_no g)) = gc_port g"
    "fst (config_gate_protocol ?c (gc_no g)) = gc_protocol g"
    using g
    by (simp_all add: config_gate_svrid_def config_gate_ip_def config_gate_port_def config_gate_protocol_def
        get_value_int_ok [OF ok] get_value_string_ok [OF ok] secs look gate_ok_def int32_def atoi_show_int)
      (simp_all add: gate_section_def atoi_show_int)
  ultimately show ?thesis using read by blast
qed

theorem gate_config_roundtrip_witness:
  "\<exists>c. read_server_config (Some (print_ini (map gate_section
       [\<lparr>gc_no = 1, gc_svrid = 5, gc_ip = ''10.0.0.1'', gc_port = 7001, gc_protocol = 4\<rparr>,
        \<lparr>gc_no = 2, gc_svrid = 6, gc_ip = ''10.0.0.2'', gc_port = 7002, gc_protocol = 4\<rparr>]))) = Inr (Some c) \<and>
     fst (config_gate_port c 2) = 7002 \<and> fst (is_config_gate c 3) = -1"
  using gate_config_roundtrip [of "[\<lparr>gc_no = 1, gc_svrid = 5, gc_ip = ''10.0.0.1'', gc_port = 7001, gc_protocol = 4\<rparr>,
        \<lparr>gc_no = 2, gc_svrid = 6, gc_ip = ''10.0.0.2'', gc_port = 7002, gc_protocol = 4\<rparr>]"
      "\<lparr>gc_no = 2, gc_svrid = 6, gc_ip = ''10.0.0.2'', gc_port = 7002, gc_protocol = 4\<rparr>" 3]
  by (auto simp: gate_ok_def int32_def)

text \<open>
  The name of a numbered section fits the 32 byte buffer it is printed into, with its
  terminating NUL, for the longest prefix in use and every 32 bit number, and different
  numbers name different sections.
\<close>

theorem slot_names_fit:
  assumes "int32 i" "int32 j"
  shows "length (slot_name ''port_user'' i) + 1 \<le> 32 \<and>
    (slot_name ''port_user'' i = slot_name ''port_user'' j \<longleftrightarrow> i = j)"
  using length_show_int32 [OF assms(1)] slot_name_inject [OF assms] by (simp add: slot_name_def)

theorem slot_names_fit_witness: "length (slot_name ''port_user'' (- 2147483648)) + 1 \<le> 32"
  using slot_names_fit [of "- 2147483648" 0] by (simp add: int32_def)

end
