(* ===== verification/Fifo.thy ===== *)
theory Fifo
  imports Prelude
begin

text \<open>
  The contract of the queues: elements leave in the order they entered. An operation gets
  what its environment gives it (the clock, for the queues that reuse nodes by age).
\<close>

datatype ('e, 'a) fifo_op = Push 'e 'a | Pop 'e

primrec op_env :: "('e, 'a) fifo_op \<Rightarrow> 'e" where
  "op_env (Push e x) = e"
| "op_env (Pop e) = e"

primrec pushed :: "('e, 'a) fifo_op \<Rightarrow> 'a list" where
  "pushed (Push e x) = [x]"
| "pushed (Pop e) = []"

text \<open>A run on an implementation, with the elements it removes.\<close>

primrec fifo_step ::
  "('e \<Rightarrow> 'a \<Rightarrow> 'q \<Rightarrow> fault + 'q) \<Rightarrow> ('e \<Rightarrow> 'q \<Rightarrow> fault + 'a \<times> 'q) \<Rightarrow> ('e, 'a) fifo_op \<Rightarrow> 'q \<Rightarrow>
   fault + 'a list \<times> 'q" where
  "fifo_step push pop (Push e x) q = rbind (push e x q) (\<lambda>q'. Inr ([], q'))"
| "fifo_step push pop (Pop e) q = rbind (pop e q) (\<lambda>(x, q'). Inr ([x], q'))"

primrec fifo_run ::
  "('e \<Rightarrow> 'a \<Rightarrow> 'q \<Rightarrow> fault + 'q) \<Rightarrow> ('e \<Rightarrow> 'q \<Rightarrow> fault + 'a \<times> 'q) \<Rightarrow> ('e, 'a) fifo_op list \<Rightarrow> 'q \<Rightarrow>
   fault + 'a list \<times> 'q" where
  "fifo_run push pop [] q = Inr ([], q)"
| "fifo_run push pop (x # xs) q =
     rbind (fifo_step push pop x q) (\<lambda>(o1, q1).
       rbind (fifo_run push pop xs q1) (\<lambda>(o2, q2). Inr (o1 @ o2, q2)))"

text \<open>
  The lengths a run goes through on a queue that starts with \<open>n\<close> elements: every push
  finds room, every pop an element.
\<close>

fun fifo_fits :: "(nat \<Rightarrow> bool) \<Rightarrow> ('e, 'a) fifo_op list \<Rightarrow> nat \<Rightarrow> bool" where
  "fifo_fits room [] n = True"
| "fifo_fits room (Push e x # xs) n = (room n \<and> fifo_fits room xs (n + 1))"
| "fifo_fits room (Pop e # xs) n = (n > 0 \<and> fifo_fits room xs (n - 1))"

locale fifo =
  fixes push :: "'e \<Rightarrow> 'a \<Rightarrow> 'q \<Rightarrow> fault + 'q"
    and pop :: "'e \<Rightarrow> 'q \<Rightarrow> fault + 'a \<times> 'q"
    and inv :: "'q \<Rightarrow> bool"
    and contents :: "'q \<Rightarrow> 'a list"
    and room :: "nat \<Rightarrow> bool"
    and env_ok :: "'e \<Rightarrow> bool"
  assumes push_ok: "inv q \<Longrightarrow> room (length (contents q)) \<Longrightarrow> env_ok e \<Longrightarrow>
      \<exists>q'. push e x q = Inr q' \<and> inv q' \<and> contents q' = contents q @ [x]"
    and pop_ok: "inv q \<Longrightarrow> contents q \<noteq> [] \<Longrightarrow> env_ok e \<Longrightarrow>
      \<exists>q'. pop e q = Inr (hd (contents q), q') \<and> inv q' \<and> contents q' = tl (contents q)"
begin

lemma run_fifo:
  assumes "inv q" "fifo_fits room ops (length (contents q))" "list_all (env_ok \<circ> op_env) ops"
  shows "\<exists>out q'. fifo_run push pop ops q = Inr (out, q') \<and> inv q' \<and>
    out @ contents q' = contents q @ concat (map pushed ops)"
  using assms
proof (induction ops arbitrary: q)
  case (Cons x xs)
  show ?case
  proof (cases x)
    case (Push e v)
    obtain q1 where q1: "push e v q = Inr q1" "inv q1" "contents q1 = contents q @ [v]"
      using push_ok [of q e v] Cons.prems by (auto simp: Push)
    moreover obtain out q2 where "fifo_run push pop xs q1 = Inr (out, q2)" "inv q2"
      "out @ contents q2 = contents q1 @ concat (map pushed xs)"
      using Cons.IH [of q1] Cons.prems q1 by (auto simp: Push)
    ultimately show ?thesis by (simp add: Push)
  next
    case (Pop e)
    obtain q1 where q1: "pop e q = Inr (hd (contents q), q1)" "inv q1" "contents q1 = tl (contents q)"
      "contents q \<noteq> []"
      using pop_ok [of q e] Cons.prems by (auto simp: Pop)
    moreover obtain out q2 where "fifo_run push pop xs q1 = Inr (out, q2)" "inv q2"
      "out @ contents q2 = contents q1 @ concat (map pushed xs)"
      using Cons.IH [of q1] Cons.prems q1 by (auto simp: Pop)
    moreover obtain v vs where "contents q = v # vs" using q1(4) by (cases "contents q") auto
    ultimately show ?thesis by (simp add: Pop)
  qed
qed simp

end

end
