(* ===== verification/TcpQueue.thy ===== *)
theory TcpQueue
  imports Fifo
begin

text \<open>
  \<open>antlib/tcplib/tcp_queue.h\<close>: the ring of messages a connection has to send. A cell that
  was never written is \<open>None\<close>; the array is \<open>None\<close> for a null pointer.
\<close>

section \<open>State\<close>

definition TCPQUEUE_NODE :: nat where
  "TCPQUEUE_NODE = 128"

record 'a tcp_queue =
  tq_size :: nat
  tq_head :: nat
  tq_tail :: nat
  tq_count :: int
  tq_queue :: "'a option list option"

section \<open>Operations\<close>

definition init_tcpqueue :: "'a tcp_queue" where
  "init_tcpqueue = \<lparr>tq_size = 0, tq_head = 0, tq_tail = 0, tq_count = 0, tq_queue = None\<rparr>"

definition uninit_tcpqueue :: "'a tcp_queue \<Rightarrow> 'a tcp_queue" where
  "uninit_tcpqueue qu = init_tcpqueue"

definition reset_tcpqueue :: "'a tcp_queue \<Rightarrow> fault + 'a tcp_queue" where
  "reset_tcpqueue qu =
     (let qu = qu\<lparr>tq_count := 0, tq_head := 0, tq_tail := 0\<rparr>
      in rbind
        (if tq_size qu > TCPQUEUE_NODE then
           rbind (c_assert (tq_queue qu \<noteq> None)) (\<lambda>_. Inr (qu\<lparr>tq_queue := None, tq_size := 0\<rparr>))
         else Inr qu)
        (\<lambda>qu. Inr
          (if tq_queue qu = None
           then qu\<lparr>tq_queue := Some (replicate TCPQUEUE_NODE None), tq_size := TCPQUEUE_NODE\<rparr>
           else qu)))"

definition is_tcpqueue_empty :: "'a tcp_queue \<Rightarrow> bool" where
  "is_tcpqueue_empty qu = (tq_count qu = 0)"

text \<open>The copy of a full ring into an array of twice its size.\<close>

definition grow_tcpqueue :: "'a tcp_queue \<Rightarrow> 'a option list \<Rightarrow> fault + 'a tcp_queue" where
  "grow_tcpqueue qu cells =
     (let n = tq_size qu * 2
      in rbind (c_assert (tq_head qu = tq_tail qu)) (\<lambda>_.
         rbind (c_assert (n < 1024 * 1024)) (\<lambda>_.
         let newqu = replicate n None;
             newqu = (if tq_head qu = 0 then put 0 (take (tq_size qu) cells) newqu
                      else let i = tq_size qu - tq_head qu
                           in put i (take (tq_head qu) cells) (put 0 (blk (tq_head qu) i cells) newqu))
         in Inr (qu\<lparr>tq_head := 0, tq_tail := tq_size qu, tq_size := n, tq_queue := Some newqu\<rparr>))))"

definition push_tcpqueue :: "'a \<Rightarrow> 'a tcp_queue \<Rightarrow> fault + 'a tcp_queue" where
  "push_tcpqueue vl qu =
     (case tq_queue qu of
        None \<Rightarrow> Inl AssertFail
      | Some cells \<Rightarrow>
          rbind (c_assert (tq_count qu < int (tq_size qu))) (\<lambda>_.
          rbind (wr cells (tq_tail qu) (Some vl)) (\<lambda>cells.
          let qu = qu\<lparr>tq_tail := tq_tail qu + 1, tq_count := tq_count qu + 1, tq_queue := Some cells\<rparr>
          in rbind (if tq_count qu \<ge> int (tq_size qu) then grow_tcpqueue qu cells else Inr qu) (\<lambda>qu.
             Inr (if tq_tail qu = tq_size qu then qu\<lparr>tq_tail := 0\<rparr> else qu)))))"

definition pop_tcpqueue :: "'a tcp_queue \<Rightarrow> 'a tcp_queue" where
  "pop_tcpqueue qu =
     qu\<lparr>tq_head := (if tq_head qu + 1 = TCPQUEUE_NODE then 0 else tq_head qu + 1),
        tq_count := tq_count qu - 1\<rparr>"

text \<open>The head does not look at the counter; a cell that was never written is no value.\<close>

definition tcpqueue_head :: "'a tcp_queue \<Rightarrow> fault + 'a" where
  "tcpqueue_head qu =
     rbind (deref (tq_queue qu)) (\<lambda>cells.
     rbind (rd cells (tq_head qu)) (\<lambda>c. case c of None \<Rightarrow> Inl Uninitialised | Some v \<Rightarrow> Inr v))"

text \<open>How the connections take a message: the head is read, then removed.\<close>

definition take_tcpqueue :: "'a tcp_queue \<Rightarrow> fault + 'a \<times> 'a tcp_queue" where
  "take_tcpqueue qu = rbind (tcpqueue_head qu) (\<lambda>v. Inr (v, pop_tcpqueue qu))"

section \<open>The ring as a list\<close>

definition ring_items :: "'a tcp_queue \<Rightarrow> 'a option list" where
  "ring_items qu =
     (case tq_queue qu of
        None \<Rightarrow> []
      | Some cells \<Rightarrow> map (\<lambda>j. cells ! ((tq_head qu + j) mod tq_size qu)) [0..<nat (tq_count qu)])"

definition tcpqueue_items :: "'a tcp_queue \<Rightarrow> 'a list" where
  "tcpqueue_items qu = map the (ring_items qu)"

text \<open>A ring that has not grown.\<close>

definition ring_ok :: "'a tcp_queue \<Rightarrow> bool" where
  "ring_ok qu \<longleftrightarrow>
     (\<exists>cells. tq_queue qu = Some cells \<and> length cells = 128 \<and> tq_size qu = 128 \<and> tq_head qu < 128 \<and>
        0 \<le> tq_count qu \<and> tq_count qu < 128 \<and> tq_tail qu = (tq_head qu + nat (tq_count qu)) mod 128 \<and>
        None \<notin> set (ring_items qu))"

lemma ring_items_Some:
  "tq_queue qu = Some cells \<Longrightarrow> tq_size qu = 128 \<Longrightarrow>
   ring_items qu = map (\<lambda>j. cells ! ((tq_head qu + j) mod 128)) [0..<nat (tq_count qu)]"
  by (simp add: ring_items_def)

lemma reset_ring_ok:
  "tq_queue qu = None \<and> tq_size qu = 0 \<Longrightarrow>
   \<exists>qu'. reset_tcpqueue qu = Inr qu' \<and> ring_ok qu' \<and> tcpqueue_items qu' = []"
  by (simp add: reset_tcpqueue_def ring_ok_def Let_def TCPQUEUE_NODE_def ring_items_def tcpqueue_items_def)

lemma mod128_neq:
  assumes "j < n" "n < 128"
  shows "(h + n) mod 128 \<noteq> (h + j) mod (128 :: nat)"
proof
  assume "(h + n) mod 128 = (h + j) mod 128"
  then obtain s where "h + n = h + j + 128 * s"
    using assms by (auto elim: mod_eq_nat1E)
  then show False using assms by (cases s) auto
qed

lemma write_ring:
  fixes c :: int
  assumes "0 \<le> c" "c < 128" "length cells = 128"
  shows "map (\<lambda>j. cells[(h + nat c) mod 128 := x] ! ((h + j) mod 128)) [0..<Suc (nat c)] =
    map (\<lambda>j. cells ! ((h + j) mod 128)) [0..<nat c] @ [x]"
proof -
  have "(h + nat c) mod 128 \<noteq> (h + j) mod 128" if "j < nat c" for j
    using mod128_neq [OF that, of h] assms by simp
  then show ?thesis using assms by (auto simp: nth_list_update)
qed

lemma push_ring:
  assumes "ring_ok qu" "length (tcpqueue_items qu) < 127"
  shows "\<exists>qu'. push_tcpqueue x qu = Inr qu' \<and> ring_ok qu' \<and> tcpqueue_items qu' = tcpqueue_items qu @ [x]"
proof -
  obtain cells where c: "tq_queue qu = Some cells" "length cells = 128" "tq_size qu = 128" "tq_head qu < 128"
    "0 \<le> tq_count qu" "tq_tail qu = (tq_head qu + nat (tq_count qu)) mod 128" "None \<notin> set (ring_items qu)"
    using assms(1) by (auto simp: ring_ok_def)
  have cnt: "tq_count qu < 127"
    using assms(2) c(5) by (simp add: tcpqueue_items_def ring_items_Some [OF c(1,3)])
  let ?cells = "cells[tq_tail qu := Some x]"
  let ?qu = "qu\<lparr>tq_tail := (if tq_tail qu + 1 = 128 then 0 else tq_tail qu + 1),
    tq_count := tq_count qu + 1, tq_queue := Some ?cells\<rparr>"
  have push: "push_tcpqueue x qu = Inr ?qu"
    using c(1-6) cnt by (simp add: push_tcpqueue_def Let_def)
  have items: "ring_items ?qu = ring_items qu @ [Some x]"
    using c cnt write_ring [of "tq_count qu" cells "tq_head qu" "Some x"]
    by (simp add: ring_items_Some nat_add_distrib)
  have "ring_ok ?qu"
    using c cnt items
    by (auto simp: ring_ok_def nat_add_distrib mod_Suc)
  then show ?thesis using push items by (auto simp: tcpqueue_items_def)
qed

lemma take_ring:
  assumes "ring_ok qu" "tcpqueue_items qu \<noteq> []"
  shows "\<exists>qu'. take_tcpqueue qu = Inr (hd (tcpqueue_items qu), qu') \<and> ring_ok qu' \<and>
    tcpqueue_items qu' = tl (tcpqueue_items qu)"
proof -
  obtain cells where c: "tq_queue qu = Some cells" "length cells = 128" "tq_size qu = 128" "tq_head qu < 128"
    "0 \<le> tq_count qu" "tq_count qu < 128" "tq_tail qu = (tq_head qu + nat (tq_count qu)) mod 128"
    "None \<notin> set (ring_items qu)"
    using assms(1) by (auto simp: ring_ok_def)
  obtain n where n: "nat (tq_count qu) = Suc n"
    using assms(2) by (cases "nat (tq_count qu)") (auto simp: tcpqueue_items_def ring_items_Some [OF c(1,3)])
  have it: "ring_items qu = cells ! tq_head qu # map (\<lambda>j. cells ! ((Suc (tq_head qu) + j) mod 128)) [0..<n]"
    using c(4) by (simp add: ring_items_Some [OF c(1,3)] n upt_conv_Cons map_Suc_upt [symmetric] comp_def del: upt_Suc)
  then obtain v where v: "cells ! tq_head qu = Some v" using c(8) by (cases "cells ! tq_head qu") auto
  have hd: "tcpqueue_head qu = Inr v"
    using c v by (simp add: tcpqueue_head_def)
  let ?qu = "pop_tcpqueue qu"
  have cnt: "nat (tq_count qu - 1) = n" "tq_count qu = int n + 1" using n c(5) by linarith+
  have "(Suc (tq_head qu)) mod 128 = tq_head ?qu"
    using c(4) by (simp add: pop_tcpqueue_def TCPQUEUE_NODE_def mod_Suc)
  then have "(Suc (tq_head qu) + j) mod 128 = (tq_head ?qu + j) mod 128" for j
    by (metis mod_add_left_eq)
  then have items: "ring_items ?qu = map (\<lambda>j. cells ! ((Suc (tq_head qu) + j) mod 128)) [0..<n]"
    using c cnt by (subst ring_items_Some [of _ cells]) (simp_all add: pop_tcpqueue_def)
  have tl: "tq_tail ?qu = (tq_head ?qu + n) mod 128"
    using \<open>\<And>j. (Suc (tq_head qu) + j) mod 128 = (tq_head ?qu + j) mod 128\<close> [of n] c(7) n
    by (simp add: pop_tcpqueue_def)
  have "ring_ok ?qu"
    using c cnt items it tl unfolding ring_ok_def
    by (intro exI [of _ cells]) (auto simp: pop_tcpqueue_def TCPQUEUE_NODE_def)
  then show ?thesis
    using hd items it v by (simp add: take_tcpqueue_def tcpqueue_items_def)
qed

interpretation tcpqueue: fifo "\<lambda>_ :: unit. push_tcpqueue" "\<lambda>_ :: unit. take_tcpqueue" ring_ok tcpqueue_items
  "\<lambda>n. n < 127" "\<lambda>_. True"
  by unfold_locales (auto simp: push_ring take_ring)

section \<open>Beyond 127 elements\<close>

text \<open>A ring whose cells are all in use but one.\<close>

lemma unrolled_nth:
  assumes "length xs = 128" "h < 128" "j < 128"
  shows "(drop h xs @ take h xs @ ys) ! j = xs ! ((h + j) mod 128)"
proof (cases "h + j < 128")
  case True
  then have "j < 128 - h" by linarith
  then show ?thesis using True assms by (simp add: nth_append)
next
  case False
  then have "(h + j) mod 128 = h + j - 128" using assms by (simp add: mod_if)
  moreover have "\<not> j < 128 - h" "j - (128 - h) < h" "j - (128 - h) = h + j - 128"
    using False assms by linarith+
  ultimately show ?thesis using assms by (simp add: nth_append)
qed

lemma push_last_cell:
  assumes "ring_ok qu" "tq_count qu = 127"
  shows "push_tcpqueue x qu = Inl AssertFail \<longleftrightarrow> tq_head qu = 0"
    and "tq_head qu \<noteq> 0 \<Longrightarrow> \<exists>qu'. push_tcpqueue x qu = Inr qu' \<and> tq_size qu' = 256 \<and> tq_head qu' = 0 \<and>
      tq_tail qu' = 128 \<and> tq_count qu' = 128 \<and> tcpqueue_items qu' = tcpqueue_items qu @ [x]"
proof -
  obtain cells where c: "tq_queue qu = Some cells" "length cells = 128" "tq_size qu = 128" "tq_head qu < 128"
    "tq_tail qu = (tq_head qu + 127) mod 128"
    using assms by (auto simp: ring_ok_def)
  have tl: "tq_tail qu + 1 = (if tq_head qu = 0 then 128 else tq_head qu)"
    using c(4,5) by (auto simp: mod_if)
  have w: "wr cells (tq_tail qu) (Some x) = Inr (cells[tq_tail qu := Some x])"
    using c(2,4,5) by simp
  show "push_tcpqueue x qu = Inl AssertFail \<longleftrightarrow> tq_head qu = 0"
    using c(1,3) w tl assms(2) by (auto simp: push_tcpqueue_def grow_tcpqueue_def Let_def)
  assume h: "tq_head qu \<noteq> 0"
  let ?cells = "cells[tq_tail qu := Some x]" and ?h = "tq_head qu"
  let ?new = "put (128 - ?h) (take ?h ?cells) (put 0 (blk ?h (128 - ?h) ?cells) (replicate 256 None))"
  let ?qu = "qu\<lparr>tq_head := 0, tq_tail := 128, tq_size := 256, tq_count := 128, tq_queue := Some ?new\<rparr>"
  have push: "push_tcpqueue x qu = Inr ?qu"
    using c(1,3) w tl h assms(2) by (simp add: push_tcpqueue_def grow_tcpqueue_def Let_def)
  have "?new = (drop ?h ?cells @ take ?h ?cells) @ replicate 128 None"
    using c(2,4) by (simp add: put_def blk_def)
  then have nth: "?new ! j = ?cells ! ((?h + j) mod 128)" if "j < 128" for j
    using that c(2,4) by (simp add: unrolled_nth)
  have "ring_items ?qu = map (\<lambda>j. ?cells ! ((?h + j) mod 128)) [0..<128]"
    using nth by (simp add: ring_items_def)
  also have "\<dots> = map (\<lambda>j. ?cells ! ((?h + j) mod 128)) [0..<Suc (nat 127)]"
    by (rule arg_cong [where f = "map _"]) simp
  also have "\<dots> = ring_items qu @ [Some x]"
    using write_ring [of 127 cells ?h "Some x"] c assms(2) by (simp add: ring_items_Some)
  finally show "\<exists>qu'. push_tcpqueue x qu = Inr qu' \<and> tq_size qu' = 256 \<and> tq_head qu' = 0 \<and>
      tq_tail qu' = 128 \<and> tq_count qu' = 128 \<and> tcpqueue_items qu' = tcpqueue_items qu @ [x]"
    using push by (simp add: tcpqueue_items_def)
qed

lemma pops:
  "tq_head qu + n < 128 \<Longrightarrow>
   (pop_tcpqueue ^^ n) qu = qu\<lparr>tq_head := tq_head qu + n, tq_count := tq_count qu - int n\<rparr>"
proof (induction n)
  case (Suc n)
  then show ?case by (simp add: pop_tcpqueue_def [of "qu\<lparr>tq_head := _, tq_count := _\<rparr>"] TCPQUEUE_NODE_def)
qed simp

section \<open>Properties\<close>

text \<open>
  The ring of a connection is a first-in first-out queue as long as it never holds 128
  messages: every run of pushes and takes from a ring in that range succeeds, and what it
  took followed by what is still queued is what was queued followed by what was pushed.
\<close>

theorem tcpqueue_fifo:
  assumes "ring_ok qu" "fifo_fits (\<lambda>n. n < 127) ops (length (tcpqueue_items qu))"
  shows "\<exists>out qu'. fifo_run (\<lambda>_ :: unit. push_tcpqueue) (\<lambda>_. take_tcpqueue) ops qu = Inr (out, qu') \<and>
    ring_ok qu' \<and> out @ tcpqueue_items qu' = tcpqueue_items qu @ concat (map pushed ops)"
  using tcpqueue.run_fifo [OF assms] by (simp add: list_all_iff)

definition new_ring :: "nat tcp_queue" where
  "new_ring = \<lparr>tq_size = 128, tq_head = 0, tq_tail = 0, tq_count = 0, tq_queue = Some (replicate 128 None)\<rparr>"

lemma new_ring_ok: "ring_ok new_ring" "tcpqueue_items new_ring = []"
  by (simp_all add: new_ring_def ring_ok_def tcpqueue_items_def ring_items_def)

theorem tcpqueue_fifo_witness:
  "\<exists>out qu'. fifo_run (\<lambda>_ :: unit. push_tcpqueue) (\<lambda>_. take_tcpqueue)
       [Push () 5, Push () 6, Pop (), Push () 7] new_ring = Inr (out, qu') \<and> out @ tcpqueue_items qu' = [5, 6, 7]"
  using tcpqueue_fifo [OF new_ring_ok(1), of "[Push () 5, Push () 6, Pop (), Push () 7]"] new_ring_ok(2)
  by auto

text \<open>
  The push that fills the last of the 128 cells: when the head is the first cell the
  assertion before the copy compares it with a tail that was not wrapped yet, and fails;
  from every other head the ring grows to 256 cells and keeps its messages in order.
\<close>

theorem tcpqueue_push_full:
  assumes "ring_ok qu" "tq_count qu = 127"
  shows "(push_tcpqueue x qu = Inl AssertFail \<longleftrightarrow> tq_head qu = 0) \<and>
    (tq_head qu \<noteq> 0 \<longrightarrow> (\<exists>qu'. push_tcpqueue x qu = Inr qu' \<and> tq_size qu' = 256 \<and> tq_head qu' = 0 \<and>
      tq_tail qu' = 128 \<and> tq_count qu' = 128 \<and> tcpqueue_items qu' = tcpqueue_items qu @ [x]))"
  using push_last_cell [OF assms] by blast

definition full_ring :: "nat \<Rightarrow> nat tcp_queue" where
  "full_ring h = \<lparr>tq_size = 128, tq_head = h, tq_tail = (h + 127) mod 128, tq_count = 127,
     tq_queue = Some (replicate 128 (Some 0))\<rparr>"

lemma full_ring_ok: "h < 128 \<Longrightarrow> ring_ok (full_ring h)" "tq_head (full_ring h) = h" "tq_count (full_ring h) = 127"
  by (auto simp: ring_ok_def full_ring_def ring_items_def)

theorem tcpqueue_push_full_witness:
  "push_tcpqueue 1 (full_ring 0) = Inl AssertFail \<and>
   (\<exists>qu'. push_tcpqueue 1 (full_ring 3) = Inr qu' \<and> tq_size qu' = 256)"
  using tcpqueue_push_full [of "full_ring 0" 1] tcpqueue_push_full [of "full_ring 3" 1]
  by (auto simp: full_ring_ok)

text \<open>
  After the ring has grown, removal still wraps at 128: from head 0, 128 removals lead
  back to head 0 whatever the size, so the messages in the upper half of a grown ring are
  never the head.
\<close>

theorem tcpqueue_pop_wraps_early:
  assumes "tq_head qu = 0"
  shows "tq_head ((pop_tcpqueue ^^ 128) qu) = 0 \<and> tq_count ((pop_tcpqueue ^^ 128) qu) = tq_count qu - 128 \<and>
    (\<forall>n < 128. tq_head ((pop_tcpqueue ^^ n) qu) = n)"
proof -
  have "(pop_tcpqueue ^^ 128) qu = pop_tcpqueue ((pop_tcpqueue ^^ 127) qu)"
    by (simp add: numeral_eq_Suc)
  then show ?thesis
    using pops [of qu] assms by (simp add: pop_tcpqueue_def TCPQUEUE_NODE_def)
qed

theorem tcpqueue_pop_wraps_early_witness:
  "tq_head ((pop_tcpqueue ^^ 128) ((full_ring 0)\<lparr>tq_size := 256, tq_count := 128, tq_tail := 128\<rparr>)) = 0"
  using tcpqueue_pop_wraps_early [of "(full_ring 0)\<lparr>tq_size := 256, tq_count := 128, tq_tail := 128\<rparr>"]
  by (simp add: full_ring_def)

end
