(* ===== verification/Squeue.thy ===== *)
theory Squeue
  imports Fifo
begin

text \<open>
  \<open>antlib/commandlib/squeue.h\<close>, \<open>squeue.c\<close> and \<open>hqueue.h\<close>: the queues of the handlers, the
  timer and the caches, made of nodes with 1021 cells each, and the pool that keeps used
  nodes for a minute before they are used again. Every operation runs alone (the atomic
  additions and the pool's lock are plain steps): a loop in which the code waits for
  another thread is the fault \<open>Spins\<close>.
\<close>

section \<open>Nodes\<close>

definition SQUEUE_NODE_SIZE :: nat where
  "SQUEUE_NODE_SIZE = 1021"

record 'a squeue_node =
  sn_queue :: "'a option list"
  sn_head :: nat
  sn_tail :: nat

definition zero_node :: "'a squeue_node" where
  "zero_node = \<lparr>sn_queue = replicate SQUEUE_NODE_SIZE None, sn_head = 0, sn_tail = 0\<rparr>"

definition push_squeuenode :: "'a squeue_node \<Rightarrow> 'a \<Rightarrow> nat \<times> 'a squeue_node" where
  "push_squeuenode node vl =
     (let index = sn_head node; node = node\<lparr>sn_head := index + 1\<rparr>
      in (index, if index < SQUEUE_NODE_SIZE then node\<lparr>sn_queue := (sn_queue node)[index := Some vl]\<rparr> else node))"

text \<open>The index, the value when the index is in the node, and the node.\<close>

definition pop_squeuenode :: "'a squeue_node \<Rightarrow> fault + nat \<times> 'a option \<times> 'a squeue_node" where
  "pop_squeuenode node =
     (let index = sn_tail node; node = node\<lparr>sn_tail := index + 1\<rparr>
      in if index < SQUEUE_NODE_SIZE
         then (case sn_queue node ! index of None \<Rightarrow> Inl Spins | Some v \<Rightarrow> Inr (index, Some v, node))
         else Inr (index, None, node))"

section \<open>The pool of used nodes\<close>

text \<open>
  A node in the pool is its \<open>_free_time\<close>. The tail pointer is null, points to the last node
  of the pool, or was left pointing to a node that is no longer in the pool.
\<close>

datatype pool_tail = TailNull | TailLast | TailStale

record squeue_pool =
  sp_nodes :: "u32 list"
  sp_tail :: pool_tail
  sp_count :: int

definition init_squeue_node_pool :: squeue_pool where
  "init_squeue_node_pool = \<lparr>sp_nodes = [], sp_tail = TailNull, sp_count = 0\<rparr>"

text \<open>The nodes are freed and the tail keeps its value.\<close>

definition uninit_squeue_node_pool :: "squeue_pool \<Rightarrow> squeue_pool" where
  "uninit_squeue_node_pool p =
     \<lparr>sp_nodes = [], sp_tail = (if sp_nodes p = [] then sp_tail p else TailStale), sp_count = 0\<rparr>"

text \<open>\<open>now\<close> is \<open>get_mytime()\<close>. Through a stale tail the node is linked to a foreign object.\<close>

definition free_squeue_node :: "u32 \<Rightarrow> squeue_pool \<Rightarrow> fault + squeue_pool" where
  "free_squeue_node now p =
     (case sp_tail p of
        TailNull \<Rightarrow> Inr (p\<lparr>sp_nodes := [now + 60], sp_tail := TailLast, sp_count := sp_count p + 1\<rparr>)
      | TailLast \<Rightarrow> Inr (p\<lparr>sp_nodes := sp_nodes p @ [now + 60], sp_count := sp_count p + 1\<rparr>)
      | TailStale \<Rightarrow> Inl Corrupt)"

text \<open>
  The node returned is cleared, whether it comes from the pool or is new; the pool's tail
  is not looked at.
\<close>

definition get_squeue_node :: "u32 \<Rightarrow> squeue_pool \<Rightarrow> 'a squeue_node \<times> squeue_pool" where
  "get_squeue_node now p =
     (zero_node,
      case sp_nodes p of
        [] \<Rightarrow> p
      | t # ts \<Rightarrow>
          if t < now
          then p\<lparr>sp_nodes := ts, sp_tail := (if ts = [] then TailStale else sp_tail p), sp_count := sp_count p - 1\<rparr>
          else p)"

section \<open>Queues\<close>

text \<open>
  The nodes from \<open>_head\<close> to \<open>_tail\<close>, and those from \<open>_free_ptr\<close> up to \<open>_head\<close>; these are
  \<open>None\<close> once \<open>_free_ptr\<close> points to a node that went to the pool.
\<close>

record 'a squeue =
  sq_count :: int
  sq_done :: "'a squeue_node list option"
  sq_chain :: "'a squeue_node list"

type_synonym 'a queue_state = "squeue_pool \<times> 'a squeue"

definition init_squeue :: "u32 \<Rightarrow> squeue_pool \<Rightarrow> 'a queue_state" where
  "init_squeue now p =
     (let (node, p) = get_squeue_node now p
      in (p, \<lparr>sq_count = 0, sq_done = Some [], sq_chain = [node]\<rparr>))"

text \<open>The nodes from the head on are given back; the number of nodes it does not reach is returned.\<close>

definition uninit_squeue :: "'a squeue \<Rightarrow> nat \<times> 'a squeue" where
  "uninit_squeue qu =
     (case sq_done qu of None \<Rightarrow> 0 | Some ns \<Rightarrow> length ns,
      \<lparr>sq_count = 0, sq_done = Some [], sq_chain = []\<rparr>)"

text \<open>
  A second round of the loop would meet the same full tail: only another thread ends it.
\<close>

definition push_squeue :: "u32 \<Rightarrow> 'a option \<Rightarrow> 'a queue_state \<Rightarrow> fault + 'a queue_state" where
  "push_squeue now vl = (\<lambda>(p, qu).
     (case vl of
        None \<Rightarrow> Inl AssertFail
      | Some v \<Rightarrow>
          if sq_chain qu = [] then Inl NullDeref
          else let (index, node) = push_squeuenode (last (sq_chain qu)) v;
                   chain = butlast (sq_chain qu) @ [node]
               in if index < SQUEUE_NODE_SIZE - 1
                  then Inr (p, qu\<lparr>sq_chain := chain, sq_count := sq_count qu + 1\<rparr>)
                  else if index = SQUEUE_NODE_SIZE - 1
                  then let (new, p') = get_squeue_node now p
                       in Inr (p', qu\<lparr>sq_chain := chain @ [new], sq_count := sq_count qu + 1\<rparr>)
                  else Inl Spins))"

text \<open>The removal for the one thread that owns the queue.\<close>

definition handler_pop_squeue :: "u32 \<Rightarrow> 'a queue_state \<Rightarrow> fault + 'a \<times> 'a queue_state" where
  "handler_pop_squeue now = (\<lambda>(p, qu).
     rbind (c_assert (sq_count qu > 0)) (\<lambda>_.
     case sq_chain qu of
       [] \<Rightarrow> Inl NullDeref
     | n # ns \<Rightarrow>
         rbind (pop_squeuenode n) (\<lambda>(index, vl, node).
         rbind
           (if index = SQUEUE_NODE_SIZE - 1 then
              if ns = [] then Inl Spins
              else rbind (free_squeue_node now p) (\<lambda>p'. Inr (p', qu\<lparr>sq_chain := ns, sq_done := None\<rparr>))
            else Inr (p, qu\<lparr>sq_chain := node # ns\<rparr>))
           (\<lambda>(p', qu').
         rbind (case vl of None \<Rightarrow> Inl Uninitialised | Some v \<Rightarrow> Inr v) (\<lambda>v.
         Inr (v, p', qu'\<lparr>sq_count := sq_count qu' - 1\<rparr>))))))"

primrec free_nodes :: "u32 \<Rightarrow> 'a squeue_node list \<Rightarrow> squeue_pool \<Rightarrow> fault + squeue_pool" where
  "free_nodes now [] p = Inr p"
| "free_nodes now (n # ns) p = rbind (free_squeue_node now p) (free_nodes now ns)"

text \<open>
  The removal for any thread: the counter is taken down before the cell is read, and once
  more afterwards.
\<close>

definition pop_squeue :: "u32 \<Rightarrow> 'a queue_state \<Rightarrow> fault + 'a option \<times> 'a queue_state" where
  "pop_squeue now = (\<lambda>(p, qu).
     if sq_count qu < 1 then Inr (None, p, qu)
     else let qu = qu\<lparr>sq_count := sq_count qu - 1\<rparr> in
     case sq_chain qu of
       [] \<Rightarrow> Inl NullDeref
     | n # ns \<Rightarrow>
         rbind (pop_squeuenode n) (\<lambda>(index, vl, node).
         if index < SQUEUE_NODE_SIZE - 1 then
           Inr (vl, p, qu\<lparr>sq_chain := node # ns, sq_count := sq_count qu - 1\<rparr>)
         else if index = SQUEUE_NODE_SIZE - 1 then
           (case sq_done qu of
              None \<Rightarrow> Inl UseAfterFree
            | Some ds \<Rightarrow>
                rbind (free_nodes now ds p) (\<lambda>p'.
                if ns = [] then Inl Spins
                else Inr (vl, p', qu\<lparr>sq_done := Some [node], sq_chain := ns, sq_count := sq_count qu - 1\<rparr>)))
         else Inl Spins))"

section \<open>The contents of a queue\<close>

definition node_items :: "'a squeue_node \<Rightarrow> 'a list" where
  "node_items n = map the (blk (sn_tail n) (sn_head n - sn_tail n) (sn_queue n))"

definition squeue_items :: "'a squeue \<Rightarrow> 'a list" where
  "squeue_items qu = concat (map node_items (sq_chain qu))"

text \<open>The cells below the head are filled, those above are empty.\<close>

definition sq_node_ok :: "'a squeue_node \<Rightarrow> bool" where
  "sq_node_ok n \<longleftrightarrow> length (sn_queue n) = 1021 \<and> sn_tail n \<le> sn_head n \<and> sn_head n \<le> 1021 \<and>
     sn_tail n \<le> 1020 \<and> (\<forall>i < sn_head n. sn_queue n ! i \<noteq> None)"

text \<open>All nodes but the last are full; all but the first are untouched by removals.\<close>

definition sq_chain_ok :: "'a squeue_node list \<Rightarrow> bool" where
  "sq_chain_ok ns \<longleftrightarrow> ns \<noteq> [] \<and> list_all sq_node_ok ns \<and> list_all (\<lambda>n. sn_head n = 1021) (butlast ns) \<and>
     sn_head (last ns) \<le> 1020 \<and> list_all (\<lambda>n. sn_tail n = 0) (tl ns)"

text \<open>
  The pool in a minute that ends at \<open>limit\<close>: no node in it is old enough to be used again.
\<close>

definition pool_fresh :: "u32 \<Rightarrow> squeue_pool \<Rightarrow> bool" where
  "pool_fresh limit p \<longleftrightarrow> (\<forall>t \<in> set (sp_nodes p). limit \<le> t) \<and>
     (sp_tail p = (if sp_nodes p = [] then TailNull else TailLast))"

definition state_ok :: "u32 \<Rightarrow> 'a queue_state \<Rightarrow> bool" where
  "state_ok limit = (\<lambda>(p, qu). pool_fresh limit p \<and> sq_chain_ok (sq_chain qu) \<and>
     sq_count qu = int (length (squeue_items qu)))"

lemma zero_node_ok: "sq_node_ok zero_node" "node_items zero_node = []" "sn_tail zero_node = 0" "sn_head zero_node = 0"
  by (simp_all add: zero_node_def sq_node_ok_def node_items_def SQUEUE_NODE_SIZE_def)

lemma push_node:
  assumes "sq_node_ok n" "sn_head n \<le> 1020"
  shows "\<exists>n'. push_squeuenode n v = (sn_head n, n') \<and> sq_node_ok n' \<and> sn_head n' = sn_head n + 1 \<and>
    sn_tail n' = sn_tail n \<and> node_items n' = node_items n @ [v]"
proof -
  let ?n = "n\<lparr>sn_head := sn_head n + 1, sn_queue := (sn_queue n)[sn_head n := Some v]\<rparr>"
  have ln: "length (sn_queue n) = 1021" "sn_tail n \<le> sn_head n" using assms by (auto simp: sq_node_ok_def)
  have "blk (sn_tail n) (Suc (sn_head n) - sn_tail n) ((sn_queue n)[sn_head n := Some v]) =
    blk (sn_tail n) (sn_head n - sn_tail n) (sn_queue n) @ [Some v]"
    using ln assms(2)
    by (simp add: Suc_diff_le blk_append_split [of _ "sn_head n - sn_tail n" 1, simplified] blk_Suc)
      (simp add: blk_def drop_update_swap take_update_cancel)
  then have "node_items ?n = node_items n @ [v]" by (simp add: node_items_def)
  moreover have "sq_node_ok ?n" using assms by (auto simp: sq_node_ok_def nth_list_update less_Suc_eq)
  moreover have "push_squeuenode n v = (sn_head n, ?n)"
    using assms(2) by (simp add: push_squeuenode_def SQUEUE_NODE_SIZE_def Let_def)
  ultimately show ?thesis by auto
qed

lemma pop_node:
  assumes "sq_node_ok n" "sn_tail n < sn_head n"
  shows "pop_squeuenode n = Inr (sn_tail n, Some (hd (node_items n)), n\<lparr>sn_tail := sn_tail n + 1\<rparr>)"
    and "node_items n = hd (node_items n) # node_items (n\<lparr>sn_tail := sn_tail n + 1\<rparr>)"
    and "sn_tail n < 1020 \<Longrightarrow> sq_node_ok (n\<lparr>sn_tail := sn_tail n + 1\<rparr>)"
    and "sn_tail n = 1020 \<Longrightarrow> node_items n = [hd (node_items n)]"
proof -
  have t: "sn_tail n < length (sn_queue n)" "sn_queue n ! sn_tail n \<noteq> None"
    using assms by (auto simp: sq_node_ok_def)
  have "sn_head n - sn_tail n = Suc (sn_head n - Suc (sn_tail n))" using assms(2) by simp
  then have it: "node_items n = the (sn_queue n ! sn_tail n) # node_items (n\<lparr>sn_tail := sn_tail n + 1\<rparr>)"
    using t(1) by (simp add: node_items_def blk_Suc)
  then show "node_items n = hd (node_items n) # node_items (n\<lparr>sn_tail := sn_tail n + 1\<rparr>)" by simp
  show "pop_squeuenode n = Inr (sn_tail n, Some (hd (node_items n)), n\<lparr>sn_tail := sn_tail n + 1\<rparr>)"
    using it t assms by (auto simp: pop_squeuenode_def SQUEUE_NODE_SIZE_def sq_node_ok_def Let_def)
  show "sn_tail n < 1020 \<Longrightarrow> sq_node_ok (n\<lparr>sn_tail := sn_tail n + 1\<rparr>)"
    using assms by (auto simp: sq_node_ok_def)
  show "sn_tail n = 1020 \<Longrightarrow> node_items n = [hd (node_items n)]"
    using it assms by (auto simp: sq_node_ok_def node_items_def)
qed

lemma sq_chain_ok_snoc:
  "sq_chain_ok (ns @ [n]) \<longleftrightarrow> list_all sq_node_ok ns \<and> sq_node_ok n \<and> list_all (\<lambda>n. sn_head n = 1021) ns \<and>
     sn_head n \<le> 1020 \<and> list_all (\<lambda>n. sn_tail n = 0) (tl (ns @ [n]))"
  by (auto simp: sq_chain_ok_def)

lemma sq_chain_ok_Cons:
  "sq_chain_ok (n # m # ns) \<longleftrightarrow> sq_node_ok n \<and> sn_head n = 1021 \<and> sn_tail m = 0 \<and> sq_chain_ok (m # ns)"
  by (auto simp: sq_chain_ok_def)

lemma sq_chain_ok_single: "sq_chain_ok [n] \<longleftrightarrow> sq_node_ok n \<and> sn_head n \<le> 1020"
  by (simp add: sq_chain_ok_def)

lemma pool_fresh_get:
  "pool_fresh limit p \<Longrightarrow> now \<le> limit \<Longrightarrow> get_squeue_node now p = (zero_node, p)"
  by (auto simp: pool_fresh_def get_squeue_node_def split: list.split)

lemma pool_fresh_free:
  assumes "pool_fresh limit p" "limit \<le> now + 60"
  shows "\<exists>p'. free_squeue_node now p = Inr p' \<and> pool_fresh limit p'"
  using assms by (auto simp: pool_fresh_def free_squeue_node_def)

lemma push_state:
  assumes "state_ok limit s" "now \<le> limit"
  shows "\<exists>s'. push_squeue now (Some v) s = Inr s' \<and> state_ok limit s' \<and>
    squeue_items (snd s') = squeue_items (snd s) @ [v]"
proof -
  obtain p qu where s: "s = (p, qu)" by (cases s)
  obtain ns n where ch: "sq_chain qu = ns @ [n]"
    using assms(1) by (cases "sq_chain qu" rule: rev_cases) (auto simp: s state_ok_def sq_chain_ok_def)
  have ok: "pool_fresh limit p" "sq_chain_ok (ns @ [n])" "sq_count qu = int (length (squeue_items qu))"
    using assms(1) by (simp_all add: s state_ok_def ch)
  obtain n' where n': "push_squeuenode n v = (sn_head n, n')" "sq_node_ok n'" "sn_head n' = sn_head n + 1"
    "sn_tail n' = sn_tail n" "node_items n' = node_items n @ [v]"
    using push_node [of n v] ok(2) by (auto simp: sq_chain_ok_snoc)
  have tl: "list_all (\<lambda>n. sn_tail n = 0) (tl (ns @ [n']))"
    using ok(2) n'(4) unfolding sq_chain_ok_snoc by (cases ns) simp_all
  show ?thesis
  proof (cases "sn_head n < 1020")
    case True
    then have "sq_chain_ok (ns @ [n'])" using ok(2) n' tl by (simp add: sq_chain_ok_snoc)
    then show ?thesis
      using True ok n' by (simp add: s push_squeue_def ch SQUEUE_NODE_SIZE_def state_ok_def squeue_items_def)
  next
    case False
    then have h: "sn_head n = 1020" using ok(2) by (simp add: sq_chain_ok_snoc)
    have "list_all (\<lambda>n. sn_tail n = 0) (tl ((ns @ [n']) @ [zero_node]))"
      using tl by (cases ns) (simp_all add: zero_node_ok)
    then have "sq_chain_ok ((ns @ [n']) @ [zero_node])"
      using ok(2) n' h unfolding sq_chain_ok_snoc by (simp add: zero_node_ok)
    then show ?thesis
      using h ok n'
      by (simp add: pool_fresh_get [OF ok(1) assms(2)] s push_squeue_def ch SQUEUE_NODE_SIZE_def state_ok_def squeue_items_def zero_node_ok del: split_paired_Ex)
  qed
qed

lemma pop_state:
  assumes "state_ok limit s" "squeue_items (snd s) \<noteq> []" "limit \<le> now + 60"
  shows "\<exists>s'. handler_pop_squeue now s = Inr (hd (squeue_items (snd s)), s') \<and> state_ok limit s' \<and>
    squeue_items (snd s') = tl (squeue_items (snd s))"
proof -
  obtain p qu where s: "s = (p, qu)" by (cases s)
  obtain n ns where ch: "sq_chain qu = n # ns"
    using assms(1) by (cases "sq_chain qu") (auto simp: s state_ok_def sq_chain_ok_def)
  have ok: "pool_fresh limit p" "sq_chain_ok (n # ns)" "sq_count qu = int (length (squeue_items qu))"
    using assms(1) by (simp_all add: s state_ok_def ch)
  have n: "sq_node_ok n" using ok(2) by (simp add: sq_chain_ok_def)
  have items: "squeue_items qu = node_items n @ concat (map node_items ns)"
    by (simp add: squeue_items_def ch)
  have lt: "sn_tail n < sn_head n"
  proof (cases ns)
    case Nil
    then show ?thesis using assms(2) by (auto simp: s items node_items_def intro: ccontr)
  next
    case (Cons m ms)
    then show ?thesis using ok(2) n by (auto simp: sq_chain_ok_Cons sq_node_ok_def)
  qed
  note pop = pop_node [OF n lt]
  have cnt: "sq_count qu > 0" using assms(2) ok(3) by (simp add: s)
  have hd: "hd (squeue_items qu) = hd (node_items n)" "squeue_items qu \<noteq> []"
    using pop(2) by (simp_all add: items hd_append) (metis list.sel(1) list.distinct(1))+
  show ?thesis
  proof (cases "sn_tail n = 1020")
    case False
    let ?n = "n\<lparr>sn_tail := sn_tail n + 1\<rparr>"
    have t: "sn_tail n < 1020" using False n by (simp add: sq_node_ok_def)
    have "sq_chain_ok (?n # ns)"
      using ok(2) pop(3) t by (cases ns) (auto simp: sq_chain_ok_Cons sq_chain_ok_single)
    moreover have "tl (squeue_items qu) = node_items ?n @ concat (map node_items ns)"
      using pop(2) by (simp add: items) (metis append_Cons list.sel(3))
    moreover have "length (node_items n) = Suc (length (node_items ?n))"
      using pop(2) by (metis length_Cons)
    ultimately show ?thesis
      using t ok cnt hd by (simp add: s handler_pop_squeue_def ch pop(1) SQUEUE_NODE_SIZE_def state_ok_def squeue_items_def)
  next
    case True
    then have one: "node_items n = [hd (node_items n)]" using pop(4) by blast
    obtain m ms where ns: "ns = m # ms"
      using ok(2) True lt by (cases ns) (auto simp: sq_chain_ok_single)
    have rest: "sq_chain_ok ns" using ok(2) by (simp add: ns sq_chain_ok_Cons)
    obtain p' where p': "free_squeue_node now p = Inr p'" "pool_fresh limit p'"
      using pool_fresh_free [OF ok(1) assms(3)] by blast
    obtain v where v: "node_items n = [v]" using one by blast
    then show ?thesis
      using True p' rest ok cnt hd v
      by (simp add: s handler_pop_squeue_def ch pop(1) SQUEUE_NODE_SIZE_def state_ok_def squeue_items_def ns)
  qed
qed

section \<open>Properties\<close>

text \<open>
  The clock readings of a run that lasts less than the time a node rests in the pool:
  \<open>limit\<close> is within 60 seconds of each of them.
\<close>

definition in_minute :: "u32 \<Rightarrow> u32 \<Rightarrow> bool" where
  "in_minute limit now \<longleftrightarrow> now \<le> limit \<and> limit \<le> now + 60"

definition squeue_push :: "u32 \<Rightarrow> 'a \<Rightarrow> 'a queue_state \<Rightarrow> fault + 'a queue_state" where
  "squeue_push now v = push_squeue now (Some v)"

interpretation squeue: fifo squeue_push handler_pop_squeue "state_ok limit" "squeue_items \<circ> snd"
  "\<lambda>_. True" "in_minute limit"
  for limit
  by unfold_locales (simp_all add: squeue_push_def in_minute_def push_state pop_state del: split_paired_Ex)

lemma init_squeue_ok:
  "pool_fresh limit p \<Longrightarrow> now \<le> limit \<Longrightarrow> state_ok limit (init_squeue now p) \<and>
   squeue_items (snd (init_squeue now p)) = []"
  by (simp add: init_squeue_def pool_fresh_get state_ok_def squeue_items_def zero_node_ok sq_chain_ok_single)



text \<open>
  \<open>pop_squeue\<close> takes the counter down twice: a removal that succeeds inside a node
  leaves a counter that is two smaller, so of two queued elements only the first can be
  removed - the next call answers null while the second element is still in the queue.
\<close>

theorem pop_squeue_loses:
  assumes "sq_chain_ok (sq_chain qu)" "sq_count qu = int (length (squeue_items qu))"
    "length (squeue_items qu) = 2" "sn_tail (hd (sq_chain qu)) < 1019"
  shows "\<exists>qu'. pop_squeue now (p, qu) = Inr (Some (hd (squeue_items qu)), p, qu') \<and> sq_count qu' = 0 \<and>
    squeue_items qu' = tl (squeue_items qu) \<and> length (squeue_items qu') = 1 \<and>
    pop_squeue now' (p, qu') = Inr (None, p, qu')"
proof -
  obtain n ns where ch: "sq_chain qu = n # ns"
    using assms(1) by (cases "sq_chain qu") (auto simp: sq_chain_ok_def)
  have n: "sq_node_ok n" using assms(1) by (simp add: ch sq_chain_ok_def)
  have one: "ns = []"
  proof (cases ns)
    case (Cons m ms)
    then have "sn_head n = 1021" using assms(1) by (simp add: ch sq_chain_ok_Cons)
    then have "length (node_items n) > 2" using n assms(4) by (simp add: node_items_def sq_node_ok_def ch)
    then show ?thesis using assms(3) by (simp add: squeue_items_def ch)
  qed simp
  have items: "squeue_items qu = node_items n" by (simp add: squeue_items_def ch one)
  have lt: "sn_tail n < sn_head n" using assms(3) n by (auto simp: items node_items_def sq_node_ok_def)
  let ?n = "n\<lparr>sn_tail := sn_tail n + 1\<rparr>"
  let ?qu = "qu\<lparr>sq_chain := [?n], sq_count := 0\<rparr>"
  have it: "node_items n = hd (node_items n) # node_items ?n" by (rule pop_node(2) [OF n lt])
  then have tl: "tl (squeue_items qu) = node_items ?n" by (metis items list.sel(3))
  have "pop_squeue now (p, qu) = Inr (Some (hd (squeue_items qu)), p, ?qu)"
    using assms(2,3,4) by (simp add: pop_squeue_def ch one pop_node(1) [OF n lt] SQUEUE_NODE_SIZE_def items Let_def)
  moreover have "squeue_items ?qu = tl (squeue_items qu)" by (simp add: tl) (simp add: squeue_items_def)
  ultimately show ?thesis
    using assms(3) by (intro exI [of _ ?qu]) (simp add: pop_squeue_def)
qed

theorem pop_squeue_loses_witness:
  "\<exists>qu'. pop_squeue 0 (init_squeue_node_pool,
      \<lparr>sq_count = 2, sq_done = Some [], sq_chain = [\<lparr>sn_queue = [Some 1, Some 2] @ replicate 1019 None,
         sn_head = 2, sn_tail = 0\<rparr>]\<rparr>) = Inr (Some (1 :: nat), init_squeue_node_pool, qu') \<and>
    length (squeue_items qu') = 1"
proof -
  let ?qu = "\<lparr>sq_count = 2, sq_done = Some [], sq_chain = [\<lparr>sn_queue = [Some 1, Some (2 :: nat)] @ replicate 1019 None,
     sn_head = 2, sn_tail = 0\<rparr>]\<rparr>"
  have "squeue_items ?qu = [1, 2]"
    by (simp add: squeue_items_def node_items_def blk_def numeral_2_eq_2)
  moreover have "sq_chain_ok (sq_chain ?qu)"
    by (auto simp: sq_chain_ok_single sq_node_ok_def less_Suc_eq numeral_2_eq_2)
  ultimately show ?thesis
    using pop_squeue_loses [of ?qu 0 init_squeue_node_pool 0] by auto
qed

text \<open>
  The pool forgets to clear its tail: once its only node, a minute old, has been taken
  out again, the next node given back is linked behind the node that now belongs to a
  queue.
\<close>

theorem squeue_pool_stale_tail:
  assumes "sp_nodes p = [t]" "t < now"
  shows "free_squeue_node now' (snd (get_squeue_node now p)) = Inl Corrupt"
  using assms by (simp add: get_squeue_node_def free_squeue_node_def)

theorem squeue_pool_stale_tail_witness:
  "\<exists>p. free_squeue_node 100 init_squeue_node_pool = Inr p \<and>
     free_squeue_node 200 (snd (get_squeue_node 161 p)) = Inl Corrupt"
  using squeue_pool_stale_tail [of "\<lparr>sp_nodes = [160], sp_tail = TailLast, sp_count = 1\<rparr>" 160 161 200]
  by (simp add: free_squeue_node_def init_squeue_node_pool_def)

end
