(* ===== verification/DoubleList.thy ===== *)
theory DoubleList
  imports Prelude
begin

text \<open>
  \<open>antlib/commandlib/double_list.h\<close>: the intrusive doubly linked list, on a heap from
  addresses to the two links of a node. An address outside the heap is memory that was
  given back (or never allocated). The second part is the record of live allocations of
  \<open>antlib/commandlib/alloc.c\<close>, which is such a list.
\<close>

section \<open>State\<close>

type_synonym addr = nat

record double_list_node =
  dn_next :: "addr option"
  dn_prev :: "addr option"

type_synonym dl_heap = "addr \<Rightarrow> double_list_node option"

record double_list =
  dl_head :: "addr option"
  dl_tail :: "addr option"

type_synonym dl_state = "dl_heap \<times> double_list"

section \<open>Access through pointers\<close>

definition node_at :: "dl_heap \<Rightarrow> addr \<Rightarrow> fault + double_list_node" where
  "node_at h a = (case h a of None \<Rightarrow> Inl UseAfterFree | Some n \<Rightarrow> Inr n)"

definition set_node :: "addr \<Rightarrow> (double_list_node \<Rightarrow> double_list_node) \<Rightarrow> dl_heap \<Rightarrow> fault + dl_heap" where
  "set_node a f h = rbind (node_at h a) (\<lambda>n. Inr (h(a \<mapsto> f n)))"

abbreviation set_next :: "addr \<Rightarrow> addr option \<Rightarrow> dl_heap \<Rightarrow> fault + dl_heap" where
  "set_next a p \<equiv> set_node a (\<lambda>n. n\<lparr>dn_next := p\<rparr>)"

abbreviation set_prev :: "addr \<Rightarrow> addr option \<Rightarrow> dl_heap \<Rightarrow> fault + dl_heap" where
  "set_prev a p \<equiv> set_node a (\<lambda>n. n\<lparr>dn_prev := p\<rparr>)"

section \<open>Operations\<close>

definition double_list_add_head :: "addr \<Rightarrow> dl_state \<Rightarrow> fault + dl_state" where
  "double_list_add_head node = (\<lambda>(h, l).
     rbind (set_prev node None h) (\<lambda>h.
     rbind (set_next node (dl_head l) h) (\<lambda>h.
     case dl_head l of
       Some a \<Rightarrow> rbind (set_prev a (Some node) h) (\<lambda>h. Inr (h, l\<lparr>dl_head := Some node\<rparr>))
     | None \<Rightarrow> rbind (c_assert (dl_tail l = None)) (\<lambda>_.
         Inr (h, l\<lparr>dl_head := Some node, dl_tail := Some node\<rparr>)))))"

definition double_list_add_tail :: "addr \<Rightarrow> dl_state \<Rightarrow> fault + dl_state" where
  "double_list_add_tail node = (\<lambda>(h, l).
     rbind (set_next node None h) (\<lambda>h.
     rbind (set_prev node (dl_tail l) h) (\<lambda>h.
     case dl_tail l of
       Some a \<Rightarrow> rbind (set_next a (Some node) h) (\<lambda>h. Inr (h, l\<lparr>dl_tail := Some node\<rparr>))
     | None \<Rightarrow> rbind (c_assert (dl_head l = None)) (\<lambda>_.
         Inr (h, l\<lparr>dl_head := Some node, dl_tail := Some node\<rparr>)))))"

definition double_list_add_back :: "addr option \<Rightarrow> addr \<Rightarrow> dl_state \<Rightarrow> fault + dl_state" where
  "double_list_add_back prev node = (\<lambda>(h, l).
     case prev of
       None \<Rightarrow> double_list_add_head node (h, l)
     | Some p \<Rightarrow>
         if Some p = dl_tail l then double_list_add_tail node (h, l)
         else rbind (set_prev node (Some p) h) (\<lambda>h.
           rbind (node_at h p) (\<lambda>np.
           rbind (set_next node (dn_next np) h) (\<lambda>h.
           rbind (deref (dn_next np)) (\<lambda>q.
           rbind (set_prev q (Some node) h) (\<lambda>h.
           rbind (set_next p (Some node) h) (\<lambda>h. Inr (h, l))))))))"

definition double_list_add_front :: "addr option \<Rightarrow> addr \<Rightarrow> dl_state \<Rightarrow> fault + dl_state" where
  "double_list_add_front nxt node = (\<lambda>(h, l).
     case nxt of
       None \<Rightarrow> double_list_add_tail node (h, l)
     | Some q \<Rightarrow>
         if Some q = dl_head l then double_list_add_head node (h, l)
         else rbind (set_next node (Some q) h) (\<lambda>h.
           rbind (node_at h q) (\<lambda>nq.
           rbind (set_prev node (dn_prev nq) h) (\<lambda>h.
           rbind (deref (dn_prev nq)) (\<lambda>p.
           rbind (set_next p (Some node) h) (\<lambda>h.
           rbind (set_prev q (Some node) h) (\<lambda>h. Inr (h, l))))))))"

text \<open>The two halves of a removal: towards the next node, then towards the previous one.\<close>

definition unlink_next :: "addr \<Rightarrow> double_list_node \<Rightarrow> dl_state \<Rightarrow> fault + dl_state" where
  "unlink_next node n = (\<lambda>(h, l).
     case dn_next n of
       Some q \<Rightarrow>
         rbind (node_at h q) (\<lambda>nq.
         rbind (c_assert (dn_prev nq = Some node)) (\<lambda>_.
         rbind (set_prev q (dn_prev n) h) (\<lambda>h. Inr (h, l))))
     | None \<Rightarrow>
         rbind (c_assert (dl_tail l = Some node)) (\<lambda>_. Inr (h, l\<lparr>dl_tail := dn_prev n\<rparr>)))"

definition unlink_prev :: "addr \<Rightarrow> double_list_node \<Rightarrow> dl_state \<Rightarrow> fault + dl_state" where
  "unlink_prev node n = (\<lambda>(h, l).
     case dn_prev n of
       Some p \<Rightarrow>
         rbind (node_at h p) (\<lambda>np.
         rbind (c_assert (dn_next np = Some node)) (\<lambda>_.
         rbind (set_next p (dn_next n) h) (\<lambda>h. Inr (h, l))))
     | None \<Rightarrow>
         rbind (c_assert (dl_head l = Some node)) (\<lambda>_. Inr (h, l\<lparr>dl_head := dn_next n\<rparr>)))"

definition double_list_remove :: "addr \<Rightarrow> dl_state \<Rightarrow> fault + dl_state" where
  "double_list_remove node = (\<lambda>(h, l).
     rbind (node_at h node) (\<lambda>n.
     rbind (unlink_next node n (h, l)) (\<lambda>(h, l).
     rbind (node_at h node) (\<lambda>n. unlink_prev node n (h, l)))))"

definition double_list_pop :: "dl_state \<Rightarrow> fault + addr option \<times> dl_state" where
  "double_list_pop = (\<lambda>(h, l).
     case dl_head l of
       None \<Rightarrow> Inr (None, h, l)
     | Some node \<Rightarrow> rbind (double_list_remove node (h, l)) (\<lambda>s. Inr (Some node, s)))"

definition double_list_push :: "addr \<Rightarrow> dl_state \<Rightarrow> fault + dl_state" where
  "double_list_push node = double_list_add_tail node"

section \<open>Segments\<close>

definition first :: "addr list \<Rightarrow> addr option \<Rightarrow> addr option" where
  "first xs n = (if xs = [] then n else Some (hd xs))"

definition final :: "addr list \<Rightarrow> addr option \<Rightarrow> addr option" where
  "final xs p = (if xs = [] then p else Some (last xs))"

text \<open>The nodes of \<open>xs\<close> are linked in this order, with \<open>p\<close> in front and \<open>n\<close> behind.\<close>

primrec dseg :: "dl_heap \<Rightarrow> addr option \<Rightarrow> addr list \<Rightarrow> addr option \<Rightarrow> bool" where
  "dseg h p [] n = True"
| "dseg h p (x # xs) n = (h x = Some \<lparr>dn_next = first xs n, dn_prev = p\<rparr> \<and> dseg h (Some x) xs n)"

definition dl_rep :: "dl_state \<Rightarrow> addr list \<Rightarrow> bool" where
  "dl_rep = (\<lambda>(h, l) xs. distinct xs \<and> dseg h None xs None \<and> dl_head l = first xs None \<and> dl_tail l = final xs None)"

lemma first_simps [simp]: "first [] n = n" "first (x # xs) n = Some x" "first (xs @ ys) n = first xs (first ys n)"
  by (auto simp: first_def)

lemma final_simps [simp]: "final [] p = p" "final (x # xs) p = final xs (Some x)"
    "final (xs @ ys) p = final ys (final xs p)"
  by (auto simp: final_def)

lemma dseg_append: "dseg h p (xs @ ys) n \<longleftrightarrow> dseg h p xs (first ys n) \<and> dseg h (final xs p) ys n"
  by (induction xs arbitrary: p) auto

lemma dseg_frame: "dseg h p xs n \<Longrightarrow> a \<notin> set xs \<Longrightarrow> dseg (h(a := v)) p xs n"
  by (induction xs arbitrary: p) auto

lemma dseg_cong: "dseg h p xs n \<Longrightarrow> (\<And>a. a \<in> set xs \<Longrightarrow> h' a = h a) \<Longrightarrow> dseg h' p xs n"
  by (induction xs arbitrary: p) auto

lemma dseg_dom: "dseg h p xs n \<Longrightarrow> x \<in> set xs \<Longrightarrow> h x \<noteq> None"
  by (induction xs arbitrary: p) auto

lemma dseg_first:
  "dseg h p xs n \<Longrightarrow> x \<notin> set (tl xs) \<Longrightarrow> xs = x # ys \<Longrightarrow>
   dseg (h(x \<mapsto> \<lparr>dn_next = first ys n, dn_prev = p'\<rparr>)) p' xs n"
  by (auto intro: dseg_frame)

lemma dseg_last:
  "dseg h p (ys @ [x]) n \<Longrightarrow> x \<notin> set ys \<Longrightarrow>
   dseg (h(x \<mapsto> \<lparr>dn_next = n', dn_prev = final ys p\<rparr>)) p (ys @ [x]) n'"
  by (simp add: dseg_append dseg_frame)

lemma node_at_Some [simp]: "h a = Some n \<Longrightarrow> node_at h a = Inr n"
  by (simp add: node_at_def)

lemma set_node_Some [simp]: "h a = Some n \<Longrightarrow> set_node a f h = Inr (h(a \<mapsto> f n))"
  by (simp add: set_node_def)

lemma rep_empty: "dl_rep (h, \<lparr>dl_head = None, dl_tail = None\<rparr>) []"
  by (simp add: dl_rep_def)

lemma add_tail_rep:
  assumes "dl_rep (h, l) xs" "h x \<noteq> None" "x \<notin> set xs"
  shows "\<exists>h' l'. double_list_add_tail x (h, l) = Inr (h', l') \<and> dl_rep (h', l') (xs @ [x]) \<and>
    dom h' = dom h \<and> (\<forall>a. a \<notin> set (xs @ [x]) \<longrightarrow> h' a = h a)"
proof (cases xs rule: rev_cases)
  case Nil
  then show ?thesis using assms by (auto simp: double_list_add_tail_def dl_rep_def)
next
  case (snoc ys t)
  let ?h = "h(x \<mapsto> \<lparr>dn_next = None, dn_prev = Some t\<rparr>)"
  have d: "distinct (ys @ [t])" "dseg h None (ys @ [t]) None" "dl_head l = first (ys @ [t]) None" "dl_tail l = Some t"
    using assms(1) by (simp_all add: dl_rep_def snoc)
  obtain n where n: "h x = Some n" using assms(2) by blast
  have neq: "x \<noteq> t" "x \<notin> set ys" using assms(3) by (auto simp: snoc)
  have ht: "h t = Some \<lparr>dn_next = None, dn_prev = final ys None\<rparr>"
    using d(2) by (simp add: dseg_append)
  have "dseg ?h None (ys @ [t]) None" using d(2) assms(3) by (intro dseg_frame) (auto simp: snoc)
  then have "dseg (?h(t \<mapsto> \<lparr>dn_next = Some x, dn_prev = final ys None\<rparr>)) None (ys @ [t]) (Some x)"
    by (rule dseg_last) (use d(1) in simp)
  then have "dseg (?h(t \<mapsto> \<lparr>dn_next = Some x, dn_prev = final ys None\<rparr>)) None (xs @ [x]) None"
    using neq by (simp add: snoc dseg_append)
  moreover have "double_list_add_tail x (h, l) =
    Inr (?h(t \<mapsto> \<lparr>dn_next = Some x, dn_prev = final ys None\<rparr>), l\<lparr>dl_tail := Some x\<rparr>)"
    using n neq ht d(4) by (cases n) (simp add: double_list_add_tail_def)
  ultimately show ?thesis
    using assms(3) d n ht by (auto simp: dl_rep_def snoc)
qed

lemma add_head_rep:
  assumes "dl_rep (h, l) xs" "h x \<noteq> None" "x \<notin> set xs"
  shows "\<exists>h' l'. double_list_add_head x (h, l) = Inr (h', l') \<and> dl_rep (h', l') (x # xs) \<and>
    dom h' = dom h \<and> (\<forall>a. a \<notin> set (x # xs) \<longrightarrow> h' a = h a)"
proof (cases xs)
  case Nil
  then show ?thesis using assms by (auto simp: double_list_add_head_def dl_rep_def)
next
  case (Cons t ys)
  let ?h = "h(x \<mapsto> \<lparr>dn_next = Some t, dn_prev = None\<rparr>)"
  have d: "distinct (t # ys)" "dseg h None (t # ys) None" "dl_head l = Some t" "dl_tail l = final (t # ys) None"
    using assms(1) by (simp_all add: dl_rep_def Cons)
  obtain n where n: "h x = Some n" using assms(2) by blast
  have neq: "x \<noteq> t" "x \<notin> set ys" using assms(3) by (auto simp: Cons)
  have ht: "h t = Some \<lparr>dn_next = first ys None, dn_prev = None\<rparr>" using d(2) by simp
  have "dseg ?h None (t # ys) None" using d(2) assms(3) by (intro dseg_frame) (auto simp: Cons)
  then have "dseg (?h(t \<mapsto> \<lparr>dn_next = first ys None, dn_prev = Some x\<rparr>)) (Some x) (t # ys) None"
    using d(1) by (intro dseg_first) auto
  then have "dseg (?h(t \<mapsto> \<lparr>dn_next = first ys None, dn_prev = Some x\<rparr>)) None (x # xs) None"
    using neq by (simp add: Cons)
  moreover have "double_list_add_head x (h, l) =
    Inr (?h(t \<mapsto> \<lparr>dn_next = first ys None, dn_prev = Some x\<rparr>), l\<lparr>dl_head := Some x\<rparr>)"
    using n neq ht d(3) by (cases n) (simp add: double_list_add_head_def)
  ultimately show ?thesis
    using assms(3) d n ht by (auto simp: dl_rep_def Cons)
qed

text \<open>Taking the first node of a segment under a new predecessor, and the last under a new successor.\<close>

lemma dseg_relink_front:
  assumes "dseg h p (x # xs) n" "x \<notin> set xs" "h x = Some m"
  shows "dseg (h(x \<mapsto> m\<lparr>dn_prev := p'\<rparr>)) p' (x # xs) n"
  using assms by (auto intro: dseg_frame)

lemma dseg_relink_back:
  assumes "dseg h p (xs @ [x]) n" "x \<notin> set xs" "h x = Some m"
  shows "dseg (h(x \<mapsto> m\<lparr>dn_next := n'\<rparr>)) p (xs @ [x]) n'"
  using assms by (auto simp: dseg_append intro: dseg_frame)

text \<open>The effect of unlinking on the side of the successors, then on that of the predecessors.\<close>

lemma remove_next_side:
  assumes "dseg h (Some x) bs None" "dl_tail l = final bs (Some x)" "distinct bs" "x \<notin> set bs"
  obtains h' l' where "unlink_next x \<lparr>dn_next = first bs None, dn_prev = p\<rparr> (h, l) = Inr (h', l')"
    "dseg h' p bs None" "dl_tail l' = final bs p" "dl_head l' = dl_head l"
    "\<And>a. a \<notin> set bs \<Longrightarrow> h' a = h a" "dom h' = dom h"
proof (cases bs)
  case Nil
  then show ?thesis using assms that [of h "l\<lparr>dl_tail := p\<rparr>"] by (simp add: unlink_next_def)
next
  case (Cons q qs)
  obtain m where m: "h q = Some m" "dn_prev m = Some x" using assms(1) by (simp add: Cons)
  show ?thesis
  proof (rule that [of "h(q \<mapsto> m\<lparr>dn_prev := p\<rparr>)" l])
    show "dseg (h(q \<mapsto> m\<lparr>dn_prev := p\<rparr>)) p bs None"
      using assms(1,3) m dseg_relink_front [of h "Some x" q qs None m p] by (simp add: Cons)
  qed (use assms m in \<open>auto simp: Cons unlink_next_def\<close>)
qed

lemma remove_prev_side:
  assumes "dseg h None as (Some x)" "dl_head l = first as (Some x)" "distinct as"
  obtains h' l' where "unlink_prev x \<lparr>dn_next = n, dn_prev = final as None\<rparr> (h, l) = Inr (h', l')"
    "dseg h' None as n" "dl_head l' = first as n" "dl_tail l' = dl_tail l"
    "\<And>a. a \<notin> set as \<Longrightarrow> h' a = h a" "dom h' = dom h"
proof (cases as rule: rev_cases)
  case Nil
  then show ?thesis using assms that [of h "l\<lparr>dl_head := n\<rparr>"] by (simp add: unlink_prev_def)
next
  case (snoc qs q)
  obtain m where m: "h q = Some m" "dn_next m = Some x" using assms(1) by (simp add: snoc dseg_append)
  show ?thesis
  proof (rule that [of "h(q \<mapsto> m\<lparr>dn_next := n\<rparr>)" l])
    show "dseg (h(q \<mapsto> m\<lparr>dn_next := n\<rparr>)) None as n"
      using assms(1,3) m dseg_relink_back [of h None qs q "Some x" m n] by (simp add: snoc)
  qed (use assms m in \<open>auto simp: snoc unlink_prev_def\<close>)
qed

lemma remove_rep:
  assumes "dl_rep (h, l) (as @ x # bs)"
  shows "\<exists>h' l'. double_list_remove x (h, l) = Inr (h', l') \<and> dl_rep (h', l') (as @ bs) \<and>
    dom h' = dom h \<and> h' x = h x \<and> (\<forall>a. a \<notin> set (as @ bs) \<longrightarrow> h' a = h a)"
proof -
  have d: "distinct (as @ x # bs)" "dseg h None as (Some x)" "dseg h (Some x) bs None"
    "h x = Some \<lparr>dn_next = first bs None, dn_prev = final as None\<rparr>"
    "dl_head l = first as (Some x)" "dl_tail l = final bs (Some x)"
    using assms by (simp_all add: dl_rep_def dseg_append)
  obtain h1 l1 where n: "unlink_next x \<lparr>dn_next = first bs None, dn_prev = final as None\<rparr> (h, l) = Inr (h1, l1)"
    "dseg h1 (final as None) bs None" "dl_tail l1 = final bs (final as None)" "dl_head l1 = dl_head l"
    "\<And>a. a \<notin> set bs \<Longrightarrow> h1 a = h a" "dom h1 = dom h"
    by (rule remove_next_side [OF d(3,6)]) (use d(1) in auto)
  have as: "dseg h1 None as (Some x)"
    using d(1) by (intro dseg_cong [OF d(2)] n(5)) auto
  obtain h2 l2 where r: "unlink_prev x \<lparr>dn_next = first bs None, dn_prev = final as None\<rparr> (h1, l1) = Inr (h2, l2)"
    "dseg h2 None as (first bs None)" "dl_head l2 = first as (first bs None)" "dl_tail l2 = dl_tail l1"
    "\<And>a. a \<notin> set as \<Longrightarrow> h2 a = h1 a" "dom h2 = dom h1"
    by (rule remove_prev_side [OF as, of l1 "first bs None"]) (use d(1,5) n(4) in auto)
  have "dseg h2 (final as None) bs None"
    using d(1) by (intro dseg_cong [OF n(2)] r(5)) auto
  then have "dl_rep (h2, l2) (as @ bs)"
    using d(1) r(2-4) n(3) by (simp add: dl_rep_def dseg_append)
  moreover have "h1 x = h x" "h2 x = h x" using n(5) r(5) d(1) by auto
  moreover have "double_list_remove x (h, l) = Inr (h2, l2)"
    using n(1) r(1) d(4) \<open>h1 x = h x\<close> by (simp add: double_list_remove_def)
  ultimately show ?thesis using n(5,6) r(5,6) by auto
qed

lemma pop_rep:
  assumes "dl_rep (h, l) xs"
  shows "\<exists>h' l'. double_list_pop (h, l) = Inr (first xs None, h', l') \<and> dl_rep (h', l') (tl xs) \<and> dom h' = dom h"
proof (cases xs)
  case Nil
  then show ?thesis using assms by (simp add: double_list_pop_def dl_rep_def)
next
  case (Cons x ys)
  then have "dl_head l = Some x" using assms by (simp add: dl_rep_def)
  then show ?thesis
    using remove_rep [of h l "[]" x ys] assms by (auto simp: double_list_pop_def Cons)
qed

lemma add_back_rep:
  assumes "dl_rep (h, l) (as @ p # bs)" "h x \<noteq> None" "x \<notin> set (as @ p # bs)"
  shows "\<exists>h' l'. double_list_add_back (Some p) x (h, l) = Inr (h', l') \<and>
    dl_rep (h', l') (as @ p # x # bs) \<and> dom h' = dom h"
proof (cases bs)
  case Nil
  then have "dl_tail l = Some p" using assms(1) by (simp add: dl_rep_def)
  then show ?thesis
    using add_tail_rep [of h l "as @ [p]" x] assms by (auto simp: double_list_add_back_def Nil)
next
  case (Cons q qs)
  have d: "distinct (as @ p # q # qs)" "dseg h None as (Some p)" "h p = Some \<lparr>dn_next = Some q, dn_prev = final as None\<rparr>"
    "h q = Some \<lparr>dn_next = first qs None, dn_prev = Some p\<rparr>" "dseg h (Some q) qs None"
    "dl_head l = first as (Some p)" "dl_tail l = final qs (Some q)"
    using assms(1) by (simp_all add: dl_rep_def dseg_append Cons)
  have neq: "x \<notin> set as" "x \<noteq> p" "x \<noteq> q" "x \<notin> set qs" using assms(3) by (auto simp: Cons)
  have "dl_tail l \<noteq> Some p" using d(1,7) by (auto simp: final_def)
  obtain n where n: "h x = Some n" using assms(2) by blast
  let ?h = "h(x \<mapsto> \<lparr>dn_next = Some q, dn_prev = Some p\<rparr>, q \<mapsto> \<lparr>dn_next = first qs None, dn_prev = Some x\<rparr>,
    p \<mapsto> \<lparr>dn_next = Some x, dn_prev = final as None\<rparr>)"
  have "double_list_add_back (Some p) x (h, l) = Inr (?h, l)"
    using \<open>dl_tail l \<noteq> Some p\<close> d n neq by (cases n) (simp add: double_list_add_back_def)
  moreover have "dseg ?h None as (Some p)" "dseg ?h (Some q) qs None"
    using d(1) neq by (auto intro!: dseg_cong [OF d(2)] dseg_cong [OF d(5)])
  then have "dl_rep (?h, l) (as @ p # x # bs)"
    using d(1,6,7) neq by (simp add: dl_rep_def dseg_append Cons)
  moreover have "dom ?h = dom h" using d n by auto
  ultimately show ?thesis by blast
qed

lemma add_front_rep:
  assumes "dl_rep (h, l) (as @ q # bs)" "h x \<noteq> None" "x \<notin> set (as @ q # bs)"
  shows "\<exists>h' l'. double_list_add_front (Some q) x (h, l) = Inr (h', l') \<and>
    dl_rep (h', l') (as @ x # q # bs) \<and> dom h' = dom h"
proof (cases as rule: rev_cases)
  case Nil
  then have "dl_head l = Some q" using assms(1) by (simp add: dl_rep_def)
  then show ?thesis
    using add_head_rep [of h l "q # bs" x] assms by (auto simp: double_list_add_front_def Nil)
next
  case (snoc ps p)
  have d: "distinct (ps @ p # q # bs)" "dseg h None ps (Some p)" "h p = Some \<lparr>dn_next = Some q, dn_prev = final ps None\<rparr>"
    "h q = Some \<lparr>dn_next = first bs None, dn_prev = Some p\<rparr>" "dseg h (Some q) bs None"
    "dl_head l = first ps (Some p)" "dl_tail l = final bs (Some q)"
    using assms(1) by (simp_all add: dl_rep_def dseg_append snoc)
  have neq: "x \<notin> set ps" "x \<noteq> p" "x \<noteq> q" "x \<notin> set bs" using assms(3) by (auto simp: snoc)
  have "dl_head l \<noteq> Some q" using d(1,6) by (auto simp: first_def)
  obtain n where n: "h x = Some n" using assms(2) by blast
  let ?h = "h(x \<mapsto> \<lparr>dn_next = Some q, dn_prev = Some p\<rparr>, p \<mapsto> \<lparr>dn_next = Some x, dn_prev = final ps None\<rparr>,
    q \<mapsto> \<lparr>dn_next = first bs None, dn_prev = Some x\<rparr>)"
  have "double_list_add_front (Some q) x (h, l) = Inr (?h, l)"
    using \<open>dl_head l \<noteq> Some q\<close> d n neq by (cases n) (simp add: double_list_add_front_def)
  moreover have "dseg ?h None ps (Some p)" "dseg ?h (Some q) bs None"
    using d(1) neq by (auto intro!: dseg_cong [OF d(2)] dseg_cong [OF d(5)])
  then have "dl_rep (?h, l) (as @ x # q # bs)"
    using d(1,6,7) neq by (simp add: dl_rep_def dseg_append snoc)
  moreover have "dom ?h = dom h" using d n by auto
  ultimately show ?thesis by blast
qed

text \<open>A node that was just removed is not removed again.\<close>

lemma remove_twice:
  assumes "dl_rep (h, l) (as @ x # bs)" "double_list_remove x (h, l) = Inr s"
  shows "double_list_remove x s = Inl AssertFail"
proof -
  obtain h' l' where r: "double_list_remove x (h, l) = Inr (h', l')" "dl_rep (h', l') (as @ bs)" "h' x = h x"
    using remove_rep [OF assms(1)] by auto
  then have s: "s = (h', l')" using assms(2) by simp
  have x: "h x = Some \<lparr>dn_next = first bs None, dn_prev = final as None\<rparr>" "x \<notin> set (as @ bs)"
    using assms(1) by (auto simp: dl_rep_def dseg_append)
  show ?thesis
  proof (cases bs)
    case Nil
    then have "dl_tail l' \<noteq> Some x" using r(2) x(2) by (auto simp: dl_rep_def final_def)
    then show ?thesis using r(3) x by (simp add: s double_list_remove_def unlink_next_def Nil)
  next
    case (Cons q qs)
    then have "h' q = Some \<lparr>dn_next = first qs None, dn_prev = final as None\<rparr>" "final as None \<noteq> Some x"
      using r(2) x(2) by (auto simp: dl_rep_def dseg_append final_def)
    then show ?thesis using r(3) x by (simp add: s double_list_remove_def unlink_next_def Cons)
  qed
qed

section \<open>The list as its clients use it\<close>

text \<open>
  Clients add nodes at the end and remove any of them; \<open>live\<close> are the nodes whose memory is
  allocated. A run of such steps is a run over a list.
\<close>

datatype 'n list_op = ListAdd 'n | ListRemove 'n

fun list_spec :: "'n set \<Rightarrow> 'n list_op list \<Rightarrow> 'n list \<Rightarrow> 'n list option" where
  "list_spec A [] xs = Some xs"
| "list_spec A (ListAdd n # ops) xs =
     (if n \<in> A \<and> n \<notin> set xs then list_spec A ops (xs @ [n]) else None)"
| "list_spec A (ListRemove n # ops) xs =
     (if n \<in> set xs then list_spec A ops (remove1 n xs) else None)"

fun list_run :: "('n \<Rightarrow> 's \<Rightarrow> fault + 's) \<Rightarrow> ('n \<Rightarrow> 's \<Rightarrow> fault + 's) \<Rightarrow> 'n list_op list \<Rightarrow> 's \<Rightarrow> fault + 's" where
  "list_run add rem [] s = Inr s"
| "list_run add rem (ListAdd n # ops) s = rbind (add n s) (list_run add rem ops)"
| "list_run add rem (ListRemove n # ops) s = rbind (rem n s) (list_run add rem ops)"

locale node_list =
  fixes add :: "'n \<Rightarrow> 's \<Rightarrow> fault + 's"
    and rem :: "'n \<Rightarrow> 's \<Rightarrow> fault + 's"
    and rep :: "'s \<Rightarrow> 'n list \<Rightarrow> bool"
    and live :: "'s \<Rightarrow> 'n set"
  assumes add_ok: "rep s xs \<Longrightarrow> n \<in> live s \<Longrightarrow> n \<notin> set xs \<Longrightarrow>
      \<exists>s'. add n s = Inr s' \<and> rep s' (xs @ [n]) \<and> live s' = live s"
    and rem_ok: "rep s xs \<Longrightarrow> n \<in> set xs \<Longrightarrow>
      \<exists>s'. rem n s = Inr s' \<and> rep s' (remove1 n xs) \<and> live s' = live s"
begin

lemma run_list:
  "rep s xs \<Longrightarrow> list_spec (live s) ops xs = Some ys \<Longrightarrow>
   \<exists>s'. list_run add rem ops s = Inr s' \<and> rep s' ys \<and> live s' = live s"
proof (induction ops arbitrary: s xs)
  case (Cons x ops)
  show ?case
  proof (cases x)
    case (ListAdd n)
    then obtain s1 where "add n s = Inr s1" "rep s1 (xs @ [n])" "live s1 = live s"
      "list_spec (live s1) ops (xs @ [n]) = Some ys"
      using add_ok [of s xs n] Cons.prems by (auto split: if_splits)
    then show ?thesis using Cons.IH [of s1] by (simp add: ListAdd)
  next
    case (ListRemove n)
    then obtain s1 where "rem n s = Inr s1" "rep s1 (remove1 n xs)" "live s1 = live s"
      "list_spec (live s1) ops (remove1 n xs) = Some ys"
      using rem_ok [of s xs n] Cons.prems by (auto split: if_splits)
    then show ?thesis using Cons.IH [of s1] by (simp add: ListRemove)
  qed
qed simp

end

lemma add_tail_ok:
  "dl_rep s xs \<Longrightarrow> n \<in> dom (fst s) \<Longrightarrow> n \<notin> set xs \<Longrightarrow>
   \<exists>s'. double_list_add_tail n s = Inr s' \<and> dl_rep s' (xs @ [n]) \<and> dom (fst s') = dom (fst s)"
  using add_tail_rep [of "fst s" "snd s" xs n] by force

lemma remove_ok:
  assumes "dl_rep s xs" "n \<in> set xs"
  shows "\<exists>s'. double_list_remove n s = Inr s' \<and> dl_rep s' (remove1 n xs) \<and> dom (fst s') = dom (fst s)"
proof -
  obtain as bs where xs: "xs = as @ n # bs" "n \<notin> set as" using assms(2) by (metis split_list_first)
  then show ?thesis
    using remove_rep [of "fst s" "snd s" as n bs] assms(1) by (force simp: remove1_append)
qed

interpretation double_list: node_list double_list_add_tail double_list_remove dl_rep "dom \<circ> fst"
  by unfold_locales (simp_all add: add_tail_ok remove_ok del: split_paired_Ex)

section \<open>Every operation on lists\<close>

datatype dl_op =
  AddHead addr | AddTail addr | AddBack "addr option" addr | AddFront "addr option" addr | Remove addr | Pop

definition insert_after :: "addr \<Rightarrow> addr \<Rightarrow> addr list \<Rightarrow> addr list" where
  "insert_after p x xs = takeWhile (\<lambda>a. a \<noteq> p) xs @ p # x # tl (dropWhile (\<lambda>a. a \<noteq> p) xs)"

definition insert_before :: "addr \<Rightarrow> addr \<Rightarrow> addr list \<Rightarrow> addr list" where
  "insert_before q x xs = takeWhile (\<lambda>a. a \<noteq> q) xs @ x # dropWhile (\<lambda>a. a \<noteq> q) xs"

text \<open>What an operation does to the list of nodes; \<open>None\<close> where it must not be called.\<close>

fun dl_spec :: "addr set \<Rightarrow> dl_op \<Rightarrow> addr list \<Rightarrow> (addr option \<times> addr list) option" where
  "dl_spec A (AddHead x) xs = (if x \<in> A \<and> x \<notin> set xs then Some (None, x # xs) else None)"
| "dl_spec A (AddTail x) xs = (if x \<in> A \<and> x \<notin> set xs then Some (None, xs @ [x]) else None)"
| "dl_spec A (AddBack p x) xs =
     (if x \<in> A \<and> x \<notin> set xs then
        case p of None \<Rightarrow> Some (None, x # xs)
        | Some p \<Rightarrow> if p \<in> set xs then Some (None, insert_after p x xs) else None
      else None)"
| "dl_spec A (AddFront q x) xs =
     (if x \<in> A \<and> x \<notin> set xs then
        case q of None \<Rightarrow> Some (None, xs @ [x])
        | Some q \<Rightarrow> if q \<in> set xs then Some (None, insert_before q x xs) else None
      else None)"
| "dl_spec A (Remove x) xs = (if x \<in> set xs then Some (None, remove1 x xs) else None)"
| "dl_spec A Pop xs = Some (first xs None, tl xs)"

fun dl_step :: "dl_op \<Rightarrow> dl_state \<Rightarrow> fault + addr option \<times> dl_state" where
  "dl_step (AddHead x) s = rbind (double_list_add_head x s) (\<lambda>s. Inr (None, s))"
| "dl_step (AddTail x) s = rbind (double_list_push x s) (\<lambda>s. Inr (None, s))"
| "dl_step (AddBack p x) s = rbind (double_list_add_back p x s) (\<lambda>s. Inr (None, s))"
| "dl_step (AddFront q x) s = rbind (double_list_add_front q x s) (\<lambda>s. Inr (None, s))"
| "dl_step (Remove x) s = rbind (double_list_remove x s) (\<lambda>s. Inr (None, s))"
| "dl_step Pop s = double_list_pop s"

primrec dl_run :: "dl_op list \<Rightarrow> dl_state \<Rightarrow> fault + addr option list \<times> dl_state" where
  "dl_run [] s = Inr ([], s)"
| "dl_run (x # xs) s =
     rbind (dl_step x s) (\<lambda>(r, s1). rbind (dl_run xs s1) (\<lambda>(rs, s2). Inr (r # rs, s2)))"

primrec dl_spec_run :: "addr set \<Rightarrow> dl_op list \<Rightarrow> addr list \<Rightarrow> (addr option list \<times> addr list) option" where
  "dl_spec_run A [] xs = Some ([], xs)"
| "dl_spec_run A (x # ops) xs =
     Option.bind (dl_spec A x xs) (\<lambda>(r, ys).
       map_option (\<lambda>(rs, zs). (r # rs, zs)) (dl_spec_run A ops ys))"

lemma split_at:
  assumes "p \<in> set xs"
  obtains as bs where "xs = as @ p # bs" "takeWhile (\<lambda>a. a \<noteq> p) xs = as" "dropWhile (\<lambda>a. a \<noteq> p) xs = p # bs"
proof -
  have "dropWhile (\<lambda>a. a \<noteq> p) xs \<noteq> []" using assms by (simp add: dropWhile_eq_Nil_conv)
  then obtain y bs where y: "dropWhile (\<lambda>a. a \<noteq> p) xs = y # bs" by (cases "dropWhile (\<lambda>a. a \<noteq> p) xs") auto
  then have "y = p" using hd_dropWhile [of "\<lambda>a. a \<noteq> p" xs] by simp
  then show ?thesis
    using that [of "takeWhile (\<lambda>a. a \<noteq> p) xs" bs] y takeWhile_dropWhile_id [of "\<lambda>a. a \<noteq> p" xs] by simp
qed

lemma dl_step_ok:
  assumes "dl_rep (h, l) xs" "dl_spec (dom h) x xs = Some (r, ys)"
  shows "\<exists>h' l'. dl_step x (h, l) = Inr (r, h', l') \<and> dl_rep (h', l') ys \<and> dom h' = dom h"
proof (cases x)
  case (AddHead n)
  then show ?thesis using add_head_rep [OF assms(1), of n] assms(2) by (auto split: if_splits)
next
  case (AddTail n)
  then show ?thesis
    using add_tail_rep [OF assms(1), of n] assms(2) by (auto simp: double_list_push_def split: if_splits)
next
  case (AddBack p n)
  show ?thesis
  proof (cases p)
    case None
    then show ?thesis
      using add_head_rep [OF assms(1), of n] assms(2)
      by (auto simp: AddBack double_list_add_back_def split: if_splits)
  next
    case (Some q)
    then have "q \<in> set xs" using assms(2) by (auto simp: AddBack split: if_splits)
    then obtain as bs where "xs = as @ q # bs" "takeWhile (\<lambda>a. a \<noteq> q) xs = as" "dropWhile (\<lambda>a. a \<noteq> q) xs = q # bs"
      by (rule split_at)
    then show ?thesis
      using add_back_rep [of h l as q bs n] assms Some
      by (auto simp: AddBack insert_after_def split: if_splits)
  qed
next
  case (AddFront p n)
  show ?thesis
  proof (cases p)
    case None
    then show ?thesis
      using add_tail_rep [OF assms(1), of n] assms(2)
      by (auto simp: AddFront double_list_add_front_def split: if_splits)
  next
    case (Some q)
    then have "q \<in> set xs" using assms(2) by (auto simp: AddFront split: if_splits)
    then obtain as bs where "xs = as @ q # bs" "takeWhile (\<lambda>a. a \<noteq> q) xs = as" "dropWhile (\<lambda>a. a \<noteq> q) xs = q # bs"
      by (rule split_at)
    then show ?thesis
      using add_front_rep [of h l as q bs n] assms Some
      by (auto simp: AddFront insert_before_def split: if_splits)
  qed
next
  case (Remove n)
  then show ?thesis using remove_ok [OF assms(1), of n] assms(2) by (auto split: if_splits)
next
  case Pop
  then show ?thesis using pop_rep [OF assms(1)] assms(2) by auto
qed

lemma dl_run_ok:
  "dl_rep (h, l) xs \<Longrightarrow> dl_spec_run (dom h) ops xs = Some (rs, ys) \<Longrightarrow>
   \<exists>h' l'. dl_run ops (h, l) = Inr (rs, h', l') \<and> dl_rep (h', l') ys \<and> dom h' = dom h"
proof (induction ops arbitrary: h l xs rs)
  case (Cons x ops)
  from Cons.prems(2) obtain r zs rs' where st: "dl_spec (dom h) x xs = Some (r, zs)"
    "dl_spec_run (dom h) ops zs = Some (rs', ys)" "rs = r # rs'"
    by (auto simp: bind_eq_Some_conv)
  obtain h1 l1 where s1: "dl_step x (h, l) = Inr (r, h1, l1)" "dl_rep (h1, l1) zs" "dom h1 = dom h"
    using dl_step_ok [OF Cons.prems(1) st(1)] by blast
  then show ?case using Cons.IH [of h1 l1 zs rs'] st by auto
qed simp

section \<open>The record of live allocations\<close>

text \<open>
  \<open>alloc.c\<close> puts a header in front of every block and links the headers. \<open>malloc\<close> is given
  the address it returns; the header is known by the address of the block.
\<close>

record alloc_debug_node =
  an_file :: string
  an_line :: int
  an_size :: int

record alloc_debug_list =
  ad_count :: int
  ad_link :: dl_state
  ad_nodes :: "addr \<Rightarrow> alloc_debug_node option"

definition alloc_debug_init :: alloc_debug_list where
  "alloc_debug_init =
     \<lparr>ad_count = 0, ad_link = (Map.empty, \<lparr>dl_head = None, dl_tail = None\<rparr>), ad_nodes = Map.empty\<rparr>"

text \<open>
  The links of a fresh header hold whatever was in the memory: \<open>links\<close>. The size is kept as an \<open>int\<close>. A size
  that wraps with the 32 bytes of the header gives a block too small for the header.
\<close>

definition my_malloc ::
  "addr \<Rightarrow> double_list_node \<Rightarrow> u64 \<Rightarrow> string \<Rightarrow> int \<Rightarrow> alloc_debug_list \<Rightarrow> fault + alloc_debug_list" where
  "my_malloc m links sz file line g =
     (if unat (32 + sz) < 32 then Inl OutOfBounds
      else let nodes = (ad_nodes g)(m \<mapsto> \<lparr>an_file = file, an_line = line, an_size = sint (ucast sz :: u32)\<rparr>);
          (h, l) = ad_link g
      in rbind (double_list_add_tail m (h(m \<mapsto> links), l)) (\<lambda>link.
         rbind (c_int (ad_count g + 1)) (\<lambda>count.
         Inr \<lparr>ad_count = count, ad_link = link, ad_nodes = nodes\<rparr>)))"

definition my_free :: "addr \<Rightarrow> alloc_debug_list \<Rightarrow> fault + alloc_debug_list" where
  "my_free m g =
     rbind (double_list_remove m (ad_link g)) (\<lambda>(h, l).
     Inr \<lparr>ad_count = ad_count g - 1, ad_link = (h(m := None), l), ad_nodes = (ad_nodes g)(m := None)\<rparr>)"

text \<open>
  The loop over the list, which need not end on arbitrary links: the records it writes, or
  \<open>None\<close>.
\<close>

partial_function (option) walk_nodes ::
  "dl_heap \<Rightarrow> (addr \<Rightarrow> alloc_debug_node option) \<Rightarrow> addr option \<Rightarrow> (fault + alloc_debug_node list) option" where
  "walk_nodes h nodes p =
     (case p of
        None \<Rightarrow> Some (Inr [])
      | Some a \<Rightarrow>
          (case (h a, nodes a) of
             (Some n, Some m) \<Rightarrow>
               Option.bind (walk_nodes h nodes (dn_next n)) (\<lambda>r.
                 Some (rbind r (\<lambda>ms. Inr (m # ms))))
           | _ \<Rightarrow> Some (Inl UseAfterFree)))"

text \<open>Nothing is written when the counter is not positive; else the counter, then the records.\<close>

definition print_unfree_record ::
  "alloc_debug_list \<Rightarrow> (fault + (int \<times> alloc_debug_node list) option) option" where
  "print_unfree_record g =
     (if ad_count g > 0 then
        map_option (\<lambda>r. rbind r (\<lambda>ms. Inr (Some (ad_count g, ms))))
          (walk_nodes (fst (ad_link g)) (ad_nodes g) (dl_head (snd (ad_link g))))
      else Some (Inr None))"

text \<open>The live allocations in the order they were made.\<close>

definition alloc_rep :: "alloc_debug_list \<Rightarrow> (addr \<times> alloc_debug_node) list \<Rightarrow> bool" where
  "alloc_rep g ms \<longleftrightarrow> dl_rep (ad_link g) (map fst ms) \<and> ad_count g = int (length ms) \<and>
     (\<forall>(a, m) \<in> set ms. ad_nodes g a = Some m)"

datatype alloc_op = Malloc addr double_list_node u64 string int | Free addr

fun alloc_step :: "alloc_op \<Rightarrow> alloc_debug_list \<Rightarrow> fault + alloc_debug_list" where
  "alloc_step (Malloc m j sz f ln) g = my_malloc m j sz f ln g"
| "alloc_step (Free m) g = my_free m g"

fun alloc_run :: "alloc_op list \<Rightarrow> alloc_debug_list \<Rightarrow> fault + alloc_debug_list" where
  "alloc_run [] g = Inr g"
| "alloc_run (x # xs) g = rbind (alloc_step x g) (alloc_run xs)"

text \<open>The size a block is reported with: exact below 2 GB.\<close>

definition reported_size :: "u64 \<Rightarrow> int" where
  "reported_size sz = (let n = int (unat sz mod 2 ^ 32) in if n < 2 ^ 31 then n else n - 2 ^ 32)"

lemma stored_size: "sint (ucast sz :: u32) = reported_size sz"
proof -
  have u: "uint (ucast sz :: u32) = int (unat sz mod 2 ^ 32)"
    by (simp add: uint_up_ucast unsigned_ucast_eq take_bit_eq_mod flip: uint_nat) (simp add: zmod_int flip: uint_nat)
  define n where "n = int (unat sz mod 2 ^ 32)"
  have "0 \<le> n" "n < 4294967296" by (simp_all add: n_def)
  then have "(n + 2147483648) mod 4294967296 - 2147483648 = (if n < 2147483648 then n else n - 4294967296)"
    by (cases "n < 2147483648") (simp_all add: mod_pos_pos_trivial mod_pos_geq)
  moreover have "sint (ucast sz :: u32) = (n + 2147483648) mod 4294967296 - 2147483648"
    using sint_uint [of "ucast sz :: u32"] unfolding u n_def [symmetric] signed_take_bit_eq_take_bit_shift take_bit_eq_mod by simp
  ultimately show ?thesis by (simp add: reported_size_def Let_def n_def)
qed

text \<open>
  The same on the list of live blocks; \<open>malloc\<close> returns no live address, sizes leave room for the header, and the blocks are
  counted with an \<open>int\<close>.
\<close>

fun alloc_spec :: "alloc_op list \<Rightarrow> (addr \<times> alloc_debug_node) list \<Rightarrow> (addr \<times> alloc_debug_node) list option" where
  "alloc_spec [] ms = Some ms"
| "alloc_spec (Malloc m j sz f ln # ops) ms =
     (if m \<in> fst ` set ms \<or> unat sz + 32 \<ge> 2 ^ 64 \<or> int (length ms) + 1 \<ge> 2 ^ 31 then None
      else alloc_spec ops (ms @ [(m, \<lparr>an_file = f, an_line = ln, an_size = reported_size sz\<rparr>)]))"
| "alloc_spec (Free m # ops) ms =
     (if m \<in> fst ` set ms then alloc_spec ops (filter (\<lambda>x. fst x \<noteq> m) ms) else None)"

lemma rep_frame: "dl_rep (h, l) xs \<Longrightarrow> a \<notin> set xs \<Longrightarrow> dl_rep (h(a := v), l) xs"
  by (simp add: dl_rep_def dseg_frame)

lemma malloc_rep:
  assumes "alloc_rep g ms" "m \<notin> fst ` set ms" "unat sz + 32 < 2 ^ 64" "int (length ms) + 1 < 2 ^ 31"
  shows "\<exists>g'. my_malloc m j sz f ln g = Inr g' \<and>
    alloc_rep g' (ms @ [(m, \<lparr>an_file = f, an_line = ln, an_size = reported_size sz\<rparr>)])"
proof -
  have sz: "\<not> unat (32 + sz) < 32" using assms(3) unat_add_lem [of 32 sz] by simp
  have c: "c_int (ad_count g + 1) = Inr (ad_count g + 1)" using assms(1,4) by (simp add: alloc_rep_def)
  obtain h l where g: "ad_link g = (h, l)" by (cases "ad_link g")
  have m: "m \<notin> set (map fst ms)" using assms(2) by simp
  have "dl_rep (h(m \<mapsto> j), l) (map fst ms)"
    using assms m g by (intro rep_frame) (simp_all add: alloc_rep_def)
  then obtain h' l' where "double_list_add_tail m (h(m \<mapsto> j), l) = Inr (h', l')" "dl_rep (h', l') (map fst ms @ [m])"
    using add_tail_rep [of "h(m \<mapsto> j)" l "map fst ms" m] m by auto
  moreover have "(\<forall>(a, n) \<in> set ms. ((ad_nodes g)(m \<mapsto> v)) a = Some n)" for v
    using assms by (auto simp: alloc_rep_def image_iff split_beta)
  ultimately show ?thesis
    using assms(1) g sz c by (simp add: my_malloc_def alloc_rep_def split_beta stored_size)
qed

lemma map_fst_filter: "distinct (map fst ms) \<Longrightarrow> map fst (filter (\<lambda>x. fst x \<noteq> m) ms) = remove1 m (map fst ms)"
  by (induction ms) (auto simp: filter_id_conv image_iff remove1_idem)

lemma free_rep:
  assumes "alloc_rep g ms" "m \<in> fst ` set ms"
  shows "\<exists>g'. my_free m g = Inr g' \<and> alloc_rep g' (filter (\<lambda>x. fst x \<noteq> m) ms)"
proof -
  obtain h l where g: "ad_link g = (h, l)" by (cases "ad_link g")
  have d: "distinct (map fst ms)" "dl_rep (h, l) (map fst ms)" using assms(1) by (auto simp: alloc_rep_def g dl_rep_def)
  obtain h' l' where r: "double_list_remove m (h, l) = Inr (h', l')" "dl_rep (h', l') (remove1 m (map fst ms))"
    using remove_ok [OF d(2), of m] assms(2) by auto
  have "m \<notin> set (remove1 m (map fst ms))" using d(1) by simp
  then have "dl_rep (h'(m := None), l') (remove1 m (map fst ms))" using r(2) rep_frame by blast
  moreover have "length (filter (\<lambda>x. fst x \<noteq> m) ms) = length ms - 1" "Suc 0 \<le> length ms"
    using assms(2) arg_cong [OF map_fst_filter [OF d(1), of m], of length]
    by (auto simp: length_remove1 Suc_le_eq)
  ultimately show ?thesis
    using assms(1) g r d(1) by (auto simp: my_free_def alloc_rep_def map_fst_filter of_nat_diff)
qed

lemma alloc_run_rep:
  "alloc_rep g ms \<Longrightarrow> alloc_spec ops ms = Some ks \<Longrightarrow> \<exists>g'. alloc_run ops g = Inr g' \<and> alloc_rep g' ks"
proof (induction ops ms arbitrary: g rule: alloc_spec.induct)
  case (2 m j sz f ln ops ms)
  then show ?case using malloc_rep [of g ms m sz j f ln] by (auto split: if_splits)
next
  case (3 m ops ms)
  then show ?case using free_rep [of g ms m] by (auto split: if_splits)
qed simp

lemma walk_seg:
  "dseg h p (map fst ms) None \<Longrightarrow> (\<forall>(a, m) \<in> set ms. nodes a = Some m) \<Longrightarrow>
   walk_nodes h nodes (first (map fst ms) None) = Some (Inr (map snd ms))"
proof (induction ms arbitrary: p)
  case Nil
  then show ?case by (subst walk_nodes.simps) simp
next
  case (Cons x ms)
  then show ?case by (cases x) (subst walk_nodes.simps, auto)
qed

lemma print_rep:
  "alloc_rep g ms \<Longrightarrow>
   print_unfree_record g = Some (Inr (if ms = [] then None else Some (int (length ms), map snd ms)))"
  using walk_seg [of "fst (ad_link g)" None ms "ad_nodes g"]
  by (auto simp: print_unfree_record_def alloc_rep_def dl_rep_def split_beta)

section \<open>Properties\<close>

text \<open>
  C24. On a well-formed list every operation of the header does what it says on the sequence
  of nodes: insertions at either end and before or after a node, removal of any node and
  removal of the first one. A run of operations, each called as the sequence allows,
  fails no assertion, follows no dangling or null pointer, returns the nodes the sequence
  model returns and ends in a well-formed list of the model's sequence.
\<close>

theorem double_list_refines_sequences:
  assumes "dl_rep s xs" "dl_spec_run (dom (fst s)) ops xs = Some (rs, ys)"
  shows "\<exists>s'. dl_run ops s = Inr (rs, s') \<and> dl_rep s' ys"
  using dl_run_ok [of "fst s" "snd s" xs ops rs ys] assms by auto

theorem double_list_refines_sequences_witness:
  "\<exists>s'. dl_run [AddTail 1, AddHead 2, AddBack (Some 2) 3, AddFront (Some 1) 4, Remove 3, Pop]
      ((\<lambda>_. None)(1 \<mapsto> \<lparr>dn_next = None, dn_prev = None\<rparr>, 2 \<mapsto> \<lparr>dn_next = None, dn_prev = None\<rparr>,
        3 \<mapsto> \<lparr>dn_next = None, dn_prev = None\<rparr>, 4 \<mapsto> \<lparr>dn_next = Some 9, dn_prev = None\<rparr>),
       \<lparr>dl_head = None, dl_tail = None\<rparr>) = Inr ([None, None, None, None, None, Some 2], s') \<and> dl_rep s' [4, 1]"
  by (rule double_list_refines_sequences [where xs = "[]"])
    (simp_all add: rep_empty insert_after_def insert_before_def)

text \<open>
  A removal right after the removal of the same node is caught: whatever the position of
  the node was, the second call fails an assertion.
\<close>

theorem double_list_remove_twice_aborts:
  assumes "dl_rep s xs" "x \<in> set xs"
  shows "rbind (double_list_remove x s) (double_list_remove x) = Inl AssertFail"
proof -
  obtain as bs where xs: "xs = as @ x # bs" using assms(2) by (metis split_list)
  obtain s' where s': "double_list_remove x s = Inr s'" using remove_ok [OF assms] by blast
  then show ?thesis using remove_twice [of "fst s" "snd s" as x bs s'] assms(1) xs by simp
qed

theorem double_list_remove_twice_aborts_witness:
  "rbind (double_list_remove 1 ((\<lambda>_. None)(1 \<mapsto> \<lparr>dn_next = None, dn_prev = None\<rparr>), \<lparr>dl_head = Some 1, dl_tail = Some 1\<rparr>))
     (double_list_remove 1) = Inl AssertFail"
  by (rule double_list_remove_twice_aborts [where xs = "[1]"]) (simp_all add: dl_rep_def)

text \<open>
  C37. The report of unfreed memory is exact: after any run of allocations and releases in
  which no live address is handed out twice, only live blocks are released, sizes leave room for the header and fewer than
  \<open>2^31\<close> blocks are live, the report
  ends, follows no dangling pointer, and lists precisely the live blocks, with their number,
  file, line and size - for a block of 2 GB or more its low 32 bits as a signed number -, in the order of their
  allocation; without live blocks nothing is written.
\<close>

theorem alloc_report_exact:
  assumes "alloc_spec ops [] = Some ms"
  shows "\<exists>g. alloc_run ops alloc_debug_init = Inr g \<and>
    print_unfree_record g = Some (Inr (if ms = [] then None else Some (int (length ms), map snd ms)))"
proof -
  have "alloc_rep alloc_debug_init []" by (simp add: alloc_rep_def alloc_debug_init_def rep_empty)
  then show ?thesis using alloc_run_rep [of alloc_debug_init "[]" ops ms] assms print_rep by blast
qed

theorem alloc_report_exact_witness:
  "\<exists>g. alloc_run [Malloc 1 \<lparr>dn_next = None, dn_prev = None\<rparr> 32 ''a.c'' 10,
        Malloc 2 \<lparr>dn_next = None, dn_prev = None\<rparr> 64 ''b.c'' 20, Free 1] alloc_debug_init = Inr g \<and>
     print_unfree_record g = Some (Inr (Some (1, [\<lparr>an_file = ''b.c'', an_line = 20, an_size = 64\<rparr>])))"
  using alloc_report_exact [of "[Malloc 1 \<lparr>dn_next = None, dn_prev = None\<rparr> 32 ''a.c'' 10,
        Malloc 2 \<lparr>dn_next = None, dn_prev = None\<rparr> 64 ''b.c'' 20, Free 1]"
      "[(2, \<lparr>an_file = ''b.c'', an_line = 20, an_size = 64\<rparr>)]"]
  by (simp add: reported_size_def)

end
