(* ===== verification/Codec.thy ===== *)
theory Codec
  imports Prelude
begin

text \<open>
  Integers in memory and on the wire: \<open>is_bigendian\<close>, \<open>htons\<close>/\<open>htonl\<close> and the
  conversion macros and functions of \<open>protocollib/tcp_stream.h\<close> and \<open>tcp_stream.c\<close>.
  The byte order of the host is the parameter \<open>be\<close> of every definition that looks at
  the memory image of an integer.
\<close>

section \<open>Memory images of integers\<close>

text \<open>The bytes of a word, lowest first, and the word a list of bytes denotes.\<close>

primrec bytes_le :: "nat \<Rightarrow> 'a::len word \<Rightarrow> char list" where
  "bytes_le 0 w = []"
| "bytes_le (Suc n) w = char_of_byte (ucast w) # bytes_le n (drop_bit 8 w)"

primrec word_le :: "char list \<Rightarrow> 'a::len word" where
  "word_le [] = 0"
| "word_le (c # cs) = ucast (byte_of_char c) OR push_bit 8 (word_le cs)"

text \<open>What lies in memory at the address of an integer, and a load through a cast pointer.\<close>

definition mem_image :: "bool \<Rightarrow> nat \<Rightarrow> 'a::len word \<Rightarrow> char list" where
  "mem_image be n w = (if be then rev (bytes_le n w) else bytes_le n w)"

definition load :: "bool \<Rightarrow> char list \<Rightarrow> 'a::len word" where
  "load be cs = word_le (if be then rev cs else cs)"

text \<open>\<open>is_bigendian\<close> looks at the first byte of the image of the 16 bit number \<open>0x0100\<close>.\<close>

definition is_bigendian :: "bool \<Rightarrow> bool" where
  "is_bigendian be = (0 < nat_char (hd (mem_image be 2 (0x0100 :: u16))))"

text \<open>\<open>htons\<close>, \<open>htonl\<close>, \<open>ntohs\<close>, \<open>ntohl\<close>: the bytes are reversed on a little endian host.\<close>

definition swap_bytes :: "nat \<Rightarrow> 'a::len word \<Rightarrow> 'a word" where
  "swap_bytes n w = word_le (rev (bytes_le n w))"

definition htons :: "bool \<Rightarrow> u16 \<Rightarrow> u16" where
  "htons be v = (if be then v else swap_bytes 2 v)"

definition htonl :: "bool \<Rightarrow> u32 \<Rightarrow> u32" where
  "htonl be v = (if be then v else swap_bytes 4 v)"

text \<open>
  The macros \<open>hton16(buf,v)\<close> and \<open>hton32(buf,v)\<close> assign the converted number back to \<open>v\<close>
  and copy its image; the definitions give the new value of \<open>v\<close> and the bytes.
\<close>

definition hton16 :: "bool \<Rightarrow> u16 \<Rightarrow> u16 \<times> char list" where
  "hton16 be v = (let v' = htons be v in (v', mem_image be 2 v'))"

definition hton32 :: "bool \<Rightarrow> u32 \<Rightarrow> u32 \<times> char list" where
  "hton32 be v = (let v' = htonl be v in (v', mem_image be 4 v'))"

definition ntoh16 :: "bool \<Rightarrow> char list \<Rightarrow> u16" where
  "ntoh16 be buf = htons be (load be (take 2 buf))"

definition ntoh32 :: "bool \<Rightarrow> char list \<Rightarrow> u32" where
  "ntoh32 be buf = htonl be (load be (take 4 buf))"

text \<open>
  \<open>_hton64\<close> and \<open>_ntoh64\<close>: on a big endian host the image is copied, otherwise byte \<open>i\<close> of
  the buffer is byte \<open>7 - i\<close> of the image.
\<close>

definition hton64 :: "bool \<Rightarrow> u64 \<Rightarrow> char list" where
  "hton64 be v =
     (let m = mem_image be 8 v in
      if is_bigendian be then m
      else [m ! 7, m ! 6, m ! 5, m ! 4, m ! 3, m ! 2, m ! 1, m ! 0])"

definition ntoh64 :: "bool \<Rightarrow> char list \<Rightarrow> u64" where
  "ntoh64 be buf =
     (if is_bigendian be then load be (take 8 buf)
      else load be [buf ! 7, buf ! 6, buf ! 5, buf ! 4, buf ! 3, buf ! 2, buf ! 1, buf ! 0])"

section \<open>Lemmas on memory images\<close>

lemma length_bytes_le [simp]: "length (bytes_le n w) = n"
  by (induction n arbitrary: w) auto

lemma length_mem_image [simp]: "length (mem_image be n w) = n"
  by (simp add: mem_image_def)

lemma bit_word_le_high:
  "bit (word_le cs :: 'a::len word) k \<Longrightarrow> k < 8 * length cs"
proof (induction cs arbitrary: k)
  case Nil
  then show ?case by simp
next
  case (Cons c cs)
  show ?case
  proof (cases "k < 8")
    case True
    then show ?thesis by simp
  next
    case False
    with Cons.prems have "bit (word_le cs :: 'a word) (k - 8)"
      by (auto simp: bit_simps dest: bit_imp_le_length)
    then have "k - 8 < 8 * length cs" by (rule Cons.IH)
    then show ?thesis by simp
  qed
qed

lemma word_le_bytes_le: "(word_le (bytes_le n w) :: 'a::len word) = take_bit (8 * n) w"
proof (induction n arbitrary: w)
  case 0
  then show ?case by simp
next
  case (Suc n)
  have "(word_le (bytes_le (Suc n) w) :: 'a word)
      = ucast (ucast w :: u8) OR push_bit 8 (take_bit (8 * n) (drop_bit 8 w))"
    by (simp add: Suc)
  also have "\<dots> = take_bit (8 * Suc n) w"
    by (rule bit_word_eqI) (auto simp: bit_simps dest: bit_imp_le_length)
  finally show ?case .
qed

lemma bytes_le_word_le:
  assumes "8 * length cs \<le> LENGTH('a::len)"
  shows "bytes_le (length cs) (word_le cs :: 'a word) = cs"
  using assms
proof (induction cs)
  case Nil
  then show ?case by simp
next
  case (Cons c cs)
  let ?w = "word_le cs :: 'a word"
  have hi: "bit ?w k \<Longrightarrow> 8 + k < LENGTH('a)" for k
    using Cons.prems bit_word_le_high [of cs k, where ?'a = 'a] by simp
  have lo: "ucast (ucast (byte_of_char c) OR push_bit 8 ?w :: 'a word) = byte_of_char c"
    using Cons.prems by (intro bit_word_eqI) (auto simp: bit_simps)
  have up: "drop_bit 8 (ucast (byte_of_char c) OR push_bit 8 ?w :: 'a word) = ?w"
    by (rule bit_word_eqI) (auto simp: bit_simps dest: hi bit_imp_le_length)
  show ?case using Cons by (simp add: lo up del: drop_bit_or)
qed

lemma word_le_rev_rev: "rev (bytes_le n (swap_bytes n w)) = bytes_le n w"
  if "8 * n \<le> LENGTH('a)" for w :: "'a::len word"
proof -
  have "bytes_le n (swap_bytes n w) = rev (bytes_le n w)"
    using bytes_le_word_le [of "rev (bytes_le n w)", where ?'a = 'a] that
    by (simp add: swap_bytes_def)
  then show ?thesis by simp
qed

lemma take_bit_full [simp]: "take_bit n w = w" if "LENGTH('a) \<le> n" for w :: "'a::len word"
  using that by (intro bit_word_eqI) (auto simp: bit_simps dest: bit_imp_le_length)

lemma load_mem_image [simp]:
  "LENGTH('a) \<le> 8 * n \<Longrightarrow> load be (mem_image be n w) = w" for w :: "'a::len word"
  by (simp add: load_def mem_image_def word_le_bytes_le)

lemma swap_swap: "swap_bytes n (swap_bytes n w) = w"
  if "LENGTH('a) = 8 * n" for w :: "'a::len word"
proof -
  have "swap_bytes n (swap_bytes n w) = word_le (bytes_le n w)"
    using word_le_rev_rev [of n w] that by (simp add: swap_bytes_def)
  with that show ?thesis by (simp add: word_le_bytes_le)
qed

lemma htons_htons [simp]: "htons be (htons be v) = v"
  by (simp add: htons_def swap_swap)

lemma htonl_htonl [simp]: "htonl be (htonl be v) = v"
  by (simp add: htonl_def swap_swap)

lemma bytes_le_0 [simp]: "bytes_le n 0 = replicate n NUL"
  by (induction n) auto

lemma word_le_NULs [simp]: "word_le (replicate n NUL) = 0"
  by (induction n) auto

lemma bytes_le_2: "bytes_le 2 w = [char_of_byte (ucast w), char_of_byte (ucast (drop_bit 8 w))]"
  by (simp add: numeral_2_eq_2)

lemma is_bigendian_iff [simp]: "is_bigendian be = be"
  by (simp add: is_bigendian_def mem_image_def bytes_le_2)

section \<open>The wire format\<close>

text \<open>Network order: highest byte first, whatever the host.\<close>

definition net_bytes :: "nat \<Rightarrow> 'a::len word \<Rightarrow> char list" where
  "net_bytes n w = rev (bytes_le n w)"

lemma length_net_bytes [simp]: "length (net_bytes n w) = n"
  by (simp add: net_bytes_def)

lemma snd_hton16 [simp]: "snd (hton16 be v) = net_bytes 2 v"
  using word_le_rev_rev [of 2 v, THEN arg_cong, of rev]
  by (simp add: hton16_def Let_def htons_def mem_image_def net_bytes_def)

lemma snd_hton32 [simp]: "snd (hton32 be v) = net_bytes 4 v"
  using word_le_rev_rev [of 4 v, THEN arg_cong, of rev]
  by (simp add: hton32_def Let_def htonl_def mem_image_def net_bytes_def)

lemma fst_hton16 [simp]: "fst (hton16 be v) = htons be v"
  by (simp add: hton16_def Let_def)

lemma fst_hton32 [simp]: "fst (hton32 be v) = htonl be v"
  by (simp add: hton32_def Let_def)

lemma rev_nth8: "length m = 8 \<Longrightarrow>
  [m ! 7, m ! 6, m ! 5, m ! 4, m ! 3, m ! 2, m ! 1, m ! 0] = rev m"
proof -
  assume "length m = 8"
  then obtain a b c d e f g h where "m = [a, b, c, d, e, f, g, h]"
    by (auto simp: eval_nat_numeral length_Suc_conv)
  then show ?thesis by simp
qed

lemma hton64_net [simp]: "hton64 be v = net_bytes 8 v"
  unfolding hton64_def Let_def is_bigendian_iff
  using rev_nth8 [of "mem_image be 8 v"] by (simp only: length_mem_image refl)
    (simp add: mem_image_def net_bytes_def)

lemma load_net: "(load False (rev (net_bytes n w)) :: 'a word) = w"
  if "LENGTH('a) \<le> 8 * n" for w :: "'a::len word"
  using that by (simp add: load_def net_bytes_def word_le_bytes_le)

lemma ntoh64_net:
  assumes "8 \<le> length buf" "take 8 buf = net_bytes 8 v"
  shows "ntoh64 be buf = v"
proof (cases be)
  case True
  with assms show ?thesis
    by (simp add: ntoh64_def load_def net_bytes_def word_le_bytes_le)
next
  case False
  have "[buf ! 7, buf ! 6, buf ! 5, buf ! 4, buf ! 3, buf ! 2, buf ! 1, buf ! 0] = rev (take 8 buf)"
    using assms(1) rev_nth8 [of "take 8 buf"] by simp
  with False assms(2) show ?thesis
    by (simp add: ntoh64_def load_net)
qed

lemma ntoh32_net: "take 4 buf = net_bytes 4 v \<Longrightarrow> ntoh32 be buf = v"
proof -
  assume a: "take 4 buf = net_bytes 4 v"
  have "mem_image be 4 (htonl be v) = net_bytes 4 v"
    using snd_hton32 [of be v] by (simp add: hton32_def Let_def)
  then have "load be (net_bytes 4 v) = htonl be v"
    using load_mem_image [of 4 be "htonl be v"] by simp
  with a show ?thesis by (simp add: ntoh32_def)
qed

lemma ntoh16_net: "take 2 buf = net_bytes 2 v \<Longrightarrow> ntoh16 be buf = v"
proof -
  assume a: "take 2 buf = net_bytes 2 v"
  have "mem_image be 2 (htons be v) = net_bytes 2 v"
    using snd_hton16 [of be v] by (simp add: hton16_def Let_def)
  then have "load be (net_bytes 2 v) = htons be v"
    using load_mem_image [of 2 be "htons be v"] by simp
  with a show ?thesis by (simp add: ntoh16_def)
qed

end
