(* ===== verification/ByteSink.thy ===== *)
theory ByteSink
  imports Codec
begin

text \<open>
  The interface the three message builders of the program share (\<open>tcp_stream\<close>,
  \<open>tcp_packet\<close>, \<open>net_packet\<close>): values are appended in network order at a cursor, up to
  a limit. A client that writes a list of values gets their concatenated encodings.
\<close>

section \<open>Values that go on the wire\<close>

datatype wire = W8 u8 | W16 u16 | W32 u32 | W64 u64 | WStr "char list"

fun wire_bytes :: "wire \<Rightarrow> char list" where
  "wire_bytes (W8 v) = [char_of_byte v]"
| "wire_bytes (W16 v) = net_bytes 2 v"
| "wire_bytes (W32 v) = net_bytes 4 v"
| "wire_bytes (W64 v) = net_bytes 8 v"
| "wire_bytes (WStr s) = s"

definition wires_bytes :: "wire list \<Rightarrow> char list" where
  "wires_bytes ws = concat (map wire_bytes ws)"

lemma wires_bytes_simps [simp]:
  "wires_bytes [] = []"
  "wires_bytes (w # ws) = wire_bytes w @ wires_bytes ws"
  by (simp_all add: wires_bytes_def)

text \<open>A string of length 0 is refused by the code's assertions.\<close>

definition wire_ok :: "wire \<Rightarrow> bool" where
  "wire_ok w \<longleftrightarrow> wire_bytes w \<noteq> []"

lemma wire_ok_simps [simp]:
  "wire_ok (W8 a)" "wire_ok (W16 b)" "wire_ok (W32 c)" "wire_ok (W64 d)"
  "wire_ok (WStr s) \<longleftrightarrow> s \<noteq> []"
  by (auto simp: wire_ok_def net_bytes_def numeral_2_eq_2 eval_nat_numeral)

fun emit_all :: "(wire \<Rightarrow> 's \<Rightarrow> fault + 's) \<Rightarrow> wire list \<Rightarrow> 's \<Rightarrow> fault + 's" where
  "emit_all emit [] s = Inr s"
| "emit_all emit (w # ws) s = rbind (emit w s) (emit_all emit ws)"

section \<open>The contract of a sink\<close>

locale byte_sink =
  fixes pos :: "'s \<Rightarrow> int"
    and lim :: "'s \<Rightarrow> int"
    and mem :: "'s \<Rightarrow> char list"
    and upd :: "int \<Rightarrow> char list \<Rightarrow> 's \<Rightarrow> 's"
    and emit :: "wire \<Rightarrow> 's \<Rightarrow> fault + 's"
  assumes emit_ok:
      "wire_ok w \<Longrightarrow> 0 \<le> pos s \<Longrightarrow> pos s + int (length (wire_bytes w)) \<le> lim s \<Longrightarrow>
       lim s < 2 ^ 31 \<Longrightarrow> lim s \<le> int (length (mem s)) \<Longrightarrow>
       emit w s = Inr (upd (pos s + int (length (wire_bytes w))) (put (nat (pos s)) (wire_bytes w) (mem s)) s)"
    and pos_upd [simp]: "pos (upd i m s) = i"
    and mem_upd [simp]: "mem (upd i m s) = m"
    and lim_upd [simp]: "lim (upd i m s) = lim s"
    and upd_upd [simp]: "upd i m (upd j m' s) = upd i m s"
    and upd_same: "upd (pos s) (mem s) s = s"
begin

lemma emit_all_ok:
  assumes "\<forall>w \<in> set ws. wire_ok w"
    and "0 \<le> pos s"
    and "pos s + int (length (wires_bytes ws)) \<le> lim s"
    and "lim s < 2 ^ 31"
    and "lim s \<le> int (length (mem s))"
  shows "emit_all emit ws s =
    Inr (upd (pos s + int (length (wires_bytes ws))) (put (nat (pos s)) (wires_bytes ws) (mem s)) s)"
  using assms
proof (induction ws arbitrary: s)
  case Nil
  then show ?case by (simp add: upd_same)
next
  case (Cons w ws)
  let ?n = "length (wire_bytes w)"
  let ?s' = "upd (pos s + int ?n) (put (nat (pos s)) (wire_bytes w) (mem s)) s"
  have fits: "nat (pos s) + ?n + length (wires_bytes ws) \<le> length (mem s)"
    using Cons.prems by simp
  have nat_pos: "nat (pos s + int ?n) = nat (pos s) + ?n"
    using Cons.prems(2) by (simp add: nat_add_distrib)
  have w: "emit w s = Inr ?s'"
    using Cons.prems by (intro emit_ok) auto
  have "emit_all emit ws ?s' =
      Inr (upd (pos ?s' + int (length (wires_bytes ws)))
            (put (nat (pos ?s')) (wires_bytes ws) (mem ?s')) ?s')"
    using Cons.prems fits by (intro Cons.IH) auto
  with w show ?case
    using fits by (simp add: nat_pos put_put_append add.assoc)
qed

lemma emit_all_frame:
  assumes "\<forall>w \<in> set ws. wire_ok w"
    and "0 \<le> pos s"
    and "pos s + int (length (wires_bytes ws)) \<le> lim s"
    and "lim s < 2 ^ 31"
    and "lim s \<le> int (length (mem s))"
    and "emit_all emit ws s = Inr s'"
  shows "take (nat (pos s)) (mem s') = take (nat (pos s)) (mem s)"
    and "blk (nat (pos s)) (length (wires_bytes ws)) (mem s') = wires_bytes ws"
    and "pos s' = pos s + int (length (wires_bytes ws))"
    and "length (mem s') = length (mem s)"
  using assms emit_all_ok [OF assms(1-5)]
  by (auto simp: take_put_below blk_put_same)

end

end
