(* ===== verification/Packets.thy ===== *)
theory Packets
  imports ByteSink
begin

text \<open>
  The two message builders of the login service, \<open>CS_LoginService/packet.h\<close> (a 9 byte
  header) and \<open>CS_LoginService/net_packet.h\<close> (a 26 byte header). A packet comes from
  \<open>my_new\<close> without being cleared: \<open>old\<close> is what its memory held before.
\<close>

section \<open>tcp\_packet\<close>

definition PACKET_BY_HEADER_SIZE :: int where "PACKET_BY_HEADER_SIZE = 9"
definition PACKET_BY_BODY_SIZE :: nat where "PACKET_BY_BODY_SIZE = 10240"

record tcp_packet =
  pk_off :: int
  pk_cmd :: u16
  pk_name :: "char list"
  pk_cversion :: u8
  pk_csubversion :: u8
  pk_code :: u8
  pk_buf :: "char list"

definition create_packet :: "(nat \<Rightarrow> char) \<Rightarrow> u16 \<Rightarrow> tcp_packet" where
  "create_packet old cmd =
     \<lparr>pk_off = PACKET_BY_HEADER_SIZE, pk_cmd = cmd, pk_name = ''BY'' @ [NUL],
      pk_cversion = 1, pk_csubversion = 1, pk_code = 0,
      pk_buf = junk old (PACKET_BY_BODY_SIZE + 1)\<rparr>"

text \<open>All pushes: the assertion on the limit, the copy at the cursor, the cursor moved.\<close>

definition packet_append :: "char list \<Rightarrow> tcp_packet \<Rightarrow> fault + tcp_packet" where
  "packet_append bs p =
     rbind (c_assert (usize (pk_off p + int (length bs)) \<le> int PACKET_BY_BODY_SIZE)) (\<lambda>_.
     rbind (copy_in (pk_off p) bs (pk_buf p)) (\<lambda>b.
     Inr (p\<lparr>pk_buf := b, pk_off := pk_off p + int (length bs)\<rparr>)))"

definition push_packet_int8 :: "u8 \<Rightarrow> tcp_packet \<Rightarrow> fault + tcp_packet" where
  "push_packet_int8 vl = packet_append [char_of_byte vl]"

definition push_packet_int16 :: "bool \<Rightarrow> u16 \<Rightarrow> tcp_packet \<Rightarrow> fault + tcp_packet" where
  "push_packet_int16 be vl = packet_append (snd (hton16 be vl))"

definition push_packet_int32 :: "bool \<Rightarrow> u32 \<Rightarrow> tcp_packet \<Rightarrow> fault + tcp_packet" where
  "push_packet_int32 be vl = packet_append (snd (hton32 be vl))"

definition push_packet_int64 :: "bool \<Rightarrow> u64 \<Rightarrow> tcp_packet \<Rightarrow> fault + tcp_packet" where
  "push_packet_int64 be vl = packet_append (hton64 be vl)"

definition push_packet_str :: "char list \<Rightarrow> int \<Rightarrow> tcp_packet \<Rightarrow> fault + tcp_packet" where
  "push_packet_str vl len p =
     rbind (c_assert (0 < len \<and> pk_off p + len \<le> int PACKET_BY_BODY_SIZE)) (\<lambda>_.
     rbind (copy_out 0 (nat len) vl) (\<lambda>src.
     rbind (copy_in (pk_off p) src (pk_buf p)) (\<lambda>b.
     Inr (p\<lparr>pk_buf := b, pk_off := pk_off p + len\<rparr>))))"

text \<open>
  The header: the length less its own two bytes, the two letters of the name, the
  versions, the command and the code. \<open>hton16\<close> leaves the converted command in the field.
\<close>

definition push_packet_end :: "bool \<Rightarrow> tcp_packet \<Rightarrow> fault + tcp_packet" where
  "push_packet_end be p =
     (let (cmd', cmd_bytes) = hton16 be (pk_cmd p) in
      rbind (copy_in 0 (mem_image be 2 (htons be (word_of_int (pk_off p - 2)))) (pk_buf p)) (\<lambda>b.
      rbind (copy_in 2 (take 2 (pk_name p)) b) (\<lambda>b.
      rbind (copy_in 4 [char_of_byte (pk_cversion p)] b) (\<lambda>b.
      rbind (copy_in 5 [char_of_byte (pk_csubversion p)] b) (\<lambda>b.
      rbind (copy_in 6 cmd_bytes b) (\<lambda>b.
      rbind (copy_in 8 [char_of_byte (pk_code p)] b) (\<lambda>b.
      Inr (p\<lparr>pk_buf := b, pk_cmd := cmd'\<rparr>))))))))"

section \<open>net\_packet\<close>

definition HEADER_LENGTH :: int where "HEADER_LENGTH = 26"
definition BODY_LENGTH :: nat where "BODY_LENGTH = 10240"

record net_packet =
  np_length :: int
  np_security :: u8
  np_remoteType :: u8
  np_remoteID :: u16
  np_localType :: u8
  np_messageID :: u32
  np_messageType :: u8
  np_reqID :: u32
  np_sendTime :: u64
  np_off :: int
  np_buf :: "char list"

definition create_net_packet :: "(nat \<Rightarrow> char) \<Rightarrow> int \<Rightarrow> u32 \<Rightarrow> u8 \<Rightarrow> net_packet" where
  "create_net_packet old oldlen messageID messageType =
     \<lparr>np_length = oldlen, np_security = 0, np_remoteType = 1, np_remoteID = 1, np_localType = 0,
      np_messageID = messageID, np_messageType = messageType, np_reqID = 0, np_sendTime = 0,
      np_off = HEADER_LENGTH, np_buf = junk old (BODY_LENGTH + 1)\<rparr>"

definition net_append :: "char list \<Rightarrow> net_packet \<Rightarrow> fault + net_packet" where
  "net_append bs p =
     rbind (c_assert (usize (np_off p + int (length bs)) \<le> int BODY_LENGTH)) (\<lambda>_.
     rbind (copy_in (np_off p) bs (np_buf p)) (\<lambda>b.
     Inr (p\<lparr>np_buf := b, np_off := np_off p + int (length bs)\<rparr>)))"

definition push_net_packet_int8 :: "u8 \<Rightarrow> net_packet \<Rightarrow> fault + net_packet" where
  "push_net_packet_int8 vl = net_append [char_of_byte vl]"

definition push_net_packet_int16 :: "bool \<Rightarrow> u16 \<Rightarrow> net_packet \<Rightarrow> fault + net_packet" where
  "push_net_packet_int16 be vl = net_append (snd (hton16 be vl))"

definition push_net_packet_int32 :: "bool \<Rightarrow> u32 \<Rightarrow> net_packet \<Rightarrow> fault + net_packet" where
  "push_net_packet_int32 be vl = net_append (snd (hton32 be vl))"

definition push_net_packet_int64 :: "bool \<Rightarrow> u64 \<Rightarrow> net_packet \<Rightarrow> fault + net_packet" where
  "push_net_packet_int64 be vl = net_append (hton64 be vl)"

definition push_net_packet_str :: "char list \<Rightarrow> int \<Rightarrow> net_packet \<Rightarrow> fault + net_packet" where
  "push_net_packet_str vl len p =
     rbind (c_assert (0 < len \<and> np_off p + len \<le> int BODY_LENGTH)) (\<lambda>_.
     rbind (copy_out 0 (nat len) vl) (\<lambda>src.
     rbind (copy_in (np_off p) src (np_buf p)) (\<lambda>b.
     Inr (p\<lparr>np_buf := b, np_off := np_off p + len\<rparr>))))"

text \<open>
  \<open>hton32\<close> on the 64 bit \<open>sendTime\<close> converts its low half, stores the result back and
  copies the first four bytes of the image of the 64 bit field.
\<close>

definition push_net_packet_end :: "bool \<Rightarrow> net_packet \<Rightarrow> fault + net_packet" where
  "push_net_packet_end be p =
     (let len = np_off p - HEADER_LENGTH;
          len_bytes = snd (hton32 be (word_of_int len));
          (rid, rid_bytes) = hton16 be (np_remoteID p);
          (mid, mid_bytes) = hton32 be (np_messageID p);
          (req, req_bytes) = hton32 be (np_reqID p);
          st = (ucast (htonl be (ucast (np_sendTime p))) :: u64);
          st_bytes = take 4 (mem_image be 8 st)
      in
      rbind (copy_in 0 len_bytes (np_buf p)) (\<lambda>b.
      rbind (copy_in 4 [char_of_byte (np_security p)] b) (\<lambda>b.
      rbind (copy_in 5 [char_of_byte (np_remoteType p)] b) (\<lambda>b.
      rbind (copy_in 6 rid_bytes b) (\<lambda>b.
      rbind (copy_in 8 [char_of_byte (np_localType p)] b) (\<lambda>b.
      rbind (copy_in 9 mid_bytes b) (\<lambda>b.
      rbind (copy_in 13 [char_of_byte (np_messageType p)] b) (\<lambda>b.
      rbind (copy_in 14 req_bytes b) (\<lambda>b.
      rbind (copy_in 18 st_bytes b) (\<lambda>b.
      Inr (p\<lparr>np_buf := b, np_length := len, np_remoteID := rid, np_messageID := mid,
        np_reqID := req, np_sendTime := st\<rparr>)))))))))))"

section \<open>Both builders are byte sinks\<close>

fun push_packet :: "bool \<Rightarrow> wire \<Rightarrow> tcp_packet \<Rightarrow> fault + tcp_packet" where
  "push_packet be (W8 v) = push_packet_int8 v"
| "push_packet be (W16 v) = push_packet_int16 be v"
| "push_packet be (W32 v) = push_packet_int32 be v"
| "push_packet be (W64 v) = push_packet_int64 be v"
| "push_packet be (WStr v) = push_packet_str v (int (length v))"

fun push_net_packet :: "bool \<Rightarrow> wire \<Rightarrow> net_packet \<Rightarrow> fault + net_packet" where
  "push_net_packet be (W8 v) = push_net_packet_int8 v"
| "push_net_packet be (W16 v) = push_net_packet_int16 be v"
| "push_net_packet be (W32 v) = push_net_packet_int32 be v"
| "push_net_packet be (W64 v) = push_net_packet_int64 be v"
| "push_net_packet be (WStr v) = push_net_packet_str v (int (length v))"

lemmas push_packet_defs =
  push_packet_int8_def push_packet_int16_def push_packet_int32_def push_packet_int64_def
  push_packet_str_def packet_append_def

lemmas push_net_packet_defs =
  push_net_packet_int8_def push_net_packet_int16_def push_net_packet_int32_def
  push_net_packet_int64_def push_net_packet_str_def net_append_def

definition packet_upd :: "int \<Rightarrow> char list \<Rightarrow> tcp_packet \<Rightarrow> tcp_packet" where
  "packet_upd i m p = p\<lparr>pk_off := i, pk_buf := m\<rparr>"

definition net_upd :: "int \<Rightarrow> char list \<Rightarrow> net_packet \<Rightarrow> net_packet" where
  "net_upd i m p = p\<lparr>np_off := i, np_buf := m\<rparr>"

interpretation packet: byte_sink pk_off "\<lambda>_. int PACKET_BY_BODY_SIZE" pk_buf packet_upd "push_packet be"
proof
  fix w and s :: tcp_packet
  assume "wire_ok w" "0 \<le> pk_off s"
    "pk_off s + int (length (wire_bytes w)) \<le> int PACKET_BY_BODY_SIZE"
    "int PACKET_BY_BODY_SIZE < 2 ^ 31" "int PACKET_BY_BODY_SIZE \<le> int (length (pk_buf s))"
  then show "push_packet be w s =
      Inr (packet_upd (pk_off s + int (length (wire_bytes w)))
        (put (nat (pk_off s)) (wire_bytes w) (pk_buf s)) s)"
    by (cases w) (auto simp: push_packet_defs packet_upd_def blk_def)
qed (simp_all add: packet_upd_def)

interpretation net: byte_sink np_off "\<lambda>_. int BODY_LENGTH" np_buf net_upd "push_net_packet be"
proof
  fix w and s :: net_packet
  assume "wire_ok w" "0 \<le> np_off s"
    "np_off s + int (length (wire_bytes w)) \<le> int BODY_LENGTH"
    "int BODY_LENGTH < 2 ^ 31" "int BODY_LENGTH \<le> int (length (np_buf s))"
  then show "push_net_packet be w s =
      Inr (net_upd (np_off s + int (length (wire_bytes w)))
        (put (nat (np_off s)) (wire_bytes w) (np_buf s)) s)"
    by (cases w) (auto simp: push_net_packet_defs net_upd_def blk_def)
qed (simp_all add: net_upd_def)

section \<open>The frames they build\<close>

lemma put_adjacent:
  "i + length a = j \<Longrightarrow> j + length b \<le> length m \<Longrightarrow> put j b (put i a m) = put i (a @ b) m"
  using put_put_append [of i a b m] by auto

lemma take_frame:
  assumes "length h \<le> k" "k + length xs \<le> length m"
  shows "take (k + length xs) (put 0 h (put k xs m)) = h @ blk (length h) (k - length h) m @ xs"
  using assms by (cases xs) (auto simp: put_def blk_def min_def take_drop)

definition net_header :: "nat \<Rightarrow> u32 \<Rightarrow> u8 \<Rightarrow> char list" where
  "net_header n mid mt =
     net_bytes 4 (word_of_nat n :: u32) @ [char_of_byte 0] @ [char_of_byte 1] @ net_bytes 2 (1 :: u16) @
     [char_of_byte 0] @ net_bytes 4 mid @ [char_of_byte mt] @ replicate 8 NUL"

lemma length_net_header [simp]: "length (net_header n mid mt) = 22"
  by (simp add: net_header_def)

lemma push_net_packet_end_fresh:
  assumes "np_off p = 26 + int n" "length (np_buf p) = 10241"
    and "np_security p = 0" "np_remoteType p = 1" "np_remoteID p = 1" "np_localType p = 0"
    and "np_messageID p = mid" "np_messageType p = mt" "np_reqID p = 0" "np_sendTime p = 0"
  shows "\<exists>p'. push_net_packet_end be p = Inr p' \<and> np_off p' = np_off p \<and>
    np_length p' = int n \<and> np_buf p' = put 0 (net_header n mid mt) (np_buf p)"
proof -
  have z: "htonl be 0 = 0"
    by (simp add: htonl_def swap_bytes_def)
  have st: "take 4 (mem_image be 8 (0 :: u64)) = replicate 4 NUL"
    by (simp add: mem_image_def)
  have r8: "replicate 8 NUL = net_bytes 4 (0 :: u32) @ replicate 4 NUL"
    by (simp add: net_bytes_def flip: replicate_add)
  show ?thesis
    using assms
    by (simp add: push_net_packet_end_def HEADER_LENGTH_def Let_def split_def z st put_adjacent
        net_header_def r8)
qed

definition build_net_packet ::
  "bool \<Rightarrow> (nat \<Rightarrow> char) \<Rightarrow> int \<Rightarrow> u32 \<Rightarrow> u8 \<Rightarrow> wire list \<Rightarrow> fault + net_packet" where
  "build_net_packet be old ol mid mt ws =
     rbind (emit_all (push_net_packet be) ws (create_net_packet old ol mid mt)) (push_net_packet_end be)"

definition build_packet :: "bool \<Rightarrow> (nat \<Rightarrow> char) \<Rightarrow> u16 \<Rightarrow> wire list \<Rightarrow> fault + tcp_packet" where
  "build_packet be old cmd ws =
     rbind (emit_all (push_packet be) ws (create_packet old cmd)) (push_packet_end be)"

lemma emit_net_ok:
  assumes "\<forall>w \<in> set ws. wire_ok w" "26 + length (wires_bytes ws) \<le> 10240"
  shows "emit_all (push_net_packet be) ws (create_net_packet old ol mid mt) =
    Inr (net_upd (26 + int (length (wires_bytes ws)))
      (put 26 (wires_bytes ws) (junk old 10241)) (create_net_packet old ol mid mt))"
  using assms net.emit_all_ok [of ws "create_net_packet old ol mid mt" be]
  by (simp add: create_net_packet_def HEADER_LENGTH_def BODY_LENGTH_def)

text \<open>
  A \<open>net_packet\<close> filled with any values that fit and closed by \<open>push_net_packet_end\<close>
  starts with the 22 bytes of the header in network order, then the four header bytes
  the code never writes (what the memory held before), then the values in network order,
  on a host of either byte order; its length field counts the values alone.
\<close>

theorem net_packet_frame:
  assumes "\<forall>w \<in> set ws. wire_ok w" "26 + length (wires_bytes ws) \<le> 10240"
  shows "\<exists>p. build_net_packet be old ol mid mt ws = Inr p \<and>
    np_off p = 26 + int (length (wires_bytes ws)) \<and>
    np_length p = int (length (wires_bytes ws)) \<and>
    take (nat (np_off p)) (np_buf p) =
      net_header (length (wires_bytes ws)) mid mt @ map old [22..<26] @ wires_bytes ws"
proof -
  let ?n = "length (wires_bytes ws)"
  let ?q = "net_upd (26 + int ?n) (put 26 (wires_bytes ws) (junk old 10241))
    (create_net_packet old ol mid mt)"
  obtain p where p: "push_net_packet_end be ?q = Inr p" "np_off p = np_off ?q"
    "np_length p = int ?n" "np_buf p = put 0 (net_header ?n mid mt) (np_buf ?q)"
    using push_net_packet_end_fresh [of ?q ?n mid mt be] assms
    by (auto simp: net_upd_def create_net_packet_def)
  have "nat (26 + int ?n) = 26 + ?n" by simp
  then have "take (nat (np_off p)) (np_buf p) =
      net_header ?n mid mt @ blk 22 4 (junk old 10241) @ wires_bytes ws"
    using p assms take_frame [of "net_header ?n mid mt" 26 "wires_bytes ws" "junk old 10241"]
    by (simp add: net_upd_def)
  moreover have "blk 22 4 (junk old 10241) = map old [22..<26]"
    by (simp add: blk_junk)
  ultimately show ?thesis
    using p emit_net_ok [OF assms] by (simp add: build_net_packet_def net_upd_def)
qed

theorem net_packet_frame_witness:
  "\<exists>p. build_net_packet False (\<lambda>_. CHR ''x'') 0 1000 2 [W64 7, W32 3, WStr ''bob''] = Inr p \<and>
    take (nat (np_off p)) (np_buf p) =
      net_header 15 1000 2 @ ''xxxx'' @ net_bytes 8 (7 :: u64) @ net_bytes 4 (3 :: u32) @ ''bob''"
  using net_packet_frame [of "[W64 7, W32 3, WStr ''bob'']" False "\<lambda>_. CHR ''x''" 0 1000 2]
  by (auto simp: upt_rec)

lemma push_packet_end_fresh:
  assumes "pk_off p = 9 + int n" "length (pk_buf p) = 10241"
    and "pk_cversion p = 1" "pk_csubversion p = 1" "pk_code p = 0" "pk_name p = ''BY'' @ [NUL]"
  shows "\<exists>p'. push_packet_end be p = Inr p' \<and> pk_off p' = pk_off p \<and>
    pk_buf p' = put 0 (net_bytes 2 (word_of_nat (n + 7) :: u16) @ ''BY'' @ [CHR 0x01, CHR 0x01] @
      net_bytes 2 (pk_cmd p) @ [NUL]) (pk_buf p)"
proof -
  have one: "char_of_byte 1 = CHR 0x01"
    by (simp add: char_of_byte_def char_of_def bit_Suc_0_iff)
  have len: "(word_of_int (pk_off p - 2) :: u16) = word_of_nat (n + 7)"
  proof -
    have "pk_off p - 2 = int (n + 7)" using assms(1) by simp
    then show ?thesis by (simp only: of_int_of_nat_eq)
  qed
  have im: "mem_image be 2 (htons be v) = net_bytes 2 v" for v
    using snd_hton16 [of be v] by (simp add: hton16_def Let_def)
  show ?thesis
    using assms
    by (simp add: push_packet_end_def Let_def split_def len im put_adjacent one add.commute)
qed

text \<open>
  A \<open>tcp_packet\<close> filled with any values that fit and closed by \<open>push_packet_end\<close> is the
  9 byte header (the length less two, the letters \<open>BY\<close>, the two versions, the command, the
  code) followed by the values in network order, on a host of either byte order.
\<close>

theorem packet_frame:
  assumes "\<forall>w \<in> set ws. wire_ok w" "9 + length (wires_bytes ws) \<le> 10240"
  shows "\<exists>p. build_packet be old cmd ws = Inr p \<and>
    take (nat (pk_off p)) (pk_buf p) =
      net_bytes 2 (word_of_nat (length (wires_bytes ws) + 7) :: u16) @ ''BY'' @
      [CHR 0x01, CHR 0x01] @ net_bytes 2 cmd @ [NUL] @ wires_bytes ws"
proof -
  let ?n = "length (wires_bytes ws)"
  let ?c = "create_packet old cmd"
  let ?q = "packet_upd (9 + int ?n) (put 9 (wires_bytes ws) (junk old 10241)) ?c"
  have q: "emit_all (push_packet be) ws ?c = Inr ?q"
    using assms packet.emit_all_ok [of ws ?c be]
    by (simp add: create_packet_def PACKET_BY_HEADER_SIZE_def PACKET_BY_BODY_SIZE_def)
  let ?h = "net_bytes 2 (word_of_nat (?n + 7) :: u16) @ ''BY'' @ [CHR 0x01, CHR 0x01] @
      net_bytes 2 cmd @ [NUL]"
  obtain p where p: "push_packet_end be ?q = Inr p" "pk_off p = 9 + int ?n"
    "pk_buf p = put 0 ?h (put 9 (wires_bytes ws) (junk old 10241))"
    using push_packet_end_fresh [of ?q ?n be] assms
    by (auto simp: packet_upd_def create_packet_def)
  have "take (nat (pk_off p)) (pk_buf p) = ?h @ wires_bytes ws"
    using p assms take_frame [of ?h 9 "wires_bytes ws" "junk old 10241"]
    by (simp add: nat_add_distrib)
  with p q show ?thesis by (simp add: build_packet_def)
qed

theorem packet_frame_witness:
  "\<exists>p. build_packet True (\<lambda>_. CHR ''x'') 1000 [W32 3305] = Inr p \<and>
    take (nat (pk_off p)) (pk_buf p) =
      net_bytes 2 (11 :: u16) @ ''BY'' @ [CHR 0x01, CHR 0x01] @ net_bytes 2 (1000 :: u16) @ [NUL] @
      net_bytes 4 (3305 :: u32)"
  using packet_frame [of "[W32 3305]" True "\<lambda>_. CHR ''x''" 1000] by simp

end
