(* ===== verification/TcpStream.thy ===== *)
theory TcpStream
  imports ByteSink
begin

text \<open>
  \<open>antlib/protocollib/tcp_stream.h\<close>: the message body with its cursor, the functions that
  push and pop integers and strings, and \<open>create_tcpstream\<close>. The assertions compare
  \<open>_off + sizeof(..)\<close> and \<open>_len\<close> as \<open>size_t\<close> where the code does, as \<open>int\<close> for strings.
\<close>

section \<open>State\<close>

text \<open>
  The value table of a message: \<open>void* _vl[n]\<close> holds null, the address of a string in the
  body (an offset here) or an integer cast to a pointer.
\<close>

datatype fieldval = VNull | VStr nat | VInt u64

record 'tb tcp_stream =
  st_tb :: 'tb
  st_vl :: "fieldval list"
  st_netid :: u64
  st_ip :: u32
  st_off :: int
  st_len :: int
  st_head :: "char list"
  st_buf :: "char list"

text \<open>\<open>handler_msg\<close> with such a body as its data.\<close>

record 'd handler_msg =
  hm_userid :: u64
  hm_msgid :: int
  hm_datalen :: int
  hm_data :: 'd

definition MSG_KEEPHEAD_SIZE :: nat where "MSG_KEEPHEAD_SIZE = 16"
definition MSG_NORMAL_SIZE :: int where "MSG_NORMAL_SIZE = 8142"

text \<open>
  \<open>sizeof(tcp_stream)\<close> and the offset of \<open>_buf\<close> in it on a 64 bit host: two pointers, a
  64 bit id, three 32 bit numbers, the 16 byte head, one byte of body, padded to 56.
\<close>

definition SIZEOF_TCP_STREAM :: int where "SIZEOF_TCP_STREAM = 56"
definition OFFSET_BUF :: int where "OFFSET_BUF = 52"

text \<open>
  The block has \<open>size\<close> bytes; a size that is not positive gives a message without data,
  and writing the header of the stream through that null pointer faults; so does a block
  too short for the header. The body may be written up to the value table, which lies
  \<open>sizeof(tcp_stream) + msglen\<close> into the block. \<open>old\<close> is what the block held before.
\<close>

definition create_tcpstream ::
  "(nat \<Rightarrow> char) \<Rightarrow> u64 \<Rightarrow> int \<Rightarrow> int \<Rightarrow> 'tb \<Rightarrow> nat \<Rightarrow> u64 \<Rightarrow> u32 \<Rightarrow> fault + 'tb tcp_stream handler_msg" where
  "create_tcpstream old userid msgid msglen tb vlnum netid ip =
     (let size =
        (if MSG_NORMAL_SIZE - SIZEOF_TCP_STREAM < usize (msglen + 8 * int vlnum)
         then SIZEOF_TCP_STREAM + msglen + 8 * int vlnum
         else MSG_NORMAL_SIZE)
      in if size \<le> 0 then Inl NullDeref
         else if size < OFFSET_BUF - int MSG_KEEPHEAD_SIZE then Inl OutOfBounds
         else Inr \<lparr>hm_userid = userid, hm_msgid = msgid, hm_datalen = size,
           hm_data = \<lparr>st_tb = tb, st_vl = replicate vlnum VNull, st_netid = netid, st_ip = ip,
             st_off = 0, st_len = msglen,
             st_head = junk old MSG_KEEPHEAD_SIZE,
             st_buf = junk (\<lambda>i. old (MSG_KEEPHEAD_SIZE + i))
               (nat (min (size - OFFSET_BUF) (msglen + (SIZEOF_TCP_STREAM - OFFSET_BUF))))\<rparr>\<rparr>)"

definition reset_tcpstream :: "int \<Rightarrow> 'tb tcp_stream \<Rightarrow> 'tb tcp_stream" where
  "reset_tcpstream len s = s\<lparr>st_off := 0, st_len := len\<rparr>"

definition push_tcpstream_end :: "'tb tcp_stream \<Rightarrow> 'tb tcp_stream" where
  "push_tcpstream_end s = s\<lparr>st_len := st_off s, st_off := 0\<rparr>"

section \<open>Pushing and popping\<close>

text \<open>The guard \<open>ASSERT(stream->_off + sizeof(T) <= stream->_len)\<close>, computed in \<open>size_t\<close>.\<close>

definition fits :: "nat \<Rightarrow> 'tb tcp_stream \<Rightarrow> bool" where
  "fits n s \<longleftrightarrow> usize (st_off s + int n) \<le> usize (st_len s)"

definition push_tcpstream_int64 :: "bool \<Rightarrow> u64 \<Rightarrow> 'tb tcp_stream \<Rightarrow> fault + 'tb tcp_stream" where
  "push_tcpstream_int64 be vl s =
     rbind (c_assert (fits 8 s)) (\<lambda>_.
     rbind (copy_in (st_off s) (hton64 be vl) (st_buf s)) (\<lambda>b.
     Inr (s\<lparr>st_buf := b, st_off := st_off s + 8\<rparr>)))"

definition pop_tcpstream_int64 :: "bool \<Rightarrow> 'tb tcp_stream \<Rightarrow> fault + u64 \<times> 'tb tcp_stream" where
  "pop_tcpstream_int64 be s =
     rbind (c_assert (fits 8 s)) (\<lambda>_.
     rbind (copy_out (st_off s) 8 (st_buf s)) (\<lambda>b.
     Inr (ntoh64 be b, s\<lparr>st_off := st_off s + 8\<rparr>)))"

definition push_tcpstream_int32 :: "bool \<Rightarrow> u32 \<Rightarrow> 'tb tcp_stream \<Rightarrow> fault + 'tb tcp_stream" where
  "push_tcpstream_int32 be vl s =
     rbind (c_assert (fits 4 s)) (\<lambda>_.
     rbind (copy_in (st_off s) (snd (hton32 be vl)) (st_buf s)) (\<lambda>b.
     Inr (s\<lparr>st_buf := b, st_off := st_off s + 4\<rparr>)))"

definition pop_tcpstream_int32 :: "bool \<Rightarrow> 'tb tcp_stream \<Rightarrow> fault + u32 \<times> 'tb tcp_stream" where
  "pop_tcpstream_int32 be s =
     rbind (c_assert (fits 4 s)) (\<lambda>_.
     rbind (copy_out (st_off s) 4 (st_buf s)) (\<lambda>b.
     Inr (ntoh32 be b, s\<lparr>st_off := st_off s + 4\<rparr>)))"

definition push_tcpstream_int16 :: "bool \<Rightarrow> u16 \<Rightarrow> 'tb tcp_stream \<Rightarrow> fault + 'tb tcp_stream" where
  "push_tcpstream_int16 be vl s =
     rbind (c_assert (fits 2 s)) (\<lambda>_.
     rbind (copy_in (st_off s) (snd (hton16 be vl)) (st_buf s)) (\<lambda>b.
     Inr (s\<lparr>st_buf := b, st_off := st_off s + 2\<rparr>)))"

definition pop_tcpstream_int16 :: "bool \<Rightarrow> 'tb tcp_stream \<Rightarrow> fault + u16 \<times> 'tb tcp_stream" where
  "pop_tcpstream_int16 be s =
     rbind (c_assert (fits 2 s)) (\<lambda>_.
     rbind (copy_out (st_off s) 2 (st_buf s)) (\<lambda>b.
     Inr (ntoh16 be b, s\<lparr>st_off := st_off s + 2\<rparr>)))"

definition push_tcpstream_int8 :: "u8 \<Rightarrow> 'tb tcp_stream \<Rightarrow> fault + 'tb tcp_stream" where
  "push_tcpstream_int8 vl s =
     rbind (c_assert (fits 1 s)) (\<lambda>_.
     rbind (copy_in (st_off s) [char_of_byte vl] (st_buf s)) (\<lambda>b.
     Inr (s\<lparr>st_buf := b, st_off := st_off s + 1\<rparr>)))"

definition pop_tcpstream_int8 :: "'tb tcp_stream \<Rightarrow> fault + u8 \<times> 'tb tcp_stream" where
  "pop_tcpstream_int8 s =
     rbind (c_assert (fits 1 s)) (\<lambda>_.
     rbind (copy_out (st_off s) 1 (st_buf s)) (\<lambda>b.
     Inr (byte_of_char (hd b), s\<lparr>st_off := st_off s + 1\<rparr>)))"

definition push_tcpstream_str :: "char list \<Rightarrow> int \<Rightarrow> 'tb tcp_stream \<Rightarrow> fault + 'tb tcp_stream" where
  "push_tcpstream_str vl len s =
     rbind (c_assert (0 < len \<and> st_off s + len \<le> st_len s)) (\<lambda>_.
     rbind (copy_out 0 (nat len) vl) (\<lambda>src.
     rbind (copy_in (st_off s) src (st_buf s)) (\<lambda>b.
     Inr (s\<lparr>st_buf := b, st_off := st_off s + len\<rparr>))))"

text \<open>\<open>buf\<close> is the caller's array.\<close>

definition pop_tcpstream_str :: "char list \<Rightarrow> int \<Rightarrow> 'tb tcp_stream \<Rightarrow> fault + char list \<times> 'tb tcp_stream" where
  "pop_tcpstream_str buf len s =
     rbind (c_assert (0 < len \<and> st_off s + len \<le> st_len s)) (\<lambda>_.
     rbind (copy_out (st_off s) (nat len) (st_buf s)) (\<lambda>src.
     rbind (copy_in 0 src buf) (\<lambda>buf'.
     Inr (buf', s\<lparr>st_off := st_off s + len\<rparr>))))"

definition normal_pop_tcpstream_int32 :: "bool \<Rightarrow> 'tb tcp_stream \<Rightarrow> fault + u32 \<times> 'tb tcp_stream" where
  "normal_pop_tcpstream_int32 be s =
     rbind (c_assert (fits 4 s)) (\<lambda>_.
     rbind (copy_out (st_off s) 4 (st_buf s)) (\<lambda>b.
     Inr (load be b, s\<lparr>st_off := st_off s + 4\<rparr>)))"

definition normal_pop_tcpstream_int16 :: "bool \<Rightarrow> 'tb tcp_stream \<Rightarrow> fault + u16 \<times> 'tb tcp_stream" where
  "normal_pop_tcpstream_int16 be s =
     rbind (c_assert (fits 2 s)) (\<lambda>_.
     rbind (copy_out (st_off s) 2 (st_buf s)) (\<lambda>b.
     Inr (load be b, s\<lparr>st_off := st_off s + 2\<rparr>)))"

lemmas push_defs =
  push_tcpstream_int64_def push_tcpstream_int32_def push_tcpstream_int16_def
  push_tcpstream_int8_def push_tcpstream_str_def

lemmas pop_defs =
  pop_tcpstream_int64_def pop_tcpstream_int32_def pop_tcpstream_int16_def
  pop_tcpstream_int8_def pop_tcpstream_str_def

section \<open>The stream is a byte sink\<close>

fun push_wire :: "bool \<Rightarrow> wire \<Rightarrow> 'tb tcp_stream \<Rightarrow> fault + 'tb tcp_stream" where
  "push_wire be (W8 v) = push_tcpstream_int8 v"
| "push_wire be (W16 v) = push_tcpstream_int16 be v"
| "push_wire be (W32 v) = push_tcpstream_int32 be v"
| "push_wire be (W64 v) = push_tcpstream_int64 be v"
| "push_wire be (WStr v) = push_tcpstream_str v (int (length v))"

definition stream_upd :: "int \<Rightarrow> char list \<Rightarrow> 'tb tcp_stream \<Rightarrow> 'tb tcp_stream" where
  "stream_upd i m s = s\<lparr>st_off := i, st_buf := m\<rparr>"

interpretation stream: byte_sink st_off st_len st_buf stream_upd "push_wire be"
proof
  fix w :: wire and s :: "'a tcp_stream"
  assume "wire_ok w" "0 \<le> st_off s"
    "st_off s + int (length (wire_bytes w)) \<le> st_len s"
    "st_len s < 2 ^ 31" "st_len s \<le> int (length (st_buf s))"
  then show "push_wire be w s =
      Inr (stream_upd (st_off s + int (length (wire_bytes w)))
        (put (nat (st_off s)) (wire_bytes w) (st_buf s)) s)"
    by (cases w) (auto simp: push_defs fits_def stream_upd_def blk_def)
qed (simp_all add: stream_upd_def)

section \<open>Reading back\<close>

text \<open>The shape of a value: what a reader must know to pop it.\<close>

datatype wtype = T8 | T16 | T32 | T64 | TStr nat

fun wire_type :: "wire \<Rightarrow> wtype" where
  "wire_type (W8 v) = T8"
| "wire_type (W16 v) = T16"
| "wire_type (W32 v) = T32"
| "wire_type (W64 v) = T64"
| "wire_type (WStr s) = TStr (length s)"

fun pop_wire :: "bool \<Rightarrow> wtype \<Rightarrow> 'tb tcp_stream \<Rightarrow> fault + wire \<times> 'tb tcp_stream" where
  "pop_wire be T8 s = rbind (pop_tcpstream_int8 s) (\<lambda>(v, s). Inr (W8 v, s))"
| "pop_wire be T16 s = rbind (pop_tcpstream_int16 be s) (\<lambda>(v, s). Inr (W16 v, s))"
| "pop_wire be T32 s = rbind (pop_tcpstream_int32 be s) (\<lambda>(v, s). Inr (W32 v, s))"
| "pop_wire be T64 s = rbind (pop_tcpstream_int64 be s) (\<lambda>(v, s). Inr (W64 v, s))"
| "pop_wire be (TStr n) s =
     rbind (pop_tcpstream_str (replicate n NUL) (int n) s) (\<lambda>(v, s). Inr (WStr v, s))"

fun pop_all :: "bool \<Rightarrow> wtype list \<Rightarrow> 'tb tcp_stream \<Rightarrow> fault + wire list \<times> 'tb tcp_stream" where
  "pop_all be [] s = Inr ([], s)"
| "pop_all be (t # ts) s =
     rbind (pop_wire be t s) (\<lambda>(w, s).
     rbind (pop_all be ts s) (\<lambda>(ws, s). Inr (w # ws, s)))"

lemma pop_wire_ok:
  assumes "wire_ok w" "0 \<le> st_off s"
    and "st_off s + int (length (wire_bytes w)) \<le> st_len s"
    and "st_len s < 2 ^ 31" "st_len s \<le> int (length (st_buf s))"
    and "blk (nat (st_off s)) (length (wire_bytes w)) (st_buf s) = wire_bytes w"
  shows "pop_wire be (wire_type w) s =
    Inr (w, s\<lparr>st_off := st_off s + int (length (wire_bytes w))\<rparr>)"
proof (cases w)
  case (WStr v)
  with assms show ?thesis by (simp add: pop_defs fits_def put_def)
qed (use assms in \<open>auto simp: pop_defs fits_def ntoh16_net ntoh32_net ntoh64_net\<close>)

lemma pop_all_ok:
  assumes "\<forall>w \<in> set ws. wire_ok w" "0 \<le> st_off s"
    and "st_off s + int (length (wires_bytes ws)) \<le> st_len s"
    and "st_len s < 2 ^ 31" "st_len s \<le> int (length (st_buf s))"
    and "blk (nat (st_off s)) (length (wires_bytes ws)) (st_buf s) = wires_bytes ws"
  shows "pop_all be (map wire_type ws) s =
    Inr (ws, s\<lparr>st_off := st_off s + int (length (wires_bytes ws))\<rparr>)"
  using assms
proof (induction ws arbitrary: s)
  case Nil
  then show ?case by simp
next
  case (Cons w ws)
  let ?n = "length (wire_bytes w)"
  let ?s' = "s\<lparr>st_off := st_off s + int ?n\<rparr>"
  have nat_off: "nat (st_off s + int ?n) = nat (st_off s) + ?n"
    using Cons.prems(2) by (simp add: nat_add_distrib)
  have split: "blk (nat (st_off s)) ?n (st_buf s) = wire_bytes w"
    "blk (nat (st_off s) + ?n) (length (wires_bytes ws)) (st_buf s) = wires_bytes ws"
    using Cons.prems by (simp_all add: blk_append_split append_eq_append_conv)
  have "pop_wire be (wire_type w) s = Inr (w, ?s')"
    using Cons.prems split by (intro pop_wire_ok) auto
  moreover have "pop_all be (map wire_type ws) ?s' =
      Inr (ws, ?s'\<lparr>st_off := st_off ?s' + int (length (wires_bytes ws))\<rparr>)"
    using Cons.prems split by (intro Cons.IH) (auto simp: nat_off)
  ultimately show ?case by (simp add: add.assoc)
qed

text \<open>
  C34. What a host of either byte order pushes into a fresh stream, a host of either byte
  order pops unchanged, for every sequence of integers and non-empty strings that fits:
  pushing succeeds, and after \<open>push_tcpstream_end\<close> popping the same types gives the same
  values and ends exactly at the end of the stream.
\<close>

theorem stream_roundtrip:
  assumes "\<forall>w \<in> set ws. wire_ok w"
    and "st_off s = 0" "int (length (wires_bytes ws)) \<le> st_len s"
    and "st_len s < 2 ^ 31" "st_len s \<le> int (length (st_buf s))"
  shows "\<exists>s1 s2. emit_all (push_wire be) ws s = Inr s1 \<and>
    pop_all be' (map wire_type ws) (push_tcpstream_end s1) = Inr (ws, s2) \<and>
    st_off s2 = st_len (push_tcpstream_end s1)"
proof -
  let ?n = "length (wires_bytes ws)"
  let ?s1 = "stream_upd (int ?n) (put 0 (wires_bytes ws) (st_buf s)) s"
  let ?e = "push_tcpstream_end ?s1"
  have "emit_all (push_wire be) ws s = Inr ?s1"
    using stream.emit_all_ok [of ws s be] assms by simp
  moreover have "pop_all be' (map wire_type ws) ?e =
      Inr (ws, ?e\<lparr>st_off := st_off ?e + int ?n\<rparr>)"
    using assms blk_put_same [of 0 "wires_bytes ws" "st_buf s"]
    by (intro pop_all_ok) (auto simp: push_tcpstream_end_def stream_upd_def)
  moreover have "st_off (?e\<lparr>st_off := st_off ?e + int ?n\<rparr>) = st_len ?e"
    by (simp add: push_tcpstream_end_def stream_upd_def)
  ultimately show ?thesis by blast
qed

definition sample_stream :: "unit tcp_stream" where
  "sample_stream = \<lparr>st_tb = (), st_vl = [], st_netid = 1, st_ip = 2, st_off = 0, st_len = 16,
     st_head = replicate 16 NUL, st_buf = replicate 20 NUL\<rparr>"

theorem stream_roundtrip_witness:
  "\<exists>s1 s2. emit_all (push_wire True) [W16 513, WStr ''ok'', W64 99] sample_stream = Inr s1 \<and>
    pop_all False [T16, TStr 2, T64] (push_tcpstream_end s1) = Inr ([W16 513, WStr ''ok'', W64 99], s2) \<and>
    st_off s2 = st_len (push_tcpstream_end s1)"
proof -
  let ?ws = "[W16 513, WStr ''ok'', W64 99]"
  have t: "map wire_type ?ws = [T16, TStr 2, T64]" by simp
  have "\<forall>w \<in> set ?ws. wire_ok w" "st_off sample_stream = 0"
    "int (length (wires_bytes ?ws)) \<le> st_len sample_stream" "st_len sample_stream < 2 ^ 31"
    "st_len sample_stream \<le> int (length (st_buf sample_stream))"
    by (simp_all add: sample_stream_def)
  from stream_roundtrip [OF this, of True False] show ?thesis by (simp only: t)
qed

text \<open>
  The guards of the stream are complete for the integers and strings it is used with:
  with a cursor and a length that are not negative, a value that does not fit between the
  cursor and \<open>_len\<close> aborts in its assertion and never reaches the buffer.
\<close>

theorem stream_push_overflow:
  assumes "0 \<le> st_off s" "st_off s < 2 ^ 31" "0 \<le> st_len s" "st_len s < 2 ^ 31"
    and "length (wire_bytes w) < 2 ^ 31"
    and "st_len s < st_off s + int (length (wire_bytes w))"
  shows "push_wire be w s = Inl AssertFail"
  using assms by (cases w) (auto simp: push_defs fits_def)

theorem stream_push_overflow_witness:
  "push_wire False (W64 1) (sample_stream\<lparr>st_off := 9\<rparr>) = Inl AssertFail"
  using stream_push_overflow [of "sample_stream\<lparr>st_off := 9\<rparr>" "W64 1" False]
  by (simp add: sample_stream_def)

end
