(* ===== verification/Http.thy ===== *)
theory Http
  imports Prelude
begin

text \<open>
  \<open>antlib/protocollib/http_protocol.c\<close> and \<open>http_protocol.h\<close>: character classes, escaping,
  and the parsing and printing of HTTP messages in place. A buffer is a list of characters,
  a pointer into it an offset; reading or writing outside the buffer is a fault.
\<close>

section \<open>Character classes\<close>

definition http_path_words :: "nat list" where
  "http_path_words = [
    0,  0,  0,  0,  0,  0,  0,  0,  0,  0,  1,  0,  0,  1,  0,  0,
    0,  0,  0,  0,  0,  0,  0,  0,  0,  0,  0,  0,  0,  0,  0,  0,
    1,  3,  0,  0,  3,  2,  3,  0,  3,  3,  3,  3,  3,  3,  3,  4,
   48, 48, 48, 48, 48, 48, 48, 48, 48, 48,  3,  3,  0,  3,  0,  1,
    3, 65, 65, 65, 65, 65, 65, 65, 65, 65, 65, 65, 65, 65, 65, 65,
   65, 65, 65, 65, 65, 65, 65, 65, 65, 65, 65,  3,  3,  3,  3,  4,
    0, 97, 97, 97, 97, 97, 97, 97, 97, 97, 97, 97, 97, 97, 97, 97,
   97, 97, 97, 97, 97, 97, 97, 97, 97, 97, 97,  3,  0,  3,  0,  0] @ replicate 128 0"

text \<open>\<open>init_http_path_words\<close>: the assignments in the order of the code.\<close>

definition init_http_path_words :: "nat list" where
  "init_http_path_words =
     fold (\<lambda>(c, v) w. w[c := v])
       (map (\<lambda>c. (c, 97)) [97..<123] @ map (\<lambda>c. (c, 65)) [65..<91] @ map (\<lambda>c. (c, 48)) [48..<58] @
        map (\<lambda>c. (nat_char c, 4)) ''/_'' @ map (\<lambda>c. (nat_char c, 3)) ''&-+=^*@()[]{}!:,;.$'' @
        [(92, 3), (37, 2), (63, 1), (10, 1), (13, 1), (32, 1)])
       (replicate 256 0)"

definition word_class :: "char \<Rightarrow> nat" where
  "word_class c = http_path_words ! nat_char c"

definition url_ok :: "char \<Rightarrow> bool" where "url_ok c \<longleftrightarrow> word_class c > 0"
definition value_ok :: "char \<Rightarrow> bool" where "value_ok c \<longleftrightarrow> word_class c > 1"
definition path_ok :: "char \<Rightarrow> bool" where "path_ok c \<longleftrightarrow> word_class c > 3"
definition needs_escape :: "char \<Rightarrow> bool" where "needs_escape c \<longleftrightarrow> word_class c < 3"
definition escape_digit :: "char \<Rightarrow> bool" where "escape_digit c \<longleftrightarrow> word_class c > 4"

definition HEX_STR :: string where "HEX_STR = ''0123456789ABCDEF''"

section \<open>Escaping\<close>

text \<open>The value an escape digit stands for: its distance from the first of its class.\<close>

definition digit_value :: "char \<Rightarrow> u8" where
  "digit_value c = byte_of_char c - word_of_nat (word_class c)"

text \<open>
  The loop of \<open>escape2str\<close>; \<open>str\<close> is at \<open>i\<close> throughout. The result \<open>-1\<close> leaves a partly
  written buffer.
\<close>

function escape_loop :: "string \<Rightarrow> nat \<Rightarrow> nat \<Rightarrow> nat \<Rightarrow> nat \<Rightarrow> char list \<Rightarrow> fault + int \<times> char list" where
  "escape_loop str len res_len i j res =
     (if i < len then
        rbind (rd str i) (\<lambda>c.
          if c \<noteq> CHR ''%'' then
            rbind (wr res j c) (escape_loop str len res_len (i + 1) (j + 1))
          else if i + 2 \<ge> len \<or> j \<ge> res_len then Inr (-1, res)
          else rbind (rd str (i + 1)) (\<lambda>h.
            if \<not> escape_digit h then Inr (-1, res)
            else rbind (wr res j (char_of_byte (push_bit 4 (digit_value h)))) (\<lambda>res.
            rbind (rd str (i + 2)) (\<lambda>l.
            if \<not> escape_digit l then Inr (-1, res)
            else rbind (wr res j (char_of_byte (push_bit 4 (digit_value h) OR digit_value l)))
              (escape_loop str len res_len (i + 3) (j + 1))))))
      else if j < res_len then rbind (wr res j NUL) (\<lambda>res. Inr (int j, res))
      else Inr (-1, res))"
  by pat_completeness auto
termination
  by (relation "measure (\<lambda>(str, len, rl, i, j, res). len - i)") auto

declare escape_loop.simps [simp del]

definition escape2str :: "string \<Rightarrow> nat \<Rightarrow> char list \<Rightarrow> nat \<Rightarrow> fault + int \<times> char list" where
  "escape2str str len res res_len = escape_loop str len res_len 0 0 res"

text \<open>
  \<open>str2escape\<close> from offset \<open>s\<close> to offset \<open>d\<close> of one buffer, which may overlap. The percent
  sign and the first hexadecimal digit are written to the same cell.
\<close>

function unescaped_loop :: "nat \<Rightarrow> nat \<Rightarrow> nat \<Rightarrow> nat \<Rightarrow> nat \<Rightarrow> nat \<Rightarrow> char list \<Rightarrow> fault + int \<times> char list" where
  "unescaped_loop s len d res_len i j m =
     (if i < len then
        rbind (rd m (s + i)) (\<lambda>c.
          if needs_escape c then
            if j + 3 \<ge> res_len then Inr (-1, m)
            else rbind (wr m (d + j) (CHR ''%'')) (\<lambda>m.
              rbind (rd m (s + i)) (\<lambda>c.
              rbind (wr m (d + j) (HEX_STR ! (nat_char c div 16))) (\<lambda>m.
              rbind (rd m (s + i)) (\<lambda>c.
              rbind (wr m (d + j + 1) (HEX_STR ! (nat_char c mod 16)))
                (unescaped_loop s len d res_len (i + 1) (j + 2))))))
          else if j + 1 \<ge> res_len then Inr (-1, m)
          else rbind (wr m (d + j) c) (unescaped_loop s len d res_len (i + 1) (j + 1)))
      else if j < res_len then rbind (wr m (d + j) NUL) (\<lambda>m. Inr (int j, m))
      else Inr (-1, m))"
  by pat_completeness auto
termination
  by (relation "measure (\<lambda>(s, len, d, rl, i, j, m). len - i)") auto

declare unescaped_loop.simps [simp del]

definition str2escape :: "char list \<Rightarrow> nat \<Rightarrow> nat \<Rightarrow> nat \<Rightarrow> nat \<Rightarrow> fault + int \<times> char list" where
  "str2escape m s len d res_len = unescaped_loop s len d res_len 0 0 m"

section \<open>The end of a header\<close>

text \<open>
  \<open>parse_http_header_len\<close>: the result and the offset to go on from. \<open>buf\<close> points to offset
  \<open>b\<close> of the connection's buffer.
\<close>

function header_loop :: "char list \<Rightarrow> nat \<Rightarrow> nat \<Rightarrow> nat \<Rightarrow> nat \<Rightarrow> fault + int \<times> nat" where
  "header_loop m b len off i =
     (if i < len then
        rbind (rd m (b + i)) (\<lambda>c.
          if \<not> url_ok c then Inr (-1, off)
          else if c = CHR 0x0A then
            if i < 13 then Inr (-1, off)
            else rbind (rd m (b + i - 2)) (\<lambda>c2.
              if c2 = CHR 0x0A then
                rbind (rd m (b + i - 3)) (\<lambda>c3. rbind (rd m (b + i - 1)) (\<lambda>c1.
                  if c3 \<noteq> CHR 0x0D \<or> c1 \<noteq> CHR 0x0D then Inr (-1, off)
                  else Inr (int (i + 1), i + 1)))
              else header_loop m b len off (i + 1))
          else header_loop m b len off (i + 1))
      else Inr (0, i))"
  by pat_completeness auto
termination
  by (relation "measure (\<lambda>(m, b, len, off, i). len - i)") auto

declare header_loop.simps [simp del]

definition parse_http_header_len :: "char list \<Rightarrow> nat \<Rightarrow> nat \<Rightarrow> nat \<Rightarrow> fault + int \<times> nat" where
  "parse_http_header_len m b len off = header_loop m b len off off"

section \<open>Requests\<close>

text \<open>
  The path of a request, from \<open>i\<close> on: every slash becomes a NUL and moves the second path
  behind it, the character \<open>stop\<close> becomes a NUL and ends the path (a question mark for GET,
  a blank for POST). The result is the index reached, the second path and the buffer.
\<close>

function path_loop ::
  "char \<Rightarrow> char list \<Rightarrow> nat \<Rightarrow> nat \<Rightarrow> nat \<Rightarrow> nat option \<Rightarrow> fault + (nat \<times> nat option \<times> char list) option" where
  "path_loop stop m b len i path2 =
     (if i < len then
        rbind (rd m (b + i)) (\<lambda>c.
          if c = stop then rbind (wr m (b + i) NUL) (\<lambda>m. Inr (Some (i, path2, m)))
          else if c = CHR ''/'' then
            rbind (wr m (b + i) NUL) (\<lambda>m. path_loop stop m b len (i + 1) (Some (b + i + 1)))
          else if \<not> path_ok c then Inr None
          else path_loop stop m b len (i + 1) path2)
      else Inr (Some (i, path2, m)))"
  by pat_completeness auto
termination
  by (relation "measure (\<lambda>(stop, m, b, len, i, p). len - i)") auto

declare path_loop.simps [simp del]

text \<open>The values of a GET request, up to the blank that ends them.\<close>

function values_loop :: "char list \<Rightarrow> nat \<Rightarrow> nat \<Rightarrow> nat \<Rightarrow> fault + (nat \<times> char list) option" where
  "values_loop m b len i =
     (if i < len then
        rbind (rd m (b + i)) (\<lambda>c.
          if c = CHR '' '' then rbind (wr m (b + i) NUL) (\<lambda>m. Inr (Some (i, m)))
          else if \<not> value_ok c then Inr None
          else values_loop m b len (i + 1))
      else Inr (Some (i, m)))"
  by pat_completeness auto
termination
  by (relation "measure (\<lambda>(m, b, len, i). len - i)") auto

declare values_loop.simps [simp del]

record http_get =
  hg_path1 :: nat
  hg_path2 :: "nat option"
  hg_values :: nat

text \<open>
  \<open>parse_http_get\<close>: the length of the escaped values or \<open>-1\<close>; the pointers are set only as far
  as the code got, \<open>None\<close> stands for the failure before the values.
\<close>

definition parse_http_get :: "char list \<Rightarrow> nat \<Rightarrow> nat \<Rightarrow> fault + int \<times> http_get option \<times> char list" where
  "parse_http_get m b len =
     rbind (rd m (b + 3)) (\<lambda>c3. rbind (rd m (b + 4)) (\<lambda>c4.
       if c3 \<noteq> CHR '' '' \<or> c4 \<noteq> CHR ''/'' then Inr (-1, None, m)
       else rbind (path_loop (CHR ''?'') m b len 6 None) (\<lambda>r.
         case r of
           None \<Rightarrow> Inr (-1, None, m)
         | Some (j, path2, m) \<Rightarrow>
             let g = \<lparr>hg_path1 = b + 5, hg_path2 = path2, hg_values = b + j + 1\<rparr>
             in rbind (values_loop m b len (j + 1)) (\<lambda>r.
                case r of
                  None \<Rightarrow> Inr (-1, Some g, m)
                | Some (i, m) \<Rightarrow>
                    rbind (str2escape m (hg_values g) (i - j - 1) (hg_values g) (i - j)) (\<lambda>(n, m).
                    Inr (n, Some g, m))))))"

text \<open>\<open>strncmp(buf + i, s, n) == 0\<close> for a string \<open>s\<close> of \<open>n\<close> characters.\<close>

definition starts_at :: "char list \<Rightarrow> nat \<Rightarrow> string \<Rightarrow> bool" where
  "starts_at m i s = (take (length s) (drop i m) = s)"

text \<open>The text behind an offset, for \<open>atol\<close>.\<close>

definition text_at :: "char list \<Rightarrow> nat \<Rightarrow> string" where
  "text_at m i = cstr (drop i m)"

text \<open>The rest of a POST header: the last \<open>Content-Length\<close> counts, \<open>None\<close> for a negative one.\<close>

function content_loop :: "char list \<Rightarrow> nat \<Rightarrow> nat \<Rightarrow> nat \<Rightarrow> int \<Rightarrow> int option" where
  "content_loop m b len i content_len =
     (if i < len then
        if m ! (b + i) = CHR ''C'' \<and> m ! (b + i - 1) = CHR 0x0A \<and> i + 16 < len \<and>
           starts_at m (b + i) ''Content-Length: ''
        then let n = atol (text_at m (b + i + 16))
             in if n < 0 then None else content_loop m b len (i + 1) n
        else content_loop m b len (i + 1) content_len
      else Some content_len)"
  by pat_completeness auto
termination
  by (relation "measure (\<lambda>(m, b, len, i, n). len - i)") auto

declare content_loop.simps [simp del]

record http_post =
  hp_path1 :: nat
  hp_path2 :: "nat option"
  hp_content_len :: int

definition parse_http_post :: "char list \<Rightarrow> nat \<Rightarrow> nat \<Rightarrow> int \<Rightarrow> fault + (http_post \<times> char list) option" where
  "parse_http_post m b len content_len =
     rbind (rd m (b + 4)) (\<lambda>c4. rbind (rd m (b + 5)) (\<lambda>c5.
       if c4 \<noteq> CHR '' '' \<or> c5 \<noteq> CHR ''/'' then Inr None
       else rbind (path_loop (CHR '' '') m b len 7 None) (\<lambda>r.
         case r of
           None \<Rightarrow> Inr None
         | Some (i, path2, m) \<Rightarrow>
             if b + len \<le> length m then
               Inr (map_option (\<lambda>n. (\<lparr>hp_path1 = b + 6, hp_path2 = path2, hp_content_len = n\<rparr>, m))
                 (content_loop m b len (i + 1) content_len))
             else Inl OutOfBounds)))"

section \<open>Printing\<close>

text \<open>
  \<open>snprintf(buf + off, sz, ...)\<close>: at most \<open>sz - 1\<close> characters and a NUL are written, the
  length of the whole text is returned.
\<close>

definition snprintf :: "char list \<Rightarrow> nat \<Rightarrow> int \<Rightarrow> string \<Rightarrow> fault + int \<times> char list" where
  "snprintf m off sz t =
     (if sz \<le> 0 then Inr (int (length t), m)
      else rbind (copy_in (int off) (take (nat sz - 1) t @ [NUL]) m) (\<lambda>m. Inr (int (length t), m)))"

definition CRLF :: string where "CRLF = [CHR 0x0D, CHR 0x0A]"

text \<open>
  \<open>set_http_get\<close> with the values in their own buffer. The third call prints with \<open>len - m\<close>,
  the length of the escaped values, where \<open>len - n\<close> is left of the buffer.
\<close>

definition set_http_get :: "char list \<Rightarrow> nat \<Rightarrow> string \<Rightarrow> string \<Rightarrow> string \<Rightarrow> int \<Rightarrow> fault + int \<times> char list" where
  "set_http_get buf len path host vals value_len =
     rbind (snprintf buf 0 (int len) (''GET /'' @ path @ ''?'')) (\<lambda>(n, buf).
     let value_len = (if value_len = -1 then int (length vals) else value_len)
     in if n \<le> 0 \<or> n + value_len \<ge> int len then Inr (-1, buf)
        else rbind (str2escape (buf @ vals) (length buf) (nat value_len) (nat n) (len - nat n)) (\<lambda>(m, mem).
          let buf = take (length buf) mem
          in if m = -1 then Inr (-1, buf)
             else let n = n + m
             in rbind (snprintf buf (nat n) (int len - m) ('' HTTP/1.1'' @ CRLF @ ''Host: '' @ host @ CRLF @ CRLF)) (\<lambda>(m, buf).
                if m \<le> 0 \<or> n + m \<ge> int len then Inr (-1, buf) else Inr (n + m, buf))))"

definition set_http_post :: "char list \<Rightarrow> int \<Rightarrow> string \<Rightarrow> string \<Rightarrow> string \<Rightarrow> int \<Rightarrow> fault + int \<times> char list" where
  "set_http_post buf len path host vals values_len =
     rbind (c_assert (len < 1024 * 1024 * 1024 \<and> values_len < len)) (\<lambda>_.
     rbind (snprintf buf 0 len (''POST '' @ path @ '' HTTP/1.1'' @ CRLF @ ''Content-Length: '' @ show_int values_len @
       CRLF @ ''Host: '' @ host @ CRLF @ CRLF)) (\<lambda>(n, buf).
     rbind (c_assert (n > 0 \<and> n + values_len < len)) (\<lambda>_.
     rbind (copy_out 0 (nat values_len) vals) (\<lambda>src.
     rbind (copy_in n src buf) (\<lambda>buf. Inr (n + values_len, buf))))))"

definition create_http_response_head :: "char list \<Rightarrow> int \<Rightarrow> string \<Rightarrow> string \<Rightarrow> int \<Rightarrow> fault + int \<times> char list" where
  "create_http_response_head buf len result server content_len =
     rbind (snprintf buf 0 len (''HTTP/1.1 '' @ result @ CRLF @ ''Content-Length: '' @ show_int content_len @
       CRLF @ ''Server: '' @ server @ CRLF @ CRLF)) (\<lambda>(n, buf).
     rbind (c_assert (n > 0 \<and> n < len)) (\<lambda>_. Inr (n, buf)))"

section \<open>Responses\<close>

function response_loop :: "char list \<Rightarrow> nat \<Rightarrow> nat \<Rightarrow> int option" where
  "response_loop m len i =
     (if i < len then
        if m ! (i - 1) = CHR 0x0A \<and> m ! i = CHR ''C'' \<and> starts_at m i ''Content-Length:''
        then Some (atol (text_at m (i + 15)))
        else response_loop m len (i + 1)
      else None)"
  by pat_completeness auto
termination
  by (relation "measure (\<lambda>(m, len, i). len - i)") auto

declare response_loop.simps [simp del]

text \<open>The result code and the content length; a header without the latter is an error.\<close>

definition parse_http_response :: "char list \<Rightarrow> nat \<Rightarrow> fault + int option \<times> int option" where
  "parse_http_response m len =
     (if len < 9 then Inr (None, None)
      else if length m < len then Inl OutOfBounds
      else Inr (Some (atoi (text_at m 9)), response_loop m len 10))"

section \<open>Values\<close>

text \<open>
  \<open>_strkey_get\<close>: the first key with this name that has no value yet. \<open>vals\<close> holds offsets.
\<close>

definition strkey_get :: "string list \<Rightarrow> nat option list \<Rightarrow> string \<Rightarrow> nat option" where
  "strkey_get keys vals key =
     find (\<lambda>i. vals ! i = None \<and> keys ! i = key) [0..<length vals]"

text \<open>
  The loop of \<open>parse_http_values2\<close> (and of \<open>parse_http_values\<close>, which differs in the lookup):
  \<open>get_index\<close> finds a field for a key among the values so far.
\<close>

function values2_loop ::
  "(string \<Rightarrow> nat option list \<Rightarrow> nat option) \<Rightarrow> nat \<Rightarrow> nat \<Rightarrow> nat option \<Rightarrow> nat \<Rightarrow> char list \<Rightarrow> nat option list \<Rightarrow>
   fault + char list \<times> nat option list" where
  "values2_loop get_index len i no key m vals =
     (if i < len then
        rbind (rd m (i - 1)) (\<lambda>c.
          if c = CHR ''='' then
            rbind (wr m (i - 1) NUL) (\<lambda>m.
              let no = get_index (text_at m key) vals;
                  vals = (case no of None \<Rightarrow> vals | Some k \<Rightarrow> vals[k := Some i])
              in values2_loop get_index len (i + 1) no key m vals)
          else if c = CHR ''&'' then
            rbind (if no \<noteq> None then wr m (i - 1) NUL else Inr m) (\<lambda>m.
              values2_loop get_index len (i + 1) no i m vals)
          else values2_loop get_index len (i + 1) no key m vals)
      else Inr (m, vals))"
  by pat_completeness auto
termination
  by (relation "measure (\<lambda>(g, len, i, no, key, m, vals). len - i)") auto

declare values2_loop.simps [simp del]

definition parse_http_values2 ::
  "(string \<Rightarrow> nat option list \<Rightarrow> nat option) \<Rightarrow> char list \<Rightarrow> nat \<Rightarrow> nat option list \<Rightarrow> fault + char list \<times> nat option list" where
  "parse_http_values2 get_index m len vals = values2_loop get_index len 1 None 0 m vals"

definition parse_http_values ::
  "char list \<Rightarrow> nat \<Rightarrow> string list \<Rightarrow> nat option list \<Rightarrow> fault + char list \<times> nat option list" where
  "parse_http_values m len keys vals =
     parse_http_values2 (\<lambda>key vals. strkey_get keys vals key) m len vals"

section \<open>Escaping, as functions on strings\<close>

text \<open>What the encoder writes for a character: the percent sign is lost.\<close>

definition esc1 :: "char \<Rightarrow> string" where
  "esc1 c = (if needs_escape c then [HEX_STR ! (nat_char c div 16), HEX_STR ! (nat_char c mod 16)] else [c])"

lemma unescaped_disjoint:
  assumes "s + len \<le> d \<or> d + res_len \<le> s" "s + len \<le> length m" "d + res_len \<le> length m"
  shows "i \<le> len \<Longrightarrow> length out + 2 * (len - i) + 1 < res_len \<Longrightarrow>
    unescaped_loop s len d res_len i (length out) (put d out m) =
    Inr (int (length (out @ concat (map esc1 (drop i (blk s len m))))),
         put d (out @ concat (map esc1 (drop i (blk s len m))) @ [NUL]) m)"
proof (induction "len - i" arbitrary: i out)
  case 0
  then show ?case
    using assms by (subst unescaped_loop.simps) (simp add: put_update_end)
next
  case (Suc n)
  then have i: "i < len" by simp
  have nth: "blk s len m ! i = m ! (s + i)" using i assms(2) by (simp add: blk_def)
  then have src: "drop i (blk s len m) = m ! (s + i) # drop (i + 1) (blk s len m)"
    using i assms(2) Cons_nth_drop_Suc [of i "blk s len m"] by simp
  have rd: "put d out' m ! (s + i) = m ! (s + i)" if "length out' \<le> res_len" for out'
    using assms that i by (cases "s + len \<le> d") (auto simp: put_nth_below put_nth_above)
  have ln: "s + i < length m" "d + length out + 2 < length m" using assms i Suc.prems(2) by auto
  show ?case
  proof (cases "needs_escape (m ! (s + i))")
    case True
    let ?H = "HEX_STR ! (nat_char (m ! (s + i)) div 16)" and ?L = "HEX_STR ! (nat_char (m ! (s + i)) mod 16)"
    have w2: "(put d (out @ [?H]) m)[Suc (d + length out) := ?L] = put d (out @ [?H, ?L]) m"
      using put_update_end [of d "out @ [?H]" m ?L] ln by simp
    have room: "\<not> res_len \<le> length out + 3" using i Suc.prems(2) by simp
    have "unescaped_loop s len d res_len i (length out) (put d out m) =
      unescaped_loop s len d res_len (i + 1) (length (out @ [?H, ?L])) (put d (out @ [?H, ?L]) m)"
      using i True room rd [of out] rd [of "out @ [CHR ''%'']"] rd [of "out @ [?H]"] Suc.prems(2) ln w2
      by (subst unescaped_loop.simps) (simp add: put_update_end put_update_last)
    then show ?thesis
      using Suc.hyps(1) [of "i + 1" "out @ [?H, ?L]"] Suc.hyps(2) Suc.prems(2) i True
      by (simp add: src esc1_def)
  next
    case False
    have "unescaped_loop s len d res_len i (length out) (put d out m) =
      unescaped_loop s len d res_len (i + 1) (length (out @ [m ! (s + i)])) (put d (out @ [m ! (s + i)]) m)"
      using i False rd [of out] Suc.prems(2) ln
      by (subst unescaped_loop.simps) (simp add: put_update_end)
    then show ?thesis
      using Suc.hyps(1) [of "i + 1" "out @ [m ! (s + i)]"] Suc.hyps(2) Suc.prems(2) i False
      by (simp add: src esc1_def)
  qed
qed

lemma unescaped_id:
  assumes "s + len < length m" "list_all (\<lambda>c. \<not> needs_escape c) (blk s len m)"
  shows "i \<le> len \<Longrightarrow> unescaped_loop s len s (len + 1) i i m = Inr (int len, m[s + len := NUL])"
proof (induction "len - i" arbitrary: i)
  case 0
  then show ?case using assms(1) by (subst unescaped_loop.simps) simp
next
  case (Suc n)
  then have i: "i < len" by simp
  have "blk s len m ! i = m ! (s + i)" using i assms(1) by (simp add: blk_def)
  then have "\<not> needs_escape (m ! (s + i))"
    using i assms by (auto simp: list_all_length dest!: spec [of _ i])
  then show ?case
    using Suc.hyps(1) [of "i + 1"] Suc.hyps(2) i assms(1) by (subst unescaped_loop.simps) simp
qed

section \<open>Header ends\<close>

text \<open>Scanning in two steps is scanning in one.\<close>

lemma header_loop_unfold:
  "i < len \<Longrightarrow> b + i < length m \<Longrightarrow>
   header_loop m b len off i =
     (if \<not> url_ok (m ! (b + i)) then Inr (-1, off)
      else if m ! (b + i) = CHR 0x0A then
        if i < 13 then Inr (-1, off)
        else if m ! (b + i - 2) = CHR 0x0A then
          if m ! (b + i - 3) \<noteq> CHR 0x0D \<or> m ! (b + i - 1) \<noteq> CHR 0x0D then Inr (-1, off)
          else Inr (int (i + 1), i + 1)
        else header_loop m b len off (i + 1)
      else header_loop m b len off (i + 1))"
  by (subst header_loop.simps) simp

lemma header_loop_step:
  assumes "i < len" "b + i < length m" "header_loop m b len off i = Inr (0, i')"
  shows "header_loop m b len off (i + 1) = Inr (0, i')" "url_ok (m ! (b + i))"
    "m ! (b + i) = CHR 0x0A \<Longrightarrow> 13 \<le> i \<and> m ! (b + i - 2) \<noteq> CHR 0x0A"
proof -
  have "url_ok (m ! (b + i)) \<and> (m ! (b + i) = CHR 0x0A \<longrightarrow> 13 \<le> i \<and> m ! (b + i - 2) \<noteq> CHR 0x0A) \<and>
    header_loop m b len off (i + 1) = Inr (0, i')"
    using assms(3) assms(1,2) by (subst (asm) header_loop.simps) (auto split: if_splits)
  then show "header_loop m b len off (i + 1) = Inr (0, i')" "url_ok (m ! (b + i))"
    "m ! (b + i) = CHR 0x0A \<Longrightarrow> 13 \<le> i \<and> m ! (b + i - 2) \<noteq> CHR 0x0A" by auto
qed

lemma header_loop_resume:
  assumes "len \<le> len'" "b + len \<le> length m" "take (b + len) m' = take (b + len) m"
    "header_loop m b len off i = Inr (0, i')"
  shows "header_loop m' b len' off' i = header_loop m' b len' off' i'"
  using assms(4)
proof (induction "len - i" arbitrary: i)
  case 0
  then show ?case by (simp add: header_loop.simps [of m b len off i])
next
  case (Suc n)
  then have i: "i < len" by simp
  have ln: "b + len \<le> length m'"
    using assms(2,3) by (metis length_take min.absorb_iff2 min.absorb2 min.commute min.orderI min_def)
  have m': "m' ! k = m ! k" if "k < b + len" for k
    using assms(3) that by (metis nth_take)
  note st = header_loop_step [OF i _ Suc.prems]
  have "header_loop m' b len' off' i = header_loop m' b len' off' (i + 1)"
    using st(2,3) i assms(1,2) ln m' [of "b + i"] m' [of "b + i - 2"]
    by (subst header_loop.simps) auto
  also have "\<dots> = header_loop m' b len' off' i'"
    using Suc.hyps(1) [of "i + 1"] Suc.hyps(2) st(1) i assms(2) by simp
  finally show ?case .
qed

lemma header_loop_off_irrelevant:
  "header_loop m b len off i = Inr (r, o1) \<Longrightarrow> r \<noteq> -1 \<Longrightarrow> header_loop m b len off' i = Inr (r, o1)"
proof (induction "len - i" arbitrary: i)
  case 0
  then show ?case by (subst header_loop.simps, subst (asm) header_loop.simps) simp
next
  case (Suc n)
  then have i: "i < len" by simp
  show ?case
  proof (cases "b + i < length m")
    case True
    then show ?thesis
      using Suc.hyps(1) [of "i + 1"] Suc.hyps(2) Suc.prems unfolding header_loop_unfold [OF i True]
      by (simp split: if_split_asm)
  next
    case False
    then show ?thesis using Suc.prems(1) i by (subst (asm) header_loop.simps) (simp add: rd_def)
  qed
qed

lemma header_loop_zero: "b + len \<le> length m \<Longrightarrow> header_loop m b len off i = Inr (0, i') \<Longrightarrow> i \<le> len \<Longrightarrow> i' = len"
proof (induction "len - i" arbitrary: i)
  case 0
  then show ?case by (subst (asm) header_loop.simps) simp
next
  case (Suc n)
  then have "i < len" "b + i < length m" by auto
  then show ?case using header_loop_step(1) [of i len b m off i'] Suc.hyps(1) [of "i + 1"] Suc.hyps(2) Suc.prems by simp
qed

text \<open>A positive result is the end of a blank line, and no character before it is refused.\<close>

lemma header_loop_found:
  "b + len \<le> length m \<Longrightarrow> header_loop m b len off i = Inr (int r, off') \<Longrightarrow> 0 < r \<Longrightarrow>
   off' = r \<and> i < r \<and> 13 < r \<and> r \<le> len \<and> blk (b + r - 4) 4 m = [CHR 0x0D, CHR 0x0A, CHR 0x0D, CHR 0x0A] \<and>
   list_all url_ok (blk (b + i) (r - i) m)"
proof (induction "len - i" arbitrary: i)
  case 0
  then show ?case by (simp add: header_loop.simps [of m b len off i])
next
  case (Suc n)
  then have i: "i < len" "b + i < length m" by auto
  consider "13 \<le> i" "url_ok (m ! (b + i))" "m ! (b + i) = CHR 0x0A" "m ! (b + i - 2) = CHR 0x0A"
      "m ! (b + i - 3) = CHR 0x0D" "m ! (b + i - 1) = CHR 0x0D" "r = i + 1" "off' = i + 1"
    | "header_loop m b len off (i + 1) = Inr (int r, off')" "url_ok (m ! (b + i))"
  proof (atomize_elim)
    show "(13 \<le> i \<and> url_ok (m ! (b + i)) \<and> m ! (b + i) = CHR 0x0A \<and> m ! (b + i - 2) = CHR 0x0A \<and>
      m ! (b + i - 3) = CHR 0x0D \<and> m ! (b + i - 1) = CHR 0x0D \<and> r = i + 1 \<and> off' = i + 1) \<or>
      (header_loop m b len off (i + 1) = Inr (int r, off') \<and> url_ok (m ! (b + i)))"
      using Suc.prems(2,3) unfolding header_loop_unfold [OF i] by (simp split: if_split_asm)
  qed
  then show ?case
  proof cases
    case 1
    obtain k where k: "b + i = k + 3" using 1(1) that [of "b + i - 3"] by simp
    then have "m ! k = CHR 0x0D" "m ! (k + 1) = CHR 0x0A" "m ! (k + 2) = CHR 0x0D" "m ! (k + 3) = CHR 0x0A"
      using 1(3-6) by simp_all
    moreover have "blk k 4 m = [m ! k, m ! (k + 1), m ! (k + 2), m ! (k + 3)]"
      using i(2) k by (simp add: numeral_eq_Suc blk_Suc)
    moreover have "b + r - 4 = k" using k 1(7) by simp
    moreover have "list_all url_ok (blk (b + i) (r - i) m)" using 1(2,7) i(2) by (simp add: blk_Suc)
    ultimately show ?thesis using 1(1,7,8) i(1) by simp
  next
    case 2
    have "off' = r \<and> i + 1 < r \<and> 13 < r \<and> r \<le> len \<and> blk (b + r - 4) 4 m = [CHR 0x0D, CHR 0x0A, CHR 0x0D, CHR 0x0A] \<and>
      list_all url_ok (blk (b + (i + 1)) (r - (i + 1)) m)"
      using Suc.hyps(1) [of "i + 1"] Suc.hyps(2) Suc.prems(1,3) 2(1) by simp
    moreover have "r - i = Suc (r - (i + 1))" using calculation by linarith
    ultimately show ?thesis using 2(2) i by (simp add: blk_Suc)
  qed
qed

section \<open>Requests with two path segments\<close>

lemma path_loop_skip:
  "b + i = length xs \<Longrightarrow> i + length t \<le> len \<Longrightarrow> list_all (\<lambda>c. path_ok c \<and> c \<noteq> CHR ''/'' \<and> c \<noteq> stop) t \<Longrightarrow>
   path_loop stop (xs @ t @ ys) b len i p = path_loop stop (xs @ t @ ys) b len (i + length t) p"
proof (induction t arbitrary: xs i)
  case (Cons c t)
  have "path_loop stop (xs @ (c # t) @ ys) b len i p = path_loop stop ((xs @ [c]) @ t @ ys) b len (i + 1) p"
    using Cons.prems by (subst path_loop.simps) simp
  also have "\<dots> = path_loop stop ((xs @ [c]) @ t @ ys) b len (i + 1 + length t) p"
    using Cons.prems by (intro Cons.IH) auto
  finally show ?case by simp
qed simp

lemma path_loop_slash:
  "b + i = length xs \<Longrightarrow> i < len \<Longrightarrow> stop \<noteq> CHR ''/'' \<Longrightarrow>
   path_loop stop (xs @ CHR ''/'' # ys) b len i p = path_loop stop (xs @ NUL # ys) b len (i + 1) (Some (length xs + 1))"
  by (subst path_loop.simps) simp

lemma path_loop_stop:
  "b + i = length xs \<Longrightarrow> i < len \<Longrightarrow>
   path_loop stop (xs @ stop # ys) b len i p = Inr (Some (i, p, xs @ NUL # ys))"
  by (subst path_loop.simps) simp

lemma values_loop_skip:
  "b + i = length xs \<Longrightarrow> i + length t \<le> len \<Longrightarrow> list_all (\<lambda>c. value_ok c \<and> c \<noteq> CHR '' '') t \<Longrightarrow>
   values_loop (xs @ t @ ys) b len i = values_loop (xs @ t @ ys) b len (i + length t)"
proof (induction t arbitrary: xs i)
  case (Cons c t)
  have "values_loop (xs @ (c # t) @ ys) b len i = values_loop ((xs @ [c]) @ t @ ys) b len (i + 1)"
    using Cons.prems by (subst values_loop.simps) simp
  also have "\<dots> = values_loop ((xs @ [c]) @ t @ ys) b len (i + 1 + length t)"
    using Cons.prems by (intro Cons.IH) auto
  finally show ?case by simp
qed simp

lemma values_loop_stop:
  "b + i = length xs \<Longrightarrow> i < len \<Longrightarrow> values_loop (xs @ CHR '' '' # ys) b len i = Inr (Some (i, xs @ NUL # ys))"
  by (subst values_loop.simps) simp

text \<open>A path segment, and a value list without percent signs.\<close>

definition segment_ok :: "string \<Rightarrow> bool" where
  "segment_ok t \<longleftrightarrow> list_all (\<lambda>c. path_ok c \<and> c \<noteq> CHR ''/'') t"

definition values_ok :: "string \<Rightarrow> bool" where
  "values_ok v \<longleftrightarrow> list_all (\<lambda>c. \<not> needs_escape c) v"

lemma word_class_blank [simp]: "word_class (CHR '' '') = 1"
  by (simp add: word_class_def nat_char_def) code_simp

lemma word_class_question [simp]: "word_class (CHR ''?'') = 1"
  by (simp add: word_class_def nat_char_def) code_simp

lemma nat_char_NUL [simp]: "nat_char NUL = 0"
  by (simp add: nat_char_def)

lemma word_class_NUL [simp]: "word_class NUL = 0"
  by (simp add: word_class_def) code_simp

lemma blk_at_append: "blk (length xs) (length v) (xs @ v @ ys) = v"
  by (simp add: blk_def)

lemma segment_chars: "segment_ok t \<Longrightarrow> c \<in> set t \<Longrightarrow> c \<noteq> CHR '' '' \<and> c \<noteq> CHR ''?'' \<and> c \<noteq> NUL \<and> c \<noteq> CHR ''/'' \<and> path_ok c"
proof -
  assume "segment_ok t" "c \<in> set t"
  then have "word_class c > 3" "c \<noteq> CHR ''/''" by (simp_all add: segment_ok_def list_all_iff path_ok_def)
  then show ?thesis by (auto simp: path_ok_def)
qed

lemma values_chars: "values_ok v \<Longrightarrow> c \<in> set v \<Longrightarrow> c \<noteq> CHR '' '' \<and> c \<noteq> NUL \<and> value_ok c"
proof -
  assume "values_ok v" "c \<in> set v"
  then have "word_class c \<ge> 3" by (simp add: values_ok_def list_all_iff needs_escape_def not_less)
  then show ?thesis by (auto simp: value_ok_def)
qed

lemma parse_get_text:
  assumes "segment_ok (c # p1)" "segment_ok p2" "values_ok v"
    and m: "m = pre @ (''GET /'' @ c # p1) @ CHR ''/'' # p2 @ CHR ''?'' # v @ CHR '' '' # post"
    and len: "9 + length p1 + length p2 + length v \<le> len"
  shows "parse_http_get m (length pre) len =
    Inr (int (length v),
      Some \<lparr>hg_path1 = length pre + 5, hg_path2 = Some (length pre + 7 + length p1),
            hg_values = length pre + 8 + length p1 + length p2\<rparr>,
      pre @ (''GET /'' @ c # p1) @ NUL # p2 @ NUL # v @ NUL # post)"
proof -
  let ?b = "length pre"
  let ?A = "pre @ ''GET /'' @ [c]"
  let ?m1 = "?A @ p1 @ CHR ''/'' # p2 @ CHR ''?'' # v @ CHR '' '' # post"
  let ?m2 = "((?A @ p1) @ [NUL]) @ p2 @ CHR ''?'' # v @ CHR '' '' # post"
  let ?m3 = "(((?A @ p1) @ [NUL]) @ p2 @ [NUL]) @ v @ CHR '' '' # post"
  let ?m4 = "((((?A @ p1) @ [NUL]) @ p2 @ [NUL]) @ v) @ NUL # post"
  have m1: "m = ?m1" by (simp add: m)
  have s1: "list_all (\<lambda>c. path_ok c \<and> c \<noteq> CHR ''/'' \<and> c \<noteq> CHR ''?'') p1"
    using assms(1) segment_chars [of "c # p1"] by (auto simp: list_all_iff)
  have s2: "list_all (\<lambda>c. path_ok c \<and> c \<noteq> CHR ''/'' \<and> c \<noteq> CHR ''?'') p2"
    using assms(2) segment_chars [of p2] by (auto simp: list_all_iff)
  have s3: "list_all (\<lambda>c. value_ok c \<and> c \<noteq> CHR '' '') v"
    using assms(3) values_chars by (auto simp: list_all_iff)
  have "path_loop (CHR ''?'') ?m1 ?b len 6 None = path_loop (CHR ''?'') ?m1 ?b len (6 + length p1) None"
    by (rule path_loop_skip) (use len s1 in auto)
  also have "?m1 = (?A @ p1) @ CHR ''/'' # p2 @ CHR ''?'' # v @ CHR '' '' # post" by simp
  also have "path_loop (CHR ''?'') \<dots> ?b len (6 + length p1) None =
      path_loop (CHR ''?'') ((?A @ p1) @ NUL # p2 @ CHR ''?'' # v @ CHR '' '' # post) ?b len (6 + length p1 + 1)
        (Some (length (?A @ p1) + 1))"
    by (rule path_loop_slash) (use len in auto)
  also have "(?A @ p1) @ NUL # p2 @ CHR ''?'' # v @ CHR '' '' # post = ?m2" by simp
  also have "path_loop (CHR ''?'') ?m2 ?b len (6 + length p1 + 1) (Some (length (?A @ p1) + 1)) =
      path_loop (CHR ''?'') ?m2 ?b len (6 + length p1 + 1 + length p2) (Some (length (?A @ p1) + 1))"
    by (rule path_loop_skip) (use len s2 in auto)
  also have "?m2 = (((?A @ p1) @ [NUL]) @ p2) @ CHR ''?'' # v @ CHR '' '' # post" by simp
  also have "path_loop (CHR ''?'') \<dots> ?b len (6 + length p1 + 1 + length p2) (Some (length (?A @ p1) + 1)) =
      Inr (Some (6 + length p1 + 1 + length p2, Some (length (?A @ p1) + 1),
        (((?A @ p1) @ [NUL]) @ p2) @ NUL # v @ CHR '' '' # post))"
    by (rule path_loop_stop) (use len in auto)
  finally have path: "path_loop (CHR ''?'') m ?b len 6 None =
      Inr (Some (7 + length p1 + length p2, Some (?b + 7 + length p1), ?m3))"
    by (simp add: m1)
  have "values_loop ?m3 ?b len (8 + length p1 + length p2) = values_loop ?m3 ?b len (8 + length p1 + length p2 + length v)"
    by (rule values_loop_skip) (use len s3 in auto)
  also have "?m3 = ((((?A @ p1) @ [NUL]) @ p2 @ [NUL]) @ v) @ CHR '' '' # post" by simp
  also have "values_loop \<dots> ?b len (8 + length p1 + length p2 + length v) = Inr (Some (8 + length p1 + length p2 + length v, ?m4))"
    by (rule values_loop_stop) (use len in auto)
  finally have vals: "values_loop ?m3 ?b len (Suc (7 + length p1 + length p2)) =
      Inr (Some (8 + length p1 + length p2 + length v, ?m4))" by (simp add: numeral_eq_Suc)
  have "blk (length (((?A @ p1) @ [NUL]) @ p2 @ [NUL])) (length v) ((((?A @ p1) @ [NUL]) @ p2 @ [NUL]) @ v @ NUL # post) = v"
    by (rule blk_at_append)
  moreover have "length (((?A @ p1) @ [NUL]) @ p2 @ [NUL]) = ?b + 8 + length p1 + length p2" by simp
  ultimately have "blk (?b + 8 + length p1 + length p2) (length v) ?m4 = v" by (simp only: append_assoc)
  then have "str2escape ?m4 (?b + 8 + length p1 + length p2) (length v) (?b + 8 + length p1 + length p2) (length v + 1) =
      Inr (int (length v), ?m4[?b + 8 + length p1 + length p2 + length v := NUL])"
    using assms(3) unfolding str2escape_def by (intro unescaped_id) (auto simp: values_ok_def)
  moreover have "?m4[?b + 8 + length p1 + length p2 + length v := NUL] = ?m4"
    by (simp add: list_update_append)
  ultimately have esc: "str2escape ?m4 (?b + 8 + length p1 + length p2) (length v) (?b + 8 + length p1 + length p2) (length v + 1) =
      Inr (int (length v), ?m4)" by simp
  define j where "j = 7 + length p1 + length p2"
  define g where "g = \<lparr>hg_path1 = ?b + 5, hg_path2 = Some (?b + 7 + length p1), hg_values = ?b + j + 1\<rparr>"
  have "rd m (?b + 3) = Inr (CHR '' '')" "rd m (?b + 4) = Inr (CHR ''/'')"
    by (simp_all add: m rd_def nth_append)
  moreover have "path_loop (CHR ''?'') m ?b len 6 None = Inr (Some (j, Some (?b + 7 + length p1), ?m3))"
    using path by (simp only: j_def)
  moreover have "values_loop ?m3 ?b len (j + 1) = Inr (Some (j + 1 + length v, ?m4))"
    using vals by (simp add: j_def)
  moreover have "str2escape ?m4 (hg_values g) (length v) (hg_values g) (Suc (length v)) = Inr (int (length v), ?m4)"
    using esc by (simp add: g_def j_def ac_simps)
  ultimately have "parse_http_get m ?b len = Inr (int (length v), Some g, ?m4)"
    by (simp add: parse_http_get_def Let_def g_def del: append_assoc)
  then show ?thesis by (simp add: g_def j_def)
qed

section \<open>Decoding, as a function on strings\<close>

fun unesc :: "string \<Rightarrow> string option" where
  "unesc [] = Some []"
| "unesc (c # cs) =
     (if c \<noteq> CHR ''%'' then map_option ((#) c) (unesc cs)
      else case cs of
        h # l # ds \<Rightarrow>
          if escape_digit h \<and> escape_digit l
          then map_option ((#) (char_of_byte (push_bit 4 (digit_value h) OR digit_value l))) (unesc ds)
          else None
      | _ \<Rightarrow> None)"

lemma escape_loop_plain:
  assumes "c \<noteq> CHR ''%''" "length out < length res" "length pre < len"
  shows "escape_loop (pre @ c # t) len rl (length pre) (length out) (put 0 out res) =
    escape_loop ((pre @ [c]) @ t) len rl (length (pre @ [c])) (length (out @ [c])) (put 0 (out @ [c]) res)"
  using assms put_update_end [of 0 out res c] by (subst escape_loop.simps) simp

lemma escape_loop_short:
  "length t < 2 \<Longrightarrow>
   escape_loop (pre @ CHR ''%'' # t) (length pre + length (CHR ''%'' # t)) rl (length pre) j res = Inr (-1, res)"
  by (subst escape_loop.simps) simp

lemma escape_loop_pair:
  assumes "length out < length res" "length out < rl"
  shows "escape_loop (pre @ CHR ''%'' # h # l # t) (length pre + length (CHR ''%'' # h # l # t)) rl (length pre) (length out) (put 0 out res) =
    (if \<not> escape_digit h then Inr (-1, put 0 out res)
     else if \<not> escape_digit l then Inr (-1, put 0 (out @ [char_of_byte (push_bit 4 (digit_value h))]) res)
     else let c = char_of_byte (push_bit 4 (digit_value h) OR digit_value l)
          in escape_loop ((pre @ [CHR ''%'', h, l]) @ t) (length (pre @ [CHR ''%'', h, l]) + length t) rl
               (length (pre @ [CHR ''%'', h, l])) (length (out @ [c])) (put 0 (out @ [c]) res))"
  using assms put_update_end [of 0 out res] put_update_last [of 0 out res]
  by (subst escape_loop.simps) (simp add: nth_append Let_def add.commute numeral_3_eq_3)

lemma escape_loop_unesc:
  assumes "length out + length t < res_len" "res_len \<le> length res"
  shows "case unesc t of
      Some u \<Rightarrow> escape_loop (pre @ t) (length pre + length t) res_len (length pre) (length out) (put 0 out res) =
        Inr (int (length (out @ u)), put 0 (out @ u @ [NUL]) res)
    | None \<Rightarrow> \<exists>res'. escape_loop (pre @ t) (length pre + length t) res_len (length pre) (length out) (put 0 out res) =
        Inr (-1, res')"
  using assms
proof (induction t arbitrary: pre out rule: length_induct)
  case (1 t)
  show ?case
  proof (cases t)
    case Nil
    then show ?thesis
      using 1(2,3) put_update_end [of 0 out res NUL] by (subst (1 2) escape_loop.simps) simp
  next
    case (Cons c cs)
    show ?thesis
    proof (cases "c = CHR ''%''")
      case False
      show ?thesis
        using 1(1) [rule_format, of cs "out @ [c]" "pre @ [c]"] 1(2,3) False
          escape_loop_plain [OF False, of out res pre "length pre + length t" cs res_len]
        by (auto simp: Cons split: option.splits)
    next
      case True
      show ?thesis
      proof (cases "length cs < 2")
        case short: True
        then have "unesc t = None" by (auto simp: Cons True split: list.split)
        then show ?thesis using escape_loop_short [OF short, of pre res_len "length out" "put 0 out res"]
          by (simp add: Cons True)
      next
        case False
        then obtain h l ds where cs: "cs = h # l # ds" by (cases cs; cases "tl cs") auto
        let ?c = "char_of_byte (push_bit 4 (digit_value h) OR digit_value l)"
        show ?thesis
          using 1(1) [rule_format, of ds "out @ [?c]" "pre @ [CHR ''%'', h, l]"] 1(2,3)
            escape_loop_pair [of out res res_len pre h l ds]
          by (auto simp: Cons True cs Let_def split: option.splits)
      qed
    qed
  qed
qed

section \<open>Properties\<close>

text \<open>
  The static table of character classes is the one the initialisation routine computes:
  every one of the 256 entries agrees.
\<close>

theorem http_table_static_is_computed: "http_path_words = init_http_path_words"
  by code_simp

text \<open>
  Scanning for the end of a header can be resumed: when a first scan of the bytes
  received so far finds no end, a scan of more bytes from the offset it recorded (which is
  their number) gives the result of a scan from the start, for any later contents of the
  buffer behind those bytes; so a header is found however the network splits it.
\<close>

theorem http_header_scan_resumes:
  assumes "off \<le> len" "len \<le> len'" "b + len \<le> length m" "take (b + len) m' = take (b + len) m"
    "parse_http_header_len m b len off = Inr (0, off')"
  shows "off' = len \<and>
    (parse_http_header_len m' b len' off = Inr (r, o1) \<longrightarrow> r \<noteq> -1 \<longrightarrow>
      parse_http_header_len m' b len' off' = Inr (r, o1))"
proof -
  have "header_loop m' b len' off off = header_loop m' b len' off off'"
    using header_loop_resume [OF assms(2,3,4)] assms(5) by (simp add: parse_http_header_len_def)
  then show ?thesis
    using header_loop_zero [OF assms(3)] header_loop_off_irrelevant [of m' b len' off off' r o1 off'] assms(1,5)
    by (simp add: parse_http_header_len_def)
qed

theorem http_header_scan_resumes_witness:
  "parse_http_header_len (''GET /a/b?c HTTP/1.1'' @ CRLF @ CRLF) 0 23 10 =
   parse_http_header_len (''GET /a/b?c HTTP/1.1'' @ CRLF @ CRLF) 0 23 0"
proof -
  let ?m = "''GET /a/b?c HTTP/1.1'' @ CRLF @ CRLF"
  have first: "parse_http_header_len ?m 0 10 0 = Inr (0, 10)" by code_simp
  have whole: "parse_http_header_len ?m 0 23 0 = Inr (23, 23)" by code_simp
  show ?thesis
    using http_header_scan_resumes [OF _ _ _ refl first, of 23 23 23] whole by (simp add: CRLF_def)
qed

text \<open>
  A positive result of the scan is where the header ends: it is the recorded offset, lies
  within the bytes received, follows a line end, a blank line and at least ten characters,
  and no character up to there is outside the accepted set.
\<close>

theorem http_header_end:
  assumes "b + len \<le> length m" "parse_http_header_len m b len off = Inr (int r, off')" "0 < r"
  shows "off' = r \<and> off < r \<and> 13 < r \<and> r \<le> len \<and>
    blk (b + r - 4) 4 m = [CHR 0x0D, CHR 0x0A, CHR 0x0D, CHR 0x0A] \<and> list_all url_ok (blk (b + off) (r - off) m)"
  using header_loop_found [OF assms(1)] assms(2,3) by (simp add: parse_http_header_len_def)

theorem http_header_end_witness:
  "blk (23 - 4) 4 (''GET /a/b?c HTTP/1.1'' @ CRLF @ CRLF) = [CHR 0x0D, CHR 0x0A, CHR 0x0D, CHR 0x0A]"
proof -
  have whole: "parse_http_header_len (''GET /a/b?c HTTP/1.1'' @ CRLF @ CRLF) 0 23 0 = Inr (int 23, 23)" by code_simp
  show ?thesis using http_header_end [OF _ whole] by (simp add: CRLF_def)
qed

text \<open>
  C36. A GET request for \<open>/path1/path2?values\<close> is parsed into these three texts: with path
  segments of letters, digits and underscores and values that need no escaping, wherever the
  request lies in the buffer, the result is the length of the values, the three pointers
  denote the three texts, terminated by NULs in place, and no other byte of the buffer changes.
\<close>

theorem http_get_parsed:
  assumes "segment_ok (c # p1)" "segment_ok p2" "values_ok v"
    "m = pre @ (''GET /'' @ c # p1) @ CHR ''/'' # p2 @ CHR ''?'' # v @ CHR '' '' # post"
    "9 + length p1 + length p2 + length v \<le> len"
  shows "\<exists>g q m'. parse_http_get m (length pre) len = Inr (int (length v), Some g, m') \<and> hg_path2 g = Some q \<and>
    text_at m' (hg_path1 g) = c # p1 \<and> text_at m' q = p2 \<and> text_at m' (hg_values g) = v \<and>
    m' = pre @ (''GET /'' @ c # p1) @ NUL # p2 @ NUL # v @ NUL # post"
proof -
  have nul: "NUL \<notin> set (c # p1)" "NUL \<notin> set p2" "NUL \<notin> set v"
    using segment_chars [OF assms(1)] segment_chars [OF assms(2)] values_chars [OF assms(3)] by blast+
  have t: "text_at (xs @ ys @ NUL # zs) n = ys" if "NUL \<notin> set ys" "n = length xs" for xs ys zs n
    using that by (simp add: text_at_def)
  let ?m = "pre @ (''GET /'' @ c # p1) @ NUL # p2 @ NUL # v @ NUL # post"
  have "text_at ?m (length pre + 5) = c # p1"
    using t [OF nul(1), of "length pre + 5" "pre @ ''GET /''" "p2 @ NUL # v @ NUL # post"] by simp
  moreover have "text_at ?m (length pre + 7 + length p1) = p2"
    using t [OF nul(2), of "length pre + 7 + length p1" "pre @ ''GET /'' @ (c # p1) @ [NUL]" "v @ NUL # post"] by (simp add: ac_simps)
  moreover have "text_at ?m (length pre + 8 + length p1 + length p2) = v"
    using t [OF nul(3), of "length pre + 8 + length p1 + length p2" "pre @ ''GET /'' @ (c # p1) @ [NUL] @ p2 @ [NUL]" post] by (simp add: ac_simps)
  ultimately show ?thesis using parse_get_text [OF assms] by auto
qed

theorem http_get_parsed_witness:
  "\<exists>g q m'. parse_http_get (''GET /user/login?name=bob HTTP/1.1'' @ CRLF) 0 25 =
      Inr (8, Some g, m') \<and> hg_path2 g = Some q \<and> text_at m' (hg_path1 g) = ''user'' \<and> text_at m' q = ''login'' \<and>
      text_at m' (hg_values g) = ''name=bob''"
proof -
  have "segment_ok ''user''" "segment_ok ''login''" "values_ok ''name=bob''"
    unfolding segment_ok_def values_ok_def path_ok_def needs_escape_def by code_simp+
  from http_get_parsed [OF this refl, where pre = "[]" and post = "''HTTP/1.1'' @ CRLF" and len = 25]
  show ?thesis by auto
qed

text \<open>
  The encoder writes an escaped character as its two hexadecimal digits alone: the first
  digit overwrites the percent sign. For source and destination that do not overlap and
  enough room, its output is exactly this text, terminated by a NUL, and the rest of the
  buffer is as it was.
\<close>

theorem http_escape_drops_percent:
  assumes "s + len \<le> d \<or> d + res_len \<le> s" "s + len \<le> length m" "d + res_len \<le> length m" "2 * len + 1 < res_len"
  shows "str2escape m s len d res_len =
    Inr (int (length (concat (map esc1 (blk s len m)))), put d (concat (map esc1 (blk s len m)) @ [NUL]) m)"
  using unescaped_disjoint [OF assms(1-3), of 0 "[]"] assms(4) by (simp add: str2escape_def)

theorem http_escape_drops_percent_witness:
  "str2escape (''a b'' @ replicate 10 NUL) 0 3 3 10 = Inr (4, ''a ba20b'' @ replicate 6 NUL)"
proof -
  have "map esc1 ''a b'' = [''a'', ''20'', ''b'']" by code_simp
  then show ?thesis
    using http_escape_drops_percent [of 0 3 3 10 "''a b'' @ replicate 10 NUL"]
    by (simp add: blk_def put_def numeral_eq_Suc)
qed

text \<open>
  The decoder, with room for its input, returns exactly the decoded text or \<open>-1\<close> where a
  percent sign is not followed by two letters or digits; but the letters stand for their
  distance from the first letter, so that the hexadecimal digits A to F (in either case)
  decode as 0 to 5.
\<close>

theorem http_unescape_decodes:
  assumes "length t < res_len" "res_len \<le> length res"
  shows "(case unesc t of
      Some u \<Rightarrow> escape2str t (length t) res res_len = Inr (int (length u), put 0 (u @ [NUL]) res)
    | None \<Rightarrow> \<exists>res'. escape2str t (length t) res res_len = Inr (-1, res')) \<and>
    map digit_value ''0123456789ABCDEFabcdef'' =
      map word_of_nat [0, 1, 2, 3, 4, 5, 6, 7, 8, 9, 0, 1, 2, 3, 4, 5, 0, 1, 2, 3, 4, 5]"
proof
  show "case unesc t of
      Some u \<Rightarrow> escape2str t (length t) res res_len = Inr (int (length u), put 0 (u @ [NUL]) res)
    | None \<Rightarrow> \<exists>res'. escape2str t (length t) res res_len = Inr (-1, res')"
    using escape_loop_unesc [of "[]" t res_len res "[]"] assms
    by (simp add: escape2str_def split: option.splits)
  show "map digit_value ''0123456789ABCDEFabcdef'' =
      map word_of_nat [0, 1, 2, 3, 4, 5, 6, 7, 8, 9, 0, 1, 2, 3, 4, 5, 0, 1, 2, 3, 4, 5]"
    by code_simp
qed

theorem http_unescape_decodes_witness:
  "escape2str ''%4A'' 3 (replicate 8 NUL) 8 = Inr (1, ''@'' @ replicate 7 NUL)"
proof -
  have "unesc ''%4A'' = Some ''@''" by code_simp
  then show ?thesis
    using http_unescape_decodes [of "''%4A''" 8 "replicate 8 NUL"] by (simp add: put_def numeral_eq_Suc)
qed

end
