(* ===== verification/TcpMsgList.thy ===== *)
theory TcpMsgList
  imports TcpStream StrHash Http
begin

text \<open>
  \<open>antlib/protocollib/tcp_msglist.c\<close> and \<open>tcp_msglist.h\<close>: the tables that describe the
  messages a server accepts, their registration by number and by two keys, the creation of
  an incoming message and the completion of its body. A table is known by its number; the
  handler of a table is an element of the type \<open>'f\<close>.
\<close>

section \<open>State\<close>

record tcpmsg_field =
  tf_name :: string
  tf_min :: int
  tf_max :: int
  tf_type :: int

record 'f tcpmsg_table =
  tm_key1 :: string
  tm_key2 :: string
  tm_domsg :: 'f
  tm_type :: int
  tm_n :: nat
  tm_id :: int
  tm_max_size :: int
  tm_min_size :: int
  tm_fields :: "tcpmsg_field list"

text \<open>
  \<open>_hash\<close> maps the first key to a table of second keys, which is an object of its own: the
  outer table holds indices into \<open>ml_lists\<close>, the inner ones hold message numbers.
\<close>

record 'f tcpmsg_list =
  ml_tables :: "int \<Rightarrow> 'f tcpmsg_table option"
  ml_hash :: "nat str_hash"
  ml_lists :: "int str_hash list"

text \<open>The caller's description of a field.\<close>

record pm_tcpmsg_field =
  pm_field :: string
  pm_type :: int
  pm_min :: int
  pm_max :: int

definition TCPMSGID :: "int \<Rightarrow> int \<Rightarrow> int" where
  "TCPMSGID mainid secondid = (push_bit 10 (mainid AND 0x3F) OR (secondid AND 0x3FF))"

section \<open>Registration\<close>

definition tcpmsg_libinit :: "'f tcpmsg_list option \<Rightarrow> fault + 'f tcpmsg_list" where
  "tcpmsg_libinit g =
     rbind (c_assert (g = None)) (\<lambda>_.
     Inr \<lparr>ml_tables = (\<lambda>_. None), ml_hash = init_str_hash, ml_lists = []\<rparr>)"

text \<open>What a table adds to its two sizes, smallest and largest body, as signed integers.\<close>

primrec add_sizes :: "(int \<times> int) list \<Rightarrow> int \<Rightarrow> int \<Rightarrow> fault + int \<times> int" where
  "add_sizes [] lo hi = Inr (lo, hi)"
| "add_sizes (x # xs) lo hi = rbind (c_int (lo + fst x)) (\<lambda>lo. rbind (c_int (hi + snd x)) (\<lambda>hi. add_sizes xs lo hi))"

text \<open>The fields are copied in order; the caller's array must have \<open>n\<close> elements.\<close>

definition tcpmsg_regist ::
  "'f tcpmsg_list \<Rightarrow> int \<Rightarrow> pm_tcpmsg_field list \<Rightarrow> int \<Rightarrow> 'f \<Rightarrow> fault + 'f tcpmsg_table option" where
  "tcpmsg_regist g msgid flds n f =
     (if msgid \<le> 0 \<or> msgid \<ge> 65536 \<or> ml_tables g msgid \<noteq> None \<or> n < 0 \<or> n > 1024 then Inr None
      else rbind (copy_out 0 (nat n) flds) (\<lambda>fs.
        rbind (add_sizes (map (\<lambda>p. (pm_min p, pm_max p)) fs) 0 0) (\<lambda>(lo, hi).
        Inr (Some
          \<lparr>tm_key1 = [], tm_key2 = [], tm_domsg = f, tm_type = 0, tm_n = nat n, tm_id = msgid,
           tm_max_size = hi, tm_min_size = lo,
           tm_fields = map (\<lambda>p. \<lparr>tf_name = strncpy_cleared 31 (pm_field p), tf_min = pm_min p,
             tf_max = pm_max p, tf_type = pm_type p\<rparr>) fs\<rparr>))))"

definition tcpmsg_regist_binary ::
  "'f tcpmsg_list \<Rightarrow> int \<Rightarrow> pm_tcpmsg_field list \<Rightarrow> int \<Rightarrow> 'f \<Rightarrow> fault + int \<times> 'f tcpmsg_list" where
  "tcpmsg_regist_binary g msgid flds n f =
     rbind (tcpmsg_regist g msgid flds n f) (\<lambda>t.
     case t of
       None \<Rightarrow> Inr (-1, g)
     | Some t \<Rightarrow> Inr (0, g\<lparr>ml_tables := (ml_tables g)(msgid \<mapsto> t)\<rparr>))"

text \<open>The inner table of a first key, made when there is none.\<close>

definition key_list :: "'f tcpmsg_list \<Rightarrow> string \<Rightarrow> string \<Rightarrow> fault + nat \<times> bool \<times> 'f tcpmsg_list" where
  "key_list g key1 stored =
     rbind (get_str_hash (ml_hash g) (Some key1)) (\<lambda>p.
     case p of
       Some i \<Rightarrow> Inr (i, False, g)
     | None \<Rightarrow>
         let i = length (ml_lists g)
         in rbind (set_str_hash (ml_hash g) (Some stored) (Some i)) (\<lambda>(_, h).
            Inr (i, True, g\<lparr>ml_hash := h, ml_lists := ml_lists g @ [init_str_hash]\<rparr>)))"

text \<open>
  The keys are looked up as given and stored cut to 63 characters. Every field adds the
  length of its name and an equals sign to the sizes, every field but one an ampersand.
\<close>

definition tcpmsg_regist_string ::
  "'f tcpmsg_list \<Rightarrow> string option \<Rightarrow> string option \<Rightarrow> int \<Rightarrow> pm_tcpmsg_field list \<Rightarrow> int \<Rightarrow> 'f \<Rightarrow>
   fault + int \<times> 'f tcpmsg_list" where
  "tcpmsg_regist_string g key1 key2 msgid flds n f =
     (case (key1, key2) of
        (Some k1, Some k2) \<Rightarrow>
          if k1 = [] \<or> k2 = [] then Inr (-1, g)
          else rbind (tcpmsg_regist g msgid flds n f) (\<lambda>t.
          case t of
            None \<Rightarrow> Inr (-1, g)
          | Some t \<Rightarrow>
              let t = t\<lparr>tm_key1 := strncpy_cleared 63 k1, tm_key2 := strncpy_cleared 63 k2\<rparr>
              in rbind (key_list g k1 (tm_key1 t)) (\<lambda>(i, new, g').
                 rbind (if new then Inr None else get_str_hash (ml_lists g' ! i) (Some k2)) (\<lambda>old.
                 if old \<noteq> None then Inr (-1, g)
                 else let lens = map (\<lambda>x. int (length (tf_name x)) + 1) (tm_fields t) @ (if n > 1 then [n - 1] else [])
                      in rbind (add_sizes (map (\<lambda>l. (l, l)) lens) (tm_min_size t) (tm_max_size t)) (\<lambda>(lo, hi).
                         let t = t\<lparr>tm_min_size := lo, tm_max_size := hi\<rparr>
                         in rbind (set_str_hash (ml_lists g' ! i) (Some (tm_key2 t)) (Some msgid)) (\<lambda>(_, h).
                            Inr (0, g'\<lparr>ml_tables := (ml_tables g')(msgid \<mapsto> t),
                                       ml_lists := (ml_lists g')[i := h]\<rparr>))))))
      | _ \<Rightarrow> Inr (-1, g))"

section \<open>Incoming messages\<close>

definition size_ok :: "'f tcpmsg_table \<Rightarrow> int \<Rightarrow> bool" where
  "size_ok t msglen \<longleftrightarrow> \<not> (tm_n t > 0 \<and> (msglen < tm_min_size t \<or> msglen > tm_max_size t))"

type_synonym 'f tcpmsg = "'f tcpmsg_table tcp_stream handler_msg"

definition tcpmsg_getbyid ::
  "(nat \<Rightarrow> char) \<Rightarrow> 'f tcpmsg_list \<Rightarrow> int \<Rightarrow> int \<Rightarrow> u64 \<Rightarrow> u64 \<Rightarrow> u32 \<Rightarrow> fault + 'f tcpmsg option" where
  "tcpmsg_getbyid old g msgid msglen userid netid ip =
     (if msgid < 0 \<or> msgid > 65535 then Inr None
      else case ml_tables g msgid of
        None \<Rightarrow> Inr None
      | Some t \<Rightarrow>
          if \<not> size_ok t msglen then Inr None
          else rbind (create_tcpstream old userid msgid msglen t (tm_n t) netid ip) (\<lambda>m. Inr (Some m)))"

definition tcpmsg_getbykey ::
  "(nat \<Rightarrow> char) \<Rightarrow> 'f tcpmsg_list \<Rightarrow> string option \<Rightarrow> string option \<Rightarrow> int \<Rightarrow> u64 \<Rightarrow> u64 \<Rightarrow> u32 \<Rightarrow>
   fault + 'f tcpmsg option" where
  "tcpmsg_getbykey old g key1 key2 msglen userid netid ip =
     (case (key1, key2) of
        (Some k1, Some k2) \<Rightarrow>
          if k1 = [] \<or> k2 = [] then Inr None
          else rbind (get_str_hash (ml_hash g) (Some k1)) (\<lambda>p.
          case p of
            None \<Rightarrow> Inr None
          | Some i \<Rightarrow>
              rbind (get_str_hash (ml_lists g ! i) (Some k2)) (\<lambda>p.
              case Option.bind p (ml_tables g) of
                None \<Rightarrow> Inr None
              | Some t \<Rightarrow>
                  if \<not> size_ok t msglen then Inr None
                  else rbind (create_tcpstream old userid (tm_id t) msglen t (tm_n t) netid ip)
                         (\<lambda>m. Inr (Some m))))
      | _ \<Rightarrow> Inr None)"

section \<open>The body of a message\<close>

definition tcpmsg_field_index :: "'f tcpmsg_table \<Rightarrow> string \<Rightarrow> nat option list \<Rightarrow> nat option" where
  "tcpmsg_field_index t field vl =
     find (\<lambda>i. vl ! i = None \<and> tf_name (tm_fields t ! i) = field) [0..<tm_n t]"

text \<open>The string at an offset of the body; without a NUL the reading runs on behind it.\<close>

definition body_text :: "char list \<Rightarrow> nat \<Rightarrow> fault + string" where
  "body_text buf i = (if NUL \<in> set (drop i buf) then Inr (text_at buf i) else Inl OutOfBounds)"

text \<open>The check of the values, field by field; \<open>None\<close> is the result \<open>-1\<close>.\<close>

fun check_fields :: "char list \<Rightarrow> tcpmsg_field list \<Rightarrow> nat option list \<Rightarrow> fault + fieldval list option" where
  "check_fields buf (x # xs) (v # vs) =
     (case v of
        None \<Rightarrow> Inr None
      | Some i \<Rightarrow>
          rbind (body_text buf i) (\<lambda>s.
            if int (length s) < tf_min x \<or> int (length s) > tf_max x then Inr None
            else rbind (check_fields buf xs vs) (\<lambda>r.
              Inr (map_option (\<lambda>rs. (if tf_type x \<noteq> 0 then VInt (word_of_int (atol s)) else VStr i) # rs) r))))"
| "check_fields buf _ _ = Inr (Some [])"

definition parse_stringmsg :: "'f tcpmsg_table tcp_stream \<Rightarrow> fault + int \<times> 'f tcpmsg_table tcp_stream" where
  "parse_stringmsg s =
     (let t = st_tb s
      in if tm_n t = 0 then Inr (0, s)
         else rbind (parse_http_values2 (tcpmsg_field_index t) (st_buf s) (nat (st_len s)) (replicate (tm_n t) None))
           (\<lambda>(buf, vals).
             rbind (check_fields buf (tm_fields t) vals) (\<lambda>r.
               case r of
                 None \<Rightarrow> Inr (-1, s\<lparr>st_buf := buf\<rparr>)
               | Some vl \<Rightarrow> Inr (int (tm_n t), s\<lparr>st_buf := buf, st_vl := vl\<rparr>))))"

text \<open>A call of a handler: the message, the user and the connection.\<close>

type_synonym 'f delivery = "'f \<times> 'f tcpmsg \<times> u64 \<times> u64"

text \<open>
  Bytes are added to the body. \<open>addmsg\<close> is null or points to the bytes received. The
  result is the number of bytes that belonged to the message when it is complete - then
  its handler is called - and \<open>-1\<close> otherwise. The length of the rest of the body is taken as
  a \<open>size_t\<close> by \<open>memcpy\<close>.
\<close>

definition add_body ::
  "char list option \<Rightarrow> 'tb tcp_stream \<Rightarrow> fault + int \<times> 'tb tcp_stream" where
  "add_body addmsg s =
     (case addmsg of
        None \<Rightarrow> Inr (0, s)
      | Some bytes \<Rightarrow>
          let n = st_len s - st_off s
          in if n < 0 then Inl OutOfBounds
             else rbind (copy_out 0 (nat n) bytes) (\<lambda>xs.
               rbind (copy_in (st_off s) xs (st_buf s)) (\<lambda>b. Inr (n, s\<lparr>st_buf := b\<rparr>))))"

definition add_part ::
  "char list option \<Rightarrow> int \<Rightarrow> 'tb tcp_stream \<Rightarrow> fault + 'tb tcp_stream" where
  "add_part addmsg addlen s =
     (if addlen > 0 then
        rbind (deref addmsg) (\<lambda>bytes.
        rbind (copy_out 0 (nat addlen) bytes) (\<lambda>xs.
        rbind (copy_in (st_off s) xs (st_buf s)) (\<lambda>b.
        Inr (s\<lparr>st_buf := b, st_off := st_off s + addlen\<rparr>))))
      else Inr s)"

definition tcpmsg_putout_range ::
  "'f tcpmsg \<Rightarrow> char list option \<Rightarrow> int \<Rightarrow> fault + int \<times> 'f tcpmsg \<times> 'f delivery list" where
  "tcpmsg_putout_range msg addmsg addlen =
     rbind (c_assert (addlen \<ge> 0)) (\<lambda>_.
     let s = hm_data msg
     in if st_len s - st_off s \<le> addlen then
          rbind (add_body addmsg s) (\<lambda>(n, s).
            let msg = msg\<lparr>hm_data := s\<lparr>st_off := 0\<rparr>\<rparr>
            in Inr (n, msg, [(tm_domsg (st_tb s), msg, hm_userid msg, st_netid s)]))
        else rbind (add_part addmsg addlen s) (\<lambda>s. Inr (-1, msg\<lparr>hm_data := s\<rparr>, [])))"

definition httpmsg_putout_range ::
  "'f tcpmsg \<Rightarrow> char list option \<Rightarrow> int \<Rightarrow> fault + int \<times> 'f tcpmsg \<times> 'f delivery list" where
  "httpmsg_putout_range msg addmsg addlen =
     rbind (c_assert (addlen \<ge> 0)) (\<lambda>_.
     let s = hm_data msg
     in if st_len s - st_off s \<le> addlen then
          rbind (add_body addmsg s) (\<lambda>(n, s).
          rbind (parse_stringmsg (s\<lparr>st_off := 0\<rparr>)) (\<lambda>(r, s).
            let msg = msg\<lparr>hm_data := s\<rparr>
            in if r = -1 then Inr (-2, msg, [])
               else Inr (n, msg, [(tm_domsg (st_tb s), msg, hm_userid msg, st_netid s)])))
        else rbind (add_part addmsg addlen s) (\<lambda>s. Inr (-1, msg\<lparr>hm_data := s\<rparr>, [])))"

definition tcpmsg_type :: "'f tcpmsg_table \<Rightarrow> int" where
  "tcpmsg_type t = tm_type t"

section \<open>Reassembling a body\<close>

text \<open>A message under construction: \<open>got\<close> of its \<open>st_len\<close> bytes are there.\<close>

definition partial :: "'f tcpmsg \<Rightarrow> char list \<Rightarrow> bool" where
  "partial msg got \<longleftrightarrow>
     (let s = hm_data msg
      in st_off s = int (length got) \<and> int (length got) < st_len s \<and> st_len s \<le> int (length (st_buf s)) \<and>
         take (length got) (st_buf s) = got)"

text \<open>The message with another body and offset.\<close>

abbreviation with_body :: "'f tcpmsg \<Rightarrow> char list \<Rightarrow> int \<Rightarrow> 'f tcpmsg" where
  "with_body msg b off \<equiv> msg\<lparr>hm_data := (hm_data msg)\<lparr>st_buf := b, st_off := off\<rparr>\<rparr>"

lemma take_put_end: "i + length xs \<le> length m \<Longrightarrow> take (i + length xs) (put i xs m) = take i m @ xs"
  by (simp add: put_def)

lemma putout_part:
  assumes "partial msg got" "int (length got + length bytes) < st_len (hm_data msg)" "bytes \<noteq> []"
  shows "\<exists>b. tcpmsg_putout_range msg (Some bytes) (int (length bytes)) =
      Inr (-1, with_body msg b (int (length (got @ bytes))), []) \<and>
    length b = length (st_buf (hm_data msg)) \<and> partial (with_body msg b (int (length (got @ bytes)))) (got @ bytes)"
proof -
  let ?s = "hm_data msg"
  have s: "st_off ?s = int (length got)" "st_len ?s \<le> int (length (st_buf ?s))"
    "take (length got) (st_buf ?s) = got"
    using assms(1) by (simp_all add: partial_def Let_def)
  let ?b = "put (length got) bytes (st_buf ?s)"
  have fit: "length got + length bytes \<le> length (st_buf ?s)" using assms(2) s(2) by linarith
  have "tcpmsg_putout_range msg (Some bytes) (int (length bytes)) =
      Inr (-1, with_body msg ?b (int (length (got @ bytes))), [])"
    using assms(2,3) s fit by (simp add: tcpmsg_putout_range_def add_part_def Let_def blk_def)
  moreover have "take (length (got @ bytes)) ?b = got @ bytes"
    using fit s(3) take_put_end [of "length got" bytes "st_buf ?s"] by simp
  ultimately show ?thesis
    using assms(2) s(2) fit by (intro exI [of _ ?b]) (simp add: partial_def Let_def)
qed

lemma putout_last:
  assumes "partial msg got" "st_len (hm_data msg) \<le> int (length got + length bytes)"
  shows "\<exists>b. tcpmsg_putout_range msg (Some bytes) (int (length bytes)) =
      Inr (st_len (hm_data msg) - int (length got), with_body msg b 0,
        [(tm_domsg (st_tb (hm_data msg)), with_body msg b 0, hm_userid msg, st_netid (hm_data msg))]) \<and>
    take (nat (st_len (hm_data msg))) b = take (nat (st_len (hm_data msg))) (got @ bytes) \<and>
    length b = length (st_buf (hm_data msg))"
proof -
  let ?s = "hm_data msg"
  let ?n = "nat (st_len ?s) - length got"
  have s: "st_off ?s = int (length got)" "int (length got) < st_len ?s" "st_len ?s \<le> int (length (st_buf ?s))"
    "take (length got) (st_buf ?s) = got"
    using assms(1) by (simp_all add: partial_def Let_def)
  let ?b = "put (length got) (take ?n bytes) (st_buf ?s)"
  have n: "nat (st_len ?s - int (length got)) = ?n" "length (take ?n bytes) = ?n"
    "length got + ?n = nat (st_len ?s)" "length got + ?n \<le> length (st_buf ?s)"
    using assms(2) s(2,3) by auto
  have "tcpmsg_putout_range msg (Some bytes) (int (length bytes)) =
      Inr (st_len ?s - int (length got), with_body msg ?b 0,
        [(tm_domsg (st_tb ?s), with_body msg ?b 0, hm_userid msg, st_netid ?s)])"
    using assms(2) s n by (simp add: tcpmsg_putout_range_def add_body_def Let_def blk_def)
  moreover have "take (nat (st_len ?s)) ?b = got @ take ?n bytes"
    using take_put_end [of "length got" "take ?n bytes" "st_buf ?s"] n s(4) by simp
  moreover have "take (nat (st_len ?s)) (got @ bytes) = got @ take ?n bytes"
    using s(2) by (simp add: nat_diff_distrib)
  ultimately show ?thesis using n by (intro exI [of _ ?b]) simp
qed

text \<open>The parts of a body in the order they are received; the deliveries they cause.\<close>

fun putout_parts :: "'f tcpmsg \<Rightarrow> char list list \<Rightarrow> fault + int list \<times> 'f delivery list" where
  "putout_parts msg [] = Inr ([], [])"
| "putout_parts msg (p # ps) =
     rbind (tcpmsg_putout_range msg (Some p) (int (length p))) (\<lambda>(r, msg, ds).
     rbind (putout_parts msg ps) (\<lambda>(rs, es). Inr (r # rs, ds @ es)))"

lemma putout_parts_partial:
  "partial msg got \<Longrightarrow> int (length (got @ concat ps)) < st_len (hm_data msg) \<Longrightarrow> [] \<notin> set ps \<Longrightarrow>
   st_len (hm_data msg) \<le> int (length (got @ concat ps @ q)) \<Longrightarrow>
   \<exists>b. putout_parts msg (ps @ [q]) =
     Inr (replicate (length ps) (-1) @ [st_len (hm_data msg) - int (length (got @ concat ps))],
       [(tm_domsg (st_tb (hm_data msg)), with_body msg b 0, hm_userid msg, st_netid (hm_data msg))]) \<and>
     take (nat (st_len (hm_data msg))) b = take (nat (st_len (hm_data msg))) (got @ concat ps @ q)"
proof (induction ps arbitrary: msg got)
  case Nil
  then show ?case using putout_last [of msg got q] by auto
next
  case (Cons p ps)
  obtain b where b: "tcpmsg_putout_range msg (Some p) (int (length p)) =
      Inr (-1, with_body msg b (int (length (got @ p))), [])"
    "partial (with_body msg b (int (length (got @ p)))) (got @ p)"
    using putout_part [of msg got p] Cons.prems by auto
  then show ?case
    using Cons.IH [OF b(2)] Cons.prems by (auto simp: add.assoc)
qed

section \<open>Properties\<close>

text \<open>
  C25. A body is reassembled whatever the network does to it: given in any number of
  non-empty parts of which the last one completes it, all parts but the last answer \<open>-1\<close>,
  the last one answers how many of its bytes belonged to the message, and the handler of
  the message is called exactly once, with the user and connection of the message and a body
  whose bytes are those received, in order.
\<close>

theorem tcpmsg_body_reassembled:
  assumes "partial msg []" "int (length (concat ps)) < st_len (hm_data msg)" "[] \<notin> set ps"
    "st_len (hm_data msg) \<le> int (length (concat ps @ q))"
  shows "\<exists>d. putout_parts msg (ps @ [q]) =
      Inr (replicate (length ps) (-1) @ [st_len (hm_data msg) - int (length (concat ps))],
        [(tm_domsg (st_tb (hm_data msg)), d, hm_userid msg, st_netid (hm_data msg))]) \<and>
    hm_msgid d = hm_msgid msg \<and> st_off (hm_data d) = 0 \<and> st_len (hm_data d) = st_len (hm_data msg) \<and>
    take (nat (st_len (hm_data d))) (st_buf (hm_data d)) = take (nat (st_len (hm_data msg))) (concat ps @ q)"
  using putout_parts_partial [OF assms(1), of ps q] assms by auto

definition table0 :: "string tcpmsg_table" where
  "table0 = \<lparr>tm_key1 = [], tm_key2 = [], tm_domsg = ''f'', tm_type = 0, tm_n = 0, tm_id = 1, tm_max_size = 0,
     tm_min_size = 0, tm_fields = []\<rparr>"

definition msg0 :: "string tcpmsg" where
  "msg0 = \<lparr>hm_userid = 7, hm_msgid = 1, hm_datalen = 100,
     hm_data = \<lparr>st_tb = table0, st_vl = [], st_netid = 9, st_ip = 0, st_off = 0, st_len = 5, st_head = [],
       st_buf = ''........''\<rparr>\<rparr>"

theorem tcpmsg_body_reassembled_witness:
  "\<exists>d. putout_parts msg0 [''ab'', ''c'', ''deXY''] = Inr ([-1, -1, 2], [(''f'', d, 7, 9)]) \<and>
     take 5 (st_buf (hm_data d)) = ''abcde''"
  using tcpmsg_body_reassembled [of msg0 "[''ab'', ''c'']" "''deXY''"]
  by (auto simp: msg0_def table0_def partial_def eval_nat_numeral)

section \<open>Accepting a message\<close>

lemma create_tcpstream_ok:
  assumes "0 \<le> msglen" "msglen < 2 ^ 31 - 10000" "n \<le> 1024"
  shows "\<exists>m. create_tcpstream old userid msgid msglen tb n netid ip = Inr m \<and> hm_userid m = userid \<and>
    hm_msgid m = msgid \<and> st_tb (hm_data m) = tb \<and> st_netid (hm_data m) = netid \<and> st_ip (hm_data m) = ip \<and>
    st_off (hm_data m) = 0 \<and> st_len (hm_data m) = msglen \<and> msglen \<le> int (length (st_buf (hm_data m))) \<and>
    st_vl (hm_data m) = replicate n VNull"
  using assms
  by (auto simp: create_tcpstream_def Let_def MSG_NORMAL_SIZE_def SIZEOF_TCP_STREAM_def OFFSET_BUF_def
      MSG_KEEPHEAD_SIZE_def)

text \<open>
  A message number is accepted exactly when it is registered and the length is within
  the limits of its table (any length when the table has no fields); for a length that is not
  negative the message made is empty, has room for its body and belongs to the given user
  and connection.
\<close>

theorem tcpmsg_getbyid_accepts:
  assumes "0 \<le> msglen" "msglen < 2 ^ 31 - 10000" "\<And>t. ml_tables g msgid = Some t \<Longrightarrow> tm_n t \<le> 1024"
  shows "case tcpmsg_getbyid old g msgid msglen userid netid ip of
      Inl e \<Rightarrow> False
    | Inr None \<Rightarrow> msgid < 0 \<or> msgid > 65535 \<or> ml_tables g msgid = None \<or>
        (\<exists>t. ml_tables g msgid = Some t \<and> tm_n t > 0 \<and> (msglen < tm_min_size t \<or> tm_max_size t < msglen))
    | Inr (Some m) \<Rightarrow> 0 \<le> msgid \<and> msgid \<le> 65535 \<and>
        (\<exists>t. ml_tables g msgid = Some t \<and> st_tb (hm_data m) = t \<and>
          (tm_n t = 0 \<or> tm_min_size t \<le> msglen \<and> msglen \<le> tm_max_size t)) \<and>
        hm_userid m = userid \<and> hm_msgid m = msgid \<and> st_netid (hm_data m) = netid \<and>
        st_off (hm_data m) = 0 \<and> st_len (hm_data m) = msglen \<and> msglen \<le> int (length (st_buf (hm_data m)))"
proof (cases "msgid < 0 \<or> msgid > 65535 \<or> ml_tables g msgid = None")
  case True
  then show ?thesis by (auto simp: tcpmsg_getbyid_def)
next
  case False
  then obtain t where t: "ml_tables g msgid = Some t" by auto
  obtain m where m: "create_tcpstream old userid msgid msglen t (tm_n t) netid ip = Inr m" "hm_userid m = userid"
    "hm_msgid m = msgid" "st_tb (hm_data m) = t" "st_netid (hm_data m) = netid" "st_off (hm_data m) = 0"
    "st_len (hm_data m) = msglen" "msglen \<le> int (length (st_buf (hm_data m)))"
    using create_tcpstream_ok [OF assms(1,2) assms(3) [OF t], of old userid msgid t netid ip] by blast
  show ?thesis
    using False t m by (cases "size_ok t msglen") (auto simp: tcpmsg_getbyid_def size_ok_def)
qed

theorem tcpmsg_getbyid_accepts_witness:
  "case tcpmsg_getbyid (\<lambda>_. NUL) \<lparr>ml_tables = (\<lambda>_. None)(1 \<mapsto> table0), ml_hash = init_str_hash, ml_lists = []\<rparr> 1 20 7 9 0 of
     Inr (Some m) \<Rightarrow> st_len (hm_data m) = 20 | _ \<Rightarrow> False"
  using tcpmsg_getbyid_accepts [where msgid = 1 and msglen = 20 and old = "\<lambda>_. NUL" and
      g = "\<lparr>ml_tables = (\<lambda>_. None)(1 \<mapsto> table0), ml_hash = init_str_hash, ml_lists = []\<rparr>" and
      userid = 7 and netid = 9 and ip = 0]
  by (auto simp: table0_def split: sum.splits option.splits)

text \<open>
  A table without fields puts no limit on the length, not even zero: a message that
  announces a negative length is taken, and either the message cannot be laid out - the
  header is written through a null pointer or behind the block - or its first bytes are
  copied with the negative length.
\<close>

theorem tcpmsg_negative_length_faults:
  assumes "0 \<le> msgid" "msgid \<le> 65535" "ml_tables g msgid = Some t" "tm_n t = 0"
    "- (2 ^ 31) \<le> msglen" "msglen < 0"
  shows "(case tcpmsg_getbyid old g msgid msglen userid netid ip of
      Inl e \<Rightarrow> e = NullDeref \<or> e = OutOfBounds
    | Inr None \<Rightarrow> False
    | Inr (Some m) \<Rightarrow> tcpmsg_putout_range m (Some bytes) (int (length bytes)) = Inl OutOfBounds)"
proof -
  have "usize msglen = (msglen + 2 ^ 64) mod 2 ^ 64" by (simp only: usize_def mod_add_self2)
  also have "\<dots> = msglen + 2 ^ 64" using assms(5,6) by (intro mod_pos_pos_trivial) auto
  finally have "usize msglen = msglen + 2 ^ 64" .
  then show ?thesis
    using assms
    by (auto simp: tcpmsg_getbyid_def size_ok_def create_tcpstream_def Let_def MSG_NORMAL_SIZE_def
        SIZEOF_TCP_STREAM_def OFFSET_BUF_def MSG_KEEPHEAD_SIZE_def tcpmsg_putout_range_def add_body_def)
qed

theorem tcpmsg_negative_length_faults_witness:
  "tcpmsg_getbyid (\<lambda>_. NUL) \<lparr>ml_tables = (\<lambda>_. None)(1 \<mapsto> table0), ml_hash = init_str_hash, ml_lists = []\<rparr> 1 (-100) 7 9 0
     \<noteq> Inr None"
  using tcpmsg_negative_length_faults [where msgid = 1 and t = table0 and msglen = "-100" and old = "\<lambda>_. NUL" and
      g = "\<lparr>ml_tables = (\<lambda>_. None)(1 \<mapsto> table0), ml_hash = init_str_hash, ml_lists = []\<rparr>" and
      userid = 7 and netid = 9 and ip = 0]
  by (auto simp: table0_def)

section \<open>Registration\<close>

definition ml_ok :: "'f tcpmsg_list \<Rightarrow> bool" where
  "ml_ok g \<longleftrightarrow> hash_ok (ml_hash g) \<and> (\<forall>h \<in> set (ml_lists g). hash_ok h) \<and>
     (\<forall>k i. hash_map (ml_hash g) k = Some i \<longrightarrow> i < length (ml_lists g)) \<and>
     inj_on (hash_map (ml_hash g)) (dom (hash_map (ml_hash g)))"

text \<open>The number stored under two keys.\<close>

definition ml_lookup :: "'f tcpmsg_list \<Rightarrow> string \<Rightarrow> string \<Rightarrow> int option" where
  "ml_lookup g k1 k2 = Option.bind (hash_map (ml_hash g) k1) (\<lambda>i. hash_map (ml_lists g ! i) k2)"

definition reg_key_ok :: "string \<Rightarrow> bool" where
  "reg_key_ok k \<longleftrightarrow> key_ok k \<and> k \<noteq> [] \<and> length k \<le> 63"

lemma reg_key_stored: "reg_key_ok k \<Longrightarrow> strncpy_cleared 63 k = k"
  by (simp add: reg_key_ok_def key_ok_def strncpy_cleared_id)

lemma key_list_ok:
  assumes "ml_ok g" "key_ok k"
  shows "\<exists>i g'. key_list g k k = Inr (i, hash_map (ml_hash g) k = None, g') \<and> ml_ok g' \<and>
    hash_map (ml_hash g') k = Some i \<and> i < length (ml_lists g') \<and> ml_tables g' = ml_tables g \<and>
    ml_lookup g' = ml_lookup g"
proof (cases "hash_map (ml_hash g) k")
  case (Some i)
  then show ?thesis
    using assms get_str_hash_ok [of "ml_hash g" k] by (auto simp: key_list_def ml_ok_def)
next
  case None
  let ?i = "length (ml_lists g)"
  obtain h where h: "set_str_hash (ml_hash g) (Some k) (Some ?i) = Inr (0, h)" "hash_ok h"
    "hash_map h = (hash_map (ml_hash g))(k \<mapsto> ?i)"
    using set_str_hash_ok [of "ml_hash g" k ?i] assms None by (auto simp: ml_ok_def)
  let ?g = "g\<lparr>ml_hash := h, ml_lists := ml_lists g @ [init_str_hash]\<rparr>"
  have get: "get_str_hash (ml_hash g) (Some k) = Inr None"
    using get_str_hash_ok [of "ml_hash g" k] assms None by (simp add: ml_ok_def)
  have "ml_ok ?g"
    using assms h init_str_hash_ok(1)
    by (auto simp: ml_ok_def inj_on_def less_Suc_eq split: if_splits) (metis less_irrefl_nat option.sel domI)+
  moreover have "ml_lookup ?g = ml_lookup g"
    using assms(1) h(3) None init_str_hash_ok(2)
    by (auto simp: ml_lookup_def fun_eq_iff ml_ok_def nth_append split: option.splits bind_splits)
  ultimately show ?thesis using get h None by (simp add: key_list_def Let_def)
qed

text \<open>Putting a number under two keys.\<close>

lemma ml_insert:
  assumes "ml_ok g" "hash_map (ml_hash g) k1 = Some i" "key_ok k2" "ml_lookup g k1 k2 = None"
  shows "\<exists>h. set_str_hash (ml_lists g ! i) (Some k2) (Some msgid) = Inr (0, h) \<and>
    (\<forall>T. ml_ok (g\<lparr>ml_tables := T, ml_lists := (ml_lists g)[i := h]\<rparr>)) \<and>
    (\<forall>T a b. ml_lookup (g\<lparr>ml_tables := T, ml_lists := (ml_lists g)[i := h]\<rparr>) a b =
      (if a = k1 \<and> b = k2 then Some msgid else ml_lookup g a b))"
proof -
  have i: "i < length (ml_lists g)" "hash_ok (ml_lists g ! i)" using assms(1,2) by (auto simp: ml_ok_def)
  obtain h where h: "set_str_hash (ml_lists g ! i) (Some k2) (Some msgid) = Inr (0, h)" "hash_ok h"
    "hash_map h = (hash_map (ml_lists g ! i))(k2 \<mapsto> msgid)"
    using set_str_hash_ok [OF i(2) assms(3), of msgid] assms(2,4) by (auto simp: ml_lookup_def)
  let ?g = "\<lambda>T. g\<lparr>ml_tables := T, ml_lists := (ml_lists g)[i := h]\<rparr>"
  have "ml_ok (?g T)" for T
    using assms(1) h(2) set_update_subset_insert [of "ml_lists g" i h] by (auto simp: ml_ok_def)
  moreover have "ml_lookup (?g T) a b = (if a = k1 \<and> b = k2 then Some msgid else ml_lookup g a b)" for T a b
  proof (cases "hash_map (ml_hash g) a")
    case None
    then show ?thesis using assms(2) by (auto simp: ml_lookup_def)
  next
    case (Some j)
    have "a = k1" if "j = i"
      using that Some assms(1,2) by (auto simp: ml_ok_def dest!: inj_onD [where x = a and y = k1])
    moreover have "j < length (ml_lists g)" using Some assms(1) by (auto simp: ml_ok_def)
    ultimately show ?thesis
      using Some assms(2) h(3) i(1) by (cases "j = i") (auto simp: ml_lookup_def)
  qed
  ultimately show ?thesis using h(1) by blast
qed

text \<open>Sizes that are not negative are added exactly, or overflow.\<close>

lemma add_sizes_sums:
  assumes "\<forall>x \<in> set xs. 0 \<le> fst x \<and> 0 \<le> snd x" "0 \<le> lo" "0 \<le> hi"
  shows "add_sizes xs lo hi =
    (if lo + sum_list (map fst xs) < 2 ^ 31 \<and> hi + sum_list (map snd xs) < 2 ^ 31 \<or> xs = []
     then Inr (lo + sum_list (map fst xs), hi + sum_list (map snd xs)) else Inl Overflow)"
  using assms
proof (induction xs arbitrary: lo hi)
  case (Cons x xs)
  have n: "0 \<le> sum_list (map fst xs)" "0 \<le> sum_list (map snd xs)" using Cons.prems(1) by (auto intro!: sum_list_nonneg)
  show ?case
  proof (cases "lo + fst x < 2 ^ 31 \<and> hi + snd x < 2 ^ 31")
    case True
    have "add_sizes (x # xs) lo hi = add_sizes xs (lo + fst x) (hi + snd x)" using True Cons.prems by simp
    also have "\<dots> = (if lo + fst x + sum_list (map fst xs) < 2 ^ 31 \<and> hi + snd x + sum_list (map snd xs) < 2 ^ 31 \<or> xs = []
      then Inr (lo + fst x + sum_list (map fst xs), hi + snd x + sum_list (map snd xs)) else Inl Overflow)"
      using Cons.prems by (intro Cons.IH) auto
    finally show ?thesis using True by (auto simp: add.assoc)
  next
    case False
    then have "add_sizes (x # xs) lo hi = Inl Overflow" using Cons.prems by (auto simp: c_int_def)
    then show ?thesis using False n by auto
  qed
qed simp

text \<open>
  The bodies the fields describe, with the names (31 characters at most), equals signs and ampersands, fit into a
  signed integer.
\<close>

definition fields_fit :: "pm_tcpmsg_field list \<Rightarrow> bool" where
  "fields_fit fs \<longleftrightarrow> (\<forall>p \<in> set fs. 0 \<le> pm_min p \<and> 0 \<le> pm_max p) \<and>
     sum_list (map pm_min fs) + 33 * int (length fs) < 2 ^ 31 \<and> sum_list (map pm_max fs) + 33 * int (length fs) < 2 ^ 31"

text \<open>What the names add to the sizes.\<close>

definition names_size :: "pm_tcpmsg_field list \<Rightarrow> int" where
  "names_size fs = sum_list (map (\<lambda>p. int (length (strncpy_cleared 31 (pm_field p))) + 1) fs) + (if length fs > 1 then int (length fs) - 1 else 0)"

lemma names_size_bound: "0 \<le> names_size fs" "names_size fs \<le> 33 * int (length fs)"
proof -
  have "0 \<le> sum_list (map (\<lambda>p. int (length (strncpy_cleared 31 (pm_field p))) + 1) fs)" by (intro sum_list_nonneg) auto
  then show "0 \<le> names_size fs" by (simp add: names_size_def)
  have "sum_list (map (\<lambda>p. int (length (strncpy_cleared 31 (pm_field p))) + 1) fs) \<le> sum_list (map (\<lambda>p. 32) fs)"
    by (intro sum_list_mono) (use length_strncpy_cleared [of 31] in fastforce)
  then show "names_size fs \<le> 33 * int (length fs)" by (simp add: names_size_def sum_list_triv)
qed

lemma regist_table:
  assumes "0 < msgid" "msgid < 65536" "ml_tables g msgid = None" "0 \<le> n" "n \<le> 1024" "n \<le> int (length flds)"
    and fit: "fields_fit (take (nat n) flds)"
  defines "fs \<equiv> take (nat n) flds"
  shows "\<exists>t. tcpmsg_regist g msgid flds n f = Inr (Some t) \<and> tm_id t = msgid \<and> tm_n t = nat n \<and> tm_domsg t = f \<and>
    tm_min_size t = sum_list (map pm_min fs) \<and> tm_max_size t = sum_list (map pm_max fs) \<and>
    map tf_name (tm_fields t) = map (\<lambda>p. strncpy_cleared 31 (pm_field p)) fs"
proof -
  have "copy_out 0 (nat n) flds = Inr fs" using assms(4,6) by (simp add: fs_def blk_def)
  moreover have "add_sizes (map (\<lambda>p. (pm_min p, pm_max p)) fs) 0 0 = Inr (sum_list (map pm_min fs), sum_list (map pm_max fs))"
    using fit by (subst add_sizes_sums) (auto simp: fields_fit_def comp_def fs_def)
  ultimately show ?thesis using assms(1-5) by (simp add: tcpmsg_regist_def)
qed

lemma add_pairs:
  "\<forall>x \<in> set xs. 0 \<le> x \<Longrightarrow> 0 \<le> lo \<Longrightarrow> 0 \<le> hi \<Longrightarrow> lo + sum_list xs < 2 ^ 31 \<Longrightarrow> hi + sum_list xs < 2 ^ 31 \<Longrightarrow>
    add_sizes (map (\<lambda>l. (l, l)) xs) lo hi = Inr (lo + sum_list xs, hi + sum_list xs)"
  by (subst add_sizes_sums) (auto simp: comp_def)

lemma regist_names:
  assumes "fields_fit fs" "map tf_name (tm_fields t) = map (\<lambda>p. strncpy_cleared 31 (pm_field p)) fs" "n = int (length fs)"
  shows "add_sizes (map (\<lambda>l. (l, l)) (map (\<lambda>x. int (length (tf_name x)) + 1) (tm_fields t) @ (if n > 1 then [n - 1] else [])))
      (sum_list (map pm_min fs)) (sum_list (map pm_max fs)) =
    Inr (sum_list (map pm_min fs) + names_size fs, sum_list (map pm_max fs) + names_size fs)"
proof -
  let ?xs = "map (\<lambda>x. int (length (tf_name x)) + 1) (tm_fields t) @ (if n > 1 then [n - 1] else [])"
  have "map (\<lambda>x. int (length x) + 1) (map tf_name (tm_fields t)) = map (\<lambda>p. int (length (strncpy_cleared 31 (pm_field p))) + 1) fs"
    unfolding assms(2) by simp
  then have m: "map (\<lambda>x. int (length (tf_name x)) + 1) (tm_fields t) = map (\<lambda>p. int (length (strncpy_cleared 31 (pm_field p))) + 1) fs"
    by (simp add: comp_def)
  have s: "sum_list ?xs = names_size fs" unfolding m by (simp add: names_size_def assms(3))
  have p: "\<forall>x \<in> set ?xs. 0 \<le> x" by auto
  have "0 \<le> sum_list (map pm_min fs)" "0 \<le> sum_list (map pm_max fs)" using assms(1) by (auto simp: fields_fit_def intro!: sum_list_nonneg)
  moreover have "sum_list (map pm_min fs) + names_size fs < 2 ^ 31" "sum_list (map pm_max fs) + names_size fs < 2 ^ 31"
    using assms(1) names_size_bound [of fs] by (simp_all add: fields_fit_def)
  ultimately show ?thesis using add_pairs [OF p, of "sum_list (map pm_min fs)" "sum_list (map pm_max fs)"] unfolding s by blast
qed

text \<open>
  C26. A string message that is registered is found again under both keys: for keys of at
  most 63 characters that do not start with a tab, and fields whose sizes fit into a signed integer, a registration that answers 0 stores the
  number under exactly this pair of keys - all other pairs keep what they had -, enters a
  table with the given handler under the number, which was free, and leaves a well-formed
  registry; the smallest and the largest body of the table are the sums of those of the fields, with the names, an equals sign for
  each and an ampersand between two. It answers \<open>-1\<close> and changes nothing when the pair is in use, the number is taken
  or not within 1 to 65535, or the number of fields is out of range; and it does not fault when
  the caller's array holds the fields it announces.
\<close>

theorem tcpmsg_regist_string_ok:
  assumes "ml_ok g" "reg_key_ok k1" "reg_key_ok k2" "n \<le> int (length flds)" "fields_fit (take (nat n) flds)"
  shows "\<exists>r g'. tcpmsg_regist_string g (Some k1) (Some k2) msgid flds n f = Inr (r, g') \<and>
    (if msgid \<le> 0 \<or> msgid \<ge> 65536 \<or> ml_tables g msgid \<noteq> None \<or> n < 0 \<or> n > 1024 \<or> ml_lookup g k1 k2 \<noteq> None
     then r = -1 \<and> g' = g
     else r = 0 \<and> ml_ok g' \<and>
       (\<forall>a b. ml_lookup g' a b = (if a = k1 \<and> b = k2 then Some msgid else ml_lookup g a b)) \<and>
       (\<exists>t. ml_tables g' = (ml_tables g)(msgid \<mapsto> t) \<and> tm_id t = msgid \<and> tm_domsg t = f \<and> tm_n t = nat n \<and>
         tm_min_size t = sum_list (map pm_min (take (nat n) flds)) + names_size (take (nat n) flds) \<and>
         tm_max_size t = sum_list (map pm_max (take (nat n) flds)) + names_size (take (nat n) flds)))"
proof (cases "msgid \<le> 0 \<or> msgid \<ge> 65536 \<or> ml_tables g msgid \<noteq> None \<or> n < 0 \<or> n > 1024")
  case True
  then show ?thesis
    using assms(2,3) by (auto simp: tcpmsg_regist_string_def tcpmsg_regist_def reg_key_ok_def)
next
  case False
  let ?fs = "take (nat n) flds"
  obtain t where t: "tcpmsg_regist g msgid flds n f = Inr (Some t)" and
    tab: "tm_id t = msgid" "tm_n t = nat n" "tm_domsg t = f" "tm_min_size t = sum_list (map pm_min ?fs)"
      "tm_max_size t = sum_list (map pm_max ?fs)" "map tf_name (tm_fields t) = map (\<lambda>p. strncpy_cleared 31 (pm_field p)) ?fs"
    using regist_table [of msgid g n flds f] assms(4,5) False by auto
  have n: "n = int (length ?fs)" using assms(4) False by simp
  note sizes = regist_names [OF assms(5) tab(6) n]
  have k: "key_ok k1" "key_ok k2" "k1 \<noteq> []" "k2 \<noteq> []" "strncpy_cleared 63 k1 = k1" "strncpy_cleared 63 k2 = k2"
    using assms(2,3) reg_key_stored by (auto simp: reg_key_ok_def)
  obtain i g1 where g1: "key_list g k1 k1 = Inr (i, hash_map (ml_hash g) k1 = None, g1)" "ml_ok g1"
    "hash_map (ml_hash g1) k1 = Some i" "i < length (ml_lists g1)" "ml_tables g1 = ml_tables g" "ml_lookup g1 = ml_lookup g"
    using key_list_ok [OF assms(1) k(1)] by blast
  have get: "get_str_hash (ml_lists g1 ! i) (Some k2) = Inr (ml_lookup g k1 k2)"
  proof -
    have "ml_lookup g k1 k2 = hash_map (ml_lists g1 ! i) k2"
      using g1(3) by (simp flip: g1(6) add: ml_lookup_def)
    then show ?thesis
      using get_str_hash_ok [of "ml_lists g1 ! i" k2] g1(2,4) k(2) by (simp add: ml_ok_def)
  qed
  have new: "hash_map (ml_hash g) k1 = None \<Longrightarrow> ml_lookup g k1 k2 = None" by (simp add: ml_lookup_def)
  show ?thesis
  proof (cases "ml_lookup g k1 k2")
    case (Some j)
    then show ?thesis
      using False t k g1(1) get new by (auto simp: tcpmsg_regist_string_def Let_def)
  next
    case None
    obtain h where h: "set_str_hash (ml_lists g1 ! i) (Some k2) (Some msgid) = Inr (0, h)"
      "\<And>T. ml_ok (g1\<lparr>ml_tables := T, ml_lists := (ml_lists g1)[i := h]\<rparr>)"
      "\<And>T a b. ml_lookup (g1\<lparr>ml_tables := T, ml_lists := (ml_lists g1)[i := h]\<rparr>) a b =
        (if a = k1 \<and> b = k2 then Some msgid else ml_lookup g1 a b)"
      using ml_insert [OF g1(2,3) k(2), of msgid] None g1(6) by auto
    let ?t = "t\<lparr>tm_key1 := k1, tm_key2 := k2, tm_min_size := sum_list (map pm_min ?fs) + names_size ?fs,
      tm_max_size := sum_list (map pm_max ?fs) + names_size ?fs\<rparr>"
    have "(if hash_map (ml_hash g) k1 = None then Inr None else get_str_hash (ml_lists g1 ! i) (Some k2)) = (Inr None :: fault + int option)"
      using get None by simp
    then have "tcpmsg_regist_string g (Some k1) (Some k2) msgid flds n f =
        Inr (0, g1\<lparr>ml_tables := (ml_tables g1)(msgid \<mapsto> ?t), ml_lists := (ml_lists g1)[i := h]\<rparr>)"
      using k h(1) sizes tab(4,5) by (simp add: tcpmsg_regist_string_def Let_def t g1(1))
    then show ?thesis using False None h(2,3) g1(5,6) tab by auto
  qed
qed

theorem tcpmsg_regist_string_ok_witness:
  "\<exists>g' :: string tcpmsg_list. tcpmsg_regist_string \<lparr>ml_tables = (\<lambda>_. None), ml_hash = init_str_hash, ml_lists = []\<rparr>
      (Some ''user'') (Some ''login'') 5 [\<lparr>pm_field = ''name'', pm_type = 0, pm_min = 1, pm_max = 20\<rparr>] 1 ''h'' = Inr (0, g') \<and>
    ml_lookup g' ''user'' ''login'' = Some 5"
proof -
  let ?g = "\<lparr>ml_tables = (\<lambda>_. None), ml_hash = init_str_hash, ml_lists = []\<rparr> :: string tcpmsg_list"
  have "ml_ok ?g" "ml_lookup ?g ''user'' ''login'' = None" by (simp_all add: ml_ok_def init_str_hash_ok ml_lookup_def)
  moreover have "fields_fit (take (nat 1) [\<lparr>pm_field = ''name'', pm_type = 0, pm_min = 1, pm_max = 20\<rparr>])" by (simp add: fields_fit_def)
  ultimately show ?thesis
    using tcpmsg_regist_string_ok [of ?g "''user''" "''login''" 1 "[\<lparr>pm_field = ''name'', pm_type = 0, pm_min = 1, pm_max = 20\<rparr>]" 5 "''h''"]
    by (auto simp: reg_key_ok_def key_ok_def)
qed

end
