(* ===== verification/TcpConnection.thy ===== *)
theory TcpConnection
  imports TcpMsgList TcpQueue
begin

text \<open>
  \<open>antlib/tcplib/tcp_connection.c\<close> and \<open>tcp_connection.h\<close>: one connection, its receive buffer
  and its queue of messages to send. The socket calls are given by their outcomes; the
  protocol of a connection is an element of \<open>'p\<close> with its operations as arguments of
  \<open>tcpconnection_recv\<close>, as in the code, where they are function pointers. The expansion slots
  the protocols use are fields of their own (\<open>TPD_IP\<close>, \<open>TPD_PORT\<close>, \<open>TPD_USERID\<close>, \<open>TPD_MSG\<close>,
  \<open>TPD_MSGBEGIN\<close>, \<open>TPD_MSGOFF\<close>, \<open>TPD_CLOSECAUSE\<close>).
\<close>

section \<open>State\<close>

definition TCPCONNECTION_BUFLEN :: nat where
  "TCPCONNECTION_BUFLEN = 8192 - 8 * 128"

datatype tcpstate = TCPSTATE_CONNECTING | TCPSTATE_NOTHNG | TCPSTATE_SEND

text \<open>A message to send: how much of it was sent (kept in \<open>_userid\<close>), its number and its bytes.\<close>

record out_msg =
  om_userid :: u64
  om_msgid :: int
  om_data :: "char list"

record ('f, 'p) tcp_connection =
  cn_protocol :: "'p option"
  cn_id :: u64
  cn_open :: bool
  cn_active_time :: u32
  cn_type :: int
  cn_state :: tcpstate
  cn_offset :: nat
  cn_sendqueue :: "out_msg tcp_queue"
  cn_ip :: u32
  cn_port :: int
  cn_userid :: u64
  cn_msg :: "'f tcpmsg option"
  cn_msgbegin :: nat
  cn_msgoff :: nat
  cn_cause :: "string option"
  cn_buf :: "char list"

section \<open>Opening and closing\<close>

text \<open>\<open>mainid\<close> is the counter the identifiers are drawn from; the upper half keeps the slot.\<close>

definition tcpconnection_init ::
  "u32 \<Rightarrow> u32 \<Rightarrow> bool \<Rightarrow> tcpstate \<Rightarrow> u32 \<Rightarrow> int \<Rightarrow> int \<Rightarrow> 'p option \<Rightarrow> ('f, 'p) tcp_connection \<Rightarrow>
   fault + u32 \<times> ('f, 'p) tcp_connection" where
  "tcpconnection_init now mainid open state ip port type p c =
     rbind (reset_tcpqueue (cn_sendqueue c)) (\<lambda>q.
     Inr (mainid + 1,
       c\<lparr>cn_id := ((cn_id c AND (NOT 0x00FF0000FFFFFFFF)) OR (push_bit 48 0x0F) OR ucast mainid),
         cn_protocol := p, cn_active_time := now, cn_open := open, cn_type := type, cn_state := state,
         cn_offset := 0, cn_sendqueue := q, cn_ip := ip, cn_port := port\<rparr>))"

definition tcpconnection_close :: "string \<Rightarrow> ('f, 'p) tcp_connection \<Rightarrow> ('f, 'p) tcp_connection" where
  "tcpconnection_close cause c = c\<lparr>cn_open := False, cn_cause := Some cause\<rparr>"

definition tcpconnection_is_empty :: "('f, 'p) tcp_connection \<Rightarrow> bool" where
  "tcpconnection_is_empty c = (tq_count (cn_sendqueue c) = 0)"

definition tcpconnection_is_timeout :: "u32 \<Rightarrow> ('f, 'p) tcp_connection \<Rightarrow> bool" where
  "tcpconnection_is_timeout t c = (if cn_type c = 1 then False else cn_active_time c < t)"

section \<open>Sending\<close>

text \<open>The message is queued, or given back when the queue of an accepted connection is full.\<close>

definition tcpconnection_add_msg :: "out_msg \<Rightarrow> ('f, 'p) tcp_connection \<Rightarrow> fault + bool \<times> ('f, 'p) tcp_connection" where
  "tcpconnection_add_msg msg c =
     (if cn_type c = 0 \<and> tq_count (cn_sendqueue c) \<ge> int TCPQUEUE_NODE
      then Inr (False, tcpconnection_close ''by send queue full'' c)
      else rbind (push_tcpqueue (msg\<lparr>om_userid := 0\<rparr>) (cn_sendqueue c)) (\<lambda>q.
        Inr (True, c\<lparr>cn_sendqueue := q\<rparr>)))"

text \<open>
  The pointer at the head of the queue, as the send loop uses it: with an empty queue it is
  a cell that was never written or a message that was given back.
\<close>

definition send_head :: "out_msg tcp_queue \<Rightarrow> fault + out_msg" where
  "send_head qu =
     rbind (tcpqueue_head qu) (\<lambda>m. if tq_count qu > 0 then Inr m else Inl UseAfterFree)"

text \<open>The outcome of \<open>tcp_write\<close>: a number of bytes (0 when the socket is not ready) or an error.\<close>

datatype write_result = Wrote nat | WriteError

text \<open>
  The loop of \<open>_tcpconnection_send_msg\<close>, one outcome per turn; after the last outcome the
  socket is not ready. The messages completed are listed.
\<close>

fun send_loop ::
  "write_result list \<Rightarrow> out_msg \<Rightarrow> ('f, 'p) tcp_connection \<Rightarrow> fault + int \<times> out_msg list \<times> ('f, 'p) tcp_connection" where
  "send_loop ws msg c =
     (if \<not> cn_open c then Inr (1, [], c)
      else case ws of
        [] \<Rightarrow> Inr (1, [], c)
      | WriteError # _ \<Rightarrow> Inr (0, [], tcpconnection_close ''send net error'' c)
      | Wrote len # ws' \<Rightarrow>
          if len = 0 then Inr (1, [], c)
          else let off = unat (om_userid msg)
          in if len + off = length (om_data msg) then
               let q = pop_tcpqueue (cn_sendqueue c); c = c\<lparr>cn_sendqueue := q\<rparr>
               in rbind (send_head q) (\<lambda>m.
                  rbind (send_loop ws' m c) (\<lambda>(r, sent, c). Inr (r, msg # sent, c)))
             else
               rbind (deref (tq_queue (cn_sendqueue c))) (\<lambda>cells.
               rbind (wr cells (tq_head (cn_sendqueue c)) (Some (msg\<lparr>om_userid := om_userid msg + word_of_nat len\<rparr>))) (\<lambda>cells.
               Inr (1, [], c\<lparr>cn_sendqueue := (cn_sendqueue c)\<lparr>tq_queue := Some cells\<rparr>\<rparr>))))"

declare send_loop.simps [simp del]

definition tcpconnection_send_msg ::
  "write_result list \<Rightarrow> ('f, 'p) tcp_connection \<Rightarrow> fault + int \<times> out_msg list \<times> ('f, 'p) tcp_connection" where
  "tcpconnection_send_msg ws c =
     (if tq_size (cn_sendqueue c) = 0 then Inr (0, [], c)
      else rbind (send_head (cn_sendqueue c)) (\<lambda>m. send_loop ws m c))"

section \<open>Receiving\<close>

text \<open>The outcome of \<open>tcp_read\<close>: the bytes (none when the socket is not ready) or an error.\<close>

datatype read_result = Bytes "char list" | ReadError

text \<open>At most \<open>len\<close> bytes are stored at an offset of the buffer; a read error closes the socket.\<close>

definition tcp_read ::
  "read_result list \<Rightarrow> nat \<Rightarrow> nat \<Rightarrow> ('f, 'p) tcp_connection \<Rightarrow>
   fault + nat \<times> read_result list \<times> ('f, 'p) tcp_connection" where
  "tcp_read rs off len c =
     (case rs of
        [] \<Rightarrow> Inr (0, [], c)
      | ReadError # rs' \<Rightarrow> Inr (0, rs', c\<lparr>cn_open := False\<rparr>)
      | Bytes xs # rs' \<Rightarrow>
          let ys = take len xs
          in rbind (copy_in (int off) ys (cn_buf c)) (\<lambda>b. Inr (length ys, rs', c\<lparr>cn_buf := b\<rparr>)))"

text \<open>
  The loop of \<open>tcpconnection_recv\<close> after the first read of \<open>n\<close> bytes. \<open>readed\<close> is the protocol's
  \<open>_readed_data\<close>.
\<close>

function recv_loop ::
  "('p \<Rightarrow> nat \<Rightarrow> ('f, 'p) tcp_connection \<Rightarrow> fault + ('f, 'p) tcp_connection \<times> 'f delivery list) \<Rightarrow>
   read_result list \<Rightarrow> nat \<Rightarrow> ('f, 'p) tcp_connection \<Rightarrow> fault + ('f, 'p) tcp_connection \<times> 'f delivery list" where
  "recv_loop readed rs n c =
     (if n > 0 \<and> cn_open c then
        rbind (deref (cn_protocol c)) (\<lambda>p.
        rbind (readed p n c) (\<lambda>(c, ds).
          if cn_open c then
            rbind (c_assert (cn_offset c < TCPCONNECTION_BUFLEN)) (\<lambda>_.
            case tcp_read rs (cn_offset c) (TCPCONNECTION_BUFLEN - cn_offset c) c of
              Inl e \<Rightarrow> Inl e
            | Inr (n, rs', c) \<Rightarrow>
                if rs = [] then Inr (c, ds)
                else rbind (recv_loop readed rs' n c) (\<lambda>(c, es). Inr (c, ds @ es)))
          else Inr (c, ds)))
      else Inr (c, []))"
  by pat_completeness auto
termination
  by (relation "measure (\<lambda>(f, rs, n, c). length rs)")
    (auto simp: tcp_read_def rbind_Inr_iff Let_def split: list.splits read_result.splits)

declare recv_loop.simps [simp del]

text \<open>
  The first read goes to the start of the buffer. \<open>create\<close> chooses a protocol from the first
  four bytes, \<open>connected\<close> is its \<open>_connected\<close>.
\<close>

definition tcpconnection_recv ::
  "(char list \<Rightarrow> 'p option) \<Rightarrow> ('p \<Rightarrow> ('f, 'p) tcp_connection \<Rightarrow> ('f, 'p) tcp_connection) \<Rightarrow>
   ('p \<Rightarrow> nat \<Rightarrow> ('f, 'p) tcp_connection \<Rightarrow> fault + ('f, 'p) tcp_connection \<times> 'f delivery list) \<Rightarrow>
   u32 \<Rightarrow> read_result list \<Rightarrow> ('f, 'p) tcp_connection \<Rightarrow> fault + ('f, 'p) tcp_connection \<times> 'f delivery list" where
  "tcpconnection_recv create connected readed now rs c =
     (if \<not> cn_open c then Inr (c, [])
      else rbind (tcp_read rs 0 TCPCONNECTION_BUFLEN c) (\<lambda>(n, rs, c).
        let finish = (\<lambda>c. rbind (recv_loop readed rs n c) (\<lambda>(c, ds).
              Inr (if \<not> cn_open c then tcpconnection_close ''receive error'' c else c\<lparr>cn_active_time := now\<rparr>, ds)))
        in case cn_protocol c of
             Some _ \<Rightarrow> finish c
           | None \<Rightarrow>
               if n < 4 then Inr (tcpconnection_close ''first receive error'' c, [])
               else case create (take 4 (cn_buf c)) of
                 None \<Rightarrow> Inr (tcpconnection_close ''set protocol error'' c, [])
               | Some p \<Rightarrow> finish (connected p (c\<lparr>cn_protocol := Some p\<rparr>))))"

section \<open>Resetting the buffer\<close>

text \<open>
  \<open>tcp_resetbuf\<close> of \<open>protocollib/tcp_protocol.c\<close>: the unused bytes move to the front;
  \<open>TPD_MSGBEGIN\<close> goes back to 0 only when there are none.
\<close>

definition tcp_resetbuf :: "nat \<Rightarrow> nat \<Rightarrow> ('f, 'p) tcp_connection \<Rightarrow> fault + ('f, 'p) tcp_connection" where
  "tcp_resetbuf b e c =
     rbind (c_assert (e \<ge> b \<and> e < TCPCONNECTION_BUFLEN)) (\<lambda>_.
     if e > b then
       rbind (copy_out (int b) (e - b) (cn_buf c)) (\<lambda>xs.
       rbind (copy_in 0 xs (cn_buf c)) (\<lambda>buf.
       Inr (c\<lparr>cn_buf := buf, cn_offset := e - b\<rparr>)))
     else Inr (c\<lparr>cn_offset := 0, cn_msgbegin := 0\<rparr>))"

section \<open>Properties\<close>

lemma send_head_Inr: "send_head q = Inr m \<Longrightarrow> 0 < tq_count q"
  by (auto simp: send_head_def rbind_Inr_iff split: if_splits)

lemma send_loop_count:
  "send_loop ws m c = Inr (r, sent, c') \<Longrightarrow> 0 < tq_count (cn_sendqueue c) \<Longrightarrow>
   tq_count (cn_sendqueue c') = tq_count (cn_sendqueue c) - int (length sent) \<and> 0 < tq_count (cn_sendqueue c')"
proof (induction ws arbitrary: m c r sent)
  case Nil
  then show ?case by (subst (asm) send_loop.simps) (auto split: if_splits)
next
  case (Cons w ws)
  show ?case
  proof (cases "cn_open c \<and> (\<exists>len. w = Wrote len \<and> 0 < len \<and> len + unat (om_userid m) = length (om_data m))")
    case False
    then show ?thesis
      using Cons.prems
      by (subst (asm) send_loop.simps)
        (auto simp: tcpconnection_close_def rbind_Inr_iff Let_def split: write_result.splits if_splits)
  next
    case True
    then obtain len where w: "cn_open c" "w = Wrote len" "0 < len" "len + unat (om_userid m) = length (om_data m)"
      by blast
    let ?q = "pop_tcpqueue (cn_sendqueue c)"
    obtain m' sent' where m': "send_head ?q = Inr m'"
      "send_loop ws m' (c\<lparr>cn_sendqueue := ?q\<rparr>) = Inr (r, sent', c')" "sent = m # sent'"
      using Cons.prems(1) w by (subst (asm) send_loop.simps) (auto simp: rbind_Inr_iff Let_def)
    have "0 < tq_count ?q" using send_head_Inr [OF m'(1)] .
    then show ?thesis
      using Cons.IH [OF m'(2)] m'(3) by (simp add: pop_tcpqueue_def)
  qed
qed

text \<open>
  A connection cannot send all it has queued: the loop looks at the head of the queue
  again after the last message, where there is a cell that was never written or the pointer
  to a message already given back. So whatever the socket accepts, a call that returns
  leaves at least one message in the queue, and a call on an empty queue of a used
  connection never returns.
\<close>

theorem tcpconnection_send_never_drains:
  assumes "tq_size (cn_sendqueue c) \<noteq> 0"
  shows "case tcpconnection_send_msg ws c of
      Inl e \<Rightarrow> True
    | Inr (r, sent, c') \<Rightarrow> int (length sent) < tq_count (cn_sendqueue c) \<and> 0 < tq_count (cn_sendqueue c') \<and>
        tq_count (cn_sendqueue c') = tq_count (cn_sendqueue c) - int (length sent)"
proof (cases "tcpconnection_send_msg ws c")
  case (Inr x)
  obtain r sent c' where x: "x = (r, sent, c')" by (cases x)
  obtain m where m: "send_head (cn_sendqueue c) = Inr m" "send_loop ws m c = Inr (r, sent, c')"
    using Inr assms by (auto simp: tcpconnection_send_msg_def rbind_Inr_iff x)
  show ?thesis using send_loop_count [OF m(2) send_head_Inr [OF m(1)]] Inr x by simp
qed simp

definition conn1 :: "(nat, nat) tcp_connection" where
  "conn1 = \<lparr>cn_protocol = Some 0, cn_id = 0, cn_open = True, cn_active_time = 0, cn_type = 0, cn_state = TCPSTATE_NOTHNG,
     cn_offset = 3, cn_sendqueue = \<lparr>tq_size = 128, tq_head = 0, tq_tail = 1, tq_count = 1,
       tq_queue = Some (Some \<lparr>om_userid = 0, om_msgid = 5, om_data = ''hello''\<rparr> # replicate 127 None)\<rparr>,
     cn_ip = 0, cn_port = 0, cn_userid = 0, cn_msg = None, cn_msgbegin = 0, cn_msgoff = 0, cn_cause = None,
     cn_buf = ''abc'' @ replicate 7165 NUL\<rparr>"

theorem tcpconnection_send_never_drains_witness:
  "\<not> (\<exists>r m c'. tcpconnection_send_msg [Wrote 5] conn1 = Inr (r, [m], c'))"
  using tcpconnection_send_never_drains [of conn1 "[Wrote 5]"] by (auto simp: conn1_def)

text \<open>
  A receive starts at the front of the buffer whatever is pending: bytes that an earlier
  receive left there (for instance the first part of a message header) are overwritten by the
  first bytes read, while the offset still counts them; the protocol is then told of the new
  bytes behind them.
\<close>

theorem tcpconnection_recv_overwrites_pending:
  assumes "cn_open c" "cn_protocol c = Some p" "length (cn_buf c) = TCPCONNECTION_BUFLEN"
    "length xs \<le> TCPCONNECTION_BUFLEN" "xs \<noteq> []" "cn_offset c \<le> length xs"
  shows "take (length xs) (put 0 xs (cn_buf c)) = xs \<and>
    take (cn_offset c) (put 0 xs (cn_buf c)) = take (cn_offset c) xs \<and>
    tcpconnection_recv create connected readed now [Bytes xs] c =
      rbind (readed p (length xs) (c\<lparr>cn_buf := put 0 xs (cn_buf c)\<rparr>)) (\<lambda>(c, ds).
        if cn_open c then rbind (c_assert (cn_offset c < TCPCONNECTION_BUFLEN)) (\<lambda>_. Inr (c\<lparr>cn_active_time := now\<rparr>, ds))
        else Inr (tcpconnection_close ''receive error'' c, ds))"
proof -
  let ?c1 = "c\<lparr>cn_buf := put 0 xs (cn_buf c)\<rparr>"
  have rd: "tcp_read [Bytes xs] 0 TCPCONNECTION_BUFLEN c = Inr (length xs, [], ?c1)"
    using assms by (simp add: tcp_read_def)
  have "tcpconnection_recv create connected readed now [Bytes xs] c =
      rbind (readed p (length xs) ?c1) (\<lambda>(c, ds).
        if cn_open c then rbind (c_assert (cn_offset c < TCPCONNECTION_BUFLEN)) (\<lambda>_. Inr (c\<lparr>cn_active_time := now\<rparr>, ds))
        else Inr (tcpconnection_close ''receive error'' c, ds))"
    using assms(1,2,5) rd
    by (cases "readed p (length xs) ?c1")
      (auto simp: tcpconnection_recv_def Let_def recv_loop.simps [of readed "[]"] tcp_read_def split: prod.splits)
  then show ?thesis using assms(6) by (simp add: put_def)
qed

theorem tcpconnection_recv_overwrites_pending_witness:
  "tcpconnection_recv (\<lambda>_. None) (\<lambda>_ c. c) (\<lambda>_ n c. Inr (c\<lparr>cn_offset := cn_offset c + n\<rparr>, [])) 9 [Bytes ''WXYZ''] conn1 =
     Inr (conn1\<lparr>cn_buf := ''WXYZ'' @ replicate 7164 NUL, cn_offset := 7, cn_active_time := 9\<rparr>, [])"
  using tcpconnection_recv_overwrites_pending [of conn1 0 "''WXYZ''" "\<lambda>_. None" "\<lambda>_ c. c"
      "\<lambda>_ n c. Inr (c\<lparr>cn_offset := cn_offset c + n\<rparr>, [])" 9]
  by (simp add: conn1_def TCPCONNECTION_BUFLEN_def put_def)

end
