(* ===== verification/TcpProtocols.thy ===== *)
theory TcpProtocols
  imports TcpConnection
begin

text \<open>
  The binary protocols of \<open>antlib/protocollib\<close>: the operations they share
  (\<open>tcp_protocol.c\<close>), the two framings of \<open>tcp_protocol4.c\<close>, that of \<open>tcp_protocol12.c\<close>, the
  policy answer of \<open>tcp_protocol_flash.c\<close>, and the choice of a protocol in \<open>protocollib.c\<close>.
  \<open>be\<close> is the byte order of the host, \<open>old\<close> what fresh message memory holds, \<open>g\<close> the
  registry of messages.
\<close>

section \<open>Shared operations\<close>

type_synonym ('f, 'p) conn = "('f, 'p) tcp_connection"

text \<open>The part of \<open>tcp_connected\<close> for an accepted connection (no message, result 0).\<close>

definition tcp_connected :: "('f, 'p) conn \<Rightarrow> ('f, 'p) conn" where
  "tcp_connected c = c\<lparr>cn_userid := 0, cn_msg := None, cn_msgbegin := 0, cn_msgoff := 0\<rparr>"

text \<open>The message under construction is given back: it is returned.\<close>

definition tcp_closed :: "('f, 'p) conn \<Rightarrow> 'f tcpmsg option \<times> ('f, 'p) conn" where
  "tcp_closed c = (cn_msg c, c\<lparr>cn_msg := None\<rparr>)"

text \<open>The system messages a handler may send to a connection, and all others.\<close>

datatype domsg = CloseConnection string | SetUserId u64 | OtherMsg out_msg

definition tcp_domsg :: "domsg \<Rightarrow> ('f, 'p) conn \<Rightarrow> int \<times> ('f, 'p) conn" where
  "tcp_domsg msg c =
     (case msg of
        CloseConnection cause \<Rightarrow> (0, tcpconnection_close cause c)
      | SetUserId u \<Rightarrow> (0, c\<lparr>cn_userid := u\<rparr>)
      | OtherMsg _ \<Rightarrow> (-1, c))"

definition tcp4_do_msg :: "domsg \<Rightarrow> ('f, 'p) conn \<Rightarrow> fault + ('f, 'p) conn" where
  "tcp4_do_msg msg c =
     (case (tcp_domsg msg c, msg) of
        ((r, c'), OtherMsg m) \<Rightarrow> rbind (tcpconnection_add_msg m c') (\<lambda>(_, c). Inr c)
      | ((r, c'), _) \<Rightarrow> Inr c')"

section \<open>Parsing\<close>

text \<open>
  The second half of every parser: the bytes from \<open>TPD_MSGBEGIN\<close> on belong to the message
  under construction. The result is 0 when it is complete.
\<close>

definition add_body_range ::
  "string \<Rightarrow> 'f tcpmsg \<Rightarrow> ('f, 'p) conn \<Rightarrow> fault + int \<times> ('f, 'p) conn \<times> 'f delivery list" where
  "add_body_range cause msg c =
     (if cn_offset c > cn_msgbegin c then
        rbind (copy_out (int (cn_msgbegin c)) (cn_offset c - cn_msgbegin c) (cn_buf c)) (\<lambda>bytes.
        rbind (tcpmsg_putout_range msg (Some bytes) (int (cn_offset c - cn_msgbegin c))) (\<lambda>(n, msg, ds).
          if n \<ge> 0 then Inr (0, c\<lparr>cn_msg := None, cn_msgbegin := cn_msgbegin c + nat n\<rparr>, ds)
          else if n = -2 then Inr (-1, tcpconnection_close cause (c\<lparr>cn_msg := Some msg\<rparr>), ds)
          else Inr (-1, c\<lparr>cn_msg := Some msg, cn_msgbegin := cn_offset c\<rparr>, ds)))
      else Inr (-1, c, []))"

text \<open>
  The first half, from the number and length the header gave: an unknown message closes
  the connection, one without a body is complete.
\<close>

definition start_msg ::
  "string \<Rightarrow> string \<Rightarrow> string \<Rightarrow> nat \<Rightarrow> (nat \<Rightarrow> char) \<Rightarrow> 'f tcpmsg_list \<Rightarrow> int \<Rightarrow> int \<Rightarrow> u64 \<Rightarrow> ('f, 'p) conn \<Rightarrow>
   fault + int \<times> ('f, 'p) conn \<times> 'f delivery list" where
  "start_msg err1 err2 err3 head old g msgid msglen userid c =
     rbind (tcpmsg_getbyid old g msgid msglen userid (cn_id c) (cn_ip c)) (\<lambda>r.
     case r of
       None \<Rightarrow> Inr (-1, tcpconnection_close err1 c, [])
     | Some msg \<Rightarrow>
         let c = c\<lparr>cn_msgbegin := cn_msgbegin c + head\<rparr>
         in if msglen = 0 then
              rbind (tcpmsg_putout_range msg None 0) (\<lambda>(n, msg, ds).
                if n = -2 then Inr (-1, tcpconnection_close err2 c, ds) else Inr (0, c, ds))
            else add_body_range err3 msg (c\<lparr>cn_msg := Some msg\<rparr>))"

text \<open>
  \<open>_parse_net_tcp4msg\<close>: a header of 26 bytes with the length and the number of the message as
  32 bit numbers in the byte order of the host, at offsets 0 and 9.
\<close>

definition parse_net_tcp4msg ::
  "bool \<Rightarrow> (nat \<Rightarrow> char) \<Rightarrow> 'f tcpmsg_list \<Rightarrow> ('f, 'p) conn \<Rightarrow> fault + int \<times> ('f, 'p) conn \<times> 'f delivery list" where
  "parse_net_tcp4msg be old g c =
     (case cn_msg c of
        Some msg \<Rightarrow> add_body_range ''tcp4 parser error2'' msg c
      | None \<Rightarrow>
          if cn_msgbegin c + 26 > cn_offset c then Inr (-1, c, [])
          else rbind (copy_out (int (cn_msgbegin c)) 4 (cn_buf c)) (\<lambda>l.
            rbind (copy_out (int (cn_msgbegin c) + 9) 4 (cn_buf c)) (\<lambda>i.
            start_msg ''tcp4 error message'' ''tcp4 parser error'' ''tcp4 parser error2'' 26 old g
              (sint (load be i :: u32)) (sint (load be l :: u32)) (cn_userid c) c)))"

text \<open>
  \<open>_parse_tcp4msg\<close>: a header of 9 bytes, with 16 bit numbers in network order: the length of
  the message without the two length bytes, and the number at offset 6.
\<close>

definition parse_tcp4msg ::
  "bool \<Rightarrow> (nat \<Rightarrow> char) \<Rightarrow> 'f tcpmsg_list \<Rightarrow> ('f, 'p) conn \<Rightarrow> fault + int \<times> ('f, 'p) conn \<times> 'f delivery list" where
  "parse_tcp4msg be old g c =
     (case cn_msg c of
        Some msg \<Rightarrow> add_body_range ''tcp4 parser error2'' msg c
      | None \<Rightarrow>
          if cn_msgbegin c + 9 > cn_offset c then Inr (-1, c, [])
          else rbind (copy_out (int (cn_msgbegin c)) 2 (cn_buf c)) (\<lambda>l.
            rbind (copy_out (int (cn_msgbegin c) + 6) 2 (cn_buf c)) (\<lambda>i.
            start_msg ''tcp4 error message'' ''tcp4 parser error'' ''tcp4 parser error2'' 9 old g
              (uint (ntoh16 be i)) (uint (ntoh16 be l + 2 - 9 :: u16)) (cn_userid c) c)))"

text \<open>\<open>_parse_tcp12msg\<close>: user, number and length of the body in network order.\<close>

definition parse_tcp12msg ::
  "bool \<Rightarrow> (nat \<Rightarrow> char) \<Rightarrow> 'f tcpmsg_list \<Rightarrow> ('f, 'p) conn \<Rightarrow> fault + int \<times> ('f, 'p) conn \<times> 'f delivery list" where
  "parse_tcp12msg be old g c =
     (case cn_msg c of
        Some msg \<Rightarrow> add_body_range ''tcp12 parser error2'' msg c
      | None \<Rightarrow>
          if cn_msgbegin c + 12 > cn_offset c then Inr (-1, c, [])
          else rbind (copy_out (int (cn_msgbegin c)) 12 (cn_buf c)) (\<lambda>h.
            start_msg ''tcp12 error message'' ''tcp12 parser error'' ''tcp12 parser error2'' 12 old g
              (uint (ntoh16 be (blk 8 2 h))) (uint (ntoh16 be (blk 10 2 h))) (ntoh64 be (take 8 h)) c))"

text \<open>
  The loop \<open>while(parse(c) == 0)\<close>, with a bound on its turns; running out of it is the fault
  \<open>Spins\<close>. Every turn consumes bytes or completes a message, so that twice the number of
  bytes in the buffer and one turn more is enough.
\<close>

fun parse_all ::
  "(('f, 'p) conn \<Rightarrow> fault + int \<times> ('f, 'p) conn \<times> 'f delivery list) \<Rightarrow> nat \<Rightarrow> ('f, 'p) conn \<Rightarrow>
   fault + ('f, 'p) conn \<times> 'f delivery list" where
  "parse_all parse 0 c = Inl Spins"
| "parse_all parse (Suc k) c =
     rbind (parse c) (\<lambda>(r, c, ds).
       if r = 0 then rbind (parse_all parse k c) (\<lambda>(c, es). Inr (c, ds @ es))
       else Inr (c, ds))"

definition readed_data ::
  "(('f, 'p) conn \<Rightarrow> fault + int \<times> ('f, 'p) conn \<times> 'f delivery list) \<Rightarrow> nat \<Rightarrow> ('f, 'p) conn \<Rightarrow>
   fault + ('f, 'p) conn \<times> 'f delivery list" where
  "readed_data parse add c =
     (let c = c\<lparr>cn_offset := cn_offset c + add\<rparr>
      in rbind (parse_all parse (2 * cn_offset c + 2) c) (\<lambda>(c, ds).
         rbind (tcp_resetbuf (cn_msgbegin c) (cn_offset c) c) (\<lambda>c. Inr (c, ds))))"

definition tcp4_readed_data ::
  "bool \<Rightarrow> (nat \<Rightarrow> char) \<Rightarrow> 'f tcpmsg_list \<Rightarrow> nat \<Rightarrow> ('f, 'p) conn \<Rightarrow> fault + ('f, 'p) conn \<times> 'f delivery list" where
  "tcp4_readed_data be old g = readed_data (parse_net_tcp4msg be old g)"

definition tcp12_readed_data ::
  "bool \<Rightarrow> (nat \<Rightarrow> char) \<Rightarrow> 'f tcpmsg_list \<Rightarrow> nat \<Rightarrow> ('f, 'p) conn \<Rightarrow> fault + ('f, 'p) conn \<times> 'f delivery list" where
  "tcp12_readed_data be old g = readed_data (parse_tcp12msg be old g)"

section \<open>The policy answer\<close>

definition flash_request :: string where
  "flash_request = ''<cross-domain-policy/>''"

definition flash_answer :: string where
  "flash_answer = ''<cross-domain-policy><site-control permitted-cross-domain-policies='' @ [CHR 0x22] @ ''master-only'' @
     [CHR 0x22] @ ''/><allow-access-from domain='' @ [CHR 0x22] @ ''*'' @ [CHR 0x22] @ '' to-ports='' @ [CHR 0x22] @ ''*'' @
     [CHR 0x22] @ ''/></cross-domain-policy>''"

text \<open>\<open>_send_len\<close> is 149: the text and its terminating NUL; the comparison stops at a NUL of both.\<close>

definition flash_readed_data :: "nat \<Rightarrow> ('f, 'p) conn \<Rightarrow> fault + ('f, 'p) conn \<times> 'f delivery list" where
  "flash_readed_data add c =
     (if cn_offset c > 22 then Inr (tcpconnection_close ''flash error'' c, [])
      else let c = c\<lparr>cn_offset := cn_offset c + add\<rparr>
      in if cn_offset c \<ge> 22 then
           if take 22 (cn_buf c) = flash_request then
             rbind (tcpconnection_add_msg \<lparr>om_userid = 0, om_msgid = 0, om_data = flash_answer @ [NUL]\<rparr> c)
               (\<lambda>(_, c). Inr (c, []))
           else Inr (tcpconnection_close ''flash read error'' c, [])
         else Inr (c, []))"

section \<open>Choosing a protocol\<close>

datatype protocol = HTTP | TCP4 | TCP12 | FLASH

definition tcpprotocol_create_http :: "char list \<Rightarrow> protocol option" where
  "tcpprotocol_create_http buf = Some HTTP"

definition tcpprotocol_create_tcp4 :: "char list \<Rightarrow> protocol option" where
  "tcpprotocol_create_tcp4 buf = Some TCP4"

definition tcpprotocol_create_tcp12 :: "char list \<Rightarrow> protocol option" where
  "tcpprotocol_create_tcp12 buf = Some TCP12"

definition tcpprotocol_create_flash :: "char list \<Rightarrow> protocol option" where
  "tcpprotocol_create_flash buf = Some FLASH"

definition tcpprotocol_create_httpflash :: "char list \<Rightarrow> protocol option" where
  "tcpprotocol_create_httpflash buf =
     (if buf ! 0 = CHR ''G'' then
        if buf ! 1 = CHR ''E'' \<and> buf ! 2 = CHR ''T'' \<and> buf ! 3 = CHR '' '' then Some HTTP else None
      else if buf ! 0 = CHR ''P'' then
        if buf ! 1 = CHR ''O'' \<and> buf ! 2 = CHR ''S'' \<and> buf ! 3 = CHR ''T'' then Some HTTP else None
      else if buf ! 0 = CHR ''<'' then
        if buf ! 1 = CHR ''c'' \<and> buf ! 2 = CHR ''r'' \<and> buf ! 3 = CHR ''o'' then Some FLASH else None
      else None)"

definition tcpprotocol_create_user :: "char list \<Rightarrow> protocol option" where
  "tcpprotocol_create_user buf =
     (case tcpprotocol_create_httpflash buf of Some p \<Rightarrow> Some p | None \<Rightarrow> Some TCP4)"

section \<open>Framing\<close>

text \<open>
  What the read loop needs of a framing: a complete frame at \<open>TPD_MSGBEGIN\<close> is consumed by one
  call, which causes one delivery, and fewer bytes than a header leave the connection alone.
\<close>

locale frame_parser =
  fixes parse :: "('f, 'p) conn \<Rightarrow> fault + int \<times> ('f, 'p) conn \<times> 'f delivery list"
    and enc :: "'fr \<Rightarrow> char list"
    and hdr :: nat
    and ok :: "'fr \<Rightarrow> bool"
    and delivers :: "u64 \<Rightarrow> u64 \<Rightarrow> 'fr \<Rightarrow> 'f delivery \<Rightarrow> bool"
  assumes whole: "cn_msg c = None \<Longrightarrow> ok f \<Longrightarrow> cn_msgbegin c + length (enc f) \<le> cn_offset c \<Longrightarrow>
      cn_offset c \<le> length (cn_buf c) \<Longrightarrow> blk (cn_msgbegin c) (length (enc f)) (cn_buf c) = enc f \<Longrightarrow>
      \<exists>d. parse c = Inr (0, c\<lparr>cn_msgbegin := cn_msgbegin c + length (enc f)\<rparr>, [d]) \<and>
        delivers (cn_userid c) (cn_id c) f d"
    and short: "cn_msg c = None \<Longrightarrow> cn_offset c < cn_msgbegin c + hdr \<Longrightarrow> parse c = Inr (-1, c, [])"
    and header: "ok f \<Longrightarrow> 0 < hdr \<and> hdr \<le> length (enc f)"
begin

lemma parse_all_frames:
  "list_all ok fs \<Longrightarrow> cn_msg c = None \<Longrightarrow> cn_offset c \<le> length (cn_buf c) \<Longrightarrow>
   blk (cn_msgbegin c) (cn_offset c - cn_msgbegin c) (cn_buf c) = concat (map enc fs) @ rest \<Longrightarrow>
   cn_msgbegin c \<le> cn_offset c \<Longrightarrow> length rest < hdr \<Longrightarrow> length fs < k \<Longrightarrow>
   \<exists>ds. parse_all parse k c = Inr (c\<lparr>cn_msgbegin := cn_msgbegin c + length (concat (map enc fs))\<rparr>, ds) \<and>
     list_all2 (delivers (cn_userid c) (cn_id c)) fs ds"
proof (induction fs arbitrary: c k)
  case Nil
  obtain k' where k: "k = Suc k'" using Nil.prems(7) by (cases k) auto
  have "cn_offset c - cn_msgbegin c = length rest"
    using arg_cong [OF Nil.prems(4), of length] Nil.prems(3,5) by simp
  then show ?case using Nil.prems short [of c] by (simp add: k)
next
  case (Cons f fs)
  obtain k' where k: "k = Suc k'" using Cons.prems(7) by (cases k) auto
  let ?n = "length (enc f)" and ?b = "cn_msgbegin c"
  let ?c = "c\<lparr>cn_msgbegin := ?b + ?n\<rparr>"
  have tot: "cn_offset c - ?b = ?n + length (concat (map enc fs) @ rest)"
    using arg_cong [OF Cons.prems(4), of length] Cons.prems(3,5) by simp
  have split: "blk ?b ?n (cn_buf c) @ blk (?b + ?n) (length (concat (map enc fs) @ rest)) (cn_buf c) =
      enc f @ concat (map enc fs) @ rest"
    using Cons.prems(4) by (simp only: tot blk_append_split) simp
  have le: "?b + ?n \<le> cn_offset c" using tot Cons.prems(5) by linarith
  then have "length (blk ?b ?n (cn_buf c)) = ?n" using Cons.prems(3) by simp
  then have b1: "blk ?b ?n (cn_buf c) = enc f"
    and b2: "blk (?b + ?n) (length (concat (map enc fs) @ rest)) (cn_buf c) = concat (map enc fs) @ rest"
    using append_eq_append_conv [of "blk ?b ?n (cn_buf c)" "enc f"] split by blast+
  obtain d where d: "parse c = Inr (0, ?c, [d])" "delivers (cn_userid c) (cn_id c) f d"
    using whole [of c f] Cons.prems le b1 by auto
  have "cn_offset ?c - cn_msgbegin ?c = length (concat (map enc fs) @ rest)" using tot by simp
  then obtain ds where "parse_all parse k' ?c =
      Inr (?c\<lparr>cn_msgbegin := cn_msgbegin ?c + length (concat (map enc fs))\<rparr>, ds)"
    "list_all2 (delivers (cn_userid c) (cn_id c)) fs ds"
    using Cons.IH [of ?c k'] Cons.prems b2 le k by auto
  then show ?case using d by (simp add: k add.assoc)
qed

lemma frames_length: "list_all ok fs \<Longrightarrow> length fs \<le> length (concat (map enc fs))"
  by (induction fs) (use header in force)+

text \<open>A read that completes frames and may leave the beginning of a header.\<close>

lemma readed_frames:
  assumes "list_all ok fs" "cn_msg c = None" "cn_msgbegin c = 0" "cn_offset c + add < TCPCONNECTION_BUFLEN"
    "TCPCONNECTION_BUFLEN \<le> length (cn_buf c)"
    "take (cn_offset c + add) (cn_buf c) = concat (map enc fs) @ rest" "length rest < hdr"
  shows "\<exists>ds. readed_data parse add c =
      Inr (if rest = [] then c\<lparr>cn_offset := 0, cn_msgbegin := 0\<rparr>
           else c\<lparr>cn_offset := length rest, cn_msgbegin := length (concat (map enc fs)), cn_buf := put 0 rest (cn_buf c)\<rparr>, ds) \<and>
    list_all2 (delivers (cn_userid c) (cn_id c)) fs ds"
proof -
  let ?e = "cn_offset c + add" and ?b = "length (concat (map enc fs))"
  let ?c = "c\<lparr>cn_offset := ?e\<rparr>"
  have e: "?e = ?b + length rest"
    using arg_cong [OF assms(6), of length] assms(4,5) by simp
  have "length fs < 2 * ?e + 2" using frames_length [OF assms(1)] unfolding e by simp
  then obtain ds where ds: "parse_all parse (2 * ?e + 2) ?c = Inr (?c\<lparr>cn_msgbegin := ?b\<rparr>, ds)"
    "list_all2 (delivers (cn_userid c) (cn_id c)) fs ds"
    using parse_all_frames [of fs ?c rest "2 * ?e + 2"] assms by (auto simp: blk_def)
  have tail: "blk ?b (length rest) (cn_buf c) = rest"
  proof -
    have "blk ?b (length rest) (cn_buf c) = drop ?b (take ?e (cn_buf c))"
      by (simp add: blk_def e drop_take)
    then show ?thesis using assms(6) by simp
  qed
  have "tcp_resetbuf ?b ?e (?c\<lparr>cn_msgbegin := ?b\<rparr>) =
      Inr (if rest = [] then c\<lparr>cn_offset := 0, cn_msgbegin := 0\<rparr>
           else c\<lparr>cn_offset := length rest, cn_msgbegin := ?b, cn_buf := put 0 rest (cn_buf c)\<rparr>)"
    using assms(4,5) e tail by (auto simp: tcp_resetbuf_def)
  then show ?thesis using ds by (simp add: readed_data_def Let_def del: parse_all.simps)
qed

text \<open>Pending bytes in front of a message start that was not reset.\<close>

lemma readed_stuck:
  assumes "cn_msg c = None" "cn_offset c + add < cn_msgbegin c" "0 < hdr"
  shows "readed_data parse add c = Inl AssertFail"
  using assms short [of "c\<lparr>cn_offset := cn_offset c + add\<rparr>"]
  by (simp add: readed_data_def Let_def tcp_resetbuf_def numeral_2_eq_2)

end

section \<open>The framings of the code\<close>

text \<open>A delivery of a body to the handler of a message number.\<close>

definition delivered ::
  "'f tcpmsg_list \<Rightarrow> int \<Rightarrow> char list \<Rightarrow> u64 \<Rightarrow> u64 \<Rightarrow> 'f delivery \<Rightarrow> bool" where
  "delivered g msgid body userid netid = (\<lambda>(f, m, u, n).
     u = userid \<and> n = netid \<and> hm_userid m = userid \<and> hm_msgid m = msgid \<and>
     (\<exists>t. ml_tables g msgid = Some t \<and> f = tm_domsg t) \<and> st_off (hm_data m) = 0 \<and>
     st_len (hm_data m) = int (length body) \<and> take (length body) (st_buf (hm_data m)) = body)"

definition msg_ok :: "'f tcpmsg_list \<Rightarrow> int \<Rightarrow> char list \<Rightarrow> bool" where
  "msg_ok g msgid body \<longleftrightarrow>
     0 \<le> msgid \<and> msgid \<le> 65535 \<and> length body < TCPCONNECTION_BUFLEN \<and>
     (\<exists>t. ml_tables g msgid = Some t \<and> tm_n t \<le> 1024 \<and> size_ok t (int (length body)))"

lemma getbyid_ok:
  assumes "msg_ok g msgid body"
  shows "\<exists>m t. tcpmsg_getbyid old g msgid (int (length body)) userid netid ip = Inr (Some m) \<and>
    ml_tables g msgid = Some t \<and> hm_userid m = userid \<and> hm_msgid m = msgid \<and> st_tb (hm_data m) = t \<and>
    st_netid (hm_data m) = netid \<and> st_off (hm_data m) = 0 \<and> st_len (hm_data m) = int (length body) \<and>
    length body \<le> length (st_buf (hm_data m))"
proof -
  obtain t where t: "ml_tables g msgid = Some t" "tm_n t \<le> 1024" "size_ok t (int (length body))"
    "0 \<le> msgid" "msgid \<le> 65535" "length body < 7168"
    using assms by (auto simp: msg_ok_def TCPCONNECTION_BUFLEN_def)
  then show ?thesis
    using create_tcpstream_ok [of "int (length body)" "tm_n t" old userid msgid t netid ip]
    by (auto simp: tcpmsg_getbyid_def)
qed

lemma start_msg_whole:
  assumes "msg_ok g msgid body" "cn_msg c = None" "cn_msgbegin c + head + length body \<le> cn_offset c"
    "cn_offset c \<le> length (cn_buf c)" "blk (cn_msgbegin c + head) (length body) (cn_buf c) = body"
  shows "\<exists>d. start_msg e1 e2 e3 head old g msgid (int (length body)) userid c =
      Inr (0, c\<lparr>cn_msgbegin := cn_msgbegin c + head + length body\<rparr>, [d]) \<and>
    delivered g msgid body userid (cn_id c) d"
proof -
  obtain m t where m: "tcpmsg_getbyid old g msgid (int (length body)) userid (cn_id c) (cn_ip c) = Inr (Some m)"
    "ml_tables g msgid = Some t" "hm_userid m = userid" "hm_msgid m = msgid" "st_tb (hm_data m) = t"
    "st_netid (hm_data m) = cn_id c" "st_off (hm_data m) = 0" "st_len (hm_data m) = int (length body)"
    "length body \<le> length (st_buf (hm_data m))"
    using getbyid_ok [OF assms(1), of old userid "cn_id c" "cn_ip c"] by blast
  show ?thesis
  proof (cases "body = []")
    case True
    then show ?thesis
      using m assms(2) by (auto simp: start_msg_def tcpmsg_putout_range_def add_body_def Let_def delivered_def)
  next
    case False
    let ?b = "cn_msgbegin c + head"
    let ?bytes = "blk ?b (cn_offset c - ?b) (cn_buf c)"
    have ln: "length ?bytes = cn_offset c - ?b" using assms(3,4) by simp
    have "length body \<le> cn_offset c - ?b" using assms(3) by linarith
    then have tk: "take (length body) ?bytes = body" using assms(5) by (simp add: blk_def min_def)
    have fit: "st_len (hm_data m) \<le> int (length ([] :: char list) + length ?bytes)"
      using m(8) ln assms(3) by simp
    have p: "partial m []" using m(7-9) False by (simp add: partial_def)
    obtain b where b: "tcpmsg_putout_range m (Some ?bytes) (int (length ?bytes)) =
        Inr (st_len (hm_data m) - int (length ([] :: char list)), with_body m b 0,
          [(tm_domsg (st_tb (hm_data m)), with_body m b 0, hm_userid m, st_netid (hm_data m))])"
      "take (nat (st_len (hm_data m))) b = take (nat (st_len (hm_data m))) ([] @ ?bytes)"
      using putout_last [OF p fit] by blast
    let ?c = "c\<lparr>cn_msgbegin := ?b, cn_msg := Some m\<rparr>"
    have lt: "?b < cn_offset c" using assms(3) False by (cases body) auto
    have "copy_out (int ?b) (cn_offset c - ?b) (cn_buf c) = Inr ?bytes"
      unfolding copy_out_def nat_int using lt assms(4) by simp
    then have "add_body_range e3 m ?c = Inr (0, c\<lparr>cn_msgbegin := ?b + length body\<rparr>,
        [(tm_domsg t, with_body m b 0, userid, cn_id c)])"
      using lt b(1) ln m(3,5,6,8) assms(2) by (simp add: add_body_range_def del: of_nat_add of_nat_diff)
    then have "start_msg e1 e2 e3 head old g msgid (int (length body)) userid c =
      Inr (0, c\<lparr>cn_msgbegin := ?b + length body\<rparr>, [(tm_domsg t, with_body m b 0, userid, cn_id c)])"
      using m(1) False by (simp add: start_msg_def Let_def)
    moreover have "take (length body) b = body" using b(2) m(8) tk by simp
    ultimately show ?thesis using m by (auto simp: delivered_def)
  qed
qed

lemma blk_prefix:
  assumes "blk i n m = xs @ ys" "length xs + length ys = n" "i + n \<le> length m"
  shows "blk i (length xs) m = xs \<and> blk (i + length xs) (length ys) m = ys"
proof -
  have "blk i (length xs) m @ blk (i + length xs) (length ys) m = xs @ ys"
    using assms(1) by (simp flip: blk_append_split add: assms(2))
  moreover have "length (blk i (length xs) m) = length xs" using assms(2,3) by simp
  ultimately show ?thesis
    using append_eq_append_conv [of "blk i (length xs) m" xs] by blast
qed

subsection \<open>The 26 byte header\<close>

record net_frame =
  nf_head :: "char list"
  nf_body :: "char list"

definition nf_msgid :: "bool \<Rightarrow> net_frame \<Rightarrow> int" where
  "nf_msgid be f = sint (load be (blk 9 4 (nf_head f)) :: u32)"

definition nf_enc :: "net_frame \<Rightarrow> char list" where
  "nf_enc f = nf_head f @ nf_body f"

definition nf_ok :: "bool \<Rightarrow> 'f tcpmsg_list \<Rightarrow> net_frame \<Rightarrow> bool" where
  "nf_ok be g f \<longleftrightarrow> length (nf_head f) = 26 \<and>
     sint (load be (take 4 (nf_head f)) :: u32) = int (length (nf_body f)) \<and> msg_ok g (nf_msgid be f) (nf_body f)"

lemma blk_blk: "i + n \<le> k \<Longrightarrow> blk i n (blk j k m) = blk (j + i) n m"
  by (simp add: blk_def drop_take min_def add.commute)

lemma parse_net_whole:
  assumes "cn_msg c = None" "nf_ok be g f" "cn_msgbegin c + length (nf_enc f) \<le> cn_offset c"
    "cn_offset c \<le> length (cn_buf c)" "blk (cn_msgbegin c) (length (nf_enc f)) (cn_buf c) = nf_enc f"
  shows "\<exists>d. parse_net_tcp4msg be old g c = Inr (0, c\<lparr>cn_msgbegin := cn_msgbegin c + length (nf_enc f)\<rparr>, [d]) \<and>
    delivered g (nf_msgid be f) (nf_body f) (cn_userid c) (cn_id c) d"
proof -
  let ?b = "cn_msgbegin c"
  have h: "length (nf_head f) = 26" "sint (load be (take 4 (nf_head f)) :: u32) = int (length (nf_body f))"
    "msg_ok g (nf_msgid be f) (nf_body f)" using assms(2) by (simp_all add: nf_ok_def)
  have parts: "blk ?b 26 (cn_buf c) = nf_head f" "blk (?b + 26) (length (nf_body f)) (cn_buf c) = nf_body f"
    using blk_prefix [of ?b "length (nf_enc f)" "cn_buf c" "nf_head f" "nf_body f"] assms(3-5) h(1)
    by (simp_all add: nf_enc_def)
  have l: "blk ?b 4 (cn_buf c) = take 4 (nf_head f)"
    using blk_blk [of 0 4 26 ?b "cn_buf c"] parts(1) by (simp add: blk_def [of 0])
  have i: "blk (?b + 9) 4 (cn_buf c) = blk 9 4 (nf_head f)"
    using blk_blk [of 9 4 26 ?b "cn_buf c"] parts(1) by simp
  have rl: "copy_out (int ?b) 4 (cn_buf c) = Inr (take 4 (nf_head f))"
    and ri: "copy_out (int ?b + 9) 4 (cn_buf c) = Inr (blk 9 4 (nf_head f))"
    using assms(3,4) h(1) l i by (simp_all add: copy_out_def nf_enc_def nat_add_distrib)
  have "length (nf_enc f) = 26 + length (nf_body f)" using h(1) by (simp add: nf_enc_def)
  then show ?thesis
    using start_msg_whole [OF h(3) assms(1) _ assms(4) parts(2), of _ _ _ old "cn_userid c"] assms(1,3) rl ri h(2)
    by (simp add: parse_net_tcp4msg_def nf_msgid_def add.assoc)
qed

interpretation net4: frame_parser "parse_net_tcp4msg be old g" nf_enc 26 "nf_ok be g"
  "\<lambda>u n f. delivered g (nf_msgid be f) (nf_body f) u n"
  for be old g
proof
  show "\<exists>d. parse_net_tcp4msg be old g c = Inr (0, c\<lparr>cn_msgbegin := cn_msgbegin c + length (nf_enc f)\<rparr>, [d]) \<and>
      delivered g (nf_msgid be f) (nf_body f) (cn_userid c) (cn_id c) d"
    if "cn_msg c = None" "nf_ok be g f" "cn_msgbegin c + length (nf_enc f) \<le> cn_offset c"
      "cn_offset c \<le> length (cn_buf c)" "blk (cn_msgbegin c) (length (nf_enc f)) (cn_buf c) = nf_enc f" for c f
    using parse_net_whole that by blast
  show "parse_net_tcp4msg be old g c = Inr (-1, c, [])"
    if "cn_msg c = None" "cn_offset c < cn_msgbegin c + 26" for c
    using that by (simp add: parse_net_tcp4msg_def)
  show "0 < (26 :: nat) \<and> 26 \<le> length (nf_enc f)" if "nf_ok be g f" for f
    using that by (simp add: nf_ok_def nf_enc_def)
qed

subsection \<open>The 12 byte header\<close>

record user_frame =
  uf_userid :: u64
  uf_msgid :: u16
  uf_body :: "char list"

definition uf_enc :: "bool \<Rightarrow> user_frame \<Rightarrow> char list" where
  "uf_enc be f = hton64 be (uf_userid f) @ snd (hton16 be (uf_msgid f)) @
     snd (hton16 be (word_of_nat (length (uf_body f)))) @ uf_body f"

definition uf_ok :: "'f tcpmsg_list \<Rightarrow> user_frame \<Rightarrow> bool" where
  "uf_ok g f \<longleftrightarrow> msg_ok g (uint (uf_msgid f)) (uf_body f)"

lemma parse_12_whole:
  assumes "cn_msg c = None" "uf_ok g f" "cn_msgbegin c + length (uf_enc be f) \<le> cn_offset c"
    "cn_offset c \<le> length (cn_buf c)" "blk (cn_msgbegin c) (length (uf_enc be f)) (cn_buf c) = uf_enc be f"
  shows "\<exists>d. parse_tcp12msg be old g c = Inr (0, c\<lparr>cn_msgbegin := cn_msgbegin c + length (uf_enc be f)\<rparr>, [d]) \<and>
    delivered g (uint (uf_msgid f)) (uf_body f) (uf_userid f) (cn_id c) d"
proof -
  let ?b = "cn_msgbegin c"
  let ?h = "net_bytes 8 (uf_userid f) @ net_bytes 2 (uf_msgid f) @ net_bytes 2 (word_of_nat (length (uf_body f)) :: u16)"
  have enc: "uf_enc be f = ?h @ uf_body f" by (simp add: uf_enc_def)
  have hl: "length ?h = 12" by simp
  have le: "?b + (12 + length (uf_body f)) \<le> length (cn_buf c)"
    using assms(3,4) hl by (simp only: enc length_append)
  have "blk ?b (12 + length (uf_body f)) (cn_buf c) = ?h @ uf_body f"
    using assms(5) hl by (simp only: enc length_append)
  from blk_prefix [OF this _ le] have parts: "blk ?b 12 (cn_buf c) = ?h" "blk (?b + 12) (length (uf_body f)) (cn_buf c) = uf_body f"
    by (simp_all only: hl)
  have rd: "copy_out (int ?b) 12 (cn_buf c) = Inr ?h"
    using assms(3,4) parts(1) by (simp add: copy_out_def enc)
  have ok: "msg_ok g (uint (uf_msgid f)) (uf_body f)" using assms(2) by (simp add: uf_ok_def)
  have "ntoh64 be (take 8 ?h) = uf_userid f" by (rule ntoh64_net) simp_all
  moreover have "ntoh16 be (blk 8 2 ?h) = uf_msgid f" by (rule ntoh16_net) (simp add: blk_def)
  moreover have "ntoh16 be (blk 10 2 ?h) = word_of_nat (length (uf_body f))" by (rule ntoh16_net) (simp add: blk_def)
  moreover have "uint (word_of_nat (length (uf_body f)) :: u16) = int (length (uf_body f))"
    using ok by (simp add: msg_ok_def TCPCONNECTION_BUFLEN_def unsigned_of_nat take_bit_int_eq_self take_bit_nat_eq_self)
  moreover have "length (uf_enc be f) = 12 + length (uf_body f)" by (simp add: enc)
  ultimately show ?thesis
    using start_msg_whole [OF ok assms(1) _ assms(4) parts(2), of _ _ _ old "uf_userid f"] assms(1,3) rd
    by (simp add: parse_tcp12msg_def add.assoc del: append_assoc)
qed

interpretation user12: frame_parser "parse_tcp12msg be old g" "uf_enc be" 12 "uf_ok g"
  "\<lambda>u n f. delivered g (uint (uf_msgid f)) (uf_body f) (uf_userid f) n"
  for be old g
proof
  show "\<exists>d. parse_tcp12msg be old g c = Inr (0, c\<lparr>cn_msgbegin := cn_msgbegin c + length (uf_enc be f)\<rparr>, [d]) \<and>
      delivered g (uint (uf_msgid f)) (uf_body f) (uf_userid f) (cn_id c) d"
    if "cn_msg c = None" "uf_ok g f" "cn_msgbegin c + length (uf_enc be f) \<le> cn_offset c"
      "cn_offset c \<le> length (cn_buf c)" "blk (cn_msgbegin c) (length (uf_enc be f)) (cn_buf c) = uf_enc be f" for c f
    using parse_12_whole that by blast
  show "parse_tcp12msg be old g c = Inr (-1, c, [])"
    if "cn_msg c = None" "cn_offset c < cn_msgbegin c + 12" for c
    using that by (simp add: parse_tcp12msg_def)
  show "0 < (12 :: nat) \<and> 12 \<le> length (uf_enc be f)" if "uf_ok g f" for f
    by (simp add: uf_enc_def)
qed

section \<open>Termination of the read loop\<close>

text \<open>The bytes in front of the parser, and whether a message is under construction.\<close>

definition work :: "('f, 'p) conn \<Rightarrow> nat" where
  "work c = 2 * (cn_offset c - cn_msgbegin c) + (if cn_msg c = None then 0 else 1)"

lemma fault_rbind: "rbind m f = Inl e \<longleftrightarrow> m = Inl e \<or> (\<exists>x. m = Inr x \<and> f x = Inl e)"
  by (cases m) auto

lemma copy_no_spin [simp]: "copy_out i n m \<noteq> Inl Spins" "copy_in i xs m \<noteq> Inl Spins"
  by (simp_all add: copy_out_def copy_in_def)

lemma putout_no_spin: "tcpmsg_putout_range m a n \<noteq> Inl Spins"
  by (auto simp: tcpmsg_putout_range_def add_body_def add_part_def Let_def fault_rbind deref_def c_assert_def
      split: option.splits if_splits)

lemma getbyid_no_spin: "tcpmsg_getbyid old g i n u d a \<noteq> Inl Spins"
  by (auto simp: tcpmsg_getbyid_def create_tcpstream_def Let_def fault_rbind split: option.splits if_splits)

lemma add_body_range_no_spin: "add_body_range e m c \<noteq> Inl Spins"
  by (auto simp: add_body_range_def fault_rbind putout_no_spin split: if_splits)

lemma start_msg_no_spin: "start_msg e1 e2 e3 k old g i n u c \<noteq> Inl Spins"
  by (auto simp: start_msg_def fault_rbind putout_no_spin getbyid_no_spin add_body_range_no_spin Let_def
      split: option.splits if_splits)

lemma add_body_range_work:
  assumes "add_body_range e m c = Inr (0, c', ds)"
  shows "2 * (cn_offset c' - cn_msgbegin c') \<le> 2 * (cn_offset c - cn_msgbegin c) \<and> cn_msg c' = None"
  using assms by (auto simp: add_body_range_def rbind_Inr_iff split: if_splits)

lemma start_msg_work:
  assumes "start_msg e1 e2 e3 k old g i n u c = Inr (0, c', ds)" "cn_msg c = None" "cn_msgbegin c + k \<le> cn_offset c" "0 < k"
  shows "work c' < work c"
  using assms
  by (auto simp: start_msg_def rbind_Inr_iff work_def Let_def tcpconnection_close_def
      dest!: add_body_range_work split: option.splits if_splits)

lemma parse_all_terminates:
  assumes "\<And>c. parse c \<noteq> Inl Spins" "\<And>c c' ds. parse c = Inr (0, c', ds) \<Longrightarrow> work c' < work c"
  shows "work c < k \<Longrightarrow> parse_all parse k c \<noteq> Inl Spins"
proof (induction k arbitrary: c)
  case (Suc k)
  show ?case
  proof
    assume "parse_all parse (Suc k) c = Inl Spins"
    then obtain c' ds where "parse c = Inr (0, c', ds)" "parse_all parse k c' = Inl Spins"
      using assms(1) [of c] by (auto simp: fault_rbind split: if_splits)
    moreover have "work c' < k" using assms(2) [OF calculation(1)] Suc.prems by simp
    ultimately show False using Suc.IH by blast
  qed
qed simp

lemma parse_net_no_spin: "parse_net_tcp4msg be old g c \<noteq> Inl Spins"
  by (auto simp: parse_net_tcp4msg_def fault_rbind start_msg_no_spin add_body_range_no_spin split: option.splits if_splits)

lemma parse_12_no_spin: "parse_tcp12msg be old g c \<noteq> Inl Spins"
  by (auto simp: parse_tcp12msg_def fault_rbind start_msg_no_spin add_body_range_no_spin split: option.splits if_splits)

lemma parse_net_work: "parse_net_tcp4msg be old g c = Inr (0, c', ds) \<Longrightarrow> work c' < work c"
  by (auto simp: parse_net_tcp4msg_def rbind_Inr_iff work_def [where c = c] work_def [where c = c']
      dest!: add_body_range_work start_msg_work [unfolded work_def] split: option.splits if_splits)

lemma parse_12_work: "parse_tcp12msg be old g c = Inr (0, c', ds) \<Longrightarrow> work c' < work c"
  by (auto simp: parse_tcp12msg_def rbind_Inr_iff work_def [where c = c] work_def [where c = c']
      dest!: add_body_range_work start_msg_work [unfolded work_def] split: option.splits if_splits)

lemma readed_data_terminates:
  assumes "\<And>c. parse c \<noteq> Inl Spins" "\<And>c c' ds. parse c = Inr (0, c', ds) \<Longrightarrow> work c' < work c"
  shows "readed_data parse add c \<noteq> Inl Spins"
proof -
  have "work (c\<lparr>cn_offset := cn_offset c + add\<rparr>) < 2 * (cn_offset c + add) + 2" by (auto simp: work_def)
  then have "parse_all parse (2 * (cn_offset c + add) + 2) (c\<lparr>cn_offset := cn_offset c + add\<rparr>) \<noteq> Inl Spins"
    using parse_all_terminates [where parse = parse] assms by blast
  then show ?thesis
    by (auto simp: readed_data_def Let_def fault_rbind tcp_resetbuf_def c_assert_def simp del: parse_all.simps split: if_splits)
qed

section \<open>Properties\<close>

text \<open>A registry with one message and a connection whose buffer holds given bytes, for concrete instances.\<close>

definition registry1 :: "string tcpmsg_list" where
  "registry1 = \<lparr>ml_tables = (\<lambda>_. None)(1 \<mapsto> \<lparr>tm_key1 = [], tm_key2 = [], tm_domsg = ''login'', tm_type = 0, tm_n = 0,
       tm_id = 1, tm_max_size = 0, tm_min_size = 0, tm_fields = []\<rparr>), ml_hash = init_str_hash, ml_lists = []\<rparr>"

definition conn_with :: "char list \<Rightarrow> (string, nat) conn" where
  "conn_with xs = \<lparr>cn_protocol = Some 0, cn_id = 0, cn_open = True, cn_active_time = 0, cn_type = 0, cn_state = TCPSTATE_NOTHNG,
     cn_offset = 0, cn_sendqueue = \<lparr>tq_size = 128, tq_head = 0, tq_tail = 0, tq_count = 0, tq_queue = None\<rparr>,
     cn_ip = 0, cn_port = 0, cn_userid = 0, cn_msg = None, cn_msgbegin = 0, cn_msgoff = 0, cn_cause = None,
     cn_buf = xs @ replicate (7168 - length xs) NUL\<rparr>"

definition frame1 :: net_frame where
  "frame1 = \<lparr>nf_head = CHR 0x02 # replicate 8 NUL @ [CHR 0x01] @ replicate 16 NUL, nf_body = ''hi''\<rparr>"

definition frame2 :: user_frame where
  "frame2 = \<lparr>uf_userid = 7, uf_msgid = 1, uf_body = ''hi''\<rparr>"

lemma frame1_fields: "length (nf_head frame1) = 26" "nf_body frame1 = ''hi''" "length (nf_enc frame1) = 28"
  by (simp_all add: frame1_def nf_enc_def)

lemma frame1_numbers: "sint (load False (take 4 (nf_head frame1)) :: u32) = 2" "nf_msgid False frame1 = 1"
  by code_simp+

lemma frame1_ok: "nf_ok False registry1 frame1"
  by (simp add: nf_ok_def frame1_fields frame1_numbers msg_ok_def registry1_def TCPCONNECTION_BUFLEN_def size_ok_def)

lemma frame2_fields: "length (uf_enc False frame2) = 14" "uf_body frame2 = ''hi''" "uf_userid frame2 = 7" "uf_msgid frame2 = 1"
  by (simp_all add: frame2_def uf_enc_def)

lemma frame2_ok: "uf_ok registry1 frame2"
  by (simp add: uf_ok_def frame2_def msg_ok_def registry1_def TCPCONNECTION_BUFLEN_def size_ok_def)

lemma conn_with_fields [simp]:
  "cn_msg (conn_with xs) = None" "cn_msgbegin (conn_with xs) = 0" "cn_offset (conn_with xs) = 0"
  "cn_buf (conn_with xs) = xs @ replicate (7168 - length xs) NUL"
  "cn_userid (conn_with xs) = 0" "cn_id (conn_with xs) = 0"
  by (simp_all add: conn_with_def)

text \<open>
  C19. A read that completes messages delivers them: when the bytes of the buffer are a
  sequence of messages with the 26 byte header, each registered and of an admitted size,
  the read calls the handlers of exactly these messages, in order, with their bodies and the
  user and identifier of the connection, and leaves the connection empty for the next read.
\<close>

theorem tcp4_delivers_in_order:
  assumes "list_all (nf_ok be g) fs" "cn_msg c = None" "cn_msgbegin c = 0" "cn_offset c + add < TCPCONNECTION_BUFLEN"
    "TCPCONNECTION_BUFLEN \<le> length (cn_buf c)" "take (cn_offset c + add) (cn_buf c) = concat (map nf_enc fs)"
  shows "\<exists>ds. tcp4_readed_data be old g add c = Inr (c\<lparr>cn_offset := 0, cn_msgbegin := 0\<rparr>, ds) \<and>
    list_all2 (\<lambda>f. delivered g (nf_msgid be f) (nf_body f) (cn_userid c) (cn_id c)) fs ds"
  using net4.readed_frames [of be g fs c add "[]" old] assms by (simp add: tcp4_readed_data_def)

theorem tcp4_delivers_in_order_witness:
  "\<exists>d1 d2 c. tcp4_readed_data False (\<lambda>_. NUL) registry1 56 (conn_with (nf_enc frame1 @ nf_enc frame1)) = Inr (c, [d1, d2]) \<and>
     delivered registry1 1 ''hi'' 0 0 d1"
  using tcp4_delivers_in_order [of False registry1 "[frame1, frame1]" "conn_with (nf_enc frame1 @ nf_enc frame1)" 56 "\<lambda>_. NUL"]
  by (fastforce simp: frame1_ok TCPCONNECTION_BUFLEN_def list_all2_Cons1 frame1_fields frame1_numbers)

text \<open>
  C22. A header that arrives in two parts behind a complete message kills the process: after
  a read of complete messages and the first bytes of a further header (fewer than 26), the
  start of the next message is not moved back although the pending bytes were; the next
  read, as long as the pending and the new bytes together are fewer than the completed
  messages were, delivers nothing and fails the assertion of the buffer reset.
\<close>

theorem tcp4_split_header_aborts:
  assumes "list_all (nf_ok be g) fs" "cn_msg c = None" "cn_msgbegin c = 0" "cn_offset c + add < TCPCONNECTION_BUFLEN"
    "TCPCONNECTION_BUFLEN \<le> length (cn_buf c)" "take (cn_offset c + add) (cn_buf c) = concat (map nf_enc fs) @ rest"
    "rest \<noteq> []" "length rest < 26" "length rest + add2 < length (concat (map nf_enc fs))"
  shows "\<exists>c1 ds. tcp4_readed_data be old g add c = Inr (c1, ds) \<and> cn_offset c1 = length rest \<and>
    cn_msgbegin c1 = length (concat (map nf_enc fs)) \<and> tcp4_readed_data be old g add2 c1 = Inl AssertFail"
proof -
  let ?c1 = "c\<lparr>cn_offset := length rest, cn_msgbegin := length (concat (map nf_enc fs)), cn_buf := put 0 rest (cn_buf c)\<rparr>"
  obtain ds where "tcp4_readed_data be old g add c = Inr (?c1, ds)"
    using net4.readed_frames [of be g fs c add rest old] assms by (auto simp: tcp4_readed_data_def)
  moreover have "tcp4_readed_data be old g add2 ?c1 = Inl AssertFail"
    unfolding tcp4_readed_data_def by (rule net4.readed_stuck) (use assms in simp_all)
  ultimately show ?thesis by (intro exI [of _ ?c1] exI [of _ ds]) simp
qed

theorem tcp4_split_header_aborts_witness:
  "\<exists>c1 ds. tcp4_readed_data False (\<lambda>_. NUL) registry1 33 (conn_with (nf_enc frame1 @ ''abcde'')) = Inr (c1, ds) \<and>
     tcp4_readed_data False (\<lambda>_. NUL) registry1 21 c1 = Inl AssertFail"
  using tcp4_split_header_aborts [of False registry1 "[frame1]" "conn_with (nf_enc frame1 @ ''abcde'')" 33 "''abcde''" 21 "\<lambda>_. NUL"]
  by (fastforce simp: frame1_ok TCPCONNECTION_BUFLEN_def frame1_fields)

text \<open>
  The messages of the 12 byte header are delivered in order as well, each for the user its
  header names, whatever user the connection is bound to, on a host of either byte order.
\<close>

theorem tcp12_delivers_in_order:
  assumes "list_all (uf_ok g) fs" "cn_msg c = None" "cn_msgbegin c = 0" "cn_offset c + add < TCPCONNECTION_BUFLEN"
    "TCPCONNECTION_BUFLEN \<le> length (cn_buf c)" "take (cn_offset c + add) (cn_buf c) = concat (map (uf_enc be) fs)"
  shows "\<exists>ds. tcp12_readed_data be old g add c = Inr (c\<lparr>cn_offset := 0, cn_msgbegin := 0\<rparr>, ds) \<and>
    list_all2 (\<lambda>f. delivered g (uint (uf_msgid f)) (uf_body f) (uf_userid f) (cn_id c)) fs ds"
  using user12.readed_frames [of g fs c add be "[]" old] assms by (simp add: tcp12_readed_data_def)

theorem tcp12_delivers_in_order_witness:
  "\<exists>d c. tcp12_readed_data False (\<lambda>_. NUL) registry1 14 (conn_with (uf_enc False frame2)) = Inr (c, [d]) \<and>
     delivered registry1 1 ''hi'' 7 0 d"
  using tcp12_delivers_in_order [of registry1 "[frame2]" "conn_with (uf_enc False frame2)" 14 False "\<lambda>_. NUL"]
  by (fastforce simp: frame2_ok TCPCONNECTION_BUFLEN_def list_all2_Cons1 frame2_fields)

text \<open>
  C38. The read loops end: every turn consumes a header or completes a message, so that
  the bound of the model - twice the bytes in the buffer, and two - is never reached, on any
  connection, any buffer contents and any registry.
\<close>

theorem protocol_read_loops_end:
  "tcp4_readed_data be old g add c \<noteq> Inl Spins \<and> tcp12_readed_data be old g add c \<noteq> Inl Spins"
proof
  show "tcp4_readed_data be old g add c \<noteq> Inl Spins"
    unfolding tcp4_readed_data_def by (rule readed_data_terminates) (rule parse_net_no_spin, erule parse_net_work)
  show "tcp12_readed_data be old g add c \<noteq> Inl Spins"
    unfolding tcp12_readed_data_def by (rule readed_data_terminates) (rule parse_12_no_spin, erule parse_12_work)
qed

end
