(* ===== verification/Traced.thy ===== *)
theory Traced
  imports Prelude
begin

text \<open>
  Results with output: what an operation hands to the outside is listed beside its result, also
  when the result is a fault.
\<close>

type_synonym ('o, 'a) traced = "'o list \<times> (fault + 'a)"

fun tbind :: "('o, 'a) traced \<Rightarrow> ('a \<Rightarrow> ('o, 'b) traced) \<Rightarrow> ('o, 'b) traced" where
  "tbind (out, Inl e) f = (out, Inl e)"
| "tbind (out, Inr x) f = (out @ fst (f x), snd (f x))"

definition quiet :: "fault + 'a \<Rightarrow> ('o, 'a) traced" where
  "quiet r = ([], r)"

definition tell :: "'o \<Rightarrow> ('o, unit) traced" where
  "tell x = ([x], Inr ())"

lemma tbind_quiet [simp]: "tbind (quiet (Inr x)) f = f x" "tbind (quiet (Inl e)) f = quiet (Inl e)"
  by (simp_all add: quiet_def)

lemma tbind_tell: "tbind (tell x) f = (x # fst (f ()), snd (f ()))"
  by (simp add: tell_def)

lemma tbind_assoc: "tbind (tbind m f) g = tbind m (\<lambda>x. tbind (f x) g)"
proof -
  obtain out r where m: "m = (out, r)" by (cases m)
  show ?thesis
  proof (cases r)
    case (Inr x)
    obtain out' r' where "f x = (out', r')" by (cases "f x")
    then show ?thesis by (cases r') (simp_all add: m Inr)
  qed (simp add: m)
qed

lemma tbind_Inr_iff:
  "snd (tbind m f) = Inr y \<longleftrightarrow> (\<exists>x. snd m = Inr x \<and> snd (f x) = Inr y)"
  by (cases m; cases "snd m") auto

end
