(* ===== verification/Timer.thy ===== *)
theory Timer
  imports Squeue Traced
begin

text \<open>
  The timers of \<open>antlib/handlerlib/timer.c\<close>: a queue of new timers, a wheel of 65536 slots for
  the current block of 65536 ticks and one for the blocks to come. A list of nodes is the list
  from its head to its tail; a node that was given back while a list still leads to it is
  marked. \<open>clear_timer_link\<close> reads the link of a node after it gave the node back; \<open>keeps\<close>
  says whether such a read finds the old link or is a fault. What a run hands to the handlers
  is listed beside its result, also when it ends in a fault.
\<close>

section \<open>State\<close>

record 'm timer_node =
  tn_msg :: 'm
  tn_handlerid :: u32
  tn_expire :: u32
  tn_freed :: bool

type_synonym 'm timer_list = "'m timer_node list"

record 'm timer_line =
  tm_queue :: "'m timer_node queue_state"
  tm_systime :: int
  tm_times :: u32
  tm_near :: "nat \<Rightarrow> 'm timer_list"
  tm_far :: "nat \<Rightarrow> 'm timer_list"

definition TIIMER_MAX :: int where
  "TIIMER_MAX = 30 * 24 * 3600"

text \<open>The tail of the list is written when there is one.\<close>

definition add_timer_link :: "'m timer_list \<Rightarrow> 'm timer_node \<Rightarrow> fault + 'm timer_list" where
  "add_timer_link ns node =
     (if ns \<noteq> [] \<and> tn_freed (last ns) then Inl UseAfterFree else Inr (ns @ [node]))"

primrec clear_timer_link :: "bool \<Rightarrow> 'm timer_list \<Rightarrow> fault + 'm timer_list" where
  "clear_timer_link keeps [] = Inr []"
| "clear_timer_link keeps (n # ns) =
     (if tn_freed n then Inl UseAfterFree
      else if keeps then clear_timer_link keeps ns else Inl UseAfterFree)"

section \<open>Operations\<close>

text \<open>\<open>now\<close> is the clock of the pool of queue nodes, \<open>t\<close> the system time.\<close>

definition init_timer :: "u32 \<Rightarrow> int \<Rightarrow> squeue_pool \<Rightarrow> 'm timer_line" where
  "init_timer now t p =
     \<lparr>tm_queue = init_squeue now p, tm_systime = t, tm_times = 0, tm_near = (\<lambda>_. []), tm_far = (\<lambda>_. [])\<rparr>"

definition add_timer :: "u32 \<Rightarrow> int \<Rightarrow> u32 \<Rightarrow> 'm \<Rightarrow> 'm timer_line \<Rightarrow> (u32 \<times> 'm, 'm timer_line) traced" where
  "add_timer now sec handlerid msg line =
     (if sec \<le> 0 then tbind (tell (handlerid, msg)) (\<lambda>_. quiet (Inr line))
      else quiet (
        rbind (c_assert (sec \<le> TIIMER_MAX)) (\<lambda>_.
        rbind (push_squeue now (Some \<lparr>tn_msg = msg, tn_handlerid = handlerid, tn_expire = tm_times line + word_of_int sec,
            tn_freed = False\<rparr>) (tm_queue line)) (\<lambda>q.
        Inr (line\<lparr>tm_queue := q\<rparr>)))))"

text \<open>The loop of \<open>do_timers\<close> over the slot that is due.\<close>

fun send_slot :: "'m timer_list \<Rightarrow> (u32 \<times> 'm, unit) traced" where
  "send_slot [] = quiet (Inr ())"
| "send_slot (n # ns) =
     (if tn_freed n then quiet (Inl UseAfterFree)
      else tbind (tell (tn_handlerid n, tn_msg n)) (\<lambda>_. send_slot ns))"

text \<open>
  The end of a block: the loop over the slot of the wheel \<open>_far\<close> clears the link of the first
  node by moving it, so that it stops there; the slot is cleared, which gives this node back.
\<close>

definition cascade :: "bool \<Rightarrow> 'm timer_line \<Rightarrow> fault + 'm timer_line" where
  "cascade keeps line =
     (let i = unat (drop_bit 16 (tm_times line) AND 0xFFFF)
      in case tm_far line i of
           [] \<Rightarrow> Inr line
         | n # ns \<Rightarrow>
             if tn_freed n then Inl UseAfterFree
             else let near = unat (tn_expire n AND 0xFFFF)
             in rbind (add_timer_link (tm_near line near) n) (\<lambda>l.
                rbind (clear_timer_link keeps [n]) (\<lambda>f.
                Inr (line\<lparr>tm_near := (tm_near line)(near := butlast l @ [n\<lparr>tn_freed := True\<rparr>]),
                          tm_far := (tm_far line)(i := f)\<rparr>))))"

definition do_timers :: "bool \<Rightarrow> 'm timer_line \<Rightarrow> (u32 \<times> 'm, 'm timer_line) traced" where
  "do_timers keeps line =
     (let near = unat (tm_times line AND 0xFFFF); slot = tm_near line near
      in tbind (send_slot slot) (\<lambda>_. quiet (
           rbind (clear_timer_link keeps slot) (\<lambda>l.
           let line = line\<lparr>tm_near := (tm_near line)(near := l)\<rparr>
           in rbind (if near = 0xFFFF then cascade keeps line else Inr line) (\<lambda>line.
              Inr (line\<lparr>tm_times := tm_times line + 1\<rparr>))))))"

definition place :: "'m timer_node \<Rightarrow> 'm timer_line \<Rightarrow> fault + 'm timer_line" where
  "place node line =
     (if tn_expire node OR 0xFFFF = tm_times line OR 0xFFFF then
        let i = unat (tn_expire node AND 0xFFFF)
        in rbind (add_timer_link (tm_near line i) node) (\<lambda>l. Inr (line\<lparr>tm_near := (tm_near line)(i := l)\<rparr>))
      else
        let i = unat (drop_bit 16 (tn_expire node) AND 0xFFFF)
        in rbind (add_timer_link (tm_far line i) node) (\<lambda>l. Inr (line\<lparr>tm_far := (tm_far line)(i := l)\<rparr>)))"

primrec event_loop :: "u32 \<Rightarrow> nat \<Rightarrow> 'm timer_line \<Rightarrow> (u32 \<times> 'm, 'm timer_line) traced" where
  "event_loop now 0 line = quiet (Inr line)"
| "event_loop now (Suc k) line =
     tbind (quiet (handler_pop_squeue now (tm_queue line))) (\<lambda>(node, q).
       let line = line\<lparr>tm_queue := q\<rparr>
       in if tn_expire node \<le> tm_times line
          then tbind (tell (tn_handlerid node, tn_msg node)) (\<lambda>_. event_loop now k line)
          else tbind (quiet (place node line)) (event_loop now k))"

definition do_timer_event :: "u32 \<Rightarrow> 'm timer_line \<Rightarrow> (u32 \<times> 'm, 'm timer_line) traced" where
  "do_timer_event now line = event_loop now (nat (sq_count (snd (tm_queue line)))) line"

primrec ticks :: "bool \<Rightarrow> nat \<Rightarrow> 'm timer_line \<Rightarrow> (u32 \<times> 'm, 'm timer_line) traced" where
  "ticks keeps 0 line = quiet (Inr line)"
| "ticks keeps (Suc n) line = tbind (do_timers keeps line) (ticks keeps n)"

text \<open>
  \<open>while(n-- >= 0)\<close> runs once more than \<open>n\<close> times. When the clock moved, \<open>get_mytime\<close> is the
  number of ticks from then on; else it is \<open>now\<close>.
\<close>

definition do_timer :: "bool \<Rightarrow> u32 \<Rightarrow> int \<Rightarrow> 'm timer_line \<Rightarrow> (u32 \<times> 'm, 'm timer_line) traced" where
  "do_timer keeps now t line =
     (if t = tm_systime line then quiet (Inr line)
      else if t > tm_systime line then
        let n = (t - tm_systime line) AND 0x03
        in tbind (ticks keeps (nat n + 1) line) (\<lambda>line.
           tbind (do_timer_event (tm_times line) line) (\<lambda>line. quiet (Inr (line\<lparr>tm_systime := t\<rparr>))))
      else tbind (do_timer_event now line) (\<lambda>line. quiet (Inr (line\<lparr>tm_systime := t\<rparr>))))"

section \<open>Shutdown\<close>

text \<open>The messages of a slot are given back, its nodes are not: the head is null when it is cleared.\<close>

primrec free_slot :: "'m timer_list \<Rightarrow> ('m, unit) traced" where
  "free_slot [] = quiet (Inr ())"
| "free_slot (n # ns) =
     (if tn_freed n then quiet (Inl UseAfterFree) else tbind (tell (tn_msg n)) (\<lambda>_. free_slot ns))"

primrec free_slots :: "nat list \<Rightarrow> 'm timer_line \<Rightarrow> ('m, 'm timer_line) traced" where
  "free_slots [] line = quiet (Inr line)"
| "free_slots (i # is) line =
     tbind (free_slot (tm_near line i)) (\<lambda>_.
     tbind (free_slot (tm_far line i)) (\<lambda>_.
     free_slots is (line\<lparr>tm_near := (tm_near line)(i := []), tm_far := (tm_far line)(i := [])\<rparr>)))"

text \<open>The loop that empties the queue, with a bound on its turns.\<close>

primrec drain_timers :: "u32 \<Rightarrow> nat \<Rightarrow> 'm timer_node queue_state \<Rightarrow> ('m, 'm timer_node queue_state) traced" where
  "drain_timers now 0 q = quiet (Inl Spins)"
| "drain_timers now (Suc k) q =
     tbind (quiet (handler_pop_squeue now q)) (\<lambda>(node, q).
     tbind (tell (tn_msg node)) (\<lambda>_. drain_timers now k q))"

definition uninit_timer :: "u32 \<Rightarrow> 'm timer_line \<Rightarrow> ('m, 'm timer_line) traced" where
  "uninit_timer now line =
     tbind (free_slots [0..<65536] line) (\<lambda>line.
     tbind (drain_timers now (nat (sq_count (snd (tm_queue line))) + 1) (tm_queue line)) (\<lambda>q.
     quiet (Inr (line\<lparr>tm_queue := (fst q, snd (uninit_squeue (snd q)))\<rparr>))))"

section \<open>Blocks and slots\<close>

lemma low_word: "unat (w AND 0xFFFF) = unat w mod 65536" for w :: u32
proof -
  have w: "w AND 0xFFFF = take_bit 16 w" by (simp only: take_bit_eq_mask) (simp add: mask_eq_exp_minus_1)
  have "unat (take_bit 16 w) = take_bit 16 (unat w)" by (simp only: unsigned_take_bit_eq)
  then show ?thesis by (simp only: w) (simp add: take_bit_eq_mod)
qed

lemma high_word: "unat (drop_bit 16 w AND 0xFFFF) = unat w div 65536" for w :: u32
proof -
  have "unat w < 2 ^ 32" using unsigned_less [of w, where 'a = nat] by simp
  then have "unat w div 65536 < 65536" by (simp add: less_mult_imp_div_less)
  moreover have "unat (drop_bit 16 w) = unat w div 65536" by (simp only: unat_drop_bit_eq) (simp add: drop_bit_eq_div)
  ultimately show ?thesis by (simp only: low_word) simp
qed

lemma same_block: "a OR 0xFFFF = b OR 0xFFFF \<longleftrightarrow> unat a div 65536 = unat b div 65536" for a b :: u32
proof -
  have low: "bit (0xFFFF :: u32) n \<longleftrightarrow> n < 16" for n
  proof -
    have "(0xFFFF :: u32) = mask 16" by (simp add: mask_eq_exp_minus_1)
    then show ?thesis by (simp only: bit_mask_iff) auto
  qed
  have "a OR 0xFFFF = b OR 0xFFFF \<longleftrightarrow> drop_bit 16 a = drop_bit 16 b"
  proof
    assume *: "a OR 0xFFFF = b OR 0xFFFF"
    have "bit (a OR 0xFFFF) (16 + n) \<longleftrightarrow> bit (b OR 0xFFFF) (16 + n)" for n by (simp only: *)
    moreover have "\<not> bit (0xFFFF :: u32) (16 + n)" for n by (simp only: low)
    ultimately show "drop_bit 16 a = drop_bit 16 b"
      by (intro bit_eqI) (simp only: bit_or_iff bit_drop_bit_eq comp_def simp_thms)
  next
    assume *: "drop_bit 16 a = drop_bit 16 b"
    have "bit a n \<longleftrightarrow> bit b n" if "16 \<le> n" for n
    proof -
      have "bit (drop_bit 16 a) (n - 16) \<longleftrightarrow> bit (drop_bit 16 b) (n - 16)" by (simp only: *)
      then show ?thesis using that by (simp add: bit_drop_bit_eq)
    qed
    then have "bit (a OR 0xFFFF) n \<longleftrightarrow> bit (b OR 0xFFFF) n" for n
      by (cases "n < 16") (simp_all only: bit_or_iff low not_less simp_thms)
    then show "a OR 0xFFFF = b OR 0xFFFF" by (intro bit_eqI) (simp only: simp_thms)
  qed
  also have "\<dots> \<longleftrightarrow> unat (drop_bit 16 a) = unat (drop_bit 16 b)" by (simp add: word_unat_eq_iff)
  finally show ?thesis by (simp only: unat_drop_bit_eq) (simp add: drop_bit_eq_div)
qed

definition addressed :: "'m timer_node \<Rightarrow> u32 \<times> 'm" where
  "addressed n = (tn_handlerid n, tn_msg n)"

lemma send_slot_ok: "list_all (\<lambda>n. \<not> tn_freed n) ns \<Longrightarrow> send_slot ns = (map addressed ns, Inr ())"
  by (induction ns) (simp_all add: tbind_tell quiet_def addressed_def)

lemma clear_timer_link_ok: "list_all (\<lambda>n. \<not> tn_freed n) ns \<Longrightarrow> clear_timer_link True ns = Inr []"
  by (induction ns) simp_all

text \<open>
  The wheel between two calls: the slots of the current block hold, each at its place, the
  timers of this block that are not yet due.
\<close>

definition wheel_ok :: "'m timer_line \<Rightarrow> bool" where
  "wheel_ok line \<longleftrightarrow> (\<forall>i. \<forall>d \<in> set (tm_near line i). i < 65536 \<and> \<not> tn_freed d \<and>
     unat (tn_expire d) = 65536 * (unat (tm_times line) div 65536) + i \<and> tm_times line \<le> tn_expire d)"

lemma wheel_slot: "wheel_ok line \<Longrightarrow> list_all (\<lambda>n. \<not> tn_freed n) (tm_near line i)"
  by (auto simp: wheel_ok_def list_all_iff)

lemma next_tick:
  assumes "unat t mod 65536 + n \<le> 65535"
  shows "unat (t + word_of_nat n :: u32) = unat t + n" "(unat t + n) div 65536 = unat t div 65536"
    "(unat t + n) mod 65536 = unat t mod 65536 + n"
proof -
  have lt: "unat t < 2 ^ 32" using unsigned_less [of t, where 'a = nat] by simp
  have parts: "(65536 * q + r) div 65536 = q \<and> (65536 * q + r) mod 65536 = r" if "r \<le> 65535" for q r :: nat
    using that by simp
  have div: "unat t = 65536 * (unat t div 65536) + unat t mod 65536" by simp
  have "unat t div 65536 < 65536" using lt by simp
  then have "65536 * (unat t div 65536) + (unat t mod 65536 + n) < 65536 * 65536" using assms by linarith
  then have "unat t + n < 65536 * 65536" using div by linarith
  then have "unat t + n < 2 ^ 32" by simp
  then show "unat (t + word_of_nat n) = unat t + n" by (simp add: unat_word_ariths unat_of_nat take_bit_eq_mod)
  show "(unat t + n) div 65536 = unat t div 65536" "(unat t + n) mod 65536 = unat t mod 65536 + n"
    using parts [of "unat t mod 65536 + n" "unat t div 65536"] assms by (simp_all add: add.assoc [symmetric])
qed

lemma do_timers_ok:
  assumes "wheel_ok line" "unat (tm_times line) mod 65536 < 65535"
  defines "i \<equiv> unat (tm_times line) mod 65536"
  defines "line' \<equiv> line\<lparr>tm_near := (tm_near line)(i := []), tm_times := tm_times line + 1\<rparr>"
  shows "do_timers True line = (map addressed (tm_near line i), Inr line') \<and> wheel_ok line'"
proof
  show "do_timers True line = (map addressed (tm_near line i), Inr line')"
    using assms(2) wheel_slot [OF assms(1), of i]
    by (simp add: do_timers_def Let_def low_word i_def [symmetric] send_slot_ok clear_timer_link_ok quiet_def line'_def)
  have one: "unat (tm_times line + 1) = unat (tm_times line) + 1" "(unat (tm_times line) + 1) div 65536 = unat (tm_times line) div 65536"
    using next_tick [of "tm_times line" 1] assms(2) by simp_all
  have "tm_times line + 1 \<le> tn_expire d" if "d \<in> set (tm_near line j)" "j \<noteq> i" for d j
  proof -
    have d: "unat (tn_expire d) = 65536 * (unat (tm_times line) div 65536) + j" "tm_times line \<le> tn_expire d"
      using that(1) assms(1) by (auto simp: wheel_ok_def)
    have "unat (tn_expire d) \<noteq> unat (tm_times line)"
      using d(1) that(2) mult_div_mod_eq [of 65536 "unat (tm_times line)"] i_def by linarith
    then show ?thesis using d(2) one(1) by (simp add: word_le_nat_alt)
  qed
  then show "wheel_ok line'"
    using assms(1) one(2) unfolding wheel_ok_def line'_def by (auto simp: one(1))
qed

lemma ticks_ok:
  assumes "wheel_ok line" "unat (tm_times line) mod 65536 + n \<le> 65535"
  defines "i \<equiv> unat (tm_times line) mod 65536"
  shows "ticks True n line = (concat (map (\<lambda>k. map addressed (tm_near line (i + k))) [0..<n]),
      Inr (line\<lparr>tm_near := (\<lambda>j. if i \<le> j \<and> j < i + n then [] else tm_near line j), tm_times := tm_times line + word_of_nat n\<rparr>)) \<and>
    wheel_ok (line\<lparr>tm_near := (\<lambda>j. if i \<le> j \<and> j < i + n then [] else tm_near line j), tm_times := tm_times line + word_of_nat n\<rparr>)"
  using assms(1,2) unfolding i_def
proof (induction n arbitrary: line)
  case 0
  have "(\<lambda>j. if i \<le> j \<and> j < i then [] else f j) = f" for i :: nat and f :: "nat \<Rightarrow> 'a timer_list"
    by (auto simp: fun_eq_iff)
  then show ?case using 0 by (simp add: quiet_def)
next
  case (Suc n)
  let ?i = "unat (tm_times line) mod 65536"
  let ?l = "line\<lparr>tm_near := (tm_near line)(?i := []), tm_times := tm_times line + 1\<rparr>"
  have first: "do_timers True line = (map addressed (tm_near line ?i), Inr ?l)" "wheel_ok ?l"
    using do_timers_ok [OF Suc.prems(1)] Suc.prems(2) by simp_all
  have i: "unat (tm_times ?l) mod 65536 = Suc ?i" using next_tick [of "tm_times line" 1] Suc.prems(2) by simp
  have eq: "?l\<lparr>tm_near := (\<lambda>j. if Suc ?i \<le> j \<and> j < Suc ?i + n then [] else tm_near ?l j), tm_times := tm_times ?l + word_of_nat n\<rparr> =
      line\<lparr>tm_near := (\<lambda>j. if ?i \<le> j \<and> j < ?i + Suc n then [] else tm_near line j), tm_times := tm_times line + word_of_nat (Suc n)\<rparr>"
    by (simp add: fun_eq_iff)
  have "map (\<lambda>k. map addressed (tm_near line (?i + k))) [0..<Suc n] =
      map addressed (tm_near line ?i) # map (\<lambda>k. map addressed (tm_near ?l (Suc ?i + k))) [0..<n]"
    by (simp add: map_upt_Suc del: upt_Suc)
  then show ?case
    using Suc.IH [OF first(2)] Suc.prems(2) unfolding i eq by (simp add: first(1))
qed

text \<open>The timers of the wheel that are due at a tick.\<close>

definition due :: "'m timer_line \<Rightarrow> nat \<Rightarrow> 'm timer_node list" where
  "due line t = filter (\<lambda>d. unat (tn_expire d) = t) (concat (map (tm_near line) [0..<65536]))"

lemma concat_only: "i < n \<Longrightarrow> concat (map (\<lambda>j. if j = i then xs else []) [0..<n]) = xs"
proof (induction n)
  case (Suc n)
  have "concat (map (\<lambda>j. if j = n then xs else []) [0..<n]) = []" by auto
  then show ?case using Suc by (cases "i = n") auto
qed simp

lemma due_slot:
  assumes "wheel_ok line" "t div 65536 = unat (tm_times line) div 65536"
  shows "due line t = tm_near line (t mod 65536)"
proof -
  have t: "65536 * (unat (tm_times line) div 65536) + t mod 65536 = t"
    using assms(2) mult_div_mod_eq [of 65536 t] by simp
  have "filter (\<lambda>d. unat (tn_expire d) = t) (tm_near line j) = (if j = t mod 65536 then tm_near line (t mod 65536) else [])" for j
  proof -
    have "unat (tn_expire d) = t \<longleftrightarrow> j = t mod 65536" if "d \<in> set (tm_near line j)" for d
      using that assms(1) t by (force simp: wheel_ok_def)
    then show ?thesis by (auto intro!: filter_True filter_False)
  qed
  then have "due line t = concat (map (\<lambda>j. if j = t mod 65536 then tm_near line (t mod 65536) else []) [0..<65536])"
    by (simp only: due_def filter_concat map_map comp_def)
  then show ?thesis by (simp only: concat_only mod_less_divisor zero_less_numeral)
qed

section \<open>New timers\<close>

definition near_of :: "u32 \<Rightarrow> nat \<Rightarrow> 'm timer_node list \<Rightarrow> 'm timer_node list" where
  "near_of t i = filter (\<lambda>d. t < tn_expire d \<and> unat (tn_expire d) div 65536 = unat t div 65536 \<and> unat (tn_expire d) mod 65536 = i)"

definition far_of :: "u32 \<Rightarrow> nat \<Rightarrow> 'm timer_node list \<Rightarrow> 'm timer_node list" where
  "far_of t i = filter (\<lambda>d. t < tn_expire d \<and> unat (tn_expire d) div 65536 \<noteq> unat t div 65536 \<and> unat (tn_expire d) div 65536 = i)"

lemma add_timer_link_ok: "list_all (\<lambda>n. \<not> tn_freed n) ns \<Longrightarrow> add_timer_link ns node = Inr (ns @ [node])"
  by (cases ns rule: rev_cases) (auto simp: add_timer_link_def)

definition fresh_slots :: "'m timer_line \<Rightarrow> bool" where
  "fresh_slots line \<longleftrightarrow> (\<forall>i. list_all (\<lambda>n. \<not> tn_freed n) (tm_near line i) \<and> list_all (\<lambda>n. \<not> tn_freed n) (tm_far line i))"

lemma place_ok:
  assumes "fresh_slots line" "tm_times line < tn_expire d" "\<not> tn_freed d"
  shows "\<exists>line'. place d line = Inr line' \<and> fresh_slots line' \<and> tm_queue line' = tm_queue line \<and>
    tm_times line' = tm_times line \<and> tm_systime line' = tm_systime line \<and>
    (\<forall>i. tm_near line' i = tm_near line i @ near_of (tm_times line) i [d]) \<and>
    (\<forall>i. tm_far line' i = tm_far line i @ far_of (tm_times line) i [d])"
  using assms unfolding place_def Let_def same_block high_word
  by (auto simp: low_word near_of_def far_of_def add_timer_link_ok fresh_slots_def)

lemma event_loop_ok:
  assumes "fresh_slots line" "state_ok limit (tm_queue line)" "limit \<le> now + 60"
    "list_all (\<lambda>n. \<not> tn_freed n) (squeue_items (snd (tm_queue line)))"
  defines "items \<equiv> squeue_items (snd (tm_queue line))"
  shows "\<exists>line'. event_loop now (length items) line =
      (map addressed (filter (\<lambda>d. tn_expire d \<le> tm_times line) items), Inr line') \<and>
    state_ok limit (tm_queue line') \<and> squeue_items (snd (tm_queue line')) = [] \<and> fresh_slots line' \<and>
    tm_times line' = tm_times line \<and> tm_systime line' = tm_systime line \<and>
    (\<forall>i. tm_near line' i = tm_near line i @ near_of (tm_times line) i items) \<and>
    (\<forall>i. tm_far line' i = tm_far line i @ far_of (tm_times line) i items)"
  using assms(1,2,4) unfolding items_def
proof (induction "squeue_items (snd (tm_queue line))" arbitrary: line)
  case Nil
  then show ?case by (simp add: quiet_def near_of_def far_of_def)
next
  case (Cons d ds)
  let ?t = "tm_times line"
  obtain q where q: "handler_pop_squeue now (tm_queue line) = Inr (d, q)" "state_ok limit q" "squeue_items (snd q) = ds"
    using pop_state [OF Cons.prems(2) _ assms(3)] Cons.hyps(2) [symmetric] by auto
  have d: "\<not> tn_freed d" "list_all (\<lambda>n. \<not> tn_freed n) ds"
    using Cons.prems(3) Cons.hyps(2) [symmetric] by simp_all
  let ?l = "line\<lparr>tm_queue := q\<rparr>"
  have l: "fresh_slots ?l" using Cons.prems(1) by (simp add: fresh_slots_def)
  show ?case
  proof (cases "tn_expire d \<le> ?t")
    case True
    then show ?thesis
      using Cons.hyps(1) [of ?l] q l d(2) Cons.hyps(2) [symmetric]
      by (auto simp: tbind_tell addressed_def near_of_def far_of_def not_less)
  next
    case False
    then have "?t < tn_expire d" by simp
    then obtain l1 where l1: "place d ?l = Inr l1" "fresh_slots l1" "tm_queue l1 = q" "tm_times l1 = ?t"
      "tm_systime l1 = tm_systime line" "\<And>i. tm_near l1 i = tm_near line i @ near_of ?t i [d]"
      "\<And>i. tm_far l1 i = tm_far line i @ far_of ?t i [d]"
      using place_ok [OF l, of d] d(1) by auto
    have split: "near_of ?t i (d # ds) = near_of ?t i [d] @ near_of ?t i ds" "far_of ?t i (d # ds) = far_of ?t i [d] @ far_of ?t i ds" for i
      by (simp_all add: near_of_def far_of_def)
    obtain l2 where l2: "event_loop now (length ds) l1 = (map addressed (filter (\<lambda>d. tn_expire d \<le> ?t) ds), Inr l2)"
      "state_ok limit (tm_queue l2)" "squeue_items (snd (tm_queue l2)) = []" "fresh_slots l2" "tm_times l2 = ?t"
      "tm_systime l2 = tm_systime line" "\<And>i. tm_near l2 i = tm_near l1 i @ near_of ?t i ds"
      "\<And>i. tm_far l2 i = tm_far l1 i @ far_of ?t i ds"
      using Cons.hyps(1) [of l1] q(2,3) d(2) l1(2-5) by auto
    show ?thesis
      using False q(1) l1(1) l2 Cons.hyps(2) [symmetric] l1(6,7) split
      by (intro exI [of _ l2]) (simp add: quiet_def [symmetric])
  qed
qed

lemma wheel_ok_extend:
  assumes "wheel_ok line" "tm_times line' = tm_times line"
    "\<And>i. tm_near line' i = tm_near line i @ near_of (tm_times line) i ds" "list_all (\<lambda>n. \<not> tn_freed n) ds"
  shows "wheel_ok line'"
proof -
  have "i < 65536 \<and> \<not> tn_freed d \<and> unat (tn_expire d) = 65536 * (unat (tm_times line) div 65536) + i \<and> tm_times line \<le> tn_expire d"
    if "d \<in> set (near_of (tm_times line) i ds)" for d i
    using that assms(4) mult_div_mod_eq [of 65536 "unat (tn_expire d)"]
    by (auto simp: near_of_def list_all_iff)
  then show ?thesis using assms(1-3) by (auto simp: wheel_ok_def)
qed

lemma fresh_slots_wheel:
  "wheel_ok line \<Longrightarrow> \<forall>i. list_all (\<lambda>n. \<not> tn_freed n) (tm_far line i) \<Longrightarrow> fresh_slots line"
  by (simp add: fresh_slots_def wheel_slot)

lemma event_ok:
  assumes "wheel_ok line" "\<forall>i. list_all (\<lambda>n. \<not> tn_freed n) (tm_far line i)"
    "state_ok limit (tm_queue line)" "limit \<le> now + 60" "list_all (\<lambda>n. \<not> tn_freed n) (squeue_items (snd (tm_queue line)))"
  shows "\<exists>line'. do_timer_event now line =
      (map addressed (filter (\<lambda>d. tn_expire d \<le> tm_times line) (squeue_items (snd (tm_queue line)))), Inr line') \<and>
    wheel_ok line' \<and> fresh_slots line' \<and> state_ok limit (tm_queue line') \<and> squeue_items (snd (tm_queue line')) = [] \<and>
    tm_times line' = tm_times line \<and> tm_systime line' = tm_systime line \<and>
    (\<forall>i. tm_near line' i = tm_near line i @ near_of (tm_times line) i (squeue_items (snd (tm_queue line)))) \<and>
    (\<forall>i. tm_far line' i = tm_far line i @ far_of (tm_times line) i (squeue_items (snd (tm_queue line))))"
proof -
  have "nat (sq_count (snd (tm_queue line))) = length (squeue_items (snd (tm_queue line)))"
    using assms(3) by (auto simp: state_ok_def split: prod.splits)
  then show ?thesis
    using event_loop_ok [OF fresh_slots_wheel [OF assms(1,2)] assms(3,4,5)] wheel_ok_extend [OF assms(1) _ _ assms(5)]
    by (simp only: do_timer_event_def) blast
qed

section \<open>Empty slots, the clock, shutdown\<close>

lemma ticks_empty:
  assumes "\<And>j. unat (tm_times line) mod 65536 \<le> j \<Longrightarrow> j < unat (tm_times line) mod 65536 + n \<Longrightarrow> tm_near line j = []"
    "unat (tm_times line) mod 65536 + n \<le> 65535"
  shows "ticks keeps n line = ([], Inr (line\<lparr>tm_times := tm_times line + word_of_nat n\<rparr>))"
  using assms
proof (induction n arbitrary: line)
  case 0
  then show ?case by (simp add: quiet_def)
next
  case (Suc n)
  let ?l = "line\<lparr>tm_times := tm_times line + 1\<rparr>"
  have i: "unat (tm_times ?l) mod 65536 = Suc (unat (tm_times line) mod 65536)"
    using next_tick [of "tm_times line" 1] Suc.prems(2) by simp
  have slot: "tm_near line (unat (tm_times line) mod 65536) = []" using Suc.prems(1) by simp
  have "(tm_near line)(unat (tm_times line) mod 65536 := []) = tm_near line" using slot by (simp add: fun_upd_idem)
  then have "do_timers keeps line = ([], Inr ?l)"
    using Suc.prems(2) slot by (simp add: do_timers_def Let_def low_word quiet_def)
  moreover have "ticks keeps n ?l = ([], Inr (?l\<lparr>tm_times := tm_times ?l + word_of_nat n\<rparr>))"
    using Suc.prems unfolding i [symmetric] by (intro Suc.IH) (simp_all only: i, simp_all)
  ultimately show ?case by (simp add: add.assoc)
qed

lemma ticks_add: "ticks keeps (m + n) line = tbind (ticks keeps m line) (ticks keeps n)"
  for line :: "'m timer_line"
proof (induction m arbitrary: line)
  case (Suc m)
  have "ticks keeps (m + n) = (\<lambda>l :: 'm timer_line. tbind (ticks keeps m l) (ticks keeps n))" by (rule ext) (rule Suc.IH)
  then show ?case by (simp add: tbind_assoc)
qed simp

lemma cascade_times: "cascade keeps line = Inr l \<Longrightarrow> tm_times l = tm_times line \<and> tm_systime l = tm_systime line"
  by (auto simp: cascade_def Let_def rbind_Inr_iff split: list.splits if_splits)

lemma do_timers_times:
  "snd (do_timers keeps line) = Inr l \<Longrightarrow> tm_times l = tm_times line + 1 \<and> tm_systime l = tm_systime line"
  by (auto simp: do_timers_def Let_def tbind_Inr_iff quiet_def rbind_Inr_iff dest!: cascade_times split: if_splits)

lemma ticks_times:
  "snd (ticks keeps n line) = Inr l \<Longrightarrow> tm_times l = tm_times line + word_of_nat n \<and> tm_systime l = tm_systime line"
  by (induction n arbitrary: line) (force simp: quiet_def tbind_Inr_iff dest!: do_timers_times)+

lemma place_times: "place d line = Inr l \<Longrightarrow> tm_times l = tm_times line \<and> tm_systime l = tm_systime line"
  by (auto simp: place_def Let_def rbind_Inr_iff split: if_splits)

lemma event_loop_times:
  "snd (event_loop now k line) = Inr l \<Longrightarrow> tm_times l = tm_times line \<and> tm_systime l = tm_systime line"
proof (induction k arbitrary: line)
  case (Suc k)
  then show ?case
    by (fastforce simp: tbind_Inr_iff quiet_def Let_def dest!: place_times split: if_splits)
qed (simp add: quiet_def)

lemma free_slot_ok: "list_all (\<lambda>n. \<not> tn_freed n) ns \<Longrightarrow> free_slot ns = (map tn_msg ns, Inr ())"
  by (induction ns) (simp_all add: tbind_tell quiet_def)

lemma free_slots_ok:
  "fresh_slots line \<Longrightarrow> distinct is \<Longrightarrow> \<exists>line'. free_slots is line =
     (concat (map (\<lambda>i. map tn_msg (tm_near line i) @ map tn_msg (tm_far line i)) is), Inr line') \<and>
   tm_queue line' = tm_queue line"
proof (induction "is" arbitrary: line)
  case (Cons i "is")
  let ?l = "line\<lparr>tm_near := (tm_near line)(i := []), tm_far := (tm_far line)(i := [])\<rparr>"
  have l: "fresh_slots ?l" and i: "list_all (\<lambda>n. \<not> tn_freed n) (tm_near line i)" "list_all (\<lambda>n. \<not> tn_freed n) (tm_far line i)"
    using Cons.prems(1) by (simp_all add: fresh_slots_def)
  have same: "map (\<lambda>i. map tn_msg (tm_near ?l i) @ map tn_msg (tm_far ?l i)) is = map (\<lambda>i. map tn_msg (tm_near line i) @ map tn_msg (tm_far line i)) is"
    using Cons.prems(2) by auto
  obtain l' where "free_slots is ?l = (concat (map (\<lambda>i. map tn_msg (tm_near ?l i) @ map tn_msg (tm_far ?l i)) is), Inr l')"
    "tm_queue l' = tm_queue line" using Cons.IH [OF l] Cons.prems(2) by auto
  then show ?case using i unfolding same by (simp add: free_slot_ok)
qed (simp add: quiet_def)

lemma drain_ok:
  assumes "state_ok limit q" "limit \<le> now + 60"
  shows "drain_timers now (Suc (length (squeue_items (snd q)))) q = (map tn_msg (squeue_items (snd q)), Inl AssertFail)"
  using assms(1)
proof (induction "squeue_items (snd q)" arbitrary: q)
  case Nil
  then have "sq_count (snd q) = 0" by (auto simp: state_ok_def split: prod.splits)
  then show ?case using Nil.hyps [symmetric] by (cases q) (simp add: handler_pop_squeue_def quiet_def)
next
  case (Cons d ds)
  obtain q' where q': "handler_pop_squeue now q = Inr (d, q')" "state_ok limit q'" "squeue_items (snd q') = ds"
    using pop_state [OF Cons.prems _ assms(2)] Cons.hyps(2) [symmetric] by auto
  then have "drain_timers now (Suc (length ds)) q' = (map tn_msg ds, Inl AssertFail)" using Cons.hyps(1) [of q'] by simp
  then show ?case using q'(1) Cons.hyps(2) [symmetric] by (simp add: tbind_tell del: drain_timers.simps(2)) (simp add: tbind_tell)
qed

section \<open>Properties\<close>

text \<open>
  C21. Timers of the current block go off exactly at their tick: a call that takes the new
  timers from the queue and the ticks after it, up to the last slot of the block, hand to the
  handlers first the messages of the new timers that are already due, in order, then at each
  tick those of the wheel and of the new timers that expire at this very tick, each once.
  Nothing faults if reading the link of a node just given back finds the old link, and the new
  timers of later blocks are kept, in the slots of their blocks.
\<close>

theorem timers_fire_on_time:
  assumes "wheel_ok line" "\<forall>i. list_all (\<lambda>d. \<not> tn_freed d) (tm_far line i)" "state_ok limit (tm_queue line)"
    "limit \<le> now + 60" "list_all (\<lambda>d. \<not> tn_freed d) items" "squeue_items (snd (tm_queue line)) = items"
    "tm_times line = t" "unat t mod 65536 + n \<le> 65535"
  shows "\<exists>line'. tbind (do_timer_event now line) (ticks True n) =
      (map addressed (filter (\<lambda>d. tn_expire d \<le> t) items) @
       concat (map (\<lambda>k. map addressed (due line (unat t + k) @ filter (\<lambda>d. t < tn_expire d \<and> unat (tn_expire d) = unat t + k) items))
         [0..<n]), Inr line') \<and>
    wheel_ok line' \<and> tm_times line' = t + word_of_nat n \<and> (\<forall>i. tm_far line' i = tm_far line i @ far_of t i items)"
proof -
  let ?i = "unat t mod 65536"
  obtain l1 where l1: "do_timer_event now line = (map addressed (filter (\<lambda>d. tn_expire d \<le> t) items), Inr l1)"
    "wheel_ok l1" "tm_times l1 = t" "\<And>i. tm_near l1 i = tm_near line i @ near_of t i items"
    "\<And>i. tm_far l1 i = tm_far line i @ far_of t i items"
    using event_ok [OF assms(1-4)] assms(5-7) by auto
  have slot: "tm_near l1 (?i + k) = due line (unat t + k) @ filter (\<lambda>d. t < tn_expire d \<and> unat (tn_expire d) = unat t + k) items"
    if "k < n" for k
  proof -
    have k: "(unat t + k) div 65536 = unat t div 65536" "(unat t + k) mod 65536 = ?i + k"
      using next_tick [of t k] that assms(8) by simp_all
    have "e div 65536 = unat t div 65536 \<and> e mod 65536 = ?i + k \<longleftrightarrow> e = unat t + k" for e
      using k mult_div_mod_eq [of 65536 e] mult_div_mod_eq [of 65536 "unat t + k"] by metis
    then have "near_of t (?i + k) items = filter (\<lambda>d. t < tn_expire d \<and> unat (tn_expire d) = unat t + k) items"
      unfolding near_of_def by (intro filter_cong) auto
    then show ?thesis using due_slot [OF assms(1), of "unat t + k"] k l1(4) assms(7) by simp
  qed
  have "map (\<lambda>k. map addressed (tm_near l1 (?i + k))) [0..<n] =
      map (\<lambda>k. map addressed (due line (unat t + k) @ filter (\<lambda>d. t < tn_expire d \<and> unat (tn_expire d) = unat t + k) items)) [0..<n]"
    using slot by (intro map_cong) (simp_all only: atLeastLessThan_iff set_upt)
  note out = arg_cong [OF this, of concat]
  let ?l2 = "l1\<lparr>tm_near := (\<lambda>j. if ?i \<le> j \<and> j < ?i + n then [] else tm_near l1 j), tm_times := t + word_of_nat n\<rparr>"
  have run: "ticks True n l1 = (concat (map (\<lambda>k. map addressed (tm_near l1 (?i + k))) [0..<n]), Inr ?l2)" "wheel_ok ?l2"
    using ticks_ok [OF l1(2), of n] assms(8) by (simp_all only: l1(3) simp_thms)
  show ?thesis
    using run l1(1,5) by (intro exI [of _ ?l2]) (simp only: tbind.simps out fst_conv snd_conv, simp)
qed

definition alarm :: "u32 \<Rightarrow> string timer_node" where
  "alarm t = \<lparr>tn_msg = ''wake'', tn_handlerid = 9, tn_expire = t, tn_freed = False\<rparr>"

definition still :: "u32 \<Rightarrow> string timer_node queue_state \<Rightarrow> string timer_line" where
  "still t q = \<lparr>tm_queue = q, tm_systime = 0, tm_times = t, tm_near = (\<lambda>_. []), tm_far = (\<lambda>_. [])\<rparr>"

lemma still_simps [simp]: "tm_queue (still t q) = q" "tm_times (still t q) = t" "tm_near (still t q) i = []" "tm_far (still t q) i = []"
  by (simp_all add: still_def)

lemma still_ok: "wheel_ok (still t q)" "due (still t q) n = []"
proof -
  have "concat (map (\<lambda>_. [] :: string timer_node list) xs) = []" for xs :: "nat list" by (induction xs) simp_all
  moreover have "tm_near (still t q) = (\<lambda>_. [])" by (simp add: still_def)
  ultimately show "due (still t q) n = []" by (simp only: due_def filter.simps)
qed (simp add: wheel_ok_def)

lemma one_alarm:
  "\<exists>q. push_squeue 0 (Some (alarm t)) (init_squeue 0 init_squeue_node_pool) = Inr q \<and> state_ok 60 q \<and> squeue_items (snd q) = [alarm t]"
proof -
  let ?s = "init_squeue 0 init_squeue_node_pool :: string timer_node queue_state"
  have "state_ok 60 ?s \<and> squeue_items (snd ?s) = []"
    by (rule init_squeue_ok) (simp_all add: pool_fresh_def init_squeue_node_pool_def)
  then show ?thesis using push_state [of 60 ?s 0 "alarm t"] by (simp del: split_paired_Ex)
qed

theorem timers_fire_on_time_witness:
  "\<exists>q line'. push_squeue 0 (Some (alarm 6)) (init_squeue 0 init_squeue_node_pool) = Inr q \<and>
     tbind (do_timer_event 0 (still 5 q)) (ticks True 3) = ([(9, ''wake'')], Inr line')"
proof -
  obtain q where q: "push_squeue 0 (Some (alarm 6)) (init_squeue 0 init_squeue_node_pool) = Inr q" "state_ok 60 q"
    "squeue_items (snd q) = [alarm 6]" using one_alarm by blast
  have u: "[0..<3] = [0, 1, 2 :: nat]" by (simp add: upt_rec)
  show ?thesis
    using timers_fire_on_time [of "still 5 q" 60 0 "[alarm 6]" 5 3] q
    by (auto simp: still_ok u alarm_def addressed_def)
qed

text \<open>
  A timer of a later block is lost: it waits through its own block without being sent,
  since the wheel \<open>_far\<close> is emptied at the end of a block into the next one and not into the
  block that begins; of several such timers only the first is moved, the others are in no list
  any more; and the node that was moved has been given back, so that the tick that reaches it
  in the following block reads freed memory.
\<close>

theorem far_timers_are_lost:
  assumes "unat (tm_times line) mod 65536 = 0" "\<And>i. tm_near line i = []"
    "tm_far line (unat (tm_times line) div 65536) = d # ds" "\<not> tn_freed d"
  shows "ticks True 65535 line = ([], Inr (line\<lparr>tm_times := tm_times line + 65535\<rparr>)) \<and>
    (\<exists>line'. ticks True 65536 line = ([], Inr line') \<and> tm_far line' (unat (tm_times line) div 65536) = [] \<and>
      (\<forall>i. tm_near line' i = (if i = unat (tn_expire d) mod 65536 then [d\<lparr>tn_freed := True\<rparr>] else []))) \<and>
    ticks True (65536 + unat (tn_expire d) mod 65536 + 1) line = ([], Inl UseAfterFree)"
proof -
  let ?b = "unat (tm_times line) div 65536" and ?m = "unat (tn_expire d) mod 65536"
  let ?l = "line\<lparr>tm_times := tm_times line + 65535\<rparr>"
  let ?l' = "?l\<lparr>tm_near := (tm_near line)(?m := [d\<lparr>tn_freed := True\<rparr>]), tm_far := (tm_far line)(?b := []), tm_times := tm_times line + 65536\<rparr>"
  have block: "ticks True 65535 line = ([], Inr ?l)"
    using ticks_empty [of line 65535 True] assms(1,2) by simp
  have t: "unat (tm_times ?l) mod 65536 = 65535" "unat (tm_times ?l) div 65536 = ?b"
    using next_tick [of "tm_times line" 65535] assms(1) by simp_all
  have upd: "(tm_near line)(65535 := []) = tm_near line" using assms(2) by (simp add: fun_upd_idem)
  have "do_timers True ?l = ([], Inr ?l')"
    using t assms(2-4) unfolding do_timers_def Let_def cascade_def high_word
    by (simp add: low_word add_timer_link_def quiet_def upd)
  then have next_block: "ticks True 65536 line = ([], Inr ?l')"
    using ticks_add [of True 65535 1 line] block by (simp add: quiet_def)
  have t': "unat (tm_times ?l') mod 65536 = 0"
  proof -
    have "unat (tm_times line + 65536) = (unat (tm_times line) + 65536) mod 2 ^ 32" by (simp add: unat_word_ariths)
    moreover have "(65536 :: nat) dvd 2 ^ 32" by simp
    ultimately have "unat (tm_times line + 65536) mod 65536 = (unat (tm_times line) + 65536) mod 65536"
      by (simp only: mod_mod_cancel)
    then show ?thesis using assms(1) by simp
  qed
  have "ticks True ?m ?l' = ([], Inr (?l'\<lparr>tm_times := tm_times ?l' + word_of_nat ?m\<rparr>))"
    by (rule ticks_empty) (use t' assms(2) in \<open>simp_all add: less_Suc_eq_le [symmetric]\<close>)
  moreover have "do_timers True (?l'\<lparr>tm_times := tm_times ?l' + word_of_nat ?m\<rparr>) = ([], Inl UseAfterFree)"
    using next_tick(3) [of "tm_times ?l'" ?m] t' by (simp add: do_timers_def Let_def low_word quiet_def next_tick)
  ultimately have "ticks True (?m + 1) ?l' = ([], Inl UseAfterFree)"
    using ticks_add [of True ?m 1 ?l'] by simp
  then have "ticks True (65536 + (?m + 1)) line = ([], Inl UseAfterFree)"
    using ticks_add [of True 65536 "?m + 1" line] next_block by simp
  then show ?thesis using block next_block assms(2) by (auto simp: add.assoc)
qed

theorem far_timers_are_lost_witness:
  "ticks True (65536 + 7 + 1) ((still 0 (init_squeue 0 init_squeue_node_pool))\<lparr>tm_far := (\<lambda>_. [])(0 := [alarm 7, alarm 9])\<rparr>) =
     ([], Inl UseAfterFree)"
  using far_timers_are_lost [of "(still 0 (init_squeue 0 init_squeue_node_pool))\<lparr>tm_far := (\<lambda>_. [])(0 := [alarm 7, alarm 9])\<rparr>"
      "alarm 7" "[alarm 9]"]
  by (simp add: alarm_def)

text \<open>
  The clock of the timers is not the system's: a call that returns has advanced the ticks
  by one more than the seconds that passed modulo four - two for one second, one for four -
  and remembers the system time.
\<close>

theorem timer_clock:
  assumes "tm_systime line < t" "snd (do_timer keeps now t line) = Inr line'"
  shows "tm_times line' = tm_times line + word_of_nat (nat ((t - tm_systime line) mod 4) + 1) \<and> tm_systime line' = t"
proof -
  have and3: "x AND 3 = x mod 4" for x :: int
    using take_bit_eq_mask [of 2 x] by (simp add: take_bit_eq_mod mask_eq_exp_minus_1)
  show ?thesis
    using assms unfolding do_timer_def do_timer_event_def Let_def
    by (force simp: tbind_Inr_iff quiet_def and3 dest!: ticks_times event_loop_times simp del: ticks.simps)
qed

theorem timer_clock_witness:
  "\<exists>line'. snd (do_timer True 0 101 ((still 5 (init_squeue 0 init_squeue_node_pool))\<lparr>tm_systime := 100\<rparr>)) = Inr line' \<and>
     tm_times line' = 7"
proof -
  let ?l = "(still 5 (init_squeue 0 init_squeue_node_pool))\<lparr>tm_systime := 100\<rparr>"
  have "ticks True 2 ?l = ([], Inr (?l\<lparr>tm_times := 5 + word_of_nat 2\<rparr>))"
    using ticks_empty [of ?l 2 True] by simp
  then have "snd (do_timer True 0 101 ?l) = Inr (?l\<lparr>tm_times := 7, tm_systime := 101\<rparr>)"
    by (simp add: do_timer_def do_timer_event_def Let_def init_squeue_def split_def quiet_def numeral_2_eq_2 [symmetric] del: ticks.simps)
  then show ?thesis using timer_clock [of ?l 101 True 0] by auto
qed

text \<open>
  Without the old link - when a freed block may hold anything - a slot with timers is
  fatal: its messages are all sent, and then the loop that clears it reads the link of the
  first node after giving it back.
\<close>

theorem timer_slot_use_after_free:
  assumes "tm_near line (unat (tm_times line) mod 65536) = d # ds" "list_all (\<lambda>d. \<not> tn_freed d) (d # ds)"
  shows "do_timers False line = (map addressed (d # ds), Inl UseAfterFree)"
  using assms send_slot_ok [OF assms(2)] by (simp add: do_timers_def Let_def low_word quiet_def)

theorem timer_slot_use_after_free_witness:
  "do_timers False ((still 7 (init_squeue 0 init_squeue_node_pool))\<lparr>tm_near := (\<lambda>_. [])(7 := [alarm 7])\<rparr>) =
     ([(9, ''wake'')], Inl UseAfterFree)"
  using timer_slot_use_after_free [of "(still 7 (init_squeue 0 init_squeue_node_pool))\<lparr>tm_near := (\<lambda>_. [])(7 := [alarm 7])\<rparr>" "alarm 7" "[]"]
  by (simp add: alarm_def addressed_def)

text \<open>
  The shutdown of the timers never returns: it gives back every message of the wheels
  and of the queue, and then takes from the empty queue, which fails an assertion.
\<close>

theorem uninit_timer_aborts:
  assumes "fresh_slots line" "state_ok limit (tm_queue line)" "limit \<le> now + 60"
  shows "uninit_timer now line =
    (concat (map (\<lambda>i. map tn_msg (tm_near line i) @ map tn_msg (tm_far line i)) [0..<65536]) @
     map tn_msg (squeue_items (snd (tm_queue line))), Inl AssertFail)"
proof -
  obtain l where l: "free_slots [0..<65536] line =
      (concat (map (\<lambda>i. map tn_msg (tm_near line i) @ map tn_msg (tm_far line i)) [0..<65536]), Inr l)"
    "tm_queue l = tm_queue line" using free_slots_ok [OF assms(1) distinct_upt] by blast
  have "nat (sq_count (snd (tm_queue line))) = length (squeue_items (snd (tm_queue line)))"
    using assms(2) by (auto simp: state_ok_def split: prod.splits)
  then show ?thesis
    using drain_ok [OF assms(2,3)] unfolding uninit_timer_def l by (simp only: tbind.simps l(2) fst_conv snd_conv Suc_eq_plus1 [symmetric])
qed

theorem uninit_timer_aborts_witness:
  "\<exists>q. push_squeue 0 (Some (alarm 6)) (init_squeue 0 init_squeue_node_pool) = Inr q \<and>
     uninit_timer 0 (still 5 q) = ([''wake''], Inl AssertFail)"
proof -
  obtain q where q: "push_squeue 0 (Some (alarm 6)) (init_squeue 0 init_squeue_node_pool) = Inr q" "state_ok 60 q"
    "squeue_items (snd q) = [alarm 6]" using one_alarm by blast
  have "concat (map (\<lambda>_. [] @ [] :: string list) xs) = []" for xs :: "nat list" by (induction xs) simp_all
  then show ?thesis
    using uninit_timer_aborts [of "still 5 q" 60 0] q unfolding still_simps list.map
    by (simp add: fresh_slots_def alarm_def del: upt_rec_numeral)
qed

end
