(* ===== verification/Handlers.thy ===== *)
theory Handlers
  imports Squeue Traced
begin

text \<open>
  The message handlers of \<open>antlib/handlerlib\<close>: \<open>handler.c\<close>, \<open>handler.h\<close>, \<open>handlerlib.c\<close> and the
  loops of the worker threads in \<open>thread_proc.h\<close>. A handler has a queue of messages, a function
  for a message and one that runs after the queue was served; both get the data of the handler
  and may send messages, which is all they do to the library. The pool of queue nodes is shared
  by all queues. Served messages are listed as output, with the number of their handler.
\<close>

section \<open>State\<close>

type_synonym 'm sends = "(u32 \<times> 'm) list"

record ('m, 'd) handler =
  hl_name :: string
  hl_queue :: "'m squeue"
  hl_domsg :: "'m \<Rightarrow> 'd \<Rightarrow> u32 \<Rightarrow> 'd \<times> 'm sends"
  hl_proc :: "('d \<Rightarrow> u32 \<Rightarrow> 'd \<times> 'm sends) option"
  hl_data :: 'd
  hl_handlerid :: u32
  hl_locker :: bool

record handlers_list =
  gl_id :: int
  gl_handlers :: "nat option list"
  gl_size :: nat
  gl_index :: u32
  gl_threads_num :: u32

record ('m, 'd) handlerlib =
  lib_pool :: squeue_pool
  lib_groups :: "handlers_list list"
  lib_server_id :: int
  lib_index :: nat
  lib_count :: nat
  lib_state :: int
  lib_list :: "('m, 'd) handler list"

section \<open>Groups\<close>

definition init_handlers_list :: "int \<Rightarrow> handlers_list" where
  "init_handlers_list threads_num =
     \<lparr>gl_id = 0, gl_handlers = [], gl_size = 0, gl_index = 0, gl_threads_num = word_of_int threads_num\<rparr>"

definition uninit_handlers_list :: "handlers_list \<Rightarrow> handlers_list" where
  "uninit_handlers_list l = l\<lparr>gl_handlers := []\<rparr>"

text \<open>The array grows by 32 cells when it is full.\<close>

definition add_handler :: "nat \<Rightarrow> handlers_list \<Rightarrow> fault + handlers_list" where
  "add_handler hl l =
     (let l = (if unat (gl_index l) = gl_size l
               then l\<lparr>gl_handlers := take (gl_size l) (gl_handlers l) @ replicate 32 None, gl_size := gl_size l + 32\<rparr> else l)
      in rbind (c_assert (unat (gl_index l) < gl_size l)) (\<lambda>_.
         rbind (wr (gl_handlers l) (unat (gl_index l)) (Some hl)) (\<lambda>hs.
         Inr (l\<lparr>gl_handlers := hs, gl_index := gl_index l + 1\<rparr>))))"

text \<open>What the threads of a group work on: one handler, or the whole group.\<close>

datatype job = HandlerJob nat | GroupJob int

definition crate_handlers_thread :: "handlers_list \<Rightarrow> fault + job list \<times> handlers_list" where
  "crate_handlers_thread l =
     (if gl_index l \<le> gl_threads_num l then
        rbind (copy_out 0 (unat (gl_index l)) (gl_handlers l)) (\<lambda>hs.
          if None \<in> set hs then Inl Uninitialised
          else Inr (map (HandlerJob \<circ> the) hs,
            l\<lparr>gl_threads_num := gl_index l, gl_size := unat (gl_index l), gl_index := 0\<rparr>))
      else Inr (replicate (unat (gl_threads_num l)) (GroupJob (gl_id l)),
        l\<lparr>gl_size := unat (gl_index l), gl_index := 0\<rparr>))"

section \<open>Handlers\<close>

definition init_handler ::
  "u32 \<Rightarrow> string option \<Rightarrow> ('m \<Rightarrow> 'd \<Rightarrow> u32 \<Rightarrow> 'd \<times> 'm sends) \<Rightarrow> ('d \<Rightarrow> u32 \<Rightarrow> 'd \<times> 'm sends) option \<Rightarrow> 'd \<Rightarrow>
   squeue_pool \<Rightarrow> ('m, 'd) handler \<Rightarrow> fault + squeue_pool \<times> ('m, 'd) handler" where
  "init_handler now name domsg_f dohandler_f data p hl =
     rbind (c_assert (hl_handlerid hl = 0)) (\<lambda>_.
     let nm = (case name of Some s \<Rightarrow> if s \<noteq> [] then strncpy_cleared 31 s else hl_name hl | None \<Rightarrow> hl_name hl);
         (p, qu) = init_squeue now p
     in Inr (p, hl\<lparr>hl_name := nm, hl_domsg := domsg_f, hl_proc := dohandler_f, hl_data := data, hl_queue := qu\<rparr>))"

text \<open>The loop over the queue of a handler that goes away: the messages are given back.\<close>

primrec free_msgs :: "u32 \<Rightarrow> nat \<Rightarrow> 'm queue_state \<Rightarrow> ('m, 'm queue_state) traced" where
  "free_msgs now 0 q = quiet (if sq_count (snd q) > 0 then Inl Spins else Inr q)"
| "free_msgs now (Suc k) q =
     (if sq_count (snd q) > 0 then
        tbind (quiet (handler_pop_squeue now q)) (\<lambda>(msg, q). tbind (tell msg) (\<lambda>_. free_msgs now k q))
      else quiet (Inr q))"

definition destory_handler ::
  "u32 \<Rightarrow> squeue_pool \<Rightarrow> ('m, 'd) handler \<Rightarrow> ('m, squeue_pool \<times> ('m, 'd) handler) traced" where
  "destory_handler now p hl =
     (if hl_handlerid hl = 0 then quiet (Inr (p, hl))
      else tbind (free_msgs now (nat (sq_count (hl_queue hl))) (p, hl_queue hl)) (\<lambda>(p, qu).
        quiet (Inr (p, hl\<lparr>hl_queue := snd (uninit_squeue qu)\<rparr>))))"

section \<open>The library\<close>

definition blank_handler :: "('m \<Rightarrow> 'd \<Rightarrow> u32 \<Rightarrow> 'd \<times> 'm sends) \<Rightarrow> 'd \<Rightarrow> ('m, 'd) handler" where
  "blank_handler f d = \<lparr>hl_name = [], hl_queue = \<lparr>sq_count = 0, sq_done = None, sq_chain = []\<rparr>, hl_domsg = f, hl_proc = None,
     hl_data = d, hl_handlerid = 0, hl_locker = False\<rparr>"

text \<open>The cleared block; \<open>f\<close> and \<open>d\<close> stand for the null pointers in it.\<close>

definition init_handlerlib ::
  "('m \<Rightarrow> 'd \<Rightarrow> u32 \<Rightarrow> 'd \<times> 'm sends) \<Rightarrow> 'd \<Rightarrow> int \<Rightarrow> int \<Rightarrow> squeue_pool \<Rightarrow> fault + ('m, 'd) handlerlib" where
  "init_handlerlib f d server_id handlers_max p =
     rbind (c_assert (handlers_max > 0 \<and> handlers_max \<le> 2048)) (\<lambda>_.
     Inr \<lparr>lib_pool = p, lib_groups = [], lib_server_id = server_id, lib_index = 0, lib_count = nat handlers_max,
          lib_state = 1, lib_list = replicate (nat handlers_max) (blank_handler f d)\<rparr>)"

primrec find_group :: "int \<Rightarrow> handlers_list list \<Rightarrow> nat option" where
  "find_group g [] = None"
| "find_group g (l # ls) = (if gl_id l = g then Some 0 else map_option Suc (find_group g ls))"

definition get_handler_group :: "int \<Rightarrow> ('m, 'd) handlerlib \<Rightarrow> nat option" where
  "get_handler_group g lib = find_group g (lib_groups lib)"

definition create_handlers_group :: "int \<Rightarrow> int \<Rightarrow> ('m, 'd) handlerlib \<Rightarrow> fault + int \<times> ('m, 'd) handlerlib" where
  "create_handlers_group groupid thread_count lib =
     rbind (c_assert (groupid > 0 \<and> groupid < 31 \<and> thread_count > 0 \<and> thread_count < 1024)) (\<lambda>_.
     rbind (c_assert (get_handler_group groupid lib = None)) (\<lambda>_.
     Inr (0, lib\<lparr>lib_groups := (init_handlers_list thread_count)\<lparr>gl_id := groupid\<rparr> # lib_groups lib\<rparr>)))"

definition handlerid_of :: "int \<Rightarrow> int \<Rightarrow> nat \<Rightarrow> u32" where
  "handlerid_of server_id group_id index =
     (push_bit 16 (word_of_int server_id) OR push_bit 11 (word_of_int group_id) OR (word_of_nat index AND 0x7FF))"

definition register_handler ::
  "u32 \<Rightarrow> int \<Rightarrow> string option \<Rightarrow> ('m \<Rightarrow> 'd \<Rightarrow> u32 \<Rightarrow> 'd \<times> 'm sends) \<Rightarrow> ('d \<Rightarrow> u32 \<Rightarrow> 'd \<times> 'm sends) option \<Rightarrow> 'd \<Rightarrow>
   ('m, 'd) handlerlib \<Rightarrow> fault + u32 \<times> ('m, 'd) handlerlib" where
  "register_handler now group_id name domsg proc data lib =
     rbind (c_assert (lib_index lib < lib_count lib \<and> group_id \<ge> 0 \<and> group_id < 32)) (\<lambda>_.
     case get_handler_group group_id lib of
       None \<Rightarrow> Inl AssertFail
     | Some g \<Rightarrow>
         let index = lib_index lib
         in rbind (rd (lib_list lib) index) (\<lambda>hl.
            rbind (init_handler now name domsg proc data (lib_pool lib) hl) (\<lambda>(p, hl).
            let hid = handlerid_of (lib_server_id lib) group_id index
            in rbind (add_handler index (lib_groups lib ! g)) (\<lambda>l.
               Inr (hid, lib\<lparr>lib_index := index + 1, lib_pool := p, lib_list := (lib_list lib)[index := hl\<lparr>hl_handlerid := hid\<rparr>],
                 lib_groups := (lib_groups lib)[g := l]\<rparr>)))))"

definition send_handler_msg :: "u32 \<Rightarrow> u32 \<Rightarrow> 'm \<Rightarrow> ('m, 'd) handlerlib \<Rightarrow> fault + ('m, 'd) handlerlib" where
  "send_handler_msg now handlerid msg lib =
     rbind (c_assert (lib_state lib = 2 \<or> lib_state lib = 1)) (\<lambda>_.
     let index = unat (handlerid AND 0x7FF)
     in rbind (c_assert (index < lib_count lib)) (\<lambda>_.
        rbind (rd (lib_list lib) index) (\<lambda>hl.
        rbind (c_assert (hl_handlerid hl > 0)) (\<lambda>_.
        rbind (push_squeue now (Some msg) (lib_pool lib, hl_queue hl)) (\<lambda>(p, qu).
        Inr (lib\<lparr>lib_pool := p, lib_list := (lib_list lib)[index := hl\<lparr>hl_queue := qu\<rparr>]\<rparr>))))))"

primrec send_all :: "u32 \<Rightarrow> 'm sends \<Rightarrow> ('m, 'd) handlerlib \<Rightarrow> fault + ('m, 'd) handlerlib" where
  "send_all now [] lib = Inr lib"
| "send_all now (s # ss) lib = rbind (send_handler_msg now (fst s) (snd s) lib) (send_all now ss)"

section \<open>Serving\<close>

primrec serve_msgs :: "u32 \<Rightarrow> nat \<Rightarrow> nat \<Rightarrow> ('m, 'd) handlerlib \<Rightarrow> (u32 \<times> 'm, ('m, 'd) handlerlib) traced" where
  "serve_msgs now i 0 lib = quiet (Inr lib)"
| "serve_msgs now i (Suc k) lib =
     (let hl = lib_list lib ! i
      in tbind (quiet (handler_pop_squeue now (lib_pool lib, hl_queue hl))) (\<lambda>(msg, p, qu).
         let (d, ss) = hl_domsg hl msg (hl_data hl) (hl_handlerid hl);
             lib = lib\<lparr>lib_pool := p, lib_list := (lib_list lib)[i := hl\<lparr>hl_queue := qu, hl_data := d\<rparr>]\<rparr>
         in tbind (tell (hl_handlerid hl, msg)) (\<lambda>_.
            tbind (quiet (send_all now ss lib)) (serve_msgs now i k))))"

text \<open>The messages that were in the queue at the start, then the function of the handler.\<close>

definition do_handler :: "u32 \<Rightarrow> nat \<Rightarrow> ('m, 'd) handlerlib \<Rightarrow> (u32 \<times> 'm, nat \<times> ('m, 'd) handlerlib) traced" where
  "do_handler now i lib =
     (let count = nat (sq_count (hl_queue (lib_list lib ! i)))
      in tbind (serve_msgs now i count lib) (\<lambda>lib.
         let hl = lib_list lib ! i
         in case hl_proc hl of
              None \<Rightarrow> quiet (Inr (count, lib))
            | Some f \<Rightarrow>
                let (d, ss) = f (hl_data hl) (hl_handlerid hl)
                in tbind (quiet (send_all now ss (lib\<lparr>lib_list := (lib_list lib)[i := hl\<lparr>hl_data := d\<rparr>]\<rparr>)))
                     (\<lambda>lib. quiet (Inr (count, lib)))))"

text \<open>
  \<open>handlers_list_thread_proc\<close>: seven handlers in turn, \<open>_index\<close> being a 32 bit counter; a
  handler that another thread serves is skipped.
\<close>

primrec group_turns :: "u32 \<Rightarrow> nat \<Rightarrow> nat \<Rightarrow> ('m, 'd) handlerlib \<Rightarrow> (u32 \<times> 'm, ('m, 'd) handlerlib) traced" where
  "group_turns now g 0 lib = quiet (Inr lib)"
| "group_turns now g (Suc k) lib =
     (let l = lib_groups lib ! g
      in if gl_size l = 0 then quiet (Inl DivZero)
         else let i = unat (gl_index l) mod gl_size l;
                  lib = lib\<lparr>lib_groups := (lib_groups lib)[g := l\<lparr>gl_index := gl_index l + 1\<rparr>]\<rparr>
         in tbind (quiet (rd (gl_handlers l) i)) (\<lambda>c.
            case c of
              None \<Rightarrow> quiet (Inl Uninitialised)
            | Some h \<Rightarrow>
                if hl_locker (lib_list lib ! h) then group_turns now g k lib
                else tbind (do_handler now h lib) (\<lambda>(_, lib). group_turns now g k lib)))"

definition handlers_list_thread_proc :: "u32 \<Rightarrow> nat \<Rightarrow> ('m, 'd) handlerlib \<Rightarrow> (u32 \<times> 'm, ('m, 'd) handlerlib) traced" where
  "handlers_list_thread_proc now g = group_turns now g 7"

definition thread_proc_handler :: "u32 \<Rightarrow> nat \<Rightarrow> ('m, 'd) handlerlib \<Rightarrow> (u32 \<times> 'm, ('m, 'd) handlerlib) traced" where
  "thread_proc_handler now i lib = tbind (do_handler now i lib) (\<lambda>(_, lib). quiet (Inr lib))"

section \<open>Start and stop\<close>

primrec create_all :: "handlers_list list \<Rightarrow> fault + job list \<times> handlers_list list" where
  "create_all [] = Inr ([], [])"
| "create_all (l # ls) =
     rbind (crate_handlers_thread l) (\<lambda>(js, l). rbind (create_all ls) (\<lambda>(ks, ls). Inr (js @ ks, l # ls)))"

definition start_all_handlers :: "('m, 'd) handlerlib \<Rightarrow> fault + job list \<times> ('m, 'd) handlerlib" where
  "start_all_handlers lib =
     rbind (c_assert (lib_state lib = 1)) (\<lambda>_.
     rbind (create_all (lib_groups lib)) (\<lambda>(js, ls). Inr (js, lib\<lparr>lib_state := 2, lib_groups := ls\<rparr>)))"

definition stop_all_handlers :: "('m, 'd) handlerlib \<Rightarrow> fault + ('m, 'd) handlerlib" where
  "stop_all_handlers lib =
     rbind (c_assert (lib_state lib = 2)) (\<lambda>_. Inr (lib\<lparr>lib_state := 3\<rparr>))"

section \<open>Mailboxes\<close>

definition mail :: "('m, 'd) handlerlib \<Rightarrow> nat \<Rightarrow> 'm list" where
  "mail lib i = squeue_items (hl_queue (lib_list lib ! i))"

definition target :: "u32 \<Rightarrow> nat" where
  "target handlerid = unat (handlerid AND 0x7FF)"

definition sent_to :: "nat \<Rightarrow> 'm sends \<Rightarrow> 'm list" where
  "sent_to j ss = map snd (filter (\<lambda>s. target (fst s) = j) ss)"

lemma sent_to_simps [simp]:
  "sent_to j [] = []" "sent_to j (s # ss) = (if target (fst s) = j then [snd s] else []) @ sent_to j ss"
  "sent_to j (ss @ ts) = sent_to j ss @ sent_to j ts"
  by (simp_all add: sent_to_def)

text \<open>
  The library between two operations: the first \<open>lib_index\<close> handlers are registered under
  numbers that lead back to them, and their queues are sound.
\<close>

definition queue_ok :: "'m squeue \<Rightarrow> bool" where
  "queue_ok qu \<longleftrightarrow> sq_chain_ok (sq_chain qu) \<and> sq_count qu = int (length (squeue_items qu))"

definition handler_ok :: "nat \<Rightarrow> ('m, 'd) handler \<Rightarrow> bool" where
  "handler_ok i hl \<longleftrightarrow> queue_ok (hl_queue hl) \<and> hl_handlerid hl > 0 \<and> target (hl_handlerid hl) = i"

definition lib_ok :: "u32 \<Rightarrow> ('m, 'd) handlerlib \<Rightarrow> bool" where
  "lib_ok limit lib \<longleftrightarrow> pool_fresh limit (lib_pool lib) \<and> length (lib_list lib) = lib_count lib \<and>
     lib_count lib \<le> 2048 \<and> lib_index lib \<le> lib_count lib \<and> lib_state lib \<in> {1, 2} \<and>
     (\<forall>i < lib_index lib. handler_ok i (lib_list lib ! i))"

lemma state_ok_iff: "state_ok limit (p, qu) \<longleftrightarrow> pool_fresh limit p \<and> queue_ok qu"
  by (simp add: state_ok_def queue_ok_def)

text \<open>What sending does not change.\<close>

definition same_handlers :: "('m, 'd) handlerlib \<Rightarrow> ('m, 'd) handlerlib \<Rightarrow> bool" where
  "same_handlers lib lib' \<longleftrightarrow> lib_index lib' = lib_index lib \<and> lib_count lib' = lib_count lib \<and>
     lib_groups lib' = lib_groups lib \<and> lib_state lib' = lib_state lib \<and> lib_server_id lib' = lib_server_id lib \<and>
     (\<forall>j. hl_domsg (lib_list lib' ! j) = hl_domsg (lib_list lib ! j) \<and> hl_proc (lib_list lib' ! j) = hl_proc (lib_list lib ! j) \<and>
       hl_handlerid (lib_list lib' ! j) = hl_handlerid (lib_list lib ! j) \<and> hl_locker (lib_list lib' ! j) = hl_locker (lib_list lib ! j))"

definition same_data :: "('m, 'd) handlerlib \<Rightarrow> ('m, 'd) handlerlib \<Rightarrow> bool" where
  "same_data lib lib' \<longleftrightarrow> same_handlers lib lib' \<and> (\<forall>j. hl_data (lib_list lib' ! j) = hl_data (lib_list lib ! j))"

lemma same_handlers_trans: "same_handlers a b \<Longrightarrow> same_handlers b c \<Longrightarrow> same_handlers a c"
  by (simp add: same_handlers_def)

lemma same_data_trans: "same_data a b \<Longrightarrow> same_data b c \<Longrightarrow> same_data a c"
  by (auto simp: same_data_def intro: same_handlers_trans)

lemma same_data_refl: "same_data a a"
  by (simp add: same_data_def same_handlers_def)

lemma send_ok:
  assumes "lib_ok limit lib" "target hid < lib_index lib" "now \<le> limit"
  shows "\<exists>lib'. send_handler_msg now hid msg lib = Inr lib' \<and> lib_ok limit lib' \<and> same_data lib lib' \<and>
    (\<forall>j. mail lib' j = mail lib j @ sent_to j [(hid, msg)])"
proof -
  let ?i = "target hid" and ?hl = "lib_list lib ! target hid"
  have ok: "pool_fresh limit (lib_pool lib)" "handler_ok ?i ?hl" "?i < length (lib_list lib)" "length (lib_list lib) = lib_count lib"
    "lib_state lib = 2 \<or> lib_state lib = 1"
    using assms(1,2) by (auto simp: lib_ok_def)
  obtain p qu where q: "push_squeue now (Some msg) (lib_pool lib, hl_queue ?hl) = Inr (p, qu)" "pool_fresh limit p" "queue_ok qu"
    "squeue_items qu = squeue_items (hl_queue ?hl) @ [msg]"
    using push_state [of limit "(lib_pool lib, hl_queue ?hl)" now msg] ok(1,2) assms(3)
    by (auto simp: state_ok_iff handler_ok_def)
  let ?lib = "lib\<lparr>lib_pool := p, lib_list := (lib_list lib)[?i := ?hl\<lparr>hl_queue := qu\<rparr>]\<rparr>"
  have nth: "lib_list ?lib ! j = (if j = ?i then ?hl\<lparr>hl_queue := qu\<rparr> else lib_list lib ! j)" for j
    using ok(3) by (simp add: nth_list_update)
  have "send_handler_msg now hid msg lib = Inr ?lib"
    using ok(2-5) q(1) by (simp add: send_handler_msg_def Let_def target_def [symmetric] handler_ok_def)
  moreover have "lib_ok limit ?lib"
    using assms(1) q(2,3) ok(2) unfolding lib_ok_def nth by (simp add: handler_ok_def)
  moreover have "same_data lib ?lib" unfolding same_data_def same_handlers_def nth by simp
  moreover have "mail ?lib j = mail lib j @ sent_to j [(hid, msg)]" for j
    unfolding mail_def nth using q(4) by simp
  ultimately show ?thesis by blast
qed

lemma send_all_ok:
  "lib_ok limit lib \<Longrightarrow> list_all (\<lambda>s. target (fst s) < lib_index lib) ss \<Longrightarrow> now \<le> limit \<Longrightarrow>
   \<exists>lib'. send_all now ss lib = Inr lib' \<and> lib_ok limit lib' \<and> same_data lib lib' \<and> (\<forall>j. mail lib' j = mail lib j @ sent_to j ss)"
proof (induction ss arbitrary: lib)
  case (Cons s ss)
  obtain l1 where l1: "send_handler_msg now (fst s) (snd s) lib = Inr l1" "lib_ok limit l1" "same_data lib l1"
    "\<And>j. mail l1 j = mail lib j @ sent_to j [s]"
    using send_ok [OF Cons.prems(1), of "fst s" now "snd s"] Cons.prems(2,3) by auto
  have "lib_index l1 = lib_index lib" using l1(3) by (simp add: same_data_def same_handlers_def)
  then obtain l2 where "send_all now ss l1 = Inr l2" "lib_ok limit l2" "same_data l1 l2" "\<And>j. mail l2 j = mail l1 j @ sent_to j ss"
    using Cons.IH [OF l1(2)] Cons.prems(2,3) by auto
  then show ?case using l1 by (auto intro: same_data_trans)
qed (simp add: same_data_refl)

text \<open>The data and the messages sent that serving a list of messages leads to.\<close>

primrec replies :: "('m \<Rightarrow> 'd \<Rightarrow> u32 \<Rightarrow> 'd \<times> 'm sends) \<Rightarrow> u32 \<Rightarrow> 'd \<Rightarrow> 'm list \<Rightarrow> 'd \<times> 'm sends" where
  "replies f hid d [] = (d, [])"
| "replies f hid d (m # ms) =
     (let (d1, ss) = f m d hid; (d2, ts) = replies f hid d1 ms in (d2, ss @ ts))"

text \<open>Every message a handler may send goes to a registered handler.\<close>

definition sends_ok :: "nat \<Rightarrow> ('m, 'd) handler \<Rightarrow> bool" where
  "sends_ok n hl \<longleftrightarrow>
     (\<forall>m d. list_all (\<lambda>s. target (fst s) < n) (snd (hl_domsg hl m d (hl_handlerid hl)))) \<and>
     (\<forall>f d. hl_proc hl = Some f \<longrightarrow> list_all (\<lambda>s. target (fst s) < n) (snd (f d (hl_handlerid hl))))"

lemma pop_step:
  assumes "lib_ok limit lib" "i < lib_index lib" "mail lib i = m # ms" "limit \<le> now + 60"
  defines "hl \<equiv> lib_list lib ! i"
  shows "\<exists>p qu. handler_pop_squeue now (lib_pool lib, hl_queue hl) = Inr (m, p, qu) \<and>
    (\<forall>d. let lib' = lib\<lparr>lib_pool := p, lib_list := (lib_list lib)[i := hl\<lparr>hl_queue := qu, hl_data := d\<rparr>]\<rparr>
      in lib_ok limit lib' \<and> same_handlers lib lib' \<and> hl_data (lib_list lib' ! i) = d \<and>
        (\<forall>j. mail lib' j = (if j = i then ms else mail lib j)))"
proof -
  have ok: "pool_fresh limit (lib_pool lib)" "handler_ok i hl" "i < length (lib_list lib)"
    using assms(1,2) by (auto simp: lib_ok_def hl_def)
  obtain p qu where q: "handler_pop_squeue now (lib_pool lib, hl_queue hl) = Inr (m, p, qu)" "pool_fresh limit p" "queue_ok qu"
    "squeue_items qu = ms"
    using pop_state [of limit "(lib_pool lib, hl_queue hl)" now] ok(1,2) assms(3,4)
    by (auto simp: state_ok_iff handler_ok_def mail_def hl_def)
  have nth: "(lib_list lib)[i := x] ! j = (if j = i then x else lib_list lib ! j)" for x j
    using ok(3) by (simp add: nth_list_update)
  show ?thesis
    using q(1,2,3,4) ok(2) assms(1)
    by (intro exI [of _ p] exI [of _ qu])
      (auto simp: Let_def lib_ok_def same_handlers_def mail_def nth handler_ok_def hl_def)
qed

lemma serve_msgs_ok:
  assumes "now \<le> limit" "limit \<le> now + 60"
  shows "lib_ok limit lib \<Longrightarrow> i < lib_index lib \<Longrightarrow> sends_ok (lib_index lib) (lib_list lib ! i) \<Longrightarrow> k \<le> length (mail lib i) \<Longrightarrow>
    replies (hl_domsg (lib_list lib ! i)) (hl_handlerid (lib_list lib ! i)) (hl_data (lib_list lib ! i)) (take k (mail lib i)) = (d', ss) \<Longrightarrow>
    \<exists>lib'. serve_msgs now i k lib = (map (Pair (hl_handlerid (lib_list lib ! i))) (take k (mail lib i)), Inr lib') \<and>
      lib_ok limit lib' \<and> same_handlers lib lib' \<and> hl_data (lib_list lib' ! i) = d' \<and>
      (\<forall>j. mail lib' j = (if j = i then drop k (mail lib i) else mail lib j) @ sent_to j ss)"
proof (induction k arbitrary: lib ss)
  case 0
  then show ?case by (auto simp: quiet_def same_handlers_def)
next
  case (Suc k)
  let ?hl = "lib_list lib ! i"
  obtain m ms where ms: "mail lib i = m # ms" using Suc.prems(4) by (cases "mail lib i") auto
  obtain d1 s1 where r1: "hl_domsg ?hl m (hl_data ?hl) (hl_handlerid ?hl) = (d1, s1)" by (cases "hl_domsg ?hl m (hl_data ?hl) (hl_handlerid ?hl)")
  obtain p qu where pop: "handler_pop_squeue now (lib_pool lib, hl_queue ?hl) = Inr (m, p, qu)"
    "\<And>d. let lib' = lib\<lparr>lib_pool := p, lib_list := (lib_list lib)[i := ?hl\<lparr>hl_queue := qu, hl_data := d\<rparr>]\<rparr>
      in lib_ok limit lib' \<and> same_handlers lib lib' \<and> hl_data (lib_list lib' ! i) = d \<and>
        (\<forall>j. mail lib' j = (if j = i then ms else mail lib j))"
    using pop_step [OF Suc.prems(1,2) ms assms(2)] by blast
  let ?l1 = "lib\<lparr>lib_pool := p, lib_list := (lib_list lib)[i := ?hl\<lparr>hl_queue := qu, hl_data := d1\<rparr>]\<rparr>"
  have l1: "lib_ok limit ?l1" "same_handlers lib ?l1" "hl_data (lib_list ?l1 ! i) = d1" "\<And>j. mail ?l1 j = (if j = i then ms else mail lib j)"
    using pop(2) [of d1] unfolding Let_def by blast+
  have "list_all (\<lambda>s. target (fst s) < lib_index lib) s1"
    using Suc.prems(3) r1 unfolding sends_ok_def by (metis snd_conv)
  then obtain l2 where l2: "send_all now s1 ?l1 = Inr l2" "lib_ok limit l2" "same_data ?l1 l2" "\<And>j. mail l2 j = mail ?l1 j @ sent_to j s1"
    using send_all_ok [OF l1(1) _ assms(1), of s1] by auto
  have hl2: "hl_domsg (lib_list l2 ! i) = hl_domsg ?hl" "hl_proc (lib_list l2 ! i) = hl_proc ?hl"
    "hl_handlerid (lib_list l2 ! i) = hl_handlerid ?hl" "hl_data (lib_list l2 ! i) = d1" "lib_index l2 = lib_index lib"
    using l1(2,3) l2(3) unfolding same_data_def same_handlers_def by metis+
  have mi: "mail l2 i = ms @ sent_to i s1" using l2(4) l1(4) by simp
  have tk: "take k (mail l2 i) = take k ms" using mi Suc.prems(4) ms by simp
  obtain s2 where r2: "replies (hl_domsg ?hl) (hl_handlerid ?hl) d1 (take k ms) = (d', s2)" "ss = s1 @ s2"
    using Suc.prems(5) r1 ms by (auto simp: Let_def split: prod.splits)
  obtain l3 where l3: "serve_msgs now i k l2 = (map (Pair (hl_handlerid ?hl)) (take k ms), Inr l3)" "lib_ok limit l3"
    "same_handlers l2 l3" "hl_data (lib_list l3 ! i) = d'"
    "\<And>j. mail l3 j = (if j = i then drop k (mail l2 i) else mail l2 j) @ sent_to j s2"
  proof -
    have "sends_ok (lib_index l2) (lib_list l2 ! i)" using Suc.prems(3) by (simp add: sends_ok_def hl2)
    then show ?thesis
      using Suc.IH [OF l2(2) _ _ _ , of s2] Suc.prems(2,4) mi tk r2(1) ms that by (auto simp: hl2)
  qed
  have "serve_msgs now i (Suc k) lib = (map (Pair (hl_handlerid ?hl)) (take (Suc k) (mail lib i)), Inr l3)"
    using pop(1) r1 l2(1) l3(1) ms by (simp add: Let_def tbind_tell)
  moreover have "same_handlers lib l3"
    using l1(2) l2(3) l3(3) by (auto simp: same_data_def intro: same_handlers_trans)
  moreover have "mail l3 j = (if j = i then drop (Suc k) (mail lib i) else mail lib j) @ sent_to j ss" for j
    using l3(5) l2(4) l1(4) mi ms r2(2) Suc.prems(4) by simp
  ultimately show ?case using l3(2,4) by blast
qed

section \<open>Numbers of handlers\<close>

lemma low11: "(0x7FF :: u32) = mask 11"
  by (simp add: mask_eq_exp_minus_1)

lemma target_handlerid_of:
  assumes "i < 2048"
  shows "target (handlerid_of s g i) = i"
proof -
  have "handlerid_of s g i AND 0x7FF = word_of_nat i AND (0x7FF :: u32)"
    unfolding handlerid_of_def low11
    by (rule bit_word_eqI) (auto simp: bit_and_iff bit_or_iff bit_push_bit_iff bit_mask_iff)
  also have "\<dots> = take_bit 11 (word_of_nat i)" by (simp only: low11 take_bit_eq_mask)
  finally have "unat (handlerid_of s g i AND 0x7FF) = take_bit 11 (unat (word_of_nat i :: u32))"
    by (simp only: unsigned_take_bit_eq)
  also have "unat (word_of_nat i :: u32) = i" using assms by (simp add: unat_of_nat)
  also have "take_bit 11 i = i" using assms by (simp add: take_bit_eq_mod)
  finally show ?thesis by (simp add: target_def)
qed

lemma handlerid_of_positive:
  assumes "0 < g" "g < 32"
  shows "handlerid_of s g i > 0"
proof -
  have "push_bit 11 (word_of_int g :: u32) = word_of_int (g * 2048)" by (simp add: push_bit_eq_mult mult.commute)
  moreover have "uint (word_of_int n :: u32) = n" if "0 \<le> n" "n < 2 ^ 32" for n
    using that by (simp add: uint_word_of_int)
  from this [of "g * 2048"] have "uint (word_of_int (g * 2048) :: u32) = g * 2048" using assms by simp
  ultimately have "push_bit 11 (word_of_int g :: u32) \<noteq> 0" using assms(1) by auto
  then have "handlerid_of s g i \<noteq> 0" by (simp add: handlerid_of_def or_eq_0_iff)
  then show ?thesis by (simp add: word_neq_0_conv)
qed

definition group_ok :: "handlers_list \<Rightarrow> bool" where
  "group_ok l \<longleftrightarrow> length (gl_handlers l) = gl_size l \<and> unat (gl_index l) \<le> gl_size l \<and> gl_size l < 100000"

lemma add_handler_returns: "group_ok l \<Longrightarrow> \<exists>l'. add_handler hl l = Inr l'"
  by (cases "unat (gl_index l) = gl_size l") (auto simp: add_handler_def Let_def group_ok_def)

text \<open>What serving a handler leads to: its new data and the messages sent.\<close>

definition outcome :: "('m, 'd) handler \<Rightarrow> 'm list \<Rightarrow> 'd \<times> 'm sends" where
  "outcome hl ms =
     (let (d, ss) = replies (hl_domsg hl) (hl_handlerid hl) (hl_data hl) ms
      in case hl_proc hl of
           None \<Rightarrow> (d, ss)
         | Some f \<Rightarrow> let (d, ts) = f d (hl_handlerid hl) in (d, ss @ ts))"

lemma do_handler_ok:
  assumes "lib_ok limit lib" "i < lib_index lib" "sends_ok (lib_index lib) (lib_list lib ! i)" "now \<le> limit" "limit \<le> now + 60"
  shows "\<exists>lib'. do_handler now i lib =
      (map (Pair (hl_handlerid (lib_list lib ! i))) (mail lib i), Inr (length (mail lib i), lib')) \<and>
    lib_ok limit lib' \<and> same_handlers lib lib' \<and> hl_data (lib_list lib' ! i) = fst (outcome (lib_list lib ! i) (mail lib i)) \<and>
    (\<forall>j. mail lib' j = (if j = i then [] else mail lib j) @ sent_to j (snd (outcome (lib_list lib ! i) (mail lib i))))"
proof -
  let ?hl = "lib_list lib ! i"
  obtain d ss where r: "replies (hl_domsg ?hl) (hl_handlerid ?hl) (hl_data ?hl) (mail lib i) = (d, ss)" by fastforce
  obtain l1 where l1: "serve_msgs now i (length (mail lib i)) lib = (map (Pair (hl_handlerid ?hl)) (mail lib i), Inr l1)"
    "lib_ok limit l1" "same_handlers lib l1" "hl_data (lib_list l1 ! i) = d"
    "\<And>j. mail l1 j = (if j = i then [] else mail lib j) @ sent_to j ss"
    using serve_msgs_ok [OF assms(4,5,1-3), of "length (mail lib i)"] r by auto
  have "handler_ok i ?hl" using assms(1,2) by (simp add: lib_ok_def)
  then have count: "nat (sq_count (hl_queue ?hl)) = length (mail lib i)" by (simp add: handler_ok_def queue_ok_def mail_def)
  have s1: "hl_proc (lib_list l1 ! i) = hl_proc ?hl" "hl_handlerid (lib_list l1 ! i) = hl_handlerid ?hl" "lib_index l1 = lib_index lib"
    using l1(3) by (simp_all add: same_handlers_def)
  show ?thesis
  proof (cases "hl_proc ?hl")
    case None
    then show ?thesis
      using l1 r s1 by (intro exI [of _ l1]) (simp add: do_handler_def Let_def count outcome_def quiet_def)
  next
    case (Some f)
    obtain d' ts where f: "f d (hl_handlerid ?hl) = (d', ts)" by fastforce
    let ?hl1 = "lib_list l1 ! i" and ?l2 = "l1\<lparr>lib_list := (lib_list l1)[i := (lib_list l1 ! i)\<lparr>hl_data := d'\<rparr>]\<rparr>"
    have len: "i < length (lib_list l1)" using l1(2) assms(2) s1(3) by (auto simp: lib_ok_def)
    have nth: "lib_list ?l2 ! j = (if j = i then ?hl1\<lparr>hl_data := d'\<rparr> else lib_list l1 ! j)" for j
      using len by (simp add: nth_list_update)
    have l12: "same_handlers l1 ?l2" unfolding same_handlers_def nth by simp
    have l2: "lib_ok limit ?l2" using l1(2) unfolding lib_ok_def nth by (simp add: handler_ok_def)
    have "list_all (\<lambda>s. target (fst s) < lib_index lib) ts"
      using assms(3) Some f unfolding sends_ok_def by (metis snd_conv)
    then obtain l3 where l3: "send_all now ts ?l2 = Inr l3" "lib_ok limit l3" "same_data ?l2 l3" "\<And>j. mail l3 j = mail ?l2 j @ sent_to j ts"
      using send_all_ok [OF l2 _ assms(4), of ts] s1(3) by auto
    have "hl_data (lib_list l3 ! i) = d'" using l3(3) nth len by (simp add: same_data_def)
    moreover have "same_handlers lib l3"
      using l1(3) l12 l3(3) by (auto simp: same_data_def intro: same_handlers_trans)
    moreover have "mail ?l2 j = mail l1 j" for j unfolding mail_def nth by simp
    ultimately show ?thesis
      using l1(1,4,5) l3(1,2,4) r f Some s1
      by (intro exI [of _ l3]) (simp add: do_handler_def Let_def count outcome_def quiet_def)
  qed
qed

section \<open>Properties\<close>

text \<open>
  C20. Serving a handler delivers exactly the messages that were in its queue, in order and
  each once, whatever the handler sends meanwhile: messages it sends, to itself included, are
  appended to the queues of their handlers in the order they were sent and are left for the
  next turn; no queue loses or gains anything else, and nothing faults as long as messages go
  to registered handlers and the pool of queue nodes (which all handlers share) has a sound tail and no node that has rested
  for its minute until \<open>limit\<close>. Once such a node is taken out again, the pool forgets to clear its tail and the next
  node given back can fault (\<open>squeue_pool_stale_tail\<close>).
\<close>

theorem handler_serves_its_queue:
  assumes "lib_ok limit lib" "i < lib_index lib" "sends_ok (lib_index lib) (lib_list lib ! i)" "now \<le> limit" "limit \<le> now + 60"
  shows "\<exists>lib'. do_handler now i lib =
      (map (Pair (hl_handlerid (lib_list lib ! i))) (mail lib i), Inr (length (mail lib i), lib')) \<and>
    lib_ok limit lib' \<and> hl_data (lib_list lib' ! i) = fst (outcome (lib_list lib ! i) (mail lib i)) \<and>
    (\<forall>j. mail lib' j = (if j = i then [] else mail lib j) @ sent_to j (snd (outcome (lib_list lib ! i) (mail lib i))))"
  using do_handler_ok [OF assms] by blast

definition echo :: "string squeue \<Rightarrow> (string, nat) handler" where
  "echo qu = \<lparr>hl_name = [], hl_queue = qu, hl_domsg = (\<lambda>m d hid. (d + 1, [(hid, ''pong'')])), hl_proc = None, hl_data = 0,
     hl_handlerid = 2048, hl_locker = False\<rparr>"

definition echo_lib :: "squeue_pool \<Rightarrow> string squeue \<Rightarrow> (string, nat) handlerlib" where
  "echo_lib p qu = \<lparr>lib_pool = p, lib_groups = [\<lparr>gl_id = 1, gl_handlers = [Some 0], gl_size = 1, gl_index = 0, gl_threads_num = 1\<rparr>],
     lib_server_id = 0, lib_index = 1, lib_count = 1, lib_state = 2, lib_list = [echo qu]\<rparr>"

lemma echo_lib_ok:
  "\<exists>p qu. lib_ok 60 (echo_lib p qu) \<and> mail (echo_lib p qu) 0 = [''ping''] \<and> sends_ok 1 (echo qu)"
proof -
  let ?q0 = "init_squeue 0 init_squeue_node_pool :: string queue_state"
  have s0: "state_ok 60 ?q0 \<and> squeue_items (snd ?q0) = []"
    by (rule init_squeue_ok) (simp_all add: pool_fresh_def init_squeue_node_pool_def)
  obtain p qu where q: "state_ok 60 (p, qu)" "squeue_items qu = [''ping'']"
    using push_state [of 60 ?q0 0 "''ping''"] s0 by auto
  have "target 2048 = 0" unfolding target_def by code_simp
  then have "lib_ok 60 (echo_lib p qu) \<and> mail (echo_lib p qu) 0 = [''ping''] \<and> sends_ok 1 (echo qu)"
    using q by (simp add: lib_ok_def state_ok_iff handler_ok_def sends_ok_def mail_def echo_lib_def echo_def)
  then show ?thesis by blast
qed

theorem handler_serves_its_queue_witness:
  "\<exists>p qu lib'. do_handler 0 0 (echo_lib p qu) = ([(2048, ''ping'')], Inr (1, lib')) \<and> mail lib' 0 = [''pong''] \<and>
     hl_data (lib_list lib' ! 0) = 1"
proof -
  obtain p qu where q: "lib_ok 60 (echo_lib p qu)" "mail (echo_lib p qu) 0 = [''ping'']" "sends_ok 1 (echo qu)"
    using echo_lib_ok by blast
  have h: "lib_list (echo_lib p qu) ! 0 = echo qu" "lib_index (echo_lib p qu) = 1" by (simp_all add: echo_lib_def)
  have "target 2048 = 0" unfolding target_def by code_simp
  then have o: "outcome (echo qu) [''ping''] = (1, [(2048, ''pong'')])" "sent_to 0 [(2048, ''pong'')] = [''pong'']" "hl_handlerid (echo qu) = 2048"
    by (simp_all add: outcome_def echo_def)
  obtain lib' where "do_handler 0 0 (echo_lib p qu) = ([(2048, ''ping'')], Inr (1, lib'))" "hl_data (lib_list lib' ! 0) = 1"
    "mail lib' 0 = [] @ sent_to 0 [(2048, ''pong'')]"
    using handler_serves_its_queue [of 60 "echo_lib p qu" 0 0] q h o(1,3) by (auto simp del: sent_to_simps)
  then show ?thesis using o(2) by (intro exI [of _ p] exI [of _ qu] exI [of _ lib']) simp
qed

text \<open>
  A handler that is registered gets a number of its own: with a free place and a group of
  that number, registration succeeds, the number leads back to the place of the handler, which
  starts with an empty queue, no other handler is touched, and a message sent to the number is
  the first in that queue.
\<close>

theorem register_handler_routes:
  fixes lib :: "('m, 'd) handlerlib"
  assumes "lib_ok limit lib" "lib_index lib < lib_count lib" "get_handler_group g lib = Some k" "0 < g" "g < 32"
    "hl_handlerid (lib_list lib ! lib_index lib) = 0" "group_ok (lib_groups lib ! k)" "now \<le> limit"
  shows "\<exists>hid lib'. register_handler now g name f proc d lib = Inr (hid, lib') \<and> lib_ok limit lib' \<and>
    lib_index lib' = lib_index lib + 1 \<and> target hid = lib_index lib \<and>
    (\<forall>j. j \<noteq> lib_index lib \<longrightarrow> lib_list lib' ! j = lib_list lib ! j) \<and>
    (\<exists>lib''. send_handler_msg now hid msg lib' = Inr lib'' \<and> mail lib'' (lib_index lib) = [msg])"
proof -
  let ?i = "lib_index lib" and ?l = "lib_groups lib ! k"
  let ?hid = "handlerid_of (lib_server_id lib) g ?i"
  obtain hl where hl: "hl_handlerid hl = 0" "lib_list lib ! ?i = hl" using assms(6) by blast
  have len: "?i < length (lib_list lib)" "?i < 2048" using assms(1,2) by (auto simp: lib_ok_def)
  let ?s = "init_squeue now (lib_pool lib) :: 'm queue_state"
  have "state_ok limit ?s \<and> squeue_items (snd ?s) = []"
    by (rule init_squeue_ok) (use assms(1,8) in \<open>simp_all add: lib_ok_def\<close>)
  then obtain p qu where q: "?s = (p, qu)" "pool_fresh limit p" "queue_ok qu" "squeue_items qu = []"
    by (cases ?s) (simp add: state_ok_iff)
  obtain l' where l': "add_handler ?i ?l = Inr l'" using add_handler_returns [OF assms(7)] by blast
  obtain hl' where hl': "init_handler now name f proc d (lib_pool lib) hl = Inr (p, hl')" "hl_queue hl' = qu"
    using hl(1) q(1) by (simp add: init_handler_def Let_def)
  let ?lib = "lib\<lparr>lib_index := ?i + 1, lib_pool := p, lib_list := (lib_list lib)[?i := hl'\<lparr>hl_handlerid := ?hid\<rparr>],
    lib_groups := (lib_groups lib)[k := l']\<rparr>"
  have nth: "lib_list ?lib ! j = (if j = ?i then hl'\<lparr>hl_handlerid := ?hid\<rparr> else lib_list lib ! j)" for j
    using len(1) by (simp add: nth_list_update)
  have reg: "register_handler now g name f proc d lib = Inr (?hid, ?lib)"
    using assms(2-5) len(1) hl(2) hl'(1) l' by (simp add: register_handler_def Let_def)
  have new: "handler_ok ?i (hl'\<lparr>hl_handlerid := ?hid\<rparr>)"
    using q(3) hl'(2) target_handlerid_of [OF len(2)] handlerid_of_positive [OF assms(4,5)] by (simp add: handler_ok_def)
  have "lib_ok limit ?lib"
    using assms(1,2) q(2) new unfolding lib_ok_def nth by (auto simp: less_Suc_eq)
  moreover have "mail ?lib ?i = []" unfolding mail_def nth using q(4) hl'(2) by simp
  ultimately show ?thesis
    using send_ok [of limit ?lib ?hid now msg] reg target_handlerid_of [OF len(2)] assms(8) nth by auto
qed

theorem register_handler_routes_witness:
  "\<exists>hid lib' lib''. register_handler 0 1 (Some ''login'') (\<lambda>m d h. (d, [])) None 0
      \<lparr>lib_pool = init_squeue_node_pool, lib_groups = [(init_handlers_list 1)\<lparr>gl_id := 1\<rparr>], lib_server_id = 3, lib_index = 0,
       lib_count = 4, lib_state = 1, lib_list = replicate 4 (blank_handler (\<lambda>m d h. (d, [])) (0 :: nat))\<rparr> = Inr (hid, lib') \<and>
     target hid = 0 \<and> send_handler_msg 0 hid ''hello'' lib' = Inr lib'' \<and> mail lib'' 0 = [''hello'']"
proof -
  let ?lib = "\<lparr>lib_pool = init_squeue_node_pool, lib_groups = [(init_handlers_list 1)\<lparr>gl_id := 1\<rparr>], lib_server_id = 3, lib_index = 0,
       lib_count = 4, lib_state = 1, lib_list = replicate 4 (blank_handler (\<lambda>m d h. (d, [])) (0 :: nat))\<rparr> :: (string, nat) handlerlib"
  have "lib_ok 60 ?lib" by (simp add: lib_ok_def pool_fresh_def init_squeue_node_pool_def)
  then show ?thesis
    using register_handler_routes [of 60 ?lib 1 0 0 "Some ''login''" "\<lambda>m d h. (d, [])" None 0 "''hello''"]
    by (auto simp: get_handler_group_def init_handlers_list_def blank_handler_def group_ok_def)
qed

lemma round_robin:
  assumes "i < s" "unat x + s \<le> 2 ^ 32"
  shows "\<exists>k < s. unat (x + word_of_nat k :: u32) mod s = i"
proof -
  let ?k = "(i + s - unat x mod s) mod s"
  have k: "?k < s" using assms(1) by simp
  have "(unat x + ?k) mod s = (unat x mod s + (i + s - unat x mod s)) mod s" by (simp add: mod_simps)
  also have "unat x mod s + (i + s - unat x mod s) = i + s" using assms(1) mod_less_divisor [of s "unat x"] by linarith
  finally have "(unat x + ?k) mod s = i" using assms(1) by simp
  moreover have "unat (x + word_of_nat ?k) = unat x + ?k"
  proof -
    have "unat x + ?k < 2 ^ 32" using k assms(2) by linarith
    moreover have "?k < 2 ^ 32" using k assms(2) by linarith
    ultimately show ?thesis by (simp add: unat_word_ariths unat_of_nat)
  qed
  ultimately show ?thesis using k by (intro exI [of _ ?k]) simp
qed

text \<open>
  A group that has started: its array leads to registered handlers, none of them is being
  served by another thread, and all of them send to registered handlers only.
\<close>

definition group_lib_ok :: "u32 \<Rightarrow> nat \<Rightarrow> nat list \<Rightarrow> ('m, 'd) handlerlib \<Rightarrow> bool" where
  "group_lib_ok limit g hs lib \<longleftrightarrow> lib_ok limit lib \<and> g < length (lib_groups lib) \<and>
     gl_handlers (lib_groups lib ! g) = map Some hs \<and> gl_size (lib_groups lib ! g) = length hs \<and> hs \<noteq> [] \<and>
     (\<forall>h \<in> set hs. h < lib_index lib \<and> sends_ok (lib_index lib) (lib_list lib ! h) \<and> \<not> hl_locker (lib_list lib ! h))"

lemma group_step:
  assumes "group_lib_ok limit g hs lib" "now \<le> limit" "limit \<le> now + 60"
  defines "h \<equiv> hs ! (unat (gl_index (lib_groups lib ! g)) mod length hs)"
  shows "\<exists>lib'. group_turns now g (Suc k) lib = (map (Pair (hl_handlerid (lib_list lib ! h))) (mail lib h) @ fst (group_turns now g k lib'),
      snd (group_turns now g k lib')) \<and>
    group_lib_ok limit g hs lib' \<and> gl_index (lib_groups lib' ! g) = gl_index (lib_groups lib ! g) + 1 \<and>
    (\<forall>j. hl_handlerid (lib_list lib' ! j) = hl_handlerid (lib_list lib ! j)) \<and>
    (\<forall>j. j \<noteq> h \<longrightarrow> set (mail lib j) \<subseteq> set (mail lib' j))"
proof -
  let ?l = "lib_groups lib ! g"
  let ?i = "unat (gl_index ?l) mod length hs"
  let ?lib = "lib\<lparr>lib_groups := (lib_groups lib)[g := ?l\<lparr>gl_index := gl_index ?l + 1\<rparr>]\<rparr>"
  have ok: "lib_ok limit lib" "g < length (lib_groups lib)" "gl_handlers ?l = map Some hs" "gl_size ?l = length hs" "hs \<noteq> []"
    "\<And>h. h \<in> set hs \<Longrightarrow> h < lib_index lib \<and> sends_ok (lib_index lib) (lib_list lib ! h) \<and> \<not> hl_locker (lib_list lib ! h)"
    using assms(1) by (auto simp: group_lib_ok_def)
  have i: "?i < length hs" using ok(5) by simp
  then have h: "h \<in> set hs" by (simp add: h_def)
  have lib: "lib_ok limit ?lib" using ok(1) by (simp add: lib_ok_def)
  obtain l1 where l1: "do_handler now h ?lib = (map (Pair (hl_handlerid (lib_list lib ! h))) (mail lib h), Inr (length (mail lib h), l1))"
    "lib_ok limit l1" "same_handlers ?lib l1" "\<And>j. j \<noteq> h \<Longrightarrow> set (mail lib j) \<subseteq> set (mail l1 j)"
    using do_handler_ok [OF lib _ _ assms(2,3), of h] ok(6) [OF h] by (auto simp: mail_def)
  have same: "lib_groups l1 = lib_groups ?lib" "lib_index l1 = lib_index lib"
    "\<And>j. hl_domsg (lib_list l1 ! j) = hl_domsg (lib_list lib ! j) \<and> hl_proc (lib_list l1 ! j) = hl_proc (lib_list lib ! j) \<and>
       hl_handlerid (lib_list l1 ! j) = hl_handlerid (lib_list lib ! j) \<and> hl_locker (lib_list l1 ! j) = hl_locker (lib_list lib ! j)"
    using l1(3) by (simp_all add: same_handlers_def)
  have "group_lib_ok limit g hs l1"
    using l1(2) ok same unfolding group_lib_ok_def sends_ok_def by simp
  moreover have "group_turns now g (Suc k) lib = tbind (do_handler now h ?lib) (\<lambda>(_, lib). group_turns now g k lib)"
    using ok(3-5) ok(6) [OF h] i by (simp add: Let_def h_def [symmetric])
  ultimately show ?thesis
    using l1(1,4) same ok(2) by (intro exI [of _ l1]) simp
qed

lemma group_turns_deliver:
  assumes "now \<le> limit" "limit \<le> now + 60"
  shows "group_lib_ok limit g hs lib \<Longrightarrow>
    \<exists>out lib'. group_turns now g n lib = (out, Inr lib') \<and>
      (\<forall>k < n. let h = hs ! (unat (gl_index (lib_groups lib ! g) + word_of_nat k) mod length hs)
        in Pair (hl_handlerid (lib_list lib ! h)) ` set (mail lib h) \<subseteq> set out)"
proof (induction n arbitrary: lib)
  case 0
  then show ?case by (simp add: quiet_def)
next
  case (Suc n)
  let ?x = "gl_index (lib_groups lib ! g)" and ?id = "\<lambda>j. hl_handlerid (lib_list lib ! j)"
  let ?h = "hs ! (unat ?x mod length hs)"
  obtain l1 where l1: "group_turns now g (Suc n) lib = (map (Pair (?id ?h)) (mail lib ?h) @ fst (group_turns now g n l1), snd (group_turns now g n l1))"
    "group_lib_ok limit g hs l1" "gl_index (lib_groups l1 ! g) = ?x + 1" "\<And>j. hl_handlerid (lib_list l1 ! j) = ?id j"
    "\<And>j. j \<noteq> ?h \<Longrightarrow> set (mail lib j) \<subseteq> set (mail l1 j)"
    using group_step [OF Suc.prems assms, of n] by blast
  obtain out l2 where l2: "group_turns now g n l1 = (out, Inr l2)"
    "\<And>k. k < n \<Longrightarrow> let h = hs ! (unat (?x + 1 + word_of_nat k) mod length hs) in Pair (?id h) ` set (mail l1 h) \<subseteq> set out"
    using Suc.IH [OF l1(2)] by (auto simp: l1(3,4))
  have "let h = hs ! (unat (?x + word_of_nat k) mod length hs)
    in Pair (?id h) ` set (mail lib h) \<subseteq> set (map (Pair (?id ?h)) (mail lib ?h) @ out)" if "k < Suc n" for k
  proof (cases k)
    case 0
    then show ?thesis by (simp add: Let_def)
  next
    case (Suc k')
    let ?h' = "hs ! (unat (?x + word_of_nat k) mod length hs)"
    have x: "?x + 1 + word_of_nat k' = ?x + word_of_nat k" by (simp only: Suc of_nat_Suc add.assoc)
    have "k' < n" using that Suc by simp
    from l2(2) [OF this] have sub: "Pair (?id ?h') ` set (mail l1 ?h') \<subseteq> set out" by (simp only: x Let_def)
    have "Pair (?id ?h') ` set (mail lib ?h') \<subseteq> set (map (Pair (?id ?h)) (mail lib ?h) @ out)"
    proof (cases "?h' = ?h")
      case True
      then show ?thesis by (simp only: True set_map set_append) (rule Un_upper1)
    next
      case False
      have "Pair (?id ?h') ` set (mail lib ?h') \<subseteq> Pair (?id ?h') ` set (mail l1 ?h')" by (rule image_mono) (rule l1(5) [OF False])
      then show ?thesis using sub unfolding set_append by (rule subset_trans [OF subset_trans]) (rule Un_upper2)
    qed
    then show ?thesis by (simp only: Let_def)
  qed
  then show ?case using l1(1) l2(1) by simp
qed

text \<open>
  No handler of a group is forgotten: the threads of a group go round its handlers, so
  that as many turns as the group has handlers deliver every message that was queued at any of
  them at the start, as long as the counter of the group does not overflow meanwhile and no
  other thread is serving.
\<close>

theorem group_turns_reach_all:
  assumes "group_lib_ok limit g hs lib" "now \<le> limit" "limit \<le> now + 60" "length hs \<le> n"
    "unat (gl_index (lib_groups lib ! g)) + n < 2 ^ 32"
  shows "\<exists>out lib'. group_turns now g n lib = (out, Inr lib') \<and>
    (\<forall>h \<in> set hs. \<forall>m \<in> set (mail lib h). (hl_handlerid (lib_list lib ! h), m) \<in> set out)"
proof -
  let ?x = "gl_index (lib_groups lib ! g)" and ?s = "length hs"
  obtain out lib' where out: "group_turns now g n lib = (out, Inr lib')"
    "\<And>k. k < n \<Longrightarrow> let h = hs ! (unat (?x + word_of_nat k) mod ?s) in Pair (hl_handlerid (lib_list lib ! h)) ` set (mail lib h) \<subseteq> set out"
    using group_turns_deliver [OF assms(2,3,1)] by blast
  have "(hl_handlerid (lib_list lib ! h), m) \<in> set out" if mem: "h \<in> set hs" "m \<in> set (mail lib h)" for h m
  proof -
    obtain i where i: "i < ?s" "h = hs ! i" using mem(1) unfolding in_set_conv_nth by blast
    obtain k where k: "k < ?s" "unat (?x + word_of_nat k) mod ?s = i"
    proof -
      have "unat ?x + ?s \<le> 2 ^ 32" using assms(4,5) by linarith
      then show ?thesis using round_robin [OF i(1)] that by blast
    qed
    have "k < n" using k(1) assms(4) by simp
    from out(2) [OF this] have "Pair (hl_handlerid (lib_list lib ! h)) ` set (mail lib h) \<subseteq> set out"
      by (simp only: Let_def k(2) i(2))
    then show ?thesis using mem(2) by blast
  qed
  then show ?thesis using out(1) by blast
qed

theorem group_turns_reach_all_witness:
  "\<exists>p qu out lib'. group_turns 0 0 1 (echo_lib p qu) = (out, Inr lib') \<and> (2048, ''ping'') \<in> set out"
proof -
  obtain p qu where q: "lib_ok 60 (echo_lib p qu)" "mail (echo_lib p qu) 0 = [''ping'']" "sends_ok 1 (echo qu)"
    using echo_lib_ok by blast
  have h: "lib_list (echo_lib p qu) ! 0 = echo qu" "lib_index (echo_lib p qu) = 1" "hl_handlerid (echo qu) = 2048" "\<not> hl_locker (echo qu)"
    by (simp_all add: echo_lib_def echo_def)
  have "group_lib_ok 60 0 [0] (echo_lib p qu)"
    using q(1,3) h unfolding group_lib_ok_def by simp (simp add: echo_lib_def)
  then have "\<exists>out lib'. group_turns 0 0 1 (echo_lib p qu) = (out, Inr lib') \<and>
      (\<forall>h \<in> set [0]. \<forall>m \<in> set (mail (echo_lib p qu) h). (hl_handlerid (lib_list (echo_lib p qu) ! h), m) \<in> set out)"
    by (rule group_turns_reach_all) (simp_all add: echo_lib_def)
  then show ?thesis using q(2) h by auto
qed

end
