(* ===== verification/PacketHeader.thy ===== *)
theory PacketHeader
  imports Codec
begin

text \<open>
  The header of the C++ servers' packets: \<open>packetHeader\<close> of \<open>CommBase/Network/NetWorkConfig.h\<close>
  (packed to 26 bytes) with its conversions, and the helpers of \<open>CommBase/util.cpp\<close> it and the
  send buffer use. Headers travel between servers in host order; only a header from or to a
  client (type 0) is converted. \<open>be\<close> is the byte order of the host.
\<close>

section \<open>Helpers of \<open>CUtil\<close>\<close>

text \<open>Lengths arrive as \<open>DWORD\<close>: a negative \<open>int\<close> becomes a large number.\<close>

definition dword :: "int \<Rightarrow> int" where
  "dword x = uint (word_of_int x :: u32)"

text \<open>
  \<open>SafeMemmove(dst + off, dwDstLen, src, dwCopyLen)\<close>, with what memory holds from \<open>src\<close> on;
  the result code and the block the destination lies in.
\<close>

definition SafeMemmove :: "int \<Rightarrow> int \<Rightarrow> char list \<Rightarrow> int \<Rightarrow> char list \<Rightarrow> fault + int \<times> char list" where
  "SafeMemmove off dwDstLen src dwCopyLen dst =
     (if dword dwDstLen < dword dwCopyLen then Inr (- 1, dst)
      else rbind (copy_out 0 (nat (dword dwCopyLen)) src) (\<lambda>bs.
           rbind (copy_in off bs dst) (\<lambda>dst. Inr (0, dst))))"

definition ntohll :: "bool \<Rightarrow> u64 \<Rightarrow> u64" where
  "ntohll be src =
     (let des = [ucast (drop_bit 56 src AND 0xff), ucast (drop_bit 48 src AND 0xff),
                 ucast (drop_bit 40 src AND 0xff), ucast (drop_bit 32 src AND 0xff),
                 ucast (drop_bit 24 src AND 0xff), ucast (drop_bit 16 src AND 0xff),
                 ucast (drop_bit 8 src AND 0xff), ucast (src AND 0xff)]
      in load be (map char_of_byte des))"

section \<open>The header\<close>

record packet_header =
  ph_length :: u32
  ph_security :: u8
  ph_remoteType :: u8
  ph_remoteID :: u16
  ph_localType :: u8
  ph_messageID :: u32
  ph_messageType :: u8
  ph_reqID :: u32
  ph_sendTime :: u64

definition sHeader :: packet_header where
  "sHeader = \<lparr>ph_length = 0, ph_security = 0, ph_remoteType = 0, ph_remoteID = - 1, ph_localType = 0,
     ph_messageID = - 1, ph_messageType = 0, ph_reqID = 0, ph_sendTime = 0\<rparr>"

definition HEADER_SIZE :: nat where
  "HEADER_SIZE = 4 + 1 + 1 + 2 + 1 + 4 + 1 + 4 + 8"

definition toBigEndianEx :: "bool \<Rightarrow> packet_header \<Rightarrow> packet_header" where
  "toBigEndianEx be h = h\<lparr>ph_length := htonl be (ph_length h), ph_remoteID := htons be (ph_remoteID h),
     ph_messageID := htonl be (ph_messageID h), ph_reqID := htonl be (ph_reqID h),
     ph_sendTime := ntohll be (ph_sendTime h)\<rparr>"

definition toSmallEndian :: "bool \<Rightarrow> packet_header \<Rightarrow> packet_header" where
  "toSmallEndian be h =
     (if ph_remoteType h > 0 then h
      else h\<lparr>ph_length := htonl be (ph_length h), ph_remoteID := htons be (ph_remoteID h),
        ph_messageID := htonl be (ph_messageID h), ph_reqID := htonl be (ph_reqID h),
        ph_sendTime := ntohll be (ph_sendTime h)\<rparr>)"

definition toBigEndian :: "bool \<Rightarrow> packet_header \<Rightarrow> packet_header" where
  "toBigEndian be h =
     (if ph_localType h > 0 then h
      else h\<lparr>ph_length := htonl be (ph_length h), ph_remoteID := htons be (ph_remoteID h),
        ph_messageID := htonl be (ph_messageID h), ph_reqID := htonl be (ph_reqID h),
        ph_sendTime := ntohll be (ph_sendTime h)\<rparr>)"

text \<open>The 26 bytes of a header in memory, and the header that lies at the start of some bytes.\<close>

definition header_image :: "bool \<Rightarrow> packet_header \<Rightarrow> char list" where
  "header_image be h = mem_image be 4 (ph_length h) @ [char_of_byte (ph_security h)] @ [char_of_byte (ph_remoteType h)]
     @ mem_image be 2 (ph_remoteID h) @ [char_of_byte (ph_localType h)] @ mem_image be 4 (ph_messageID h)
     @ [char_of_byte (ph_messageType h)] @ mem_image be 4 (ph_reqID h) @ mem_image be 8 (ph_sendTime h)"

definition header_at :: "bool \<Rightarrow> char list \<Rightarrow> packet_header" where
  "header_at be m = \<lparr>ph_length = load be (blk 0 4 m), ph_security = byte_of_char (m ! 4),
     ph_remoteType = byte_of_char (m ! 5), ph_remoteID = load be (blk 6 2 m), ph_localType = byte_of_char (m ! 8),
     ph_messageID = load be (blk 9 4 m), ph_messageType = byte_of_char (m ! 13), ph_reqID = load be (blk 14 4 m),
     ph_sendTime = load be (blk 18 8 m)\<rparr>"

section \<open>Lemmas\<close>

lemma dword_id [simp]: "0 \<le> x \<Longrightarrow> x < 2 ^ 32 \<Longrightarrow> dword x = x"
  by (simp add: dword_def uint_word_of_int)

lemma dword_nonneg [simp]: "0 \<le> dword x"
  by (simp add: dword_def)

lemma dword_negative: "x < 0 \<Longrightarrow> - (2 ^ 31) \<le> x \<Longrightarrow> dword x = x + 2 ^ 32"
proof -
  assume "x < 0" "- (2 ^ 31) \<le> x"
  then have "(x + 2 ^ 32) mod 2 ^ 32 = x + 2 ^ 32" by (intro mod_pos_pos_trivial) auto
  then show ?thesis by (simp add: dword_def uint_word_of_int)
qed

lemma SafeMemmove_ok:
  assumes "0 \<le> n" "n \<le> l" "l < 2 ^ 32" "nat n \<le> length src" "0 \<le> off" "nat off + nat n \<le> length dst"
  shows "SafeMemmove off l src n dst = Inr (0, put (nat off) (take (nat n) src) dst)"
  using assms by (simp add: SafeMemmove_def blk_def)

lemma net_bytes_8:
  "net_bytes 8 v = map char_of_byte [ucast (drop_bit 56 v AND 0xff), ucast (drop_bit 48 v AND 0xff),
     ucast (drop_bit 40 v AND 0xff), ucast (drop_bit 32 v AND 0xff), ucast (drop_bit 24 v AND 0xff),
     ucast (drop_bit 16 v AND 0xff), ucast (drop_bit 8 v AND 0xff), ucast (v AND 0xff)]"
  for v :: u64
proof -
  have b: "(ucast (w AND 0xff) :: u8) = ucast w" for w :: u64
  proof -
    have "w AND 0xff = take_bit 8 w" by (simp add: take_bit_eq_mask mask_eq_exp_minus_1)
    then show ?thesis by (simp only:) (rule bit_word_eqI, auto simp: bit_simps)
  qed
  have e: "8 = Suc (Suc (Suc (Suc (Suc (Suc (Suc (Suc 0)))))))" by simp
  show ?thesis
    unfolding b by (simp add: net_bytes_def) (subst e, simp only: bytes_le.simps, simp)
qed

lemma ntohll_swap: "ntohll be v = (if be then v else swap_bytes 8 v)"
proof -
  have "ntohll be v = load be (net_bytes 8 v)"
    unfolding ntohll_def Let_def net_bytes_8 [symmetric] ..
  then show ?thesis by (simp add: load_def net_bytes_def swap_bytes_def word_le_bytes_le)
qed

lemma ntohll_ntohll [simp]: "ntohll be (ntohll be v) = v"
  by (simp add: ntohll_swap swap_swap)

lemma toBigEndianEx_twice [simp]: "toBigEndianEx be (toBigEndianEx be h) = h"
  by (simp add: toBigEndianEx_def)

lemma toSmallEndian_eq: "toSmallEndian be h = (if ph_remoteType h > 0 then h else toBigEndianEx be h)"
  by (simp add: toSmallEndian_def toBigEndianEx_def)

lemma toBigEndian_eq: "toBigEndian be h = (if ph_localType h > 0 then h else toBigEndianEx be h)"
  by (simp add: toBigEndian_def toBigEndianEx_def)

lemma toBigEndianEx_types [simp]:
  "ph_localType (toBigEndianEx be h) = ph_localType h" "ph_remoteType (toBigEndianEx be h) = ph_remoteType h"
  by (simp_all add: toBigEndianEx_def)

lemma toBigEndian_twice [simp]: "toBigEndian be (toBigEndian be h) = h"
  by (simp add: toBigEndian_eq)

lemma length_header_image [simp]: "length (header_image be h) = HEADER_SIZE"
  by (simp add: header_image_def HEADER_SIZE_def)

lemma header_at_image [simp]: "header_at be (header_image be h @ rest) = h"
  by (simp add: header_at_def header_image_def blk_def nth_append)

lemma header_at_take: "n \<ge> HEADER_SIZE \<Longrightarrow> header_at be (take n m) = header_at be m"
  by (simp add: header_at_def blk_def HEADER_SIZE_def take_drop min_def)

text \<open>
  A header that is converted for a client and laid out in memory is read back, by a peer
  that swaps the fields once more, as it was; between servers neither side converts. A header
  with a client as sender is converted by the reader alone, so what a client has to send is the
  network order image.
\<close>

theorem packet_header_roundtrip:
  "toBigEndian be (header_at be (header_image be (toBigEndian be h) @ rest)) = h \<and>
   (ph_remoteType h > 0 \<longrightarrow> header_at be (header_image be (toSmallEndian be h) @ rest) = h) \<and>
   (ph_remoteType h = 0 \<longrightarrow> toBigEndianEx be (header_at be (header_image be (toSmallEndian be h) @ rest)) = h)"
  by (simp add: toSmallEndian_eq)

theorem packet_header_roundtrip_witness:
  "header_at False (header_image False (toSmallEndian False (sHeader\<lparr>ph_remoteType := 2, ph_length := 5\<rparr>)) @ [])
     = sHeader\<lparr>ph_remoteType := 2, ph_length := 5\<rparr> \<and>
   toBigEndianEx True (header_at True (header_image True (toSmallEndian True (sHeader\<lparr>ph_length := 5\<rparr>)) @ []))
     = sHeader\<lparr>ph_length := 5\<rparr>"
  using packet_header_roundtrip [of False "sHeader\<lparr>ph_remoteType := 2, ph_length := 5\<rparr>" "[]"]
    packet_header_roundtrip [of True "sHeader\<lparr>ph_length := 5\<rparr>" "[]"]
  by (simp add: sHeader_def)

end
