(* ===== verification/Md5Object.thy ===== *)
theory Md5Object
  imports Md5
begin

text \<open>
  \<open>CommBase/Encrypt/md5.cpp\<close> and \<open>md5.h\<close>: the digest object of the C++ servers, which signs the
  messages of secure sessions. Its transform is a second copy of the algorithm with its own
  constants. The loop over whole blocks has a 32 bit index, the length of an input has 64 bits.
\<close>

section \<open>Transform\<close>

definition S11 :: nat where "S11 = 7"
definition S12 :: nat where "S12 = 12"
definition S13 :: nat where "S13 = 17"
definition S14 :: nat where "S14 = 22"
definition S21 :: nat where "S21 = 5"
definition S22 :: nat where "S22 = 9"
definition S23 :: nat where "S23 = 14"
definition S24 :: nat where "S24 = 20"
definition S31 :: nat where "S31 = 4"
definition S32 :: nat where "S32 = 11"
definition S33 :: nat where "S33 = 16"
definition S34 :: nat where "S34 = 23"
definition S41 :: nat where "S41 = 6"
definition S42 :: nat where "S42 = 10"
definition S43 :: nat where "S43 = 15"
definition S44 :: nat where "S44 = 21"

definition F_macro :: "u32 \<Rightarrow> u32 \<Rightarrow> u32 \<Rightarrow> u32" where
  "F_macro x y z = ((x AND y) OR (NOT x AND z))"

definition G_macro :: "u32 \<Rightarrow> u32 \<Rightarrow> u32 \<Rightarrow> u32" where
  "G_macro x y z = ((x AND z) OR (y AND NOT z))"

definition H_macro :: "u32 \<Rightarrow> u32 \<Rightarrow> u32 \<Rightarrow> u32" where
  "H_macro x y z = (x XOR y XOR z)"

definition I_macro :: "u32 \<Rightarrow> u32 \<Rightarrow> u32 \<Rightarrow> u32" where
  "I_macro x y z = (y XOR (x OR NOT z))"

definition ROTATE_macro :: "u32 \<Rightarrow> nat \<Rightarrow> u32" where
  "ROTATE_macro x n = (push_bit n x OR drop_bit (32 - n) x)"

text \<open>
  One call of \<open>FF\<close>, \<open>GG\<close>, \<open>HH\<close> or \<open>II\<close>, by its function. A call updates its first register; the
  next call names the registers one place further round.
\<close>

definition round_call ::
  "(u32 \<Rightarrow> u32 \<Rightarrow> u32 \<Rightarrow> u32) \<Rightarrow> u32 list \<Rightarrow> nat \<times> nat \<times> u32 \<Rightarrow> md5_state \<Rightarrow> md5_state" where
  "round_call fn x = (\<lambda>(k, s, ac) (a, b, c, d).
     let a = a + (fn b c d + x ! k + ac); a = ROTATE_macro a s; a = a + b in (d, a, b, c))"

definition FF_calls :: "(nat \<times> nat \<times> u32) list" where
  "FF_calls = [
   (0, S11, 0xd76aa478), (1, S12, 0xe8c7b756), (2, S13, 0x242070db), (3, S14, 0xc1bdceee),
   (4, S11, 0xf57c0faf), (5, S12, 0x4787c62a), (6, S13, 0xa8304613), (7, S14, 0xfd469501),
   (8, S11, 0x698098d8), (9, S12, 0x8b44f7af), (10, S13, 0xffff5bb1), (11, S14, 0x895cd7be),
   (12, S11, 0x6b901122), (13, S12, 0xfd987193), (14, S13, 0xa679438e), (15, S14, 0x49b40821)]"

definition GG_calls :: "(nat \<times> nat \<times> u32) list" where
  "GG_calls = [
   (1, S21, 0xf61e2562), (6, S22, 0xc040b340), (11, S23, 0x265e5a51), (0, S24, 0xe9b6c7aa),
   (5, S21, 0xd62f105d), (10, S22, 0x2441453), (15, S23, 0xd8a1e681), (4, S24, 0xe7d3fbc8),
   (9, S21, 0x21e1cde6), (14, S22, 0xc33707d6), (3, S23, 0xf4d50d87), (8, S24, 0x455a14ed),
   (13, S21, 0xa9e3e905), (2, S22, 0xfcefa3f8), (7, S23, 0x676f02d9), (12, S24, 0x8d2a4c8a)]"

definition HH_calls :: "(nat \<times> nat \<times> u32) list" where
  "HH_calls = [
   (5, S31, 0xfffa3942), (8, S32, 0x8771f681), (11, S33, 0x6d9d6122), (14, S34, 0xfde5380c),
   (1, S31, 0xa4beea44), (4, S32, 0x4bdecfa9), (7, S33, 0xf6bb4b60), (10, S34, 0xbebfbc70),
   (13, S31, 0x289b7ec6), (0, S32, 0xeaa127fa), (3, S33, 0xd4ef3085), (6, S34, 0x4881d05),
   (9, S31, 0xd9d4d039), (12, S32, 0xe6db99e5), (15, S33, 0x1fa27cf8), (2, S34, 0xc4ac5665)]"

definition II_calls :: "(nat \<times> nat \<times> u32) list" where
  "II_calls = [
   (0, S41, 0xf4292244), (7, S42, 0x432aff97), (14, S43, 0xab9423a7), (5, S44, 0xfc93a039),
   (12, S41, 0x655b59c3), (3, S42, 0x8f0ccc92), (10, S43, 0xffeff47d), (1, S44, 0x85845dd1),
   (8, S41, 0x6fa87e4f), (15, S42, 0xfe2ce6e0), (6, S43, 0xa3014314), (13, S44, 0x4e0811a1),
   (4, S41, 0xf7537e82), (11, S42, 0xbd3af235), (2, S43, 0x2ad7d2bb), (9, S44, 0xeb86d391)]"

fun obj_Decode :: "u8 list \<Rightarrow> u32 list" where
  "obj_Decode (b0 # b1 # b2 # b3 # bs) =
     (ucast b0 OR push_bit 8 (ucast b1) OR push_bit 16 (ucast b2) OR push_bit 24 (ucast b3)) # obj_Decode bs"
| "obj_Decode _ = []"

fun obj_Encode :: "u32 list \<Rightarrow> u8 list" where
  "obj_Encode [] = []"
| "obj_Encode (w # ws) =
     [ucast (w AND 0xFF), ucast (drop_bit 8 w AND 0xFF), ucast (drop_bit 16 w AND 0xFF),
      ucast (drop_bit 24 w AND 0xFF)] @ obj_Encode ws"

definition obj_Transform :: "md5_state \<Rightarrow> u8 list \<Rightarrow> md5_state" where
  "obj_Transform = (\<lambda>(s0, s1, s2, s3) block.
     let x = obj_Decode block;
         regs = fold (round_call F_macro x) FF_calls (s0, s1, s2, s3);
         regs = fold (round_call G_macro x) GG_calls regs;
         regs = fold (round_call H_macro x) HH_calls regs;
         (a, b, c, d) = fold (round_call I_macro x) II_calls regs
     in (s0 + a, s1 + b, s2 + c, s3 + d))"

section \<open>The object\<close>

record md5_object =
  mo_state :: md5_state
  mo_count0 :: u32
  mo_count1 :: u32
  mo_buffer :: "u8 list"
  mo_digest :: "u8 list"
  mo_finished :: bool

definition obj_Reset :: "md5_object \<Rightarrow> md5_object" where
  "obj_Reset m = m\<lparr>mo_finished := False, mo_count0 := 0, mo_count1 := 0,
     mo_state := (0x67452301, 0xefcdab89, 0x98badcfe, 0x10325476)\<rparr>"

text \<open>
  The loop over whole blocks from index \<open>i\<close> on: the state and the index it stops at. Once the index has
  wrapped inside the input, every further test succeeds.
\<close>

function transform_from :: "md5_state \<Rightarrow> u8 list \<Rightarrow> u32 \<Rightarrow> fault + md5_state \<times> u32" where
  "transform_from st input i =
     (if unat (i + 63) < length input then
        if unat i + 64 > length input then Inl OutOfBounds
        else if unat i + 64 \<ge> 2 ^ 32 then Inl Spins
        else transform_from (obj_Transform st (blk (unat i) 64 input)) input (i + 64)
      else Inr (st, i))"
  by pat_completeness auto

termination
proof (relation "measure (\<lambda>(st, input, i). 2 ^ 32 - unat i)")
  fix st :: md5_state and input :: "u8 list" and i :: u32
  assume "\<not> unat i + 64 \<ge> 2 ^ 32"
  then show "((obj_Transform st (blk (unat i) 64 input), input, i + 64), st, input, i) \<in> measure (\<lambda>(st, input, i). 2 ^ 32 - unat i)"
    using unat_add_64 [of i] by simp
qed simp

declare transform_from.simps [simp del]

definition obj_Update :: "u8 list \<Rightarrow> md5_object \<Rightarrow> fault + md5_object" where
  "obj_Update input m =
     (let len = (word_of_nat (length input) :: u32);
          index = unat (drop_bit 3 (mo_count0 m) AND 0x3f);
          c0 = mo_count0 m + push_bit 3 len;
          c1 = (if c0 < push_bit 3 len then mo_count1 m + 1 else mo_count1 m) + drop_bit 29 len;
          m = m\<lparr>mo_finished := False, mo_count0 := c0, mo_count1 := c1\<rparr>;
          partLen = 64 - index
      in if length input \<ge> partLen then
           let buf = put index (take partLen input) (mo_buffer m);
               st = obj_Transform (mo_state m) buf
           in rbind (transform_from st input (word_of_nat partLen)) (\<lambda>(st, i).
              Inr (m\<lparr>mo_state := st, mo_buffer := put 0 (drop (unat i) input) buf\<rparr>))
         else Inr (m\<lparr>mo_buffer := put index input (mo_buffer m)\<rparr>))"

definition PADDING_bytes :: "u8 list" where
  "PADDING_bytes = 0x80 # replicate 63 0"

text \<open>\<open>Final\<close> restores the state and the counters afterwards, not the buffer and not the flag.\<close>

definition obj_Final :: "md5_object \<Rightarrow> fault + md5_object" where
  "obj_Final m =
     (let oldState = mo_state m; old0 = mo_count0 m; old1 = mo_count1 m;
          bits = obj_Encode [mo_count0 m, mo_count1 m];
          index = unat (drop_bit 3 (mo_count0 m) AND 0x3f);
          padLen = (if index < 56 then 56 - index else 120 - index)
      in rbind (obj_Update (take padLen PADDING_bytes) m) (\<lambda>m.
         rbind (obj_Update bits m) (\<lambda>m.
         let m = m\<lparr>mo_digest := obj_Encode (case mo_state m of (a, b, c, d) \<Rightarrow> [a, b, c, d])\<rparr>
         in Inr (m\<lparr>mo_state := oldState, mo_count0 := old0, mo_count1 := old1\<rparr>))))"

definition obj_Digest :: "md5_object \<Rightarrow> fault + u8 list \<times> md5_object" where
  "obj_Digest m =
     rbind (if \<not> mo_finished m then obj_Final (m\<lparr>mo_finished := True\<rparr>) else Inr m) (\<lambda>m. Inr (mo_digest m, m))"

text \<open>\<open>mem\<close>: the object's memory before the constructor runs.\<close>

definition md5_new :: "md5_object \<Rightarrow> u8 list \<Rightarrow> fault + md5_object" where
  "md5_new mem input = obj_Update input (obj_Reset mem)"

definition HEX_digits :: string where
  "HEX_digits = ''0123456789abcdef''"

definition BytesToHexString :: "u8 list \<Rightarrow> string" where
  "BytesToHexString input = concat (map (\<lambda>b. [HEX_digits ! (unat b div 16), HEX_digits ! (unat b mod 16)]) input)"

definition obj_ToString :: "md5_object \<Rightarrow> fault + string \<times> md5_object" where
  "obj_ToString m = rbind (obj_Digest m) (\<lambda>(d, m). Inr (BytesToHexString d, m))"

section \<open>Simulation of the digest of the communication library\<close>

lemma calls_eq: "FF_calls = FF_steps" "GG_calls = GG_steps" "HH_calls = HH_steps" "II_calls = II_steps"
  by (simp_all add: FF_calls_def FF_steps_def GG_calls_def GG_steps_def HH_calls_def HH_steps_def
    II_calls_def II_steps_def S11_def S12_def S13_def S14_def S21_def S22_def S23_def S24_def
    S31_def S32_def S33_def S34_def S41_def S42_def S43_def S44_def)

lemma macros_eq: "F_macro = F" "G_macro = G" "H_macro = H" "I_macro = I" "ROTATE_macro = ROTATE_LEFT"
  by (auto simp: fun_eq_iff F_macro_def G_macro_def H_macro_def I_macro_def ROTATE_macro_def
    F_def G_def H_def I_def ROTATE_LEFT_def)

lemma round_call_eq: "round_call = md5_step"
  by (simp add: fun_eq_iff round_call_def md5_step_def macros_eq)

lemma obj_Decode_eq: "obj_Decode bs = MD5Decode bs"
  by (induction bs rule: obj_Decode.induct) auto

lemma obj_Encode_eq: "obj_Encode ws = MD5Encode ws"
  by (induction ws) auto

lemma obj_Transform_eq: "obj_Transform st b = MD5Transform st b"
  by (cases st)
    (simp add: obj_Transform_def MD5Transform_def calls_eq macros_eq round_call_eq obj_Decode_eq)

lemma transform_from_blocks:
  "length x < 2 ^ 32 - 63 \<Longrightarrow> unat i \<le> length x \<Longrightarrow>
    \<exists>s j. transform_from st x i = Inr (s, j) \<and> unat j \<le> length x \<and> md5_blocks st (drop (unat i) x) = (s, drop (unat j) x)"
proof (induction st x i rule: transform_from.induct)
  case (1 st x i)
  have i: "unat (i + 63) = unat i + 63" using 1(2,3) unat_add_lem [of i 63] by simp
  show ?case
  proof (cases "unat i + 63 < length x")
    case True
    then have "unat i + 64 < 2 ^ 32" using 1(2) by simp
    then show ?thesis using True i unat_add_64 [of i] 1
      by (subst transform_from.simps) (simp add: md5_blocks_long obj_Transform_eq blk_def add.commute)
  next
    case False
    then show ?thesis using 1(3) i
      by (intro exI [of _ st] exI [of _ i]) (simp add: transform_from.simps [of st])
  qed
qed

section \<open>Updates whose index does not wrap\<close>

definition obj_update :: "u8 list \<Rightarrow> md5_object \<Rightarrow> md5_object" where
  "obj_update input m =
     (let c = md5_update \<lparr>md_count0 = mo_count0 m, md_count1 = mo_count1 m, md_state = mo_state m, md_buffer = mo_buffer m\<rparr> input
      in m\<lparr>mo_finished := False, mo_count0 := md_count0 c, mo_count1 := md_count1 c, mo_state := md_state c, mo_buffer := md_buffer c\<rparr>)"

definition obj_final :: "md5_object \<Rightarrow> md5_object" where
  "obj_final m =
     (let index = unat (drop_bit 3 (mo_count0 m) AND 0x3f);
          padLen = (if index < 56 then 56 - index else 120 - index);
          m' = obj_update (obj_Encode [mo_count0 m, mo_count1 m]) (obj_update (take padLen PADDING_bytes) m)
      in m'\<lparr>mo_digest := obj_Encode (case mo_state m' of (a, b, c, d) \<Rightarrow> [a, b, c, d]),
           mo_state := mo_state m, mo_count0 := mo_count0 m, mo_count1 := mo_count1 m\<rparr>)"

lemma obj_Update_short:
  assumes "length x < 2 ^ 32 - 63"
  shows "obj_Update x m = Inr (obj_update x m)"
proof -
  let ?i = "unat (drop_bit 3 (mo_count0 m) AND 0x3f)"
  show ?thesis
  proof (cases "64 - ?i \<le> length x")
    case True
    let ?st = "obj_Transform (mo_state m) (put ?i (take (64 - ?i) x) (mo_buffer m))"
    have p: "unat (word_of_nat (64 - ?i) :: u32) = 64 - ?i" by (simp add: unsigned_of_nat take_bit_nat_eq_self)
    obtain s j where j: "transform_from ?st x (word_of_nat (64 - ?i)) = Inr (s, j)"
      "md5_blocks ?st (drop (64 - ?i) x) = (s, drop (unat j) x)"
      using transform_from_blocks [OF assms, of "word_of_nat (64 - ?i)" ?st] True unfolding p by blast
    show ?thesis using True j by (simp add: obj_Update_def obj_update_def md5_update_def Let_def flip: obj_Transform_eq)
  qed (simp add: obj_Update_def obj_update_def md5_update_def Let_def)
qed

lemma obj_Final_total: "obj_Final m = Inr (obj_final m)"
proof -
  have p: "obj_Update (take n PADDING_bytes) m = Inr (obj_update (take n PADDING_bytes) m)" for n m
    by (rule obj_Update_short) (simp add: PADDING_bytes_def)
  have e: "obj_Update (obj_Encode [a, b]) m = Inr (obj_update (obj_Encode [a, b]) m)" for a b m
    by (rule obj_Update_short) simp
  show ?thesis by (simp only: obj_Final_def obj_final_def Let_def p e rbind.simps)
qed

lemma obj_updates_short:
  "\<forall>x \<in> set xs. length x < 2 ^ 32 - 63 \<Longrightarrow> foldl (\<lambda>ob x. rbind ob (obj_Update x)) (Inr m) xs = Inr (fold obj_update xs m)"
  by (induction xs arbitrary: m) (simp_all add: obj_Update_short)

text \<open>The context of the library an object stands for.\<close>

definition ctx_of :: "md5_object \<Rightarrow> md5_ctx" where
  "ctx_of m = \<lparr>md_count0 = mo_count0 m, md_count1 = mo_count1 m, md_state = mo_state m, md_buffer = mo_buffer m\<rparr>"

lemma obj_update_ctx: "ctx_of (obj_update x m) = md5_update (ctx_of m) x"
  by (simp add: obj_update_def ctx_of_def Let_def)

section \<open>Digests\<close>

lemma obj_updates_inv:
  assumes "\<forall>x \<in> set xs. length x < 2 ^ 32" "md5_inv (ctx_of ob) m"
  shows "md5_inv (ctx_of (fold obj_update xs ob)) (m @ concat xs)"
  using assms
proof (induction xs arbitrary: ob m)
  case Nil
  then show ?case by simp
next
  case (Cons x xs)
  have "md5_inv (ctx_of (obj_update x ob)) (m @ x)"
    unfolding obj_update_ctx using Cons.prems by (intro md5_inv_update) auto
  with Cons show ?case by fastforce
qed

lemma obj_Reset_inv: "length (mo_buffer mem) = 64 \<Longrightarrow> md5_inv (ctx_of (obj_Reset mem)) []"
  by (simp add: md5_inv_def ctx_of_def obj_Reset_def md5_init_state_def)

lemma padding_eq: "PADDING_bytes = PADDING"
  by (simp add: PADDING_bytes_def PADDING_def)

text \<open>The context after the padding and the length were appended.\<close>

definition closed_ctx :: "md5_ctx \<Rightarrow> md5_ctx" where
  "closed_ctx c =
     (let index = unat (drop_bit 3 (md_count0 c) AND 0x3F);
          padlen = (if index < 56 then 56 - index else 120 - index)
      in md5_update (md5_update c (take padlen PADDING)) (MD5Encode [md_count0 c, md_count1 c]))"

lemma md5_final_closed: "md5_final c = MD5Encode (state_words (md_state (closed_ctx c)))"
  by (simp add: md5_final_def closed_ctx_def Let_def)

lemma obj_final_fields:
  "mo_digest (obj_final ob) = md5_final (ctx_of ob)" "mo_finished (obj_final ob) = False"
  "ctx_of (obj_final ob) = (ctx_of ob)\<lparr>md_buffer := md_buffer (closed_ctx (ctx_of ob))\<rparr>"
proof -
  let ?i = "unat (drop_bit 3 (mo_count0 ob) AND 0x3F)"
  let ?b = "obj_update (MD5Encode [mo_count0 ob, mo_count1 ob])
    (obj_update (take (if ?i < 56 then 56 - ?i else 120 - ?i) PADDING) ob)"
  have b: "ctx_of ?b = closed_ctx (ctx_of ob)"
    by (simp only: obj_update_ctx closed_ctx_def Let_def) (simp add: ctx_of_def)
  have sel: "mo_state ?b = md_state (ctx_of ?b)" "mo_buffer ?b = md_buffer (ctx_of ?b)"
    by (simp_all add: ctx_of_def)
  have f: "mo_finished (obj_update x y) = False" for x y
    by (auto simp: obj_update_def Let_def split: prod.splits)
  show "mo_digest (obj_final ob) = md5_final (ctx_of ob)"
    by (simp only: obj_final_def Let_def padding_eq obj_Encode_eq md5_final_closed b [symmetric] sel [symmetric])
      (simp add: sel b state_words_def split: prod.splits)
  show "mo_finished (obj_final ob) = False"
    by (simp add: obj_final_def Let_def f)
  show "ctx_of (obj_final ob) = (ctx_of ob)\<lparr>md_buffer := md_buffer (closed_ctx (ctx_of ob))\<rparr>"
    by (simp only: obj_final_def Let_def padding_eq obj_Encode_eq b [symmetric])
      (simp add: ctx_of_def)
qed

lemma closed_buffer:
  assumes inv: "md5_inv c m" and i: "i = length m mod 64"
  shows "take i (md_buffer (closed_ctx c)) =
    (if i < 56 then take i (md_buffer c) else take i (replicate 56 0 @ len_bytes (length m)))"
    and "length (md_buffer (closed_ctx c)) = 64"
proof -
  let ?p = "if i < 56 then 56 - i else 120 - i"
  let ?pad = "take ?p PADDING"
  let ?c1 = "md5_update c ?pad"
  have il: "i < 64" by (simp add: i)
  have idx: "unat (drop_bit 3 (md_count0 c) AND 0x3F) = i"
    unfolding i by (rule md5_index) (use inv in \<open>simp only: md5_inv_def\<close>)
  have lp: "length ?pad = ?p" using il by (simp add: PADDING_def)
  have lb: "length (md_buffer c) = 64" using inv by (simp add: md5_inv_def)
  have inv1: "md5_inv ?c1 (m @ ?pad)" by (rule md5_inv_update [OF inv]) (simp add: PADDING_def)
  have "(length m + ?p) mod 64 = 56"
    using il mod_add_left_eq [of "length m" 64 ?p] by (simp add: i [symmetric] split: if_splits)
  then have idx1: "unat (drop_bit 3 (md_count0 ?c1) AND 0x3F) = 56"
    using md5_index [of ?c1 "length m + ?p"] inv1 lp by (simp add: md5_inv_def)
  have bits: "MD5Encode [md_count0 c, md_count1 c] = len_bytes (length m)"
    using inv MD5Encode_count by (simp add: md5_inv_def)
  have l8: "length (len_bytes (length m)) = 8" by (simp add: len_bytes_def)
  have cl: "md_buffer (closed_ctx c) = put 56 (len_bytes (length m)) (md_buffer ?c1)"
    using md5_update_branches(1) [OF idx1, of "len_bytes (length m)"]
    by (simp add: closed_ctx_def Let_def idx bits l8 del: MD5Encode.simps)
  have lb1: "length (md_buffer ?c1) = 64" using inv1 by (simp add: md5_inv_def)
  show "length (md_buffer (closed_ctx c)) = 64" by (simp add: cl lb1 l8)
  show "take i (md_buffer (closed_ctx c)) =
    (if i < 56 then take i (md_buffer c) else take i (replicate 56 0 @ len_bytes (length m)))"
  proof (cases "i < 56")
    case True
    then have "md_buffer ?c1 = put i ?pad (md_buffer c)"
      using md5_update_branches(2) [OF idx, of ?pad] lp by (simp add: PADDING_def)
    with True show ?thesis by (simp add: cl take_put_below lb lp)
  next
    case False
    then have "drop (64 - i) ?pad = replicate 56 0"
      using il by (simp add: PADDING_def drop_take drop_Cons' )
    then have "md_buffer ?c1 = put 0 (replicate 56 0) (put i (take (64 - i) ?pad) (md_buffer c))"
      using md5_update_branches(1) [OF idx, of ?pad] False lp il by (simp add: min_def split: if_splits)
    then obtain xs where c1: "md_buffer ?c1 = replicate 56 0 @ xs"
      by (simp add: put_def)
    then have "length xs = 8" using lb1 by simp
    then have "put 56 (len_bytes (length m)) (replicate 56 0 @ xs) = replicate 56 0 @ len_bytes (length m)"
      by (simp add: put_def l8)
    then show ?thesis using False unfolding cl c1 by simp
  qed
qed

lemma md5_blocks_tail:
  assumes "length p mod 64 = 0" "length r < 64"
  shows "md5_blocks st (p @ r) = (fst (md5_blocks st p), r)"
  using md5_blocks_append [of st p r] length_md5_rest [of st p] assms by simp

lemma obj_final_inv:
  assumes inv: "md5_inv (ctx_of ob) m" and i: "i = length m mod 64"
  shows "md5_inv (ctx_of (obj_final ob))
    (if i < 56 then m else take (length m - i) m @ take i (replicate 56 0 @ len_bytes (length m)))"
    (is "md5_inv _ ?m'")
proof -
  let ?p = "take (length m - i) m" and ?r = "drop (length m - i) m"
  let ?r' = "if i < 56 then ?r else take i (replicate 56 0 @ len_bytes (length m))"
  have il: "i < 64" "i \<le> length m" by (simp_all add: i)
  have l8: "length (len_bytes (length m)) = 8" by (simp add: len_bytes_def)
  have p: "length ?p mod 64 = 0" using i minus_mod_eq_mult_div [of "length m" 64] by simp
  have m: "md5_blocks md5_init_state m = (fst (md5_blocks md5_init_state ?p), ?r)"
    using md5_blocks_tail [OF p, of ?r md5_init_state] il by simp
  have m': "?m' = ?p @ ?r'" by simp
  have r': "length ?r' = i" using il l8 by simp
  have lm': "length ?m' = length m" unfolding m' using r' il by simp
  have b': "md5_blocks md5_init_state ?m' = (fst (md5_blocks md5_init_state ?p), ?r')"
    unfolding m' using md5_blocks_tail [OF p, of ?r'] r' il by simp
  have "take i (md_buffer (ctx_of ob)) = ?r"
    using inv i m by (simp add: md5_inv_def)
  then show ?thesis
    using inv closed_buffer [OF inv i]
    by (simp only: md5_inv_def lm' b' m obj_final_fields) (simp add: i)
qed

lemma obj_finished [simp]: "mo_finished (obj_update x y) = False"
  by (simp add: obj_update_def Let_def)

lemma obj_Digest_open:
  assumes "length (mo_buffer mem) = 64" "\<forall>x \<in> set xs. length x < 2 ^ 32"
  shows "obj_Digest (fold obj_update xs (obj_Reset mem)) =
      Inr (md5_spec (concat xs), obj_final (fold obj_update xs (obj_Reset mem)\<lparr>mo_finished := True\<rparr>))"
    and "md5_inv (ctx_of (fold obj_update xs (obj_Reset mem)\<lparr>mo_finished := True\<rparr>)) (concat xs)"
proof -
  let ?o = "fold obj_update xs (obj_Reset mem)"
  have fin: "\<not> mo_finished ?o"
    by (cases xs rule: rev_cases) (simp_all add: obj_Reset_def)
  show inv: "md5_inv (ctx_of (?o\<lparr>mo_finished := True\<rparr>)) (concat xs)"
    using obj_updates_inv [OF assms(2) obj_Reset_inv [OF assms(1)]] by (simp add: ctx_of_def)
  show "obj_Digest ?o = Inr (md5_spec (concat xs), obj_final (?o\<lparr>mo_finished := True\<rparr>))"
    using fin md5_final_spec [OF inv] by (simp add: obj_Digest_def obj_Final_total obj_final_fields)
qed

lemma obj_Digest_first:
  assumes "length (mo_buffer mem) = 64" "length x < 2 ^ 32 - 63"
  shows "rbind (rbind (md5_new mem x) obj_Digest) (\<lambda>(d, m). Inr d) = Inr (md5_spec x)"
  using obj_Digest_open(1) [of mem "[x]"] assms by (simp add: md5_new_def obj_Update_short)

text \<open>
  C29. However the bytes of a message are cut into updates of less than \<open>2^32 - 63\<close> bytes, the object's
  digest is the MD5 digest of the message as the communication library computes it. Asked a second time it is the same
  only when the last block of the message is shorter than 56 bytes: otherwise the padding has
  overwritten what the buffer held, and the object answers with the digest of the message whose
  last block is zeros (with the first bytes of the length behind them).
\<close>

theorem md5_object_digest:
  assumes "length (mo_buffer mem) = 64" "\<forall>x \<in> set xs. length x < 2 ^ 32 - 63"
    and "m = concat xs" "i = length m mod 64"
  shows "\<exists>ob ob'. rbind (foldl (\<lambda>ob x. rbind ob (obj_Update x)) (Inr (obj_Reset mem)) xs) obj_Digest = Inr (md5_spec m, ob) \<and>
    obj_Digest ob = Inr (md5_spec
      (if i < 56 then m else take (length m - i) m @ take i (replicate 56 0 @ len_bytes (length m))), ob')"
proof -
  have l: "\<forall>x \<in> set xs. length x < 2 ^ 32" using assms(2) by auto
  note o = obj_Digest_open [OF assms(1) l, folded assms(3)]
  let ?ob = "obj_final (fold obj_update xs (obj_Reset mem)\<lparr>mo_finished := True\<rparr>)"
  have inv: "md5_inv (ctx_of (?ob\<lparr>mo_finished := True\<rparr>))
    (if i < 56 then m else take (length m - i) m @ take i (replicate 56 0 @ len_bytes (length m)))"
    using obj_final_inv [OF o(2) assms(4)] by (simp add: ctx_of_def)
  have "obj_Digest ?ob = Inr (md5_final (ctx_of (?ob\<lparr>mo_finished := True\<rparr>)), obj_final (?ob\<lparr>mo_finished := True\<rparr>))"
    by (simp add: obj_Digest_def obj_Final_total obj_final_fields)
  then show ?thesis using o(1) md5_final_spec [OF inv] obj_updates_short [OF assms(2)] by simp
qed

definition blank_md5 :: md5_object where
  "blank_md5 = \<lparr>mo_state = (0, 0, 0, 0), mo_count0 = 0, mo_count1 = 0, mo_buffer = replicate 64 7, mo_digest = [], mo_finished = True\<rparr>"

theorem md5_object_digest_witness:
  "\<exists>ob ob'. rbind (foldl (\<lambda>ob x. rbind ob (obj_Update x)) (Inr (obj_Reset blank_md5)) [replicate 40 1, replicate 20 2]) obj_Digest =
      Inr (md5_spec (replicate 40 1 @ replicate 20 2), ob) \<and>
    obj_Digest ob = Inr (md5_spec (replicate 56 0 @ take 4 (len_bytes 60)), ob')"
  using md5_object_digest [of blank_md5 "[replicate 40 1, replicate 20 2]", OF _ _ refl refl] by (simp add: blank_md5_def)

end
