(* ===== verification/NetMessage.thy ===== *)
theory NetMessage
  imports PacketHeader Md5Object
begin

text \<open>
  \<open>Message\<close> of \<open>CommBase/Network/MessageManager.h\<close> and \<open>MessageManager.cpp\<close>: a message with the
  block its body lies in, its header fields, and the signature of secure sessions. The smart
  pointers to other objects (\<open>m_req\<close>, \<open>m_act\<close>) are left out; an address is its ip and port.
  \<open>old\<close> is what freshly allocated memory holds.
\<close>

section \<open>State\<close>

definition MAX_RECV_MSG_SIZE :: int where "MAX_RECV_MSG_SIZE = 1024 * 64"
definition MAX_RECV_MSG_CONTENT_SIZE :: int where "MAX_RECV_MSG_CONTENT_SIZE = 1024"
definition MAX_MSG_PACKET_SIZE :: int where "MAX_MSG_PACKET_SIZE = 1024 * 64"

record net_message =
  nm_content :: "char list"
  nm_addr :: "u32 \<times> u16"
  nm_remoteID :: u16
  nm_remoteType :: u8
  nm_localID :: u16
  nm_localType :: u8
  nm_timeout :: u16
  nm_reqID :: u32
  nm_channelID :: int
  nm_messageID :: u32
  nm_messageType :: u8
  nm_length :: int
  nm_errno :: int
  nm_security :: bool
  nm_sendTime :: u64
  nm_loopIndex :: int
  nm_group :: int
  nm_groupKey :: u64

section \<open>Construction and fields\<close>

definition Message_plain :: "(nat \<Rightarrow> char) \<Rightarrow> net_message" where
  "Message_plain old = \<lparr>nm_content = junk old (nat MAX_RECV_MSG_CONTENT_SIZE), nm_addr = (0, 0), nm_remoteID = - 1,
     nm_remoteType = 0, nm_localID = 0, nm_localType = 0, nm_timeout = 0, nm_reqID = 0, nm_channelID = - 1,
     nm_messageID = 0, nm_messageType = 0, nm_length = 0, nm_errno = 0, nm_security = False, nm_sendTime = 0,
     nm_loopIndex = - 1, nm_group = - 1, nm_groupKey = - 1\<rparr>"

definition Message_remote :: "(nat \<Rightarrow> char) \<Rightarrow> int \<Rightarrow> u32 \<Rightarrow> net_message" where
  "Message_remote old rid type = (Message_plain old)\<lparr>nm_remoteID := word_of_int rid, nm_remoteType := ucast type\<rparr>"

definition Message_remote_channel :: "(nat \<Rightarrow> char) \<Rightarrow> int \<Rightarrow> u32 \<Rightarrow> int \<Rightarrow> net_message" where
  "Message_remote_channel old rid type channel =
     (Message_plain old)\<lparr>nm_remoteID := word_of_int rid, nm_remoteType := ucast type, nm_channelID := channel\<rparr>"

definition Message_channel :: "(nat \<Rightarrow> char) \<Rightarrow> int \<Rightarrow> net_message" where
  "Message_channel old channel = (Message_plain old)\<lparr>nm_channelID := channel\<rparr>"

definition Message_group :: "(nat \<Rightarrow> char) \<Rightarrow> int \<Rightarrow> u32 \<Rightarrow> int \<Rightarrow> u64 \<Rightarrow> net_message" where
  "Message_group old rid type grp key = (Message_plain old)\<lparr>nm_remoteID := word_of_int rid,
     nm_remoteType := ucast type, nm_group := grp, nm_groupKey := key\<rparr>"

text \<open>The answer to a message goes where that message came from.\<close>

definition Message_answer :: "(nat \<Rightarrow> char) \<Rightarrow> net_message \<Rightarrow> net_message" where
  "Message_answer old m = (Message_plain old)\<lparr>nm_remoteID := nm_remoteID m, nm_remoteType := nm_remoteType m,
     nm_localID := nm_localID m, nm_localType := nm_localType m, nm_reqID := nm_reqID m, nm_channelID := nm_channelID m,
     nm_loopIndex := nm_loopIndex m, nm_group := nm_group m, nm_groupKey := nm_groupKey m\<rparr>"

text \<open>The header is seen from the other side: its remote end is the local one.\<close>

definition SetHead :: "packet_header \<Rightarrow> net_message \<Rightarrow> net_message" where
  "SetHead h m = m\<lparr>nm_length := sint (ph_length h), nm_messageID := ph_messageID h,
     nm_messageType := ph_messageType h, nm_localID := ph_remoteID h, nm_localType := ph_remoteType h,
     nm_remoteType := ph_localType h, nm_reqID := ph_reqID h, nm_security := (ph_security h \<noteq> 0),
     nm_sendTime := ph_sendTime h\<rparr>"

definition GetHead :: "bool \<Rightarrow> net_message \<Rightarrow> packet_header" where
  "GetHead be m = toSmallEndian be \<lparr>ph_length = word_of_int (nm_length m), ph_security = (if nm_security m then 1 else 0),
     ph_remoteType = nm_remoteType m, ph_remoteID = nm_remoteID m, ph_localType = nm_localType m,
     ph_messageID = nm_messageID m, ph_messageType = nm_messageType m, ph_reqID = nm_reqID m, ph_sendTime = nm_sendTime m\<rparr>"

text \<open>\<open>content\<close> is what memory holds from the pointer on. A body that is too long is not taken.\<close>

definition SetContent :: "(nat \<Rightarrow> char) \<Rightarrow> char list \<Rightarrow> int \<Rightarrow> net_message \<Rightarrow> fault + net_message" where
  "SetContent old content len m =
     rbind (c_int (len + int HEADER_SIZE + 16)) (\<lambda>total.
     if total > MAX_MSG_PACKET_SIZE then Inr m
     else let block = (if len + 16 > MAX_RECV_MSG_CONTENT_SIZE
            then take (nat (len + 16)) (nm_content m) @ junk old (nat (len + 16) - length (nm_content m))
            else nm_content m)
     in rbind (SafeMemmove 0 len content len block) (\<lambda>(res, block).
        Inr (m\<lparr>nm_content := block, nm_length := len\<rparr>)))"

section \<open>Signature\<close>

text \<open>A digest object over \<open>len\<close> bytes of a block; \<open>mem\<close> is the object's memory before.\<close>

definition MD5_of :: "md5_object \<Rightarrow> char list \<Rightarrow> int \<Rightarrow> fault + char list" where
  "MD5_of mem block len = rbind (copy_out 0 (nat (usize len)) block) (\<lambda>bs.
     rbind (md5_new mem (map byte_of_char bs)) (\<lambda>md5. rbind (obj_Digest md5) (\<lambda>(d, _). Inr (map char_of_byte d))))"

definition EncryptMessage :: "md5_object \<Rightarrow> net_message \<Rightarrow> fault + net_message" where
  "EncryptMessage mem m =
     (if nm_security m then
        if nm_length m + 16 > MAX_MSG_PACKET_SIZE then Inr m
        else rbind (MD5_of mem (nm_content m) (nm_length m)) (\<lambda>d.
             rbind (SafeMemmove (nm_length m) (MAX_MSG_PACKET_SIZE - nm_length m) d 16 (nm_content m)) (\<lambda>(res, block).
             Inr (m\<lparr>nm_content := block, nm_length := nm_length m + 16\<rparr>)))
      else Inr m)"

text \<open>\<open>strncmp(a, b, n) == 0\<close>.\<close>

fun strncmp_equal :: "nat \<Rightarrow> char list \<Rightarrow> char list \<Rightarrow> fault + bool" where
  "strncmp_equal 0 a b = Inr True"
| "strncmp_equal (Suc n) (a # as) (b # bs) =
     (if a \<noteq> b then Inr False else if a = NUL then Inr True else strncmp_equal n as bs)"
| "strncmp_equal (Suc n) _ _ = Inl OutOfBounds"

definition UnEncryptMessage :: "md5_object \<Rightarrow> net_message \<Rightarrow> fault + bool \<times> net_message" where
  "UnEncryptMessage mem m =
     (if nm_security m then
        rbind (c_int (nm_length m - 16)) (\<lambda>n.
        rbind (MD5_of mem (nm_content m) n) (\<lambda>d.
        rbind (SafeMemmove 0 32 (drop 3 (nm_content m)) 16 (replicate 32 NUL)) (\<lambda>_.
        rbind (strncmp_equal 16 d (drop (nat n) (nm_content m))) (\<lambda>same.
        if \<not> same then Inr (False, m) else Inr (True, m\<lparr>nm_length := n\<rparr>)))))
      else Inr (True, m))"

section \<open>Lemmas\<close>

definition digest_of :: "char list \<Rightarrow> char list" where
  "digest_of body = map char_of_byte (md5_spec (map byte_of_char body))"

definition md5_mem_ok :: "md5_object \<Rightarrow> bool" where
  "md5_mem_ok mem \<longleftrightarrow> length (mo_buffer mem) = 64"

lemma length_digest_of [simp]: "length (digest_of b) = 16"
  by (simp add: digest_of_def md5_spec_def state_words_def split_def)

lemma MD5_of_ok:
  assumes "md5_mem_ok mem" "0 \<le> n" "nat n \<le> length block" "n < 2 ^ 32 - 63"
  shows "MD5_of mem block n = Inr (digest_of (take (nat n) block))"
proof -
  let ?x = "map byte_of_char (take (nat n) block)"
  have "rbind (rbind (md5_new mem ?x) obj_Digest) (\<lambda>(d, m). Inr d) = Inr (md5_spec ?x)"
    using assms by (intro obj_Digest_first) (auto simp: md5_mem_ok_def)
  then have "rbind (md5_new mem ?x) (\<lambda>md5. rbind (obj_Digest md5) (\<lambda>(d, _). Inr (map char_of_byte d))) = Inr (map char_of_byte (md5_spec ?x))"
    by (auto simp: rbind_Inr_iff)
  then show ?thesis using assms by (simp add: MD5_of_def digest_of_def blk_def)
qed

lemma strncmp_equal_cstr:
  "n \<le> length a \<Longrightarrow> n \<le> length b \<Longrightarrow>
    strncmp_equal n a b = Inr (cstr (take n a) = cstr (take n b))"
proof (induction n a b rule: strncmp_equal.induct)
  case (2 n a as b bs)
  then show ?case by (auto simp: cstr_Cons)
qed auto

text \<open>The block holds the body and has room for the signature.\<close>

definition body_ok :: "net_message \<Rightarrow> bool" where
  "body_ok m \<longleftrightarrow> 0 \<le> nm_length m \<and> nm_length m + 16 \<le> int (length (nm_content m)) \<and>
     nm_length m + int HEADER_SIZE + 16 \<le> MAX_MSG_PACKET_SIZE"

definition body :: "net_message \<Rightarrow> char list" where
  "body m = take (nat (nm_length m)) (nm_content m)"

lemma SetContent_ok:
  assumes "0 \<le> n" "n + int HEADER_SIZE + 16 \<le> MAX_MSG_PACKET_SIZE" "nat n \<le> length content"
    "1024 \<le> length (nm_content m)"
  shows "\<exists>m'. SetContent old content n m = Inr m' \<and> body_ok m' \<and> body m' = take (nat n) content \<and> nm_length m' = n \<and>
    m' = m\<lparr>nm_content := nm_content m', nm_length := n\<rparr> \<and>
    nm_content m' = take (nat n) content @ drop (nat n) (nm_content m')"
proof -
  let ?bl = "if n + 16 > MAX_RECV_MSG_CONTENT_SIZE
            then take (nat (n + 16)) (nm_content m) @ junk old (nat (n + 16) - length (nm_content m)) else nm_content m"
  have c: "c_int (n + int HEADER_SIZE + 16) = Inr (n + int HEADER_SIZE + 16)"
    using assms by (intro c_int_ok) (auto simp: MAX_MSG_PACKET_SIZE_def HEADER_SIZE_def)
  have l: "n + 16 \<le> int (length ?bl)"
    using assms by (auto simp: MAX_RECV_MSG_CONTENT_SIZE_def)
  have mv: "SafeMemmove 0 n content n ?bl = Inr (0, put (nat 0) (take (nat n) content) ?bl)"
    using assms l by (intro SafeMemmove_ok) (auto simp: MAX_MSG_PACKET_SIZE_def HEADER_SIZE_def)
  let ?m = "m\<lparr>nm_content := put 0 (take (nat n) content) ?bl, nm_length := n\<rparr>"
  have eq: "SetContent old content n m = Inr ?m"
    unfolding SetContent_def c using assms mv by (simp add: Let_def)
  have pre: "take (nat n) (put 0 (take (nat n) content) ?bl) = take (nat n) content"
    using assms by (simp add: put_def)
  have "body_ok ?m" using l assms by (simp add: body_ok_def)
  moreover have "body ?m = take (nat n) content" using pre by (simp add: body_def)
  moreover have "nm_content ?m = take (nat n) content @ drop (nat n) (nm_content ?m)"
    using append_take_drop_id [of "nat n" "put 0 (take (nat n) content) ?bl"] pre by simp
  ultimately show ?thesis by (intro exI [of _ ?m]) (simp add: eq)
qed

lemma EncryptMessage_ok:
  assumes "md5_mem_ok mem" "body_ok m" "nm_security m"
  shows "EncryptMessage mem m = Inr (m\<lparr>nm_length := nm_length m + 16,
      nm_content := put (nat (nm_length m)) (digest_of (body m)) (nm_content m)\<rparr>)"
proof -
  have b: "0 \<le> nm_length m" "nm_length m + 16 \<le> int (length (nm_content m))" "nm_length m + 42 \<le> 65536"
    using assms(2) by (simp_all add: body_ok_def MAX_MSG_PACKET_SIZE_def HEADER_SIZE_def)
  have d: "MD5_of mem (nm_content m) (nm_length m) = Inr (digest_of (body m))"
    using MD5_of_ok [OF assms(1), of "nm_length m" "nm_content m"] b by (simp add: body_def)
  have mv: "SafeMemmove (nm_length m) (MAX_MSG_PACKET_SIZE - nm_length m) (digest_of (body m)) 16 (nm_content m) =
      Inr (0, put (nat (nm_length m)) (take (nat 16) (digest_of (body m))) (nm_content m))"
    using b by (intro SafeMemmove_ok) (auto simp: MAX_MSG_PACKET_SIZE_def)
  have le: "\<not> nm_length m + 16 > MAX_MSG_PACKET_SIZE" using b by (simp add: MAX_MSG_PACKET_SIZE_def)
  show ?thesis
    unfolding EncryptMessage_def using assms(3) le by (simp add: d mv)
qed

lemma encrypted_body:
  assumes "md5_mem_ok mem" "body_ok m"
  shows "\<exists>m'. EncryptMessage mem m = Inr m' \<and> nm_length m' \<le> int (length (nm_content m')) \<and> 0 \<le> nm_length m' \<and>
    nm_length m' + int HEADER_SIZE \<le> MAX_MSG_PACKET_SIZE \<and>
    body m' = body m @ (if nm_security m then digest_of (body m) else []) \<and>
    m' = m\<lparr>nm_length := nm_length m', nm_content := nm_content m'\<rparr>"
proof (cases "nm_security m")
  case True
  have b: "0 \<le> nm_length m" "nm_length m + 16 \<le> int (length (nm_content m))" "nm_length m + int HEADER_SIZE + 16 \<le> MAX_MSG_PACKET_SIZE"
    using assms(2) by (simp_all add: body_ok_def)
  have "take (nat (nm_length m + 16)) (put (nat (nm_length m)) (digest_of (body m)) (nm_content m)) =
      body m @ digest_of (body m)"
    using b by (simp add: put_def body_def min_def nat_add_distrib)
  with b True EncryptMessage_ok [OF assms True] show ?thesis
    by (auto simp: body_def)
next
  case False
  with assms(2) show ?thesis by (auto simp: EncryptMessage_def body_ok_def)
qed

lemma UnEncryptMessage_secure:
  assumes "md5_mem_ok mem" "nm_security m" "16 \<le> nm_length m" "nm_length m \<le> int (length (nm_content m))"
    "19 \<le> length (nm_content m)" "nm_length m < 2 ^ 31"
  shows "UnEncryptMessage mem m =
    (let n = nat (nm_length m - 16); same = (cstr (digest_of (take n (nm_content m))) = cstr (blk n 16 (nm_content m)))
     in Inr (same, if same then m\<lparr>nm_length := nm_length m - 16\<rparr> else m))"
proof -
  let ?n = "nm_length m - 16"
  have n: "0 \<le> ?n" "nat ?n + 16 \<le> length (nm_content m)" "?n < 2 ^ 32 - 63" using assms by auto
  have c: "c_int ?n = Inr ?n" using assms by (intro c_int_ok) auto
  have d: "MD5_of mem (nm_content m) ?n = Inr (digest_of (take (nat ?n) (nm_content m)))"
    using n by (intro MD5_of_ok assms) auto
  have mv: "SafeMemmove 0 32 (drop 3 (nm_content m)) 16 (replicate 32 NUL) =
      Inr (0, put (nat 0) (take (nat 16) (drop 3 (nm_content m))) (replicate 32 NUL))"
    using assms by (intro SafeMemmove_ok) auto
  have s: "strncmp_equal 16 (digest_of (take (nat ?n) (nm_content m))) (drop (nat ?n) (nm_content m)) =
      Inr (cstr (digest_of (take (nat ?n) (nm_content m))) = cstr (blk (nat ?n) 16 (nm_content m)))"
    using n strncmp_equal_cstr [of 16 "digest_of (take (nat ?n) (nm_content m))" "drop (nat ?n) (nm_content m)"]
    by (simp add: blk_def)
  show ?thesis
    unfolding UnEncryptMessage_def using assms(2) by (simp add: c d mv s Let_def)
qed

text \<open>
  C30. A message that was signed passes the check and comes out as it was: the same body, the same
  length, whatever the rest of its block holds.
\<close>

theorem message_signature_roundtrip:
  assumes "md5_mem_ok mem" "md5_mem_ok mem'" "body_ok m" "nm_security m" "19 \<le> length (nm_content m)"
  shows "\<exists>m1 m2. EncryptMessage mem m = Inr m1 \<and> UnEncryptMessage mem' m1 = Inr (True, m2) \<and>
    nm_length m1 = nm_length m + 16 \<and> nm_length m2 = nm_length m \<and> body m2 = body m"
proof -
  let ?n = "nat (nm_length m)" and ?d = "digest_of (body m)"
  let ?m1 = "m\<lparr>nm_length := nm_length m + 16, nm_content := put ?n ?d (nm_content m)\<rparr>"
  have b: "0 \<le> nm_length m" "nm_length m + 16 \<le> int (length (nm_content m))" "nm_length m + 42 \<le> 65536"
    using assms(3) by (simp_all add: body_ok_def MAX_MSG_PACKET_SIZE_def HEADER_SIZE_def)
  have fit: "?n + length ?d \<le> length (nm_content m)" using b by simp
  have t: "take ?n (put ?n ?d (nm_content m)) = body m"
    using b by (simp add: body_def put_def)
  have d: "blk ?n 16 (put ?n ?d (nm_content m)) = ?d"
    using blk_put_same [OF fit] by simp
  have l: "length (put ?n ?d (nm_content m)) = length (nm_content m)"
    using length_put fit by simp
  have "UnEncryptMessage mem' ?m1 = Inr (True, ?m1\<lparr>nm_length := nm_length m\<rparr>)"
    using UnEncryptMessage_secure [of mem' ?m1] assms b by (simp add: Let_def t d l)
  then show ?thesis
    using EncryptMessage_ok [OF assms(1,3,4)] t by (simp add: body_def)
qed

definition signed_message :: net_message where
  "signed_message = (Message_plain (\<lambda>_. CHR ''x''))\<lparr>nm_security := True, nm_length := 2\<rparr>"

theorem message_signature_roundtrip_witness:
  "\<exists>m1 m2. EncryptMessage blank_md5 signed_message = Inr m1 \<and> UnEncryptMessage blank_md5 m1 = Inr (True, m2) \<and>
    nm_length m1 = nm_length signed_message + 16 \<and> nm_length m2 = nm_length signed_message \<and>
    body m2 = body signed_message"
  by (rule message_signature_roundtrip)
    (simp_all add: md5_mem_ok_def blank_md5_def body_ok_def signed_message_def Message_plain_def
      MAX_RECV_MSG_CONTENT_SIZE_def MAX_MSG_PACKET_SIZE_def HEADER_SIZE_def)

text \<open>
  C32. The signature is compared as a C string: the check looks at the two digests only up to the
  first zero byte. For every body whose digest starts with a zero byte, and every signature that starts with
  one, the message is accepted; the 15 other bytes of the signature may be anything.
\<close>

theorem message_signature_stops_at_zero:
  assumes "md5_mem_ok mem" "nm_security m" "nm_length m < 2 ^ 31" "nm_length m = int (length b) + 16"
    and "nm_content m = b @ NUL # rest" "18 \<le> length rest" "digest_of b ! 0 = NUL"
  shows "UnEncryptMessage mem m = Inr (True, m\<lparr>nm_length := int (length b)\<rparr>)"
proof -
  obtain ds where d: "digest_of b = NUL # ds"
    using assms(7) length_digest_of [of b] by (cases "digest_of b") auto
  have n: "nat (nm_length m - 16) = length b" by (simp add: assms(4))
  have c: "take (length b) (nm_content m) = b" "blk (length b) 16 (nm_content m) = NUL # take 15 rest"
    using assms(5,6) by (simp_all add: blk_def take_Cons')
  have "UnEncryptMessage mem m =
    (let n = nat (nm_length m - 16); same = (cstr (digest_of (take n (nm_content m))) = cstr (blk n 16 (nm_content m)))
     in Inr (same, if same then m\<lparr>nm_length := nm_length m - 16\<rparr> else m))"
    by (rule UnEncryptMessage_secure [OF assms(1,2)]) (use assms(3-6) in simp_all)
  then show ?thesis
    unfolding n c d Let_def by (simp add: cstr_Cons assms(4))
qed

lemma digest_starts_with_0: "rbind (MD5Update (MD5Init (\<lambda>_. 0)) (map byte_of_char ''mj'')) MD5Final =
    Inr (map byte_of_char (digest_of ''mj''))"
  using md5_incremental_one [of "map byte_of_char ''mj''" "\<lambda>_. 0"] by (simp add: digest_of_def comp_def)

lemma digest_starts_with_NUL: "digest_of ''mj'' ! 0 = NUL"
proof -
  have "(case rbind (MD5Update (MD5Init (\<lambda>_. 0)) (map byte_of_char ''mj'')) MD5Final of Inr d \<Rightarrow> d ! 0 = 0 | _ \<Rightarrow> False)"
    by code_simp
  then have "map byte_of_char (digest_of ''mj'') ! 0 = 0" unfolding digest_starts_with_0 by simp
  then have "byte_of_char (digest_of ''mj'' ! 0) = 0" using length_digest_of [of "''mj''"] by simp
  then show ?thesis by (metis char_of_byte_of_char char_of_byte_0)
qed

theorem message_signature_stops_at_zero_witness:
  "UnEncryptMessage blank_md5 (signed_message\<lparr>nm_content := ''mj'' @ NUL # replicate 1005 CHR ''?'', nm_length := 18\<rparr>) =
    Inr (True, signed_message\<lparr>nm_content := ''mj'' @ NUL # replicate 1005 CHR ''?'', nm_length := 2\<rparr>)"
  using message_signature_stops_at_zero [of blank_md5
    "signed_message\<lparr>nm_content := ''mj'' @ NUL # replicate 1005 CHR ''?'', nm_length := 18\<rparr>" "''mj''" "replicate 1005 CHR ''?''"]
    digest_starts_with_NUL
  by (simp add: md5_mem_ok_def blank_md5_def signed_message_def)

end
