(* ===== verification/ByteOutlet.thy ===== *)
theory ByteOutlet
  imports Prelude
begin

text \<open>
  The contract of the send buffers: items are written as a whole or refused, the bytes leave in
  the order they were written, and the reader takes as much of what it is offered as it can use.
\<close>

datatype 'x outlet_op = Put 'x | Take nat

text \<open>A run: the items that were accepted, the bytes that left, the buffer at the end.\<close>

primrec outlet_step ::
  "('x \<Rightarrow> 'b \<Rightarrow> fault + int \<times> 'b) \<Rightarrow> ('b \<Rightarrow> char list \<times> 'b) \<Rightarrow> (nat \<Rightarrow> 'b \<Rightarrow> 'b) \<Rightarrow> 'x outlet_op \<Rightarrow> 'b \<Rightarrow>
   fault + 'x list \<times> char list \<times> 'b" where
  "outlet_step write_op offer took (Put x) b = rbind (write_op x b) (\<lambda>(r, b). Inr (if r = 0 then [x] else [], [], b))"
| "outlet_step write_op offer took (Take n) b =
     (let (bs, b) = offer b; k = min n (length bs) in Inr ([], take k bs, took k b))"

primrec outlet_run ::
  "('x \<Rightarrow> 'b \<Rightarrow> fault + int \<times> 'b) \<Rightarrow> ('b \<Rightarrow> char list \<times> 'b) \<Rightarrow> (nat \<Rightarrow> 'b \<Rightarrow> 'b) \<Rightarrow> 'x outlet_op list \<Rightarrow> 'b \<Rightarrow>
   fault + 'x list \<times> char list \<times> 'b" where
  "outlet_run write_op offer took [] b = Inr ([], [], b)"
| "outlet_run write_op offer took (p # ps) b =
     rbind (outlet_step write_op offer took p b) (\<lambda>(a1, o1, b).
       rbind (outlet_run write_op offer took ps b) (\<lambda>(a2, o2, b). Inr (a1 @ a2, o1 @ o2, b)))"

primrec outlet_valid :: "('x \<Rightarrow> bool) \<Rightarrow> 'x outlet_op \<Rightarrow> bool" where
  "outlet_valid valid (Put x) = valid x"
| "outlet_valid valid (Take n) = True"

locale byte_outlet =
  fixes write_op :: "'x \<Rightarrow> 'b \<Rightarrow> fault + int \<times> 'b"
    and offer :: "'b \<Rightarrow> char list \<times> 'b"
    and took :: "nat \<Rightarrow> 'b \<Rightarrow> 'b"
    and image :: "'x \<Rightarrow> char list"
    and valid :: "'x \<Rightarrow> bool"
    and inv :: "'b \<Rightarrow> bool"
    and contents :: "'b \<Rightarrow> char list"
  assumes write_ok: "inv b \<Longrightarrow> valid x \<Longrightarrow>
      \<exists>r b'. write_op x b = Inr (r, b') \<and> inv b' \<and> contents b' = contents b @ (if r = 0 then image x else [])"
    and offer_ok: "inv b \<Longrightarrow> offer b = (bs, b') \<Longrightarrow> n \<le> length bs \<Longrightarrow>
      inv (took n b') \<and> take n bs @ contents (took n b') = contents b"
    and offer_some: "inv b \<Longrightarrow> offer b = ([], b') \<Longrightarrow> contents b = []"
begin

lemma step_stream:
  assumes "inv b" "outlet_valid valid p"
  shows "\<exists>acc out b'. outlet_step write_op offer took p b = Inr (acc, out, b') \<and> inv b' \<and>
    out @ contents b' = contents b @ concat (map image acc)"
proof (cases p)
  case (Put x)
  then show ?thesis using write_ok [of b x] assms by auto
next
  case (Take n)
  obtain bs b' where "offer b = (bs, b')" by fastforce
  then show ?thesis using offer_ok [of b bs b' "min n (length bs)"] assms by (auto simp: Take Let_def)
qed

lemma run_stream:
  assumes "inv b" "list_all (outlet_valid valid) ps"
  shows "\<exists>acc out b'. outlet_run write_op offer took ps b = Inr (acc, out, b') \<and> inv b' \<and>
    out @ contents b' = contents b @ concat (map image acc)"
  using assms
proof (induction ps arbitrary: b)
  case (Cons p ps)
  obtain a1 o1 b1 where s: "outlet_step write_op offer took p b = Inr (a1, o1, b1)" "inv b1"
    "o1 @ contents b1 = contents b @ concat (map image a1)"
    using step_stream [of b p] Cons.prems by auto
  moreover obtain a2 o2 b2 where "outlet_run write_op offer took ps b1 = Inr (a2, o2, b2)" "inv b2"
    "o2 @ contents b2 = contents b1 @ concat (map image a2)"
    using Cons.IH [of b1] Cons.prems s by auto
  ultimately show ?case by (simp add: append_assoc [symmetric] del: append_assoc) simp
qed simp

text \<open>Taking what is offered until nothing is left empties the buffer.\<close>

lemma drained:
  assumes "inv b" "offer b = (bs, b')" "contents b \<noteq> []"
  shows "length (contents (took (length bs) b')) < length (contents b)"
proof -
  have "bs \<noteq> []" using offer_some assms by blast
  moreover have "bs @ contents (took (length bs) b') = contents b"
    using offer_ok [OF assms(1,2), of "length bs"] by simp
  ultimately show ?thesis
    using arg_cong [of _ _ length] by (metis length_append length_greater_0_conv less_add_same_cancel2)
qed

end

end
