(* ===== verification/CircleBuffer.thy ===== *)
theory CircleBuffer
  imports PacketHeader ByteOutlet
begin

text \<open>
  \<open>CommBase/Network/CircleBuffer.h\<close> and \<open>CircleBuffer.cpp\<close>: the buffer of the bytes a session
  still has to send. Indices are C \<open>int\<close>s; capacities are at most 1 MiB, so they do not overflow.
  Log lines are left out.
\<close>

section \<open>State and operations\<close>

record circle_buff =
  cb_read :: int
  cb_write :: int
  cb_last :: int
  cb_capacity :: int
  cb_buffer :: "char list"

definition cb_Reset :: "circle_buff \<Rightarrow> circle_buff" where
  "cb_Reset b = b\<lparr>cb_read := 0, cb_write := 0, cb_last := cb_capacity b\<rparr>"

text \<open>\<open>old\<close> is what the new block holds.\<close>

definition CCircleBuff :: "(nat \<Rightarrow> char) \<Rightarrow> int \<Rightarrow> circle_buff" where
  "CCircleBuff old buffSize = cb_Reset \<lparr>cb_read = 0, cb_write = 0, cb_last = 0, cb_capacity = buffSize,
     cb_buffer = junk old (nat buffSize)\<rparr>"

definition ResetSize :: "(nat \<Rightarrow> char) \<Rightarrow> int \<Rightarrow> circle_buff \<Rightarrow> circle_buff" where
  "ResetSize old buffSize b = cb_Reset (b\<lparr>cb_capacity := buffSize,
     cb_buffer := take (nat buffSize) (cb_buffer b) @ junk old (nat buffSize - length (cb_buffer b))\<rparr>)"

definition IsEmpty :: "circle_buff \<Rightarrow> bool" where
  "IsEmpty b = (cb_read b = cb_write b)"

definition IsNormal :: "circle_buff \<Rightarrow> bool" where
  "IsNormal b = (cb_read b \<le> cb_write b)"

definition GetReadLen :: "circle_buff \<Rightarrow> int" where
  "GetReadLen b = (if IsNormal b then cb_write b - cb_read b else cb_last b - cb_read b)"

definition GetLeftBuffSize :: "circle_buff \<Rightarrow> int" where
  "GetLeftBuffSize b = (if IsNormal b then cb_write b - cb_read b else cb_last b - cb_read b + cb_write b)"

definition GetWriteLen :: "circle_buff \<Rightarrow> int" where
  "GetWriteLen b = (if IsNormal b then cb_capacity b - cb_write b else cb_read b - cb_write b - 1)"

definition HadRead :: "int \<Rightarrow> circle_buff \<Rightarrow> circle_buff" where
  "HadRead readLen b = b\<lparr>cb_read := cb_read b + readLen\<rparr>"

definition HadWrite :: "int \<Rightarrow> circle_buff \<Rightarrow> circle_buff" where
  "HadWrite writeLen b = b\<lparr>cb_write := cb_write b + writeLen\<rparr>"

definition IsReadOverAgain :: "circle_buff \<Rightarrow> circle_buff" where
  "IsReadOverAgain b =
     (if IsNormal b then b
      else if cb_read b \<ge> cb_last b then b\<lparr>cb_read := 0, cb_last := cb_capacity b\<rparr> else b)"

definition IsWriteOverAgain :: "int \<Rightarrow> circle_buff \<Rightarrow> circle_buff" where
  "IsWriteOverAgain writeLen b =
     (if \<not> IsNormal b then b
      else if GetWriteLen b < writeLen \<and> cb_read b > 1 \<and> cb_read b \<le> cb_write b
      then b\<lparr>cb_last := cb_write b, cb_write := 0\<rparr> else b)"

text \<open>The result codes of \<open>E_NetWorkRet\<close> the buffer and the sessions return.\<close>

definition eNetSuccess :: int where "eNetSuccess = 0"
definition eCtlEpollErr :: int where "eCtlEpollErr = 10"
definition eNoEnughWrite :: int where "eNoEnughWrite = 14"
definition eWriteHeaderErr :: int where "eWriteHeaderErr = 15"
definition eWritePacketErr :: int where "eWritePacketErr = 16"
definition eWriteBuffErr :: int where "eWriteBuffErr = 17"
definition eBuffNULL :: int where "eBuffNULL = 18"

definition WriteData :: "char list \<Rightarrow> int \<Rightarrow> char list \<Rightarrow> int \<Rightarrow> circle_buff \<Rightarrow> fault + int \<times> circle_buff" where
  "WriteData strBuff nBuffLen pHead nHeadLen b =
     (let writeLen = nBuffLen + nHeadLen; b = IsWriteOverAgain writeLen b; spaceLen = GetWriteLen b
      in if spaceLen < writeLen then Inr (eNoEnughWrite, b)
      else rbind (SafeMemmove (cb_write b) spaceLen pHead nHeadLen (cb_buffer b)) (\<lambda>(res, buf).
        let b = b\<lparr>cb_buffer := buf\<rparr> in
        if res \<noteq> eNetSuccess then Inr (eWriteHeaderErr, b)
        else rbind (SafeMemmove (cb_write b + nHeadLen) (spaceLen - nHeadLen) strBuff nBuffLen (cb_buffer b)) (\<lambda>(res, buf).
          let b = b\<lparr>cb_buffer := buf\<rparr> in
          if res \<noteq> eNetSuccess then Inr (eWritePacketErr, b)
          else Inr (eNetSuccess, HadWrite writeLen b))))"

definition WriteSend :: "bool \<Rightarrow> char list \<Rightarrow> packet_header \<Rightarrow> circle_buff \<Rightarrow> fault + int \<times> circle_buff" where
  "WriteSend be strBuff gh b =
     (let len = (if ph_remoteType gh \<le> 0 then sint (htonl be (ph_length gh)) else sint (ph_length gh))
      in WriteData strBuff len (header_image be gh) (int HEADER_SIZE) b)"

definition WriteBuffer :: "char list \<Rightarrow> int \<Rightarrow> circle_buff \<Rightarrow> fault + int \<times> circle_buff" where
  "WriteBuffer strBuff buffLen b =
     (let b = IsWriteOverAgain buffLen b; spaceLen = GetWriteLen b
      in if spaceLen < buffLen then Inr (eNoEnughWrite, b)
      else rbind (SafeMemmove (cb_write b) spaceLen strBuff buffLen (cb_buffer b)) (\<lambda>(res, buf).
        let b = b\<lparr>cb_buffer := buf\<rparr> in
        if res \<noteq> eNetSuccess then Inr (eWriteBuffErr, b) else Inr (eNetSuccess, HadWrite buffLen b)))"

text \<open>The code, and the place and the number of the bytes that can be sent at once.\<close>

definition ReadSendBuff :: "circle_buff \<Rightarrow> int \<times> (int \<times> int) option \<times> circle_buff" where
  "ReadSendBuff b =
     (let b = IsReadOverAgain b in
      if IsEmpty b then (eBuffNULL, None, b) else (eNetSuccess, Some (cb_read b, GetReadLen b), b))"

section \<open>Contents and invariant\<close>

definition cb_ok :: "circle_buff \<Rightarrow> bool" where
  "cb_ok b \<longleftrightarrow> 0 \<le> cb_read b \<and> 0 \<le> cb_write b \<and> cb_read b \<le> cb_last b \<and> cb_last b \<le> cb_capacity b \<and>
     cb_write b \<le> cb_capacity b \<and> cb_capacity b < 2 ^ 31 \<and> length (cb_buffer b) = nat (cb_capacity b) \<and>
     (cb_read b \<le> cb_write b \<longrightarrow> cb_last b = cb_capacity b)"

definition pending :: "circle_buff \<Rightarrow> char list" where
  "pending b =
     (if cb_read b \<le> cb_write b then blk (nat (cb_read b)) (nat (cb_write b - cb_read b)) (cb_buffer b)
      else blk (nat (cb_read b)) (nat (cb_last b - cb_read b)) (cb_buffer b) @ blk 0 (nat (cb_write b)) (cb_buffer b))"

lemma length_pending: "cb_ok b \<Longrightarrow> int (length (pending b)) = GetLeftBuffSize b"
  by (auto simp: cb_ok_def pending_def GetLeftBuffSize_def IsNormal_def)

lemma cb_new_ok:
  "0 \<le> n \<Longrightarrow> n < 2 ^ 31 \<Longrightarrow> cb_ok (CCircleBuff old n) \<and> pending (CCircleBuff old n) = []"
  by (simp add: cb_ok_def pending_def CCircleBuff_def cb_Reset_def)

lemma ResetSize_ok:
  "0 \<le> n \<Longrightarrow> n < 2 ^ 31 \<Longrightarrow> cb_ok (ResetSize old n b) \<and> pending (ResetSize old n b) = []"
  by (auto simp: cb_ok_def pending_def ResetSize_def cb_Reset_def min_def)

lemma wrap_write_ok:
  assumes "cb_ok b" shows "cb_ok (IsWriteOverAgain n b)" "pending (IsWriteOverAgain n b) = pending b"
    "cb_capacity (IsWriteOverAgain n b) = cb_capacity b"
  using assms by (auto simp: IsWriteOverAgain_def cb_ok_def pending_def IsNormal_def)

lemma wrap_read_ok:
  assumes "cb_ok b" shows "cb_ok (IsReadOverAgain b)" "pending (IsReadOverAgain b) = pending b"
    "cb_capacity (IsReadOverAgain b) = cb_capacity b"
  using assms by (auto simp: IsReadOverAgain_def cb_ok_def pending_def IsNormal_def)

lemma put_pending:
  assumes "cb_ok b" "int (length xs) \<le> GetWriteLen b"
  shows "cb_ok (HadWrite (int (length xs)) (b\<lparr>cb_buffer := put (nat (cb_write b)) xs (cb_buffer b)\<rparr>)) \<and>
    pending (HadWrite (int (length xs)) (b\<lparr>cb_buffer := put (nat (cb_write b)) xs (cb_buffer b)\<rparr>)) = pending b @ xs"
proof -
  let ?r = "nat (cb_read b)" and ?w = "nat (cb_write b)" and ?m = "cb_buffer b" and ?l = "nat (cb_last b)"
  have b: "?w + length xs \<le> length ?m" "?r \<le> ?l" "?l \<le> length ?m" "0 \<le> cb_read b" "0 \<le> cb_write b"
    using assms by (auto simp: cb_ok_def GetWriteLen_def IsNormal_def split: if_splits)
  have same: "blk ?w (length xs) (put ?w xs ?m) = xs" using b by (intro blk_put_same)
  show ?thesis
  proof (cases "cb_read b \<le> cb_write b")
    case True
    have "blk ?r (?w - ?r + length xs) (put ?w xs ?m) = blk ?r (?w - ?r) ?m @ xs"
      using b True same by (simp only: blk_append_split) (simp add: blk_put_below)
    moreover have "nat (cb_write b + int (length xs) - cb_read b) = ?w - ?r + length xs"
      using True b by simp
    moreover have "nat (cb_write b - cb_read b) = ?w - ?r" using b by simp
    ultimately show ?thesis
      using True b assms by (auto simp: cb_ok_def pending_def HadWrite_def GetWriteLen_def IsNormal_def)
  next
    case False
    have "blk 0 (?w + length xs) (put ?w xs ?m) = blk 0 ?w ?m @ xs"
      using b same by (simp only: blk_append_split) (simp add: blk_put_below)
    moreover have "blk ?r n (put ?w xs ?m) = blk ?r n ?m" for n
      using False b assms by (intro blk_put_above) (auto simp: GetWriteLen_def IsNormal_def)
    ultimately show ?thesis
      using False b assms by (auto simp: cb_ok_def pending_def HadWrite_def GetWriteLen_def IsNormal_def nat_add_distrib)
  qed
qed

section \<open>Writing and reading\<close>

text \<open>When \<open>n\<close> bytes can be written: behind the written ones, or in front of those still to read.\<close>

definition room :: "int \<Rightarrow> circle_buff \<Rightarrow> bool" where
  "room n b = (if cb_read b \<le> cb_write b then n \<le> cb_capacity b - cb_write b \<or> 1 < cb_read b \<and> n \<le> cb_read b - 1
     else n \<le> cb_read b - cb_write b - 1)"

lemma room_wrap:
  "cb_ok b \<Longrightarrow> 0 \<le> n \<Longrightarrow> (n \<le> GetWriteLen (IsWriteOverAgain n b)) = room n b"
  by (auto simp: cb_ok_def room_def GetWriteLen_def IsWriteOverAgain_def IsNormal_def)

lemma write_len_bounds:
  "cb_ok b \<Longrightarrow> GetWriteLen b < 2 ^ 32 \<and> cb_write b + GetWriteLen b \<le> int (length (cb_buffer b)) \<and>
     0 \<le> GetWriteLen b \<and> 0 \<le> cb_write b"
  by (auto simp: cb_ok_def GetWriteLen_def IsNormal_def)

lemma WriteBuffer_ok:
  assumes "cb_ok b" "0 \<le> n" "n \<le> int (length strBuff)"
  shows "\<exists>b'. WriteBuffer strBuff n b = Inr (if room n b then eNetSuccess else eNoEnughWrite, b') \<and> cb_ok b' \<and>
    pending b' = (if room n b then pending b @ take (nat n) strBuff else pending b) \<and> cb_capacity b' = cb_capacity b"
proof -
  let ?b = "IsWriteOverAgain n b"
  note wrap = wrap_write_ok [OF assms(1), of n]
  note bounds = write_len_bounds [OF wrap(1)]
  show ?thesis
  proof (cases "room n b")
    case True
    then have fits: "n \<le> GetWriteLen ?b" using room_wrap assms(1,2) by blast
    have mv: "SafeMemmove (cb_write ?b) (GetWriteLen ?b) strBuff n (cb_buffer ?b) =
        Inr (0, put (nat (cb_write ?b)) (take (nat n) strBuff) (cb_buffer ?b))"
      using bounds fits assms by (intro SafeMemmove_ok) auto
    show ?thesis
      using put_pending [OF wrap(1), of "take (nat n) strBuff"] fits assms True mv wrap
      by (simp add: WriteBuffer_def Let_def eNetSuccess_def HadWrite_def)
  next
    case False
    then have "\<not> n \<le> GetWriteLen ?b" using room_wrap assms(1,2) by blast
    with wrap False show ?thesis by (simp add: WriteBuffer_def Let_def)
  qed
qed

lemma WriteData_ok:
  assumes "cb_ok b" "0 \<le> n" "n \<le> int (length strBuff)" and k: "k = n + int (length hdr)"
  shows "\<exists>b'. WriteData strBuff n hdr (int (length hdr)) b = Inr (if room k b then eNetSuccess else eNoEnughWrite, b') \<and>
    cb_ok b' \<and> pending b' = (if room k b then pending b @ hdr @ take (nat n) strBuff else pending b) \<and>
    cb_capacity b' = cb_capacity b"
proof -
  let ?b = "IsWriteOverAgain k b" and ?h = "int (length hdr)"
  note wrap = wrap_write_ok [OF assms(1), of k]
  note bounds = write_len_bounds [OF wrap(1)]
  show ?thesis
  proof (cases "room k b")
    case True
    then have fits: "k \<le> GetWriteLen ?b" using room_wrap assms by auto
    have mv1: "SafeMemmove (cb_write ?b) (GetWriteLen ?b) hdr ?h (cb_buffer ?b) =
        Inr (0, put (nat (cb_write ?b)) (take (nat ?h) hdr) (cb_buffer ?b))"
      using bounds fits assms by (intro SafeMemmove_ok) auto
    have mv2: "SafeMemmove (cb_write ?b + ?h) (GetWriteLen ?b - ?h) strBuff n (put (nat (cb_write ?b)) hdr (cb_buffer ?b)) =
        Inr (0, put (nat (cb_write ?b + ?h)) (take (nat n) strBuff) (put (nat (cb_write ?b)) hdr (cb_buffer ?b)))"
      using bounds fits assms by (intro SafeMemmove_ok) auto
    have app: "put (nat (cb_write ?b + ?h)) (take (nat n) strBuff) (put (nat (cb_write ?b)) hdr (cb_buffer ?b)) =
        put (nat (cb_write ?b)) (hdr @ take (nat n) strBuff) (cb_buffer ?b)"
    proof -
      have fit: "nat (cb_write ?b) + length hdr + length (take (nat n) strBuff) \<le> length (cb_buffer ?b)"
        using bounds fits assms by (simp add: min_def, linarith)
      show ?thesis using put_put_append [OF fit] bounds by (simp add: nat_add_distrib)
    qed
    have len: "int (length (hdr @ take (nat n) strBuff)) = k" using assms by simp
    show ?thesis
      using put_pending [OF wrap(1), of "hdr @ take (nat n) strBuff", unfolded len] fits True mv1 mv2 wrap
      by (simp add: WriteData_def Let_def k [symmetric] eNetSuccess_def app HadWrite_def)
  next
    case False
    then have "\<not> k \<le> GetWriteLen ?b" using room_wrap assms by auto
    with wrap False show ?thesis by (simp add: WriteData_def Let_def k [symmetric])
  qed
qed

text \<open>What \<open>ReadSendBuff\<close> lets the caller see.\<close>

definition cb_offer :: "circle_buff \<Rightarrow> char list \<times> circle_buff" where
  "cb_offer b = (case ReadSendBuff b of (res, at, b) \<Rightarrow>
     (case at of None \<Rightarrow> [] | Some (i, n) \<Rightarrow> blk (nat i) (nat n) (cb_buffer b), b))"

lemma cb_offer_ok:
  assumes "cb_ok b" "cb_offer b = (bs, b')"
  shows "cb_ok b'" "pending b' = pending b" "bs = take (length bs) (pending b)" "bs = [] \<Longrightarrow> pending b = []"
    "n \<le> length bs \<Longrightarrow> cb_ok (HadRead (int n) b') \<and> pending (HadRead (int n) b') = drop n (pending b)"
    "cb_capacity b' = cb_capacity b"
proof -
  note rd = wrap_read_ok [OF assms(1)]
  have b': "b' = IsReadOverAgain b" and bs: "bs = (if IsEmpty b' then [] else blk (nat (cb_read b')) (nat (GetReadLen b')) (cb_buffer b'))"
    using assms(2) by (auto simp: cb_offer_def ReadSendBuff_def Let_def split: if_splits)
  have lt: "\<not> cb_read b' \<le> cb_write b' \<Longrightarrow> cb_read b' < cb_last b'"
    using rd(1) by (auto simp: b' IsReadOverAgain_def IsNormal_def cb_ok_def split: if_splits)
  show ok: "cb_ok b'" "pending b' = pending b" "cb_capacity b' = cb_capacity b" using rd by (simp_all add: b')
  have f: "0 \<le> cb_read b'" "0 \<le> cb_write b'" "cb_read b' \<le> cb_last b'" "nat (cb_last b') \<le> length (cb_buffer b')"
      "nat (cb_write b') \<le> length (cb_buffer b')"
    using ok(1) by (auto simp: cb_ok_def)
  show "bs = [] \<Longrightarrow> pending b = []"
    using f lt unfolding ok(2) [symmetric]
    by (auto simp: bs pending_def IsEmpty_def GetReadLen_def IsNormal_def blk_def split: if_splits)
  show "bs = take (length bs) (pending b)"
    using f unfolding ok(2) [symmetric]
    by (auto simp: bs pending_def IsEmpty_def GetReadLen_def IsNormal_def)
  assume n: "n \<le> length bs"
  have dr: "drop n (blk i m xs) = blk (i + n) (m - n) xs" for i m and xs :: "char list"
    by (simp add: blk_def drop_take add.commute)
  show "cb_ok (HadRead (int n) b') \<and> pending (HadRead (int n) b') = drop n (pending b)"
  proof (cases "cb_read b' \<le> cb_write b'")
    case True
    then have "int n \<le> cb_write b' - cb_read b'"
      using n f by (auto simp: bs GetReadLen_def IsNormal_def split: if_splits)
    then show ?thesis
      using True f ok unfolding ok(2) [symmetric]
      by (auto simp: cb_ok_def pending_def HadRead_def dr nat_add_distrib nat_diff_distrib)
  next
    case False
    then have "int n \<le> cb_last b' - cb_read b'"
      using n f by (auto simp: bs GetReadLen_def IsNormal_def IsEmpty_def split: if_splits)
    then have le: "nat (cb_last b' - (cb_read b' + int n)) = nat (cb_last b' - cb_read b') - n"
      "nat (cb_read b' + int n) = nat (cb_read b') + n" "int n + cb_read b' \<le> cb_last b'"
      "n \<le> nat (cb_last b' - cb_read b')"
      using f by simp_all
    have p: "pending b = blk (nat (cb_read b')) (nat (cb_last b' - cb_read b')) (cb_buffer b') @
        blk 0 (nat (cb_write b')) (cb_buffer b')"
      unfolding ok(2) [symmetric] using False by (simp add: pending_def)
    have "pending (HadRead (int n) b') =
        blk (nat (cb_read b') + n) (nat (cb_last b' - cb_read b') - n) (cb_buffer b') @
        blk 0 (nat (cb_write b')) (cb_buffer b')"
      using False le by (simp add: pending_def HadRead_def)
    moreover have "nat (cb_last b' - cb_read b') \<le> length (cb_buffer b') - nat (cb_read b')"
      using f by simp
    ultimately have "pending (HadRead (int n) b') = drop n (pending b)"
      using le f unfolding p by (simp add: dr)
    moreover have "cb_ok (HadRead (int n) b')"
      using False le ok(1) by (simp add: cb_ok_def HadRead_def)
    ultimately show ?thesis by simp
  qed
qed

section \<open>The buffer is a stream of bytes\<close>

text \<open>What is written: raw bytes, or a header with the bytes at the address of its body.\<close>

datatype outgoing = RawBytes "char list" | Packet packet_header "char list"

definition body_length :: "bool \<Rightarrow> packet_header \<Rightarrow> int" where
  "body_length be gh = sint (if ph_remoteType gh = 0 then htonl be (ph_length gh) else ph_length gh)"

primrec cb_put :: "bool \<Rightarrow> outgoing \<Rightarrow> circle_buff \<Rightarrow> fault + int \<times> circle_buff" where
  "cb_put be (RawBytes s) b = WriteBuffer s (int (length s)) b"
| "cb_put be (Packet gh s) b = WriteSend be s gh b"

primrec out_bytes :: "bool \<Rightarrow> outgoing \<Rightarrow> char list" where
  "out_bytes be (RawBytes s) = s"
| "out_bytes be (Packet gh s) = header_image be gh @ take (nat (body_length be gh)) s"

primrec out_ok :: "bool \<Rightarrow> outgoing \<Rightarrow> bool" where
  "out_ok be (RawBytes s) = True"
| "out_ok be (Packet gh s) = (0 \<le> body_length be gh \<and> body_length be gh \<le> int (length s))"

definition cb_took :: "nat \<Rightarrow> circle_buff \<Rightarrow> circle_buff" where
  "cb_took n b = (if n = 0 then b else HadRead (int n) b)"

lemma WriteSend_body: "WriteSend be s gh b = WriteData s (body_length be gh) (header_image be gh) (int HEADER_SIZE) b"
  by (simp add: WriteSend_def body_length_def)

lemma cb_put_ok:
  assumes "cb_ok b" "out_ok be x"
  shows "\<exists>b'. cb_put be x b = Inr (if room (int (length (out_bytes be x))) b then 0 else eNoEnughWrite, b') \<and> cb_ok b' \<and>
    pending b' = pending b @ (if room (int (length (out_bytes be x))) b then out_bytes be x else []) \<and>
    cb_capacity b' = cb_capacity b"
proof (cases x)
  case (RawBytes s)
  then show ?thesis
    using WriteBuffer_ok [OF assms(1), of "int (length s)" s] by (auto simp: eNetSuccess_def)
next
  case (Packet gh s)
  then have bl: "0 \<le> body_length be gh" "body_length be gh \<le> int (length s)" using assms(2) by simp_all
  have len: "int (length (out_bytes be x)) = body_length be gh + int HEADER_SIZE"
    using bl by (simp add: Packet)
  have "\<exists>b'. WriteSend be s gh b =
      Inr (if room (body_length be gh + int HEADER_SIZE) b then eNetSuccess else eNoEnughWrite, b') \<and> cb_ok b' \<and>
    pending b' = (if room (body_length be gh + int HEADER_SIZE) b
      then pending b @ header_image be gh @ take (nat (body_length be gh)) s else pending b) \<and>
    cb_capacity b' = cb_capacity b"
    using WriteData_ok [OF assms(1) bl, of "body_length be gh + int (length (header_image be gh))" "header_image be gh"]
    unfolding WriteSend_body length_header_image by simp
  then show ?thesis unfolding len unfolding Packet by (auto simp: eNetSuccess_def)
qed

interpretation cb: byte_outlet "cb_put be" cb_offer cb_took "out_bytes be" "out_ok be" cb_ok pending
  for be
proof
  fix b x assume "cb_ok b" "out_ok be x"
  then obtain b' where b': "cb_put be x b = Inr (if room (int (length (out_bytes be x))) b then 0 else eNoEnughWrite, b')"
      "cb_ok b'" "pending b' = pending b @ (if room (int (length (out_bytes be x))) b then out_bytes be x else [])"
    using cb_put_ok by blast
  then show "\<exists>r b'. cb_put be x b = Inr (r, b') \<and> cb_ok b' \<and> pending b' = pending b @ (if r = 0 then out_bytes be x else [])"
    by (auto simp: eNoEnughWrite_def)
next
  fix b bs b' n assume b: "cb_ok b" "cb_offer b = (bs, b')" "n \<le> length bs"
  note of = cb_offer_ok [OF b(1,2)]
  have "take n bs = take n (pending b)" using of(3) b(3) by (metis min_absorb1 take_take)
  then show "cb_ok (cb_took n b') \<and> take n bs @ pending (cb_took n b') = pending b"
    using of(1,2) of(5) [OF b(3)] by (simp add: cb_took_def)
qed (use cb_offer_ok(4) in blast)

text \<open>
  C18. The send buffer of a session is a stream: whatever is written to it (packets with their
  header, or raw bytes) and however much of it the socket takes at a time, the bytes that left and
  the bytes still in the ring are, in order, those that were there at first and those of the writes
  that succeeded. A refused write leaves no byte behind, and no operation goes outside the ring.
\<close>

theorem circle_buffer_is_stream:
  assumes "cb_ok b" "list_all (outlet_valid (out_ok be)) ps"
  shows "\<exists>acc out b'. outlet_run (cb_put be) cb_offer cb_took ps b = Inr (acc, out, b') \<and> cb_ok b' \<and>
    out @ pending b' = pending b @ concat (map (out_bytes be) acc)"
  using assms by (rule cb.run_stream)

definition sample_packet :: packet_header where
  "sample_packet = sHeader\<lparr>ph_length := 3, ph_remoteType := 2\<rparr>"

theorem circle_buffer_is_stream_witness:
  "\<exists>acc out b'. outlet_run (cb_put False) cb_offer cb_took
      [Put (Packet sample_packet ''abc''), Take 20, Put (RawBytes ''0123456789''), Put (RawBytes ''0123456789ABCDEFG''), Take 40, Take 40]
      (CCircleBuff (\<lambda>_. CHR ''x'') 40) = Inr (acc, out, b') \<and> cb_ok b' \<and>
    out @ pending b' = pending (CCircleBuff (\<lambda>_. CHR ''x'') 40) @ concat (map (out_bytes False) acc)"
  by (rule circle_buffer_is_stream)
    (simp_all add: cb_new_ok body_length_def sample_packet_def sHeader_def)

text \<open>
  A write is refused only for lack of room: it succeeds exactly when its bytes fit behind the
  written ones or, when the reader has left the front of the ring, in front of those still to be
  read. An empty buffer takes every packet shorter than half its size, wherever its indices stand.
\<close>

theorem circle_buffer_write_room:
  assumes "cb_ok b" "out_ok be x" "n = int (length (out_bytes be x))"
  shows "(\<exists>b'. cb_put be x b = Inr (eNetSuccess, b')) = room n b \<and>
    (\<exists>b'. cb_put be x b = Inr (eNoEnughWrite, b')) = (\<not> room n b) \<and>
    (IsEmpty b \<and> 2 * n < cb_capacity b \<longrightarrow> room n b)"
proof -
  obtain b' where "cb_put be x b = Inr (if room n b then 0 else eNoEnughWrite, b')"
    using cb_put_ok [OF assms(1,2)] assms(3) by auto
  moreover have "IsEmpty b \<and> 2 * n < cb_capacity b \<longrightarrow> room n b"
    using assms(3) by (auto simp: room_def IsEmpty_def)
  ultimately show ?thesis by (simp add: eNoEnughWrite_def eNetSuccess_def)
qed

theorem circle_buffer_write_room_witness:
  "\<exists>b'. cb_put False (RawBytes ''abc'') (CCircleBuff (\<lambda>_. CHR ''x'') 40) = Inr (eNetSuccess, b')"
  using circle_buffer_write_room [of "CCircleBuff (\<lambda>_. CHR ''x'') 40" False "RawBytes ''abc''" 3]
  by (simp add: cb_new_ok IsEmpty_def) (simp add: CCircleBuff_def cb_Reset_def)

end
