(* ===== verification/NetSession.thy ===== *)
theory NetSession
  imports NetMessage CircleBuffer
begin

text \<open>
  \<open>Session\<close> of \<open>CommBase/Network/Session.h\<close> and \<open>Session.cpp\<close>: a connection of the C++ servers with
  its receive buffer, its send buffer and the packet counter of the debug configuration. What
  the sockets do is given by their outcomes; what a connection packet does is the argument
  \<open>on_conn\<close> (the session manager's \<open>ConnectSuccess\<close>), which may change the session and the world
  \<open>'w\<close> around it. Locks and log lines are left out; \<open>now\<close> is the clock in milliseconds.
\<close>

section \<open>State\<close>

definition eClient :: u8 where "eClient = 0"
definition eMax :: u8 where "eMax = 9"
definition ConnMessage :: u8 where "ConnMessage = 0"
definition SystemMessage :: u8 where "SystemMessage = 4"
definition eSocketClose :: int where "eSocketClose = 23"
definition eNetError :: int where "eNetError = 24"
definition eSockSendErr :: int where "eSockSendErr = 29"
definition eClientBuf_size :: int where "eClientBuf_size = 1024 * 512"
definition eServerBuf_size :: int where "eServerBuf_size = 1024 * 1024"

record net_session =
  ns_remoteID :: u16
  ns_remoteType :: u8
  ns_addr :: "u32 \<times> u16"
  ns_sock :: int
  ns_flag :: int
  ns_bufRecv :: "char list"
  ns_pos :: int
  ns_security :: bool
  ns_bufSend :: circle_buff
  ns_group :: int
  ns_recvCount :: int
  ns_recvTime :: int

text \<open>The server the session lives in, the host's byte order, and fresh memory.\<close>

record server =
  sv_local_id :: u16
  sv_local_type :: u8
  sv_be :: bool
  sv_old :: "nat \<Rightarrow> char"
  sv_md5 :: md5_object

definition Session_new :: "server \<Rightarrow> int \<Rightarrow> int \<Rightarrow> u32 \<times> u16 \<Rightarrow> bool \<Rightarrow> net_session" where
  "Session_new sv sock flag addr isSecurity = \<lparr>ns_remoteID = 0, ns_remoteType = 0, ns_addr = addr, ns_sock = sock,
     ns_flag = flag, ns_bufRecv = junk (sv_old sv) (nat MAX_RECV_MSG_SIZE), ns_pos = 0, ns_security = isSecurity,
     ns_bufSend = CCircleBuff (sv_old sv) eClientBuf_size, ns_group = - 1, ns_recvCount = 0, ns_recvTime = 0\<rparr>"

definition ResetSendBuf :: "server \<Rightarrow> net_session \<Rightarrow> net_session" where
  "ResetSendBuf sv s = s\<lparr>ns_bufSend := ResetSize (sv_old sv) eServerBuf_size (ns_bufSend s)\<rparr>"

section \<open>Receiving\<close>

type_synonym 'w conn_handler = "net_message \<Rightarrow> net_session \<Rightarrow> 'w \<Rightarrow> fault + int \<times> net_session \<times> 'w"

text \<open>\<open>AddMessage\<close>: connection packets are handled at once; others are for the dispatcher.\<close>

definition Session_AddMessage :: "'w conn_handler \<Rightarrow> net_message \<Rightarrow> net_session \<Rightarrow> 'w \<Rightarrow> fault + int \<times> net_session \<times> 'w" where
  "Session_AddMessage on_conn m s w =
     (if nm_messageType m = ConnMessage then on_conn m s w else Inr (0, s, w))"

text \<open>One whole packet: the last result, the messages so far, the session and the world.\<close>

type_synonym 'w recv_state = "int \<times> net_message list \<times> net_session \<times> 'w"

text \<open>The message made of a packet, when it is for this server and its signature is right.\<close>

definition packet_message ::
  "server \<Rightarrow> packet_header \<Rightarrow> char list \<Rightarrow> net_session \<Rightarrow> fault + net_message option" where
  "packet_message sv h content s =
     (let m = SetHead h (Message_remote (sv_old sv) (sint (ns_remoteID s)) (ucast (ns_remoteType s)))
      in if ph_remoteID h = sv_local_id sv \<and> ph_remoteType h = sv_local_type sv \<and> nm_security m = ns_security s then
           rbind (SetContent (sv_old sv) content (sint (ph_length h)) m) (\<lambda>m.
           let m = m\<lparr>nm_addr := ns_addr s, nm_channelID := ns_sock s, nm_group := ns_group s,
                 nm_loopIndex := (drop_bit 8 (ns_flag s)) AND 0xff\<rparr>
           in rbind (UnEncryptMessage (sv_md5 sv) m) (\<lambda>(good, m). Inr (if good then Some m else None)))
         else Inr None)"

definition recv_packet ::
  "server \<Rightarrow> 'w conn_handler \<Rightarrow> packet_header \<Rightarrow> char list \<Rightarrow> 'w recv_state \<Rightarrow> fault + 'w recv_state" where
  "recv_packet sv on_conn h content = (\<lambda>(ret, vec, s, w).
     let s = s\<lparr>ns_recvCount := ns_recvCount s + 1\<rparr> in
     rbind (packet_message sv h content s) (\<lambda>mo. case mo of
       None \<Rightarrow> Inr (ret, vec, s, w)
     | Some m \<Rightarrow> rbind (Session_AddMessage on_conn m s w) (\<lambda>(ret, s, w).
         Inr (ret, if ret = 0 then vec @ [m] else vec, s, w))))"

text \<open>
  The rest of the buffer is moved to its front. The room is computed as if the rest had to be
  appended to itself, so a rest of more than half the buffer is dropped.
\<close>

definition keep_rest :: "nat \<Rightarrow> int \<Rightarrow> 'w recv_state \<Rightarrow> fault + 'w recv_state" where
  "keep_rest off left = (\<lambda>(ret, vec, s, w).
     rbind (SafeMemmove 0 (MAX_RECV_MSG_SIZE - left) (drop off (ns_bufRecv s)) left (ns_bufRecv s)) (\<lambda>(res, buf).
     Inr (ret, vec, s\<lparr>ns_bufRecv := buf, ns_pos := (if res \<noteq> 0 then 0 else left)\<rparr>, w)))"

text \<open>A header that makes no sense: a client is closed, a server's bytes are thrown away.\<close>

definition bad_packet :: "'w recv_state \<Rightarrow> 'w recv_state" where
  "bad_packet = (\<lambda>(ret, vec, s, w).
     if ns_remoteType s = eClient then (eSocketClose, vec, s, w) else (ret, vec, s\<lparr>ns_pos := 0\<rparr>, w))"

definition header_bad :: "packet_header \<Rightarrow> bool" where
  "header_bad h \<longleftrightarrow> sint (ph_remoteID h) < 0 \<or> sint (ph_length h) < 0 \<or> ph_remoteType h \<ge> eMax \<or>
     ph_localType h \<ge> eMax \<or> ph_messageType h > SystemMessage"

text \<open>The loop of \<open>Recv(vec)\<close> over the packets in the buffer, \<open>left\<close> bytes from \<open>off\<close> on.\<close>

function recv_packets ::
  "server \<Rightarrow> 'w conn_handler \<Rightarrow> nat \<Rightarrow> int \<Rightarrow> 'w recv_state \<Rightarrow> fault + 'w recv_state" where
  "recv_packets sv on_conn off left st =
     (if left < int HEADER_SIZE then keep_rest off left st
      else rbind (SafeMemmove 0 (int HEADER_SIZE) (drop off (ns_bufRecv (fst (snd (snd st))))) (int HEADER_SIZE)
          (replicate HEADER_SIZE NUL)) (\<lambda>(moveRes, hb).
        if moveRes \<noteq> 0 then keep_rest off left st
        else let h = toBigEndian (sv_be sv) (header_at (sv_be sv) hb) in
        if header_bad h then Inr (bad_packet st)
        else rbind (c_int (sint (ph_length h) + int HEADER_SIZE)) (\<lambda>total.
        if MAX_MSG_PACKET_SIZE < total then Inr (bad_packet st)
        else if left < total then keep_rest off left st
        else rbind (recv_packet sv on_conn h (drop (off + HEADER_SIZE) (ns_bufRecv (fst (snd (snd st))))) st) (\<lambda>st.
          if left - total \<le> 0 then Inr (case st of (ret, vec, s, w) \<Rightarrow> (ret, vec, s\<lparr>ns_pos := 0\<rparr>, w))
          else recv_packets sv on_conn (off + nat total) (left - total) st))))"
  by pat_completeness auto
termination
proof (relation "measure (\<lambda>(sv, on_conn, off, left, st). nat left)", goal_cases)
  case (2 sv on_conn off left st res moveRes hb h total st')
  then show ?case by (auto simp: header_bad_def c_int_def HEADER_SIZE_def split: if_splits)
qed simp

declare recv_packets.simps [simp del]

definition Session_Recv_vec :: "server \<Rightarrow> 'w conn_handler \<Rightarrow> net_message list \<Rightarrow> net_session \<Rightarrow> 'w \<Rightarrow> fault + 'w recv_state" where
  "Session_Recv_vec sv on_conn vec s w = recv_packets sv on_conn 0 (ns_pos s) (0, vec, s, w)"

text \<open>
  What arrives on the socket: bytes, the end of the stream, an error; after the last event the
  socket has nothing (\<open>EAGAIN\<close>). One \<open>recv\<close> takes at most as many bytes as the buffer has left.
\<close>

datatype sock_event = Arrived "char list" | PeerClosed | SockError

function recv_loop ::
  "server \<Rightarrow> 'w conn_handler \<Rightarrow> sock_event list \<Rightarrow> 'w recv_state \<Rightarrow> fault + bool \<times> 'w recv_state" where
  "recv_loop sv on_conn evs (ret, vec, s, w) =
     (case evs of
        [] \<Rightarrow> Inr (True, ret, vec, s, w)
      | PeerClosed # _ \<Rightarrow> Inr (False, eSocketClose, vec, s, w)
      | SockError # _ \<Rightarrow> Inr (True, eNetError, vec, s, w)
      | Arrived c # evs \<Rightarrow>
          let space = nat (MAX_RECV_MSG_SIZE - ns_pos s); got = take space c;
              evs = (if length c \<le> space then evs else Arrived (drop space c) # evs)
          in if got = [] then Inr (False, eSocketClose, vec, s, w)
          else rbind (copy_in (ns_pos s) got (ns_bufRecv s)) (\<lambda>buf.
            let s = s\<lparr>ns_bufRecv := buf, ns_pos := ns_pos s + int (length got)\<rparr>
            in if ns_pos s < int HEADER_SIZE then recv_loop sv on_conn evs (ret, vec, s, w)
            else rbind (Session_Recv_vec sv on_conn vec s w) (\<lambda>(ret, vec, s, w).
              if ret = eSocketClose then Inr (False, ret, vec, s, w)
              else recv_loop sv on_conn evs (ret, vec, s, w))))"
  by pat_completeness auto
termination
  by (relation "measure (\<lambda>(sv, on_conn, evs, st).
        sum_list (map (\<lambda>e. case e of Arrived c \<Rightarrow> Suc (length c) | _ \<Rightarrow> 1) evs))")
    (auto split: if_splits)

declare recv_loop.simps [simp del]

text \<open>The counter of packets: too many of them from a client close the session.\<close>

definition count_packets :: "int \<Rightarrow> net_session \<Rightarrow> int \<times> net_session" where
  "count_packets now s =
     (if ns_recvTime s \<le> 0 then (eNetSuccess, s\<lparr>ns_recvTime := now\<rparr>)
      else if now - ns_recvTime s > 20 * 1000 then
        (if ns_recvCount s div 20 > 60 \<and> (ns_remoteType s \<le> eClient \<or> ns_remoteType s \<ge> eMax) then (eSocketClose, s)
         else (eNetSuccess, s\<lparr>ns_recvCount := 0, ns_recvTime := now\<rparr>))
      else (eNetSuccess, s))"

text \<open>\<open>Recv()\<close>: its code, the messages handed to the dispatcher, the session and the world.\<close>

definition Session_Recv ::
  "server \<Rightarrow> 'w conn_handler \<Rightarrow> int \<Rightarrow> sock_event list \<Rightarrow> net_session \<Rightarrow> 'w \<Rightarrow> fault + 'w recv_state" where
  "Session_Recv sv on_conn now evs s w =
     rbind (recv_loop sv on_conn evs (0, [], s, w)) (\<lambda>(go, ret, vec, s, w).
     if \<not> go then Inr (ret, [], s, w)
     else rbind (Session_Recv_vec sv on_conn vec s w) (\<lambda>(ret, vec, s, w).
       if ret = eSocketClose then Inr (ret, [], s, w)
       else let (code, s) = count_packets now s in Inr (code, vec, s, w)))"

section \<open>Sending\<close>

text \<open>The three \<open>Write\<close>s; \<open>ctl\<close> tells whether the event could be registered.\<close>

definition arm :: "bool \<Rightarrow> int \<times> circle_buff \<Rightarrow> net_session \<Rightarrow> int \<times> net_session" where
  "arm ctl r s = (case r of (res, b) \<Rightarrow>
     (if res \<noteq> 0 then res else if \<not> ctl then eCtlEpollErr else eNetSuccess, s\<lparr>ns_bufSend := b\<rparr>))"

definition Session_Write_head ::
  "server \<Rightarrow> bool \<Rightarrow> char list \<Rightarrow> packet_header \<Rightarrow> net_session \<Rightarrow> fault + int \<times> net_session" where
  "Session_Write_head sv ctl content h s = rbind (WriteSend (sv_be sv) content h (ns_bufSend s)) (\<lambda>r. Inr (arm ctl r s))"

definition Session_Write_raw :: "bool \<Rightarrow> char list \<Rightarrow> int \<Rightarrow> net_session \<Rightarrow> fault + int \<times> net_session" where
  "Session_Write_raw ctl buf len s = rbind (WriteBuffer buf len (ns_bufSend s)) (\<lambda>r. Inr (arm ctl r s))"

definition Session_Write ::
  "server \<Rightarrow> bool \<Rightarrow> net_message \<Rightarrow> net_session \<Rightarrow> fault + int \<times> net_message \<times> net_session" where
  "Session_Write sv ctl m s =
     (let m = (if nm_security m \<noteq> ns_security s then m\<lparr>nm_security := ns_security s\<rparr> else m)
      in rbind (EncryptMessage (sv_md5 sv) m) (\<lambda>m.
         rbind (WriteSend (sv_be sv) (nm_content m) (GetHead (sv_be sv) m) (ns_bufSend s)) (\<lambda>r.
         case arm ctl r s of (res, s) \<Rightarrow> Inr (res, m, s))))"

text \<open>\<open>send\<close>: a number of bytes taken, nothing, or an error; after the last outcome \<open>EAGAIN\<close>.\<close>

datatype send_result = Sent nat | SendError

fun send_chunks :: "send_result list \<Rightarrow> int \<Rightarrow> int \<Rightarrow> int option \<times> int" where
  "send_chunks rs sent len =
     (case rs of
        [] \<Rightarrow> (None, sent)
      | SendError # _ \<Rightarrow> (Some eSockSendErr, sent)
      | Sent n # rs \<Rightarrow>
          if n = 0 then (Some eSocketClose, sent)
          else let sent = sent + min (int n) (len - sent) in
            if sent \<ge> len then (None, sent) else send_chunks rs sent len)"

declare send_chunks.simps [simp del]

text \<open>The code, the bytes the socket took, and the session.\<close>

definition Session_Send :: "send_result list \<Rightarrow> net_session \<Rightarrow> int \<times> char list \<times> net_session" where
  "Session_Send rs s =
     (if IsEmpty (ns_bufSend s) then (eNetSuccess, [], s)
      else case ReadSendBuff (ns_bufSend s) of (res, at, b) \<Rightarrow>
        let s = s\<lparr>ns_bufSend := b\<rparr> in
        case at of None \<Rightarrow> (eNetSuccess, [], s)
        | Some (i, n) \<Rightarrow>
            case send_chunks rs 0 n of (err, nSend) \<Rightarrow>
              let out = blk (nat i) (nat nSend) (cb_buffer b) in
              case err of Some e \<Rightarrow> (e, out, s)
              | None \<Rightarrow> (eNetSuccess, out, s\<lparr>ns_bufSend := HadRead nSend b\<rparr>))"

section \<open>Packets on the wire\<close>

text \<open>A packet: its header (in host numbers) and its body; its bytes as a peer of this kind sends them.\<close>

definition wire_frame :: "bool \<Rightarrow> packet_header \<times> char list \<Rightarrow> char list" where
  "wire_frame be f = header_image be (toBigEndian be (fst f)) @ snd f"

text \<open>The sizes are those the receive buffer keeps together: at most half of it.\<close>

definition frame_ok :: "packet_header \<times> char list \<Rightarrow> bool" where
  "frame_ok f \<longleftrightarrow> \<not> header_bad (fst f) \<and> sint (ph_length (fst f)) = int (length (snd f)) \<and>
     length (snd f) + HEADER_SIZE \<le> 32768"

definition partial_ok :: "bool \<Rightarrow> char list \<Rightarrow> bool" where
  "partial_ok be q \<longleftrightarrow> (\<exists>f. frame_ok f \<and> length q < length (wire_frame be f) \<and> q = take (length q) (wire_frame be f))"

primrec packets_fold ::
  "server \<Rightarrow> 'w conn_handler \<Rightarrow> (packet_header \<times> char list) list \<Rightarrow> 'w recv_state \<Rightarrow> fault + 'w recv_state" where
  "packets_fold sv on_conn [] st = Inr st"
| "packets_fold sv on_conn (f # fs) st =
     rbind (recv_packet sv on_conn (fst f) (snd f) st) (packets_fold sv on_conn fs)"

text \<open>What the handler of connection packets may do: not touch the receive buffer, and answer as \<open>AddMessage\<close> does.\<close>

definition with_buf :: "char list \<Rightarrow> int \<Rightarrow> net_session \<Rightarrow> net_session" where
  "with_buf b n s = s\<lparr>ns_bufRecv := b, ns_pos := n\<rparr>"

definition conn_keeps :: "'w conn_handler \<Rightarrow> bool" where
  "conn_keeps on_conn \<longleftrightarrow>
     (\<forall>b n m s w. on_conn m (with_buf b n s) w = rbind (on_conn m s w) (\<lambda>(r, s, w). Inr (r, with_buf b n s, w))) \<and>
     (\<forall>m s w r s' w'. on_conn m s w = Inr (r, s', w') \<longrightarrow> r \<noteq> eSocketClose)"

lemma length_wire_frame [simp]: "length (wire_frame be f) = HEADER_SIZE + length (snd f)"
  by (simp add: wire_frame_def)

lemma wire_frame_nonempty: "wire_frame be f \<noteq> []"
  using length_wire_frame [of be f] by (auto simp: HEADER_SIZE_def simp del: length_wire_frame)

lemma SafeMemmove_prefix:
  "0 \<le> n \<Longrightarrow> n < 2 ^ 32 \<Longrightarrow> nat n \<le> length b \<Longrightarrow> SafeMemmove off l (b @ r) n d = SafeMemmove off l b n d"
  by (simp add: SafeMemmove_def blk_def copy_out_def)

lemma SetContent_prefix:
  "SetContent old (b @ r) (int (length b)) m = SetContent old b (int (length b)) m"
proof (cases "c_int (int (length b) + int HEADER_SIZE + 16)")
  case (Inr t)
  then have "int (length b) < 2 ^ 32" by (auto simp: c_int_def HEADER_SIZE_def split: if_splits)
  then have "SafeMemmove 0 l (b @ r) (int (length b)) d = SafeMemmove 0 l b (int (length b)) d" for l d
    by (intro SafeMemmove_prefix) auto
  then show ?thesis by (simp add: SetContent_def Inr Let_def cong: if_cong)
next
  case (Inl e)
  then show ?thesis by (simp add: SetContent_def)
qed

lemma recv_packet_body:
  assumes "sint (ph_length h) = int (length b)"
  shows "recv_packet sv on_conn h (b @ r) st = recv_packet sv on_conn h b st"
  by (cases st) (simp add: recv_packet_def packet_message_def assms SetContent_prefix Let_def)

lemma with_buf_fields [simp]:
  "ns_bufRecv (with_buf b n s) = b" "ns_pos (with_buf b n s) = n" "with_buf b n (with_buf b' n' s) = with_buf b n s"
  "ns_recvCount (with_buf b n s) = ns_recvCount s" "ns_remoteType (with_buf b n s) = ns_remoteType s"
  "(with_buf b n s)\<lparr>ns_recvCount := k\<rparr> = with_buf b n (s\<lparr>ns_recvCount := k\<rparr>)"
  "with_buf (ns_bufRecv s) (ns_pos s) s = s"
  by (simp_all add: with_buf_def)

lemma packet_message_with_buf [simp]: "packet_message sv h c (with_buf b n s) = packet_message sv h c s"
  by (simp add: packet_message_def with_buf_def Let_def cong: if_cong)

lemma recv_packet_with_buf:
  assumes "conn_keeps on_conn"
  shows "recv_packet sv on_conn h c (ret, vec, with_buf b n s, w) =
    rbind (recv_packet sv on_conn h c (ret, vec, s, w)) (\<lambda>(ret, vec, s, w). Inr (ret, vec, with_buf b n s, w))"
proof -
  have am: "Session_AddMessage on_conn m (with_buf b n s) w =
      rbind (Session_AddMessage on_conn m s w) (\<lambda>(r, s, w). Inr (r, with_buf b n s, w))" for m s
    using assms by (simp add: Session_AddMessage_def conn_keeps_def)
  let ?s = "s\<lparr>ns_recvCount := ns_recvCount s + 1\<rparr>"
  show ?thesis
  proof (cases "packet_message sv h c ?s")
    case (Inr mo)
    then show ?thesis
      by (cases mo; cases "Session_AddMessage on_conn (the mo) ?s w") (auto simp: recv_packet_def am)
  qed (simp add: recv_packet_def)
qed

lemma recv_packet_keeps:
  assumes "conn_keeps on_conn" "recv_packet sv on_conn h c (ret, vec, s, w) = Inr (ret', vec', s', w')"
  shows "ns_bufRecv s' = ns_bufRecv s \<and> ns_pos s' = ns_pos s"
proof -
  have "s' = with_buf (ns_bufRecv s) (ns_pos s) s'"
    using recv_packet_with_buf [OF assms(1), of sv h c ret vec "ns_bufRecv s" "ns_pos s" s w] assms(2) by simp
  then show ?thesis by (metis with_buf_fields(1,2))
qed

lemma recv_packet_ret:
  assumes "conn_keeps on_conn" "recv_packet sv on_conn h c (ret, vec, s, w) = Inr (ret', vec', s', w')"
    "ret \<noteq> eSocketClose"
  shows "ret' \<noteq> eSocketClose"
proof -
  have am: "r \<noteq> eSocketClose" if "Session_AddMessage on_conn m s w = Inr (r, s', w')" for m s r s' w'
  proof (cases "nm_messageType m = ConnMessage")
    case True
    with that have "on_conn m s w = Inr (r, s', w')" by (simp add: Session_AddMessage_def)
    then show ?thesis using assms(1) unfolding conn_keeps_def by blast
  next
    case False
    with that show ?thesis by (simp add: Session_AddMessage_def eSocketClose_def)
  qed
  with assms(2,3) show ?thesis
    by (auto simp: recv_packet_def Let_def rbind_Inr_iff split: option.splits dest: am)
qed

text \<open>The last result is not looked at by the next packet.\<close>

definition without_ret :: "fault + 'w recv_state \<Rightarrow> fault + net_message list \<times> net_session \<times> 'w" where
  "without_ret r = rbind r (\<lambda>(ret, x). Inr x)"

lemma recv_packet_any_ret:
  "without_ret (recv_packet sv on_conn h c (ret, x)) = without_ret (recv_packet sv on_conn h c (ret', x))"
proof -
  obtain vec s w where x: "x = (vec, s, w)" by (cases x)
  show ?thesis
  proof (cases "packet_message sv h c (s\<lparr>ns_recvCount := ns_recvCount s + 1\<rparr>)")
    case (Inr mo)
    then show ?thesis by (cases mo) (simp_all add: without_ret_def recv_packet_def x)
  qed (simp add: without_ret_def recv_packet_def x)
qed

lemma header_of_frame:
  assumes "blk off left buf = wire_frame be f @ r" "off + left \<le> length buf"
  shows "toBigEndian be (header_at be (blk off HEADER_SIZE buf)) = fst f"
    and "\<exists>r'. drop (off + HEADER_SIZE) buf = snd f @ r'"
    and "blk (off + length (wire_frame be f)) (left - length (wire_frame be f)) buf = r"
proof -
  have len: "length (wire_frame be f) \<le> left"
    using length_blk [of off left buf] assms by (simp del: length_blk)
  have d: "drop off buf = wire_frame be f @ r @ drop (off + left) buf"
    using assms(1) append_take_drop_id [of left "drop off buf"] by (simp add: blk_def add.commute)
  then have "blk off HEADER_SIZE buf = header_image be (toBigEndian be (fst f))"
    by (simp add: blk_def wire_frame_def)
  then show "toBigEndian be (header_at be (blk off HEADER_SIZE buf)) = fst f"
    using header_at_image [of be "toBigEndian be (fst f)" "[]"] by simp
  have "drop (off + HEADER_SIZE) buf = drop HEADER_SIZE (drop off buf)" by (simp add: add.commute)
  also have "\<dots> = snd f @ r @ drop (off + left) buf" unfolding d by (simp add: wire_frame_def)
  finally show "\<exists>r'. drop (off + HEADER_SIZE) buf = snd f @ r'" by blast
  have "blk (off + length (wire_frame be f)) (left - length (wire_frame be f)) buf =
      take (left - length (wire_frame be f)) (drop (length (wire_frame be f)) (drop off buf))"
    by (simp add: blk_def add.commute)
  also have "\<dots> = r" unfolding d using arg_cong [OF assms(1), of length] assms(2) by simp
  finally show "blk (off + length (wire_frame be f)) (left - length (wire_frame be f)) buf = r" .
qed

lemma keep_rest_ok:
  assumes "blk off (length q) (ns_bufRecv s) = q" "length q \<le> 32768" "length (ns_bufRecv s) = 65536" "off + length q \<le> 65536"
  shows "keep_rest off (int (length q)) (ret, vec, s, w) =
    Inr (ret, vec, s\<lparr>ns_bufRecv := put 0 q (ns_bufRecv s), ns_pos := int (length q)\<rparr>, w)"
proof -
  have "SafeMemmove 0 (MAX_RECV_MSG_SIZE - int (length q)) (drop off (ns_bufRecv s)) (int (length q)) (ns_bufRecv s) =
      Inr (0, put (nat 0) (take (nat (int (length q))) (drop off (ns_bufRecv s))) (ns_bufRecv s))"
    using assms by (intro SafeMemmove_ok) (auto simp: MAX_RECV_MSG_SIZE_def)
  then show ?thesis using assms(1) by (simp add: keep_rest_def blk_def)
qed

lemma move_header:
  assumes "off + HEADER_SIZE \<le> length buf"
  shows "SafeMemmove 0 (int HEADER_SIZE) (drop off buf) (int HEADER_SIZE) (replicate HEADER_SIZE NUL) =
    Inr (0, blk off HEADER_SIZE buf)"
proof -
  have "SafeMemmove 0 (int HEADER_SIZE) (drop off buf) (int HEADER_SIZE) (replicate HEADER_SIZE NUL) =
      Inr (0, put (nat 0) (take (nat (int HEADER_SIZE)) (drop off buf)) (replicate HEADER_SIZE NUL))"
    using assms by (intro SafeMemmove_ok) (auto simp: HEADER_SIZE_def)
  then show ?thesis using assms by (simp add: put_def blk_def)
qed

lemma frame_ok_total:
  assumes "frame_ok f"
  shows "c_int (sint (ph_length (fst f)) + int HEADER_SIZE) = Inr (int (length (wire_frame be f)))"
    and "\<not> MAX_MSG_PACKET_SIZE < int (length (wire_frame be f))"
  using assms by (auto simp: frame_ok_def HEADER_SIZE_def MAX_MSG_PACKET_SIZE_def c_int_def)

lemma recv_partial:
  assumes "partial_ok (sv_be sv) q" "blk off (length q) (ns_bufRecv s) = q" "length (ns_bufRecv s) = 65536"
    "off + length q \<le> 65536"
  shows "recv_packets sv on_conn off (int (length q)) (ret, vec, s, w) =
    Inr (ret, vec, s\<lparr>ns_bufRecv := put 0 q (ns_bufRecv s), ns_pos := int (length q)\<rparr>, w)"
proof -
  obtain f where f: "frame_ok f" "length q < length (wire_frame (sv_be sv) f)"
    "q = take (length q) (wire_frame (sv_be sv) f)"
    using assms(1) by (auto simp: partial_ok_def)
  have "length q \<le> 32768" using f(1,2) by (simp add: frame_ok_def)
  note keep = keep_rest_ok [OF assms(2) this assms(3,4)]
  show ?thesis
  proof (cases "length q < HEADER_SIZE")
    case True
    then show ?thesis by (simp add: recv_packets.simps keep)
  next
    case False
    then have "blk off HEADER_SIZE (ns_bufRecv s) = take HEADER_SIZE q"
      using arg_cong [OF assms(2), of "take HEADER_SIZE"] by (simp add: blk_def)
    also have "\<dots> = take HEADER_SIZE (wire_frame (sv_be sv) f)"
      using False f(3) by (metis linorder_not_le min.absorb1 nle_le take_take)
    also have "\<dots> = header_image (sv_be sv) (toBigEndian (sv_be sv) (fst f))"
      by (simp add: wire_frame_def)
    finally have h: "toBigEndian (sv_be sv) (header_at (sv_be sv) (blk off HEADER_SIZE (ns_bufRecv s))) = fst f"
      using header_at_image [of "sv_be sv" "toBigEndian (sv_be sv) (fst f)" "[]"] by simp
    have mv: "SafeMemmove 0 (int HEADER_SIZE) (drop off (ns_bufRecv s)) (int HEADER_SIZE) (replicate HEADER_SIZE NUL) =
        Inr (0, blk off HEADER_SIZE (ns_bufRecv s))"
      using False assms(3,4) by (intro move_header) simp
    have "\<not> header_bad (fst f)" using f(1) by (simp add: frame_ok_def)
    with False f(2) show ?thesis
      by (simp add: recv_packets.simps mv h keep Let_def frame_ok_total [OF f(1), of "sv_be sv", simplified])
  qed
qed

lemma recv_frames:
  assumes "conn_keeps on_conn" "list_all frame_ok fs" "partial_ok (sv_be sv) q"
    and "blk off left (ns_bufRecv s) = concat (map (wire_frame (sv_be sv)) fs) @ q"
    and "length (ns_bufRecv s) = 65536" "off + left \<le> 65536"
  shows "recv_packets sv on_conn off (int left) (ret, vec, s, w) =
    rbind (packets_fold sv on_conn fs (ret, vec, s, w)) (\<lambda>(ret, vec, s, w).
      Inr (ret, vec, s\<lparr>ns_bufRecv := put 0 q (ns_bufRecv s), ns_pos := int (length q)\<rparr>, w))"
  using assms(2-)
proof (induction fs arbitrary: off left ret vec s w)
  case Nil
  then have "length q = left"
    using length_blk [of off left "ns_bufRecv s"] by (simp del: length_blk)
  with Nil recv_partial [OF Nil(2), of off s on_conn ret vec w] show ?case by auto
next
  case (Cons f fs)
  let ?n = "length (wire_frame (sv_be sv) f)" and ?b = "ns_bufRecv s"
  have fok: "frame_ok f" "\<not> header_bad (fst f)" "sint (ph_length (fst f)) = int (length (snd f))"
    using Cons.prems(1) by (auto simp: frame_ok_def)
  have eq: "blk off left ?b = wire_frame (sv_be sv) f @ concat (map (wire_frame (sv_be sv)) fs) @ q"
    using Cons.prems(3) by simp
  have fits: "off + left \<le> length ?b" using Cons.prems(4,5) by simp
  note hd = header_of_frame [OF eq fits]
  have n: "?n \<le> left"
    using length_blk [of off left ?b] eq fits by (simp del: length_blk)
  obtain r' where r': "drop (off + HEADER_SIZE) ?b = snd f @ r'" using hd(2) by blast
  have mv: "SafeMemmove 0 (int HEADER_SIZE) (drop off ?b) (int HEADER_SIZE) (replicate HEADER_SIZE NUL) =
      Inr (0, blk off HEADER_SIZE ?b)"
    using n fits by (intro move_header) simp
  have tot: "c_int (int (length (snd f)) + int HEADER_SIZE) = Inr (int HEADER_SIZE + int (length (snd f)))"
      "\<not> MAX_MSG_PACKET_SIZE < int HEADER_SIZE + int (length (snd f))"
    using frame_ok_total [OF fok(1), of "sv_be sv"] by (simp_all add: fok(3))
  let ?next = "\<lambda>st. if int left = int ?n then Inr (case st of (ret, vec, s, w) \<Rightarrow> (ret, vec, s\<lparr>ns_pos := 0\<rparr>, w))
    else recv_packets sv on_conn (off + nat (int ?n)) (int left - int ?n) st"
  have "recv_packets sv on_conn off (int left) (ret, vec, s, w) =
      rbind (recv_packet sv on_conn (fst f) (drop (off + HEADER_SIZE) ?b) (ret, vec, s, w)) ?next"
    using n tot fok by (subst recv_packets.simps) (simp add: mv hd(1) Let_def nat_add_distrib cong: if_cong)
  also have "\<dots> = rbind (recv_packet sv on_conn (fst f) (snd f) (ret, vec, s, w)) ?next"
    by (simp only: r' recv_packet_body [OF fok(3)])
  also have "\<dots> = rbind (recv_packet sv on_conn (fst f) (snd f) (ret, vec, s, w))
      (\<lambda>st. rbind (packets_fold sv on_conn fs st) (\<lambda>(ret, vec, s, w).
        Inr (ret, vec, s\<lparr>ns_bufRecv := put 0 q (ns_bufRecv s), ns_pos := int (length q)\<rparr>, w)))"
  proof (rule rbind_cong [OF refl], goal_cases)
    case (1 st)
    obtain ret' vec' s' w' where st: "st = (ret', vec', s', w')" by (cases st)
    have s': "ns_bufRecv s' = ?b" using recv_packet_keeps [OF assms(1)] 1 unfolding st by blast
    show ?case
    proof (cases "left = ?n")
      case True
      then have "concat (map (wire_frame (sv_be sv)) fs) @ q = []" using hd(3) by simp
      then have "fs = []" "q = []" using wire_frame_nonempty by (cases fs, auto)
      with True show ?thesis by (simp add: st)
    next
      case False
      have "recv_packets sv on_conn (off + ?n) (int (left - ?n)) (ret', vec', s', w') =
        rbind (packets_fold sv on_conn fs (ret', vec', s', w')) (\<lambda>(ret, vec, s, w).
          Inr (ret, vec, s\<lparr>ns_bufRecv := put 0 q (ns_bufRecv s), ns_pos := int (length q)\<rparr>, w))"
        using Cons.prems hd(3) n by (intro Cons.IH) (simp_all add: s')
      with False n show ?thesis by (simp add: st of_nat_diff nat_add_distrib)
    qed
  qed
  finally show ?case by (simp add: rbind_assoc)
qed

end
