(* ===== verification/SessionStream.thy ===== *)
theory SessionStream
  imports NetSession
begin

text \<open>
  What a session makes of a stream of packets that arrives in pieces of any size, and the two
  ends of a connection together.
\<close>

section \<open>Arrivals of any size\<close>

lemma packets_fold_with_buf:
  assumes "conn_keeps on_conn"
  shows "packets_fold sv on_conn fs (ret, vec, with_buf b n s, w) =
    rbind (packets_fold sv on_conn fs (ret, vec, s, w)) (\<lambda>(ret, vec, s, w). Inr (ret, vec, with_buf b n s, w))"
proof (induction fs arbitrary: ret vec s w)
  case (Cons f fs)
  then show ?case
    by (cases "recv_packet sv on_conn (fst f) (snd f) (ret, vec, s, w)")
      (auto simp: recv_packet_with_buf [OF assms])
qed simp

lemma packets_fold_keeps:
  assumes "conn_keeps on_conn" "packets_fold sv on_conn fs (ret, vec, s, w) = Inr (ret', vec', s', w')"
    "ret \<noteq> eSocketClose"
  shows "ns_bufRecv s' = ns_bufRecv s \<and> ns_pos s' = ns_pos s \<and> ret' \<noteq> eSocketClose"
  using assms(2,3)
proof (induction fs arbitrary: ret vec s w)
  case (Cons f fs)
  then obtain r1 v1 s1 w1 where p: "recv_packet sv on_conn (fst f) (snd f) (ret, vec, s, w) = Inr (r1, v1, s1, w1)"
      "packets_fold sv on_conn fs (r1, v1, s1, w1) = Inr (ret', vec', s', w')"
    by (auto simp: rbind_Inr_iff)
  show ?case
    using Cons.IH [OF p(2)] recv_packet_ret [OF assms(1) p(1) Cons.prems(2)] recv_packet_keeps [OF assms(1) p(1)] by simp
qed simp

lemma packets_fold_any_ret:
  "without_ret (packets_fold sv on_conn fs (ret, x)) = without_ret (packets_fold sv on_conn fs (ret', x))"
proof (induction fs arbitrary: ret ret' x)
  case (Cons f fs)
  have "without_ret (rbind r (packets_fold sv on_conn fs)) =
      rbind (without_ret r) (\<lambda>x. without_ret (packets_fold sv on_conn fs (0, x)))" for r
  proof (cases r)
    case (Inr y)
    then show ?thesis using Cons.IH [of "fst y" "snd y" 0] by (simp add: without_ret_def split_def)
  qed (simp add: without_ret_def)
  then show ?case using recv_packet_any_ret [of sv on_conn "fst f" "snd f" ret x ret'] by simp
qed (simp add: without_ret_def)

lemma packets_fold_append:
  "packets_fold sv on_conn (fs @ gs) st = rbind (packets_fold sv on_conn fs st) (packets_fold sv on_conn gs)"
proof (induction fs arbitrary: st)
  case (Cons f fs)
  then have "packets_fold sv on_conn (fs @ gs) = (\<lambda>st. rbind (packets_fold sv on_conn fs st) (packets_fold sv on_conn gs))"
    by (intro ext)
  then show ?case by (simp add: rbind_assoc)
qed simp

text \<open>Every prefix of a stream of packets is whole packets and a partial one.\<close>

lemma partial_prefix:
  assumes "partial_ok be q" "q = p @ r"
  shows "partial_ok be p"
proof -
  obtain f where f: "frame_ok f" "length q < length (wire_frame be f)" "q = take (length q) (wire_frame be f)"
    using assms(1) by (auto simp: partial_ok_def)
  have "p = take (length p) q" using assms(2) by simp
  also have "\<dots> = take (length p) (wire_frame be f)"
    using assms(2) by (subst f(3)) (simp add: min_def)
  finally show ?thesis using f assms(2) unfolding partial_ok_def by (intro exI [of _ f]) simp
qed

lemma partial_of_frame: "frame_ok f \<Longrightarrow> wire_frame be f = p @ r \<Longrightarrow> r \<noteq> [] \<Longrightarrow> partial_ok be p"
  unfolding partial_ok_def by (intro exI [of _ f]) simp

lemma split_frames:
  assumes "list_all frame_ok fs" "partial_ok be q'" "p @ r = concat (map (wire_frame be) fs) @ q'"
  shows "\<exists>fs1 fs2 q. fs = fs1 @ fs2 \<and> p = concat (map (wire_frame be) fs1) @ q \<and> partial_ok be q \<and>
    q @ r = concat (map (wire_frame be) fs2) @ q'"
  using assms(1,3)
proof (induction fs arbitrary: p)
  case Nil
  then show ?case using partial_prefix [OF assms(2)] by auto
next
  case (Cons f fs)
  show ?case
  proof (cases "length p < length (wire_frame be f)")
    case True
    have "p = take (length p) (wire_frame be f)"
      using arg_cong [OF Cons.prems(2), of "take (length p)"] True by simp
    then obtain r' where r': "wire_frame be f = p @ r'" "r' \<noteq> []"
      using True append_take_drop_id [of "length p" "wire_frame be f"]
      by (metis append_Nil2 less_irrefl)
    show ?thesis
      using partial_of_frame [OF _ r'] Cons.prems by (intro exI [of _ "[]"] exI [of _ "f # fs"] exI [of _ p]) auto
  next
    case False
    then have "take (length (wire_frame be f)) p = wire_frame be f"
      using arg_cong [OF Cons.prems(2), of "take (length (wire_frame be f))"] by simp
    then obtain p' where p': "p = wire_frame be f @ p'"
      by (metis append_take_drop_id)
    have "p' @ r = concat (map (wire_frame be) fs) @ q'" using Cons.prems(2) unfolding p' by simp
    then obtain fs1 fs2 q where "fs = fs1 @ fs2" "p' = concat (map (wire_frame be) fs1) @ q" "partial_ok be q"
      "q @ r = concat (map (wire_frame be) fs2) @ q'"
      using Cons.IH [of p'] Cons.prems(1) by auto
    then show ?thesis
      by (intro exI [of _ "f # fs1"] exI [of _ fs2] exI [of _ q]) (simp add: p')
  qed
qed

lemma partial_short: "partial_ok be q \<Longrightarrow> length q < 32768"
  by (auto simp: partial_ok_def frame_ok_def)

definition without_rets :: "fault + bool \<times> 'w recv_state \<Rightarrow> fault + bool \<times> net_message list \<times> net_session \<times> 'w" where
  "without_rets r = rbind r (\<lambda>(go, ret, x). Inr (go, x))"

lemma recv_vec_frames:
  assumes "conn_keeps on_conn" "list_all frame_ok fs" "partial_ok (sv_be sv) q"
    and "take (length p) b = p" "p = concat (map (wire_frame (sv_be sv)) fs) @ q" "length b = 65536" "length p \<le> 65536"
  shows "Session_Recv_vec sv on_conn vec (with_buf b (int (length p)) s) w =
    rbind (packets_fold sv on_conn fs (0, vec, s, w)) (\<lambda>(ret, vec, s, w).
      Inr (ret, vec, with_buf (put 0 q b) (int (length q)) s, w))"
proof -
  have "Session_Recv_vec sv on_conn vec (with_buf b (int (length p)) s) w =
    rbind (packets_fold sv on_conn fs (0, vec, with_buf b (int (length p)) s, w)) (\<lambda>(ret, vec, s, w).
      Inr (ret, vec, s\<lparr>ns_bufRecv := put 0 q (ns_bufRecv s), ns_pos := int (length q)\<rparr>, w))"
    using recv_frames [OF assms(1-3), of 0 "length p" "with_buf b (int (length p)) s"] assms(4-)
    by (simp add: Session_Recv_vec_def blk_def)
  then show ?thesis
    by (cases "packets_fold sv on_conn fs (0, vec, s, w)")
      (auto simp: packets_fold_with_buf [OF assms(1)], simp add: with_buf_def)
qed

lemma recv_loop_arrival:
  assumes "ns_pos s = int (length q)" "length q < 32768" "length (ns_bufRecv s) = 65536" "c \<noteq> []"
    "got = take (65536 - length q) c" "cs' = (if length c \<le> 65536 - length q then cs else drop (65536 - length q) c # cs)"
    "s1 = with_buf (put (length q) got (ns_bufRecv s)) (int (length (q @ got))) s"
  shows "recv_loop sv on_conn (map Arrived (c # cs)) (ret, vec, s, w) =
    (if length (q @ got) < HEADER_SIZE then recv_loop sv on_conn (map Arrived cs') (ret, vec, s1, w)
     else rbind (Session_Recv_vec sv on_conn vec s1 w) (\<lambda>(ret, vec, s, w).
       if ret = eSocketClose then Inr (False, ret, vec, s, w)
       else recv_loop sv on_conn (map Arrived cs') (ret, vec, s, w)))"
proof -
  have sp: "nat (MAX_RECV_MSG_SIZE - int (length q)) = 65536 - length q"
    by (simp add: MAX_RECV_MSG_SIZE_def nat_diff_distrib)
  have g: "got \<noteq> []" "length q + length got \<le> 65536" using assms(2,4,5) by auto
  have ci: "copy_in (int (length q)) got (ns_bufRecv s) = Inr (put (length q) got (ns_bufRecv s))"
    using copy_in_ok [of "int (length q)" got "ns_bufRecv s"] g assms(3) by simp
  have s1: "s\<lparr>ns_bufRecv := put (length q) got (ns_bufRecv s), ns_pos := int (length q) + int (length got)\<rparr> = s1"
    by (simp add: assms(7) with_buf_def)
  have evs: "(if length c \<le> 65536 - length q then map Arrived cs else Arrived (drop (65536 - length q) c) # map Arrived cs) = map Arrived cs'"
    by (simp add: assms(6))
  have pos: "ns_pos s1 = int (length (q @ got))" by (simp add: assms(7))
  show ?thesis
    unfolding list.map
    by (subst recv_loop.simps) (simp only: sock_event.case list.case sp Let_def assms(5) [symmetric] evs g if_False
      assms(1) ci rbind.simps net_session.select_convs net_session.update_convs s1, simp add: s1 pos g flip: of_nat_add)
qed

lemma partial_no_frame:
  assumes "partial_ok be q" "q = wire_frame be f @ r" "frame_ok f"
  shows False
proof -
  obtain g where g: "frame_ok g" "length q < length (wire_frame be g)" "q = take (length q) (wire_frame be g)"
    using assms(1) by (auto simp: partial_ok_def)
  obtain r' where "wire_frame be g = wire_frame be f @ r'"
    using append_take_drop_id [of "length q" "wire_frame be g"] g(3) assms(2) by (metis append_assoc)
  then have "fst f = fst g"
    using header_at_image [of be "toBigEndian be (fst f)" "snd f @ r'"]
      header_at_image [of be "toBigEndian be (fst g)" "snd g"]
    by (metis append_assoc toBigEndian_twice wire_frame_def)
  then have "length (snd f) = length (snd g)" using assms(3) g(1) by (simp add: frame_ok_def)
  then show False using g(2) assms(2) by simp
qed

lemma put_front: "length xs \<le> length m \<Longrightarrow> length (put 0 xs m) = length m \<and> take (length xs) (put 0 xs m) = xs"
  by (simp add: put_def)

text \<open>One \<open>recv\<close>: the packets it completes are handled, the rest is kept.\<close>

lemma recv_loop_one:
  assumes "conn_keeps on_conn" "list_all frame_ok fs" "partial_ok (sv_be sv) q" "partial_ok (sv_be sv) q1"
    and "ns_pos s = int (length q)" "take (length q) (ns_bufRecv s) = q" "length (ns_bufRecv s) = 65536" "c \<noteq> []"
    and "q @ take (65536 - length q) c = concat (map (wire_frame (sv_be sv)) fs) @ q1"
    and "cs' = (if length c \<le> 65536 - length q then cs else drop (65536 - length q) c # cs)" "ret \<noteq> eSocketClose"
  shows "\<exists>b r0. length b = 65536 \<and> take (length q1) b = q1 \<and> r0 \<noteq> eSocketClose \<and>
    recv_loop sv on_conn (map Arrived (c # cs)) (ret, vec, s, w) =
    rbind (packets_fold sv on_conn fs (r0, vec, s, w)) (\<lambda>(ret, vec, s, w).
      recv_loop sv on_conn (map Arrived cs') (ret, vec, with_buf b (int (length q1)) s, w))"
proof -
  let ?got = "take (65536 - length q) c"
  let ?buf = "put (length q) ?got (ns_bufRecv s)"
  let ?s = "with_buf ?buf (int (length (q @ ?got))) s"
  have lq: "length q < 32768" "length q1 < 32768" using partial_short assms(3,4) by auto
  have buf: "length ?buf = 65536" "take (length (q @ ?got)) ?buf = q @ ?got"
    using assms(6,7) lq by (auto simp: put_def min_def)
  note step = recv_loop_arrival [OF assms(5) lq(1) assms(7,8) refl assms(10) refl, of sv on_conn ret vec w]
  show ?thesis
  proof (cases "length (q @ ?got) < HEADER_SIZE")
    case True
    then have "fs = []" using assms(9) length_wire_frame by (cases fs) (auto dest: arg_cong [of _ _ length])
    with True assms(9,11) buf step show ?thesis by (intro exI [of _ ?buf] exI [of _ ret]) simp
  next
    case False
    let ?b = "put 0 q1 ?buf"
    have rv: "Session_Recv_vec sv on_conn vec ?s w =
        rbind (packets_fold sv on_conn fs (0, vec, s, w)) (\<lambda>(ret, vec, s, w).
          Inr (ret, vec, with_buf ?b (int (length q1)) s, w))"
      using recv_vec_frames [OF assms(1,2,4) buf(2) assms(9) buf(1)] lq by simp
    have b: "length ?b = 65536" "take (length q1) ?b = q1" using put_front [of q1 ?buf] buf(1) lq(2) by simp_all
    show ?thesis
    proof (cases "packets_fold sv on_conn fs (0, vec, s, w)")
      case (Inr r)
      obtain ret1 vec1 s1 w1 where r: "r = (ret1, vec1, s1, w1)" by (cases r)
      have "ret1 \<noteq> eSocketClose"
        using packets_fold_keeps [OF assms(1) Inr [unfolded r]] by (simp add: eSocketClose_def)
      with False rv step b Inr show ?thesis by (intro exI [of _ ?b] exI [of _ 0]) (simp add: r eSocketClose_def)
    qed (use False rv step b in \<open>intro exI [of _ ?b] exI [of _ 0], simp add: eSocketClose_def\<close>)
  qed
qed

lemma recv_loop_stream:
  assumes "conn_keeps on_conn" "list_all frame_ok fs" "partial_ok (sv_be sv) q'" "partial_ok (sv_be sv) q"
    and "q @ concat cs = concat (map (wire_frame (sv_be sv)) fs) @ q'" "[] \<notin> set cs"
    and "ns_pos s = int (length q)" "take (length q) (ns_bufRecv s) = q" "length (ns_bufRecv s) = 65536"
    and "ret \<noteq> eSocketClose"
  shows "\<exists>b. length b = 65536 \<and> take (length q') b = q' \<and>
    without_rets (recv_loop sv on_conn (map Arrived cs) (ret, vec, s, w)) =
    rbind (without_ret (packets_fold sv on_conn fs (0, vec, s, w))) (\<lambda>(vec, s, w).
      Inr (True, vec, with_buf b (int (length q')) s, w))"
  using assms(2,4-)
proof (induction "sum_list (map (Suc \<circ> length) cs)" arbitrary: cs fs q ret vec s w rule: less_induct)
  case less
  note prems = less.prems
  show ?case
  proof (cases cs)
    case Nil
    then have q: "q = concat (map (wire_frame (sv_be sv)) fs) @ q'" using prems(3) by simp
    then have "fs = []" using partial_no_frame [OF prems(2)] prems(1) by (cases fs) auto
    moreover from this have "s = with_buf (ns_bufRecv s) (int (length q')) s"
      using q prems(5) by (simp add: with_buf_def)
    ultimately show ?thesis
      using q Nil prems(6,7) by (intro exI [of _ "ns_bufRecv s"]) (simp add: recv_loop.simps without_rets_def without_ret_def)
  next
    case (Cons c cs1)
    let ?sp = "65536 - length q"
    let ?cs = "if length c \<le> ?sp then cs1 else drop ?sp c # cs1"
    have c: "c \<noteq> []" "[] \<notin> set cs1" using prems(4) Cons by auto
    have lq: "length q < 32768" by (rule partial_short [OF prems(2)])
    have cat: "(q @ take ?sp c) @ concat ?cs = concat (map (wire_frame (sv_be sv)) fs) @ q'"
      using prems(3) Cons append_take_drop_id [of ?sp c] by (auto simp del: append_take_drop_id) (metis append_assoc append_take_drop_id)
    obtain fs1 fs2 q1 where sp: "fs = fs1 @ fs2" "q @ take ?sp c = concat (map (wire_frame (sv_be sv)) fs1) @ q1"
        "partial_ok (sv_be sv) q1" "q1 @ concat ?cs = concat (map (wire_frame (sv_be sv)) fs2) @ q'"
      using split_frames [OF prems(1) assms(3) cat] by auto
    have less': "sum_list (map (Suc \<circ> length) ?cs) < sum_list (map (Suc \<circ> length) cs)" and ne: "[] \<notin> set ?cs"
      using lq c by (auto simp: Cons)
    have fok: "list_all frame_ok fs1" "list_all frame_ok fs2" using prems(1) by (simp_all add: sp(1))
    obtain b1 r0 where b1: "length b1 = 65536" "take (length q1) b1 = q1" "r0 \<noteq> eSocketClose"
      "recv_loop sv on_conn (map Arrived cs) (ret, vec, s, w) =
        rbind (packets_fold sv on_conn fs1 (r0, vec, s, w)) (\<lambda>(ret, vec, s, w).
          recv_loop sv on_conn (map Arrived ?cs) (ret, vec, with_buf b1 (int (length q1)) s, w))"
      using recv_loop_one [OF assms(1) fok(1) prems(2) sp(3) prems(5-7) c(1) sp(2) refl prems(8), of cs1 vec w, folded Cons]
      by blast
    have fold: "without_ret (packets_fold sv on_conn fs (0, vec, s, w)) =
        without_ret (packets_fold sv on_conn fs (r0, vec, s, w))" by (rule packets_fold_any_ret)
    show ?thesis
    proof (cases "packets_fold sv on_conn fs1 (r0, vec, s, w)")
      case (Inl e)
      then show ?thesis
        using b1(4) partial_short [OF assms(3)]
        by (intro exI [of _ "q' @ replicate (65536 - length q') NUL"])
          (simp add: fold, simp add: sp(1) packets_fold_append without_ret_def without_rets_def)
    next
      case (Inr r)
      obtain ret1 vec1 s1 w1 where r: "r = (ret1, vec1, s1, w1)" by (cases r)
      let ?s1 = "with_buf b1 (int (length q1)) s1"
      have ret1: "ret1 \<noteq> eSocketClose"
        using packets_fold_keeps [OF assms(1) Inr [unfolded r] b1(3)] by simp
      obtain b where b: "length b = 65536" "take (length q') b = q'"
        "without_rets (recv_loop sv on_conn (map Arrived ?cs) (ret1, vec1, ?s1, w1)) =
          rbind (without_ret (packets_fold sv on_conn fs2 (0, vec1, ?s1, w1))) (\<lambda>(vec, s, w).
            Inr (True, vec, with_buf b (int (length q')) s, w))"
        using less.hyps [OF less' fok(2) sp(3,4) ne _ _ _ ret1, of ?s1 vec1 w1] b1 by auto
      have "without_ret (packets_fold sv on_conn fs (r0, vec, s, w)) = without_ret (packets_fold sv on_conn fs2 (0, vec1, s1, w1))"
        using packets_fold_any_ret [of sv on_conn fs2 ret1 "(vec1, s1, w1)" 0]
        by (simp add: sp(1) packets_fold_append Inr r)
      moreover have "without_ret (packets_fold sv on_conn fs2 (0, vec1, ?s1, w1)) =
          rbind (without_ret (packets_fold sv on_conn fs2 (0, vec1, s1, w1))) (\<lambda>(vec, s, w).
            Inr (vec, with_buf b1 (int (length q1)) s, w))"
        by (cases "packets_fold sv on_conn fs2 (0, vec1, s1, w1)")
          (auto simp: packets_fold_with_buf [OF assms(1)] without_ret_def)
      moreover have "recv_loop sv on_conn (map Arrived cs) (ret, vec, s, w) =
          recv_loop sv on_conn (map Arrived ?cs) (ret1, vec1, ?s1, w1)"
        by (simp add: b1(4) Inr r)
      ultimately show ?thesis
        using b by (intro exI [of _ b])
          (cases "without_ret (packets_fold sv on_conn fs2 (0, vec1, s1, w1))", auto simp: fold)
    qed
  qed
qed

text \<open>The session has received \<open>q\<close> and not yet used it.\<close>

definition holds :: "char list \<Rightarrow> net_session \<Rightarrow> bool" where
  "holds q s \<longleftrightarrow> ns_pos s = int (length q) \<and> take (length q) (ns_bufRecv s) = q \<and> length (ns_bufRecv s) = 65536"

lemma Session_Recv_stream:
  assumes "conn_keeps on_conn" "list_all frame_ok fs" "partial_ok (sv_be sv) q'" "partial_ok (sv_be sv) q" "holds q s"
    and "q @ concat cs = concat (map (wire_frame (sv_be sv)) fs) @ q'" "[] \<notin> set cs"
  shows "\<exists>b. length b = 65536 \<and> take (length q') b = q' \<and>
    Session_Recv sv on_conn now (map Arrived cs) s w =
    rbind (packets_fold sv on_conn fs (0, [], s, w)) (\<lambda>(ret, vec, s, w).
      case count_packets now (with_buf b (int (length q')) s) of (code, s) \<Rightarrow> Inr (code, vec, s, w))"
proof -
  obtain b where b: "length b = 65536" "take (length q') b = q'"
    "without_rets (recv_loop sv on_conn (map Arrived cs) (0, [], s, w)) =
      rbind (without_ret (packets_fold sv on_conn fs (0, [], s, w))) (\<lambda>(vec, s, w).
        Inr (True, vec, with_buf b (int (length q')) s, w))"
    using recv_loop_stream [OF assms(1-4,6,7), of s 0 "[]" w] assms(5) by (auto simp: holds_def eSocketClose_def)
  let ?b = "put 0 q' b"
  have lq: "length q' \<le> 65536" using partial_short [OF assms(3)] by simp
  have pb: "length ?b = 65536" "take (length q') ?b = q'" using put_front [of q' b] b(1) lq by simp_all
  have rv: "Session_Recv_vec sv on_conn vec (with_buf b (int (length q')) s) w =
      Inr (0, vec, with_buf ?b (int (length q')) s, w)" for vec s w
    using recv_vec_frames [OF assms(1) _ assms(3), of "[]" q' b vec s w] b lq by simp
  show ?thesis
  proof (cases "packets_fold sv on_conn fs (0, [], s, w)")
    case (Inl e)
    with b(3) have "recv_loop sv on_conn (map Arrived cs) (0, [], s, w) = Inl e"
      by (cases "recv_loop sv on_conn (map Arrived cs) (0, [], s, w)") (auto simp: without_rets_def without_ret_def)
    with pb show ?thesis by (intro exI [of _ ?b]) (simp add: Session_Recv_def Inl)
  next
    case (Inr r)
    obtain ret1 vec1 s1 w1 where r: "r = (ret1, vec1, s1, w1)" by (cases r)
    have "without_rets (recv_loop sv on_conn (map Arrived cs) (0, [], s, w)) = Inr (True, vec1, with_buf b (int (length q')) s1, w1)"
      using b(3) by (simp add: Inr r without_ret_def)
    then obtain ret2 where "recv_loop sv on_conn (map Arrived cs) (0, [], s, w) =
        Inr (True, ret2, vec1, with_buf b (int (length q')) s1, w1)"
      by (cases "recv_loop sv on_conn (map Arrived cs) (0, [], s, w)") (auto simp: without_rets_def)
    with pb show ?thesis
      by (intro exI [of _ ?b]) (simp add: Session_Recv_def Inr r rv eSocketClose_def Let_def)
  qed
qed

section \<open>Data packets\<close>

text \<open>What a handler sees of a message, and what it should see of a packet.\<close>

definition seen :: "net_message \<Rightarrow> u32 \<times> u8 \<times> u32 \<times> u8 \<times> int \<times> char list" where
  "seen m = (nm_messageID m, nm_messageType m, nm_reqID m, nm_remoteType m, nm_channelID m, body m)"

definition signed_part :: "char list \<Rightarrow> char list" where
  "signed_part b = take (length b - 16) b"

definition expected :: "net_session \<Rightarrow> packet_header \<times> char list \<Rightarrow> u32 \<times> u8 \<times> u32 \<times> u8 \<times> int \<times> char list" where
  "expected s f = (case f of (h, b) \<Rightarrow> (ph_messageID h, ph_messageType h, ph_reqID h, ph_localType h, ns_sock s,
     if ns_security s then signed_part b else b))"

definition accepted :: "server \<Rightarrow> net_session \<Rightarrow> packet_header \<times> char list \<Rightarrow> bool" where
  "accepted sv s f = (case f of (h, b) \<Rightarrow>
     ph_remoteID h = sv_local_id sv \<and> ph_remoteType h = sv_local_type sv \<and> (ph_security h \<noteq> 0) = ns_security s \<and>
     (ns_security s \<longrightarrow> cstr (digest_of (signed_part b)) = cstr (drop (length b - 16) b)))"

text \<open>A packet that is not about the connection; with a signature, if the session has them.\<close>

definition data_packet :: "net_session \<Rightarrow> packet_header \<times> char list \<Rightarrow> bool" where
  "data_packet s f = (frame_ok f \<and> ph_messageType (fst f) \<noteq> ConnMessage \<and> (ns_security s \<longrightarrow> 16 \<le> length (snd f)))"

text \<open>The message of a packet: its fields, and what only the manager looks at.\<close>

definition message_fields :: "net_session \<Rightarrow> packet_header \<Rightarrow> net_message \<Rightarrow> bool" where
  "message_fields s h m \<longleftrightarrow> nm_messageType m = ph_messageType h \<and> body_ok m \<and> nm_localID m = ph_remoteID h \<and>
     nm_localType m = ph_remoteType h \<and> nm_group m = ns_group s \<and> nm_addr m = ns_addr s"

lemma packet_message_any:
  assumes "md5_mem_ok (sv_md5 sv)" "frame_ok (h, b)" "ns_security s \<Longrightarrow> 16 \<le> length b"
  shows "\<exists>mo. packet_message sv h b s = Inr mo \<and> map_option seen mo = (if accepted sv s (h, b) then Some (expected s (h, b)) else None) \<and>
    (\<forall>m. mo = Some m \<longrightarrow> message_fields s h m)"
proof -
  let ?m0 = "SetHead h (Message_remote (sv_old sv) (sint (ns_remoteID s)) (ucast (ns_remoteType s)))"
  let ?addr = "\<lambda>m. m\<lparr>nm_addr := ns_addr s, nm_channelID := ns_sock s, nm_group := ns_group s,
                 nm_loopIndex := (drop_bit 8 (ns_flag s)) AND 0xff\<rparr>"
  have f: "sint (ph_length h) = int (length b)" "length b + HEADER_SIZE \<le> 32768"
    using assms(2) by (simp_all add: frame_ok_def)
  show ?thesis
  proof (cases "ph_remoteID h = sv_local_id sv \<and> ph_remoteType h = sv_local_type sv \<and> nm_security ?m0 = ns_security s")
    case False
    then show ?thesis
      by (auto simp: packet_message_def Let_def accepted_def SetHead_def)
  next
    case True
    have "1024 \<le> length (nm_content ?m0)"
      by (simp add: SetHead_def Message_remote_def Message_plain_def MAX_RECV_MSG_CONTENT_SIZE_def)
    then obtain m where m: "SetContent (sv_old sv) b (int (length b)) ?m0 = Inr m" "body_ok m" "body m = b"
        "nm_length m = int (length b)" "m = ?m0\<lparr>nm_content := nm_content m, nm_length := int (length b)\<rparr>"
        "nm_content m = b @ drop (length b) (nm_content m)"
      using SetContent_ok [of "int (length b)" b ?m0 "sv_old sv"] f(2)
      by (auto simp: MAX_MSG_PACKET_SIZE_def)
    have m5: "nm_security m = (ph_security h \<noteq> 0)" "nm_messageType m = ph_messageType h" "nm_messageID m = ph_messageID h"
        "nm_reqID m = ph_reqID h" "nm_remoteType m = ph_localType h"
        "nm_localID m = ph_remoteID h" "nm_localType m = ph_remoteType h"
      by (subst m(5), simp add: SetHead_def)+
    have sec: "nm_security m = ns_security s" using True m5(1) by (simp add: SetHead_def)
    have pm: "packet_message sv h b s = rbind (UnEncryptMessage (sv_md5 sv) (?addr m)) (\<lambda>(good, m). Inr (if good then Some m else None))"
      using True by (simp add: packet_message_def Let_def f(1) m(1))
    show ?thesis
    proof (cases "ns_security s")
      case False
      with True sec m m5 show ?thesis
        by (auto simp: pm UnEncryptMessage_def accepted_def expected_def seen_def body_def message_fields_def body_ok_def)
    next
      case secure: True
      then have b16: "16 \<le> length b" using assms(3) by simp
      have lc: "length b + 16 \<le> length (nm_content m)" using m(2,4) by (simp add: body_ok_def)
      let ?n = "length b - 16"
      have parts: "take ?n (nm_content m) = signed_part b" "blk ?n 16 (nm_content m) = drop ?n b"
        using b16 by (subst m(6), simp add: signed_part_def blk_def)+
      have "UnEncryptMessage (sv_md5 sv) (?addr m) =
        (let n = nat (nm_length (?addr m) - 16);
             same = (cstr (digest_of (take n (nm_content (?addr m)))) = cstr (blk n 16 (nm_content (?addr m))))
         in Inr (same, if same then (?addr m)\<lparr>nm_length := nm_length (?addr m) - 16\<rparr> else ?addr m))"
        using assms(1) sec secure b16 lc m(4) f(2) by (intro UnEncryptMessage_secure) auto
      moreover have "nat (nm_length (?addr m) - 16) = ?n" using b16 m(4) by simp
      ultimately have "UnEncryptMessage (sv_md5 sv) (?addr m) =
        (let same = (cstr (digest_of (signed_part b)) = cstr (drop ?n b))
         in Inr (same, if same then (?addr m)\<lparr>nm_length := int ?n\<rparr> else ?addr m))"
        using b16 parts by (simp add: Let_def m(4) of_nat_diff)
      with True secure sec m5 parts lc f(2) show ?thesis
        by (auto simp: pm Let_def accepted_def expected_def seen_def body_def message_fields_def body_ok_def MAX_MSG_PACKET_SIZE_def)
    qed
  qed
qed

lemma packet_message_ok:
  assumes "md5_mem_ok (sv_md5 sv)" "data_packet s (h, b)"
  shows "\<exists>mo. packet_message sv h b s = Inr mo \<and> map_option seen mo = (if accepted sv s (h, b) then Some (expected s (h, b)) else None) \<and>
    (\<forall>m. mo = Some m \<longrightarrow> nm_messageType m \<noteq> ConnMessage)"
  using packet_message_any [OF assms(1), of h b s] assms(2) by (auto simp: data_packet_def message_fields_def)

lemma data_packets_fold:
  assumes "md5_mem_ok (sv_md5 sv)" "list_all (data_packet s) fs"
  shows "\<exists>ms r. packets_fold sv on_conn fs (ret, vec, s, w) =
      Inr (r, vec @ ms, s\<lparr>ns_recvCount := ns_recvCount s + int (length fs)\<rparr>, w) \<and>
    map seen ms = map (expected s) (filter (accepted sv s) fs)"
  using assms(2)
proof (induction fs arbitrary: ret vec s)
  case (Cons f fs)
  obtain h b where f: "f = (h, b)" by (cases f)
  let ?s = "s\<lparr>ns_recvCount := ns_recvCount s + 1\<rparr>"
  have same: "data_packet (s\<lparr>ns_recvCount := k\<rparr>) = data_packet s" "accepted sv (s\<lparr>ns_recvCount := k\<rparr>) = accepted sv s"
      "expected (s\<lparr>ns_recvCount := k\<rparr>) = expected s" for k
    by (auto simp: fun_eq_iff data_packet_def accepted_def expected_def split: prod.split)
  obtain mo where mo: "packet_message sv h b ?s = Inr mo"
      "map_option seen mo = (if accepted sv s f then Some (expected s f) else None)"
      "\<And>m. mo = Some m \<Longrightarrow> nm_messageType m \<noteq> ConnMessage"
    using packet_message_ok [OF assms(1), of ?s h b] Cons.prems by (auto simp: same f)
  have step: "\<exists>r. recv_packet sv on_conn h b (ret, vec, s, w) = Inr (r, vec @ (case mo of None \<Rightarrow> [] | Some m \<Rightarrow> [m]), ?s, w)"
    using mo(1,3) by (cases mo) (auto simp: recv_packet_def Session_AddMessage_def)
  then obtain r1 where r1: "recv_packet sv on_conn h b (ret, vec, s, w) = Inr (r1, vec @ (case mo of None \<Rightarrow> [] | Some m \<Rightarrow> [m]), ?s, w)" ..
  obtain ms r where "packets_fold sv on_conn fs (r1, vec @ (case mo of None \<Rightarrow> [] | Some m \<Rightarrow> [m]), ?s, w) =
      Inr (r, (vec @ (case mo of None \<Rightarrow> [] | Some m \<Rightarrow> [m])) @ ms, ?s\<lparr>ns_recvCount := ns_recvCount ?s + int (length fs)\<rparr>, w)"
      "map seen ms = map (expected ?s) (filter (accepted sv ?s) fs)"
    using Cons.IH [of ?s r1 "vec @ (case mo of None \<Rightarrow> [] | Some m \<Rightarrow> [m])"] Cons.prems by (auto simp: same)
  with r1 mo(2) show ?case
    by (intro exI [of _ "(case mo of None \<Rightarrow> [] | Some m \<Rightarrow> [m]) @ ms"] exI [of _ r])
      (cases mo; auto simp: f same add.commute split: if_splits)
qed simp

lemma session_stream:
  assumes "md5_mem_ok (sv_md5 sv)" "list_all (data_packet s) fs" "conn_keeps on_conn"
    and "partial_ok (sv_be sv) q'" "partial_ok (sv_be sv) q" "holds q s"
    and "q @ concat cs = concat (map (wire_frame (sv_be sv)) fs) @ q'" "[] \<notin> set cs"
  shows "\<exists>code ms s'. Session_Recv sv on_conn now (map Arrived cs) s w = Inr (code, ms, s', w) \<and>
    map seen ms = map (expected s) (filter (accepted sv s) fs) \<and> holds q' s'"
proof -
  have fok: "list_all frame_ok fs" using assms(2) by (simp add: list_all_iff data_packet_def)
  obtain ms r where fold: "packets_fold sv on_conn fs (0, [], s, w) =
      Inr (r, ms, s\<lparr>ns_recvCount := ns_recvCount s + int (length fs)\<rparr>, w)"
      "map seen ms = map (expected s) (filter (accepted sv s) fs)"
    using data_packets_fold [OF assms(1,2), of on_conn 0 "[]" w] by auto
  obtain b where b: "length b = 65536" "take (length q') b = q'"
    "Session_Recv sv on_conn now (map Arrived cs) s w =
      rbind (packets_fold sv on_conn fs (0, [], s, w)) (\<lambda>(ret, vec, s, w).
        case count_packets now (with_buf b (int (length q')) s) of (code, s) \<Rightarrow> Inr (code, vec, s, w))"
    using Session_Recv_stream [OF assms(3) fok assms(4-8)] by blast
  have "holds q' (snd (count_packets now (with_buf b (int (length q')) s)))" for s
    using b(1,2) by (auto simp: holds_def count_packets_def with_buf_def)
  with b(3) fold show ?thesis
    by (auto split: prod.splits) (metis snd_conv)
qed

text \<open>
  The interface of the layer that takes the connection packets: it does not look at the receive
  buffer, and does not answer with the code that closes the socket.
\<close>

locale conn_layer =
  fixes on_conn :: "'w conn_handler"
  assumes buffer_apart: "on_conn m (with_buf b n s) w = rbind (on_conn m s w) (\<lambda>(r, s, w). Inr (r, with_buf b n s, w))"
    and no_close: "on_conn m s w = Inr (r, s', w') \<Longrightarrow> r \<noteq> eSocketClose"
begin

lemma keeps: "conn_keeps on_conn"
  unfolding conn_keeps_def using buffer_apart no_close by blast

lemma delivers:
  assumes "md5_mem_ok (sv_md5 sv)" "list_all (data_packet s) fs" "partial_ok (sv_be sv) q'" "partial_ok (sv_be sv) q" "holds q s"
    and "q @ concat cs = concat (map (wire_frame (sv_be sv)) fs) @ q'" "[] \<notin> set cs"
  shows "\<exists>code ms s'. Session_Recv sv on_conn now (map Arrived cs) s w = Inr (code, ms, s', w) \<and>
    map seen ms = map (expected s) (filter (accepted sv s) fs) \<and> holds q' s'"
  using assms by (intro session_stream keeps)

end

lemma partial_nil: "partial_ok be []"
proof -
  let ?h = "sHeader\<lparr>ph_remoteID := 0\<rparr>"
  have "frame_ok (?h, [])" by (simp add: frame_ok_def header_bad_def sHeader_def HEADER_SIZE_def eMax_def)
  then show ?thesis unfolding partial_ok_def
    by (intro exI [of _ "(?h, [])"]) (simp add: HEADER_SIZE_def)
qed

text \<open>
  C3. A stream of data packets reaches a session in pieces of any sizes, over any number of
  \<open>recv\<close>s: the dispatcher gets exactly the messages of the packets that are for this server and
  carry the right signature, in order, each with the numbers and the body it was sent with; the
  bytes of a packet that is not complete yet stay in the buffer for the next event. Packets are
  at most 32768 bytes long, half the receive buffer.
\<close>

theorem session_delivers_stream:
  assumes "md5_mem_ok (sv_md5 sv)" "list_all (data_packet s) fs" "conn_keeps on_conn"
    and "partial_ok (sv_be sv) q'" "partial_ok (sv_be sv) q" "holds q s"
    and "q @ concat cs = concat (map (wire_frame (sv_be sv)) fs) @ q'" "[] \<notin> set cs"
  shows "\<exists>code ms s'. Session_Recv sv on_conn now (map Arrived cs) s w = Inr (code, ms, s', w) \<and>
    map seen ms = map (expected s) (filter (accepted sv s) fs) \<and> holds q' s'"
  using assms by (rule session_stream)

definition demo_server :: "u16 \<Rightarrow> u8 \<Rightarrow> server" where
  "demo_server lid ltype = \<lparr>sv_local_id = lid, sv_local_type = ltype, sv_be = False, sv_old = (\<lambda>_. CHR ''x''), sv_md5 = blank_md5\<rparr>"

definition quiet_conn :: "unit conn_handler" where
  "quiet_conn m s w = Inr (1, s, w)"

lemma quiet_conn_keeps: "conn_keeps quiet_conn"
  by (simp add: conn_keeps_def quiet_conn_def eSocketClose_def)

definition demo_frame :: "packet_header \<times> char list" where
  "demo_frame = (\<lparr>ph_length = 5, ph_security = 0, ph_remoteType = 2, ph_remoteID = 7, ph_localType = 1,
     ph_messageID = 99, ph_messageType = 1, ph_reqID = 3, ph_sendTime = 0\<rparr>, ''Hello'')"

theorem session_delivers_stream_witness:
  "\<exists>code ms s'. Session_Recv (demo_server 7 2) quiet_conn 0
      (map Arrived [take 10 (wire_frame False demo_frame), drop 10 (wire_frame False demo_frame)])
      (Session_new (demo_server 7 2) 9 0 (0, 0) False) () = Inr (code, ms, s', ()) \<and>
    map seen ms = [(99, 1, 3, 1, 9, ''Hello'')]"
proof -
  let ?sv = "demo_server 7 2" and ?s = "Session_new (demo_server 7 2) 9 0 (0, 0) False"
  let ?cs = "[take 10 (wire_frame False demo_frame), drop 10 (wire_frame False demo_frame)]"
  have fr: "data_packet ?s demo_frame" "accepted ?sv ?s demo_frame" "expected ?s demo_frame = (99, 1, 3, 1, 9, ''Hello'')"
    by (simp_all add: data_packet_def frame_ok_def header_bad_def demo_frame_def accepted_def expected_def demo_server_def
      Session_new_def HEADER_SIZE_def eMax_def ConnMessage_def SystemMessage_def linorder_not_le)
  have ne: "[] \<notin> set ?cs" using length_wire_frame [of False demo_frame] wire_frame_nonempty [of False demo_frame]
    by (auto simp: demo_frame_def HEADER_SIZE_def)
  have "\<exists>code ms s'. Session_Recv ?sv quiet_conn 0 (map Arrived ?cs) ?s () = Inr (code, ms, s', ()) \<and>
    map seen ms = map (expected ?s) (filter (accepted ?sv ?s) [demo_frame]) \<and> holds [] s'"
    by (rule session_delivers_stream [where q = "[]"])
      (use fr ne partial_nil quiet_conn_keeps in \<open>auto simp: demo_server_def Session_new_def md5_mem_ok_def blank_md5_def
        holds_def MAX_RECV_MSG_SIZE_def\<close>)
  then show ?thesis using fr(2,3) by auto
qed

end
