(* ===== verification/SessionLimits.thy ===== *)
theory SessionLimits
  imports SessionStream
begin

text \<open>
  What a session does with packets it should not get: too long for its buffer, with impossible
  lengths, too long for a message, or just before the peer closes.
\<close>

lemma header_at_front:
  assumes "p = header_image be (toBigEndian be h) @ r" "length p \<le> length m"
  shows "toBigEndian be (header_at be (blk 0 HEADER_SIZE (put 0 p m))) = h"
proof -
  have "blk 0 HEADER_SIZE (put 0 p m) = header_image be (toBigEndian be h)"
    using assms by (simp add: put_def blk_def)
  then show ?thesis using header_at_image [of be "toBigEndian be h" "[]"] by simp
qed

lemma recv_loop_Nil: "recv_loop sv on_conn [] (ret, vec, s, w) = Inr (True, ret, vec, s, w)"
  by (simp add: recv_loop.simps)

text \<open>A session without pending bytes gets some that start with a header it accepts.\<close>

lemma first_arrival:
  assumes "holds [] s" "p = header_image (sv_be sv) (toBigEndian (sv_be sv) h) @ r" "length p \<le> 65536" "\<not> header_bad h"
    and "s1 = with_buf (put 0 p (ns_bufRecv s)) (int (length p)) s"
  shows "recv_loop sv on_conn [Arrived p] (ret, vec, s, w) =
    rbind (rbind (c_int (sint (ph_length h) + int HEADER_SIZE)) (\<lambda>n.
        if MAX_MSG_PACKET_SIZE < n then Inr (bad_packet (0, vec, s1, w))
        else if int (length p) < n then keep_rest 0 (int (length p)) (0, vec, s1, w)
        else rbind (recv_packet sv on_conn h (drop HEADER_SIZE (ns_bufRecv s1)) (0, vec, s1, w)) (\<lambda>st.
          if int (length p) - n \<le> 0 then Inr (case st of (ret, vec, s, w) \<Rightarrow> (ret, vec, s\<lparr>ns_pos := 0\<rparr>, w))
          else recv_packets sv on_conn (nat n) (int (length p) - n) st)))
     (\<lambda>(ret, vec, s, w). if ret = eSocketClose then Inr (False, ret, vec, s, w) else Inr (True, ret, vec, s, w))"
proof -
  have p: "p \<noteq> []" "HEADER_SIZE \<le> length p" using assms(2) by (auto simp: HEADER_SIZE_def header_image_def)
  have h: "toBigEndian (sv_be sv) (header_at (sv_be sv) (blk 0 HEADER_SIZE (put 0 p (ns_bufRecv s)))) = h"
    using assms(1,3) by (intro header_at_front [OF assms(2)]) (simp add: holds_def)
  have mv: "SafeMemmove 0 (int HEADER_SIZE) (drop 0 (ns_bufRecv s1)) (int HEADER_SIZE) (replicate HEADER_SIZE NUL) =
      Inr (0, blk 0 HEADER_SIZE (ns_bufRecv s1))"
    using assms(1,3,5) p by (intro move_header) (auto simp: holds_def)
  have "recv_loop sv on_conn (map Arrived [p]) (ret, vec, s, w) =
      rbind (Session_Recv_vec sv on_conn vec s1 w) (\<lambda>(ret, vec, s, w).
       if ret = eSocketClose then Inr (False, ret, vec, s, w) else recv_loop sv on_conn [] (ret, vec, s, w))"
    using recv_loop_arrival [of s "[]" p "take (65536 - length []) p" "[]" "[]" s1] assms(1,3,5) p
    by (simp add: holds_def cong: if_cong)
  also have "Session_Recv_vec sv on_conn vec s1 w = recv_packets sv on_conn 0 (int (length p)) (0, vec, s1, w)"
    by (simp add: Session_Recv_vec_def assms(5))
  finally show ?thesis
    using p(2) assms(4)
    by (subst (asm) recv_packets.simps) (simp add: mv [unfolded assms(5) drop_0 with_buf_fields] h assms(5) Let_def recv_loop_Nil cong: if_cong)
qed

text \<open>
  C31. A packet of more than 32768 bytes is lost unless it arrives at one stroke: when the first
  part of it is longer than half the receive buffer, the session drops that part (it measures
  the room for the bytes it wants to move to the front of the buffer as if they had to fit behind
  themselves), and takes what arrives next for a header.
\<close>

theorem session_drops_long_packet:
  assumes "holds [] s" "\<not> header_bad h" "sint (ph_length h) = int (length b)" "length b + HEADER_SIZE \<le> 65536"
    and "p = take k (wire_frame (sv_be sv) (h, b))" "32768 < k" "k < length (wire_frame (sv_be sv) (h, b))"
  shows "\<exists>code s'. Session_Recv sv on_conn now [Arrived p] s w = Inr (code, [], s', w) \<and> holds [] s'"
proof -
  let ?s1 = "with_buf (put 0 p (ns_bufRecv s)) (int (length p)) s"
  have k: "length p = k" "k \<le> 65536" using assms(4-7) by auto
  have p: "p = header_image (sv_be sv) (toBigEndian (sv_be sv) h) @ take (k - HEADER_SIZE) b"
    using assms(5,6) by (simp add: wire_frame_def HEADER_SIZE_def)
  have t: "c_int (int (length b) + int HEADER_SIZE) = Inr (int (length b) + int HEADER_SIZE)"
    using assms(4) by (intro c_int_ok) auto
  have kr: "keep_rest 0 (int (length p)) (0, vec, ?s1, w) = Inr (0, vec, ?s1\<lparr>ns_pos := 0\<rparr>, w)" for vec
    using assms(6) k by (simp add: keep_rest_def SafeMemmove_def MAX_RECV_MSG_SIZE_def with_buf_def)
  have "recv_loop sv on_conn [Arrived p] (0, [], s, w) = Inr (True, 0, [], ?s1\<lparr>ns_pos := 0\<rparr>, w)"
    using first_arrival [OF assms(1) p _ assms(2) refl, of on_conn 0 "[]" w] k assms(4,7) kr [of "[]"] t
    by (simp add: assms(3) MAX_MSG_PACKET_SIZE_def eSocketClose_def)
  moreover have "Session_Recv_vec sv on_conn [] (?s1\<lparr>ns_pos := 0\<rparr>) w = Inr (0, [], ?s1\<lparr>ns_pos := 0\<rparr>, w)"
    by (simp add: Session_Recv_vec_def recv_packets.simps HEADER_SIZE_def keep_rest_def SafeMemmove_def MAX_RECV_MSG_SIZE_def with_buf_def)
  moreover have "holds [] (snd (count_packets now (?s1\<lparr>ns_pos := 0\<rparr>)))"
    using assms(1) k by (simp add: holds_def count_packets_def with_buf_def)
  ultimately show ?thesis
    by (auto simp: Session_Recv_def eSocketClose_def split: prod.splits)
qed

definition long_frame :: "packet_header \<times> char list" where
  "long_frame = (\<lparr>ph_length = 40000, ph_security = 0, ph_remoteType = 2, ph_remoteID = 7, ph_localType = 1,
     ph_messageID = 99, ph_messageType = 1, ph_reqID = 3, ph_sendTime = 0\<rparr>, replicate 40000 CHR ''a'')"

lemma new_session_holds: "holds [] (Session_new sv fd flag addr sec)"
  by (simp add: holds_def Session_new_def MAX_RECV_MSG_SIZE_def)

theorem session_drops_long_packet_witness:
  "\<exists>code s'. Session_Recv (demo_server 7 2) quiet_conn 0 [Arrived (take 33000 (wire_frame False long_frame))]
      (Session_new (demo_server 7 2) 9 0 (0, 0) False) () = Inr (code, [], s', ()) \<and> holds [] s'"
proof -
  have f: "\<not> header_bad (fst long_frame)" "sint (ph_length (fst long_frame)) = int (length (snd long_frame))"
    by (simp_all add: long_frame_def header_bad_def eMax_def SystemMessage_def linorder_not_le)
  have l: "length (snd long_frame) = 40000" by (simp add: long_frame_def)
  have be: "sv_be (demo_server 7 2) = False" by (simp add: demo_server_def)
  have "32768 < (33000::nat)" "33000 < length (wire_frame (sv_be (demo_server 7 2)) long_frame)"
    by (simp_all add: l HEADER_SIZE_def)
  then show ?thesis
    using session_drops_long_packet [OF new_session_holds f, where sv = "demo_server 7 2" and k = 33000, OF _ refl] l be
    by (simp add: HEADER_SIZE_def)
qed

text \<open>
  C39. A header that announces nearly the whole range of an \<open>int\<close> makes the sum with the size of the
  header overflow before the length is compared with its limit: a peer of any kind can do this
  with the first bytes it sends.
\<close>

theorem session_length_overflow:
  assumes "holds [] s" "\<not> header_bad h" "2 ^ 31 - int HEADER_SIZE \<le> sint (ph_length h)" "length b \<le> 1024"
  shows "Session_Recv sv on_conn now [Arrived (wire_frame (sv_be sv) (h, b))] s w = Inl Overflow"
proof -
  have o: "c_int (sint (ph_length h) + int HEADER_SIZE) = Inl Overflow"
    using assms(3) by (simp add: c_int_def)
  have "recv_loop sv on_conn [Arrived (wire_frame (sv_be sv) (h, b))] (0, [], s, w) = Inl Overflow"
    by (subst first_arrival [OF assms(1) _ _ assms(2) refl, where r = b])
      (use assms(4) in \<open>simp_all add: wire_frame_def o del: length_wire_frame, simp add: HEADER_SIZE_def\<close>)
  then show ?thesis by (simp add: Session_Recv_def)
qed

theorem session_length_overflow_witness:
  "Session_Recv (demo_server 7 2) quiet_conn 0 [Arrived (wire_frame (sv_be (demo_server 7 2))
      (\<lparr>ph_length = 0x7FFFFFFF, ph_security = 0, ph_remoteType = 0, ph_remoteID = 0, ph_localType = 0,
       ph_messageID = 0, ph_messageType = 0, ph_reqID = 0, ph_sendTime = 0\<rparr>, []))]
    (Session_new (demo_server 7 2) 9 0 (0, 0) False) () = Inl Overflow"
  by (rule session_length_overflow [OF new_session_holds])
    (simp_all add: header_bad_def eMax_def SystemMessage_def HEADER_SIZE_def linorder_not_le)

text \<open>One \<open>recv\<close>: it ends the loop, or goes on with what follows or the rest of the same bytes.\<close>

lemma recv_loop_turn:
  assumes "recv_loop sv on_conn (Arrived c # evs) (ret, vec, s, w) = Inr (go, ret', vec', s', w')"
  shows "\<not> go \<and> ret' = eSocketClose \<or> (\<exists>evs' st. recv_loop sv on_conn evs' st = Inr (go, ret', vec', s', w') \<and>
    (evs' = evs \<or> (\<exists>d. evs' = Arrived d # evs \<and> length d < length c)))"
proof -
  define space where "space = nat (MAX_RECV_MSG_SIZE - ns_pos s)"
  define evs' where "evs' = (if length c \<le> space then evs else Arrived (drop space c) # evs)"
  note eq = assms [unfolded recv_loop.simps [of sv on_conn "Arrived c # evs"] list.case sock_event.case Let_def,
      folded space_def, folded evs'_def]
  show ?thesis
  proof (cases "take space c = []")
    case True
    with eq show ?thesis by simp
  next
    case False
    then have "evs' = evs \<or> (\<exists>d. evs' = Arrived d # evs \<and> length d < length c)"
      by (auto simp: evs'_def)
    moreover have "\<not> go \<and> ret' = eSocketClose \<or> (\<exists>st. recv_loop sv on_conn evs' st = Inr (go, ret', vec', s', w'))"
      using eq False by (auto simp: rbind_Inr_iff split: if_splits)
    ultimately show ?thesis by blast
  qed
qed

text \<open>Whatever was received before it: the end of the stream closes.\<close>

lemma recv_loop_closed:
  assumes "recv_loop sv on_conn (map Arrived cs @ [PeerClosed]) (ret, vec, s, w) = Inr (go, ret', vec', s', w')"
  shows "\<not> go \<and> ret' = eSocketClose"
  using assms
proof (induction "sum_list (map (Suc \<circ> length) cs)" arbitrary: cs ret vec s w rule: less_induct)
  case less
  show ?case
  proof (cases cs)
    case Nil
    with less.prems show ?thesis by (simp add: recv_loop.simps)
  next
    case (Cons c ds)
    then consider "\<not> go \<and> ret' = eSocketClose" | es st where "recv_loop sv on_conn (map Arrived es @ [PeerClosed]) st = Inr (go, ret', vec', s', w')"
        "es = ds \<or> (\<exists>d. es = d # ds \<and> length d < length c)"
      using recv_loop_turn [of sv on_conn c "map Arrived ds @ [PeerClosed]" ret vec s w go ret' vec' s' w'] less.prems
      by (auto; metis append_Cons list.simps(9))
    then show ?thesis
    proof cases
      case 2
      obtain r v s1 w1 where st: "st = (r, v, s1, w1)" by (cases st)
      have "sum_list (map (Suc \<circ> length) es) < sum_list (map (Suc \<circ> length) cs)" using 2(2) Cons by auto
      then show ?thesis by (rule less.hyps [OF _ 2(1) [unfolded st]])
    qed
  qed
qed

text \<open>
  When the peer closes, whatever whole messages arrived in the same event are lost: they were
  received before the end of the stream, but only the code that closes the session is returned.
\<close>

theorem session_close_drops:
  assumes "Session_Recv sv on_conn now (map Arrived cs @ [PeerClosed]) s w = Inr (code, ms, s', w')"
  shows "code = eSocketClose \<and> ms = []"
proof -
  obtain go ret vec s1 w1 where r: "recv_loop sv on_conn (map Arrived cs @ [PeerClosed]) (0, [], s, w) = Inr (go, ret, vec, s1, w1)"
    using assms by (auto simp: Session_Recv_def rbind_Inr_iff)
  show ?thesis using recv_loop_closed [OF r] assms by (simp add: Session_Recv_def r)
qed

theorem session_close_drops_witness:
  "\<exists>s'. Session_Recv (demo_server 7 2) quiet_conn 0 [Arrived ''Hello'', PeerClosed]
    (Session_new (demo_server 7 2) 9 0 (0, 0) False) () = Inr (eSocketClose, [], s', ())"
proof -
  let ?s = "Session_new (demo_server 7 2) 9 0 (0, 0) False"
  have "\<exists>code ms s' w'. Session_Recv (demo_server 7 2) quiet_conn 0 (map Arrived [''Hello''] @ [PeerClosed]) ?s () = Inr (code, ms, s', w')"
    by (simp add: Session_Recv_def recv_loop.simps Session_new_def copy_in_def MAX_RECV_MSG_SIZE_def HEADER_SIZE_def Let_def)
  then show ?thesis
    using session_close_drops [where cs = "[''Hello'']" and s = ?s and sv = "demo_server 7 2" and on_conn = quiet_conn and now = 0] by fastforce
qed

text \<open>
  A body of 65495 to 65510 bytes passes the length check of the receiver, but the message
  refuses to store it and keeps the announced length: the dispatcher gets a message that claims
  more bytes than its block of 1024 has.
\<close>

theorem session_oversized_body:
  assumes "sint (ph_length h) = n" "65494 < n" "n \<le> 65510" "ph_security h = 0" "\<not> ns_security s"
    and "ph_remoteID h = sv_local_id sv" "ph_remoteType h = sv_local_type sv"
  shows "\<exists>m. packet_message sv h b s = Inr (Some m) \<and> nm_length m = n \<and> length (nm_content m) = 1024"
proof -
  have "c_int (n + int HEADER_SIZE + 16) = Inr (n + int HEADER_SIZE + 16)"
    using assms(2,3) by (intro c_int_ok) (auto simp: HEADER_SIZE_def)
  then have "SetContent (sv_old sv) b n m = Inr m" for m
    using assms(2) by (simp add: SetContent_def HEADER_SIZE_def MAX_MSG_PACKET_SIZE_def)
  then show ?thesis
    using assms by (simp add: packet_message_def Let_def SetHead_def UnEncryptMessage_def
      Message_remote_def Message_plain_def MAX_RECV_MSG_CONTENT_SIZE_def)
qed

theorem session_oversized_body_witness:
  "\<exists>m. packet_message (demo_server 7 2) (fst long_frame\<lparr>ph_length := 65500\<rparr>) (replicate 65500 CHR ''a'')
      (Session_new (demo_server 7 2) 9 0 (0, 0) False) = Inr (Some m) \<and> nm_length m = 65500 \<and> length (nm_content m) = 1024"
  by (rule session_oversized_body) (simp_all add: long_frame_def demo_server_def Session_new_def)

end
