(* ===== verification/OrdMap.thy ===== *)
theory OrdMap
  imports Prelude
begin

text \<open>
  The \<open>std::map\<close> of the C++ code: the list of its entries in the order of the keys, as the
  iterators walk it. \<open>map_of\<close> is \<open>find\<close>.
\<close>

primrec map_put :: "'k::linorder \<Rightarrow> 'v \<Rightarrow> ('k \<times> 'v) list \<Rightarrow> ('k \<times> 'v) list" where
  "map_put k v [] = [(k, v)]"
| "map_put k v (p # m) = (if k < fst p then (k, v) # p # m else if k = fst p then (k, v) # m else p # map_put k v m)"

definition map_erase :: "'k \<Rightarrow> ('k \<times> 'v) list \<Rightarrow> ('k \<times> 'v) list" where
  "map_erase k m = filter (\<lambda>p. fst p \<noteq> k) m"

definition ordered :: "('k::linorder \<times> 'v) list \<Rightarrow> bool" where
  "ordered m \<longleftrightarrow> sorted_wrt (<) (map fst m)"

lemma ordered_Nil [simp]: "ordered []" by (simp add: ordered_def)

lemma ordered_Cons [simp]: "ordered (p # m) \<longleftrightarrow> (\<forall>k \<in> fst ` set m. fst p < k) \<and> ordered m"
  by (simp add: ordered_def)

lemma dom_map_put [simp]: "fst ` set (map_put k v m) = insert k (fst ` set m)"
  by (induction m) auto

lemma ordered_put [simp]: "ordered m \<Longrightarrow> ordered (map_put k v m)"
  by (induction m) auto

lemma map_of_put [simp]: "map_of (map_put k v m) = (map_of m)(k \<mapsto> v)" if "ordered m"
  using that
proof (induction m)
  case (Cons p m)
  then have "k < fst p \<Longrightarrow> map_of m k = None" by (auto simp: map_of_eq_None_iff)
  with Cons show ?case by (cases p) (auto simp: fun_eq_iff)
qed simp

lemma ordered_erase [simp]: "ordered m \<Longrightarrow> ordered (map_erase k m)"
  by (induction m) (auto simp: map_erase_def)

lemma map_of_erase [simp]: "map_of (map_erase k m) = (map_of m)(k := None)"
  by (induction m) (auto simp: map_erase_def)

lemma map_erase_absent: "map_of m k = None \<Longrightarrow> map_erase k m = m"
  by (auto simp: map_erase_def map_of_eq_None_iff image_iff intro!: filter_True)

lemma ordered_distinct: "ordered m \<Longrightarrow> distinct (map fst m)"
  by (induction m) auto

lemma ordered_in_set: "ordered m \<Longrightarrow> map_of m k = Some v \<longleftrightarrow> (k, v) \<in> set m"
  using ordered_distinct [of m] by (simp add: map_of_eq_Some_iff)

lemma map_of_filter:
  assumes "ordered m"
  shows "map_of (filter P m) k = (case map_of m k of None \<Rightarrow> None | Some v \<Rightarrow> if P (k, v) then Some v else None)"
  using assms
proof (induction m)
  case (Cons p m)
  then have "map_of m (fst p) = None" by (auto simp: map_of_eq_None_iff)
  with Cons show ?case by (cases p) (auto split: option.splits)
qed simp

lemma ordered_filter [simp]: "ordered m \<Longrightarrow> ordered (filter P m)"
  by (induction m) auto

text \<open>An \<open>int\<close> that is assigned a wider number in its range.\<close>

lemma sint_of_int: "- (2 ^ 31) \<le> x \<Longrightarrow> x < 2 ^ 31 \<Longrightarrow> sint (word_of_int x :: u32) = x"
proof -
  assume "- (2 ^ 31) \<le> x" "x < 2 ^ 31"
  then have "(x + 2 ^ 31) mod 2 ^ 32 = x + 2 ^ 31" by (intro mod_pos_pos_trivial) auto
  then show ?thesis using int_word_sint [where x = x and ?'a = 32] by simp
qed

end
