(* ===== verification/GroupSession.thy ===== *)
theory GroupSession
  imports OrdMap
begin

text \<open>
  \<open>CommBase/Network/GroupSession.h\<close> and \<open>GroupSession.cpp\<close>: several connections to the same peer
  make a group, known by the channel (the socket) of its first member. Messages are spread over
  the channels of a group by a key. Locks are left out.
\<close>

section \<open>State and operations\<close>

record group_info =
  gi_channel :: "int list"
  gi_count :: u8
  gi_slot :: u16

definition GroupSessionInfo_new :: group_info where
  "GroupSessionInfo_new = \<lparr>gi_channel = [], gi_count = 0, gi_slot = 0\<rparr>"

text \<open>\<open>key\<close> is an \<open>int\<close>; it is converted to \<open>size_t\<close> before the remainder is taken.\<close>

definition GetChannel :: "int \<Rightarrow> group_info \<Rightarrow> fault + int" where
  "GetChannel key g = (if gi_channel g = [] then Inl DivZero
     else rd (gi_channel g) (nat (usize key mod int (length (gi_channel g)))))"

definition gi_DeleteChannel :: "int \<Rightarrow> group_info \<Rightarrow> bool \<times> group_info" where
  "gi_DeleteChannel channelID g = (let ch = remove1 channelID (gi_channel g) in (length ch > 0, g\<lparr>gi_channel := ch\<rparr>))"

record group_session =
  gs_group :: "(u16 \<times> int) list"
  gs_groupChannel :: "(int \<times> group_info) list"

definition GroupSession_new :: group_session where
  "GroupSession_new = \<lparr>gs_group = [], gs_groupChannel = []\<rparr>"

text \<open>The entry of the first key that stands for the group.\<close>

definition group_key :: "int \<Rightarrow> (u16 \<times> int) list \<Rightarrow> u16 option" where
  "group_key g m = (case filter (\<lambda>p. snd p = g) m of [] \<Rightarrow> None | p # _ \<Rightarrow> Some (fst p))"

definition DeleteGroupSession :: "int \<Rightarrow> int \<Rightarrow> group_session \<Rightarrow> group_session" where
  "DeleteGroupSession grp channel gs =
     (case map_of (gs_groupChannel gs) grp of
        None \<Rightarrow> gs
      | Some info \<Rightarrow>
          (case gi_DeleteChannel channel info of (left, info) \<Rightarrow>
           let gs = gs\<lparr>gs_groupChannel := map_put grp info (gs_groupChannel gs)\<rparr> in
           if left then gs
           else (case group_key grp (gs_group gs) of
               None \<Rightarrow> gs
             | Some k \<Rightarrow> gs\<lparr>gs_group := map_erase k (gs_group gs)\<rparr>)))"

text \<open>\<open>m_groupChannel[g]\<close>: an entry that is missing is made.\<close>

definition group_at :: "int \<Rightarrow> group_session \<Rightarrow> group_info" where
  "group_at g gs = (case map_of (gs_groupChannel gs) g of None \<Rightarrow> GroupSessionInfo_new | Some i \<Rightarrow> i)"

definition session_key :: "u8 \<Rightarrow> u16 \<Rightarrow> u16" where
  "session_key rtype rid = (push_bit 8 (ucast rtype) OR rid)"

text \<open>The result, whether the group is complete now, and the groups.\<close>

definition AddGroupSession :: "u8 \<Rightarrow> u16 \<Rightarrow> int \<Rightarrow> u8 \<Rightarrow> group_session \<Rightarrow> int \<times> bool \<times> group_session" where
  "AddGroupSession rtype rid channel count gs =
     (let key = session_key rtype rid in
      case map_of (gs_group gs) key of
        None \<Rightarrow>
          let info = \<lparr>gi_channel = [channel], gi_count = count, gi_slot = 0\<rparr>
          in (channel, unat count = 1,
              gs\<lparr>gs_group := map_put key channel (gs_group gs),
                 gs_groupChannel := map_put channel info (gs_groupChannel gs)\<rparr>)
      | Some g \<Rightarrow>
          let info = group_at g gs; n = length (gi_channel info);
              info' = info\<lparr>gi_channel := gi_channel info @ [channel]\<rparr>
          in if n \<ge> unat (gi_count info) then (- 2, False, gs\<lparr>gs_groupChannel := map_put g info (gs_groupChannel gs)\<rparr>)
             else (g, Suc n = unat (gi_count info), gs\<lparr>gs_groupChannel := map_put g info' (gs_groupChannel gs)\<rparr>))"

definition BindSession :: "int \<Rightarrow> int \<Rightarrow> group_session \<Rightarrow> fault + int" where
  "BindSession key grp gs =
     (if grp < 0 \<or> key < 0 then Inr grp
      else case map_of (gs_groupChannel gs) grp of
        None \<Rightarrow> Inr grp
      | Some info \<Rightarrow>
          if length (gi_channel info) \<le> 0 then Inr grp
          else GetChannel (sint (word_of_int key :: u32)) info)"

section \<open>Groups fill up\<close>

definition groups_ok :: "group_session \<Rightarrow> bool" where
  "groups_ok gs \<longleftrightarrow> ordered (gs_group gs) \<and> ordered (gs_groupChannel gs)"

lemma groups_ok_steps [intro]:
  "groups_ok GroupSession_new"
  "groups_ok gs \<Longrightarrow> groups_ok (snd (snd (AddGroupSession rtype rid channel count gs)))"
  "groups_ok gs \<Longrightarrow> groups_ok (DeleteGroupSession grp channel gs)"
  by (auto simp: groups_ok_def GroupSession_new_def AddGroupSession_def DeleteGroupSession_def Let_def
    split: option.splits prod.splits)

text \<open>The connections of a group, one after the other.\<close>

primrec add_channels :: "u8 \<Rightarrow> u16 \<Rightarrow> u8 \<Rightarrow> int list \<Rightarrow> group_session \<Rightarrow> (int \<times> bool) list \<times> group_session" where
  "add_channels rtype rid count [] gs = ([], gs)"
| "add_channels rtype rid count (c # cs) gs =
     (case AddGroupSession rtype rid c count gs of (g, done, gs) \<Rightarrow>
      case add_channels rtype rid count cs gs of (rs, gs) \<Rightarrow> ((g, done) # rs, gs))"

lemma add_known:
  assumes "groups_ok gs" "map_of (gs_group gs) (session_key rtype rid) = Some g" "map_of (gs_groupChannel gs) g = Some info"
    "length (gi_channel info) < unat (gi_count info)"
  shows "\<exists>gs'. AddGroupSession rtype rid c count gs = (g, Suc (length (gi_channel info)) = unat (gi_count info), gs') \<and> groups_ok gs' \<and>
    map_of (gs_group gs') (session_key rtype rid) = Some g \<and>
    map_of (gs_groupChannel gs') g = Some (info\<lparr>gi_channel := gi_channel info @ [c]\<rparr>)"
  using assms by (auto simp: AddGroupSession_def Let_def group_at_def groups_ok_def)

text \<open>What the additions return: the group, and at the last one that it is complete.\<close>

definition fill_results :: "int \<Rightarrow> nat \<Rightarrow> (int \<times> bool) list" where
  "fill_results g n = (case n of 0 \<Rightarrow> [] | Suc k \<Rightarrow> replicate k (g, False) @ [(g, True)])"

lemma add_channels_known:
  assumes "groups_ok gs" "map_of (gs_group gs) (session_key rtype rid) = Some g" "map_of (gs_groupChannel gs) g = Some info"
    "length (gi_channel info) + length cs = unat (gi_count info)"
  shows "\<exists>gs'. add_channels rtype rid count cs gs = (fill_results g (length cs), gs') \<and> groups_ok gs' \<and>
    map_of (gs_group gs') (session_key rtype rid) = Some g \<and>
    map_of (gs_groupChannel gs') g = Some (info\<lparr>gi_channel := gi_channel info @ cs\<rparr>)"
  using assms
proof (induction cs arbitrary: gs info)
  case Nil
  then show ?case by (simp add: fill_results_def)
next
  case (Cons c cs)
  obtain gs1 where gs1: "AddGroupSession rtype rid c count gs = (g, Suc (length (gi_channel info)) = unat (gi_count info), gs1)" "groups_ok gs1"
      "map_of (gs_group gs1) (session_key rtype rid) = Some g"
      "map_of (gs_groupChannel gs1) g = Some (info\<lparr>gi_channel := gi_channel info @ [c]\<rparr>)"
    using add_known [OF Cons.prems(1-3), of c count] Cons.prems(4) by auto
  have "(Suc (length (gi_channel info)) = unat (gi_count info)) = (cs = [])"
    using Cons.prems(4) by (cases cs) auto
  then show ?case
    using Cons.IH [OF gs1(2,3,4)] Cons.prems(4) gs1(1) by (cases cs) (auto simp: fill_results_def)
qed

text \<open>
  The connections of one peer, as many as the group is to have: all of them get the number of
  the first as their group, the last one completes the group, messages are spread over exactly
  these channels, and one connection more is refused.
\<close>

theorem group_fills:
  assumes "groups_ok gs" "map_of (gs_group gs) (session_key rtype rid) = None" "length cs = unat count" "cs \<noteq> []"
  shows "\<exists>gs'. add_channels rtype rid count cs gs = (replicate (length cs - 1) (hd cs, False) @ [(hd cs, True)], gs') \<and>
    map_of (gs_group gs') (session_key rtype rid) = Some (hd cs) \<and> gi_channel (group_at (hd cs) gs') = cs \<and>
    fst (AddGroupSession rtype rid c count gs') = - 2"
proof -
  obtain c0 cs' where cs: "cs = c0 # cs'" using assms(4) by (cases cs) auto
  let ?info = "\<lparr>gi_channel = [c0], gi_count = count, gi_slot = 0\<rparr>"
  define gs1 where "gs1 = gs\<lparr>gs_group := map_put (session_key rtype rid) c0 (gs_group gs),
    gs_groupChannel := map_put c0 ?info (gs_groupChannel gs)\<rparr>"
  have a: "AddGroupSession rtype rid c0 count gs = (c0, cs' = [], gs1)"
    using assms(2,3) by (cases cs') (auto simp: AddGroupSession_def gs1_def cs)
  have ok: "groups_ok gs1" "map_of (gs_group gs1) (session_key rtype rid) = Some c0" "map_of (gs_groupChannel gs1) c0 = Some ?info"
    using assms(1) by (auto simp: groups_ok_def gs1_def)
  obtain gs' where gs': "add_channels rtype rid count cs' gs1 = (fill_results c0 (length cs'), gs')"
      "map_of (gs_group gs') (session_key rtype rid) = Some c0"
      "map_of (gs_groupChannel gs') c0 = Some (?info\<lparr>gi_channel := c0 # cs'\<rparr>)"
    using add_channels_known [OF ok, of cs' count] assms(3) by (auto simp: cs)
  have "fst (AddGroupSession rtype rid c count gs') = - 2" "gi_channel (group_at c0 gs') = cs"
    using gs'(2,3) assms(3) by (auto simp: AddGroupSession_def group_at_def cs)
  moreover have "add_channels rtype rid count cs gs = (replicate (length cs - 1) (c0, False) @ [(c0, True)], gs')"
    using a gs'(1) by (cases cs') (simp_all add: cs fill_results_def)
  ultimately show ?thesis using gs'(2) by (auto simp: cs)
qed

theorem group_fills_witness:
  "\<exists>gs'. add_channels 2 7 3 [20, 21, 25] GroupSession_new = ([(20, False), (20, False), (20, True)], gs') \<and>
    gi_channel (group_at 20 gs') = [20, 21, 25] \<and> fst (AddGroupSession 2 7 30 3 gs') = - 2"
proof -
  have "groups_ok GroupSession_new" "map_of (gs_group GroupSession_new) (session_key 2 7) = None"
    "length [20, 21, 25 :: int] = unat (3 :: u8)"
    by (rule groups_ok_steps, auto simp: GroupSession_new_def)
  from group_fills [OF this, of 30] show ?thesis
    by (auto simp: numeral_2_eq_2 simp del: add_channels.simps)
qed

text \<open>
  A key is always bound to a channel of the group, whatever 64 bit number it is, and never
  faults: also the keys whose lower half is a negative \<open>int\<close>.
\<close>

theorem bind_session_member:
  "\<exists>c. BindSession key grp gs = Inr c \<and>
    (if 0 \<le> grp \<and> 0 \<le> key \<and> gi_channel (group_at grp gs) \<noteq> [] then c \<in> set (gi_channel (group_at grp gs)) else c = grp)"
proof -
  have "GetChannel k i = Inr (gi_channel i ! nat (usize k mod int (length (gi_channel i)))) \<and>
      nat (usize k mod int (length (gi_channel i))) < length (gi_channel i)" if "gi_channel i \<noteq> []" for k i
    using that by (simp add: GetChannel_def nat_less_iff)
  then have "\<exists>c. GetChannel k i = Inr c \<and> c \<in> set (gi_channel i)" if "gi_channel i \<noteq> []" for k i
    using that by fastforce
  then show ?thesis
    by (auto simp: BindSession_def group_at_def GroupSessionInfo_new_def split: option.splits)
qed

section \<open>What goes wrong\<close>

text \<open>
  The number of a group is the socket of its first member. When that socket is closed and its
  number is taken by a connection of another peer while the group still has members, the other
  peer's group replaces it: both peers then have the same group, and every message to the first
  goes to the second.
\<close>

theorem group_number_reused:
  assumes "groups_ok gs" "map_of (gs_group gs) (session_key t1 i1) = Some x" "map_of (gs_group gs) (session_key t2 i2) = None" "0 \<le> x"
  shows "\<exists>done gs'. AddGroupSession t2 i2 x count gs = (x, done, gs') \<and>
    map_of (gs_group gs') (session_key t1 i1) = Some x \<and> map_of (gs_group gs') (session_key t2 i2) = Some x \<and>
    (\<forall>key. BindSession key x gs' = Inr x)"
proof -
  have "session_key t1 i1 \<noteq> session_key t2 i2" using assms(2,3) by auto
  then show ?thesis
    using assms by (auto simp: AddGroupSession_def groups_ok_def BindSession_def GetChannel_def)
qed

theorem group_number_reused_witness:
  "\<exists>gs gs' done. snd (add_channels 2 7 3 [20, 21, 25] GroupSession_new) = gs \<and>
    AddGroupSession 6 1 20 2 (DeleteGroupSession 20 20 gs) = (20, done, gs') \<and>
    map_of (gs_group gs') (session_key 2 7) = Some 20 \<and> BindSession 5 20 gs' = Inr 20"
proof -
  let ?gs = "DeleteGroupSession 20 20 (snd (add_channels 2 7 3 [20, 21, 25] GroupSession_new))"
  have e: "groups_ok (snd (add_channels 2 7 3 [20, 21, 25] GroupSession_new))"
    "map_of (gs_group ?gs) (session_key 2 7) = Some 20" "map_of (gs_group ?gs) (session_key 6 1) = None"
    by code_simp+
  then show ?thesis
    using group_number_reused [of ?gs 2 7 20 6 1 2] by auto
qed

lemma session_key_parts:
  assumes "unat i < 256"
  shows "ucast (drop_bit 8 (session_key t i)) = t" "take_bit 8 (session_key t i) = i"
proof -
  have i: "take_bit 8 i = i"
    using assms by (intro word_unat_eq_iff [THEN iffD2]) (simp add: unsigned_take_bit_eq take_bit_nat_eq_self)
  have hi: "\<not> bit i n" if "8 \<le> n" for n using that by (subst i [symmetric]) (simp add: bit_take_bit_iff)
  show "ucast (drop_bit 8 (session_key t i)) = t"
    by (rule bit_word_eqI) (auto simp: session_key_def bit_simps hi add.commute)
  show "take_bit 8 (session_key t i) = i"
    by (subst (2) i [symmetric], rule bit_word_eqI) (auto simp: session_key_def bit_simps)
qed

text \<open>
  The key of a peer is its type and the low byte of its id, mixed with the high byte: two
  peers with ids below 256 never share a group, others may.
\<close>

theorem session_key_injective:
  assumes "unat i1 < 256" "unat i2 < 256"
  shows "session_key t1 i1 = session_key t2 i2 \<longleftrightarrow> t1 = t2 \<and> i1 = i2"
  using session_key_parts [of i1 t1] session_key_parts [of i2 t2] assms by metis

theorem session_key_injective_witness: "session_key 1 2 \<noteq> session_key 2 1"
  using session_key_injective [of 2 1 1 2] by simp

theorem session_keys_collide: "session_key 1 0x200 = session_key 3 0"
  by code_simp

end
