(* ===== verification/SessionManager.thy ===== *)
theory SessionManager
  imports GroupSession NetSession
begin

text \<open>
  \<open>CSessionMgr\<close> of \<open>CommBase/Network/Session.h\<close> and \<open>Session.cpp\<close>: the sessions of one epoll loop.
  A session waits in \<open>m_timeOutSe\<close> for its connection packet and then moves to \<open>m_session\<close>.
  The tables and \<open>m_epollPtr\<close> share the session objects, so these live in a store with
  numbers. The groups are those of the context; \<open>sm_open\<close> are the sockets that are open, and
  \<open>sm_errs\<close> what was given to \<open>Context::SystemErr\<close>. \<open>now\<close> is the clock in microseconds; \<open>ctl\<close>
  tells whether \<open>epoll_ctl\<close> works. Locks and log lines are left out.
\<close>

section \<open>Configuration\<close>

definition MAX_EPOLL_EVENT :: int where "MAX_EPOLL_EVENT = 10000"
definition C2SMessage :: u32 where "C2SMessage = 0"
definition S2CMessage :: u32 where "S2CMessage = 1"
definition C2SGroupMessage :: u32 where "C2SGroupMessage = 2"
definition S2CGroupMessage :: u32 where "S2CGroupMessage = 3"
definition eConMessageErr :: int where "eConMessageErr = 28"
definition eSessionTimeout :: int where "eSessionTimeout = 32"
definition eConnPacketErr :: int where "eConnPacketErr = 33"
definition eGroupContinue :: int where "eGroupContinue = 36"

record channel_config =
  cc_local_id :: u16
  cc_local_type :: u8
  cc_keep_time :: int
  cc_security :: bool

record connection_config = channel_config +
  co_remote_address :: "u32 \<times> u16"
  co_remote_id :: u16
  co_remote_type :: u8
  co_re_connect :: bool
  co_group_count :: u8

text \<open>The configurations of the context; \<open>cx_server\<close> holds what \<open>GetConfig\<close> returns.\<close>

record net_context =
  cx_acceptAdded :: "channel_config list"
  cx_connAdded :: "connection_config list"
  cx_server :: server

definition GetAccConfig :: "net_context \<Rightarrow> int \<Rightarrow> fault + channel_config" where
  "GetAccConfig cx index = (if index < 0 then Inl OutOfBounds else rd (cx_acceptAdded cx) (nat index))"

definition GetConnConfig :: "net_context \<Rightarrow> int \<Rightarrow> fault + connection_config" where
  "GetConnConfig cx index = (if index < 0 then Inl OutOfBounds else rd (cx_connAdded cx) (nat index))"

section \<open>State\<close>

record system_err =
  se_fd :: int
  se_lid :: u16
  se_ltype :: u8
  se_rid :: u16
  se_rtype :: u8
  se_err :: int
  se_addr :: "u32 \<times> u16"

record session_mgr =
  sm_obj :: "nat \<Rightarrow> net_session option"
  sm_next :: nat
  sm_session :: "(int \<times> nat) list"
  sm_timeOutSe :: "(int \<times> nat) list"
  sm_timeout :: "(int \<times> int) list"
  sm_bTime :: int
  sm_tick :: int
  sm_epollPtr :: "int \<Rightarrow> nat option"
  sm_groups :: group_session
  sm_open :: "int list"
  sm_errs :: "system_err list"

definition CSessionMgr_new :: "int \<Rightarrow> session_mgr" where
  "CSessionMgr_new now = \<lparr>sm_obj = (\<lambda>_. None), sm_next = 0, sm_session = [], sm_timeOutSe = [], sm_timeout = [],
     sm_bTime = now, sm_tick = 0, sm_epollPtr = (\<lambda>_. None), sm_groups = GroupSession_new, sm_open = [], sm_errs = []\<rparr>"

definition set_obj :: "nat \<Rightarrow> net_session \<Rightarrow> session_mgr \<Rightarrow> session_mgr" where
  "set_obj i s m = m\<lparr>sm_obj := (sm_obj m)(i := Some s)\<rparr>"

definition closeSocket :: "int \<Rightarrow> session_mgr \<Rightarrow> session_mgr" where
  "closeSocket fd m = m\<lparr>sm_open := removeAll fd (sm_open m)\<rparr>"

definition SystemErr :: "system_err \<Rightarrow> session_mgr \<Rightarrow> session_mgr" where
  "SystemErr e m = m\<lparr>sm_errs := sm_errs m @ [e]\<rparr>"

text \<open>A new session waits for its connection packet; the result is the event pointer, if there is one.\<close>

definition AddTimerSessionEx ::
  "net_context \<Rightarrow> int \<Rightarrow> int \<Rightarrow> u32 \<times> u16 \<Rightarrow> channel_config \<Rightarrow> u16 \<Rightarrow> u8 \<Rightarrow> session_mgr \<Rightarrow> fault + nat option \<times> session_mgr" where
  "AddTimerSessionEx cx now sock addr config index typ m =
     (if MAX_EPOLL_EVENT \<le> sock then Inr (None, m)
      else let key = uint (push_bit 8 (ucast index :: u32) OR ucast typ) in
      if cc_keep_time config > 0 then
        if map_of (sm_timeOutSe m) sock \<noteq> None then Inr (None, m)
        else if sock < 0 then Inl OutOfBounds
        else let i = sm_next m; s = Session_new (cx_server cx) sock key addr (cc_security config);
                 m = set_obj i s (m\<lparr>sm_next := i + 1, sm_timeOutSe := map_put sock i (sm_timeOutSe m),
                   sm_timeout := map_put sock (cc_keep_time config + now div 1000) (sm_timeout m),
                   sm_epollPtr := (sm_epollPtr m)(sock := Some i)\<rparr>)
             in Inr (Some i, m)
      else Inr (None, m))"

section \<open>Finding and removing sessions\<close>

definition find_session :: "int \<Rightarrow> session_mgr \<Rightarrow> nat option" where
  "find_session fd m = (case map_of (sm_session m) fd of Some i \<Rightarrow> Some i | None \<Rightarrow> map_of (sm_timeOutSe m) fd)"

definition GetSession :: "int \<Rightarrow> session_mgr \<Rightarrow> net_session option" where
  "GetSession fd m = (if fd < 0 then None else case find_session fd m of None \<Rightarrow> None | Some i \<Rightarrow> sm_obj m i)"

definition GetRemoteType :: "int \<Rightarrow> session_mgr \<Rightarrow> u8" where
  "GetRemoteType fd m = (case GetSession fd m of None \<Rightarrow> 0 | Some s \<Rightarrow> ns_remoteType s)"

definition GetRemoteID :: "int \<Rightarrow> session_mgr \<Rightarrow> u16" where
  "GetRemoteID fd m = (case GetSession fd m of None \<Rightarrow> 0 | Some s \<Rightarrow> ns_remoteID s)"

definition GetAddr :: "int \<Rightarrow> session_mgr \<Rightarrow> (u32 \<times> u16) option" where
  "GetAddr fd m = map_option ns_addr (GetSession fd m)"

definition GetCount :: "session_mgr \<Rightarrow> nat" where
  "GetCount m = length (sm_session m) + length (sm_timeOutSe m)"

definition DeleteSession :: "int \<Rightarrow> session_mgr \<Rightarrow> fault + session_mgr" where
  "DeleteSession fd m =
     (case map_of (sm_timeOutSe m) fd of
        Some i \<Rightarrow> rbind (deref (sm_obj m i)) (\<lambda>s.
          let m = closeSocket (ns_sock s) m
          in Inr (m\<lparr>sm_timeOutSe := map_erase fd (sm_timeOutSe m), sm_timeout := map_erase fd (sm_timeout m)\<rparr>))
      | None \<Rightarrow>
          (case map_of (sm_session m) fd of
             None \<Rightarrow> Inr m
           | Some i \<Rightarrow> rbind (deref (sm_obj m i)) (\<lambda>s.
               let m = (if ns_group s > 0 then m\<lparr>sm_groups := DeleteGroupSession (ns_group s) fd (sm_groups m)\<rparr> else m);
                   m = closeSocket (ns_sock s) m
               in Inr (m\<lparr>sm_session := map_erase fd (sm_session m)\<rparr>))))"

text \<open>
  The address of a report: \<open>GetPort\<close> takes the port out of network order, where accepted and built connections have it in
  that of the host already.
\<close>

definition GetPort :: "bool \<Rightarrow> u32 \<times> u16 \<Rightarrow> u16" where
  "GetPort be a = htons be (snd a)"

definition reported_addr :: "bool \<Rightarrow> u32 \<times> u16 \<Rightarrow> u32 \<times> u16" where
  "reported_addr be a = (fst a, GetPort be a)"

text \<open>A session that is established is only reported; the server's handler removes it later.\<close>

definition DeleteSessionEx :: "net_context \<Rightarrow> int \<Rightarrow> int \<Rightarrow> session_mgr \<Rightarrow> fault + session_mgr" where
  "DeleteSessionEx cx fd err m =
     (case map_of (sm_timeOutSe m) fd of
        Some i \<Rightarrow> rbind (deref (sm_obj m i)) (\<lambda>s.
          let m = closeSocket (ns_sock s) m
          in Inr (m\<lparr>sm_timeOutSe := map_erase fd (sm_timeOutSe m), sm_timeout := map_erase fd (sm_timeout m)\<rparr>))
      | None \<Rightarrow>
          (case map_of (sm_session m) fd of
             None \<Rightarrow> Inr m
           | Some i \<Rightarrow> rbind (deref (sm_obj m i)) (\<lambda>s.
               Inr (SystemErr \<lparr>se_fd = fd, se_lid = sv_local_id (cx_server cx), se_ltype = sv_local_type (cx_server cx),
                 se_rid = ns_remoteID s, se_rtype = ns_remoteType s, se_err = err,
                 se_addr = reported_addr (sv_be (cx_server cx)) (ns_addr s)\<rparr> m))))"

text \<open>\<open>CEpollMain::DeleteChannel\<close> and \<open>DeleteChannelEx\<close>, for the loop the channel belongs to.\<close>

definition DeleteChannel :: "int \<Rightarrow> session_mgr \<Rightarrow> fault + session_mgr" where
  "DeleteChannel fd m = (if fd < 0 then Inr m else DeleteSession fd m)"

definition DeleteChannelEx :: "net_context \<Rightarrow> int \<Rightarrow> int \<Rightarrow> session_mgr \<Rightarrow> fault + session_mgr" where
  "DeleteChannelEx cx fd err m = (if fd < 0 then Inr m else DeleteSessionEx cx fd err m)"

primrec delete_sessions :: "int list \<Rightarrow> session_mgr \<Rightarrow> fault + session_mgr" where
  "delete_sessions [] m = Inr m"
| "delete_sessions (fd # fds) m = rbind (DeleteSession fd m) (delete_sessions fds)"

definition DeleteAll :: "session_mgr \<Rightarrow> session_mgr" where
  "DeleteAll m = m\<lparr>sm_session := [], sm_timeOutSe := []\<rparr>"

text \<open>\<open>Tick\<close>: the time since the last call is added to an \<open>int\<close>; once a second the overdue sessions go.\<close>

definition mgr_Tick :: "int \<Rightarrow> session_mgr \<Rightarrow> fault + session_mgr" where
  "mgr_Tick now m =
     (let tick = sint (word_of_int (sm_tick m + (now - sm_bTime m)) :: u32); m = m\<lparr>sm_bTime := now\<rparr> in
      if tick \<ge> 1000 * 1000 then
        let due = (\<lambda>p. now \<ge> snd p * 1000); delChannel = map fst (filter due (sm_timeout m))
        in delete_sessions delChannel (m\<lparr>sm_tick := tick - 1000 * 1000, sm_timeout := filter (\<lambda>p. \<not> due p) (sm_timeout m)\<rparr>)
      else Inr (m\<lparr>sm_tick := tick\<rparr>))"

section \<open>Writing\<close>

text \<open>A message is signed if its session has signatures, and put into the session's buffer.\<close>

definition write_message :: "net_context \<Rightarrow> bool \<Rightarrow> net_message \<Rightarrow> net_session \<Rightarrow> fault + int \<times> net_message \<times> net_session" where
  "write_message cx ctl msg s =
     (let msg = (if nm_security msg \<noteq> ns_security s then msg\<lparr>nm_security := ns_security s\<rparr> else msg)
      in rbind (EncryptMessage (sv_md5 (cx_server cx)) msg) (\<lambda>msg.
         rbind (Session_Write_head (cx_server cx) ctl (nm_content msg) (GetHead (sv_be (cx_server cx)) msg) s) (\<lambda>(res, s).
         Inr (res, msg, s))))"

definition mgr_Write :: "net_context \<Rightarrow> bool \<Rightarrow> net_message \<Rightarrow> session_mgr \<Rightarrow> fault + int \<times> session_mgr" where
  "mgr_Write cx ctl msg m =
     (case find_session (nm_channelID msg) m of
        None \<Rightarrow> Inr (eNetSuccess, m)
      | Some i \<Rightarrow> rbind (deref (sm_obj m i)) (\<lambda>s. rbind (write_message cx ctl msg s) (\<lambda>(res, msg, s).
          let m = set_obj i s m in
          if res = eCtlEpollErr then rbind (DeleteChannelEx cx (nm_channelID msg) eCtlEpollErr m) (\<lambda>m. Inr (eCtlEpollErr, m))
          else Inr (eNetSuccess, m))))"

text \<open>The dispatcher's messages for one channel: only an established session gets them.\<close>

definition to_peer :: "net_session \<Rightarrow> net_message \<Rightarrow> net_message" where
  "to_peer s msg = (if sint (nm_remoteID msg) < 0
     then msg\<lparr>nm_remoteID := ns_remoteID s, nm_remoteType := ns_remoteType s\<rparr> else msg)"

primrec write_messages :: "net_context \<Rightarrow> bool \<Rightarrow> net_message list \<Rightarrow> net_session \<Rightarrow> fault + net_session" where
  "write_messages cx ctl [] s = Inr s"
| "write_messages cx ctl (msg # msgs) s =
     rbind (write_message cx ctl (to_peer s msg) s) (\<lambda>(res, msg, s). write_messages cx ctl msgs s)"

definition mgr_AddMessage :: "net_context \<Rightarrow> bool \<Rightarrow> int \<Rightarrow> net_message list \<Rightarrow> session_mgr \<Rightarrow> fault + session_mgr" where
  "mgr_AddMessage cx ctl channel msgs m =
     (case map_of (sm_session m) channel of
        None \<Rightarrow> Inr m
      | Some i \<Rightarrow> rbind (deref (sm_obj m i)) (\<lambda>s. rbind (write_messages cx ctl msgs s) (\<lambda>s. Inr (set_obj i s m))))"

definition mgr_AddMessage1 :: "net_context \<Rightarrow> bool \<Rightarrow> net_message \<Rightarrow> session_mgr \<Rightarrow> fault + session_mgr" where
  "mgr_AddMessage1 cx ctl msg m =
     (case map_of (sm_session m) (nm_channelID msg) of
        None \<Rightarrow> Inr m
      | Some i \<Rightarrow> rbind (deref (sm_obj m i)) (\<lambda>s. rbind (write_message cx ctl (to_peer s msg) s) (\<lambda>(res, msg, s). Inr (set_obj i s m))))"

section \<open>The connection packet\<close>

definition set_peer :: "u16 \<Rightarrow> u8 \<Rightarrow> net_message \<times> net_session \<Rightarrow> net_message \<times> net_session" where
  "set_peer rid typ = (\<lambda>(msg, s). (msg\<lparr>nm_remoteID := rid, nm_remoteType := typ\<rparr>, s\<lparr>ns_remoteID := rid, ns_remoteType := typ\<rparr>))"

text \<open>The part about the groups: the code, the message, the session and the
  groups; a result below \<open>limit\<close> is an error.\<close>

definition join_group ::
  "int \<Rightarrow> u8 \<Rightarrow> u16 \<Rightarrow> u8 \<Rightarrow> net_message \<times> net_session \<Rightarrow> group_session \<Rightarrow> int \<times> net_message \<times> net_session \<times> group_session" where
  "join_group limit typ rid count = (\<lambda>(msg, s) gs.
     case AddGroupSession typ rid (nm_channelID msg) count gs of (res, isSuccess, gs) \<Rightarrow>
       if res < limit then (eConMessageErr, msg, s, gs)
       else (if isSuccess then eNetSuccess else eGroupContinue, msg\<lparr>nm_group := res\<rparr>, s\<lparr>ns_group := res\<rparr>, gs))"

definition conn_packet ::
  "net_context \<Rightarrow> net_message \<Rightarrow> net_session \<Rightarrow> group_session \<Rightarrow> fault + int \<times> net_message \<times> net_session \<times> group_session" where
  "conn_packet cx msg s gs =
     (let be = sv_be (cx_server cx); bad = (\<lambda>(msg, s). Inr (eConMessageErr, msg, s, gs)) in
      if nm_messageID msg = C2SMessage then
        if nm_length msg \<noteq> 3 then bad (msg, s)
        else rbind (copy_out 0 1 (nm_content msg)) (\<lambda>t. rbind (copy_out 1 2 (nm_content msg)) (\<lambda>i.
          let typ = byte_of_char (hd t); rid = load be i; rid = (if nm_remoteType msg \<le> 0 then htons be rid else rid)
          in if typ \<ge> eMax then bad (msg, s)
             else case set_peer rid typ (msg, s) of (msg, s) \<Rightarrow> Inr (eNetSuccess, msg, s, gs)))
      else if nm_messageID msg = S2CMessage then
        if nm_length msg \<noteq> 1 then bad (msg, s)
        else rbind (copy_out 0 1 (nm_content msg)) (\<lambda>r.
          if byte_of_char (hd r) \<noteq> 0 then bad (msg, s)
          else rbind (GetConnConfig cx (ns_flag s div 2 ^ 16)) (\<lambda>c.
            case set_peer (co_remote_id c) (co_remote_type c) (msg, s) of (msg, s) \<Rightarrow> Inr (eNetSuccess, msg, s, gs)))
      else if nm_messageID msg = C2SGroupMessage then
        if nm_length msg \<noteq> 4 then bad (msg, s)
        else rbind (copy_out 0 1 (nm_content msg)) (\<lambda>t. rbind (copy_out 1 2 (nm_content msg)) (\<lambda>i.
          rbind (copy_out 3 1 (nm_content msg)) (\<lambda>n.
          let typ = byte_of_char (hd t); rid = load be i
          in if typ \<ge> eMax then bad (msg, s)
             else Inr (join_group (- 1) typ rid (byte_of_char (hd n)) (set_peer rid typ (msg, s)) gs))))
      else if nm_messageID msg = S2CGroupMessage then
        if nm_length msg \<noteq> 1 then bad (msg, s)
        else rbind (copy_out 0 1 (nm_content msg)) (\<lambda>r.
          if byte_of_char (hd r) \<noteq> 0 then bad (msg, s)
          else rbind (GetConnConfig cx (ns_flag s div 2 ^ 16)) (\<lambda>c.
            Inr (join_group 0 (co_remote_type c) (co_remote_id c) (co_group_count c)
              (set_peer (co_remote_id c) (co_remote_type c) (msg, s)) gs)))
      else bad (msg, s))"

text \<open>The answer to a peer that connected to us.\<close>

definition conn_answer :: "net_context \<Rightarrow> u32 \<Rightarrow> int \<Rightarrow> net_session \<Rightarrow> fault + net_message" where
  "conn_answer cx mid channel s =
     rbind (GetAccConfig cx (ns_flag s div 2 ^ 16)) (\<lambda>c.
       SetContent (sv_old (cx_server cx)) (char_of_byte 0 # replicate 7 NUL) 1
         ((Message_plain (sv_old (cx_server cx)))\<lparr>nm_security := cc_security c, nm_remoteID := ns_remoteID s,
           nm_remoteType := ns_remoteType s, nm_localType := cc_local_type c, nm_channelID := channel,
           nm_messageID := mid, nm_messageType := ConnMessage\<rparr>))"

definition ConnectSuccess :: "net_context \<Rightarrow> bool \<Rightarrow> net_message \<Rightarrow> session_mgr \<Rightarrow> fault + int \<times> net_message \<times> session_mgr" where
  "ConnectSuccess cx ctl msg m =
     (case map_of (sm_timeOutSe m) (nm_channelID msg) of
        None \<Rightarrow> Inr (eConnPacketErr, msg, m)
      | Some i \<Rightarrow>
          rbind (deref (sm_obj m i)) (\<lambda>s.
          rbind (conn_packet cx msg s (sm_groups m)) (\<lambda>(ret, msg, s, gs).
          let m = set_obj i s (m\<lparr>sm_groups := gs\<rparr>) in
          if ret = eConMessageErr then Inr (ret, msg, m)
          else
            let m = m\<lparr>sm_timeOutSe := map_erase (nm_channelID msg) (sm_timeOutSe m),
                  sm_timeout := map_erase (nm_channelID msg) (sm_timeout m),
                  sm_session := map_put (ns_sock s) i (sm_session m)\<rparr>;
                s = (if ns_remoteType s \<noteq> eClient then ResetSendBuf (cx_server cx) s else s);
                m = set_obj i s m
            in if nm_messageID msg = C2SMessage \<or> nm_messageID msg = C2SGroupMessage then
                 rbind (conn_answer cx (if nm_messageID msg = C2SMessage then S2CMessage else S2CGroupMessage)
                   (nm_channelID msg) s) (\<lambda>a.
                 rbind (mgr_Write cx ctl a m) (\<lambda>(res, m). Inr (ret, msg, m)))
               else Inr (ret, msg, m))))"

text \<open>
  What \<open>Session::AddMessage\<close> does with a connection packet of the session object \<open>i\<close>. While the
  session receives, its object is in the hands of \<open>Recv\<close>: it is put into the store for the
  manager and taken out again.
\<close>

definition conn_message :: "net_context \<Rightarrow> bool \<Rightarrow> nat \<Rightarrow> session_mgr conn_handler" where
  "conn_message cx ctl i msg s m =
     rbind (ConnectSuccess cx ctl msg (set_obj i s m)) (\<lambda>(res, msg, m).
     rbind (if res \<noteq> 0 \<and> res \<noteq> eGroupContinue then rbind (DeleteChannel (nm_channelID msg) m) (\<lambda>m. Inr (- 1, m))
            else if res \<noteq> eGroupContinue then
              Inr (1, SystemErr \<lparr>se_fd = (if nm_group msg \<ge> 0 then nm_group msg else nm_channelID msg), se_lid = nm_localID msg,
                se_ltype = nm_localType msg, se_rid = nm_remoteID msg, se_rtype = nm_remoteType msg, se_err = 0,
                se_addr = reported_addr (sv_be (cx_server cx)) (nm_addr msg)\<rparr> m)
            else Inr (1, m)) (\<lambda>(r, m).
     rbind (deref (sm_obj m i)) (\<lambda>s. Inr (r, s, m\<lparr>sm_obj := (sm_obj m)(i := None)\<rparr>))))"

text \<open>The event that a session's socket has bytes: the messages for the dispatcher and the manager.\<close>

definition epoll_in :: "net_context \<Rightarrow> bool \<Rightarrow> int \<Rightarrow> sock_event list \<Rightarrow> nat \<Rightarrow> session_mgr \<Rightarrow> fault + net_message list \<times> session_mgr" where
  "epoll_in cx ctl now evs i m =
     rbind (deref (sm_obj m i)) (\<lambda>s.
     rbind (Session_Recv (cx_server cx) (conn_message cx ctl i) (now div 1000) evs s (m\<lparr>sm_obj := (sm_obj m)(i := None)\<rparr>)) (\<lambda>(code, ms, s, m).
     let m = set_obj i s m in
     rbind (if code = eSocketClose then DeleteChannelEx cx (ns_sock s) eSocketClose m else Inr m) (\<lambda>m. Inr (ms, m))))"

end
