(* ===== verification/SessionTable.thy ===== *)
theory SessionTable
  imports SessionManager
begin

text \<open>
  The session manager's tables: their invariant over every run of events, how sessions get in and
  out of them, and what the manager does to a session that is receiving.
\<close>

section \<open>The invariant\<close>

text \<open>
  Every entry of a table is an object in the store with that socket, which is open, and which the
  event pointer of the socket is set to; no socket is in both tables, and no open socket in
  none. The sockets of \<open>D\<close> are those \<open>Tick\<close> has taken from the deadlines and not yet removed.
\<close>

definition entry_ok :: "session_mgr \<Rightarrow> int \<Rightarrow> nat \<Rightarrow> bool" where
  "entry_ok m fd i \<longleftrightarrow> (\<exists>s. sm_obj m i = Some s \<and> ns_sock s = fd) \<and> sm_epollPtr m fd = Some i \<and>
     fd \<in> set (sm_open m) \<and> 0 \<le> fd \<and> fd < MAX_EPOLL_EVENT"

definition tables_ok :: "int set \<Rightarrow> session_mgr \<Rightarrow> bool" where
  "tables_ok D m \<longleftrightarrow> ordered (sm_session m) \<and> ordered (sm_timeOutSe m) \<and> ordered (sm_timeout m) \<and>
     (\<forall>fd i. map_of (sm_session m) fd = Some i \<or> map_of (sm_timeOutSe m) fd = Some i \<longrightarrow> entry_ok m fd i) \<and>
     (\<forall>fd. map_of (sm_session m) fd = None \<or> map_of (sm_timeOutSe m) fd = None) \<and>
     fst ` set (sm_timeout m) \<union> D = fst ` set (sm_timeOutSe m) \<and>
     (\<forall>i s. sm_obj m i = Some s \<longrightarrow> i < sm_next m) \<and>
     set (sm_open m) \<subseteq> fst ` set (sm_session m) \<union> fst ` set (sm_timeOutSe m)"

abbreviation mgr_ok :: "session_mgr \<Rightarrow> bool" where
  "mgr_ok \<equiv> tables_ok {}"

lemma mgr_ok_new [simp]: "mgr_ok (CSessionMgr_new now)"
  by (simp add: tables_ok_def CSessionMgr_new_def)

lemma dom_erase [simp]: "fst ` set (map_erase k m) = fst ` set m - {k}"
  by (auto simp: map_erase_def)

lemma tables_okD:
  assumes "tables_ok D m"
  shows "ordered (sm_session m)" "ordered (sm_timeOutSe m)" "ordered (sm_timeout m)"
    "map_of (sm_session m) fd = Some i \<Longrightarrow> entry_ok m fd i" "map_of (sm_timeOutSe m) fd = Some i \<Longrightarrow> entry_ok m fd i"
    "map_of (sm_timeOutSe m) fd = Some i \<Longrightarrow> map_of (sm_session m) fd = None"
    "map_of (sm_session m) fd = Some i \<Longrightarrow> map_of (sm_timeOutSe m) fd = None"
    "fst ` set (sm_timeout m) \<union> D = fst ` set (sm_timeOutSe m)" "sm_obj m i = Some s \<Longrightarrow> i < sm_next m"
    "set (sm_open m) \<subseteq> fst ` set (sm_session m) \<union> fst ` set (sm_timeOutSe m)"
  using assms unfolding tables_ok_def by (blast, blast, blast, blast, blast, metis option.distinct(1), metis option.distinct(1), blast, blast, blast)

lemma tables_okI:
  assumes "ordered (sm_session m)" "ordered (sm_timeOutSe m)" "ordered (sm_timeout m)"
    "\<And>fd i. map_of (sm_session m) fd = Some i \<Longrightarrow> entry_ok m fd i" "\<And>fd i. map_of (sm_timeOutSe m) fd = Some i \<Longrightarrow> entry_ok m fd i"
    "\<And>fd i. map_of (sm_timeOutSe m) fd = Some i \<Longrightarrow> map_of (sm_session m) fd = None"
    "fst ` set (sm_timeout m) \<union> D = fst ` set (sm_timeOutSe m)" "\<And>i s. sm_obj m i = Some s \<Longrightarrow> i < sm_next m"
    "set (sm_open m) \<subseteq> fst ` set (sm_session m) \<union> fst ` set (sm_timeOutSe m)"
  shows "tables_ok D m"
  using assms unfolding tables_ok_def by (metis not_None_eq)

lemma entry_socket: "entry_ok m fd i \<Longrightarrow> \<exists>s. sm_obj m i = Some s \<and> ns_sock s = fd"
  by (auto simp: entry_ok_def)

text \<open>Taking a socket out of the tables and closing it.\<close>

lemma remove_socket_ok:
  assumes "tables_ok D m" "sm_session m' = map_erase fd (sm_session m)" "sm_timeOutSe m' = map_erase fd (sm_timeOutSe m)"
    "sm_timeout m' = map_erase fd (sm_timeout m)" "sm_obj m' = sm_obj m" "sm_next m' = sm_next m" "sm_epollPtr m' = sm_epollPtr m"
    "sm_open m' = removeAll fd (sm_open m)"
  shows "tables_ok (D - {fd}) m'"
proof (rule tables_okI)
  have keep: "entry_ok m f i \<Longrightarrow> f \<noteq> fd \<Longrightarrow> entry_ok m' f i" for f i
    using assms(5-8) by (auto simp: entry_ok_def)
  show "map_of (sm_session m') f = Some i \<Longrightarrow> entry_ok m' f i" for f i
    using tables_okD(4) [OF assms(1)] keep by (auto simp: assms(2) split: if_splits)
  show "map_of (sm_timeOutSe m') f = Some i \<Longrightarrow> entry_ok m' f i" for f i
    using tables_okD(5) [OF assms(1)] keep by (auto simp: assms(3) split: if_splits)
  show "map_of (sm_timeOutSe m') f = Some i \<Longrightarrow> map_of (sm_session m') f = None" for f i
    using tables_okD(6) [OF assms(1)] by (auto simp: assms(2,3) split: if_splits)
  show "fst ` set (sm_timeout m') \<union> (D - {fd}) = fst ` set (sm_timeOutSe m')"
    using tables_okD(8) [OF assms(1)] by (auto simp: assms(3,4))
  show "sm_obj m' i = Some s \<Longrightarrow> i < sm_next m'" for i s
    using tables_okD(9) [OF assms(1)] by (simp add: assms(5,6))
  show "set (sm_open m') \<subseteq> fst ` set (sm_session m') \<union> fst ` set (sm_timeOutSe m')"
    using tables_okD(10) [OF assms(1)] by (auto simp: assms(2,3,8))
qed (use tables_okD(1-3) [OF assms(1)] in \<open>simp_all add: assms\<close>)

lemma DeleteSession_ok:
  assumes "tables_ok D m"
  shows "\<exists>m'. DeleteSession fd m = Inr m' \<and> tables_ok (D - {fd}) m' \<and>
    sm_session m' = map_erase fd (sm_session m) \<and> sm_timeOutSe m' = map_erase fd (sm_timeOutSe m) \<and>
    sm_timeout m' = map_erase fd (sm_timeout m) \<and> sm_obj m' = sm_obj m \<and> sm_errs m' = sm_errs m \<and> sm_epollPtr m' = sm_epollPtr m \<and>
    sm_open m' = (if find_session fd m = None then sm_open m else removeAll fd (sm_open m)) \<and>
    sm_bTime m' = sm_bTime m \<and> sm_tick m' = sm_tick m"
proof (cases "find_session fd m")
  case None
  then have n: "map_of (sm_session m) fd = None" "map_of (sm_timeOutSe m) fd = None"
    by (auto simp: find_session_def split: option.splits)
  moreover have "map_of (sm_timeout m) fd = None" "fd \<notin> D"
    using n(2) tables_okD(8) [OF assms] by (auto simp: map_of_eq_None_iff)
  ultimately show ?thesis using assms None by (simp add: DeleteSession_def map_erase_absent)
next
  case (Some i)
  then have e: "map_of (sm_session m) fd = Some i \<or> map_of (sm_timeOutSe m) fd = Some i"
    by (auto simp: find_session_def split: option.splits)
  then obtain s where s: "sm_obj m i = Some s" "ns_sock s = fd"
    using tables_okD(4,5) [OF assms, of fd i] entry_socket by blast
  obtain m' where m': "DeleteSession fd m = Inr m'" "sm_session m' = map_erase fd (sm_session m)"
      "sm_timeOutSe m' = map_erase fd (sm_timeOutSe m)" "sm_timeout m' = map_erase fd (sm_timeout m)" "sm_obj m' = sm_obj m"
      "sm_errs m' = sm_errs m" "sm_epollPtr m' = sm_epollPtr m" "sm_open m' = removeAll fd (sm_open m)" "sm_next m' = sm_next m"
      "sm_bTime m' = sm_bTime m" "sm_tick m' = sm_tick m"
  proof (cases "map_of (sm_timeOutSe m) fd")
    case (Some j)
    then have n: "map_of (sm_session m) fd = None" "j = i" using e tables_okD(6) [OF assms Some] by auto
    have "DeleteSession fd m = Inr (m\<lparr>sm_open := removeAll fd (sm_open m), sm_timeOutSe := map_erase fd (sm_timeOutSe m),
        sm_timeout := map_erase fd (sm_timeout m)\<rparr>)"
      using Some n s by (simp add: DeleteSession_def closeSocket_def)
    then show ?thesis by (rule that) (use n in \<open>simp_all add: map_erase_absent\<close>)
  next
    case None
    then have n: "map_of (sm_timeout m) fd = None"
      using tables_okD(8) [OF assms] by (auto simp: map_of_eq_None_iff)
    have "DeleteSession fd m = Inr (m\<lparr>sm_groups := (if ns_group s > 0 then DeleteGroupSession (ns_group s) fd (sm_groups m)
        else sm_groups m), sm_open := removeAll fd (sm_open m), sm_session := map_erase fd (sm_session m)\<rparr>)"
      using None e s by (auto simp: DeleteSession_def closeSocket_def)
    then show ?thesis by (rule that) (use None n in \<open>simp_all add: map_erase_absent\<close>)
  qed
  show ?thesis
    using m' Some remove_socket_ok [OF assms m'(2-5,9,7,8)] by auto
qed

lemma DeleteChannel_ok:
  assumes "mgr_ok m"
  shows "\<exists>m'. DeleteChannel fd m = Inr m' \<and> mgr_ok m'"
  using DeleteSession_ok [OF assms, of fd] assms by (auto simp: DeleteChannel_def)

lemma SystemErr_ok [simp]: "tables_ok D (SystemErr e m) = tables_ok D m"
  by (simp add: tables_ok_def SystemErr_def entry_ok_def)

lemma SystemErr_obj [simp]: "sm_obj (SystemErr e m) = sm_obj m"
  by (simp add: SystemErr_def)

lemma DeleteSessionEx_ok:
  assumes "mgr_ok m"
  shows "\<exists>m'. DeleteSessionEx cx fd err m = Inr m' \<and> mgr_ok m' \<and> sm_obj m' = sm_obj m"
proof (cases "map_of (sm_timeOutSe m) fd")
  case (Some i)
  have "DeleteSessionEx cx fd err m = DeleteSession fd m" by (simp add: DeleteSessionEx_def DeleteSession_def Some)
  with DeleteSession_ok [OF assms, of fd] show ?thesis by auto
next
  case None
  show ?thesis
  proof (cases "map_of (sm_session m) fd")
    case (Some i)
    then obtain s where "sm_obj m i = Some s" using tables_okD(4) [OF assms] entry_socket by blast
    with assms None Some show ?thesis by (simp add: DeleteSessionEx_def)
  qed (use assms None in \<open>simp add: DeleteSessionEx_def\<close>)
qed

lemma DeleteChannelEx_ok:
  assumes "mgr_ok m"
  shows "\<exists>m'. DeleteChannelEx cx fd err m = Inr m' \<and> mgr_ok m' \<and> sm_obj m' = sm_obj m"
  using DeleteSessionEx_ok [OF assms] assms by (auto simp: DeleteChannelEx_def)

lemma delete_sessions_ok:
  assumes "tables_ok (set fds) m" "distinct fds"
  shows "\<exists>m'. delete_sessions fds m = Inr m' \<and> mgr_ok m' \<and> sm_obj m' = sm_obj m \<and> sm_errs m' = sm_errs m \<and>
    (\<forall>fd. map_of (sm_session m') fd = (if fd \<in> set fds then None else map_of (sm_session m) fd)) \<and>
    (\<forall>fd. map_of (sm_timeOutSe m') fd = (if fd \<in> set fds then None else map_of (sm_timeOutSe m) fd)) \<and>
    set (sm_open m') = set (sm_open m) - {fd \<in> set fds. find_session fd m \<noteq> None}"
  using assms
proof (induction fds arbitrary: m)
  case (Cons fd fds)
  obtain m1 where m1: "DeleteSession fd m = Inr m1" "tables_ok (set (fd # fds) - {fd}) m1" "sm_session m1 = map_erase fd (sm_session m)"
      "sm_timeOutSe m1 = map_erase fd (sm_timeOutSe m)" "sm_obj m1 = sm_obj m" "sm_errs m1 = sm_errs m"
      "sm_open m1 = (if find_session fd m = None then sm_open m else removeAll fd (sm_open m))"
    using DeleteSession_ok [OF Cons.prems(1), of fd] by blast
  have "set (fd # fds) - {fd} = set fds" using Cons.prems(2) by auto
  with m1(2) obtain m' where m': "delete_sessions fds m1 = Inr m'" "mgr_ok m'" "sm_obj m' = sm_obj m1" "sm_errs m' = sm_errs m1"
    "\<forall>fd. map_of (sm_session m') fd = (if fd \<in> set fds then None else map_of (sm_session m1) fd)"
    "\<forall>fd. map_of (sm_timeOutSe m') fd = (if fd \<in> set fds then None else map_of (sm_timeOutSe m1) fd)"
    "set (sm_open m') = set (sm_open m1) - {fd \<in> set fds. find_session fd m1 \<noteq> None}"
    using Cons.IH [of m1] Cons.prems(2) by auto
  have f: "find_session f m1 = (if f = fd then None else find_session f m)" for f
    by (simp add: find_session_def m1(3,4) split: option.split)
  have "set (sm_open m') = set (sm_open m) - {f \<in> set (fd # fds). find_session f m \<noteq> None}"
    using m'(7) Cons.prems(2) by (auto simp: f m1(7) split: if_splits)
  with m1 m' show ?case by auto
qed simp

section \<open>Deadlines\<close>

text \<open>What the deadlines mean: a session that waits for its connection packet is overdue.\<close>

definition overdue :: "int \<Rightarrow> session_mgr \<Rightarrow> int \<Rightarrow> bool" where
  "overdue now m fd \<longleftrightarrow> (\<exists>t. map_of (sm_timeout m) fd = Some t \<and> t * 1000 \<le> now)"

lemma tick_due:
  assumes "mgr_ok m" "1000 * 1000 \<le> sint (word_of_int (sm_tick m + (now - sm_bTime m)) :: u32)"
  shows "\<exists>m'. mgr_Tick now m = Inr m' \<and> mgr_ok m' \<and> sm_obj m' = sm_obj m \<and> sm_errs m' = sm_errs m \<and>
    (\<forall>fd. map_of (sm_session m') fd = map_of (sm_session m) fd) \<and>
    (\<forall>fd. map_of (sm_timeOutSe m') fd = (if overdue now m fd then None else map_of (sm_timeOutSe m) fd)) \<and>
    set (sm_open m') = set (sm_open m) - {fd. overdue now m fd}"
proof -
  let ?due = "\<lambda>p. now \<ge> snd p * 1000"
  let ?fds = "map fst (filter ?due (sm_timeout m))"
  let ?tick = "sint (word_of_int (sm_tick m + (now - sm_bTime m)) :: u32)"
  let ?m = "m\<lparr>sm_bTime := now, sm_tick := ?tick - 1000 * 1000, sm_timeout := filter (\<lambda>p. \<not> ?due p) (sm_timeout m)\<rparr>"
  note ok = tables_okD [OF assms(1)]
  have fds: "fd \<in> set ?fds \<longleftrightarrow> overdue now m fd" for fd
    using ordered_in_set [OF ok(3)] by (force simp: overdue_def)
  have dom: "fst ` set (sm_timeout m) = fst ` set (sm_timeOutSe m)" using ok(8) by simp
  have "fst ` set (filter (\<lambda>p. \<not> ?due p) (sm_timeout m)) \<union> set ?fds = fst ` set (sm_timeOutSe m)"
    unfolding dom [symmetric] by auto
  then have inv: "tables_ok (set ?fds) ?m"
    using assms(1) by (simp add: tables_ok_def entry_ok_def)
  have dist: "distinct ?fds" using ordered_distinct [OF ordered_filter [OF ok(3)]] .
  have un: "mgr_Tick now m = delete_sessions ?fds ?m" using assms(2) by (simp add: mgr_Tick_def Let_def)
  have od: "overdue now m fd \<Longrightarrow> \<exists>i. map_of (sm_timeOutSe m) fd = Some i" for fd
    using dom unfolding overdue_def by (metis domD domI dom_map_of_conv_image_fst)
  have fs: "find_session fd ?m = find_session fd m" for fd
    by (simp add: find_session_def cong: option.case_cong)
  obtain m' where m': "delete_sessions ?fds ?m = Inr m'" "mgr_ok m'" "sm_obj m' = sm_obj m" "sm_errs m' = sm_errs m"
    "\<And>fd. map_of (sm_session m') fd = (if overdue now m fd then None else map_of (sm_session m) fd)"
    "\<And>fd. map_of (sm_timeOutSe m') fd = (if overdue now m fd then None else map_of (sm_timeOutSe m) fd)"
    "set (sm_open m') = set (sm_open m) - {fd. overdue now m fd \<and> find_session fd m \<noteq> None}"
    using delete_sessions_ok [OF inv dist] unfolding fds fs by (auto simp del: set_map)
  have "map_of (sm_session m') fd = map_of (sm_session m) fd" for fd
    using m'(5) od [of fd] ok(6) by auto
  moreover have "{fd. overdue now m fd \<and> find_session fd m \<noteq> None} = {fd. overdue now m fd}"
    using od by (fastforce simp: find_session_def split: option.splits)
  ultimately show ?thesis using m' un by auto
qed

section \<open>Connection packets keep the tables\<close>

lemma write_message_keeps:
  "write_message cx ctl msg s = Inr (res, msg', s') \<Longrightarrow> s' = s\<lparr>ns_bufSend := ns_bufSend s'\<rparr>"
  by (auto simp: write_message_def Session_Write_head_def arm_def rbind_Inr_iff Let_def)

lemma set_obj_ok:
  assumes "tables_ok D m" "sm_obj m i = Some s" "ns_sock s' = ns_sock s"
  shows "tables_ok D (set_obj i s' m)"
proof -
  have e: "entry_ok m fd j \<Longrightarrow> entry_ok (set_obj i s' m) fd j" for fd j
    using assms(2,3) by (auto simp: entry_ok_def set_obj_def)
  show ?thesis
    by (rule tables_okI) (use tables_okD [OF assms(1)] e assms(2) in \<open>auto simp: set_obj_def split: if_splits\<close>)
qed

text \<open>The objects of two states have the same sockets.\<close>

definition same_socks :: "session_mgr \<Rightarrow> session_mgr \<Rightarrow> bool" where
  "same_socks m m' \<longleftrightarrow> (\<forall>i. map_option ns_sock (sm_obj m' i) = map_option ns_sock (sm_obj m i))"

lemma same_socks_set_obj [simp]: "sm_obj m i = Some s \<Longrightarrow> ns_sock s' = ns_sock s \<Longrightarrow> same_socks m (set_obj i s' m)"
  by (simp add: same_socks_def set_obj_def)

lemma mgr_Write_ok:
  assumes "mgr_ok m" "mgr_Write cx ctl msg m = Inr (r, m')"
  shows "mgr_ok m' \<and> same_socks m m'"
proof (cases "find_session (nm_channelID msg) m")
  case (Some i)
  then obtain s res msg' s' where w: "sm_obj m i = Some s" "write_message cx ctl msg s = Inr (res, msg', s')"
      "(if res = eCtlEpollErr then rbind (DeleteChannelEx cx (nm_channelID msg') eCtlEpollErr (set_obj i s' m)) (\<lambda>m. Inr (eCtlEpollErr, m))
          else Inr (eNetSuccess, set_obj i s' m)) = Inr (r, m')"
    using assms(2) by (auto simp: mgr_Write_def rbind_Inr_iff Let_def)
  have s': "ns_sock s' = ns_sock s" by (subst write_message_keeps [OF w(2)]) simp
  have ok: "mgr_ok (set_obj i s' m)" using set_obj_ok [OF assms(1) w(1) s'] .
  obtain m1 where m1: "DeleteChannelEx cx (nm_channelID msg') eCtlEpollErr (set_obj i s' m) = Inr m1" "mgr_ok m1"
      "sm_obj m1 = sm_obj (set_obj i s' m)"
    using DeleteChannelEx_ok [OF ok] by blast
  have "same_socks m m1" using same_socks_set_obj [OF w(1) s'] by (simp add: same_socks_def m1(3))
  with w m1 ok s' show ?thesis by (auto split: if_splits)
qed (use assms in \<open>simp add: mgr_Write_def same_socks_def\<close>)

lemma join_group_keeps:
  "join_group limit typ rid count (msg, s) gs = (r, msg', s', gs') \<Longrightarrow>
    ns_sock s' = ns_sock s \<and> nm_channelID msg' = nm_channelID msg \<and> nm_messageID msg' = nm_messageID msg"
  by (auto simp: join_group_def split: prod.splits if_splits)

lemma conn_packet_keeps:
  "conn_packet cx msg s gs = Inr (r, msg', s', gs') \<Longrightarrow> ns_sock s' = ns_sock s \<and> nm_channelID msg' = nm_channelID msg \<and>
     nm_messageID msg' = nm_messageID msg"
  by (auto simp: conn_packet_def set_peer_def rbind_Inr_iff Let_def split: if_splits dest!: join_group_keeps)

lemma ResetSendBuf_sock [simp]: "ns_sock (ResetSendBuf sv s) = ns_sock s"
  by (simp add: ResetSendBuf_def)

text \<open>A session that waits becomes an established one.\<close>

lemma establish_ok:
  assumes "mgr_ok m" "map_of (sm_timeOutSe m) fd = Some i" "sm_obj m i = Some s" "ns_sock s = fd"
  shows "mgr_ok (m\<lparr>sm_timeOutSe := map_erase fd (sm_timeOutSe m), sm_timeout := map_erase fd (sm_timeout m),
    sm_session := map_put fd i (sm_session m)\<rparr>)" (is "mgr_ok ?m")
proof (rule tables_okI)
  note ok = tables_okD [OF assms(1)]
  have e: "entry_ok m f j \<Longrightarrow> entry_ok ?m f j" for f j by (simp add: entry_ok_def)
  show "map_of (sm_session ?m) f = Some j \<Longrightarrow> entry_ok ?m f j" for f j
    using ok(1) e ok(4) ok(5) [OF assms(2)] by (auto split: if_splits)
  show "map_of (sm_timeOutSe ?m) f = Some j \<Longrightarrow> entry_ok ?m f j" for f j
    using e ok(5) by (auto split: if_splits)
  show "map_of (sm_timeOutSe ?m) f = Some j \<Longrightarrow> map_of (sm_session ?m) f = None" for f j
    using ok(1) ok(6) by (auto split: if_splits)
  show "fst ` set (sm_timeout ?m) \<union> {} = fst ` set (sm_timeOutSe ?m)" using ok(8) by auto
  show "set (sm_open ?m) \<subseteq> fst ` set (sm_session ?m) \<union> fst ` set (sm_timeOutSe ?m)" using ok(10) by auto
qed (use tables_okD [OF assms(1)] in simp_all)

lemma ConnectSuccess_ok:
  assumes "mgr_ok m" "ConnectSuccess cx ctl msg m = Inr (r, msg', m')"
  shows "mgr_ok m' \<and> same_socks m m' \<and> nm_channelID msg' = nm_channelID msg"
proof (cases "map_of (sm_timeOutSe m) (nm_channelID msg)")
  case None
  with assms show ?thesis by (simp add: ConnectSuccess_def same_socks_def)
next
  case (Some i)
  obtain s where s: "sm_obj m i = Some s" "ns_sock s = nm_channelID msg"
    using tables_okD(5) [OF assms(1) Some] entry_socket by blast
  obtain msg1 s1 gs1 ret where c: "conn_packet cx msg s (sm_groups m) = Inr (ret, msg1, s1, gs1)"
    using assms(2) s(1) Some by (auto simp: ConnectSuccess_def rbind_Inr_iff)
  let ?m1 = "set_obj i s1 (m\<lparr>sm_groups := gs1\<rparr>)"
  note k = conn_packet_keeps [OF c]
  have gs: "mgr_ok (m\<lparr>sm_groups := gs1\<rparr>)" using assms(1) by (simp add: tables_ok_def entry_ok_def)
  have m1: "mgr_ok ?m1" "same_socks m ?m1" "sm_obj ?m1 i = Some s1" "map_of (sm_timeOutSe ?m1) (nm_channelID msg) = Some i"
    using set_obj_ok [OF gs, of i s s1] s(1) k Some by (auto simp: same_socks_def set_obj_def)
  let ?fd = "nm_channelID msg"
  let ?m2 = "?m1\<lparr>sm_timeOutSe := map_erase ?fd (sm_timeOutSe ?m1), sm_timeout := map_erase ?fd (sm_timeout ?m1),
    sm_session := map_put ?fd i (sm_session ?m1)\<rparr>"
  let ?s2 = "if ns_remoteType s1 \<noteq> eClient then ResetSendBuf (cx_server cx) s1 else s1"
  have m2: "mgr_ok ?m2" using establish_ok [OF m1(1,4,3)] k s(2) by simp
  have m3: "mgr_ok (set_obj i ?s2 ?m2)" "same_socks m (set_obj i ?s2 ?m2)"
    using set_obj_ok [OF m2, of i s1 ?s2] m1(2,3) s(1) k by (auto simp: same_socks_def set_obj_def)
  have ch: "nm_channelID msg1 = ?fd" "ns_sock s1 = ?fd" using k s(2) by simp_all
  show ?thesis
  proof (cases "ret = eConMessageErr")
    case True
    with assms(2) m1 k show ?thesis by (simp add: ConnectSuccess_def Some s(1) c Let_def)
  next
    case False
    have "msg' = msg1 \<and> (m' = set_obj i ?s2 ?m2 \<or> (\<exists>a res. mgr_Write cx ctl a (set_obj i ?s2 ?m2) = Inr (res, m')))"
      using assms(2) False
      by (auto simp: ConnectSuccess_def Some s(1) c Let_def ch rbind_Inr_iff split: if_splits)
    then show ?thesis
      using m3 mgr_Write_ok [OF m3(1)] k by (auto simp: same_socks_def)
  qed
qed

section \<open>What receiving keeps\<close>

text \<open>A property of the session and the world that connection packets keep and the receive fields do not matter to.\<close>

definition recv_keeps :: "'w conn_handler \<Rightarrow> (net_session \<Rightarrow> 'w \<Rightarrow> bool) \<Rightarrow> bool" where
  "recv_keeps on_conn P \<longleftrightarrow> (\<forall>m s w r s' w'. P s w \<and> on_conn m s w = Inr (r, s', w') \<longrightarrow> P s' w') \<and>
     (\<forall>s w b n c t. P s w \<longrightarrow> P (s\<lparr>ns_bufRecv := b, ns_pos := n, ns_recvCount := c, ns_recvTime := t\<rparr>) w)"

lemma recv_keepsD:
  assumes "recv_keeps on_conn P"
  shows "P s w \<Longrightarrow> on_conn m s w = Inr (r, s', w') \<Longrightarrow> P s' w'" "P s w \<Longrightarrow> P (s\<lparr>ns_bufRecv := b, ns_pos := n\<rparr>) w"
    "P s w \<Longrightarrow> P (s\<lparr>ns_pos := n\<rparr>) w" "P s w \<Longrightarrow> P (s\<lparr>ns_recvCount := c\<rparr>) w" "P s w \<Longrightarrow> P (s\<lparr>ns_recvTime := t\<rparr>) w"
    "P s w \<Longrightarrow> P (s\<lparr>ns_recvCount := c, ns_recvTime := t\<rparr>) w"
proof -
  have u: "P s w \<Longrightarrow> P (s\<lparr>ns_bufRecv := b, ns_pos := n, ns_recvCount := c, ns_recvTime := t\<rparr>) w" for b n c t
    using assms by (simp add: recv_keeps_def)
  show "P s w \<Longrightarrow> on_conn m s w = Inr (r, s', w') \<Longrightarrow> P s' w'" using assms unfolding recv_keeps_def by blast
  show "P s w \<Longrightarrow> P (s\<lparr>ns_bufRecv := b, ns_pos := n\<rparr>) w" using u [where b = b and n = n and c = "ns_recvCount s" and t = "ns_recvTime s"] by simp
  show "P s w \<Longrightarrow> P (s\<lparr>ns_pos := n\<rparr>) w" using u [where b = "ns_bufRecv s" and n = n and c = "ns_recvCount s" and t = "ns_recvTime s"] by simp
  show "P s w \<Longrightarrow> P (s\<lparr>ns_recvCount := c\<rparr>) w" using u [where b = "ns_bufRecv s" and n = "ns_pos s" and c = c and t = "ns_recvTime s"] by simp
  show "P s w \<Longrightarrow> P (s\<lparr>ns_recvTime := t\<rparr>) w" using u [where b = "ns_bufRecv s" and n = "ns_pos s" and c = "ns_recvCount s" and t = t] by simp
  show "P s w \<Longrightarrow> P (s\<lparr>ns_recvCount := c, ns_recvTime := t\<rparr>) w" using u [where b = "ns_bufRecv s" and n = "ns_pos s" and c = c and t = t] by simp
qed

lemma recv_packet_keeps_P:
  assumes "recv_keeps on_conn P" "P s w" "recv_packet sv on_conn h c (ret, vec, s, w) = Inr (ret', vec', s', w')"
  shows "P s' w'"
proof -
  let ?s = "s\<lparr>ns_recvCount := ns_recvCount s + 1\<rparr>"
  have P: "P ?s w" by (rule recv_keepsD(4) [OF assms(1,2)])
  obtain mo where mo: "packet_message sv h c ?s = Inr mo"
    using assms(3) by (cases "packet_message sv h c ?s") (auto simp: recv_packet_def)
  show ?thesis
  proof (cases mo)
    case None
    with assms(3) mo P show ?thesis by (simp add: recv_packet_def)
  next
    case (Some m)
    with assms(3) mo have "\<exists>r. Session_AddMessage on_conn m ?s w = Inr (r, s', w')"
      by (auto simp: recv_packet_def rbind_Inr_iff)
    with P recv_keepsD(1) [OF assms(1) P] show ?thesis
      by (auto simp: Session_AddMessage_def split: if_splits)
  qed
qed

lemma keep_rest_keeps_P:
  assumes "recv_keeps on_conn P" "P s w" "keep_rest off left (ret, vec, s, w) = Inr (ret', vec', s', w')"
  shows "P s' w'"
  using assms(3) recv_keepsD(2) [OF assms(1,2)] by (auto simp: keep_rest_def rbind_Inr_iff)

text \<open>One turn of the loop over the packets.\<close>

lemma recv_packets_turn:
  assumes "recv_packets sv on_conn off left st = Inr r"
  shows "keep_rest off left st = Inr r \<or> r = bad_packet st \<or>
    (\<exists>h c st1. recv_packet sv on_conn h c st = Inr st1 \<and>
      (r = (case st1 of (ret, vec, s, w) \<Rightarrow> (ret, vec, s\<lparr>ns_pos := 0\<rparr>, w)) \<or>
       (\<exists>off' left'. recv_packets sv on_conn off' left' st1 = Inr r \<and> nat left' < nat left)))"
proof -
  note eq = assms [unfolded recv_packets.simps [of sv on_conn off left st]]
  show ?thesis
  proof (cases "left < int HEADER_SIZE")
    case True
    with eq show ?thesis by simp
  next
    case False
    then obtain moveRes hb where m: "SafeMemmove 0 (int HEADER_SIZE) (drop off (ns_bufRecv (fst (snd (snd st))))) (int HEADER_SIZE)
          (replicate HEADER_SIZE NUL) = Inr (moveRes, hb)"
      using eq by (auto simp: rbind_Inr_iff)
    define h where "h = toBigEndian (sv_be sv) (header_at (sv_be sv) hb)"
    note eq1 = eq [simplified False m if_False rbind.simps case_prod_conv Let_def, folded h_def]
    show ?thesis
    proof (cases "moveRes \<noteq> 0 \<or> header_bad h")
      case True
      with eq1 show ?thesis by (auto split: if_splits)
    next
      case ok: False
      then obtain total where t: "c_int (sint (ph_length h) + int HEADER_SIZE) = Inr total"
        using eq1 by (auto simp: rbind_Inr_iff)
      then have pos: "0 < total" using ok by (auto simp: c_int_def header_bad_def HEADER_SIZE_def split: if_splits)
      show ?thesis
      proof (cases "MAX_MSG_PACKET_SIZE < total \<or> left < total")
        case True
        with eq1 ok t show ?thesis by (auto split: if_splits)
      next
        case fits: False
        then obtain st1 where st1: "recv_packet sv on_conn h (drop (off + HEADER_SIZE) (ns_bufRecv (fst (snd (snd st))))) st = Inr st1"
            "(if left - total \<le> 0 then Inr (case st1 of (ret, vec, s, w) \<Rightarrow> (ret, vec, s\<lparr>ns_pos := 0\<rparr>, w))
              else recv_packets sv on_conn (off + nat total) (left - total) st1) = Inr r"
          using eq1 ok t by (auto simp: rbind_Inr_iff)
        have "nat (left - total) < nat left" using pos False by (simp add: HEADER_SIZE_def)
        then have "r = (case st1 of (ret, vec, s, w) \<Rightarrow> (ret, vec, s\<lparr>ns_pos := 0\<rparr>, w)) \<or>
            (\<exists>off' left'. recv_packets sv on_conn off' left' st1 = Inr r \<and> nat left' < nat left)"
          using st1(2) by (cases "left - total \<le> 0") (simp, metis)
        with st1(1) show ?thesis by blast
      qed
    qed
  qed
qed

lemma recv_packets_keeps_P:
  assumes "recv_keeps on_conn P" "P s w" "recv_packets sv on_conn off left (ret, vec, s, w) = Inr (ret', vec', s', w')"
  shows "P s' w'"
  using assms(2,3)
proof (induction "nat left" arbitrary: off left ret vec s w rule: less_induct)
  case less
  let ?st = "(ret, vec, s, w)"
  show ?case
    using recv_packets_turn [OF less.prems(2)]
  proof (elim disjE exE conjE)
    assume "keep_rest off left ?st = Inr (ret', vec', s', w')"
    then show ?thesis by (rule keep_rest_keeps_P [OF assms(1) less.prems(1)])
  next
    assume "(ret', vec', s', w') = bad_packet ?st"
    then show ?thesis using less.prems(1) recv_keepsD(3) [OF assms(1) less.prems(1)] by (auto simp: bad_packet_def split: if_splits)
  next
    fix h c st1
    assume p: "recv_packet sv on_conn h c ?st = Inr st1"
    obtain r1 v1 s1 w1 where st1: "st1 = (r1, v1, s1, w1)" by (cases st1)
    have P: "P s1 w1" by (rule recv_packet_keeps_P [OF assms(1) less.prems(1) p [unfolded st1]])
    { assume "(ret', vec', s', w') = (case st1 of (ret, vec, s, w) \<Rightarrow> (ret, vec, s\<lparr>ns_pos := 0\<rparr>, w))"
      then show ?thesis using recv_keepsD(3) [OF assms(1) P] by (simp add: st1) }
    { fix off' left' assume "recv_packets sv on_conn off' left' st1 = Inr (ret', vec', s', w')" "nat left' < nat left"
      then show ?thesis using less.hyps P unfolding st1 by blast }
  qed
qed

primrec event_size :: "sock_event \<Rightarrow> nat" where
  "event_size (Arrived c) = Suc (length c)" | "event_size PeerClosed = 1" | "event_size SockError = 1"

definition events_size :: "sock_event list \<Rightarrow> nat" where
  "events_size evs = sum_list (map event_size evs)"

lemma recv_loop_keeps_P:
  assumes "recv_keeps on_conn P" "P s w" "recv_loop sv on_conn evs (ret, vec, s, w) = Inr (go, ret', vec', s', w')"
  shows "P s' w'"
  using assms(2,3)
proof (induction "events_size evs" arbitrary: evs ret vec s w rule: less_induct)
  case less
  show ?case
  proof (cases "\<exists>c evs1. evs = Arrived c # evs1")
    case False
    with less.prems show ?thesis
      by (cases evs; cases "hd evs") (auto simp: recv_loop.simps)
  next
    case True
    then obtain c evs1 where evs: "evs = Arrived c # evs1" by blast
    define space where "space = nat (MAX_RECV_MSG_SIZE - ns_pos s)"
    define evs' where "evs' = (if length c \<le> space then evs1 else Arrived (drop space c) # evs1)"
    note eq = less.prems(2) [unfolded evs recv_loop.simps [of sv on_conn "Arrived c # evs1"] list.case sock_event.case Let_def,
        folded space_def, folded evs'_def]
    show ?thesis
    proof (cases "take space c = []")
      case True
      with eq less.prems(1) show ?thesis by simp
    next
      case False
      then have sz: "events_size evs' < events_size evs" by (auto simp: evs'_def evs events_size_def)
      obtain b where b: "copy_in (ns_pos s) (take space c) (ns_bufRecv s) = Inr b" using eq False by (auto simp: rbind_Inr_iff)
      define s1 where "s1 = s\<lparr>ns_bufRecv := b, ns_pos := ns_pos s + int (length (take space c))\<rparr>"
      have P1: "P s1 w" unfolding s1_def by (rule recv_keepsD(2) [OF assms(1) less.prems(1)])
      note eq1 = eq [unfolded b rbind.simps, folded s1_def]
      show ?thesis
      proof (cases "ns_pos s1 < int HEADER_SIZE")
        case True
        with eq1 False show ?thesis using less.hyps [OF sz P1] by (auto split: if_splits)
      next
        case long: False
        then obtain r2 v2 s2 w2 where v: "Session_Recv_vec sv on_conn vec s1 w = Inr (r2, v2, s2, w2)"
            "(if r2 = eSocketClose then Inr (False, r2, v2, s2, w2) else recv_loop sv on_conn evs' (r2, v2, s2, w2)) =
              Inr (go, ret', vec', s', w')"
          using eq1 False by (auto simp: rbind_Inr_iff)
        have P2: "P s2 w2" using recv_packets_keeps_P [OF assms(1) P1 v(1) [unfolded Session_Recv_vec_def]] .
        with v(2) less.hyps [OF sz P2] show ?thesis by (auto split: if_splits)
      qed
    qed
  qed
qed

lemma Session_Recv_keeps_P:
  assumes "recv_keeps on_conn P" "P s w" "Session_Recv sv on_conn now evs s w = Inr (code, ms, s', w')"
  shows "P s' w'"
proof -
  obtain go ret vec s1 w1 where l: "recv_loop sv on_conn evs (0, [], s, w) = Inr (go, ret, vec, s1, w1)"
    using assms(3) by (auto simp: Session_Recv_def rbind_Inr_iff)
  have P1: "P s1 w1" by (rule recv_loop_keeps_P [OF assms(1,2) l])
  show ?thesis
  proof (cases go)
    case True
    then obtain r2 v2 s2 w2 where v: "Session_Recv_vec sv on_conn vec s1 w1 = Inr (r2, v2, s2, w2)"
      using assms(3) by (auto simp: Session_Recv_def l rbind_Inr_iff)
    have P2: "P s2 w2" using recv_packets_keeps_P [OF assms(1) P1 v [unfolded Session_Recv_vec_def]] .
    have "s' = s2\<lparr>ns_recvCount := ns_recvCount s', ns_recvTime := ns_recvTime s'\<rparr> \<and> w' = w2"
      using assms(3) True by (auto simp: Session_Recv_def l v count_packets_def split: if_splits)
    then show ?thesis using recv_keepsD(6) [OF assms(1) P2] by metis
  qed (use assms(3) P1 in \<open>simp add: Session_Recv_def l\<close>)
qed

section \<open>Events\<close>

text \<open>While a session receives, the manager is consistent when its object is put back.\<close>

definition lent_ok :: "nat \<Rightarrow> int \<Rightarrow> net_session \<Rightarrow> session_mgr \<Rightarrow> bool" where
  "lent_ok i fd s m \<longleftrightarrow> ns_sock s = fd \<and> i < sm_next m \<and> sm_obj m i = None \<and> mgr_ok (set_obj i s m)"

lemma lent_keeps: "recv_keeps (conn_message cx ctl i) (lent_ok i fd)"
  unfolding recv_keeps_def
proof (intro conjI allI impI, elim conjE)
  fix msg s m r s' m'
  assume l: "lent_ok i fd s m" and c: "conn_message cx ctl i msg s m = Inr (r, s', m')"
  obtain res msg1 m1 where a: "ConnectSuccess cx ctl msg (set_obj i s m) = Inr (res, msg1, m1)"
    using c by (auto simp: conn_message_def rbind_Inr_iff)
  have ok: "mgr_ok m1" "same_socks (set_obj i s m) m1"
    using ConnectSuccess_ok [OF _ a] l by (auto simp: lent_ok_def)
  obtain m2 where m2: "DeleteChannel (nm_channelID msg1) m1 = Inr m2" "mgr_ok m2" "sm_obj m2 = sm_obj m1"
    using DeleteSession_ok [OF ok(1), of "nm_channelID msg1"] ok(1) unfolding DeleteChannel_def
    by (cases "nm_channelID msg1 < 0") auto
  obtain m3 where m3: "mgr_ok m3" "sm_obj m3 = sm_obj m1" "sm_obj m3 i = Some s'" "m' = m3\<lparr>sm_obj := (sm_obj m3)(i := None)\<rparr>"
  proof (cases "res \<noteq> 0 \<and> res \<noteq> eGroupContinue")
    case True
    then show ?thesis using c m2 by (intro that [of m2]) (auto simp: conn_message_def a rbind_Inr_iff)
  next
    case False
    define m4 where "m4 = (if res \<noteq> eGroupContinue then SystemErr \<lparr>se_fd = (if nm_group msg1 \<ge> 0 then nm_group msg1 else nm_channelID msg1),
        se_lid = nm_localID msg1, se_ltype = nm_localType msg1, se_rid = nm_remoteID msg1, se_rtype = nm_remoteType msg1, se_err = 0,
        se_addr = reported_addr (sv_be (cx_server cx)) (nm_addr msg1)\<rparr> m1 else m1)"
    have "mgr_ok m4" "sm_obj m4 = sm_obj m1" using ok(1) by (simp_all add: m4_def)
    moreover have "rbind (deref (sm_obj m4 i)) (\<lambda>s. Inr (1, s, m4\<lparr>sm_obj := (sm_obj m4)(i := None)\<rparr>)) = Inr (r, s', m')"
      using c False by (auto simp: conn_message_def a m4_def split: if_splits)
    ultimately show ?thesis by (intro that [of m4]) (auto simp: rbind_Inr_iff)
  qed
  have "set_obj i s' m' = m3" using m3(3,4) by (simp add: set_obj_def fun_upd_idem_iff)
  moreover have "ns_sock s' = fd"
    using ok(2) l m3(2,3) by (auto simp: same_socks_def lent_ok_def set_obj_def dest!: spec [of _ i])
  moreover have "i < sm_next m3" using tables_okD(9) [OF m3(1,3)] .
  ultimately show "lent_ok i fd s' m'" using m3(1,4) by (simp add: lent_ok_def)
next
  fix s m b n c t
  assume "lent_ok i fd s m"
  then show "lent_ok i fd (s\<lparr>ns_bufRecv := b, ns_pos := n, ns_recvCount := c, ns_recvTime := t\<rparr>) m"
    using set_obj_ok [of "{}" "set_obj i s m" i s "s\<lparr>ns_bufRecv := b, ns_pos := n, ns_recvCount := c, ns_recvTime := t\<rparr>"]
    by (simp add: lent_ok_def set_obj_def)
qed

lemma epoll_in_ok:
  assumes "mgr_ok m" "epoll_in cx ctl now evs i m = Inr (ms, m')"
  shows "mgr_ok m'"
proof -
  obtain s code s1 m1 where r: "sm_obj m i = Some s"
      "Session_Recv (cx_server cx) (conn_message cx ctl i) (now div 1000) evs s (m\<lparr>sm_obj := (sm_obj m)(i := None)\<rparr>) = Inr (code, ms, s1, m1)"
      "rbind (if code = eSocketClose then DeleteChannelEx cx (ns_sock s1) eSocketClose (set_obj i s1 m1) else Inr (set_obj i s1 m1))
         (\<lambda>m. Inr (ms, m)) = Inr (ms, m')"
    using assms(2) by (auto simp: epoll_in_def rbind_Inr_iff Let_def)
  have "lent_ok i (ns_sock s) s (m\<lparr>sm_obj := (sm_obj m)(i := None)\<rparr>)"
    using assms(1) r(1) tables_okD(9) [OF assms(1) r(1)] by (simp add: lent_ok_def set_obj_def fun_upd_idem)
  then have "lent_ok i (ns_sock s) s1 m1" by (rule Session_Recv_keeps_P [OF lent_keeps _ r(2)])
  then have "mgr_ok (set_obj i s1 m1)" by (simp add: lent_ok_def)
  then show ?thesis
    using r(3) DeleteChannelEx_ok [of "set_obj i s1 m1" cx "ns_sock s1" eSocketClose] by (auto split: if_splits)
qed

end
