(* ===== verification/EpollLoop.thy ===== *)
theory EpollLoop
  imports SessionManager
begin

text \<open>
  The loop that serves the sessions: \<open>CEpollLoop\<close> of \<open>CommBase/Network/EpollMain.cpp\<close>, and the two
  threads that hand it sockets through pipes, \<open>CAcceptor\<close> of \<open>AcceptManager.cpp\<close> and
  \<open>CConnMgr\<close> of \<open>ConnManager.cpp\<close>. A pipe is the bytes in it; \<open>ip_of\<close> stands for \<open>inet_addr\<close>.
  The outcomes of \<open>epoll_ctl\<close>, \<open>connect\<close>, \<open>recv\<close> and \<open>send\<close> are arguments.
\<close>

definition eEpollClose :: int where "eEpollClose = 30"
definition eEpollNull :: int where "eEpollNull = 31"
definition eRequestListen :: u8 where "eRequestListen = 1"
definition eRequestConn :: u8 where "eRequestConn = 2"
definition eAcceptEpoll :: u8 where "eAcceptEpoll = 0"
definition eConnEpoll :: u8 where "eConnEpoll = 1"

section \<open>Requests\<close>

text \<open>
  The structures \<open>request_listen\<close> and \<open>request_conn\<close> as they lie in memory (24 and 8 bytes), behind
  their two header bytes. The union they lie in is not cleared: the bytes behind
  the address come from \<open>old\<close>.
\<close>

definition listen_request :: "bool \<Rightarrow> (nat \<Rightarrow> char) \<Rightarrow> int \<Rightarrow> u16 \<Rightarrow> char list \<Rightarrow> u8 \<Rightarrow> fault + char list" where
  "listen_request be old fd port ip index =
     rbind (SafeMemmove 0 16 ip (int (length ip)) (blk 6 16 (junk old 24))) (\<lambda>(res, host).
     Inr ([char_of_byte eRequestListen, char_of_byte 24] @ mem_image be 4 (word_of_int fd :: u32) @
       mem_image be 2 (htons be port) @ host @ [char_of_byte index, old 23]))"

definition conn_request :: "bool \<Rightarrow> (nat \<Rightarrow> char) \<Rightarrow> int \<Rightarrow> u8 \<Rightarrow> char list" where
  "conn_request be old fd index =
     [char_of_byte eRequestConn, char_of_byte 8] @ mem_image be 4 (word_of_int fd :: u32) @ [char_of_byte index] @
     [old 5, old 6, old 7]"

record request_listen =
  rl_fd :: int
  rl_opaque :: u16
  rl_host :: "char list"
  rl_index :: u8

record request_conn =
  rc_fd :: int
  rc_index :: u8

definition listen_at :: "bool \<Rightarrow> char list \<Rightarrow> request_listen" where
  "listen_at be b = \<lparr>rl_fd = sint (load be (blk 0 4 b) :: u32), rl_opaque = load be (blk 4 2 b), rl_host = cstr (drop 6 b),
     rl_index = byte_of_char (b ! 22)\<rparr>"

definition conn_at :: "bool \<Rightarrow> char list \<Rightarrow> request_conn" where
  "conn_at be b = \<lparr>rc_fd = sint (load be (blk 0 4 b) :: u32), rc_index = byte_of_char (b ! 4)\<rparr>"

text \<open>\<open>EpollCtl\<close> failed for a new socket: its session goes again.\<close>

definition undo_session :: "int \<Rightarrow> session_mgr \<Rightarrow> fault + session_mgr" where
  "undo_session fd m = rbind (DeleteSession fd m) (\<lambda>m. Inr (m\<lparr>sm_epollPtr := (sm_epollPtr m)(fd := None)\<rparr>))"

definition session_index :: "u8 \<Rightarrow> u8 \<Rightarrow> u16" where
  "session_index index loop = push_bit 8 (ucast index) OR ucast loop"

text \<open>A connection was accepted; \<open>ctl\<close> tells whether the socket could be registered.\<close>

definition accept_request ::
  "net_context \<Rightarrow> (char list \<Rightarrow> u32) \<Rightarrow> bool \<Rightarrow> int \<Rightarrow> u8 \<Rightarrow> request_listen \<Rightarrow> session_mgr \<Rightarrow> fault + session_mgr" where
  "accept_request cx ip_of ctl now loop rl m =
     rbind (GetAccConfig cx (uint (rl_index rl))) (\<lambda>conf.
     rbind (AddTimerSessionEx cx now (rl_fd rl) (ip_of (rl_host rl), rl_opaque rl) conf (session_index (rl_index rl) loop)
       eAcceptEpoll m) (\<lambda>(se, m).
     case se of None \<Rightarrow> Inr (closeSocket (rl_fd rl) m)
     | Some i \<Rightarrow> if \<not> ctl then undo_session (rl_fd rl) m else Inr m))"

text \<open>The packet that tells the other side who we are.\<close>

definition hello_message :: "net_context \<Rightarrow> connection_config \<Rightarrow> int \<Rightarrow> fault + net_message" where
  "hello_message cx conf fd =
     (let sv = cx_server cx; con = replicate 8 NUL;
          msg = (Message_plain (sv_old sv))\<lparr>nm_security := cc_security conf, nm_remoteID := co_remote_id conf,
            nm_remoteType := co_remote_type conf, nm_channelID := fd\<rparr>
      in rbind (SafeMemmove 0 8 [char_of_byte (cc_local_type conf)] 1 con) (\<lambda>(res, con).
         rbind (SafeMemmove 1 8 (mem_image (sv_be sv) 2 (cc_local_id conf)) 2 con) (\<lambda>(res, con).
         rbind (if co_group_count conf \<le> 1 then
                  SetContent (sv_old sv) con 3 (msg\<lparr>nm_messageID := C2SMessage\<rparr>)
                else rbind (SafeMemmove 3 8 [char_of_byte (co_group_count conf)] 1 con) (\<lambda>(res, con).
                  SetContent (sv_old sv) con 4 (msg\<lparr>nm_messageID := C2SGroupMessage\<rparr>))) (\<lambda>msg.
         Inr (msg\<lparr>nm_messageType := ConnMessage, nm_localType := cc_local_type conf\<rparr>)))))"

text \<open>We are connected to a server; \<open>ctl\<close> and \<open>arm_ctl\<close> are the results of the two registrations.\<close>

definition connect_request ::
  "net_context \<Rightarrow> bool \<Rightarrow> bool \<Rightarrow> int \<Rightarrow> u8 \<Rightarrow> request_conn \<Rightarrow> session_mgr \<Rightarrow> fault + session_mgr" where
  "connect_request cx ctl arm_ctl now loop rc m =
     rbind (GetConnConfig cx (uint (rc_index rc))) (\<lambda>conf.
     rbind (AddTimerSessionEx cx now (rc_fd rc) (fst (co_remote_address conf), htons (sv_be (cx_server cx)) (snd (co_remote_address conf)))
       (channel_config.truncate conf) (session_index (rc_index rc) loop) eConnEpoll m) (\<lambda>(se, m).
     case se of None \<Rightarrow> Inr (closeSocket (rc_fd rc) m)
     | Some i \<Rightarrow>
         if \<not> ctl then undo_session (rc_fd rc) m
         else rbind (hello_message cx conf (rc_fd rc)) (\<lambda>msg.
              rbind (deref (sm_obj m i)) (\<lambda>s.
              rbind (Session_Write (cx_server cx) arm_ctl msg s) (\<lambda>(res, msg, s). Inr (set_obj i s m))))))"

text \<open>\<open>ReadCommd\<close>: one request from a pipe; the rest of the pipe, and the manager.\<close>

definition BlockReadPipe :: "nat \<Rightarrow> char list \<Rightarrow> char list \<Rightarrow> char list \<times> char list" where
  "BlockReadPipe n pipe buffer = (put 0 (take n pipe) buffer, drop n pipe)"

definition ReadCommd ::
  "net_context \<Rightarrow> (char list \<Rightarrow> u32) \<Rightarrow> bool \<Rightarrow> bool \<Rightarrow> int \<Rightarrow> u8 \<Rightarrow> char list \<Rightarrow> session_mgr \<Rightarrow> fault + char list \<times> session_mgr" where
  "ReadCommd cx ip_of ctl arm_ctl now loop pipe m =
     (case BlockReadPipe 2 pipe [NUL, NUL] of (header, pipe) \<Rightarrow>
      let typ = byte_of_char (header ! 0); len = byte_of_char (header ! 1) in
      if len \<le> 0 then Inr (pipe, m)
      else case BlockReadPipe (unat len) pipe (replicate 256 NUL) of (buffer, pipe) \<Rightarrow>
        rbind (if typ = eRequestListen then accept_request cx ip_of ctl now loop (listen_at (sv_be (cx_server cx)) buffer) m
               else if typ = eRequestConn then connect_request cx ctl arm_ctl now loop (conn_at (sv_be (cx_server cx)) buffer) m
               else Inr m) (\<lambda>m. Inr (pipe, m)))"

section \<open>Events\<close>

record epoll_flags =
  ef_in :: bool
  ef_out :: bool
  ef_rdhup :: bool
  ef_err :: bool
  ef_hup :: bool

definition epoll_out :: "net_context \<Rightarrow> send_result list \<Rightarrow> nat \<Rightarrow> session_mgr \<Rightarrow> fault + char list \<times> session_mgr" where
  "epoll_out cx rs i m =
     rbind (deref (sm_obj m i)) (\<lambda>s.
     case Session_Send rs s of (code, out, s) \<Rightarrow>
       let m = set_obj i s m in
       rbind (if code = eSocketClose then DeleteChannelEx cx (ns_sock s) eSocketClose m else Inr m) (\<lambda>m. Inr (out, m)))"

definition epoll_close :: "net_context \<Rightarrow> int \<Rightarrow> nat \<Rightarrow> session_mgr \<Rightarrow> fault + session_mgr" where
  "epoll_close cx err i m = rbind (deref (sm_obj m i)) (\<lambda>s. DeleteChannelEx cx (ns_sock s) err m)"

text \<open>
  What \<open>svr\<close> does with an event of the socket \<open>fd\<close>: the messages for the dispatcher, the bytes that
  went out, the manager. Bytes that arrive together with the end of the stream are not read.
\<close>

definition epoll_event ::
  "net_context \<Rightarrow> bool \<Rightarrow> int \<Rightarrow> epoll_flags \<Rightarrow> sock_event list \<Rightarrow> send_result list \<Rightarrow> int \<Rightarrow> session_mgr \<Rightarrow>
     fault + net_message list \<times> char list \<times> session_mgr" where
  "epoll_event cx ctl now ev evs rs fd m =
     rbind (deref (sm_epollPtr m fd)) (\<lambda>i.
     rbind (if ef_in ev \<and> \<not> ef_rdhup ev then epoll_in cx ctl now evs i m else Inr ([], m)) (\<lambda>(ms, m).
     rbind (if ef_out ev then epoll_out cx rs i m else Inr ([], m)) (\<lambda>(out, m).
     rbind (if ef_rdhup ev \<or> ef_err ev \<or> ef_hup ev then epoll_close cx eEpollClose i m
            else if \<not> ef_in ev \<and> \<not> ef_out ev then epoll_close cx eEpollNull i m
            else Inr m) (\<lambda>m. Inr (ms, out, m)))))"

section \<open>Connecting\<close>

datatype conn_status = eDisconnection | eConnetion | eReConnection | eDelConnection

record conn_data =
  cd_sock :: int
  cd_status :: conn_status
  cd_index :: u8

text \<open>\<open>Init\<close> with the sockets the system gives out (none: \<open>eCreateSockErr\<close>); one entry per connection of a group.\<close>

definition eCreateSockErr :: int where "eCreateSockErr = 1"

primrec open_socks :: "nat \<Rightarrow> u8 \<Rightarrow> int list \<Rightarrow> (int \<times> conn_data) list \<Rightarrow> int \<times> int list \<times> (int \<times> conn_data) list" where
  "open_socks 0 index socks m = (eNetSuccess, socks, m)"
| "open_socks (Suc n) index socks m =
     (case socks of [] \<Rightarrow> (eCreateSockErr, [], m)
      | sock # socks \<Rightarrow> if sock = - 1 then (eCreateSockErr, socks, m)
          else open_socks n index socks (map_put sock \<lparr>cd_sock = sock, cd_status = eDisconnection, cd_index = index\<rparr> m))"

primrec conn_init :: "int \<Rightarrow> connection_config list \<Rightarrow> int list \<Rightarrow> (int \<times> conn_data) list \<Rightarrow> int \<times> (int \<times> conn_data) list" where
  "conn_init index [] socks m = (eNetSuccess, m)"
| "conn_init index (c # cs) socks m =
     (case open_socks (if co_group_count c = 0 then 1 else unat (co_group_count c)) (word_of_int index) socks m of
        (res, socks, m) \<Rightarrow> if res = eNetSuccess then conn_init (index + 1) cs socks m else (res, m))"

definition AddConn :: "int \<Rightarrow> u8 \<Rightarrow> (int \<times> conn_data) list \<Rightarrow> (int \<times> conn_data) list" where
  "AddConn sock index m = map_put sock \<lparr>cd_sock = sock, cd_status = eReConnection, cd_index = index\<rparr> m"

text \<open>
  One pass of \<open>svr\<close> over the entries that are left; \<open>connects fd\<close> tells whether \<open>connect\<close> works. The
  requests that were sent, and the entries that stay.
\<close>

primrec conn_pass :: "net_context \<Rightarrow> (int \<Rightarrow> bool) \<Rightarrow> (int \<times> conn_data) list \<Rightarrow> fault + request_conn list \<times> (int \<times> conn_data) list" where
  "conn_pass cx connects [] = Inr ([], [])"
| "conn_pass cx connects (p # ps) =
     rbind (GetConnConfig cx (uint (cd_index (snd p)))) (\<lambda>conf.
     if cd_status (snd p) = eDisconnection \<or> cd_status (snd p) = eReConnection \<and> co_re_connect conf then
       if \<not> connects (fst p) then
         rbind (conn_pass cx connects ps) (\<lambda>(rs, m). Inr (rs, (fst p, (snd p)\<lparr>cd_status := eReConnection\<rparr>) # m))
       else if fst p < 0 then Inl Spins
       else rbind (conn_pass cx connects ps) (\<lambda>(rs, m). Inr (\<lparr>rc_fd = fst p, rc_index = cd_index (snd p)\<rparr> # rs, m))
     else conn_pass cx connects ps)"

end
