(* ===== verification/SessionPair.thy ===== *)
theory SessionPair
  imports SessionStream
begin

text \<open>
  The two ends of a connection between servers.
\<close>

section \<open>The sending side\<close>

lemma send_chunks_simps:
  "send_chunks [] k len = (None, k)"
  "send_chunks (SendError # rs) k len = (Some eSockSendErr, k)"
  "send_chunks (Sent n # rs) k len = (if n = 0 then (Some eSocketClose, k)
     else let k' = k + min (int n) (len - k) in if k' \<ge> len then (None, k') else send_chunks rs k' len)"
  by (simp_all add: send_chunks.simps)

lemma send_chunks_bounds:
  "send_chunks rs k0 len = (err, k) \<Longrightarrow> 0 \<le> k0 \<Longrightarrow> k0 \<le> len \<Longrightarrow> k0 \<le> k \<and> k \<le> len"
proof (induction rs arbitrary: k0)
  case (Cons a rs)
  show ?case
  proof (cases a)
    case (Sent n)
    with Cons.prems Cons.IH [of "k0 + min (int n) (len - k0)"] show ?thesis
      by (auto simp: send_chunks_simps Let_def min_def split: if_splits)
  qed (use Cons.prems in \<open>simp add: send_chunks_simps\<close>)
qed (simp add: send_chunks_simps)

lemma send_chunks_err: "send_chunks rs k0 len = (Some e, k) \<Longrightarrow> e \<noteq> eNetSuccess"
proof (induction rs arbitrary: k0)
  case (Cons a rs)
  show ?case
  proof (cases a)
    case (Sent n)
    with Cons show ?thesis
      by (auto simp: send_chunks_simps Let_def eSocketClose_def eNetSuccess_def split: if_splits)
  qed (use Cons.prems in \<open>simp add: send_chunks_simps eSockSendErr_def eNetSuccess_def\<close>)
qed (simp add: send_chunks_simps)

lemma Session_Send_ok:
  assumes "cb_ok (ns_bufSend s)" "Session_Send rs s = (code, out, s')" "code = eNetSuccess"
  shows "cb_ok (ns_bufSend s')" "out @ pending (ns_bufSend s') = pending (ns_bufSend s)"
    "ns_security s' = ns_security s"
proof -
  have "cb_ok (ns_bufSend s') \<and> out @ pending (ns_bufSend s') = pending (ns_bufSend s) \<and> ns_security s' = ns_security s"
  proof (cases "IsEmpty (ns_bufSend s)")
    case True
    with assms show ?thesis by (auto simp: Session_Send_def)
  next
    case False
    obtain res at b where r: "ReadSendBuff (ns_bufSend s) = (res, at, b)" by (cases "ReadSendBuff (ns_bufSend s)")
    have offer: "cb_offer (ns_bufSend s) = (case at of None \<Rightarrow> [] | Some (i, n) \<Rightarrow> blk (nat i) (nat n) (cb_buffer b), b)"
      by (simp add: cb_offer_def r)
    note ok = cb_offer_ok [OF assms(1) offer]
    show ?thesis
    proof (cases at)
      case None
      with False assms(2) r ok(1,2) show ?thesis by (auto simp: Session_Send_def)
    next
      case (Some p)
      obtain i n where p: "p = (i, n)" by (cases p)
      obtain err k where k: "send_chunks rs 0 n = (err, k)" by (cases "send_chunks rs 0 n")
      have n: "n = GetReadLen b" "i = cb_read b"
        using r Some p by (auto simp: ReadSendBuff_def Let_def split: if_splits)
      have b: "0 \<le> cb_read b" "0 \<le> n" "cb_read b + n \<le> int (length (cb_buffer b))"
        using ok(1) n by (auto simp: cb_ok_def GetReadLen_def IsNormal_def)
      have kb: "0 \<le> k" "k \<le> n" using send_chunks_bounds [OF k] b by auto
      let ?bs = "blk (nat i) (nat n) (cb_buffer b)"
      have len: "nat k \<le> length ?bs" using kb b n by simp
      have tk: "blk (nat i) (nat k) (cb_buffer b) = take (nat k) ?bs" using kb by (simp add: blk_def min_def)
      have bs: "?bs = take (length ?bs) (pending (ns_bufSend s))" using ok(3) by (simp only: Some p option.case case_prod_conv)
      have "take (nat k) ?bs = take (nat k) (pending (ns_bufSend s))"
        using len arg_cong [OF bs, of "take (nat k)"] by (simp add: min_def del: length_blk)
      then have "take (nat k) ?bs @ drop (nat k) (pending (ns_bufSend s)) = pending (ns_bufSend s)"
        by (simp only: append_take_drop_id)
      moreover have "err = None" using False assms(2,3) r Some p k
        by (auto simp: Session_Send_def Let_def dest: send_chunks_err split: option.splits)
      ultimately show ?thesis
        using False assms(2) r Some p k kb ok(5) [of "nat k"] len tk
        by (auto simp: Session_Send_def Let_def)
    qed
  qed
  then show "cb_ok (ns_bufSend s')" "out @ pending (ns_bufSend s') = pending (ns_bufSend s)"
    "ns_security s' = ns_security s" by auto
qed

section \<open>Messages of a server to a server\<close>

text \<open>A message that can be sent: its block has room for the signature, its packet fits the receiver's buffer.\<close>

definition writable :: "net_message \<Rightarrow> bool" where
  "writable m \<longleftrightarrow> body_ok m \<and> nm_length m + 16 + int HEADER_SIZE \<le> 32768 \<and> 0 < nm_remoteType m \<and> 0 < nm_localType m"

definition sendable :: "net_message \<Rightarrow> bool" where
  "sendable m \<longleftrightarrow> writable m \<and> 0 \<le> sint (nm_remoteID m) \<and> nm_remoteType m < eMax \<and> nm_localType m < eMax \<and>
     nm_messageType m \<noteq> ConnMessage \<and> nm_messageType m \<le> SystemMessage"

lemma sendable_writable: "sendable m \<Longrightarrow> writable m" by (simp add: sendable_def)

text \<open>The packet a session makes of it.\<close>

definition packet_body :: "bool \<Rightarrow> net_message \<Rightarrow> char list" where
  "packet_body secure m = body m @ (if secure then digest_of (body m) else [])"

definition packet_of :: "bool \<Rightarrow> net_message \<Rightarrow> packet_header \<times> char list" where
  "packet_of secure m = (\<lparr>ph_length = word_of_nat (length (packet_body secure m)), ph_security = (if secure then 1 else 0),
     ph_remoteType = nm_remoteType m, ph_remoteID = nm_remoteID m, ph_localType = nm_localType m,
     ph_messageID = nm_messageID m, ph_messageType = nm_messageType m, ph_reqID = nm_reqID m, ph_sendTime = nm_sendTime m\<rparr>,
     packet_body secure m)"

lemma writable_body: "writable m \<Longrightarrow> length (body m) = nat (nm_length m) \<and> length (packet_body secure m) + HEADER_SIZE \<le> 32768"
  by (auto simp: writable_def body_ok_def body_def packet_body_def)

lemma sint_word_nat: "n < 2 ^ 31 \<Longrightarrow> sint (word_of_nat n :: u32) = int n"
proof -
  assume "n < 2 ^ 31"
  then have "(int n + 2 ^ 31) mod 2 ^ 32 = int n + 2 ^ 31" by (intro mod_pos_pos_trivial) auto
  then show ?thesis using int_word_sint [where x = "int n" and ?'a = 32] by simp
qed

lemma packet_of_data:
  assumes "sendable m" "ns_security s = secure"
  shows "data_packet s (packet_of secure m)"
proof -
  let ?b = "packet_body secure m"
  have "sint (ph_length (fst (packet_of secure m))) = int (length ?b)"
    using writable_body [OF sendable_writable [OF assms(1)], of secure] unfolding packet_of_def fst_conv packet_header.select_convs
    by (intro sint_word_nat) simp
  moreover have "secure \<longrightarrow> 16 \<le> length ?b" by (simp add: packet_body_def)
  ultimately show ?thesis
    using writable_body [OF sendable_writable [OF assms(1)], of secure] assms
    by (simp add: data_packet_def frame_ok_def header_bad_def sendable_def packet_of_def writable_def linorder_not_le linorder_not_less)
qed

lemma packet_of_accepted:
  assumes "sendable m" "ns_security s = secure" "nm_remoteID m = sv_local_id sv" "nm_remoteType m = sv_local_type sv"
  shows "accepted sv s (packet_of secure m)"
    "expected s (packet_of secure m) = (nm_messageID m, nm_messageType m, nm_reqID m, nm_localType m, ns_sock s, body m)"
  using assms by (auto simp: accepted_def expected_def packet_of_def signed_part_def packet_body_def)

text \<open>Writing such a message: its packet is appended to the send buffer, or nothing is.\<close>

lemma Session_Write_ok:
  assumes "writable m" "md5_mem_ok (sv_md5 sv)" "cb_ok (ns_bufSend s)"
  shows "\<exists>res m' s'. Session_Write sv ctl m s = Inr (res, m', s') \<and> cb_ok (ns_bufSend s') \<and> ns_security s' = ns_security s \<and>
    (res = eNetSuccess \<longrightarrow> pending (ns_bufSend s') = pending (ns_bufSend s) @ wire_frame (sv_be sv) (packet_of (ns_security s) m)) \<and>
    (res \<noteq> eNetSuccess \<and> res \<noteq> eCtlEpollErr \<longrightarrow> pending (ns_bufSend s') = pending (ns_bufSend s)) \<and>
    s' = s\<lparr>ns_bufSend := ns_bufSend s'\<rparr> \<and>
    (ctl \<and> room (int (length (wire_frame (sv_be sv) (packet_of (ns_security s) m)))) (ns_bufSend s) \<longrightarrow> res = eNetSuccess)"
proof -
  let ?m = "m\<lparr>nm_security := ns_security s\<rparr>" and ?be = "sv_be sv"
  have m0: "(if nm_security m \<noteq> ns_security s then m\<lparr>nm_security := ns_security s\<rparr> else m) = ?m" by simp
  have bok: "body_ok ?m" and bod: "body ?m = body m"
    using assms(1) by (simp_all add: writable_def body_ok_def body_def)
  obtain m' where m': "EncryptMessage (sv_md5 sv) ?m = Inr m'" "nm_length m' \<le> int (length (nm_content m'))" "0 \<le> nm_length m'"
      "body m' = packet_body (ns_security s) m" "m' = ?m\<lparr>nm_length := nm_length m', nm_content := nm_content m'\<rparr>"
    using encrypted_body [OF assms(2) bok, unfolded bod] by (auto simp: packet_body_def)
  have len: "length (packet_body (ns_security s) m) = nat (nm_length m')"
    using m'(2,3) by (simp add: m'(4) [symmetric] body_def)
  have small: "length (packet_body (ns_security s) m) < 2 ^ 31"
    using writable_body [OF assms(1), of "ns_security s"] by simp
  have types: "nm_remoteType m' = nm_remoteType m" by (subst m'(5)) simp
  have h: "GetHead ?be m' = fst (packet_of (ns_security s) m)"
    using assms(1) m'(3) len types by (subst m'(5)) (simp add: GetHead_def toSmallEndian_eq packet_of_def writable_def)
  let ?p = "Packet (GetHead ?be m') (nm_content m')"
  have rt: "nm_remoteType m \<noteq> 0" using assms(1) by (auto simp: writable_def)
  have bl: "body_length ?be (GetHead ?be m') = nm_length m'"
    using rt small m'(3) sint_word_nat [of "length (packet_body (ns_security s) m)"]
    by (simp add: h body_length_def packet_of_def writable_def len)
  have ob: "out_ok ?be ?p" using m'(2,3) by (simp add: bl)
  have "toBigEndian ?be (fst (packet_of (ns_security s) m)) = fst (packet_of (ns_security s) m)"
    using assms(1) by (simp add: toBigEndian_eq packet_of_def writable_def)
  then have out: "out_bytes ?be ?p = wire_frame ?be (packet_of (ns_security s) m)"
    unfolding out_bytes.simps bl unfolding h wire_frame_def using m'(4) by (simp add: packet_of_def body_def)
  let ?room = "room (int (length (wire_frame ?be (packet_of (ns_security s) m)))) (ns_bufSend s)"
  obtain b' where b': "WriteSend ?be (nm_content m') (GetHead ?be m') (ns_bufSend s) =
      Inr (if ?room then 0 else eNoEnughWrite, b')" "cb_ok b'"
      "pending b' = pending (ns_bufSend s) @ (if ?room then wire_frame ?be (packet_of (ns_security s) m) else [])"
    using cb_put_ok [OF assms(3) ob] unfolding out cb_put.simps by blast
  have "Session_Write sv ctl m s =
      Inr (if ?room then (if ctl then eNetSuccess else eCtlEpollErr) else eNoEnughWrite, m', s\<lparr>ns_bufSend := b'\<rparr>)"
    by (simp only: Session_Write_def Let_def m0 m'(1) rbind.simps b'(1))
      (simp add: arm_def eNetSuccess_def eNoEnughWrite_def)
  with b'(2,3) show ?thesis
    by (simp add: eNetSuccess_def eNoEnughWrite_def eCtlEpollErr_def split: if_splits)
qed

section \<open>From one server to the other\<close>

text \<open>
  What the sending server does with the connection: write messages, and let the socket take
  bytes when it is ready. The messages that were written, the bytes that went out.
\<close>

datatype sender_op = Write_msg net_message | Ready "send_result list"

primrec sender_step :: "server \<Rightarrow> sender_op \<Rightarrow> net_session \<Rightarrow> fault + net_message list \<times> char list \<times> net_session" where
  "sender_step sv (Write_msg m) s =
     rbind (Session_Write sv True m s) (\<lambda>(res, m', s). Inr (if res = eNetSuccess then [m] else [], [], s))"
| "sender_step sv (Ready rs) s = (case Session_Send rs s of (code, out, s) \<Rightarrow>
     if code = eNetSuccess then Inr ([], out, s) else Inl Corrupt)"

primrec sender_run :: "server \<Rightarrow> sender_op list \<Rightarrow> net_session \<Rightarrow> fault + net_message list \<times> char list \<times> net_session" where
  "sender_run sv [] s = Inr ([], [], s)"
| "sender_run sv (p # ps) s = rbind (sender_step sv p s) (\<lambda>(m1, o1, s).
     rbind (sender_run sv ps s) (\<lambda>(m2, o2, s). Inr (m1 @ m2, o1 @ o2, s)))"

primrec op_sendable :: "sender_op \<Rightarrow> bool" where
  "op_sendable (Write_msg m) = sendable m"
| "op_sendable (Ready rs) = True"

lemma Session_Write_res: "Session_Write sv True m s = Inr (eCtlEpollErr, m', s') \<Longrightarrow> False"
  by (auto simp: Session_Write_def Let_def rbind_Inr_iff WriteSend_def WriteData_def arm_def
    eCtlEpollErr_def eNetSuccess_def eNoEnughWrite_def eWriteHeaderErr_def eWritePacketErr_def split: if_splits prod.splits)

lemma sender_step_stream:
  assumes "sender_step sv p s = Inr (ms, out, s')" "op_sendable p" "md5_mem_ok (sv_md5 sv)" "cb_ok (ns_bufSend s)"
  shows "cb_ok (ns_bufSend s') \<and> ns_security s' = ns_security s \<and>
    out @ pending (ns_bufSend s') = pending (ns_bufSend s) @ concat (map (\<lambda>m. wire_frame (sv_be sv) (packet_of (ns_security s) m)) ms) \<and>
    list_all sendable ms"
proof (cases p)
  case (Write_msg m)
  then obtain res m' where w: "Session_Write sv True m s = Inr (res, m', s')" "ms = (if res = eNetSuccess then [m] else [])" "out = []"
    using assms(1) by (auto simp: rbind_Inr_iff)
  have "res \<noteq> eCtlEpollErr"
    using w(1) Session_Write_res [of sv m s m' s'] by blast
  with w Session_Write_ok [of m sv s True] assms Write_msg show ?thesis by (auto dest: sendable_writable)
next
  case (Ready rs)
  then obtain code where r: "Session_Send rs s = (code, out, s')" "code = eNetSuccess" "ms = []"
    using assms(1) by (auto split: prod.splits if_splits)
  show ?thesis using Session_Send_ok [OF assms(4) r(1,2)] r(3) by simp
qed

lemma sender_run_stream:
  assumes "sender_run sv ps s = Inr (ms, out, s')" "list_all op_sendable ps" "md5_mem_ok (sv_md5 sv)" "cb_ok (ns_bufSend s)"
  shows "cb_ok (ns_bufSend s') \<and> list_all sendable ms \<and>
    out @ pending (ns_bufSend s') = pending (ns_bufSend s) @ concat (map (\<lambda>m. wire_frame (sv_be sv) (packet_of (ns_security s) m)) ms)"
  using assms
proof (induction ps arbitrary: s ms out)
  case (Cons p ps)
  then obtain m1 o1 s1 m2 o2 where st: "sender_step sv p s = Inr (m1, o1, s1)" "sender_run sv ps s1 = Inr (m2, o2, s')"
      "ms = m1 @ m2" "out = o1 @ o2"
    by (auto simp: rbind_Inr_iff)
  note one = sender_step_stream [OF st(1) _ Cons.prems(3,4)]
  let ?W = "\<lambda>ms. concat (map (\<lambda>m. wire_frame (sv_be sv) (packet_of (ns_security s) m)) ms)"
  have p: "op_sendable p" "list_all op_sendable ps" using Cons.prems(2) by simp_all
  have sec: "ns_security s1 = ns_security s" using one p(1) by blast
  have ih: "cb_ok (ns_bufSend s')" "list_all sendable m2" "o2 @ pending (ns_bufSend s') = pending (ns_bufSend s1) @ ?W m2"
    using Cons.IH [OF st(2) p(2) Cons.prems(3)] one [OF p(1)] unfolding sec by blast+
  have "(o1 @ o2) @ pending (ns_bufSend s') = (o1 @ pending (ns_bufSend s1)) @ ?W m2"
    using ih(3) by simp
  also have "o1 @ pending (ns_bufSend s1) = pending (ns_bufSend s) @ ?W m1"
    using one [OF p(1)] by blast
  finally show ?case
    using ih(1,2) one [OF p(1)] by (simp add: st(3,4))
qed simp

text \<open>
  C1. Two servers with the same byte order and the same setting for signatures: whatever messages
  one writes to the connection (signed or not), none of a type or number of the connection itself and none with a packet
  of more than 32768 bytes, which is what a receiver can hold, however the ring buffer wraps
  and however little the socket takes at a time, once all bytes are out and wherever the network
  cuts them, the dispatcher of the other gets exactly the messages whose write succeeded, in
  order, each with its numbers and its body, and the signature gone.
\<close>

theorem servers_exchange_messages:
  assumes "sender_run sv ps s = Inr (ms, out, s1)" "list_all op_sendable ps" "cb_ok (ns_bufSend s)"
    and "pending (ns_bufSend s) = []" "pending (ns_bufSend s1) = []"
    and "md5_mem_ok (sv_md5 sv)" "md5_mem_ok (sv_md5 sv')" "sv_be sv' = sv_be sv" "ns_security r = ns_security s"
    and "\<forall>m \<in> set ms. nm_remoteID m = sv_local_id sv' \<and> nm_remoteType m = sv_local_type sv'"
    and "holds [] r" "concat cs = out" "[] \<notin> set cs" "conn_keeps on_conn"
  shows "\<exists>code ds r'. Session_Recv sv' on_conn now (map Arrived cs) r w = Inr (code, ds, r', w) \<and> holds [] r' \<and>
    map seen ds = map (\<lambda>m. (nm_messageID m, nm_messageType m, nm_reqID m, nm_localType m, ns_sock r, body m)) ms"
proof -
  let ?fs = "map (packet_of (ns_security s)) ms"
  have run: "list_all sendable ms" "out = concat (map (wire_frame (sv_be sv)) ?fs)"
    using sender_run_stream [OF assms(1,2,6,3)] assms(4,5) by (auto simp: comp_def)
  have data: "list_all (data_packet r) ?fs"
    using run(1) packet_of_data [OF _ assms(9)] by (auto simp: list_all_iff)
  have "\<exists>code ds r'. Session_Recv sv' on_conn now (map Arrived cs) r w = Inr (code, ds, r', w) \<and>
      map seen ds = map (expected r) (filter (accepted sv' r) ?fs) \<and> holds [] r'"
    using session_stream [OF assms(7) data assms(14) partial_nil partial_nil assms(11) _ assms(13)] run(2) assms(8,12) by simp
  moreover have same: "map (expected r) (filter (accepted sv' r) ?fs) =
      map (\<lambda>m. (nm_messageID m, nm_messageType m, nm_reqID m, nm_localType m, ns_sock r, body m)) ms"
    using run(1) assms(10) packet_of_accepted [OF _ assms(9)]
    by (induction ms) auto
  ultimately show ?thesis unfolding same by blast
qed

definition demo_sender :: net_session where
  "demo_sender = \<lparr>ns_remoteID = 0, ns_remoteType = 0, ns_addr = (0, 0), ns_sock = 5, ns_flag = 0, ns_bufRecv = [], ns_pos = 0,
     ns_security = False, ns_bufSend = CCircleBuff (\<lambda>_. CHR ''x'') 64, ns_group = - 1, ns_recvCount = 0, ns_recvTime = 0\<rparr>"

definition demo_message :: net_message where
  "demo_message = \<lparr>nm_content = ''Hello'' @ replicate 16 NUL, nm_addr = (0, 0), nm_remoteID = 7, nm_remoteType = 2, nm_localID = 0,
     nm_localType = 1, nm_timeout = 0, nm_reqID = 0, nm_channelID = - 1, nm_messageID = 99, nm_messageType = 1, nm_length = 5,
     nm_errno = 0, nm_security = False, nm_sendTime = 0, nm_loopIndex = - 1, nm_group = - 1, nm_groupKey = 0\<rparr>"

lemma demo_write:
  "Session_Write (demo_server 1 1) True demo_message demo_sender =
    rbind (WriteSend False (nm_content demo_message) (GetHead False demo_message) (ns_bufSend demo_sender)) (\<lambda>(res, b).
      Inr (res, demo_message, demo_sender\<lparr>ns_bufSend := b\<rparr>))"
proof -
  have e: "EncryptMessage mem demo_message = Inr demo_message" for mem
    by (simp add: EncryptMessage_def demo_message_def)
  have f: "(if nm_security demo_message \<noteq> ns_security demo_sender then demo_message\<lparr>nm_security := ns_security demo_sender\<rparr>
      else demo_message) = demo_message" "sv_be (demo_server 1 1) = False"
    by (simp_all add: demo_message_def demo_sender_def demo_server_def)
  show ?thesis
    unfolding Session_Write_def Let_def f e rbind.simps
    by (intro rbind_cong) (auto simp: arm_def eNetSuccess_def split: prod.splits)
qed

lemma demo_bytes:
  "case WriteSend False (nm_content demo_message) (GetHead False demo_message) (ns_bufSend demo_sender) of
     Inl e \<Rightarrow> False
   | Inr (res, b) \<Rightarrow> res = eNetSuccess \<and>
       (case Session_Send [Sent 10] (demo_sender\<lparr>ns_bufSend := b\<rparr>) of (c1, o1, s1) \<Rightarrow> c1 = eNetSuccess \<and>
       (case Session_Send [Sent 5, Sent 40] s1 of (c2, o2, s2) \<Rightarrow> c2 = eNetSuccess \<and> length (o1 @ o2) = 31 \<and> pending (ns_bufSend s2) = []))"
  by code_simp

lemma demo_run:
  "\<exists>out s1. sender_run (demo_server 1 1) [Write_msg demo_message, Ready [Sent 10], Ready [Sent 5, Sent 40]] demo_sender =
     Inr ([demo_message], out, s1) \<and> length out = 31 \<and> pending (ns_bufSend s1) = []"
  using demo_bytes by (auto simp: demo_write split: sum.splits prod.splits)

theorem servers_exchange_messages_witness:
  "\<exists>cs code ds r'. length cs = 2 \<and>
    Session_Recv (demo_server 7 2) quiet_conn 0 (map Arrived cs) (Session_new (demo_server 7 2) 9 0 (0, 0) False) () = Inr (code, ds, r', ()) \<and>
    map seen ds = [(99, 1, 0, 1, 9, ''Hello'')]"
proof -
  obtain out s1 where run: "sender_run (demo_server 1 1) [Write_msg demo_message, Ready [Sent 10], Ready [Sent 5, Sent 40]] demo_sender =
      Inr ([demo_message], out, s1)" "length out = 31" "pending (ns_bufSend s1) = []"
    using demo_run by blast
  let ?r = "Session_new (demo_server 7 2) 9 0 (0, 0) False" and ?cs = "[take 10 out, drop 10 out]"
  have m: "sendable demo_message"
    by (simp add: sendable_def writable_def demo_message_def body_ok_def HEADER_SIZE_def MAX_MSG_PACKET_SIZE_def
      eMax_def ConnMessage_def SystemMessage_def)
  have s: "cb_ok (ns_bufSend demo_sender)" "pending (ns_bufSend demo_sender) = []"
    using cb_new_ok [of 64 "\<lambda>_. CHR ''x''"] by (simp_all add: demo_sender_def)
  have "\<exists>code ds r'. Session_Recv (demo_server 7 2) quiet_conn 0 (map Arrived ?cs) ?r () = Inr (code, ds, r', ()) \<and> holds [] r' \<and>
      map seen ds = map (\<lambda>m. (nm_messageID m, nm_messageType m, nm_reqID m, nm_localType m, ns_sock ?r, body m)) [demo_message]"
    by (rule servers_exchange_messages [OF run(1) _ s run(3)])
      (use run(2) m quiet_conn_keeps in \<open>auto simp: demo_server_def demo_sender_def Session_new_def md5_mem_ok_def blank_md5_def
        demo_message_def holds_def MAX_RECV_MSG_SIZE_def\<close>)
  then show ?thesis
    by (intro exI [of _ ?cs]) (auto simp: demo_message_def body_def Session_new_def)
qed

end
