(* ===== verification/EpollReach.thy ===== *)
theory EpollReach
  imports SessionTable EpollLoop SessionPair
begin

text \<open>
  The states a loop can reach from its start, by any requests, events, ticks, messages to send and
  closed channels, and what holds in all of them.
\<close>

section \<open>New sessions\<close>

lemma opened_free:
  assumes "mgr_ok m" "fd \<notin> set (sm_open m)"
  shows "map_of (sm_session m) fd = None" "map_of (sm_timeOutSe m) fd = None" "map_of (sm_timeout m) fd = None"
proof -
  have e: "entry_ok m fd i \<Longrightarrow> False" for i using assms(2) by (simp add: entry_ok_def)
  show s: "map_of (sm_session m) fd = None" "map_of (sm_timeOutSe m) fd = None"
    using tables_okD(4,5) [OF assms(1), of fd] e by (meson not_None_eq)+
  then show "map_of (sm_timeout m) fd = None"
    using tables_okD(8) [OF assms(1)] by (auto simp: map_of_eq_None_iff)
qed

lemma AddTimerSessionEx_ok:
  assumes "mgr_ok m" "fd \<notin> set (sm_open m)"
    and "AddTimerSessionEx cx now fd addr conf index typ (m\<lparr>sm_open := fd # sm_open m\<rparr>) = Inr (se, m')"
  shows "(se = None \<and> m' = m\<lparr>sm_open := fd # sm_open m\<rparr>) \<or>
    (\<exists>i. se = Some i \<and> mgr_ok m' \<and> map_of (sm_timeOutSe m') fd = Some i)"
proof (cases se)
  case None
  with assms(3) show ?thesis by (auto simp: AddTimerSessionEx_def Let_def split: if_splits)
next
  case (Some j)
  let ?s = "Session_new (cx_server cx) fd (uint (push_bit 8 (ucast index) OR ucast typ :: u32)) addr (cc_security conf)"
  let ?i = "sm_next m"
  have m': "m' = m\<lparr>sm_open := fd # sm_open m, sm_obj := (sm_obj m)(?i := Some ?s), sm_next := ?i + 1,
      sm_timeOutSe := map_put fd ?i (sm_timeOutSe m), sm_timeout := map_put fd (cc_keep_time conf + now div 1000) (sm_timeout m),
      sm_epollPtr := (sm_epollPtr m)(fd := Some ?i)\<rparr>"
    and j: "j = ?i" and fd: "0 \<le> fd" "fd < MAX_EPOLL_EVENT"
    using assms(3) Some by (auto simp: AddTimerSessionEx_def Let_def set_obj_def split: if_splits)
  note free = opened_free [OF assms(1,2)] and ok = tables_okD [OF assms(1)]
  have new: "sm_obj m ?i = None" using ok(9) [of ?i] by (cases "sm_obj m ?i") auto
  have keep: "entry_ok m f k \<Longrightarrow> f \<noteq> fd \<Longrightarrow> entry_ok m' f k" for f k
    using new by (auto simp: entry_ok_def m')
  have "mgr_ok m'"
  proof (rule tables_okI)
    show "map_of (sm_session m') f = Some k \<Longrightarrow> entry_ok m' f k" for f k
      using ok(4) [of f k] free(1) keep by (cases "f = fd") (auto simp: m')
    show "map_of (sm_timeOutSe m') f = Some k \<Longrightarrow> entry_ok m' f k" for f k
    proof (cases "f = fd")
      case True
      then show "map_of (sm_timeOutSe m') f = Some k \<Longrightarrow> entry_ok m' f k"
        using ok(2) fd by (auto simp: m' entry_ok_def Session_new_def)
    next
      case False
      then show "map_of (sm_timeOutSe m') f = Some k \<Longrightarrow> entry_ok m' f k"
        using ok(2,5) keep by (auto simp: m')
    qed
    show "map_of (sm_timeOutSe m') f = Some k \<Longrightarrow> map_of (sm_session m') f = None" for f k
      using ok(2,6) free(1) by (cases "f = fd") (auto simp: m')
    show "sm_obj m' k = Some s \<Longrightarrow> k < sm_next m'" for k s
      using ok(9) [of k s] by (auto simp: m' split: if_splits)
  qed (use ok in \<open>auto simp: m'\<close>)
  then show ?thesis using Some j ok(2) by (auto simp: m')
qed

lemma undo_session_ok:
  assumes "mgr_ok m" "undo_session fd m = Inr m'"
  shows "mgr_ok m'"
proof -
  obtain m1 where m1: "DeleteSession fd m = Inr m1" "m' = m1\<lparr>sm_epollPtr := (sm_epollPtr m1)(fd := None)\<rparr>"
    using assms(2) by (auto simp: undo_session_def rbind_Inr_iff)
  then have ok: "mgr_ok m1" "sm_session m1 = map_erase fd (sm_session m)" "sm_timeOutSe m1 = map_erase fd (sm_timeOutSe m)"
    using DeleteSession_ok [OF assms(1), of fd] by auto
  have e: "f \<noteq> fd \<Longrightarrow> entry_ok m1 f i \<Longrightarrow> entry_ok m' f i" for f i
    by (simp add: m1(2) entry_ok_def)
  have n: "map_of (sm_session m1) fd = None" "map_of (sm_timeOutSe m1) fd = None" by (simp_all add: ok)
  show ?thesis
  proof (rule tables_okI)
    show "map_of (sm_session m') f = Some k \<Longrightarrow> entry_ok m' f k" for f k
      using n(1) tables_okD(4) [OF ok(1), of f k] e by (cases "f = fd") (auto simp: m1(2))
    show "map_of (sm_timeOutSe m') f = Some k \<Longrightarrow> entry_ok m' f k" for f k
      using n(2) tables_okD(5) [OF ok(1), of f k] e by (cases "f = fd") (auto simp: m1(2))
  qed (use tables_okD [OF ok(1)] in \<open>auto simp: m1(2)\<close>)
qed

lemma close_unused:
  assumes "mgr_ok m" "fd \<notin> set (sm_open m)"
  shows "closeSocket fd (m\<lparr>sm_open := fd # sm_open m\<rparr>) = m"
  using assms(2) by (simp add: closeSocket_def)

text \<open>The two requests, for a socket the system has just opened.\<close>

abbreviation opened :: "int \<Rightarrow> session_mgr \<Rightarrow> session_mgr" where
  "opened fd m \<equiv> m\<lparr>sm_open := fd # sm_open m\<rparr>"

lemma accept_request_ok:
  assumes "mgr_ok m" "rl_fd rl \<notin> set (sm_open m)" "accept_request cx ip_of ctl now loop rl (opened (rl_fd rl) m) = Inr m'"
  shows "mgr_ok m'"
proof -
  obtain conf se m1 where a: "AddTimerSessionEx cx now (rl_fd rl) (ip_of (rl_host rl), rl_opaque rl) conf
        (session_index (rl_index rl) loop) eAcceptEpoll (opened (rl_fd rl) m) = Inr (se, m1)"
      "(case se of None \<Rightarrow> Inr (closeSocket (rl_fd rl) m1)
        | Some i \<Rightarrow> if \<not> ctl then undo_session (rl_fd rl) m1 else Inr m1) = Inr m'"
    using assms(3) by (auto simp: accept_request_def rbind_Inr_iff)
  from AddTimerSessionEx_ok [OF assms(1,2) a(1)] show ?thesis
    using a(2) close_unused [OF assms(1,2)] assms(1) by (auto split: if_splits dest: undo_session_ok)
qed

lemma Session_Write_sock: "Session_Write sv ctl msg s = Inr (res, msg', s') \<Longrightarrow> s' = s\<lparr>ns_bufSend := ns_bufSend s'\<rparr>"
  by (auto simp: Session_Write_def arm_def rbind_Inr_iff Let_def split: prod.splits)

lemma connect_request_ok:
  assumes "mgr_ok m" "rc_fd rc \<notin> set (sm_open m)" "connect_request cx ctl actl now loop rc (opened (rc_fd rc) m) = Inr m'"
  shows "mgr_ok m'"
proof -
  obtain conf se m1 where a: "AddTimerSessionEx cx now (rc_fd rc)
        (fst (co_remote_address conf), htons (sv_be (cx_server cx)) (snd (co_remote_address conf)))
       (channel_config.truncate conf) (session_index (rc_index rc) loop) eConnEpoll (opened (rc_fd rc) m) = Inr (se, m1)"
      "(case se of None \<Rightarrow> Inr (closeSocket (rc_fd rc) m1)
        | Some i \<Rightarrow> if \<not> ctl then undo_session (rc_fd rc) m1
         else rbind (hello_message cx conf (rc_fd rc)) (\<lambda>msg.
              rbind (deref (sm_obj m1 i)) (\<lambda>s.
              rbind (Session_Write (cx_server cx) actl msg s) (\<lambda>(res, msg, s). Inr (set_obj i s m1))))) = Inr m'"
    using assms(3) by (auto simp: connect_request_def rbind_Inr_iff)
  have w: "mgr_ok (set_obj i s' m1)"
    if "mgr_ok m1" "sm_obj m1 i = Some s" "Session_Write (cx_server cx) actl msg s = Inr (res, msg', s')" for i s s' msg msg' res
    by (rule set_obj_ok [OF that(1,2)]) (subst Session_Write_sock [OF that(3)], simp)
  from AddTimerSessionEx_ok [OF assms(1,2) a(1)] show ?thesis
    using a(2) close_unused [OF assms(1,2)] assms(1)
    by (auto simp: rbind_Inr_iff split: if_splits dest: undo_session_ok intro: w)
qed

section \<open>Events\<close>

lemma Session_Send_sock: "Session_Send rs s = (code, out, s') \<Longrightarrow> ns_sock s' = ns_sock s"
  by (auto simp: Session_Send_def Let_def split: if_splits prod.splits option.splits)

lemma epoll_out_ok:
  assumes "mgr_ok m" "epoll_out cx rs i m = Inr (out, m')"
  shows "mgr_ok m'"
proof -
  obtain s where o: "sm_obj m i = Some s" using assms(2) by (auto simp: epoll_out_def rbind_Inr_iff)
  obtain code out' s' where r: "Session_Send rs s = (code, out', s')" by (cases "Session_Send rs s")
  have s: "sm_obj m i = Some s" "Session_Send rs s = (code, out, s')"
      "(if code = eSocketClose then DeleteChannelEx cx (ns_sock s') eSocketClose (set_obj i s' m) else Inr (set_obj i s' m)) = Inr m'"
    using assms(2) o r by (auto simp: epoll_out_def rbind_Inr_iff Let_def)
  have "mgr_ok (set_obj i s' m)" using set_obj_ok [OF assms(1) s(1)] Session_Send_sock [OF s(2)] .
  with s(3) DeleteChannelEx_ok [of "set_obj i s' m" cx "ns_sock s'" eSocketClose] show ?thesis by (auto split: if_splits)
qed

lemma epoll_close_ok:
  assumes "mgr_ok m" "epoll_close cx err i m = Inr m'"
  shows "mgr_ok m'"
proof -
  obtain s :: net_session where "DeleteChannelEx cx (ns_sock s) err m = Inr m'"
    using assms(2) by (auto simp: epoll_close_def rbind_Inr_iff)
  with DeleteChannelEx_ok [OF assms(1), of cx "ns_sock s" err] show ?thesis by auto
qed

lemma epoll_event_ok:
  assumes "mgr_ok m" "epoll_event cx ctl now ev evs rs fd m = Inr (ms, out, m')"
  shows "mgr_ok m'"
proof -
  obtain i m1 m2 where e: "(if ef_in ev \<and> \<not> ef_rdhup ev then epoll_in cx ctl now evs i m else Inr ([], m)) = Inr (ms, m1)"
      "(if ef_out ev then epoll_out cx rs i m1 else Inr ([], m1)) = Inr (out, m2)"
      "(if ef_rdhup ev \<or> ef_err ev \<or> ef_hup ev then epoll_close cx eEpollClose i m2
            else if \<not> ef_in ev \<and> \<not> ef_out ev then epoll_close cx eEpollNull i m2 else Inr m2) = Inr m'"
    using assms(2) unfolding epoll_event_def by (fastforce simp: rbind_Inr_iff)
  have m1: "mgr_ok m1" using e(1) assms(1) epoll_in_ok [of m cx ctl now evs i ms m1] by (auto split: if_splits)
  have m2: "mgr_ok m2" using e(2) m1 epoll_out_ok [of m1 cx rs i out m2] by (auto split: if_splits)
  show ?thesis using e(3) m2 epoll_close_ok [of m2 cx _ i m'] by (auto split: if_splits)
qed

lemma write_messages_keeps: "write_messages cx ctl ms s = Inr s' \<Longrightarrow> ns_sock s' = ns_sock s"
proof (induction ms arbitrary: s)
  case (Cons msg ms)
  then obtain res msg' s1 where w: "write_message cx ctl (to_peer s msg) s = Inr (res, msg', s1)" "write_messages cx ctl ms s1 = Inr s'"
    by (auto simp: rbind_Inr_iff)
  have "ns_sock s1 = ns_sock s" by (subst write_message_keeps [OF w(1)]) simp
  with Cons.IH [OF w(2)] show ?case by simp
qed simp

lemma mgr_AddMessage_ok:
  assumes "mgr_ok m" "mgr_AddMessage cx ctl ch ms m = Inr m'"
  shows "mgr_ok m'"
  using assms set_obj_ok [OF assms(1)] write_messages_keeps
  by (auto simp: mgr_AddMessage_def rbind_Inr_iff split: option.splits)

lemma mgr_Tick_ok:
  assumes "mgr_ok m" "mgr_Tick now m = Inr m'"
  shows "mgr_ok m'"
proof (cases "1000 * 1000 \<le> sint (word_of_int (sm_tick m + (now - sm_bTime m)) :: u32)")
  case True
  from tick_due [OF assms(1) True] assms(2) show ?thesis by auto
next
  case False
  then have "m' = m\<lparr>sm_bTime := now, sm_tick := sint (word_of_int (sm_tick m + (now - sm_bTime m)) :: u32)\<rparr>"
    using assms(2) by (simp add: mgr_Tick_def Let_def)
  then show ?thesis using assms(1) by (simp add: tables_ok_def entry_ok_def)
qed

section \<open>Reachable states\<close>

inductive mgr_reach :: "net_context \<Rightarrow> session_mgr \<Rightarrow> bool" for cx :: net_context where
  reach_new: "mgr_reach cx (CSessionMgr_new now)"
| reach_accept: "mgr_reach cx m \<Longrightarrow> rl_fd rl \<notin> set (sm_open m) \<Longrightarrow>
    accept_request cx ip_of ctl now loop rl (opened (rl_fd rl) m) = Inr m' \<Longrightarrow> mgr_reach cx m'"
| reach_connect: "mgr_reach cx m \<Longrightarrow> rc_fd rc \<notin> set (sm_open m) \<Longrightarrow>
    connect_request cx ctl actl now loop rc (opened (rc_fd rc) m) = Inr m' \<Longrightarrow> mgr_reach cx m'"
| reach_event: "mgr_reach cx m \<Longrightarrow> epoll_event cx ctl now ev evs rs fd m = Inr (ms, out, m') \<Longrightarrow> mgr_reach cx m'"
| reach_tick: "mgr_reach cx m \<Longrightarrow> mgr_Tick now m = Inr m' \<Longrightarrow> mgr_reach cx m'"
| reach_send: "mgr_reach cx m \<Longrightarrow> mgr_AddMessage cx ctl ch ms m = Inr m' \<Longrightarrow> mgr_reach cx m'"
| reach_close: "mgr_reach cx m \<Longrightarrow> DeleteChannel fd m = Inr m' \<Longrightarrow> mgr_reach cx m'"

inductive_cases mgr_reachE: "mgr_reach cx m"

lemma reach_ok: "mgr_reach cx m \<Longrightarrow> mgr_ok m"
proof (induction rule: mgr_reach.induct)
  case (reach_new now)
  show ?case by simp
next
  case (reach_accept m rl ip_of ctl now loop m')
  then show ?case by (rule_tac accept_request_ok)
next
  case (reach_connect m rc ctl actl now loop m')
  then show ?case by (rule_tac connect_request_ok)
next
  case (reach_event m ctl now ev evs rs fd ms out m')
  then show ?case by (rule_tac epoll_event_ok)
next
  case (reach_tick m now m')
  then show ?case by (rule_tac mgr_Tick_ok)
next
  case (reach_send m ctl ch ms m')
  then show ?case by (rule_tac mgr_AddMessage_ok)
next
  case (reach_close m fd m')
  with DeleteChannel_ok [of m fd] show ?case by auto
qed

text \<open>
  C4. Whatever requests, events, ticks, messages and closed channels a loop gets, its tables stay
  well-formed: an open socket is in exactly one of the two tables of sessions and a closed one in
  none; its entry is a session object with this socket, which the socket's events
  lead to; it has a deadline exactly while it waits for its connection packet.
\<close>

theorem session_tables_well_formed:
  assumes "mgr_reach cx m"
  shows "(fd \<in> set (sm_open m) \<longleftrightarrow> (map_of (sm_session m) fd = None) \<noteq> (map_of (sm_timeOutSe m) fd = None)) \<and>
    (\<forall>i. find_session fd m = Some i \<longrightarrow> (\<exists>s. sm_obj m i = Some s \<and> ns_sock s = fd) \<and> sm_epollPtr m fd = Some i) \<and>
    (map_of (sm_timeout m) fd = None \<longleftrightarrow> map_of (sm_timeOutSe m) fd = None)"
proof -
  note ok = reach_ok [OF assms] tables_okD [OF reach_ok [OF assms]]
  have n: "map_of (sm_session m) fd = None \<and> map_of (sm_timeOutSe m) fd = None \<Longrightarrow> fd \<notin> set (sm_open m)"
    using ok(11) by (auto simp: map_of_eq_None_iff)
  have o: "map_of (sm_session m) fd = Some i \<or> map_of (sm_timeOutSe m) fd = Some i \<Longrightarrow>
      fd \<in> set (sm_open m) \<and> (\<exists>s. sm_obj m i = Some s \<and> ns_sock s = fd) \<and> sm_epollPtr m fd = Some i" for i
    using ok(5,6) [of fd i] by (auto simp: entry_ok_def)
  have "find_session fd m = Some i \<Longrightarrow> map_of (sm_session m) fd = Some i \<or> map_of (sm_timeOutSe m) fd = Some i" for i
    by (auto simp: find_session_def split: option.splits)
  moreover have "map_of (sm_timeout m) fd = None \<longleftrightarrow> map_of (sm_timeOutSe m) fd = None"
    using ok(9) by (simp add: map_of_eq_None_iff)
  moreover have "fd \<in> set (sm_open m) \<longleftrightarrow> (map_of (sm_session m) fd = None) \<noteq> (map_of (sm_timeOutSe m) fd = None)"
    using n o ok(7,8) by (metis not_None_eq)
  ultimately show ?thesis using o by blast
qed

text \<open>A server that accepts and connects, and the loop after it has accepted a connection.\<close>

definition demo_context :: "u16 \<Rightarrow> u8 \<Rightarrow> net_context" where
  "demo_context lid ltype = \<lparr>
     cx_acceptAdded = [\<lparr>cc_local_id = lid, cc_local_type = ltype, cc_keep_time = 5000, cc_security = False\<rparr>],
     cx_connAdded = [\<lparr>cc_local_id = lid, cc_local_type = ltype, cc_keep_time = 5000, cc_security = False,
       co_remote_address = (0, 0), co_remote_id = 7, co_remote_type = 2, co_re_connect = False, co_group_count = 0\<rparr>],
     cx_server = demo_server lid ltype\<rparr>"

definition demo_request :: request_listen where
  "demo_request = \<lparr>rl_fd = 9, rl_opaque = 4000, rl_host = ''10.0.0.1'', rl_index = 0\<rparr>"

definition demo_waiting :: "net_context \<Rightarrow> session_mgr" where
  "demo_waiting cx = (case accept_request cx (\<lambda>_. 0) True 0 0 demo_request (opened (rl_fd demo_request) (CSessionMgr_new 0)) of Inr m \<Rightarrow> m)"

lemma demo_accept:
  "accept_request (demo_context lid ltype) (\<lambda>_. 0) True 0 0 demo_request (opened (rl_fd demo_request) (CSessionMgr_new 0)) =
    Inr (demo_waiting (demo_context lid ltype))"
  by (simp add: demo_waiting_def accept_request_def GetAccConfig_def demo_context_def demo_request_def rd_def
    AddTimerSessionEx_def CSessionMgr_new_def MAX_EPOLL_EVENT_def Let_def set_obj_def)

lemma demo_reach: "mgr_reach (demo_context lid ltype) (demo_waiting (demo_context lid ltype))"
  by (rule reach_accept [OF reach_new _ demo_accept]) (simp add: CSessionMgr_new_def)

lemma demo_waiting_fields:
  "map_of (sm_timeOutSe (demo_waiting (demo_context lid ltype))) 9 = Some 0"
  "sm_session (demo_waiting (demo_context lid ltype)) = []"
  "map_of (sm_timeout (demo_waiting (demo_context lid ltype))) 9 = Some 5000"
  "sm_open (demo_waiting (demo_context lid ltype)) = [9]"
  "sm_tick (demo_waiting (demo_context lid ltype)) = 0" "sm_bTime (demo_waiting (demo_context lid ltype)) = 0"
  "sm_obj (demo_waiting (demo_context lid ltype)) 0 = Some (Session_new (demo_server lid ltype) 9 0 (0, 4000) False)"
  by (simp_all add: demo_waiting_def accept_request_def GetAccConfig_def demo_context_def demo_request_def rd_def
    AddTimerSessionEx_def CSessionMgr_new_def MAX_EPOLL_EVENT_def Let_def set_obj_def session_index_def eAcceptEpoll_def)

theorem session_tables_well_formed_witness:
  "9 \<in> set (sm_open (demo_waiting (demo_context 7 2))) \<and>
    map_of (sm_timeout (demo_waiting (demo_context 7 2))) 9 \<noteq> None"
  using session_tables_well_formed [OF demo_reach [of 7 2], of 9] demo_waiting_fields [of 7 2] by simp

section \<open>Overdue sessions\<close>

text \<open>
  C17. Once a second has gone by, \<open>Tick\<close> closes exactly the sessions that were not sent a connection
  packet in time: no established session is touched, no session with time left is closed, and
  nothing else is left open of the closed ones.
\<close>

theorem tick_closes_overdue:
  assumes "mgr_reach cx m" "1000 * 1000 \<le> sm_tick m + (now - sm_bTime m)" "sm_tick m + (now - sm_bTime m) < 2 ^ 31"
  shows "\<exists>m'. mgr_Tick now m = Inr m' \<and>
    (\<forall>fd. map_of (sm_session m') fd = map_of (sm_session m) fd) \<and>
    (\<forall>fd. map_of (sm_timeOutSe m') fd = (if overdue now m fd then None else map_of (sm_timeOutSe m) fd)) \<and>
    set (sm_open m') = set (sm_open m) - {fd. overdue now m fd}"
proof -
  have "sint (word_of_int (sm_tick m + (now - sm_bTime m)) :: u32) = sm_tick m + (now - sm_bTime m)"
    using assms(2,3) by (intro sint_of_int) auto
  with tick_due [OF reach_ok [OF assms(1)], of now] assms(2) show ?thesis by metis
qed

theorem tick_closes_overdue_witness:
  "\<exists>m'. mgr_Tick (6000 * 1000) (demo_waiting (demo_context 7 2)) = Inr m' \<and> map_of (sm_timeOutSe m') 9 = None \<and> sm_open m' = []"
proof -
  have o: "overdue (6000 * 1000) (demo_waiting (demo_context 7 2)) 9"
    by (simp add: overdue_def demo_waiting_fields)
  obtain m' where "mgr_Tick (6000 * 1000) (demo_waiting (demo_context 7 2)) = Inr m'"
      "\<forall>fd. map_of (sm_timeOutSe m') fd = (if overdue (6000 * 1000) (demo_waiting (demo_context 7 2)) fd then None
         else map_of (sm_timeOutSe (demo_waiting (demo_context 7 2))) fd)"
      "set (sm_open m') = set (sm_open (demo_waiting (demo_context 7 2))) - {fd. overdue (6000 * 1000) (demo_waiting (demo_context 7 2)) fd}"
    using tick_closes_overdue [OF demo_reach [of 7 2], of "6000 * 1000"] by (auto simp: demo_waiting_fields)
  with o show ?thesis by (auto simp: demo_waiting_fields)
qed

end
