(* ===== verification/EpollRequests.thy ===== *)
theory EpollRequests
  imports EpollReach
begin

text \<open>
  The requests that reach a loop through its pipes, and the thread that connects.
\<close>

section \<open>Pipes\<close>

lemma put_at_front: "length p \<le> length m \<Longrightarrow> put 0 p m = p @ drop (length p) m"
  by (simp add: put_def)

lemma ReadCommd_request:
  assumes "length p = unat len" "0 < len"
  shows "ReadCommd cx ip_of ctl actl now loop (char_of_byte typ # char_of_byte len # p @ rest) m =
    (let b = p @ replicate (256 - length p) NUL; be = sv_be (cx_server cx) in
     rbind (if typ = eRequestListen then accept_request cx ip_of ctl now loop (listen_at be b) m
            else if typ = eRequestConn then connect_request cx ctl actl now loop (conn_at be b) m
            else Inr m) (\<lambda>m. Inr (rest, m)))"
proof -
  have "unat len < 2 ^ LENGTH(8)" by (rule unsigned_less)
  then have l: "length p \<le> 256" using assms(1) by simp
  have h: "BlockReadPipe 2 (char_of_byte typ # char_of_byte len # p @ rest) [NUL, NUL] = ([char_of_byte typ, char_of_byte len], p @ rest)"
    by (simp add: BlockReadPipe_def put_def numeral_2_eq_2)
  have b: "BlockReadPipe (unat len) (p @ rest) (replicate 256 NUL) = (p @ replicate (256 - length p) NUL, rest)"
    using l by (simp add: BlockReadPipe_def put_at_front assms(1) [symmetric])
  have "\<not> len \<le> 0" using assms(2) by simp
  then show ?thesis
    unfolding ReadCommd_def h by (simp add: b Let_def del: word_le_0_iff)
qed

lemma nth_22: "length a = 4 \<Longrightarrow> length b = 2 \<Longrightarrow> length c = 16 \<Longrightarrow> (a @ b @ c @ x # r) ! 22 = x"
  by (simp add: nth_append)

text \<open>
  What the accepting thread writes into a pipe is the request the loop reads, and the loop reads
  nothing of the requests behind it. Only the address is not quite the one that was given: it is
  copied without its end into memory that was not cleared, so the loop's address goes on with
  what was there up to the first zero byte.
\<close>

theorem accept_request_piped:
  assumes "listen_request (sv_be (cx_server cx)) old fd port ip index = Inr p" "length ip < 16" "NUL \<notin> set ip"
    and "- (2 ^ 31) \<le> fd" "fd < 2 ^ 31"
  shows "ReadCommd cx ip_of ctl actl now loop (p @ rest) m =
    rbind (accept_request cx ip_of ctl now loop \<lparr>rl_fd = fd, rl_opaque = htons (sv_be (cx_server cx)) port,
        rl_host = ip @ cstr (map old [6 + length ip..<22] @ [char_of_byte index, old 23]), rl_index = index\<rparr> m)
      (\<lambda>m. Inr (rest, m))"
proof -
  let ?be = "sv_be (cx_server cx)"
  let ?host = "put 0 ip (blk 6 16 (junk old 24))"
  have "SafeMemmove 0 16 ip (int (length ip)) (blk 6 16 (junk old 24)) = Inr (0, put (nat 0) (take (nat (int (length ip))) ip) (blk 6 16 (junk old 24)))"
    using assms(2) by (intro SafeMemmove_ok) auto
  then have mv: "SafeMemmove 0 16 ip (int (length ip)) (blk 6 16 (junk old 24)) = Inr (0, ?host)" by simp
  have hl: "length ?host = 16" using assms(2) by simp
  have h: "?host = ip @ map old [6 + length ip..<22]"
    using assms(2) by (simp add: put_at_front blk_junk drop_map del: upt.simps upt_rec_numeral)
  let ?r = "mem_image ?be 4 (word_of_int fd :: u32) @ mem_image ?be 2 (htons ?be port) @ ?host @ [char_of_byte index, old 23]"
  have p: "p = char_of_byte eRequestListen # char_of_byte 24 # ?r"
    using assms(1) by (simp add: listen_request_def mv)
  have r: "length ?r = unat (24 :: u8)" using hl by simp
  have d: "drop 6 (?r @ replicate 232 NUL) = ?host @ [char_of_byte index, old 23] @ replicate 232 NUL" by simp
  have c: "cstr (drop 6 (?r @ replicate 232 NUL)) = ip @ cstr (map old [6 + length ip..<22] @ [char_of_byte index, old 23])"
    unfolding d h append_assoc using assms(3) by (simp add: cstr_def takeWhile_append takeWhile_replicate)
  have "listen_at ?be (?r @ replicate 232 NUL) = \<lparr>rl_fd = fd, rl_opaque = htons ?be port,
        rl_host = ip @ cstr (map old [6 + length ip..<22] @ [char_of_byte index, old 23]), rl_index = index\<rparr>"
    unfolding listen_at_def c using hl nth_22 [of "mem_image ?be 4 (word_of_int fd :: u32)" "mem_image ?be 2 (htons ?be port)" ?host]
    by (simp add: blk_def sint_of_int [OF assms(4,5)])
  then show ?thesis
    using ReadCommd_request [OF r, of cx ip_of ctl actl now loop eRequestListen rest m] hl unfolding p by (simp add: Let_def)
qed

text \<open>
  The same for the thread that connects: the loop takes the request as it was written.
\<close>

theorem connect_request_piped:
  assumes "- (2 ^ 31) \<le> fd" "fd < 2 ^ 31"
  shows "ReadCommd cx ip_of ctl actl now loop (conn_request (sv_be (cx_server cx)) old fd index @ rest) m =
    rbind (connect_request cx ctl actl now loop \<lparr>rc_fd = fd, rc_index = index\<rparr> m) (\<lambda>m. Inr (rest, m))"
proof -
  let ?be = "sv_be (cx_server cx)"
  let ?r = "mem_image ?be 4 (word_of_int fd :: u32) @ [char_of_byte index] @ [old 5, old 6, old 7]"
  have r: "length ?r = unat (8 :: u8)" by simp
  have "conn_at ?be (?r @ replicate 248 NUL) = \<lparr>rc_fd = fd, rc_index = index\<rparr>"
    by (simp add: conn_at_def blk_def sint_of_int [OF assms] nth_append)
  then show ?thesis
    using ReadCommd_request [OF r, of cx ip_of ctl actl now loop eRequestConn rest m]
    by (simp add: Let_def conn_request_def eRequestConn_def eRequestListen_def)
qed

theorem accept_request_piped_witness:
  "\<exists>p. listen_request False (\<lambda>_. CHR ''9'') 9 4000 ''10.0.0.1'' 0 = Inr p \<and>
    ReadCommd (demo_context 7 2) (\<lambda>_. 0) True True 0 0 (p @ []) (opened 9 (CSessionMgr_new 0)) =
    rbind (accept_request (demo_context 7 2) (\<lambda>_. 0) True 0 0 \<lparr>rl_fd = 9, rl_opaque = htons False 4000,
        rl_host = ''10.0.0.199999999'', rl_index = 0\<rparr> (opened 9 (CSessionMgr_new 0))) (\<lambda>m. Inr ([], m))"
proof -
  have "SafeMemmove 0 16 ''10.0.0.1'' 8 (blk 6 16 (junk (\<lambda>_. CHR ''9'') 24)) =
      Inr (0, put (nat 0) (take (nat 8) ''10.0.0.1'') (blk 6 16 (junk (\<lambda>_. CHR ''9'') 24)))"
    by (rule SafeMemmove_ok) simp_all
  then obtain p where p: "listen_request False (\<lambda>_. CHR ''9'') 9 4000 ''10.0.0.1'' 0 = Inr p"
    by (simp add: listen_request_def)
  have be: "sv_be (cx_server (demo_context 7 2)) = False" by (simp add: demo_context_def demo_server_def)
  have z: "char_of_byte 0 = NUL" by simp
  show ?thesis
    using accept_request_piped [of "demo_context 7 2" "\<lambda>_. CHR ''9''" 9 4000 "''10.0.0.1''" 0 p "\<lambda>_. 0" True True 0 0 "[]"
      "opened 9 (CSessionMgr_new 0)", unfolded be, OF p] p by (simp add: z)
qed

theorem connect_request_piped_witness:
  "ReadCommd (demo_context 1 1) (\<lambda>_. 0) True True 0 0 (conn_request False (\<lambda>_. CHR ''x'') 5 0 @ ''rest'') (opened 5 (CSessionMgr_new 0)) =
    rbind (connect_request (demo_context 1 1) True True 0 0 \<lparr>rc_fd = 5, rc_index = 0\<rparr> (opened 5 (CSessionMgr_new 0))) (\<lambda>m. Inr (''rest'', m))"
  using connect_request_piped [of 5 "demo_context 1 1" "\<lambda>_. 0" True True 0 0 "\<lambda>_. CHR ''x''" 0 "''rest''" "opened 5 (CSessionMgr_new 0)"]
  by (simp add: demo_context_def demo_server_def)

section \<open>The connecting thread\<close>

definition tried :: "net_context \<Rightarrow> int \<times> conn_data \<Rightarrow> bool" where
  "tried cx p \<longleftrightarrow> cd_status (snd p) = eDisconnection \<or>
     cd_status (snd p) = eReConnection \<and> co_re_connect (cx_connAdded cx ! unat (cd_index (snd p)))"

text \<open>
  One pass over the connections that are not up: those that connect are handed to the loop and
  leave the list, those that fail stay for the next pass, and those that failed before and are
  not to be tried again are dropped.
\<close>

theorem conn_pass_outcome:
  assumes "\<forall>p \<in> set m. 0 \<le> fst p \<and> unat (cd_index (snd p)) < length (cx_connAdded cx)"
  shows "conn_pass cx connects m = Inr
    (map (\<lambda>p. \<lparr>rc_fd = fst p, rc_index = cd_index (snd p)\<rparr>) (filter (\<lambda>p. tried cx p \<and> connects (fst p)) m),
     map (\<lambda>p. (fst p, (snd p)\<lparr>cd_status := eReConnection\<rparr>)) (filter (\<lambda>p. tried cx p \<and> \<not> connects (fst p)) m))"
  using assms
proof (induction m)
  case (Cons p m)
  then have "GetConnConfig cx (uint (cd_index (snd p))) = Inr (cx_connAdded cx ! unat (cd_index (snd p)))" "\<not> fst p < 0"
    by (auto simp: GetConnConfig_def rd_def)
  with Cons show ?case by (simp add: tried_def)
qed simp

theorem conn_pass_outcome_witness:
  "conn_pass (demo_context 1 1) (\<lambda>fd. fd = 5) [(4, \<lparr>cd_sock = 4, cd_status = eDisconnection, cd_index = 0\<rparr>),
      (5, \<lparr>cd_sock = 5, cd_status = eDisconnection, cd_index = 0\<rparr>), (6, \<lparr>cd_sock = 6, cd_status = eReConnection, cd_index = 0\<rparr>)] =
    Inr ([\<lparr>rc_fd = 5, rc_index = 0\<rparr>], [(4, \<lparr>cd_sock = 4, cd_status = eReConnection, cd_index = 0\<rparr>)])"
  using conn_pass_outcome [of "[(4, \<lparr>cd_sock = 4, cd_status = eDisconnection, cd_index = 0\<rparr>),
      (5, \<lparr>cd_sock = 5, cd_status = eDisconnection, cd_index = 0\<rparr>), (6, \<lparr>cd_sock = 6, cd_status = eReConnection, cd_index = 0\<rparr>)]"
    "demo_context 1 1" "\<lambda>fd. fd = 5"]
  by (simp add: demo_context_def tried_def)

end
