(* ===== verification/SessionHandshake.thy ===== *)
theory SessionHandshake
  imports EpollReach
begin

text \<open>
  The connection packet as it arrives: at the head of a stream, in pieces of any size, with the
  data packets behind it. The bytes that wait in the receive buffer do not matter to what the
  manager does.
\<close>

section \<open>The receive buffer is not looked at\<close>

definition mgr_buf :: "nat \<Rightarrow> char list \<Rightarrow> int \<Rightarrow> session_mgr \<Rightarrow> session_mgr" where
  "mgr_buf i b n m = m\<lparr>sm_obj := (sm_obj m)(i := map_option (with_buf b n) (sm_obj m i))\<rparr>"

lemma mgr_buf_fields [simp]:
  "sm_session (mgr_buf i b n m) = sm_session m" "sm_timeOutSe (mgr_buf i b n m) = sm_timeOutSe m"
  "sm_timeout (mgr_buf i b n m) = sm_timeout m" "sm_groups (mgr_buf i b n m) = sm_groups m"
  "find_session fd (mgr_buf i b n m) = find_session fd m"
  by (simp_all add: mgr_buf_def find_session_def cong: option.case_cong)

lemma mgr_buf_obj: "sm_obj (mgr_buf i b n m) j = map_option (if j = i then with_buf b n else (\<lambda>s. s)) (sm_obj m j)"
  by (simp add: mgr_buf_def option.map_ident)

lemma with_buf_more [simp]:
  "ns_sock (with_buf b n s) = ns_sock s" "ns_group (with_buf b n s) = ns_group s" "ns_flag (with_buf b n s) = ns_flag s"
  "ns_remoteID (with_buf b n s) = ns_remoteID s" "ns_addr (with_buf b n s) = ns_addr s" "ns_security (with_buf b n s) = ns_security s"
  "ns_bufSend (with_buf b n s) = ns_bufSend s"
  by (simp_all add: with_buf_def)

lemma with_buf_updates:
  "(with_buf b n s)\<lparr>ns_remoteID := rid, ns_remoteType := t\<rparr> = with_buf b n (s\<lparr>ns_remoteID := rid, ns_remoteType := t\<rparr>)"
  "(with_buf b n s)\<lparr>ns_group := g\<rparr> = with_buf b n (s\<lparr>ns_group := g\<rparr>)"
  "(with_buf b n s)\<lparr>ns_bufSend := sb\<rparr> = with_buf b n (s\<lparr>ns_bufSend := sb\<rparr>)"
  by (simp_all add: with_buf_def)

lemma mgr_buf_updates:
  "(mgr_buf i b n m)\<lparr>sm_groups := g\<rparr> = mgr_buf i b n (m\<lparr>sm_groups := g\<rparr>)"
  "closeSocket fd (mgr_buf i b n m) = mgr_buf i b n (closeSocket fd m)"
  "SystemErr e (mgr_buf i b n m) = mgr_buf i b n (SystemErr e m)"
  "(mgr_buf i b n m)\<lparr>sm_timeOutSe := t, sm_timeout := d\<rparr> = mgr_buf i b n (m\<lparr>sm_timeOutSe := t, sm_timeout := d\<rparr>)"
  "(mgr_buf i b n m)\<lparr>sm_session := t\<rparr> = mgr_buf i b n (m\<lparr>sm_session := t\<rparr>)"
  "(mgr_buf i b n m)\<lparr>sm_timeOutSe := t, sm_timeout := d, sm_session := e'\<rparr> =
     mgr_buf i b n (m\<lparr>sm_timeOutSe := t, sm_timeout := d, sm_session := e'\<rparr>)"
  by (simp_all add: mgr_buf_def closeSocket_def SystemErr_def)

lemma set_obj_mgr_buf:
  "set_obj j (if j = i then with_buf b n s else s) (mgr_buf i b n m) = mgr_buf i b n (set_obj j s m)"
  by (auto simp: set_obj_def mgr_buf_def fun_eq_iff)

abbreviation buf_if :: "bool \<Rightarrow> char list \<Rightarrow> int \<Rightarrow> net_session \<Rightarrow> net_session" where
  "buf_if c b n s \<equiv> (if c then with_buf b n s else s)"

lemma deref_mgr_buf: "deref (sm_obj (mgr_buf i b n m) j) = rbind (deref (sm_obj m j)) (\<lambda>s. Inr (buf_if (j = i) b n s))"
  by (cases "sm_obj m j") (simp_all add: mgr_buf_obj)

lemma DeleteSession_mgr_buf:
  "DeleteSession fd (mgr_buf i b n m) = rbind (DeleteSession fd m) (\<lambda>m. Inr (mgr_buf i b n m))"
  by (cases "map_of (sm_timeOutSe m) fd"; cases "map_of (sm_session m) fd")
    (auto simp: DeleteSession_def deref_mgr_buf rbind_assoc mgr_buf_updates Let_def intro!: rbind_cong)

lemma DeleteSessionEx_mgr_buf:
  "DeleteSessionEx cx fd err (mgr_buf i b n m) = rbind (DeleteSessionEx cx fd err m) (\<lambda>m. Inr (mgr_buf i b n m))"
proof -
  have r: "ns_remoteType (buf_if c b n s) = ns_remoteType s" "ns_remoteID (buf_if c b n s) = ns_remoteID s"
    "ns_addr (buf_if c b n s) = ns_addr s" "ns_sock (buf_if c b n s) = ns_sock s" for c s by simp_all
  show ?thesis
    by (cases "map_of (sm_timeOutSe m) fd"; cases "map_of (sm_session m) fd")
      (auto simp: DeleteSessionEx_def deref_mgr_buf rbind_assoc mgr_buf_updates r Let_def intro!: rbind_cong)
qed

lemma DeleteChannel_mgr_buf:
  "DeleteChannel fd (mgr_buf i b n m) = rbind (DeleteChannel fd m) (\<lambda>m. Inr (mgr_buf i b n m))"
  "DeleteChannelEx cx fd err (mgr_buf i b n m) = rbind (DeleteChannelEx cx fd err m) (\<lambda>m. Inr (mgr_buf i b n m))"
  by (simp_all add: DeleteChannel_def DeleteChannelEx_def DeleteSession_mgr_buf DeleteSessionEx_mgr_buf)

lemma write_message_buf:
  "write_message cx ctl msg (buf_if c b n s) = rbind (write_message cx ctl msg s) (\<lambda>(r, msg, s). Inr (r, msg, buf_if c b n s))"
  by (auto simp: write_message_def Session_Write_head_def arm_def rbind_assoc Let_def with_buf_updates split_def intro!: rbind_cong)

lemma mgr_Write_mgr_buf:
  "mgr_Write cx ctl msg (mgr_buf i b n m) = rbind (mgr_Write cx ctl msg m) (\<lambda>(r, m). Inr (r, mgr_buf i b n m))"
proof (cases "find_session (nm_channelID msg) m")
  case (Some j)
  show ?thesis
    by (auto simp: mgr_Write_def Some deref_mgr_buf rbind_assoc write_message_buf set_obj_mgr_buf DeleteChannel_mgr_buf Let_def split_def
      intro!: rbind_cong)
qed (simp add: mgr_Write_def)

lemma join_group_buf:
  "join_group l t rid c (msg, buf_if d b n s) gs = (case join_group l t rid c (msg, s) gs of (r, msg, s, gs) \<Rightarrow> (r, msg, buf_if d b n s, gs))"
  by (auto simp: join_group_def with_buf_updates split: prod.splits)

lemma set_peer_buf:
  "set_peer rid t (msg, buf_if d b n s) = (case set_peer rid t (msg, s) of (msg, s) \<Rightarrow> (msg, buf_if d b n s))"
  by (auto simp: set_peer_def with_buf_updates)

lemma conn_packet_buf:
  "conn_packet cx msg (buf_if d b n s) gs = rbind (conn_packet cx msg s gs) (\<lambda>(r, msg, s, gs). Inr (r, msg, buf_if d b n s, gs))"
proof -
  have j: "join_group l t rid c (msg, with_buf b n s) gs =
      (case join_group l t rid c (msg, s) gs of (r, msg, s, gs) \<Rightarrow> (r, msg, with_buf b n s, gs))" for l t rid c msg s
    using join_group_buf [where d = True] by simp
  have "conn_packet cx msg (with_buf b n s) gs = rbind (conn_packet cx msg s gs) (\<lambda>(r, msg, s, gs). Inr (r, msg, with_buf b n s, gs))"
    unfolding conn_packet_def Let_def
    by (auto simp: rbind_assoc set_peer_def j with_buf_updates split_def intro!: rbind_cong)
  then show ?thesis
    by (cases d) (simp, cases "conn_packet cx msg s gs", auto)
qed

lemma ResetSendBuf_buf: "ResetSendBuf sv (buf_if d b n s) = buf_if d b n (ResetSendBuf sv s)"
  by (simp add: ResetSendBuf_def with_buf_updates)

lemma conn_answer_buf: "conn_answer cx mid ch (buf_if d b n s) = conn_answer cx mid ch s"
  by (simp add: conn_answer_def)

lemma ConnectSuccess_mgr_buf:
  "ConnectSuccess cx ctl msg (mgr_buf i b n m) = rbind (ConnectSuccess cx ctl msg m) (\<lambda>(r, msg, m). Inr (r, msg, mgr_buf i b n m))"
proof (cases "map_of (sm_timeOutSe m) (nm_channelID msg)")
  case (Some j)
  have f: "ns_remoteType (buf_if d b n s) = ns_remoteType s" "ns_sock (buf_if d b n s) = ns_sock s" for d s by simp_all
  have r: "(if ns_remoteType s \<noteq> eClient then ResetSendBuf sv (buf_if d b n s) else buf_if d b n s) =
      buf_if d b n (if ns_remoteType s \<noteq> eClient then ResetSendBuf sv s else s)" for sv d s
    by (cases d) (simp_all add: ResetSendBuf_def with_buf_updates)
  show ?thesis
    by (simp only: ConnectSuccess_def mgr_buf_fields Some option.case deref_mgr_buf rbind_assoc rbind.simps conn_packet_buf split_def
        fst_conv snd_conv Let_def f mgr_buf_updates set_obj_mgr_buf r conn_answer_buf mgr_Write_mgr_buf)
      (auto simp: rbind_assoc mgr_buf_updates set_obj_mgr_buf intro!: rbind_cong)
qed (simp add: ConnectSuccess_def)

lemma conn_message_keeps: "conn_keeps (conn_message cx ctl i)"
  unfolding conn_keeps_def
proof (intro conjI allI impI)
  fix b n msg s m
  have e: "set_obj i (with_buf b n s) m = mgr_buf i b n (set_obj i s m)" by (simp add: set_obj_def mgr_buf_def)
  have d: "deref (sm_obj (mgr_buf i b n m) i) = rbind (deref (sm_obj m i)) (\<lambda>s. Inr (with_buf b n s))"
    "(mgr_buf i b n m)\<lparr>sm_obj := (sm_obj (mgr_buf i b n m))(i := None)\<rparr> = m\<lparr>sm_obj := (sm_obj m)(i := None)\<rparr>" for m
    by (simp_all add: deref_mgr_buf) (simp add: mgr_buf_def)
  define K where "K = (\<lambda>res (msg :: net_message) m. if res \<noteq> 0 \<and> res \<noteq> eGroupContinue then rbind (DeleteChannel (nm_channelID msg) m) (\<lambda>m. Inr (- 1 :: int, m))
            else if res \<noteq> eGroupContinue then
              Inr (1, SystemErr \<lparr>se_fd = (if nm_group msg \<ge> 0 then nm_group msg else nm_channelID msg), se_lid = nm_localID msg,
                se_ltype = nm_localType msg, se_rid = nm_remoteID msg, se_rtype = nm_remoteType msg, se_err = 0,
                se_addr = reported_addr (sv_be (cx_server cx)) (nm_addr msg)\<rparr> m)
            else Inr (1, m))"
  have K: "K res msg (mgr_buf i b n m) = rbind (K res msg m) (\<lambda>(r, m). Inr (r, mgr_buf i b n m))" for res msg m
    by (simp add: K_def DeleteChannel_mgr_buf mgr_buf_updates rbind_assoc)
  have c: "conn_message cx ctl i msg s m = rbind (ConnectSuccess cx ctl msg (set_obj i s m)) (\<lambda>(res, msg, m). rbind (K res msg m) (\<lambda>(r, m).
      rbind (deref (sm_obj m i)) (\<lambda>s. Inr (r, s, m\<lparr>sm_obj := (sm_obj m)(i := None)\<rparr>))))" for s m
    by (simp add: conn_message_def K_def)
  show "conn_message cx ctl i msg (with_buf b n s) m = rbind (conn_message cx ctl i msg s m) (\<lambda>(r, s, m). Inr (r, with_buf b n s, m))"
    by (simp add: c e ConnectSuccess_mgr_buf rbind_assoc split_def K d)
next
  fix msg s m r s' m'
  show "conn_message cx ctl i msg s m = Inr (r, s', m') \<Longrightarrow> r \<noteq> eSocketClose"
    by (auto simp: conn_message_def rbind_Inr_iff eSocketClose_def split: if_splits)
qed

interpretation manager: conn_layer "conn_message cx ctl i" for cx ctl i
proof (unfold_locales, goal_cases)
  case (1 m b n s w)
  then show ?case using conn_message_keeps [of cx ctl i] unfolding conn_keeps_def by blast
next
  case (2 m s w r s' w')
  then show ?case using conn_message_keeps [of cx ctl i] unfolding conn_keeps_def by blast
qed

text \<open>
  A session gives the data packets that arrive to the dispatcher, and the manager stays as it is,
  unless the session has counted too many packets and is closed.
\<close>

lemma epoll_in_data:
  assumes "sm_obj m i = Some s" "md5_mem_ok (sv_md5 (cx_server cx))" "list_all (data_packet s) fs"
    and "partial_ok (sv_be (cx_server cx)) q'" "partial_ok (sv_be (cx_server cx)) q" "holds q s"
    and "q @ concat cs = concat (map (wire_frame (sv_be (cx_server cx))) fs) @ q'" "[] \<notin> set cs"
  shows "\<exists>ms s'. map seen ms = map (expected s) (filter (accepted (cx_server cx) s) fs) \<and> holds q' s' \<and>
    (epoll_in cx ctl now (map Arrived cs) i m = Inr (ms, set_obj i s' m) \<or>
     epoll_in cx ctl now (map Arrived cs) i m = rbind (DeleteChannelEx cx (ns_sock s') eSocketClose (set_obj i s' m)) (\<lambda>m. Inr (ms, m)))"
proof -
  obtain code ms s1 where r: "Session_Recv (cx_server cx) (conn_message cx ctl i) (now div 1000) (map Arrived cs) s
        (m\<lparr>sm_obj := (sm_obj m)(i := None)\<rparr>) = Inr (code, ms, s1, m\<lparr>sm_obj := (sm_obj m)(i := None)\<rparr>)"
      "map seen ms = map (expected s) (filter (accepted (cx_server cx) s) fs)" "holds q' s1"
    using manager.delivers [OF assms(2-8)] by blast
  have "set_obj i s1 (m\<lparr>sm_obj := (sm_obj m)(i := None)\<rparr>) = set_obj i s1 m" by (simp add: set_obj_def)
  then have "epoll_in cx ctl now (map Arrived cs) i m =
      rbind (if code = eSocketClose then DeleteChannelEx cx (ns_sock s1) eSocketClose (set_obj i s1 m) else Inr (set_obj i s1 m)) (\<lambda>m. Inr (ms, m))"
    by (simp add: epoll_in_def assms(1) r(1) Let_def)
  then show ?thesis using r(2,3) by (intro exI [of _ ms] exI [of _ s1]) (cases "code = eSocketClose"; simp)
qed

section \<open>An event with a connection packet\<close>

text \<open>
  The packet comes first, data packets may follow: if the manager takes it, the session has the
  result and the messages of the data packets go to the dispatcher.
\<close>

lemma count_packets_fine:
  assumes "ns_recvTime s \<le> 0 \<or> now - ns_recvTime s \<le> 20 * 1000"
  shows "fst (count_packets now s) = eNetSuccess"
    "snd (count_packets now s) = s\<lparr>ns_recvCount := ns_recvCount (snd (count_packets now s)), ns_recvTime := ns_recvTime (snd (count_packets now s))\<rparr>"
  using assms by (auto simp: count_packets_def)

lemma epoll_in_conn:
  assumes s: "sm_obj m i = Some s" "holds q s" "md5_mem_ok (sv_md5 (cx_server cx))"
    and f: "frame_ok (h, b)" "accepted (cx_server cx) s (h, b)" "ph_messageType h = ConnMessage" "ns_security s \<Longrightarrow> 16 \<le> length b"
    and data: "list_all (data_packet s) fs" "partial_ok (sv_be (cx_server cx)) q'" "partial_ok (sv_be (cx_server cx)) q"
    and bytes: "q @ concat cs = wire_frame (sv_be (cx_server cx)) (h, b) @ concat (map (wire_frame (sv_be (cx_server cx))) fs) @ q'"
      "[] \<notin> set cs"
    and conn: "\<And>msg k. seen msg = expected s (h, b) \<Longrightarrow> message_fields s h msg \<Longrightarrow>
      \<exists>s2 m2. conn_message cx ctl i msg (s\<lparr>ns_recvCount := k\<rparr>) (m\<lparr>sm_obj := (sm_obj m)(i := None)\<rparr>) = Inr (1, s2, m2) \<and>
        ns_sock s2 = ns_sock s \<and> ns_security s2 = ns_security s \<and>
        (ns_recvTime s2 \<le> 0 \<or> now div 1000 - ns_recvTime s2 \<le> 20 * 1000) \<and> Q s2 m2"
  shows "\<exists>ms s2 s4 m2. epoll_in cx ctl now (map Arrived cs) i m = Inr (ms, set_obj i s4 m2) \<and> Q s2 m2 \<and>
    map seen ms = map (expected s) (filter (accepted (cx_server cx) s) fs) \<and> holds q' s4 \<and>
    s4 = s2\<lparr>ns_bufRecv := ns_bufRecv s4, ns_pos := ns_pos s4, ns_recvCount := ns_recvCount s4, ns_recvTime := ns_recvTime s4\<rparr>"
proof -
  let ?sv = "cx_server cx" and ?m = "m\<lparr>sm_obj := (sm_obj m)(i := None)\<rparr>" and ?oc = "conn_message cx ctl i"
  let ?s1 = "s\<lparr>ns_recvCount := ns_recvCount s + 1\<rparr>"
  have e1: "accepted ?sv ?s1 = accepted ?sv s" "expected ?s1 = expected s" "message_fields ?s1 = message_fields s"
    by (auto simp: accepted_def expected_def message_fields_def fun_eq_iff)
  obtain msg where msg: "packet_message ?sv h b ?s1 = Inr (Some msg)" "seen msg = expected s (h, b)" "message_fields s h msg"
    using packet_message_any [OF s(3) f(1), of ?s1] f(2,4) by (auto simp: e1 map_option_eq_Some split: if_splits)
  obtain s2 m2 where c: "?oc msg ?s1 ?m = Inr (1, s2, m2)" "ns_sock s2 = ns_sock s" "ns_security s2 = ns_security s"
      "ns_recvTime s2 \<le> 0 \<or> now div 1000 - ns_recvTime s2 \<le> 20 * 1000" "Q s2 m2"
    using conn [OF msg(2,3), of "ns_recvCount s + 1"] by blast
  have ty: "nm_messageType msg = ConnMessage" using msg(3) f(3) by (simp add: message_fields_def)
  have first: "recv_packet ?sv ?oc h b (0, [], s, ?m) = Inr (1, [], s2, m2)"
    using msg(1) c(1) ty by (simp add: recv_packet_def Session_AddMessage_def)
  have e2: "data_packet s2 = data_packet s" "accepted ?sv s2 = accepted ?sv s" "expected s2 = expected s"
    using c(2,3) by (auto simp: data_packet_def accepted_def expected_def fun_eq_iff)
  obtain ms r where fold: "packets_fold ?sv ?oc ((h, b) # fs) (0, [], s, ?m) =
      Inr (r, ms, s2\<lparr>ns_recvCount := ns_recvCount s2 + int (length fs)\<rparr>, m2)"
      "map seen ms = map (expected s) (filter (accepted ?sv s) fs)"
    using data_packets_fold [OF s(3), of s2 fs ?oc 1 "[]" m2] data(1) first by (auto simp: e2)
  have fok: "list_all frame_ok ((h, b) # fs)" using f(1) data(1) by (auto simp: list_all_iff data_packet_def)
  obtain bb where b: "length bb = 65536" "take (length q') bb = q'"
      "Session_Recv ?sv ?oc (now div 1000) (map Arrived cs) s ?m =
        rbind (packets_fold ?sv ?oc ((h, b) # fs) (0, [], s, ?m)) (\<lambda>(ret, vec, s, w).
          case count_packets (now div 1000) (with_buf bb (int (length q')) s) of (code, s) \<Rightarrow> Inr (code, vec, s, w))"
    using Session_Recv_stream [OF conn_message_keeps fok data(2,3) s(2) _ bytes(2), of cx ctl i "now div 1000" ?m] bytes(1) by auto
  define s3 where "s3 = with_buf bb (int (length q')) (s2\<lparr>ns_recvCount := ns_recvCount s2 + int (length fs)\<rparr>)"
  define s4 where "s4 = snd (count_packets (now div 1000) s3)"
  have fine: "fst (count_packets (now div 1000) s3) = eNetSuccess"
      "s4 = s3\<lparr>ns_recvCount := ns_recvCount s4, ns_recvTime := ns_recvTime s4\<rparr>"
    using count_packets_fine [of s3 "now div 1000"] c(4) by (simp_all add: s3_def s4_def with_buf_def)
  have r: "Session_Recv ?sv ?oc (now div 1000) (map Arrived cs) s ?m = Inr (eNetSuccess, ms, s4, m2)"
    using b(3) fold(1) fine(1) by (cases "count_packets (now div 1000) s3") (simp add: s3_def [symmetric] s4_def)
  have s4: "s4 = s2\<lparr>ns_bufRecv := ns_bufRecv s4, ns_pos := ns_pos s4, ns_recvCount := ns_recvCount s4, ns_recvTime := ns_recvTime s4\<rparr>"
    by (subst fine(2)) (subst (3 4) fine(2), simp add: s3_def with_buf_def)
  have "holds q' s4" by (subst fine(2)) (simp add: holds_def s3_def b(1,2))
  moreover have "epoll_in cx ctl now (map Arrived cs) i m = Inr (ms, set_obj i s4 m2)"
    by (simp add: epoll_in_def s(1) r Let_def eNetSuccess_def eSocketClose_def)
  ultimately show ?thesis using c(5) fold(2) s4 by blast
qed

section \<open>The connection packets of two servers\<close>

text \<open>The packet of the side that connected, and the answer to it.\<close>

definition hello_packet :: "bool \<Rightarrow> connection_config \<Rightarrow> packet_header \<times> char list" where
  "hello_packet be conf = packet_of (cc_security conf)
     ((Message_plain (\<lambda>_. NUL))\<lparr>nm_content := char_of_byte (cc_local_type conf) # mem_image be 2 (cc_local_id conf), nm_length := 3,
       nm_remoteID := co_remote_id conf, nm_remoteType := co_remote_type conf, nm_localType := cc_local_type conf,
       nm_messageID := C2SMessage, nm_messageType := ConnMessage\<rparr>)"

definition answer_packet :: "bool \<Rightarrow> u16 \<Rightarrow> u8 \<Rightarrow> u8 \<Rightarrow> packet_header \<times> char list" where
  "answer_packet secure rid rtype ltype = packet_of secure
     ((Message_plain (\<lambda>_. NUL))\<lparr>nm_content := [NUL], nm_length := 1, nm_remoteID := rid, nm_remoteType := rtype,
       nm_localType := ltype, nm_messageID := S2CMessage, nm_messageType := ConnMessage\<rparr>)"

lemma packet_of_cong:
  assumes "body m = body m'" "nm_remoteType m = nm_remoteType m'" "nm_remoteID m = nm_remoteID m'" "nm_localType m = nm_localType m'"
    "nm_messageID m = nm_messageID m'" "nm_messageType m = nm_messageType m'" "nm_reqID m = nm_reqID m'" "nm_sendTime m = nm_sendTime m'"
  shows "packet_of secure m = packet_of secure m'"
  using assms by (simp add: packet_of_def packet_body_def)

lemma write_message_eq: "write_message cx ctl msg s = Session_Write (cx_server cx) ctl msg s"
  by (auto simp: write_message_def Session_Write_def Session_Write_head_def Let_def rbind_assoc split_def intro!: rbind_cong)

lemma new_ring_room:
  "room 32768 (ResetSize old eServerBuf_size b)" "room 32768 (CCircleBuff old eClientBuf_size)"
  by (simp_all add: room_def ResetSize_def CCircleBuff_def cb_Reset_def eServerBuf_size_def eClientBuf_size_def)

text \<open>A ring that is filled from its start, and a message to a session whose ring is new.\<close>

definition ring_holds :: "char list \<Rightarrow> circle_buff \<Rightarrow> bool" where
  "ring_holds out b \<longleftrightarrow> cb_ok b \<and> cb_read b = 0 \<and> pending b = out"

lemma new_rings:
  "ring_holds [] (ResetSize old eServerBuf_size b)" "ring_holds [] (CCircleBuff old eClientBuf_size)"
  using ResetSize_ok [of eServerBuf_size old b] cb_new_ok [of eClientBuf_size old]
  by (simp_all add: ring_holds_def eServerBuf_size_def eClientBuf_size_def ResetSize_def CCircleBuff_def cb_Reset_def)

lemma IsWriteOverAgain_read [simp]: "cb_read (IsWriteOverAgain n b) = cb_read b"
  by (simp add: IsWriteOverAgain_def)

lemma WriteData_read:
  assumes "WriteData buf n hdr k b = Inr (res, b')"
  shows "cb_read b' = cb_read b"
proof -
  define b1 where "b1 = IsWriteOverAgain (n + k) b"
  have r: "cb_read b1 = cb_read b" by (simp add: b1_def)
  show ?thesis
    using assms unfolding WriteData_def Let_def b1_def [symmetric]
    using r by (auto simp: rbind_Inr_iff HadWrite_def split: if_splits)
qed

lemma Session_Write_read:
  assumes "Session_Write sv ctl msg s = Inr (res, msg', s')"
  shows "cb_read (ns_bufSend s') = cb_read (ns_bufSend s)"
proof -
  obtain m :: net_message and r where r: "WriteSend (sv_be sv) (nm_content m) (GetHead (sv_be sv) m) (ns_bufSend s) = Inr r"
      "arm ctl r s = (res, s')"
    using assms unfolding Session_Write_def Let_def by (elim rbind_InrE) (auto split: prod.splits)
  obtain c b where cb: "r = (c, b)" by (cases r)
  have "cb_read b = cb_read (ns_bufSend s)"
    using r(1) WriteData_read unfolding WriteSend_def Let_def cb by blast
  moreover have "s' = s\<lparr>ns_bufSend := b\<rparr>" using r(2) by (simp add: arm_def cb)
  ultimately show ?thesis by simp
qed

lemma first_write:
  assumes "writable msg" "md5_mem_ok (sv_md5 sv)" "ring_holds [] (ns_bufSend s)" "room 32768 (ns_bufSend s)"
  shows "\<exists>msg' s'. Session_Write sv True msg s = Inr (eNetSuccess, msg', s') \<and> s' = s\<lparr>ns_bufSend := ns_bufSend s'\<rparr> \<and>
    ring_holds (wire_frame (sv_be sv) (packet_of (ns_security s) msg)) (ns_bufSend s')"
proof -
  have ring: "cb_ok (ns_bufSend s)" "pending (ns_bufSend s) = []" "cb_read (ns_bufSend s) = 0"
    using assms(3) by (simp_all add: ring_holds_def)
  have "int (length (wire_frame (sv_be sv) (packet_of (ns_security s) msg))) \<le> 32768"
    using writable_body [OF assms(1), of "ns_security s"] by (simp add: packet_of_def)
  then have "room (int (length (wire_frame (sv_be sv) (packet_of (ns_security s) msg)))) (ns_bufSend s)"
    using assms(4) by (auto simp: room_def split: if_splits)
  with Session_Write_ok [OF assms(1,2) ring(1), of True] ring(2) obtain msg' s' where
    "Session_Write sv True msg s = Inr (eNetSuccess, msg', s')" "s' = s\<lparr>ns_bufSend := ns_bufSend s'\<rparr>" "cb_ok (ns_bufSend s')"
    "pending (ns_bufSend s') = wire_frame (sv_be sv) (packet_of (ns_security s) msg)" by auto
  with Session_Write_read [OF this(1)] ring(3) show ?thesis by (auto simp: ring_holds_def)
qed

lemma answer_ok:
  assumes "GetAccConfig cx (ns_flag s div 2 ^ 16) = Inr conf" "0 < cc_local_type conf" "0 < ns_remoteType s"
  shows "\<exists>a. conn_answer cx S2CMessage fd s = Inr a \<and> writable a \<and> nm_channelID a = fd \<and>
    packet_of secure a = answer_packet secure (ns_remoteID s) (ns_remoteType s) (cc_local_type conf)"
proof -
  let ?m = "(Message_plain (sv_old (cx_server cx)))\<lparr>nm_security := cc_security conf, nm_remoteID := ns_remoteID s,
           nm_remoteType := ns_remoteType s, nm_localType := cc_local_type conf, nm_channelID := fd,
           nm_messageID := S2CMessage, nm_messageType := ConnMessage\<rparr>"
  obtain a where a: "SetContent (sv_old (cx_server cx)) (char_of_byte 0 # replicate 7 NUL) 1 ?m = Inr a" "body_ok a" "body a = [NUL]"
      "a = ?m\<lparr>nm_content := nm_content a, nm_length := 1\<rparr>"
    using SetContent_ok [of 1 "char_of_byte 0 # replicate 7 NUL" ?m "sv_old (cx_server cx)"]
    by (auto simp: HEADER_SIZE_def MAX_MSG_PACKET_SIZE_def Message_plain_def MAX_RECV_MSG_CONTENT_SIZE_def)
  have fld: "nm_remoteType a = ns_remoteType s" "nm_localType a = cc_local_type conf" "nm_length a = 1" "nm_channelID a = fd"
      "nm_remoteID a = ns_remoteID s" "nm_messageID a = S2CMessage" "nm_messageType a = ConnMessage" "nm_reqID a = 0" "nm_sendTime a = 0"
    by (subst a(4), simp add: Message_plain_def)+
  then have "writable a" "nm_channelID a = fd" using a(2) assms(2,3) by (simp_all add: writable_def HEADER_SIZE_def)
  moreover have "packet_of secure a = answer_packet secure (ns_remoteID s) (ns_remoteType s) (cc_local_type conf)"
    unfolding answer_packet_def
    by (rule packet_of_cong) (simp_all add: a(3) fld, simp_all add: body_def Message_plain_def)
  ultimately show ?thesis using a(1) assms(1) by (simp add: conn_answer_def)
qed

text \<open>The side that accepted gets the packet.\<close>

abbreviation establish :: "int \<Rightarrow> nat \<Rightarrow> session_mgr \<Rightarrow> session_mgr" where
  "establish fd i m \<equiv> m\<lparr>sm_timeOutSe := map_erase fd (sm_timeOutSe m), sm_timeout := map_erase fd (sm_timeout m),
     sm_session := map_put fd i (sm_session m)\<rparr>"

lemma hello_conn_packet:
  assumes "nm_messageID msg = C2SMessage" "body msg = char_of_byte typ # mem_image (sv_be (cx_server cx)) 2 rid" "body_ok msg"
    and "0 < nm_remoteType msg" "typ < eMax"
  shows "conn_packet cx msg s gs = Inr (eNetSuccess, msg\<lparr>nm_remoteID := rid, nm_remoteType := typ\<rparr>,
    s\<lparr>ns_remoteID := rid, ns_remoteType := typ\<rparr>, gs)"
proof -
  have len: "nat (nm_length msg) = 3"
    using assms(3) arg_cong [OF assms(2), of length] by (auto simp: body_ok_def body_def min_def split: if_splits)
  have c: "take 3 (nm_content msg) = char_of_byte typ # mem_image (sv_be (cx_server cx)) 2 rid"
    using assms(2) len by (simp add: body_def)
  have l: "nm_length msg = 3" "3 \<le> length (nm_content msg)" using len assms(3) by (auto simp: body_ok_def)
  have "take 1 (nm_content msg) = [char_of_byte typ]"
    using arg_cong [OF c, of "take 1"] by simp
  moreover have "blk 1 2 (nm_content msg) = mem_image (sv_be (cx_server cx)) 2 rid"
    using arg_cong [OF c, of "drop 1"] by (simp add: blk_def take_drop [symmetric] drop_take)
  moreover have "\<not> nm_remoteType msg \<le> 0" "\<not> eMax \<le> typ" using assms(4,5) by auto
  ultimately show ?thesis
    using l assms(1) by (simp add: conn_packet_def Let_def blk_def set_peer_def del: word_le_0_iff)
qed

lemma set_obj_establish:
  "set_obj i s2 ((set_obj i s1 m)\<lparr>sm_timeOutSe := a, sm_timeout := b, sm_session := c\<rparr>) =
    set_obj i s2 (m\<lparr>sm_timeOutSe := a, sm_timeout := b, sm_session := c\<rparr>)"
  by (simp add: set_obj_def)

lemma set_obj_fields [simp]:
  "sm_obj (set_obj i s m) = (sm_obj m)(i \<mapsto> s)" "sm_session (set_obj i s m) = sm_session m"
  "sm_timeOutSe (set_obj i s m) = sm_timeOutSe m" "sm_timeout (set_obj i s m) = sm_timeout m"
  "sm_groups (set_obj i s m) = sm_groups m" "set_obj i s' (set_obj i s m) = set_obj i s' m"
  by (simp_all add: set_obj_def)

lemma accept_ConnectSuccess:
  assumes m: "map_of (sm_timeOutSe m) (nm_channelID msg) = Some i" "ordered (sm_session m)" "sm_obj m i = Some s" "ns_sock s = nm_channelID msg"
    and msg: "nm_messageID msg = C2SMessage" "body msg = char_of_byte typ # mem_image (sv_be (cx_server cx)) 2 rid" "body_ok msg"
      "0 < nm_remoteType msg" "0 < typ" "typ < eMax"
    and conf: "GetAccConfig cx (ns_flag s div 2 ^ 16) = Inr conf" "0 < cc_local_type conf" "md5_mem_ok (sv_md5 (cx_server cx))"
  shows "\<exists>b. ConnectSuccess cx True msg m = Inr (eNetSuccess, msg\<lparr>nm_remoteID := rid, nm_remoteType := typ\<rparr>,
      set_obj i (s\<lparr>ns_remoteID := rid, ns_remoteType := typ, ns_bufSend := b\<rparr>) (establish (nm_channelID msg) i m)) \<and>
    ring_holds (wire_frame (sv_be (cx_server cx)) (answer_packet (ns_security s) rid typ (cc_local_type conf))) b"
proof -
  let ?fd = "nm_channelID msg" and ?sv = "cx_server cx"
  let ?msg = "msg\<lparr>nm_remoteID := rid, nm_remoteType := typ\<rparr>"
  let ?s1 = "s\<lparr>ns_remoteID := rid, ns_remoteType := typ\<rparr>"
  let ?s2 = "ResetSendBuf ?sv ?s1"
  let ?m2 = "set_obj i ?s2 (establish ?fd i m)"
  have s2: "ns_flag ?s2 = ns_flag s" "ns_remoteType ?s2 = typ" "ns_remoteID ?s2 = rid" "ns_security ?s2 = ns_security s"
    "ns_bufSend ?s2 = ResetSize (sv_old ?sv) eServerBuf_size (ns_bufSend s)"
    by (simp_all add: ResetSendBuf_def)
  obtain a where a: "conn_answer cx S2CMessage ?fd ?s2 = Inr a" "writable a" "nm_channelID a = ?fd"
      "packet_of (ns_security s) a = answer_packet (ns_security s) rid typ (cc_local_type conf)"
    using answer_ok [of cx ?s2 conf ?fd "ns_security s"] conf(1,2) msg(5) by (auto simp: s2)
  obtain a' s3 where w: "Session_Write ?sv True a ?s2 = Inr (eNetSuccess, a', s3)" "s3 = ?s2\<lparr>ns_bufSend := ns_bufSend s3\<rparr>"
      "ring_holds (wire_frame (sv_be ?sv) (packet_of (ns_security s) a)) (ns_bufSend s3)"
    using first_write [OF a(2) conf(3), of ?s2, unfolded s2(4,5), OF new_rings(1) new_ring_room(1)] by auto
  have find: "find_session ?fd ?m2 = Some i" using m(2) by (simp add: find_session_def)
  have "mgr_Write cx True a ?m2 = Inr (eNetSuccess, set_obj i s3 ?m2)"
    using w(1) by (simp add: mgr_Write_def a(3) find write_message_eq eNetSuccess_def eCtlEpollErr_def)
  then have mw: "mgr_Write cx True a ?m2 = Inr (eNetSuccess, set_obj i s3 (establish ?fd i m))" by simp
  have "typ \<noteq> eClient" using msg(5) by (auto simp: eClient_def)
  then have "ConnectSuccess cx True msg m = rbind (conn_answer cx S2CMessage ?fd ?s2) (\<lambda>a.
      rbind (mgr_Write cx True a ?m2) (\<lambda>(res, m). Inr (eNetSuccess, ?msg, m)))"
    using m(4) msg(1) unfolding ConnectSuccess_def m(1) m(3) option.case deref_simps rbind.simps
      hello_conn_packet [OF msg(1-4,6)] case_prod_conv Let_def
    by (simp add: set_obj_establish eNetSuccess_def eConMessageErr_def)
  then have "ConnectSuccess cx True msg m = Inr (eNetSuccess, ?msg, set_obj i s3 (establish ?fd i m))"
    by (simp only: a(1) rbind.simps mw case_prod_conv)
  moreover have "s3 = s\<lparr>ns_remoteID := rid, ns_remoteType := typ, ns_bufSend := ns_bufSend s3\<rparr>"
    by (subst w(2)) (simp add: ResetSendBuf_def)
  ultimately show ?thesis using w(3) a(4) by metis
qed

text \<open>What is reported to the server's handler about a connection that is built.\<close>

definition built :: "int \<Rightarrow> u16 \<Rightarrow> u8 \<Rightarrow> u16 \<Rightarrow> u8 \<Rightarrow> u32 \<times> u16 \<Rightarrow> system_err" where
  "built fd lid ltype rid rtype addr = \<lparr>se_fd = fd, se_lid = lid, se_ltype = ltype, se_rid = rid, se_rtype = rtype,
     se_err = eNetSuccess, se_addr = addr\<rparr>"

lemma conn_message_built:
  assumes "ConnectSuccess cx ctl msg (set_obj i s m) = Inr (eNetSuccess, msg\<lparr>nm_remoteID := rid, nm_remoteType := typ\<rparr>,
      set_obj i s' (establish fd i (set_obj i s m)))" "sm_obj m i = None" "nm_group msg < 0" "nm_channelID msg = fd"
  shows "conn_message cx ctl i msg s m = Inr (1, s',
    SystemErr (built fd (nm_localID msg) (nm_localType msg) rid typ (reported_addr (sv_be (cx_server cx)) (nm_addr msg))) (establish fd i m))"
  using assms unfolding conn_message_def assms(1)
  by (simp add: eNetSuccess_def eGroupContinue_def set_obj_def SystemErr_def built_def fun_upd_idem)

text \<open>The packet of the other side, taken apart.\<close>

lemma hello_frame:
  assumes "0 \<le> sint (co_remote_id conf)" "0 < co_remote_type conf" "co_remote_type conf < eMax" "0 < cc_local_type conf" "cc_local_type conf < eMax"
    and "co_remote_id conf = sv_local_id sv" "co_remote_type conf = sv_local_type sv" "ns_security s = cc_security conf"
  shows "frame_ok (hello_packet be conf)" "accepted sv s (hello_packet be conf)"
    "expected s (hello_packet be conf) = (C2SMessage, ConnMessage, 0, cc_local_type conf, ns_sock s,
       char_of_byte (cc_local_type conf) # mem_image be 2 (cc_local_id conf))"
    "ph_messageType (fst (hello_packet be conf)) = ConnMessage" "ns_security s \<Longrightarrow> 16 \<le> length (snd (hello_packet be conf))"
    "ph_remoteID (fst (hello_packet be conf)) = sv_local_id sv" "ph_remoteType (fst (hello_packet be conf)) = sv_local_type sv"
proof -
  have l: "length (packet_body secure m) = length (body m) + (if secure then 16 else 0)" for secure m
    by (simp add: packet_body_def)
  show "frame_ok (hello_packet be conf)"
    using assms(1-5) by (auto simp: frame_ok_def header_bad_def hello_packet_def packet_of_def l body_def HEADER_SIZE_def
      ConnMessage_def SystemMessage_def linorder_not_le linorder_not_less)
  show "accepted sv s (hello_packet be conf)"
    "expected s (hello_packet be conf) = (C2SMessage, ConnMessage, 0, cc_local_type conf, ns_sock s,
       char_of_byte (cc_local_type conf) # mem_image be 2 (cc_local_id conf))"
    using assms(6-8) by (auto simp: accepted_def expected_def hello_packet_def packet_of_def signed_part_def packet_body_def body_def Message_plain_def)
  show "ph_messageType (fst (hello_packet be conf)) = ConnMessage" "ns_security s \<Longrightarrow> 16 \<le> length (snd (hello_packet be conf))"
    "ph_remoteID (fst (hello_packet be conf)) = sv_local_id sv" "ph_remoteType (fst (hello_packet be conf)) = sv_local_type sv"
    using assms by (simp_all add: hello_packet_def packet_of_def packet_body_def)
qed

lemma answer_frame:
  assumes "0 \<le> sint rid" "0 < rtype" "rtype < eMax" "0 < ltype" "ltype < eMax"
    and "rid = sv_local_id sv" "rtype = sv_local_type sv" "ns_security s = secure"
  shows "frame_ok (answer_packet secure rid rtype ltype)" "accepted sv s (answer_packet secure rid rtype ltype)"
    "expected s (answer_packet secure rid rtype ltype) = (S2CMessage, ConnMessage, 0, ltype, ns_sock s, [NUL])"
    "ph_messageType (fst (answer_packet secure rid rtype ltype)) = ConnMessage"
    "ns_security s \<Longrightarrow> 16 \<le> length (snd (answer_packet secure rid rtype ltype))"
    "ph_remoteID (fst (answer_packet secure rid rtype ltype)) = sv_local_id sv"
    "ph_remoteType (fst (answer_packet secure rid rtype ltype)) = sv_local_type sv"
proof -
  have l: "length (packet_body secure m) = length (body m) + (if secure then 16 else 0)" for secure m
    by (simp add: packet_body_def)
  show "frame_ok (answer_packet secure rid rtype ltype)"
    using assms(1-5) by (auto simp: frame_ok_def header_bad_def answer_packet_def packet_of_def l body_def HEADER_SIZE_def
      ConnMessage_def SystemMessage_def linorder_not_le linorder_not_less)
  show "accepted sv s (answer_packet secure rid rtype ltype)"
    "expected s (answer_packet secure rid rtype ltype) = (S2CMessage, ConnMessage, 0, ltype, ns_sock s, [NUL])"
    using assms(6-8) by (auto simp: accepted_def expected_def answer_packet_def packet_of_def signed_part_def packet_body_def body_def Message_plain_def)
  show "ph_messageType (fst (answer_packet secure rid rtype ltype)) = ConnMessage"
    "ns_security s \<Longrightarrow> 16 \<le> length (snd (answer_packet secure rid rtype ltype))"
    "ph_remoteID (fst (answer_packet secure rid rtype ltype)) = sv_local_id sv"
    "ph_remoteType (fst (answer_packet secure rid rtype ltype)) = sv_local_type sv"
    using assms by (simp_all add: answer_packet_def packet_of_def packet_body_def)
qed

section \<open>The events of the two sides\<close>

text \<open>A session that waits for its connection packet, and the bytes of that packet and of data packets behind it.\<close>

definition waits :: "net_context \<Rightarrow> int \<Rightarrow> nat \<Rightarrow> net_session \<Rightarrow> char list \<Rightarrow> session_mgr \<Rightarrow> bool" where
  "waits cx fd i s q m \<longleftrightarrow> mgr_ok m \<and> map_of (sm_timeOutSe m) fd = Some i \<and> sm_obj m i = Some s \<and> holds q s \<and>
     md5_mem_ok (sv_md5 (cx_server cx)) \<and> ns_group s < 0 \<and> ns_recvTime s \<le> 0 \<and> partial_ok (sv_be (cx_server cx)) q"

lemma waitsD:
  assumes "waits cx fd i s q m"
  shows "map_of (sm_timeOutSe m) fd = Some i" "ordered (sm_session m)" "sm_obj m i = Some s" "ns_sock s = fd" "holds q s"
    "md5_mem_ok (sv_md5 (cx_server cx))" "ns_group s < 0" "ns_recvTime s \<le> 0" "partial_ok (sv_be (cx_server cx)) q"
  using assms tables_okD(1) [of "{}" m] tables_okD(5) [of "{}" m fd i] by (auto simp: waits_def entry_ok_def)

definition packet_stream :: "bool \<Rightarrow> net_session \<Rightarrow> char list \<Rightarrow> char list list \<Rightarrow> packet_header \<times> char list \<Rightarrow>
    (packet_header \<times> char list) list \<Rightarrow> char list \<Rightarrow> bool" where
  "packet_stream be s q cs f fs q' \<longleftrightarrow> q @ concat cs = wire_frame be f @ concat (map (wire_frame be) fs) @ q' \<and>
     [] \<notin> set cs \<and> list_all (data_packet s) fs \<and> partial_ok be q'"

text \<open>What the loop has done: the session is established, its packets are handled.\<close>

definition joined :: "net_context \<Rightarrow> int \<Rightarrow> nat \<Rightarrow> net_session \<Rightarrow> u16 \<Rightarrow> u8 \<Rightarrow> (packet_header \<times> char list) list \<Rightarrow> char list \<Rightarrow> char list \<Rightarrow>
    session_mgr \<Rightarrow> fault + net_message list \<times> session_mgr \<Rightarrow> bool" where
  "joined cx fd i s rid rtype fs q' out m r \<longleftrightarrow>
     (\<exists>ms s'. r = Inr (ms, set_obj i s' (SystemErr (built fd (sv_local_id (cx_server cx)) (sv_local_type (cx_server cx)) rid rtype (reported_addr (sv_be (cx_server cx)) (ns_addr s)))
        (establish fd i m))) \<and>
      ns_remoteID s' = rid \<and> ns_remoteType s' = rtype \<and> ns_sock s' = fd \<and> ns_security s' = ns_security s \<and>
      holds q' s' \<and> ring_holds out (ns_bufSend s') \<and>
      map seen ms = map (expected s) (filter (accepted (cx_server cx) s) fs))"

lemma joinedI:
  assumes w: "waits cx fd i s q m" and stream: "packet_stream (sv_be (cx_server cx)) s q cs (h, b) fs q'"
    and f: "frame_ok (h, b)" "accepted (cx_server cx) s (h, b)" "ph_messageType h = ConnMessage" "ns_security s \<Longrightarrow> 16 \<le> length b"
      "ph_remoteID h = sv_local_id (cx_server cx)" "ph_remoteType h = sv_local_type (cx_server cx)"
    and conn: "\<And>msg s0 m0. seen msg = expected s (h, b) \<Longrightarrow> message_fields s h msg \<Longrightarrow> map_of (sm_timeOutSe m0) fd = Some i \<Longrightarrow>
      ordered (sm_session m0) \<Longrightarrow> sm_obj m0 i = Some s0 \<Longrightarrow> ns_sock s0 = fd \<Longrightarrow> ns_flag s0 = ns_flag s \<Longrightarrow> ns_security s0 = ns_security s \<Longrightarrow>
      \<exists>buf. ConnectSuccess cx ctl msg m0 = Inr (eNetSuccess, msg\<lparr>nm_remoteID := rid, nm_remoteType := rtype\<rparr>,
        set_obj i (s0\<lparr>ns_remoteID := rid, ns_remoteType := rtype, ns_bufSend := buf\<rparr>) (establish fd i m0)) \<and> ring_holds out buf"
  shows "joined cx fd i s rid rtype fs q' out m (epoll_in cx ctl now (map Arrived cs) i m)"
proof -
  note w = waitsD [OF w]
  let ?m0 = "m\<lparr>sm_obj := (sm_obj m)(i := None)\<rparr>"
  let ?err = "built fd (sv_local_id (cx_server cx)) (sv_local_type (cx_server cx)) rid rtype (reported_addr (sv_be (cx_server cx)) (ns_addr s))"
  define Q where "Q = (\<lambda>(s2 :: net_session) (m2 :: session_mgr). m2 = SystemErr ?err (establish fd i ?m0) \<and> ring_holds out (ns_bufSend s2) \<and> ns_remoteID s2 = rid \<and> ns_remoteType s2 = rtype \<and> ns_sock s2 = fd \<and> ns_security s2 = ns_security s)"
  have c: "\<exists>s2 m2. conn_message cx ctl i msg (s\<lparr>ns_recvCount := k\<rparr>) ?m0 = Inr (1, s2, m2) \<and> ns_sock s2 = ns_sock s \<and>
      ns_security s2 = ns_security s \<and> (ns_recvTime s2 \<le> 0 \<or> now div 1000 - ns_recvTime s2 \<le> 20 * 1000) \<and> Q s2 m2"
    if msg: "seen msg = expected s (h, b)" "message_fields s h msg" for msg k
  proof -
    let ?s0 = "s\<lparr>ns_recvCount := k\<rparr>"
    have ch: "nm_channelID msg = fd" using msg(1) w(4) by (simp add: seen_def expected_def)
    have g: "nm_group msg < 0" "nm_localID msg = sv_local_id (cx_server cx)" "nm_localType msg = sv_local_type (cx_server cx)"
        "nm_addr msg = ns_addr s"
      using msg(2) w(7) f(5,6) by (simp_all add: message_fields_def)
    obtain buf where b: "ConnectSuccess cx ctl msg (set_obj i ?s0 ?m0) = Inr (eNetSuccess, msg\<lparr>nm_remoteID := rid, nm_remoteType := rtype\<rparr>,
        set_obj i (?s0\<lparr>ns_remoteID := rid, ns_remoteType := rtype, ns_bufSend := buf\<rparr>) (establish fd i (set_obj i ?s0 ?m0)))"
        "ring_holds out buf"
      using conn [OF msg, of "set_obj i ?s0 ?m0" ?s0] w by auto
    have "conn_message cx ctl i msg ?s0 ?m0 = Inr (1, ?s0\<lparr>ns_remoteID := rid, ns_remoteType := rtype, ns_bufSend := buf\<rparr>,
        SystemErr ?err (establish fd i ?m0))"
      using conn_message_built [OF b(1) _ g(1) ch] by (simp add: g)
    then show ?thesis using b(2) w(4,8) by (simp add: Q_def)
  qed
  obtain ms s2 s4 m2 where r: "epoll_in cx ctl now (map Arrived cs) i m = Inr (ms, set_obj i s4 m2)" "Q s2 m2"
      "map seen ms = map (expected s) (filter (accepted (cx_server cx) s) fs)" "holds q' s4"
      "s4 = s2\<lparr>ns_bufRecv := ns_bufRecv s4, ns_pos := ns_pos s4, ns_recvCount := ns_recvCount s4, ns_recvTime := ns_recvTime s4\<rparr>"
    using epoll_in_conn [OF w(3,5,6) f(1-4) _ _ w(9) _ _ c, where fs = fs and q' = q' and cs = cs] stream by (auto simp: packet_stream_def)
  have e: "set_obj i s4 m2 = set_obj i s4 (SystemErr ?err (establish fd i m))"
    using r(2) by (simp add: Q_def set_obj_def SystemErr_def)
  have s4: "ns_remoteID s4 = rid" "ns_remoteType s4 = rtype" "ns_sock s4 = fd" "ns_security s4 = ns_security s" "ring_holds out (ns_bufSend s4)"
    using r(2) by (subst r(5), simp add: Q_def)+
  show ?thesis
    unfolding joined_def r(1) e by (intro exI conjI) (use s4 r(3,4) in auto)
qed

text \<open>The two configurations fit: each names the other side.\<close>

definition configs_fit :: "net_context \<Rightarrow> net_context \<Rightarrow> connection_config \<Rightarrow> channel_config \<Rightarrow> bool" where
  "configs_fit cx cx' conf conf' \<longleftrightarrow>
     co_remote_id conf = sv_local_id (cx_server cx') \<and> co_remote_type conf = sv_local_type (cx_server cx') \<and>
     cc_local_id conf = sv_local_id (cx_server cx) \<and> cc_local_type conf = sv_local_type (cx_server cx) \<and>
     cc_local_type conf' = sv_local_type (cx_server cx') \<and> cc_security conf' = cc_security conf \<and>
     0 \<le> sint (co_remote_id conf) \<and> 0 \<le> sint (cc_local_id conf) \<and> co_group_count conf \<le> 1 \<and>
     0 < co_remote_type conf \<and> co_remote_type conf < eMax \<and> 0 < cc_local_type conf \<and> cc_local_type conf < eMax \<and>
     sv_be (cx_server cx') = sv_be (cx_server cx) \<and> md5_mem_ok (sv_md5 (cx_server cx)) \<and> md5_mem_ok (sv_md5 (cx_server cx'))"

lemma configs_fitD:
  assumes "configs_fit cx cx' conf conf'"
  shows "0 < co_remote_type conf" "0 < cc_local_type conf" "cc_local_type conf < eMax" "0 < cc_local_type conf'"
    "md5_mem_ok (sv_md5 (cx_server cx'))" "sv_be (cx_server cx') = sv_be (cx_server cx)"
  using assms unfolding configs_fit_def by metis+

lemma accept_hello:
  assumes fit: "configs_fit cx cx' conf conf'"
    and s: "waits cx' fd i s q m" "ns_security s = cc_security conf'" "GetAccConfig cx' (ns_flag s div 2 ^ 16) = Inr conf'"
    and stream: "packet_stream (sv_be (cx_server cx)) s q cs (hello_packet (sv_be (cx_server cx)) conf) fs q'"
  shows "joined cx' fd i s (cc_local_id conf) (cc_local_type conf) fs q'
    (wire_frame (sv_be (cx_server cx)) (answer_packet (cc_security conf) (cc_local_id conf) (cc_local_type conf) (cc_local_type conf')))
    m (epoll_in cx' True now (map Arrived cs) i m)"
proof -
  let ?be = "sv_be (cx_server cx)"
  note fitD = configs_fitD [OF fit]
  note fit = fit [unfolded configs_fit_def]
  have sec: "ns_security s = cc_security conf" "sv_be (cx_server cx') = ?be" using fit s(2) by simp_all
  obtain h b where hb: "hello_packet ?be conf = (h, b)" by (cases "hello_packet ?be conf")
  note f = hello_frame [of conf "cx_server cx'" s ?be, unfolded hb fst_conv snd_conv]
  note w = waitsD [OF s(1)]
  show ?thesis
  proof (rule joinedI [OF s(1)])
    show "packet_stream (sv_be (cx_server cx')) s q cs (h, b) fs q'" using stream sec by (simp add: hb)
    show "frame_ok (h, b)" "accepted (cx_server cx') s (h, b)" "ph_messageType h = ConnMessage" "ns_security s \<Longrightarrow> 16 \<le> length b"
      "ph_remoteID h = sv_local_id (cx_server cx')" "ph_remoteType h = sv_local_type (cx_server cx')"
      using f fit sec by auto
  next
    fix msg s0 and m0 :: session_mgr
    assume msg: "seen msg = expected s (h, b)" "message_fields s h msg" and m0: "map_of (sm_timeOutSe m0) fd = Some i" "ordered (sm_session m0)"
      "sm_obj m0 i = Some s0" "ns_sock s0 = fd" "ns_flag s0 = ns_flag s" "ns_security s0 = ns_security s"
    have e: "expected s (h, b) = (C2SMessage, ConnMessage, 0, cc_local_type conf, ns_sock s, char_of_byte (cc_local_type conf) # mem_image ?be 2 (cc_local_id conf))"
      using f(3) fit sec(1) by auto
    have m: "nm_channelID msg = fd" "nm_messageID msg = C2SMessage" "nm_remoteType msg = cc_local_type conf" "body_ok msg"
        "body msg = char_of_byte (cc_local_type conf) # mem_image (sv_be (cx_server cx')) 2 (cc_local_id conf)"
      using msg w(4) sec(2) unfolding e by (auto simp: seen_def message_fields_def)
    show "\<exists>buf. ConnectSuccess cx' True msg m0 = Inr (eNetSuccess, msg\<lparr>nm_remoteID := cc_local_id conf, nm_remoteType := cc_local_type conf\<rparr>,
        set_obj i (s0\<lparr>ns_remoteID := cc_local_id conf, ns_remoteType := cc_local_type conf, ns_bufSend := buf\<rparr>) (establish fd i m0)) \<and>
      ring_holds (wire_frame ?be (answer_packet (cc_security conf) (cc_local_id conf) (cc_local_type conf) (cc_local_type conf'))) buf"
      using accept_ConnectSuccess [of m0 msg i s0 "cc_local_type conf" cx' "cc_local_id conf" conf', unfolded m(1,3) m0(5),
        OF m0(1-4) m(2,5,4) fitD(2) fitD(2,3) s(3) fitD(4,5)] by (simp add: sec m0(6))
  qed
qed

lemma answer_ConnectSuccess:
  assumes m: "map_of (sm_timeOutSe m) (nm_channelID msg) = Some i" "sm_obj m i = Some s" "ns_sock s = nm_channelID msg"
    and msg: "nm_messageID msg = S2CMessage" "body msg = [NUL]" "body_ok msg"
    and conf: "GetConnConfig cx (ns_flag s div 2 ^ 16) = Inr conf" "0 < co_remote_type conf"
  shows "ConnectSuccess cx ctl msg m = Inr (eNetSuccess, msg\<lparr>nm_remoteID := co_remote_id conf, nm_remoteType := co_remote_type conf\<rparr>,
      set_obj i (s\<lparr>ns_remoteID := co_remote_id conf, ns_remoteType := co_remote_type conf,
        ns_bufSend := ResetSize (sv_old (cx_server cx)) eServerBuf_size (ns_bufSend s)\<rparr>) (establish (nm_channelID msg) i m))"
proof -
  have len: "nat (nm_length msg) = 1"
    using msg(3) arg_cong [OF msg(2), of length] by (auto simp: body_ok_def body_def min_def split: if_splits)
  then have c: "take 1 (nm_content msg) = [NUL]" using msg(2) by (simp add: body_def)
  have l: "nm_length msg = 1" "1 \<le> length (nm_content msg)" using len msg(3) by (auto simp: body_ok_def)
  have "conn_packet cx msg s (sm_groups m) = Inr (eNetSuccess, msg\<lparr>nm_remoteID := co_remote_id conf, nm_remoteType := co_remote_type conf\<rparr>,
      s\<lparr>ns_remoteID := co_remote_id conf, ns_remoteType := co_remote_type conf\<rparr>, sm_groups m)"
    using l c msg(1) conf(1) by (simp add: conn_packet_def Let_def blk_def set_peer_def C2SMessage_def S2CMessage_def)
  moreover have "co_remote_type conf \<noteq> eClient" using conf(2) by (auto simp: eClient_def)
  ultimately show ?thesis
    using m msg(1) unfolding ConnectSuccess_def
    by (simp add: set_obj_establish eNetSuccess_def eConMessageErr_def ResetSendBuf_def C2SMessage_def S2CMessage_def C2SGroupMessage_def)
qed

lemma connect_answer:
  assumes fit: "configs_fit cx cx' conf conf'"
    and s: "waits cx fd i s q m" "ns_security s = cc_security conf" "GetConnConfig cx (ns_flag s div 2 ^ 16) = Inr conf"
    and stream: "packet_stream (sv_be (cx_server cx)) s q cs
      (answer_packet (cc_security conf) (cc_local_id conf) (cc_local_type conf) (cc_local_type conf')) fs q'"
  shows "joined cx fd i s (co_remote_id conf) (co_remote_type conf) fs q' [] m (epoll_in cx ctl now (map Arrived cs) i m)"
proof -
  let ?be = "sv_be (cx_server cx)"
  let ?p = "answer_packet (cc_security conf) (cc_local_id conf) (cc_local_type conf) (cc_local_type conf')"
  note fitD = configs_fitD [OF fit]
  note fit = fit [unfolded configs_fit_def]
  obtain h b where hb: "?p = (h, b)" by (cases ?p)
  note f = answer_frame [of "cc_local_id conf" "cc_local_type conf" "cc_local_type conf'" "cx_server cx" s "cc_security conf", unfolded hb fst_conv snd_conv]
  note w = waitsD [OF s(1)]
  show ?thesis
  proof (rule joinedI [OF s(1)])
    show "packet_stream ?be s q cs (h, b) fs q'" using stream by (simp add: hb)
    show "frame_ok (h, b)" "accepted (cx_server cx) s (h, b)" "ph_messageType h = ConnMessage" "ns_security s \<Longrightarrow> 16 \<le> length b"
      "ph_remoteID h = sv_local_id (cx_server cx)" "ph_remoteType h = sv_local_type (cx_server cx)"
      using f fit s(2) by auto
  next
    fix msg s0 and m0 :: session_mgr
    assume msg: "seen msg = expected s (h, b)" "message_fields s h msg" and m0: "map_of (sm_timeOutSe m0) fd = Some i" "ordered (sm_session m0)"
      "sm_obj m0 i = Some s0" "ns_sock s0 = fd" "ns_flag s0 = ns_flag s" "ns_security s0 = ns_security s"
    have e: "expected s (h, b) = (S2CMessage, ConnMessage, 0, cc_local_type conf', ns_sock s, [NUL])"
      using f(3) fit s(2) by auto
    have m: "nm_channelID msg = fd" "nm_messageID msg = S2CMessage" "body_ok msg" "body msg = [NUL]"
      using msg w(4) unfolding e by (auto simp: seen_def message_fields_def)
    have "ConnectSuccess cx ctl msg m0 = Inr (eNetSuccess, msg\<lparr>nm_remoteID := co_remote_id conf, nm_remoteType := co_remote_type conf\<rparr>,
        set_obj i (s0\<lparr>ns_remoteID := co_remote_id conf, ns_remoteType := co_remote_type conf,
          ns_bufSend := ResetSize (sv_old (cx_server cx)) eServerBuf_size (ns_bufSend s0)\<rparr>) (establish fd i m0))"
      by (rule answer_ConnectSuccess [of m0 msg i s0 cx conf ctl, unfolded m(1) m0(5), OF m0(1,3,4) m(2,4,3) s(3) fitD(1)])
    with new_rings(1) show "\<exists>buf. ConnectSuccess cx ctl msg m0 = Inr (eNetSuccess, msg\<lparr>nm_remoteID := co_remote_id conf, nm_remoteType := co_remote_type conf\<rparr>,
        set_obj i (s0\<lparr>ns_remoteID := co_remote_id conf, ns_remoteType := co_remote_type conf, ns_bufSend := buf\<rparr>) (establish fd i m0)) \<and> ring_holds [] buf"
      by blast
  qed
qed

end
