(* ===== verification/ServerHandshake.thy ===== *)
theory ServerHandshake
  imports SessionHandshake
begin

text \<open>
  Two servers build a connection: one connects, the other accepts, and each learns who the other is.
\<close>

section \<open>The two requests\<close>

lemma session_index_flag:
  fixes ix l ty :: u8
  shows "uint (push_bit 8 (ucast (session_index ix l) :: u32) OR ucast ty) div 2 ^ 16 = uint ix"
proof -
  have "drop_bit 16 (push_bit 8 (ucast (session_index ix l) :: u32) OR ucast ty) = (ucast ix :: u32)"
    by (rule bit_word_eqI) (auto simp: session_index_def bit_simps dest: bit_imp_le_length)
  then have "uint (drop_bit 16 (push_bit 8 (ucast (session_index ix l) :: u32) OR ucast ty)) = uint (ucast ix :: u32)"
    by simp
  moreover have "uint (ucast ix :: u32) = uint ix"
    proof -
    have "uint ix < 2 ^ LENGTH(8)" by (rule unsigned_less)
    then have "take_bit 32 (uint ix) = uint ix" by (intro take_bit_int_eq_self) simp_all
    then show ?thesis by (simp add: unsigned_ucast_eq)
  qed
  moreover have "uint (drop_bit 16 w) = uint w div 2 ^ 16" for w :: u32
    using take_bit_int_eq_self [of "uint w" 32] unsigned_less [of w, where 'a = int]
    by (simp only: unsigned_drop_bit_eq) (simp add: drop_bit_eq_div)
  ultimately show ?thesis by metis
qed

lemma new_session_waits:
  assumes "mgr_ok m" "fd \<notin> set (sm_open m)" "0 \<le> fd" "fd < MAX_EPOLL_EVENT" "0 < cc_keep_time conf"
    and "md5_mem_ok (sv_md5 (cx_server cx))"
  shows "\<exists>m' s. AddTimerSessionEx cx now fd addr conf (session_index index loop) ty (opened fd m) = Inr (Some (sm_next m), m') \<and>
    waits cx fd (sm_next m) s [] m' \<and> ns_security s = cc_security conf \<and> ns_flag s div 2 ^ 16 = uint index \<and>
    ns_bufSend s = CCircleBuff (sv_old (cx_server cx)) eClientBuf_size \<and> sm_epollPtr m' fd = Some (sm_next m)"
proof -
  let ?s = "Session_new (cx_server cx) fd (uint (push_bit 8 (ucast (session_index index loop)) OR ucast ty :: u32)) addr (cc_security conf)"
  have free: "map_of (sm_timeOutSe m) fd = None" using opened_free [OF assms(1,2)] by simp
  obtain m' where m': "AddTimerSessionEx cx now fd addr conf (session_index index loop) ty (opened fd m) = Inr (Some (sm_next m), m')"
      "sm_obj m' (sm_next m) = Some ?s" "sm_epollPtr m' fd = Some (sm_next m)" "map_of (sm_timeOutSe m') fd = Some (sm_next m)"
    using assms(3-5) free tables_okD(2) [OF assms(1)] by (auto simp: AddTimerSessionEx_def Let_def set_obj_def)
  have ok: "mgr_ok m'"
    using AddTimerSessionEx_ok [OF assms(1,2) m'(1)] by simp
  have "holds [] ?s" by (simp add: holds_def Session_new_def MAX_RECV_MSG_SIZE_def)
  then have "waits cx fd (sm_next m) ?s [] m'"
    using ok m' assms(6) by (simp add: waits_def Session_new_def partial_nil)
  moreover have "ns_flag ?s div 2 ^ 16 = uint index" using session_index_flag [of index loop ty] by (simp add: Session_new_def)
  ultimately show ?thesis using m' by (intro exI [of _ m'] exI [of _ ?s]) (simp add: Session_new_def)
qed

lemma accept_waits:
  assumes "mgr_ok m" "rl_fd rl \<notin> set (sm_open m)" "0 \<le> rl_fd rl" "rl_fd rl < MAX_EPOLL_EVENT" "0 < cc_keep_time conf"
    and "md5_mem_ok (sv_md5 (cx_server cx))" "GetAccConfig cx (uint (rl_index rl)) = Inr conf"
  shows "\<exists>m' s. accept_request cx ip_of True now loop rl (opened (rl_fd rl) m) = Inr m' \<and>
    waits cx (rl_fd rl) (sm_next m) s [] m' \<and> ns_security s = cc_security conf \<and> GetAccConfig cx (ns_flag s div 2 ^ 16) = Inr conf \<and>
    sm_epollPtr m' (rl_fd rl) = Some (sm_next m)"
proof -
  obtain m' s where "AddTimerSessionEx cx now (rl_fd rl) (ip_of (rl_host rl), rl_opaque rl) conf (session_index (rl_index rl) loop) eAcceptEpoll
        (opened (rl_fd rl) m) = Inr (Some (sm_next m), m')"
      "waits cx (rl_fd rl) (sm_next m) s [] m'" "ns_security s = cc_security conf" "ns_flag s div 2 ^ 16 = uint (rl_index rl)"
      "sm_epollPtr m' (rl_fd rl) = Some (sm_next m)"
    using new_session_waits [OF assms(1-6), where addr = "(ip_of (rl_host rl), rl_opaque rl)" and now = now and index = "rl_index rl" and loop = loop and ty = eAcceptEpoll]
    by blast
  then show ?thesis using assms(7) by (intro exI [of _ m'] exI [of _ s]) (simp add: accept_request_def)
qed

lemma waits_send:
  assumes "waits cx fd i s q m"
  shows "waits cx fd i (s\<lparr>ns_bufSend := b\<rparr>) q (set_obj i (s\<lparr>ns_bufSend := b\<rparr>) m)"
  using assms set_obj_ok [of "{}" m i s "s\<lparr>ns_bufSend := b\<rparr>"] waitsD(3) [OF assms] by (simp add: waits_def holds_def)

text \<open>The packet the connecting side writes at once.\<close>

lemma hello_ok:
  assumes "configs_fit cx cx' conf conf'"
  shows "\<exists>msg. hello_message cx conf fd = Inr msg \<and> writable msg \<and>
    packet_of (cc_security conf) msg = hello_packet (sv_be (cx_server cx)) conf"
proof -
  let ?sv = "cx_server cx"
  let ?m = "(Message_plain (sv_old ?sv))\<lparr>nm_security := cc_security conf, nm_remoteID := co_remote_id conf,
            nm_remoteType := co_remote_type conf, nm_channelID := fd, nm_messageID := C2SMessage\<rparr>"
  let ?im = "mem_image (sv_be ?sv) 2 (cc_local_id conf)" and ?t = "char_of_byte (cc_local_type conf)"
  note fit = configs_fitD [OF assms]
  have c1: "SafeMemmove 0 8 [?t] 1 (replicate 8 NUL) = Inr (0, put (nat 0) (take (nat 1) [?t]) (replicate 8 NUL))"
    by (rule SafeMemmove_ok) simp_all
  have c2: "SafeMemmove 1 8 ?im 2 (put 0 [?t] (replicate 8 NUL)) = Inr (0, put (nat 1) (take (nat 2) ?im) (put 0 [?t] (replicate 8 NUL)))"
    by (rule SafeMemmove_ok) simp_all
  let ?con = "put 1 ?im (put 0 [?t] (replicate 8 NUL))"
  have con: "take 3 ?con = ?t # ?im" "3 \<le> length ?con"
    by (simp_all add: put_def)
  obtain a where a: "SetContent (sv_old ?sv) ?con 3 ?m = Inr a" "body_ok a" "body a = ?t # ?im" "a = ?m\<lparr>nm_content := nm_content a, nm_length := 3\<rparr>"
    using SetContent_ok [of 3 ?con ?m "sv_old ?sv"] con
    by (auto simp: HEADER_SIZE_def MAX_MSG_PACKET_SIZE_def Message_plain_def MAX_RECV_MSG_CONTENT_SIZE_def)
  let ?a = "a\<lparr>nm_messageType := ConnMessage, nm_localType := cc_local_type conf\<rparr>"
  have fld: "nm_remoteType a = co_remote_type conf" "nm_length a = 3" "nm_remoteID a = co_remote_id conf" "nm_messageID a = C2SMessage"
      "nm_reqID a = 0" "nm_sendTime a = 0"
    by (subst a(4), simp add: Message_plain_def)+
  have "hello_message cx conf fd = Inr ?a"
    using assms a(1) c1 c2 by (simp add: hello_message_def Let_def configs_fit_def)
  moreover have "writable ?a" using a(2) fit fld by (simp add: writable_def body_ok_def HEADER_SIZE_def)
  moreover have "body ?a = ?t # ?im" using a(3) by (simp add: body_def)
  then have "packet_of (cc_security conf) ?a = hello_packet (sv_be ?sv) conf"
    unfolding hello_packet_def by (intro packet_of_cong) (simp_all add: fld, simp_all add: body_def Message_plain_def)
  ultimately show ?thesis by blast
qed

lemma connect_waits:
  assumes "mgr_ok m" "rc_fd rc \<notin> set (sm_open m)" "0 \<le> rc_fd rc" "rc_fd rc < MAX_EPOLL_EVENT" "0 < cc_keep_time conf"
    and "configs_fit cx cx' conf conf'" "GetConnConfig cx (uint (rc_index rc)) = Inr conf"
  shows "\<exists>m' s. connect_request cx True True now loop rc (opened (rc_fd rc) m) = Inr m' \<and>
    waits cx (rc_fd rc) (sm_next m) s [] m' \<and> ns_security s = cc_security conf \<and> GetConnConfig cx (ns_flag s div 2 ^ 16) = Inr conf \<and>
    ring_holds (wire_frame (sv_be (cx_server cx)) (hello_packet (sv_be (cx_server cx)) conf)) (ns_bufSend s) \<and>
    sm_epollPtr m' (rc_fd rc) = Some (sm_next m)"
proof -
  let ?sv = "cx_server cx" and ?i = "sm_next m"
  let ?addr = "(fst (co_remote_address conf), htons (sv_be (cx_server cx)) (snd (co_remote_address conf)))"
  have md: "md5_mem_ok (sv_md5 ?sv)" using assms(6) by (simp add: configs_fit_def)
  have t: "cc_keep_time (channel_config.truncate conf) = cc_keep_time conf" "cc_security (channel_config.truncate conf) = cc_security conf"
    by (simp_all add: channel_config.truncate_def)
  obtain m1 s where s: "AddTimerSessionEx cx now (rc_fd rc) ?addr (channel_config.truncate conf) (session_index (rc_index rc) loop) eConnEpoll
        (opened (rc_fd rc) m) = Inr (Some ?i, m1)"
      "waits cx (rc_fd rc) ?i s [] m1" "ns_security s = cc_security conf" "ns_flag s div 2 ^ 16 = uint (rc_index rc)"
      "ns_bufSend s = CCircleBuff (sv_old ?sv) eClientBuf_size" "sm_epollPtr m1 (rc_fd rc) = Some ?i"
    using new_session_waits [where conf = "channel_config.truncate conf", OF assms(1-4) _ md, where addr = ?addr and now = now
        and index = "rc_index rc" and loop = loop and ty = eConnEpoll] assms(5) unfolding t by blast
  note w = waitsD [OF s(2)]
  obtain msg where msg: "hello_message cx conf (rc_fd rc) = Inr msg" "writable msg" "packet_of (cc_security conf) msg = hello_packet (sv_be ?sv) conf"
    using hello_ok [OF assms(6)] by blast
  obtain msg' s' where s': "Session_Write ?sv True msg s = Inr (eNetSuccess, msg', s')" "s' = s\<lparr>ns_bufSend := ns_bufSend s'\<rparr>"
      "ring_holds (wire_frame (sv_be ?sv) (packet_of (ns_security s) msg)) (ns_bufSend s')"
    using first_write [OF msg(2) md, of s, unfolded s(5), OF new_rings(2) new_ring_room(2)] by auto
  have "connect_request cx True True now loop rc (opened (rc_fd rc) m) = Inr (set_obj ?i s' m1)"
    by (simp add: connect_request_def assms(7) s(1) msg(1) w(3) s'(1))
  moreover have "waits cx (rc_fd rc) ?i s' [] (set_obj ?i s' m1)"
    using waits_send [OF s(2), of "ns_bufSend s'"] s'(2) by simp
  moreover have "ns_flag s' = ns_flag s" "ns_security s' = ns_security s" by (subst s'(2), simp)+
  ultimately show ?thesis
    using s'(3) s(3,4,6) assms(7) msg(3) by (intro exI [of _ "set_obj ?i s' m1"] exI [of _ s']) (simp add: set_obj_def)
qed

section \<open>Sending\<close>

lemma send_all:
  assumes "\<forall>n \<in> set ns. 0 < n" "0 \<le> k" "k < len" "len - k \<le> int (sum_list ns)"
  shows "send_chunks (map Sent ns) k len = (None, len)"
  using assms
proof (induction ns arbitrary: k)
  case (Cons n ns)
  show ?case
  proof (cases "int n < len - k")
    case True
    with Cons.prems Cons.IH [of "k + int n"] show ?thesis by (simp add: send_chunks_simps Let_def min_def)
  next
    case False
    with Cons.prems show ?thesis by (simp add: send_chunks_simps Let_def min_def)
  qed
qed simp

lemma epoll_out_all:
  assumes "sm_obj m i = Some s" "ring_holds out (ns_bufSend s)" "out \<noteq> []" "\<forall>n \<in> set ns. 0 < n" "length out \<le> sum_list ns"
  shows "\<exists>b. epoll_out cx (map Sent ns) i m = Inr (out, set_obj i (s\<lparr>ns_bufSend := b\<rparr>) m)"
proof -
  let ?b = "ns_bufSend s"
  have b: "cb_read ?b = 0" "0 \<le> cb_write ?b" "cb_ok ?b" using assms(2) by (auto simp: ring_holds_def cb_ok_def)
  have out: "out = blk 0 (nat (cb_write ?b)) (cb_buffer ?b)" using assms(2) b by (auto simp: ring_holds_def pending_def)
  then have w: "0 < cb_write ?b" using assms(3) b(2) by (cases "cb_write ?b = 0") auto
  have len: "int (length out) = cb_write ?b"
    using assms(2) b length_pending [OF b(3)] by (simp add: ring_holds_def GetLeftBuffSize_def IsNormal_def)
  have r: "IsEmpty ?b = False" "ReadSendBuff ?b = (eNetSuccess, Some (0, cb_write ?b), ?b)"
    using b w by (simp_all add: IsEmpty_def ReadSendBuff_def IsReadOverAgain_def IsNormal_def GetReadLen_def Let_def)
  have "send_chunks (map Sent ns) 0 (cb_write ?b) = (None, cb_write ?b)"
    using assms(4,5) len w by (intro send_all) auto
  then have "Session_Send (map Sent ns) s = (eNetSuccess, out, s\<lparr>ns_bufSend := HadRead (cb_write ?b) ?b\<rparr>)"
    by (simp add: Session_Send_def r Let_def out [symmetric])
  then show ?thesis by (auto simp: epoll_out_def assms(1) Let_def eNetSuccess_def eSocketClose_def)
qed

section \<open>The whole exchange\<close>

text \<open>The network cuts a stream into pieces of these sizes, and a last one.\<close>

fun cut :: "nat list \<Rightarrow> 'a list \<Rightarrow> 'a list list" where
  "cut ks [] = []"
| "cut [] xs = [xs]"
| "cut (k # ks) xs = (if k = 0 then cut ks xs else take k xs # cut ks (drop k xs))"

lemma cut_pieces [simp]: "concat (cut ks xs) = xs" "[] \<notin> set (cut ks xs)"
  by (induction ks xs rule: cut.induct) auto

text \<open>
  One server connects, its socket takes the first packet, the other accepts, gets it in some pieces,
  answers, and the answer comes back in pieces.
\<close>

definition handshake ::
  "net_context \<Rightarrow> net_context \<Rightarrow> (char list \<Rightarrow> u32) \<Rightarrow> int \<Rightarrow> u8 \<Rightarrow> u8 \<Rightarrow> request_conn \<Rightarrow> request_listen \<Rightarrow> nat list \<Rightarrow> nat list \<Rightarrow>
     session_mgr \<Rightarrow> session_mgr \<Rightarrow> fault + session_mgr \<times> session_mgr" where
  "handshake cx cx' ip_of now l l' rc rl ns ks m m' =
     rbind (connect_request cx True True now l rc (opened (rc_fd rc) m)) (\<lambda>m.
     rbind (deref (sm_epollPtr m (rc_fd rc))) (\<lambda>i.
     rbind (epoll_out cx (map Sent ns) i m) (\<lambda>(out, m).
     rbind (accept_request cx' ip_of True now l' rl (opened (rl_fd rl) m')) (\<lambda>m'.
     rbind (deref (sm_epollPtr m' (rl_fd rl))) (\<lambda>i'.
     rbind (epoll_in cx' True now (map Arrived (cut ks out)) i' m') (\<lambda>(ms', m').
     rbind (epoll_out cx' (map Sent ns) i' m') (\<lambda>(out', m').
     rbind (epoll_in cx True now (map Arrived (cut ks out')) i m) (\<lambda>(ms, m).
     Inr (m, m')))))))))"

text \<open>A loop has an established session with this peer, and has reported it to the server's handler.\<close>

definition linked :: "net_context \<Rightarrow> int \<Rightarrow> u16 \<Rightarrow> u8 \<Rightarrow> session_mgr \<Rightarrow> bool" where
  "linked cx fd rid rtype m \<longleftrightarrow> map_of (sm_session m) fd \<noteq> None \<and> map_of (sm_timeOutSe m) fd = None \<and>
     GetRemoteID fd m = rid \<and> GetRemoteType fd m = rtype \<and>
     last (sm_errs m) = built fd (sv_local_id (cx_server cx)) (sv_local_type (cx_server cx)) rid rtype (se_addr (last (sm_errs m)))"

lemma joined_linked:
  assumes "waits cx fd i s q m" "joined cx fd i s rid rtype fs q' out m r" "0 \<le> fd"
  shows "\<exists>ms s' m1. r = Inr (ms, m1) \<and> sm_obj m1 i = Some s' \<and> ring_holds out (ns_bufSend s') \<and> (\<forall>b. linked cx fd rid rtype (set_obj i (s'\<lparr>ns_bufSend := b\<rparr>) m1)) \<and>
    linked cx fd rid rtype m1"
proof -
  let ?err = "built fd (sv_local_id (cx_server cx)) (sv_local_type (cx_server cx)) rid rtype (reported_addr (sv_be (cx_server cx)) (ns_addr s))"
  obtain ms s' where r: "r = Inr (ms, set_obj i s' (SystemErr ?err (establish fd i m)))" "ns_remoteID s' = rid" "ns_remoteType s' = rtype"
      "ring_holds out (ns_bufSend s')"
    using assms(2) by (auto simp: joined_def)
  have l: "linked cx fd rid rtype (set_obj i t (SystemErr ?err (establish fd i m)))" if "ns_remoteID t = rid" "ns_remoteType t = rtype" for t
    using that assms(3) waitsD(2) [OF assms(1)]
    by (auto simp: linked_def SystemErr_def GetRemoteID_def GetRemoteType_def GetSession_def find_session_def set_obj_def built_def)
  show ?thesis
    using r l [of s'] l [of "s'\<lparr>ns_bufSend := b\<rparr>" for b]
    by (intro exI [of _ ms] exI [of _ s'] exI [of _ "set_obj i s' (SystemErr ?err (establish fd i m))"]) simp
qed

text \<open>
  C2. Two servers whose configurations name each other build a connection, from any states their
  loops can be in: however the sockets take the bytes and the network cuts them, both sides end
  with an established session for the other, know its number and its type, and report the new
  channel. Nothing in the exchange fails or has to wait for a timeout.
\<close>

theorem servers_handshake:
  assumes "configs_fit cx cx' conf conf'" "mgr_reach cx m" "mgr_reach cx' m'"
    and "GetConnConfig cx (uint (rc_index rc)) = Inr conf" "GetAccConfig cx' (uint (rl_index rl)) = Inr conf'"
    and "0 < cc_keep_time conf" "0 < cc_keep_time conf'"
    and "rc_fd rc \<notin> set (sm_open m)" "0 \<le> rc_fd rc" "rc_fd rc < MAX_EPOLL_EVENT"
    and "rl_fd rl \<notin> set (sm_open m')" "0 \<le> rl_fd rl" "rl_fd rl < MAX_EPOLL_EVENT"
    and "\<forall>n \<in> set ns. 0 < n" "64 \<le> sum_list ns"
  shows "\<exists>m1 m1'. handshake cx cx' ip_of now l l' rc rl ns ks m m' = Inr (m1, m1') \<and>
    linked cx (rc_fd rc) (sv_local_id (cx_server cx')) (sv_local_type (cx_server cx')) m1 \<and>
    linked cx' (rl_fd rl) (sv_local_id (cx_server cx)) (sv_local_type (cx_server cx)) m1'"
proof -
  let ?be = "sv_be (cx_server cx)" and ?fd = "rc_fd rc" and ?fd' = "rl_fd rl"
  let ?i = "sm_next m" and ?i' = "sm_next m'"
  let ?out = "wire_frame ?be (hello_packet ?be conf)"
  let ?out' = "wire_frame ?be (answer_packet (cc_security conf) (cc_local_id conf) (cc_local_type conf) (cc_local_type conf'))"
  note fit = assms(1) [unfolded configs_fit_def]
  have short: "length ?out \<le> sum_list ns" "length ?out' \<le> sum_list ns" "?out \<noteq> []" "?out' \<noteq> []"
    using assms(15) wire_frame_nonempty by (auto simp: hello_packet_def answer_packet_def packet_of_def packet_body_def body_def HEADER_SIZE_def)
  obtain m1 s where c: "connect_request cx True True now l rc (opened ?fd m) = Inr m1" "waits cx ?fd ?i s [] m1"
      "ns_security s = cc_security conf" "GetConnConfig cx (ns_flag s div 2 ^ 16) = Inr conf" "ring_holds ?out (ns_bufSend s)" "sm_epollPtr m1 ?fd = Some ?i"
    using connect_waits [OF reach_ok [OF assms(2)] assms(8-10,6,1,4)] by blast
  obtain b where o: "epoll_out cx (map Sent ns) ?i m1 = Inr (?out, set_obj ?i (s\<lparr>ns_bufSend := b\<rparr>) m1)"
    using epoll_out_all [OF waitsD(3) [OF c(2)] c(5) short(3) assms(14) short(1)] by blast
  let ?s = "s\<lparr>ns_bufSend := b\<rparr>"
  have w: "waits cx ?fd ?i ?s [] (set_obj ?i ?s m1)" by (rule waits_send [OF c(2)])
  have md: "md5_mem_ok (sv_md5 (cx_server cx'))" using fit by simp
  obtain m1' s' where a: "accept_request cx' ip_of True now l' rl (opened ?fd' m') = Inr m1'" "waits cx' ?fd' ?i' s' [] m1'"
      "ns_security s' = cc_security conf'" "GetAccConfig cx' (ns_flag s' div 2 ^ 16) = Inr conf'" "sm_epollPtr m1' ?fd' = Some ?i'"
    using accept_waits [OF reach_ok [OF assms(3)] assms(11-13,7) md assms(5)] by blast
  have ps: "packet_stream ?be s' [] (cut ks ?out) (hello_packet ?be conf) [] []" by (simp add: packet_stream_def partial_nil)
  obtain ms' s2' m2' where j: "epoll_in cx' True now (map Arrived (cut ks ?out)) ?i' m1' = Inr (ms', m2')" "sm_obj m2' ?i' = Some s2'"
      "ring_holds ?out' (ns_bufSend s2')"
      "\<forall>b. linked cx' ?fd' (cc_local_id conf) (cc_local_type conf) (set_obj ?i' (s2'\<lparr>ns_bufSend := b\<rparr>) m2')"
    using joined_linked [OF a(2) accept_hello [OF assms(1) a(2-4) ps] assms(12)] by blast
  obtain b' where o': "epoll_out cx' (map Sent ns) ?i' m2' = Inr (?out', set_obj ?i' (s2'\<lparr>ns_bufSend := b'\<rparr>) m2')"
    using epoll_out_all [OF j(2,3) short(4) assms(14) short(2)] by blast
  have ps': "packet_stream ?be ?s [] (cut ks ?out') (answer_packet (cc_security conf) (cc_local_id conf) (cc_local_type conf) (cc_local_type conf')) [] []"
    by (simp add: packet_stream_def partial_nil)
  have s: "ns_security ?s = cc_security conf" "GetConnConfig cx (ns_flag ?s div 2 ^ 16) = Inr conf" using c(3,4) by simp_all
  obtain ms m2 where k: "epoll_in cx True now (map Arrived (cut ks ?out')) ?i (set_obj ?i ?s m1) = Inr (ms, m2)"
      "linked cx ?fd (co_remote_id conf) (co_remote_type conf) m2"
    using joined_linked [OF w connect_answer [OF assms(1) w s ps'] assms(9)] by blast
  have "handshake cx cx' ip_of now l l' rc rl ns ks m m' = Inr (m2, set_obj ?i' (s2'\<lparr>ns_bufSend := b'\<rparr>) m2')"
    by (simp add: handshake_def c(1,6) o a(1,5) j(1) o' k(1))
  then show ?thesis using k(2) j(4) fit by (metis (no_types))
qed

theorem servers_handshake_witness:
  "\<exists>m1 m1'. handshake (demo_context 1 1) (demo_context 7 2) (\<lambda>_. 0) 0 0 0 \<lparr>rc_fd = 5, rc_index = 0\<rparr> demo_request [10, 100] [3, 30]
      (CSessionMgr_new 0) (CSessionMgr_new 0) = Inr (m1, m1') \<and>
    linked (demo_context 1 1) 5 7 2 m1 \<and> linked (demo_context 7 2) 9 1 1 m1'"
proof -
  let ?conf = "hd (cx_connAdded (demo_context 1 1))" and ?conf' = "hd (cx_acceptAdded (demo_context 7 2))"
  have fit: "configs_fit (demo_context 1 1) (demo_context 7 2) ?conf ?conf'"
    by (simp add: configs_fit_def demo_context_def demo_server_def eMax_def md5_mem_ok_def blank_md5_def)
  have f: "sv_local_id (cx_server (demo_context a b)) = a" "sv_local_type (cx_server (demo_context a b)) = b" for a b
    by (simp_all add: demo_context_def demo_server_def)
  have r: "rl_fd demo_request = 9" by (simp add: demo_request_def)
  show ?thesis
    using servers_handshake [OF fit reach_new [of _ 0] reach_new [of _ 0], of "\<lparr>rc_fd = 5, rc_index = 0\<rparr>" demo_request "[10, 100]" "\<lambda>_. 0" 0 0 0 "[3, 30]"]
    unfolding f r
    by (simp add: GetConnConfig_def GetAccConfig_def rd_def demo_context_def demo_request_def CSessionMgr_new_def MAX_EPOLL_EVENT_def)
qed

end
