(* ===== verification/ChannelEvents.thy ===== *)
theory ChannelEvents
  imports EpollLoop
begin

text \<open>
  News of the connections travel to the application as messages: \<open>Context::SystemErr\<close> of
  \<open>CommBase/Network/Context.cpp\<close> writes a \<open>SystemMessageCon\<close> (36 bytes) into the body of a message,
  and \<open>DispatchBase::Dispatch\<close> of \<open>DispatchMessage.cpp\<close> reads it again. An address is its ip
  in network order and its port; \<open>ip_of\<close> stands for \<open>inet_addr\<close>.
\<close>

section \<open>Writing an event\<close>

definition eConnErr :: int where "eConnErr = 4"
definition eGetSocketErr :: int where "eGetSocketErr = 8"
definition eSetSocketErr :: int where "eSetSocketErr = 9"
definition eAddSeTimeoutErr :: int where "eAddSeTimeoutErr = 11"
definition eSessionAdded :: int where "eSessionAdded = 12"
definition eNotTimeOut :: int where "eNotTimeOut = 13"
definition eConnFailMessage :: u32 where "eConnFailMessage = 0"
definition eConnErrMessage :: u32 where "eConnErrMessage = 1"
definition eConnBuildSuccess :: u32 where "eConnBuildSuccess = 2"

text \<open>An error of no group is given no event.\<close>

definition event_id :: "int \<Rightarrow> u32" where
  "event_id err =
     (if err \<in> {eConnErr, eAddSeTimeoutErr, eGetSocketErr, eSetSocketErr, eCtlEpollErr, eSessionAdded, eNotTimeOut}
      then eConnFailMessage
      else if err \<in> {eEpollClose, eEpollNull, eConMessageErr, eConnPacketErr, eSessionTimeout, eSocketClose}
      then eConnErrMessage
      else if err = eNetSuccess then eConnBuildSuccess
      else - 1)"

text \<open>\<open>inet_ntoa\<close> of an address as it lies in memory.\<close>

definition GetIPToString :: "bool \<Rightarrow> u32 \<Rightarrow> string" where
  "GetIPToString be ip =
     (let n = \<lambda>i. show_nat (nat_char (mem_image be 4 ip ! i))
      in n 0 @ ''.'' @ n 1 @ ''.'' @ n 2 @ ''.'' @ n 3)"

definition con_size :: nat where "con_size = 36"

text \<open>The structure is cleared before it is filled, so the bytes between its members are zero.\<close>

definition con_image :: "bool \<Rightarrow> system_err \<Rightarrow> string \<Rightarrow> fault + char list" where
  "con_image be e ip =
     rbind (SafeMemmove 0 16 (ip @ [NUL]) (int (length ip)) (replicate 16 NUL)) (\<lambda>(res, host).
     Inr (mem_image be 4 (word_of_int (se_fd e) :: u32) @ mem_image be 2 (se_lid e) @ [char_of_byte (se_ltype e), NUL] @
       mem_image be 2 (se_rid e) @ [char_of_byte (se_rtype e), NUL] @ mem_image be 4 (word_of_int (se_err e) :: u32) @
       host @ mem_image be 2 (snd (se_addr e)) @ [NUL, NUL]))"

definition SystemErr_message :: "bool \<Rightarrow> (nat \<Rightarrow> char) \<Rightarrow> system_err \<Rightarrow> fault + net_message" where
  "SystemErr_message be old e =
     rbind (con_image be e (GetIPToString be (fst (se_addr e)))) (\<lambda>content.
     rbind (SafeMemmove 0 128 content (int con_size) (replicate 128 NUL)) (\<lambda>(res, con).
     rbind (SetContent old con (int con_size) ((Message_plain old)\<lparr>nm_messageID := event_id (se_err e)\<rparr>)) (\<lambda>m.
     Inr (m\<lparr>nm_messageType := SystemMessage\<rparr>))))"

section \<open>Reading an event\<close>

datatype channel_event =
    on_connect_failed int u16 u8 u16 u8 int "u32 \<times> u16"
  | on_channel_error int u16 u8 u16 u8 int "u32 \<times> u16"
  | on_new_channel_build int u16 u8 u16 u8 "u32 \<times> u16"

text \<open>
  The local \<open>connContent\<close> is not cleared: a body that is too long is not copied, and one
  that is too short leaves the rest as it was. The text of the address ends at its zero byte.
\<close>

definition event_of :: "bool \<Rightarrow> (nat \<Rightarrow> char) \<Rightarrow> (string \<Rightarrow> u32) \<Rightarrow> net_message \<Rightarrow> fault + channel_event option" where
  "event_of be old ip_of m =
     rbind (SafeMemmove 0 (int con_size) (nm_content m) (nm_length m) (junk old con_size)) (\<lambda>(res, con).
     if NUL \<notin> set (drop 16 con) then Inl OutOfBounds
     else let channel = sint (load be (blk 0 4 con) :: u32); lid = load be (blk 4 2 con); ltype = byte_of_char (con ! 6);
              rid = load be (blk 8 2 con); rtype = byte_of_char (con ! 10); err = sint (load be (blk 12 4 con) :: u32);
              addr = (ip_of (cstr (drop 16 con)), load be (blk 32 2 con))
       in Inr (if nm_messageID m = eConnFailMessage then Some (on_connect_failed channel lid ltype rid rtype err addr)
               else if nm_messageID m = eConnErrMessage then Some (on_channel_error channel lid ltype rid rtype err addr)
               else if nm_messageID m = eConnBuildSuccess then Some (on_new_channel_build channel lid ltype rid rtype addr)
               else None))"

section \<open>What is written is read\<close>

definition event_for :: "system_err \<Rightarrow> channel_event option" where
  "event_for e =
     (if event_id (se_err e) = eConnFailMessage
        then Some (on_connect_failed (se_fd e) (se_lid e) (se_ltype e) (se_rid e) (se_rtype e) (se_err e) (se_addr e))
      else if event_id (se_err e) = eConnErrMessage
        then Some (on_channel_error (se_fd e) (se_lid e) (se_ltype e) (se_rid e) (se_rtype e) (se_err e) (se_addr e))
      else if event_id (se_err e) = eConnBuildSuccess
        then Some (on_new_channel_build (se_fd e) (se_lid e) (se_ltype e) (se_rid e) (se_rtype e) (se_addr e))
      else None)"

lemma length_ip: "length (GetIPToString be ip) \<le> 15" "GetIPToString be ip \<noteq> []"
proof -
  have "length (show_nat (nat_char c)) \<le> 3" for c
    using length_show_nat [of "nat_char c" 2] nat_char_less [of c] by simp
  from this [of "mem_image be 4 ip ! 0"] this [of "mem_image be 4 ip ! 1"] this [of "mem_image be 4 ip ! 2"]
    this [of "mem_image be 4 ip ! 3"]
  show "length (GetIPToString be ip) \<le> 15" by (simp add: GetIPToString_def Let_def)
  show "GetIPToString be ip \<noteq> []" by (simp add: GetIPToString_def Let_def)
qed

lemma ip_no_NUL: "NUL \<notin> set (GetIPToString be ip)"
proof -
  have "NUL \<notin> set (show_nat n)" for n
    using show_nat_digits [of n] by (auto simp: list_all_iff is_digit_def nat_char_def)
  then show ?thesis by (simp add: GetIPToString_def Let_def)
qed


text \<open>The structure for an address as \<open>inet_ntoa\<close> prints it.\<close>

definition con_bytes :: "bool \<Rightarrow> system_err \<Rightarrow> char list" where
  "con_bytes be e = (let ip = GetIPToString be (fst (se_addr e)) in
     mem_image be 4 (word_of_int (se_fd e) :: u32) @ mem_image be 2 (se_lid e) @ [char_of_byte (se_ltype e), NUL] @
     mem_image be 2 (se_rid e) @ [char_of_byte (se_rtype e), NUL] @ mem_image be 4 (word_of_int (se_err e) :: u32) @
     ip @ replicate (16 - length ip) NUL @ mem_image be 2 (snd (se_addr e)) @ [NUL, NUL])"

lemma length_con_bytes [simp]: "length (con_bytes be e) = con_size"
  using length_ip [of be "fst (se_addr e)"] by (simp add: con_bytes_def Let_def con_size_def)

lemma con_image_ok: "con_image be e (GetIPToString be (fst (se_addr e))) = Inr (con_bytes be e)"
proof -
  let ?ip = "GetIPToString be (fst (se_addr e))"
  have "SafeMemmove 0 16 (?ip @ [NUL]) (int (length ?ip)) (replicate 16 NUL) = Inr (0, put 0 ?ip (replicate 16 NUL))"
    using length_ip [of be "fst (se_addr e)"] SafeMemmove_ok [of "int (length ?ip)" 16 "?ip @ [NUL]" 0 "replicate 16 NUL"] by simp
  then show ?thesis
    using length_ip [of be "fst (se_addr e)"] by (simp add: con_image_def con_bytes_def Let_def put_def)
qed

lemma SystemErr_message_ok:
  "\<exists>m tl. SystemErr_message be old e = Inr m \<and> nm_messageType m = SystemMessage \<and> nm_messageID m = event_id (se_err e) \<and>
     nm_length m = int con_size \<and> nm_errno m = 0 \<and> nm_content m = con_bytes be e @ tl"
proof -
  let ?b = "con_bytes be e"
  have 1: "SafeMemmove 0 128 ?b (int con_size) (replicate 128 NUL) = Inr (0, ?b @ replicate 92 NUL)"
    using SafeMemmove_ok [of "int con_size" 128 ?b 0 "replicate 128 NUL"] length_con_bytes [of be e]
    by (simp add: con_size_def put_def)
  let ?m = "(Message_plain old)\<lparr>nm_messageID := event_id (se_err e)\<rparr>"
  have "SafeMemmove 0 (int con_size) (?b @ replicate 92 NUL) (int con_size) (nm_content ?m) =
      Inr (0, put 0 ?b (nm_content ?m))"
    using SafeMemmove_ok [of "int con_size" "int con_size" "?b @ replicate 92 NUL" 0 "nm_content ?m"] length_con_bytes [of be e]
    by (simp add: con_size_def Message_plain_def MAX_RECV_MSG_CONTENT_SIZE_def)
  then have "SetContent old (?b @ replicate 92 NUL) (int con_size) ?m =
      Inr (?m\<lparr>nm_content := put 0 ?b (nm_content ?m), nm_length := int con_size\<rparr>)"
    by (simp add: SetContent_def c_int_def con_size_def HEADER_SIZE_def MAX_MSG_PACKET_SIZE_def MAX_RECV_MSG_CONTENT_SIZE_def)
  with 1 show ?thesis
    by (simp add: SystemErr_message_def con_image_ok put_def Message_plain_def)
qed

lemma con_bytes_fields:
  fixes be e
  defines "con \<equiv> con_bytes be e"
  shows "blk 0 4 con = mem_image be 4 (word_of_int (se_fd e) :: u32)" "blk 4 2 con = mem_image be 2 (se_lid e)"
    "con ! 6 = char_of_byte (se_ltype e)" "blk 8 2 con = mem_image be 2 (se_rid e)" "con ! 10 = char_of_byte (se_rtype e)"
    "blk 12 4 con = mem_image be 4 (word_of_int (se_err e) :: u32)" "blk 32 2 con = mem_image be 2 (snd (se_addr e))"
    "NUL \<in> set (drop 16 con)" "cstr (drop 16 con) = GetIPToString be (fst (se_addr e))"
proof -
  let ?ip = "GetIPToString be (fst (se_addr e))"
  note len = length_ip [of be "fst (se_addr e)"]
  show "blk 0 4 con = mem_image be 4 (word_of_int (se_fd e) :: u32)" "blk 4 2 con = mem_image be 2 (se_lid e)"
    "con ! 6 = char_of_byte (se_ltype e)" "blk 8 2 con = mem_image be 2 (se_rid e)" "con ! 10 = char_of_byte (se_rtype e)"
    "blk 12 4 con = mem_image be 4 (word_of_int (se_err e) :: u32)"
    by (simp_all add: con_def con_bytes_def Let_def blk_def nth_append nth_Cons')
  have "replicate (16 - length ?ip) NUL = NUL # replicate (15 - length ?ip) NUL"
    using len by (simp add: Suc_diff_le flip: replicate_Suc)
  then have d: "drop 16 con = ?ip @ NUL # replicate (15 - length ?ip) NUL @ mem_image be 2 (snd (se_addr e)) @ [NUL, NUL]"
    by (simp add: con_def con_bytes_def Let_def)
  then show "NUL \<in> set (drop 16 con)" "cstr (drop 16 con) = ?ip" using ip_no_NUL by simp_all
  have "blk 32 2 con = take 2 (drop 16 (drop 16 con))" by (simp add: blk_def)
  moreover have "drop 16 con = (?ip @ replicate (16 - length ?ip) NUL) @ mem_image be 2 (snd (se_addr e)) @ [NUL, NUL]"
    by (simp add: con_def con_bytes_def Let_def)
  ultimately show "blk 32 2 con = mem_image be 2 (snd (se_addr e))" using len by simp
qed

lemma event_of_con:
  assumes "nm_content m = con_bytes be e @ r" "nm_length m = int con_size" "nm_messageID m = event_id (se_err e)"
    and "ip_of (GetIPToString be (fst (se_addr e))) = fst (se_addr e)"
    and "- (2 ^ 31) \<le> se_fd e" "se_fd e < 2 ^ 31" "- (2 ^ 31) \<le> se_err e" "se_err e < 2 ^ 31"
  shows "event_of be old ip_of m = Inr (event_for e)"
proof -
  have "SafeMemmove 0 (int con_size) (nm_content m) (nm_length m) (junk old con_size) = Inr (0, con_bytes be e)"
    using SafeMemmove_ok [of "int con_size" "int con_size" "nm_content m" 0 "junk old con_size"] assms(1,2) length_con_bytes [of be e]
    by (simp add: con_size_def put_def)
  moreover have "sint (word_of_int (se_fd e) :: u32) = se_fd e" "sint (word_of_int (se_err e) :: u32) = se_err e"
    using sint_of_int assms(5-8) by blast+
  ultimately show ?thesis
    by (simp add: event_of_def con_bytes_fields event_for_def assms(3,4) Let_def byte_of_char_of_byte)
qed

text \<open>
  C12. What the network layer reports with \<open>SystemErr\<close> (a built, failed or broken connection) arrives at
  the service handler as the event of its kind, with the same channel, ids, error and address; an error of
  no group arrives as nothing. \<open>inet_addr\<close> reads what \<open>inet_ntoa\<close> has printed.
\<close>

theorem channel_event_roundtrip:
  assumes "ip_of (GetIPToString be (fst (se_addr e))) = fst (se_addr e)"
    and "- (2 ^ 31) \<le> se_fd e" "se_fd e < 2 ^ 31" "- (2 ^ 31) \<le> se_err e" "se_err e < 2 ^ 31"
  shows "\<exists>m. SystemErr_message be old e = Inr m \<and> nm_messageType m = SystemMessage \<and>
    event_of be old' ip_of m = Inr (event_for e)"
proof -
  obtain m tl where m: "SystemErr_message be old e = Inr m" "nm_messageType m = SystemMessage"
    "nm_messageID m = event_id (se_err e)" "nm_length m = int con_size" "nm_content m = con_bytes be e @ tl"
    using SystemErr_message_ok [of be old e] by auto
  have "event_of be old' ip_of m = Inr (event_for e)"
    by (rule event_of_con) (use m(3-5) assms in \<open>assumption | simp\<close>)+
  then show ?thesis using m(1,2) by blast
qed

definition lost_connection :: system_err where
  "lost_connection = \<lparr>se_fd = 7, se_lid = 1, se_ltype = 2, se_rid = 3, se_rtype = 4, se_err = eSocketClose,
     se_addr = (0x0100007F, 9000)\<rparr>"

theorem channel_event_roundtrip_witness:
  "\<exists>m. SystemErr_message False (\<lambda>_. CHR ''x'') lost_connection = Inr m \<and> nm_messageType m = SystemMessage \<and>
     event_of False (\<lambda>_. CHR ''y'') (\<lambda>_. 0x0100007F) m = Inr (Some (on_channel_error 7 1 2 3 4 23 (0x0100007F, 9000)))"
  using channel_event_roundtrip [of "\<lambda>_. 0x0100007F" False lost_connection "\<lambda>_. CHR ''x''" "\<lambda>_. CHR ''y''"]
  by (simp add: lost_connection_def event_for_def event_id_def eSocketClose_def eConnErr_def eAddSeTimeoutErr_def
      eGetSocketErr_def eSetSocketErr_def eCtlEpollErr_def eSessionAdded_def eNotTimeOut_def eEpollClose_def eEpollNull_def
      eConMessageErr_def eConnPacketErr_def eSessionTimeout_def eConnErrMessage_def eConnFailMessage_def)

end
