(* ===== verification/Dispatcher.thy ===== *)
theory Dispatcher
  imports ChannelEvents
begin

text \<open>
  The dispatcher between the network and the application: \<open>CommBase/Network/DispatchMessage.cpp\<close>, the
  handler tables of \<open>Service_Handler.cpp\<close>, and sending (\<open>Message_Facade.cpp\<close>). Handlers are
  the application's: \<open>dv_react\<close> gives the messages a handler sends (with the clock at each) and whether
  it throws, from all calls so far. The clock \<open>now\<close> of a turn is in microseconds.
\<close>

section \<open>State\<close>

definition SimpleMessage :: u8 where "SimpleMessage = 1"
definition Request :: u8 where "Request = 2"
definition Ack :: u8 where "Ack = 3"
definition eTokenErr :: int where "eTokenErr = 26"
definition eReqTimeOut :: int where "eReqTimeOut = 27"
definition eInitDispatchErr :: int where "eInitDispatchErr = 35"
definition MAX_EPOLL_fd :: int where "MAX_EPOLL_fd = 10000"

text \<open>The tables are vectors of pointers, indexed by the message number.\<close>

record 'h handler_mgr =
  hm_message :: "'h option list"
  hm_request :: "'h option list"
  hm_ack :: "'h option list"

record ack_item =
  ai_token :: int
  ai_req :: net_message
  ai_time :: int

record dispatcher =
  dp_deque :: "net_message list"
  dp_sendDeque :: "(int \<times> net_message list) list"
  dp_timeOut :: "(int \<times> ack_item) list"
  dp_token :: int
  dp_timeNow :: int
  dp_index :: int

datatype 'h delivery =
    Handle_Message 'h net_message
  | Handle_Request 'h net_message
  | Handle_Ack 'h net_message "net_message option"
  | Service channel_event

text \<open>\<open>dm_calls\<close>: the calls made so far, each with the number of the dispatcher that made it.\<close>

record 'h dispatch_mgr =
  dm_all :: "dispatcher list"
  dm_index :: int
  dm_blockThread :: int
  dm_calls :: "(nat \<times> 'h delivery) list"

record 'h service =
  dv_handlers :: "'h handler_mgr"
  dv_react :: "(nat \<times> 'h delivery) list \<Rightarrow> nat \<times> 'h delivery \<Rightarrow> (int \<times> net_message) list \<times> bool"
  dv_be :: bool
  dv_old :: "nat \<Rightarrow> char"
  dv_ip_of :: "string \<Rightarrow> u32"

section \<open>Handler tables\<close>

definition HandlerManager_new :: "'h handler_mgr" where
  "HandlerManager_new = \<lparr>hm_message = replicate (32 * 1024) None, hm_request = replicate (32 * 1024) None,
     hm_ack = replicate (32 * 1024) None\<rparr>"

definition RegisterMessageHandler :: "u32 \<Rightarrow> 'h option \<Rightarrow> 'h handler_mgr \<Rightarrow> fault + int \<times> 'h handler_mgr" where
  "RegisterMessageHandler key h m = (if key \<ge> 32 * 1024 then Inr (- 1, m)
     else rbind (wr (hm_message m) (unat key) h) (\<lambda>t. Inr (eNetSuccess, m\<lparr>hm_message := t\<rparr>)))"

definition RegisterRequestHandler :: "u32 \<Rightarrow> 'h option \<Rightarrow> 'h handler_mgr \<Rightarrow> fault + int \<times> 'h handler_mgr" where
  "RegisterRequestHandler key h m = (if key \<ge> 32 * 1024 then Inr (- 1, m)
     else rbind (wr (hm_request m) (unat key) h) (\<lambda>t. Inr (eNetSuccess, m\<lparr>hm_request := t\<rparr>)))"

definition RegisterAckHandler :: "u32 \<Rightarrow> 'h option \<Rightarrow> 'h handler_mgr \<Rightarrow> fault + int \<times> 'h handler_mgr" where
  "RegisterAckHandler key h m = (if key \<ge> 32 * 1024 then Inr (- 1, m)
     else rbind (wr (hm_ack m) (unat key) h) (\<lambda>t. Inr (eNetSuccess, m\<lparr>hm_ack := t\<rparr>)))"

definition GetMessageHandler :: "u32 \<Rightarrow> 'h handler_mgr \<Rightarrow> 'h option" where
  "GetMessageHandler key m = (if unat key \<ge> length (hm_message m) then None else hm_message m ! unat key)"

definition GetRequestHandler :: "u32 \<Rightarrow> 'h handler_mgr \<Rightarrow> 'h option" where
  "GetRequestHandler key m = (if unat key \<ge> length (hm_request m) then None else hm_request m ! unat key)"

definition GetAckHandler :: "u32 \<Rightarrow> 'h handler_mgr \<Rightarrow> 'h option" where
  "GetAckHandler key m = (if unat key \<ge> length (hm_ack m) then None else hm_ack m ! unat key)"

section \<open>Queues and requests\<close>

definition DispatchBase_new :: dispatcher where
  "DispatchBase_new = \<lparr>dp_deque = [], dp_sendDeque = [], dp_timeOut = [], dp_token = 1, dp_timeNow = 0, dp_index = - 1\<rparr>"

definition dp_AddMessage :: "net_message \<Rightarrow> dispatcher \<Rightarrow> dispatcher" where
  "dp_AddMessage msg d = d\<lparr>dp_deque := dp_deque d @ [msg]\<rparr>"

definition dp_AddMessages :: "net_message list \<Rightarrow> dispatcher \<Rightarrow> dispatcher" where
  "dp_AddMessages msgs d = d\<lparr>dp_deque := dp_deque d @ msgs\<rparr>"

text \<open>\<open>m_token++\<close> of the largest \<open>int\<close> is undefined; the check for a negative number comes after it.\<close>

definition GetToken :: "dispatcher \<Rightarrow> fault + int \<times> dispatcher" where
  "GetToken d = rbind (c_int (dp_token d + 1)) (\<lambda>next.
     if dp_token d < 0 then Inr (1, d\<lparr>dp_token := 2\<rparr>) else Inr (dp_token d, d\<lparr>dp_token := next\<rparr>))"

text \<open>
  The queued message and the one that waits for its answer are one object, which gets the
  number of the request last; so \<open>AddAckTimeOut\<close> returns it. \<open>now\<close> is in milliseconds here.
\<close>

definition AddAckTimeOut :: "int \<Rightarrow> net_message \<Rightarrow> dispatcher \<Rightarrow> fault + net_message \<times> dispatcher" where
  "AddAckTimeOut now msg d = rbind (GetToken d) (\<lambda>(token, d).
     let msg = msg\<lparr>nm_reqID := word_of_int token\<rparr>;
         item = \<lparr>ai_token = token, ai_req = msg, ai_time = now + uint (nm_timeout msg) * 1000\<rparr>
     in Inr (msg, d\<lparr>dp_timeOut := map_put token item (dp_timeOut d)\<rparr>))"

definition AddSendMessage :: "int \<Rightarrow> net_message \<Rightarrow> dispatcher \<Rightarrow> fault + dispatcher" where
  "AddSendMessage now msg d =
     rbind (if nm_messageType msg = Request then AddAckTimeOut now msg d else Inr (msg, d)) (\<lambda>(msg, d).
     let channel = nm_channelID msg
     in Inr (d\<lparr>dp_sendDeque := (case map_of (dp_sendDeque d) channel of
          None \<Rightarrow> map_put channel [msg] (dp_sendDeque d)
        | Some q \<Rightarrow> map_put channel (q @ [msg]) (dp_sendDeque d))\<rparr>))"

definition DelAckTimeOut :: "net_message \<Rightarrow> dispatcher \<Rightarrow> int \<times> net_message option \<times> dispatcher" where
  "DelAckTimeOut msg d = (case map_of (dp_timeOut d) (sint (nm_reqID msg)) of
       Some item \<Rightarrow> (eNetSuccess, Some (ai_req item), d\<lparr>dp_timeOut := map_erase (sint (nm_reqID msg)) (dp_timeOut d)\<rparr>)
     | None \<Rightarrow> (eTokenErr, None, d))"

section \<open>The dispatchers of a process\<close>

definition DispatchMgr_new :: "'h dispatch_mgr" where
  "DispatchMgr_new = \<lparr>dm_all = [], dm_index = 0, dm_blockThread = 1, dm_calls = []\<rparr>"

text \<open>\<open>started\<close>: for each dispatcher, whether its thread could be created.\<close>

primrec init_dispatchers :: "nat \<Rightarrow> nat \<Rightarrow> (nat \<Rightarrow> bool) \<Rightarrow> 'h dispatch_mgr \<Rightarrow> int \<times> 'h dispatch_mgr" where
  "init_dispatchers 0 i started m = (eNetSuccess, m)"
| "init_dispatchers (Suc n) i started m =
     (if started i then init_dispatchers n (i + 1) started
        (m\<lparr>dm_all := dm_all m @ [DispatchBase_new\<lparr>dp_index := int i\<rparr>]\<rparr>)
      else (eInitDispatchErr, m))"

definition DispatchMgr_Init :: "int \<Rightarrow> (nat \<Rightarrow> bool) \<Rightarrow> 'h dispatch_mgr \<Rightarrow> int \<times> 'h dispatch_mgr" where
  "DispatchMgr_Init count started m =
     (let count = (if count \<le> 0 then 1 else count)
      in init_dispatchers (nat count) 0 started (m\<lparr>dm_blockThread := count\<rparr>))"

text \<open>The dispatcher of a channel; a negative number is first taken as a \<open>size_t\<close>.\<close>

definition GetDispatch :: "int \<Rightarrow> 'h dispatch_mgr \<Rightarrow> fault + nat" where
  "GetDispatch channel m = (if dm_all m = [] then Inl DivZero
     else Inr (nat (usize channel mod int (length (dm_all m)))))"

definition GetDispatch_next :: "'h dispatch_mgr \<Rightarrow> fault + nat \<times> 'h dispatch_mgr" where
  "GetDispatch_next m =
     (let i = dm_index m; m = m\<lparr>dm_index := (if i + 1 \<ge> dm_blockThread m then 0 else i + 1)\<rparr>
      in if 0 \<le> i \<and> nat i < length (dm_all m) then Inr (nat i, m) else Inl OutOfBounds)"

definition set_dispatcher :: "nat \<Rightarrow> dispatcher \<Rightarrow> 'h dispatch_mgr \<Rightarrow> 'h dispatch_mgr" where
  "set_dispatcher i d m = m\<lparr>dm_all := (dm_all m)[i := d]\<rparr>"

text \<open>A message without a channel of this process is not sent. \<open>now\<close> is in milliseconds.\<close>

definition Send :: "int \<Rightarrow> net_message \<Rightarrow> 'h dispatch_mgr \<Rightarrow> fault + 'h dispatch_mgr" where
  "Send now msg m =
     (if nm_channelID msg < 0 \<or> nm_channelID msg \<ge> MAX_EPOLL_fd then Inr m
      else rbind (GetDispatch (nm_channelID msg) m) (\<lambda>j. rbind (rd (dm_all m) j) (\<lambda>d.
           rbind (AddSendMessage now msg d) (\<lambda>d. Inr (set_dispatcher j d m)))))"

text \<open>What the loops hand over: the messages of one channel.\<close>

definition Receive :: "int \<Rightarrow> net_message list \<Rightarrow> 'h dispatch_mgr \<Rightarrow> fault + 'h dispatch_mgr" where
  "Receive channel msgs m = rbind (GetDispatch channel m) (\<lambda>j. rbind (rd (dm_all m) j) (\<lambda>d.
     Inr (set_dispatcher j (dp_AddMessages msgs d) m)))"

text \<open>\<open>Context::SystemErr\<close>.\<close>

definition Report :: "'h service \<Rightarrow> system_err \<Rightarrow> 'h dispatch_mgr \<Rightarrow> fault + 'h dispatch_mgr" where
  "Report sv e m = rbind (SystemErr_message (dv_be sv) (dv_old sv) e) (\<lambda>msg.
     rbind (GetDispatch (se_fd e) m) (\<lambda>j. rbind (rd (dm_all m) j) (\<lambda>d. Inr (set_dispatcher j (dp_AddMessage msg d) m))))"

section \<open>Dispatching\<close>

primrec send_list :: "(int \<times> net_message) list \<Rightarrow> 'h dispatch_mgr \<Rightarrow> fault + 'h dispatch_mgr" where
  "send_list [] m = Inr m"
| "send_list (x # xs) m = rbind (Send (fst x) (snd x) m) (send_list xs)"

text \<open>A handler is called; the flag tells that it has thrown.\<close>

definition call :: "'h service \<Rightarrow> nat \<Rightarrow> 'h delivery \<Rightarrow> 'h dispatch_mgr \<Rightarrow> fault + bool \<times> 'h dispatch_mgr" where
  "call sv i x m = (case dv_react sv (dm_calls m) (i, x) of (sends, thrown) \<Rightarrow>
     rbind (send_list sends (m\<lparr>dm_calls := dm_calls m @ [(i, x)]\<rparr>)) (\<lambda>m. Inr (thrown, m)))"

text \<open>The message with the request it carries (\<open>m_req\<close>).\<close>

definition Dispatch :: "'h service \<Rightarrow> nat \<Rightarrow> net_message \<times> net_message option \<Rightarrow> 'h dispatch_mgr \<Rightarrow>
    fault + bool \<times> 'h dispatch_mgr" where
  "Dispatch sv i x m = (case x of (msg, req) \<Rightarrow>
     if nm_messageType msg = SimpleMessage then
       (case GetMessageHandler (nm_messageID msg) (dv_handlers sv) of None \<Rightarrow> Inr (False, m)
        | Some h \<Rightarrow> call sv i (Handle_Message h msg) m)
     else if nm_messageType msg = Request then
       (case GetRequestHandler (nm_messageID msg) (dv_handlers sv) of None \<Rightarrow> Inr (False, m)
        | Some h \<Rightarrow> call sv i (Handle_Request h msg) m)
     else if nm_messageType msg = Ack then
       rbind (if nm_errno msg \<noteq> eReqTimeOut
              then rbind (rd (dm_all m) i) (\<lambda>d. case DelAckTimeOut msg d of (res, req', d) \<Rightarrow>
                     Inr (res, (if res \<noteq> 0 then req else req'), set_dispatcher i d m))
              else Inr (eNetSuccess, req, m)) (\<lambda>(res, req, m).
       if res \<noteq> 0 then Inr (False, m)
       else case GetAckHandler (nm_messageID msg) (dv_handlers sv) of None \<Rightarrow> Inr (False, m)
        | Some h \<Rightarrow> call sv i (Handle_Ack h msg req) m)
     else if nm_messageType msg = SystemMessage then
       rbind (event_of (dv_be sv) (dv_old sv) (dv_ip_of sv) msg) (\<lambda>ev.
       case ev of None \<Rightarrow> Inr (False, m) | Some ev \<Rightarrow> call sv i (Service ev) m)
     else Inr (False, m))"

text \<open>Two loops over messages: one is left when a handler throws, the other goes on.\<close>

primrec dispatch_until :: "'h service \<Rightarrow> nat \<Rightarrow> (net_message \<times> net_message option) list \<Rightarrow> 'h dispatch_mgr \<Rightarrow>
    fault + bool \<times> 'h dispatch_mgr" where
  "dispatch_until sv i [] m = Inr (False, m)"
| "dispatch_until sv i (x # xs) m = rbind (Dispatch sv i x m) (\<lambda>(thrown, m).
     if thrown then Inr (True, m) else dispatch_until sv i xs m)"

primrec dispatch_each :: "'h service \<Rightarrow> nat \<Rightarrow> (net_message \<times> net_message option) list \<Rightarrow> 'h dispatch_mgr \<Rightarrow>
    fault + 'h dispatch_mgr" where
  "dispatch_each sv i [] m = Inr m"
| "dispatch_each sv i (x # xs) m = rbind (Dispatch sv i x m) (\<lambda>(thrown, m). dispatch_each sv i xs m)"

section \<open>Requests that were not answered\<close>

definition timeout_message :: "(nat \<Rightarrow> char) \<Rightarrow> ack_item \<Rightarrow> net_message \<times> net_message option" where
  "timeout_message old item =
     (let req = ai_req item;
          m = SetHead (sHeader\<lparr>ph_messageID := nm_messageID req, ph_messageType := Ack,
                ph_remoteType := nm_remoteType req, ph_remoteID := nm_remoteID req\<rparr>)
              ((Message_plain old)\<lparr>nm_errno := eReqTimeOut\<rparr>)
      in (m\<lparr>nm_channelID := nm_channelID req, nm_loopIndex := nm_loopIndex req\<rparr>, Some req))"

definition overdue :: "int \<Rightarrow> int \<times> ack_item \<Rightarrow> bool" where
  "overdue now p \<longleftrightarrow> now \<ge> ai_time (snd p)"

definition take_overdue :: "(nat \<Rightarrow> char) \<Rightarrow> int \<Rightarrow> dispatcher \<Rightarrow> (net_message \<times> net_message option) list \<times> dispatcher" where
  "take_overdue old now d =
     (map (timeout_message old \<circ> snd) (filter (overdue now) (dp_timeOut d)),
      d\<lparr>dp_timeOut := filter (Not \<circ> overdue now) (dp_timeOut d)\<rparr>)"

text \<open>Once a second; the time is only noted when no handler has thrown.\<close>

definition expire :: "'h service \<Rightarrow> nat \<Rightarrow> int \<Rightarrow> 'h dispatch_mgr \<Rightarrow> fault + bool \<times> 'h dispatch_mgr" where
  "expire sv i now m = rbind (rd (dm_all m) i) (\<lambda>d.
     if now div 1000 - dp_timeNow d > 1000 then
       case take_overdue (dv_old sv) (now div 1000) d of (msgs, d) \<Rightarrow>
       rbind (dispatch_until sv i msgs (set_dispatcher i d m)) (\<lambda>(thrown, m).
       if thrown then Inr (True, m)
       else rbind (rd (dm_all m) i) (\<lambda>d. Inr (False, set_dispatcher i (d\<lparr>dp_timeNow := now div 1000\<rparr>) m)))
     else Inr (False, m))"

section \<open>Turns\<close>

text \<open>The queue is taken as a whole; what comes in meanwhile waits for the next turn.\<close>

definition take_queue :: "nat \<Rightarrow> 'h dispatch_mgr \<Rightarrow> fault + (net_message \<times> net_message option) list \<times> 'h dispatch_mgr" where
  "take_queue i m = rbind (rd (dm_all m) i) (\<lambda>d.
     Inr (map (\<lambda>msg. (msg, None)) (dp_deque d), set_dispatcher i (d\<lparr>dp_deque := []\<rparr>) m))"

text \<open>\<open>SingleDispatchThread::ProcessMessage\<close>, called by the main loop of the process.\<close>

definition ProcessMessage :: "'h service \<Rightarrow> nat \<Rightarrow> int \<Rightarrow> 'h dispatch_mgr \<Rightarrow> fault + bool \<times> 'h dispatch_mgr" where
  "ProcessMessage sv i now m = rbind (expire sv i now m) (\<lambda>(thrown, m).
     if thrown then Inr (True, m)
     else rbind (take_queue i m) (\<lambda>(msgs, m). rbind (dispatch_each sv i msgs m) (\<lambda>m. Inr (False, m))))"

definition GetEpollLoop :: "int \<Rightarrow> session_mgr list \<Rightarrow> fault + nat" where
  "GetEpollLoop channel loops = (if channel < 0 then Inl NullDeref else if loops = [] then Inl DivZero
     else Inr (nat (channel mod int (length loops))))"

text \<open>The queued messages of each channel go to the sessions of its loop, in the order of the channels.\<close>

primrec add_messages :: "net_context \<Rightarrow> bool \<Rightarrow> (int \<times> net_message list) list \<Rightarrow> session_mgr list \<Rightarrow> fault + session_mgr list" where
  "add_messages cx ctl [] loops = Inr loops"
| "add_messages cx ctl (p # ps) loops = rbind (GetEpollLoop (fst p) loops) (\<lambda>j. rbind (rd loops j) (\<lambda>l.
     rbind (mgr_AddMessage cx ctl (fst p) (snd p) l) (\<lambda>l. add_messages cx ctl ps (loops[j := l]))))"

definition flush_sends :: "net_context \<Rightarrow> bool \<Rightarrow> nat \<Rightarrow> 'h dispatch_mgr \<times> session_mgr list \<Rightarrow>
    fault + 'h dispatch_mgr \<times> session_mgr list" where
  "flush_sends cx ctl i w = rbind (rd (dm_all (fst w)) i) (\<lambda>d.
     rbind (add_messages cx ctl (dp_sendDeque d) (snd w)) (\<lambda>loops.
     Inr (set_dispatcher i (d\<lparr>dp_sendDeque := []\<rparr>) (fst w), loops)))"

text \<open>A turn of \<open>DispatchMessage::svr\<close>: what a throwing handler leaves behind is dropped with the turn.\<close>

definition DispatchMessage_turn :: "'h service \<Rightarrow> net_context \<Rightarrow> bool \<Rightarrow> nat \<Rightarrow> int \<Rightarrow> 'h dispatch_mgr \<times> session_mgr list \<Rightarrow>
    fault + 'h dispatch_mgr \<times> session_mgr list" where
  "DispatchMessage_turn sv cx ctl i now w = rbind (expire sv i now (fst w)) (\<lambda>(thrown, m).
     if thrown then Inr (m, snd w)
     else rbind (take_queue i m) (\<lambda>(msgs, m). rbind (dispatch_until sv i msgs m) (\<lambda>(thrown, m).
          if thrown then Inr (m, snd w) else flush_sends cx ctl i (m, snd w))))"

text \<open>A turn of \<open>SingleDispatchThread::svr\<close> only flushes.\<close>

definition SingleDispatchThread_turn :: "net_context \<Rightarrow> bool \<Rightarrow> nat \<Rightarrow> 'h dispatch_mgr \<times> session_mgr list \<Rightarrow>
    fault + 'h dispatch_mgr \<times> session_mgr list" where
  "SingleDispatchThread_turn cx ctl i w = rbind (rd (dm_all (fst w)) i) (\<lambda>d.
     if dp_sendDeque d = [] then Inr w else flush_sends cx ctl i w)"

end
