(* ===== verification/DispatchReach.thy ===== *)
theory DispatchReach
  imports Dispatcher
begin

text \<open>
  The states the dispatchers of a process can reach when their threads interleave: any thread sends, the
  loops hand over messages and events, and each dispatcher works on the messages in its hand
  (its local \<open>tDeque\<close>), one handler call at a time.
\<close>

section \<open>Steps\<close>

type_synonym hands = "nat \<Rightarrow> (net_message \<times> net_message option) list"

inductive dispatch_reach :: "'h service \<Rightarrow> 'h dispatch_mgr \<Rightarrow> hands \<Rightarrow> bool" for sv where
  start: "DispatchMgr_Init count started DispatchMgr_new = (eNetSuccess, m) \<Longrightarrow> dispatch_reach sv m (\<lambda>_. [])"
| send: "dispatch_reach sv m hand \<Longrightarrow> Send now msg m = Inr m' \<Longrightarrow> dispatch_reach sv m' hand"
| receive: "dispatch_reach sv m hand \<Longrightarrow> Receive channel msgs m = Inr m' \<Longrightarrow> dispatch_reach sv m' hand"
| report: "dispatch_reach sv m hand \<Longrightarrow> Report sv e m = Inr m' \<Longrightarrow> dispatch_reach sv m' hand"
| overdue: "dispatch_reach sv m hand \<Longrightarrow> hand i = [] \<Longrightarrow> rd (dm_all m) i = Inr d \<Longrightarrow>
    take_overdue (dv_old sv) now d = (msgs, d') \<Longrightarrow> dispatch_reach sv (set_dispatcher i d' m) (hand(i := msgs))"
| noted: "dispatch_reach sv m hand \<Longrightarrow> rd (dm_all m) i = Inr d \<Longrightarrow>
    dispatch_reach sv (set_dispatcher i (d\<lparr>dp_timeNow := now\<rparr>) m) hand"
| taken: "dispatch_reach sv m hand \<Longrightarrow> hand i = [] \<Longrightarrow> take_queue i m = Inr (msgs, m') \<Longrightarrow>
    dispatch_reach sv m' (hand(i := msgs))"
| dispatched: "dispatch_reach sv m hand \<Longrightarrow> hand i = x # xs \<Longrightarrow> Dispatch sv i x m = Inr (thrown, m') \<Longrightarrow>
    dispatch_reach sv m' (hand(i := xs))"
| thrown: "dispatch_reach sv m hand \<Longrightarrow> hand i = x # xs \<Longrightarrow> Dispatch sv i x m = Inr (True, m') \<Longrightarrow>
    dispatch_reach sv m' (hand(i := []))"
| flushed: "dispatch_reach sv m hand \<Longrightarrow> rd (dm_all m) i = Inr d \<Longrightarrow>
    dispatch_reach sv (set_dispatcher i (d\<lparr>dp_sendDeque := []\<rparr>) m) hand"

section \<open>The life of a request\<close>

text \<open>The numbers of the requests whose handlers dispatcher \<open>i\<close> has called, and of those in a hand.\<close>

fun answer_of :: "nat \<Rightarrow> nat \<times> 'h delivery \<Rightarrow> int list" where
  "answer_of i (j, Handle_Ack h msg (Some r)) = (if j = i then [sint (nm_reqID r)] else [])"
| "answer_of i _ = []"

definition answered :: "nat \<Rightarrow> (nat \<times> 'h delivery) list \<Rightarrow> int list" where
  "answered i calls = concat (map (answer_of i) calls)"

definition in_hand :: "(net_message \<times> net_message option) list \<Rightarrow> int list" where
  "in_hand xs = concat (map (\<lambda>x. case snd x of None \<Rightarrow> [] | Some r \<Rightarrow> [sint (nm_reqID r)]) xs)"

text \<open>A request is waiting, in the hand as timed out, or settled: never two of these.\<close>

definition requests_ok :: "nat \<Rightarrow> (nat \<times> 'h delivery) list \<Rightarrow> (net_message \<times> net_message option) list \<Rightarrow> dispatcher \<Rightarrow> bool" where
  "requests_ok i calls xs d \<longleftrightarrow> ordered (dp_timeOut d) \<and> 1 \<le> dp_token d \<and> dp_token d < 2 ^ 31 \<and>
     (\<forall>k item. map_of (dp_timeOut d) k = Some item \<longrightarrow> sint (nm_reqID (ai_req item)) = k) \<and>
     distinct (answered i calls @ in_hand xs @ map fst (dp_timeOut d)) \<and>
     set (answered i calls @ in_hand xs @ map fst (dp_timeOut d)) \<subseteq> {1..<dp_token d} \<and>
     (\<forall>x \<in> set xs. snd x \<noteq> None \<longrightarrow> nm_messageType (fst x) = Ack \<and> nm_errno (fst x) = eReqTimeOut)"

definition all_requests_ok :: "'h dispatch_mgr \<Rightarrow> hands \<Rightarrow> bool" where
  "all_requests_ok m hand \<longleftrightarrow> (\<forall>i < length (dm_all m). requests_ok i (dm_calls m) (hand i) (dm_all m ! i))"

lemma answered_snoc [simp]: "answered i (cs @ [c]) = answered i cs @ answer_of i c"
  by (simp add: answered_def)

lemma answered_Nil [simp]: "answered i [] = []"
  by (simp add: answered_def)

lemma in_hand_simps [simp]: "in_hand [] = []"
  "in_hand (x # xs) = (case snd x of None \<Rightarrow> [] | Some r \<Rightarrow> [sint (nm_reqID r)]) @ in_hand xs"
  by (simp_all add: in_hand_def)

lemma requests_ok_same:
  assumes "requests_ok i cs xs d" "dp_timeOut d' = dp_timeOut d" "dp_token d' = dp_token d"
  shows "requests_ok i cs xs d'"
  using assms by (simp add: requests_ok_def)

lemma all_requests_ok_set:
  assumes "all_requests_ok m hand" "rd (dm_all m) i = Inr d" "requests_ok i (dm_calls m) xs d'"
  shows "all_requests_ok (set_dispatcher i d' m) (hand(i := xs))"
  using assms by (auto simp: all_requests_ok_def set_dispatcher_def nth_list_update rd_Inr_iff)

lemma all_requests_ok_at: "all_requests_ok m hand \<Longrightarrow> rd (dm_all m) i = Inr d \<Longrightarrow> requests_ok i (dm_calls m) (hand i) d"
  by (auto simp: all_requests_ok_def rd_Inr_iff)

lemma all_requests_ok_update:
  assumes "all_requests_ok m hand" "rd (dm_all m) i = Inr d" "dp_timeOut d' = dp_timeOut d" "dp_token d' = dp_token d"
  shows "all_requests_ok (set_dispatcher i d' m) hand"
  using all_requests_ok_set [OF assms(1,2) requests_ok_same [OF all_requests_ok_at [OF assms(1,2)] assms(3,4)]] by simp

section \<open>Sending keeps the requests\<close>

lemma AddSendMessage_requests:
  assumes "requests_ok i cs xs d" "AddSendMessage now msg d = Inr d'"
  shows "requests_ok i cs xs d'"
proof (cases "nm_messageType msg = Request")
  case True
  note ok = assms(1) [unfolded requests_ok_def]
  let ?k = "dp_token d"
  have room: "?k + 1 < 2 ^ 31" using assms(2) True
    by (auto simp: AddSendMessage_def AddAckTimeOut_def GetToken_def c_int_def split: if_splits)
  have d': "dp_token d' = ?k + 1" "\<exists>item. dp_timeOut d' = map_put ?k item (dp_timeOut d) \<and>
      nm_reqID (ai_req item) = word_of_int ?k"
    using assms(2) True ok by (auto simp: AddSendMessage_def AddAckTimeOut_def GetToken_def c_int_def Let_def split: if_splits)
  then obtain item where item: "dp_timeOut d' = map_put ?k item (dp_timeOut d)" "nm_reqID (ai_req item) = word_of_int ?k"
    by blast
  have si: "sint (word_of_int ?k :: u32) = ?k" using ok by (intro sint_of_int) auto
  have new: "?k \<notin> set (answered i cs @ in_hand xs @ map fst (dp_timeOut d))" using ok by auto
  have "ordered (dp_timeOut d')" using ok item by simp
  moreover have "set (map fst (dp_timeOut d')) = insert ?k (set (map fst (dp_timeOut d)))" by (simp add: item(1))
  ultimately show ?thesis using ok new room si ordered_distinct [of "dp_timeOut d'"]
    by (auto simp: requests_ok_def d'(1) item)
next
  case False
  then have "dp_timeOut d' = dp_timeOut d" "dp_token d' = dp_token d" using assms(2) by (auto simp: AddSendMessage_def Let_def)
  then show ?thesis using requests_ok_same assms(1) by blast
qed

lemma Send_requests:
  assumes "all_requests_ok m hand" "Send now msg m = Inr m'"
  shows "all_requests_ok m' hand \<and> dm_calls m' = dm_calls m \<and> length (dm_all m') = length (dm_all m)"
proof (cases "nm_channelID msg < 0 \<or> nm_channelID msg \<ge> MAX_EPOLL_fd")
  case False
  then obtain j d d' where j: "rd (dm_all m) j = Inr d" "AddSendMessage now msg d = Inr d'" "m' = set_dispatcher j d' m"
    using assms(2) by (auto simp: Send_def rbind_Inr_iff)
  have "requests_ok j (dm_calls m) (hand j) d'"
    using AddSendMessage_requests [OF all_requests_ok_at [OF assms(1) j(1)] j(2)] .
  from all_requests_ok_set [OF assms(1) j(1) this] show ?thesis by (simp add: j(3)) (simp add: set_dispatcher_def)
qed (use assms in \<open>simp add: Send_def\<close>)

lemma send_list_requests:
  assumes "all_requests_ok m hand" "send_list xs m = Inr m'"
  shows "all_requests_ok m' hand \<and> dm_calls m' = dm_calls m \<and> length (dm_all m') = length (dm_all m)"
  using assms
proof (induction xs arbitrary: m)
  case (Cons x xs)
  then obtain m1 where m1: "Send (fst x) (snd x) m = Inr m1" "send_list xs m1 = Inr m'" by (auto simp: rbind_Inr_iff)
  from Send_requests [OF Cons.prems(1) m1(1)] Cons.IH [OF _ m1(2)] show ?case by auto
qed simp

section \<open>Dispatching keeps the requests\<close>

lemma call_requests:
  assumes "all_requests_ok (m\<lparr>dm_calls := dm_calls m @ [(i, x)]\<rparr>) hand" "call sv i x m = Inr (t, m')"
  shows "all_requests_ok m' hand \<and> dm_calls m' = dm_calls m @ [(i, x)] \<and> length (dm_all m') = length (dm_all m)"
proof -
  obtain sends where "send_list sends (m\<lparr>dm_calls := dm_calls m @ [(i, x)]\<rparr>) = Inr m'"
    using assms(2) by (auto simp: call_def rbind_Inr_iff split: prod.splits)
  from send_list_requests [OF assms(1) this] show ?thesis by simp
qed

lemma all_requests_ok_calls:
  assumes "all_requests_ok m hand" "\<And>j. answer_of j c = []"
  shows "all_requests_ok (m\<lparr>dm_calls := dm_calls m @ [c]\<rparr>) hand"
  using assms by (simp add: all_requests_ok_def requests_ok_def)

text \<open>A timed out request of the hand, or a waiting one, is settled.\<close>

lemma requests_ok_other:
  assumes "requests_ok j cs xs d" "i \<noteq> j"
  shows "requests_ok j (cs @ [(i, Handle_Ack h msg req)]) xs d"
proof -
  have "answer_of j (i, Handle_Ack h msg req) = []" using assms(2) by (cases req) auto
  then show ?thesis using assms(1) by (simp add: requests_ok_def)
qed

lemma requests_ok_drop:
  assumes "requests_ok i cs (x # xs) d"
  shows "requests_ok i cs xs d"
  using assms by (auto simp: requests_ok_def)

lemma requests_ok_timed_out:
  assumes "requests_ok i cs ((msg, req) # xs) d"
  shows "requests_ok i (cs @ [(i, Handle_Ack h msg req)]) xs d"
  using assms by (cases req) (auto simp: requests_ok_def)

lemma requests_ok_acked:
  assumes "requests_ok i cs (x # xs) d" "map_of (dp_timeOut d) k = Some item"
  shows "requests_ok i (cs @ [(i, Handle_Ack h msg (Some (ai_req item)))]) xs (d\<lparr>dp_timeOut := map_erase k (dp_timeOut d)\<rparr>)"
    "requests_ok i cs xs (d\<lparr>dp_timeOut := map_erase k (dp_timeOut d)\<rparr>)"
proof -
  note ok = assms(1) [unfolded requests_ok_def]
  have o: "ordered (map_erase k (dp_timeOut d))" using ok by simp
  have ks: "set (map fst (map_erase k (dp_timeOut d))) = set (map fst (dp_timeOut d)) - {k}"
    by (auto simp: map_erase_def)
  have "k \<in> set (map fst (dp_timeOut d))" using map_of_SomeD [OF assms(2)] by force
  then have "k \<in> {1..<dp_token d}" "k \<notin> set (answered i cs)" "k \<notin> set (in_hand xs)" "sint (nm_reqID (ai_req item)) = k"
    using ok assms(2) by (auto simp del: set_map)
  with ok o ks ordered_distinct [OF o]
  show "requests_ok i (cs @ [(i, Handle_Ack h msg (Some (ai_req item)))]) xs (d\<lparr>dp_timeOut := map_erase k (dp_timeOut d)\<rparr>)"
    "requests_ok i cs xs (d\<lparr>dp_timeOut := map_erase k (dp_timeOut d)\<rparr>)"
    by (auto simp: requests_ok_def simp del: set_map)
qed

lemma all_requests_ok_tl:
  assumes "all_requests_ok m hand" "hand i = x # xs"
  shows "all_requests_ok m (hand(i := xs))"
  using assms requests_ok_drop [of i "dm_calls m" x xs] by (auto simp: all_requests_ok_def)

text \<open>What is left of the message when the acknowledged request has been looked up.\<close>

lemma all_requests_ok_ack:
  assumes "all_requests_ok m hand" "requests_ok i (dm_calls m @ [(i, Handle_Ack h msg req)]) xs d"
  shows "all_requests_ok (set_dispatcher i d m\<lparr>dm_calls := dm_calls m @ [(i, Handle_Ack h msg req)]\<rparr>) (hand(i := xs))"
  using assms by (auto simp: all_requests_ok_def set_dispatcher_def nth_list_update intro: requests_ok_other)

lemma Dispatch_timed_out:
  assumes "nm_messageType msg = Ack" "nm_errno msg = eReqTimeOut"
  shows "Dispatch sv i (msg, req) m = (case GetAckHandler (nm_messageID msg) (dv_handlers sv) of None \<Rightarrow> Inr (False, m)
    | Some h \<Rightarrow> call sv i (Handle_Ack h msg req) m)"
  using assms by (simp add: Dispatch_def SimpleMessage_def Request_def Ack_def eNetSuccess_def)

lemma Dispatch_ack:
  assumes "nm_messageType msg = Ack" "nm_errno msg \<noteq> eReqTimeOut" "rd (dm_all m) i = Inr d"
  shows "Dispatch sv i (msg, req) m = (case map_of (dp_timeOut d) (sint (nm_reqID msg)) of
      None \<Rightarrow> Inr (False, m)
    | Some item \<Rightarrow> let m = set_dispatcher i (d\<lparr>dp_timeOut := map_erase (sint (nm_reqID msg)) (dp_timeOut d)\<rparr>) m in
       case GetAckHandler (nm_messageID msg) (dv_handlers sv) of None \<Rightarrow> Inr (False, m)
       | Some h \<Rightarrow> call sv i (Handle_Ack h msg (Some (ai_req item))) m)"
proof -
  have "set_dispatcher i d m = m" using assms(3) by (simp add: set_dispatcher_def rd_Inr_iff)
  then show ?thesis using assms by (simp add: Dispatch_def SimpleMessage_def Request_def Ack_def eNetSuccess_def
    DelAckTimeOut_def eTokenErr_def Let_def split: option.split)
qed

lemma Dispatch_other:
  assumes "nm_messageType msg \<noteq> Ack" "Dispatch sv i (msg, req) m = Inr (t, m')"
  shows "m' = m \<or> (\<exists>c. call sv i c m = Inr (t, m') \<and> (\<forall>j. answer_of j (i, c) = []))"
  using assms by (auto simp: Dispatch_def rbind_Inr_iff split: if_splits option.splits)

lemma Dispatch_requests:
  assumes "all_requests_ok m hand" "hand i = x # xs" "Dispatch sv i x m = Inr (t, m')"
  shows "all_requests_ok m' (hand(i := xs))"
proof -
  obtain msg req where x: "x = (msg, req)" by force
  have tl: "all_requests_ok m (hand(i := xs))" using all_requests_ok_tl [OF assms(1,2)] .
  consider "nm_messageType msg \<noteq> Ack" | "nm_messageType msg = Ack" "nm_errno msg = eReqTimeOut"
    | "nm_messageType msg = Ack" "nm_errno msg \<noteq> eReqTimeOut" by blast
  then show ?thesis
  proof cases
    case 1
    from Dispatch_other [OF this assms(3) [unfolded x]] tl show ?thesis
      using call_requests [OF all_requests_ok_calls [OF tl]] by blast
  next
    case 2
    have c: "all_requests_ok (m\<lparr>dm_calls := dm_calls m @ [(i, Handle_Ack h msg req)]\<rparr>) (hand(i := xs))" for h
    proof (cases "i < length (dm_all m)")
      case True
      then have "requests_ok i (dm_calls m @ [(i, Handle_Ack h msg req)]) xs (dm_all m ! i)"
        using assms(1,2) requests_ok_timed_out [of i "dm_calls m" msg req xs] by (auto simp: all_requests_ok_def x)
      from all_requests_ok_ack [OF assms(1) this] show ?thesis by (simp add: set_dispatcher_def)
    next
      case False
      then show ?thesis using tl requests_ok_other [of _ "dm_calls m" _ _ i] by (auto simp: all_requests_ok_def)
    qed
    from assms(3) show ?thesis unfolding x Dispatch_timed_out [OF 2]
      using call_requests [OF c] tl by (auto split: option.splits)
  next
    case 3
    obtain d where d: "rd (dm_all m) i = Inr d"
      using assms(3) 3 by (auto simp: Dispatch_def x SimpleMessage_def Request_def Ack_def rbind_Inr_iff)
    show ?thesis
    proof (cases "map_of (dp_timeOut d) (sint (nm_reqID msg))")
      case None
      then show ?thesis using assms(3) tl unfolding x Dispatch_ack [OF 3 d] by simp
    next
      case (Some item)
      let ?d = "d\<lparr>dp_timeOut := map_erase (sint (nm_reqID msg)) (dp_timeOut d)\<rparr>"
      note ok = requests_ok_acked [OF all_requests_ok_at [OF assms(1) d, unfolded assms(2)] Some]
      let ?m = "set_dispatcher i ?d m"
      have c: "all_requests_ok (?m\<lparr>dm_calls := dm_calls ?m @ [(i, Handle_Ack h msg (Some (ai_req item)))]\<rparr>) (hand(i := xs))" for h
        using all_requests_ok_ack [OF assms(1) ok(1)] by (simp add: set_dispatcher_def)
      from assms(3) show ?thesis unfolding x Dispatch_ack [OF 3 d]
        using call_requests [OF c] all_requests_ok_set [OF assms(1) d ok(2)]
        by (auto simp: Some Let_def split: option.splits)
    qed
  qed
qed

section \<open>All reachable states\<close>

lemma init_dispatchers_new:
  "init_dispatchers n i started m = (r, m') \<Longrightarrow>
    \<exists>ds. dm_all m' = dm_all m @ ds \<and> dm_calls m' = dm_calls m \<and> (\<forall>d \<in> set ds. \<exists>k. d = DispatchBase_new\<lparr>dp_index := k\<rparr>)"
proof (induction n arbitrary: i m)
  case (Suc n)
  show ?case
  proof (cases "started i")
    case True
    from Suc.IH [of "i + 1"] Suc.prems True show ?thesis by fastforce
  qed (use Suc.prems in auto)
qed auto

lemma take_overdue_requests:
  assumes "requests_ok i cs [] d" "take_overdue old now d = (msgs, d')"
  shows "requests_ok i cs msgs d'"
proof -
  note ok = assms(1) [unfolded requests_ok_def]
  let ?t = "dp_timeOut d"
  have msgs: "msgs = map (timeout_message old \<circ> snd) (filter (overdue now) ?t)" "dp_token d' = dp_token d"
    "dp_timeOut d' = filter (Not \<circ> overdue now) ?t"
    using assms(2) by (auto simp: take_overdue_def)
  have "sint (nm_reqID (ai_req (snd p))) = fst p" if "p \<in> set ?t" for p
    using that ok ordered_in_set [of ?t "fst p" "snd p"] by (cases p) auto
  then have h: "in_hand msgs = map fst (filter (overdue now) ?t)"
    unfolding msgs by (simp add: in_hand_def timeout_message_def Let_def comp_def)
  have m: "\<forall>x \<in> set msgs. nm_messageType (fst x) = Ack \<and> nm_errno (fst x) = eReqTimeOut"
    by (auto simp: msgs timeout_message_def Let_def SetHead_def)
  have dist: "distinct (map fst (filter (overdue now) ?t) @ map fst (filter (Not \<circ> overdue now) ?t))"
  proof -
    have "distinct (map fst (filter (overdue now) ?t))" "distinct (map fst (filter (Not \<circ> overdue now) ?t))"
      using ok by (auto simp: distinct_map_filter)
    moreover have "p = q" if "p \<in> set ?t" "q \<in> set ?t" "fst p = fst q" for p q
      using that ok by (auto simp: distinct_map dest: inj_onD)
    ultimately show ?thesis by fastforce
  qed
  have sub: "set (map fst (filter P ?t)) \<subseteq> set (map fst ?t)" for P by auto
  show ?thesis
    unfolding requests_ok_def h msgs(2,3)
  proof (intro conjI)
    show "distinct (answered i cs @ map fst (filter (overdue now) ?t) @ map fst (filter (Not \<circ> overdue now) ?t))"
      using ok dist sub by (simp del: set_map set_filter) blast
    show "set (answered i cs @ map fst (filter (overdue now) ?t) @ map fst (filter (Not \<circ> overdue now) ?t)) \<subseteq> {1..<dp_token d}"
      using ok by auto
    show "\<forall>k item. map_of (filter (Not \<circ> overdue now) ?t) k = Some item \<longrightarrow> sint (nm_reqID (ai_req item)) = k"
      using ok by (auto simp: map_of_filter split: option.splits if_splits)
  qed (use ok m in auto)
qed

lemma in_hand_queue [simp]: "in_hand (map (\<lambda>msg. (msg, None)) q) = []"
  by (induction q) auto

lemma queued_requests: "requests_ok i cs [] d \<Longrightarrow> requests_ok i cs (map (\<lambda>msg. (msg, None)) q) d"
  by (auto simp: requests_ok_def)

lemma requests_ok_new: "requests_ok i [] [] (DispatchBase_new\<lparr>dp_index := k\<rparr>)"
  by (simp add: requests_ok_def DispatchBase_new_def)

lemma requests_ok_at: "requests_ok i cs xs d \<Longrightarrow> map_of (dp_timeOut d) k = Some item \<Longrightarrow> sint (nm_reqID (ai_req item)) = k"
  by (simp add: requests_ok_def)

lemma dispatch_reach_ok: "dispatch_reach sv m hand \<Longrightarrow> all_requests_ok m hand"
proof (induction rule: dispatch_reach.induct)
  case (start count started m)
  from init_dispatchers_new [of _ 0 started _ eNetSuccess m] start
  obtain ds where "dm_all m = ds" "dm_calls m = []" "\<forall>d \<in> set ds. \<exists>k. d = DispatchBase_new\<lparr>dp_index := k\<rparr>"
    by (fastforce simp: DispatchMgr_Init_def DispatchMgr_new_def Let_def)
  note ds = this
  have "requests_ok j (dm_calls m) [] (dm_all m ! j)" if j: "j < length (dm_all m)" for j
  proof -
    have "dm_all m ! j \<in> set ds" using j by (simp add: ds(1))
    then obtain k where "dm_all m ! j = DispatchBase_new\<lparr>dp_index := k\<rparr>" using ds(3) by blast
    then show ?thesis using requests_ok_new by (simp add: ds(2))
  qed
  then show ?case by (simp add: all_requests_ok_def)
next
  case (receive m hand channel msgs m')
  then show ?case
    by (auto simp: Receive_def rbind_Inr_iff dp_AddMessages_def intro: all_requests_ok_update)
next
  case (report m hand e m')
  then show ?case
    by (auto simp: Report_def rbind_Inr_iff dp_AddMessage_def intro: all_requests_ok_update)
next
  case (overdue m hand i d now msgs d')
  from all_requests_ok_at [OF overdue.IH overdue.hyps(3)] overdue.hyps(2)
  have "requests_ok i (dm_calls m) [] d" by simp
  from all_requests_ok_set [OF overdue.IH overdue.hyps(3) take_overdue_requests [OF this overdue.hyps(4)]]
  show ?case .
next
  case (taken m hand i msgs m')
  then obtain d where d: "rd (dm_all m) i = Inr d" "msgs = map (\<lambda>msg. (msg, None)) (dp_deque d)"
    "m' = set_dispatcher i (d\<lparr>dp_deque := []\<rparr>) m" by (auto simp: take_queue_def rbind_Inr_iff)
  have "requests_ok i (dm_calls m) [] d" using all_requests_ok_at [OF taken.IH d(1)] taken.hyps(2) by simp
  then have "requests_ok i (dm_calls m) [] (d\<lparr>dp_deque := []\<rparr>)" by (rule requests_ok_same) simp_all
  from all_requests_ok_set [OF taken.IH d(1) queued_requests [OF this]] show ?case unfolding d(2,3) .
next
  case (thrown m hand i x xs m')
  have "all_requests_ok m' (hand(i := xs))" using Dispatch_requests [OF thrown.IH thrown.hyps(2,3)] .
  then have at: "requests_ok j (dm_calls m') ((hand(i := xs)) j) (dm_all m' ! j)" if "j < length (dm_all m')" for j
    using that by (simp add: all_requests_ok_def)
  have no: "requests_ok j cs ys d \<Longrightarrow> requests_ok j cs [] d" for j cs ys d by (auto simp: requests_ok_def)
  have "requests_ok j (dm_calls m') ((hand(i := [])) j) (dm_all m' ! j)" if "j < length (dm_all m')" for j
    using at [OF that] no by (cases "j = i") (simp, blast, simp)
  then show ?case by (simp add: all_requests_ok_def)
next
  case (send m hand now msg m')
  then show ?case using Send_requests by blast
next
  case (noted m hand i d now)
  then show ?case by (auto intro: all_requests_ok_update)
next
  case (flushed m hand i d)
  then show ?case by (auto intro: all_requests_ok_update)
next
  case (dispatched m hand i x xs t m')
  then show ?case using Dispatch_requests by blast
qed

text \<open>
  C5. A request is answered at most once. In every state that the threads can reach, however they
  interleave and whatever the handlers do and the peers send, no two calls of acknowledgement handlers by
  one dispatcher are for the same request, timed out or not; and a request that still waits has had none.
\<close>

theorem request_answered_once:
  assumes "dispatch_reach sv m hand" "i < length (dm_all m)"
  shows "(dm_calls m = a @ (i, Handle_Ack h1 x1 (Some r1)) # b @ (i, Handle_Ack h2 x2 (Some r2)) # c \<longrightarrow>
      nm_reqID r1 \<noteq> nm_reqID r2) \<and>
    (map_of (dp_timeOut (dm_all m ! i)) k = Some item \<and> (i, Handle_Ack h x (Some r)) \<in> set (dm_calls m) \<longrightarrow>
      nm_reqID r \<noteq> nm_reqID (ai_req item))"
proof (intro conjI impI)
  have ok: "requests_ok i (dm_calls m) (hand i) (dm_all m ! i)"
    using dispatch_reach_ok [OF assms(1)] assms(2) by (simp add: all_requests_ok_def)
  then have dist: "distinct (answered i (dm_calls m))"
    "set (answered i (dm_calls m)) \<inter> set (map fst (dp_timeOut (dm_all m ! i))) = {}"
    unfolding requests_ok_def distinct_append set_append by blast+
  from dist(1) show "dm_calls m = a @ (i, Handle_Ack h1 x1 (Some r1)) # b @ (i, Handle_Ack h2 x2 (Some r2)) # c \<Longrightarrow>
      nm_reqID r1 \<noteq> nm_reqID r2" by (auto simp: answered_def)
  assume that: "map_of (dp_timeOut (dm_all m ! i)) k = Some item \<and> (i, Handle_Ack h x (Some r)) \<in> set (dm_calls m)"
  then have "sint (nm_reqID r) \<in> set (answered i (dm_calls m))" by (force simp: answered_def)
  moreover have "sint (nm_reqID (ai_req item)) \<in> set (map fst (dp_timeOut (dm_all m ! i)))"
    using that requests_ok_at [OF ok, of k item] map_of_SomeD [of "dp_timeOut (dm_all m ! i)" k item] by force
  ultimately have "sint (nm_reqID r) \<noteq> sint (nm_reqID (ai_req item))" using dist(2) by (metis IntI empty_iff)
  then show "nm_reqID r \<noteq> nm_reqID (ai_req item)" by auto
qed

section \<open>An example\<close>

text \<open>Two requests are sent on channel 5, and the first is answered.\<close>

definition demo_service :: "unit service" where
  "demo_service = \<lparr>dv_handlers = \<lparr>hm_message = [Some ()], hm_request = [], hm_ack = [Some ()]\<rparr>,
     dv_react = (\<lambda>_ _. ([], False)), dv_be = False, dv_old = (\<lambda>_. CHR ''x''), dv_ip_of = (\<lambda>_. 0)\<rparr>"

definition demo_message :: "u8 \<Rightarrow> u32 \<Rightarrow> net_message" where
  "demo_message ty req = (Message_channel (\<lambda>_. CHR ''x'') 5)\<lparr>nm_messageType := ty, nm_reqID := req\<rparr>"

definition demo_dispatcher :: dispatcher where
  "demo_dispatcher = DispatchBase_new\<lparr>dp_index := 0, dp_token := 3, dp_timeOut := [(1, \<lparr>ai_token = 1, ai_req = demo_message Request 1,
       ai_time = 1000\<rparr>), (2, \<lparr>ai_token = 2, ai_req = demo_message Request 2, ai_time = 1000\<rparr>)],
     dp_sendDeque := [(5, [demo_message Request 1, demo_message Request 2])]\<rparr>"

definition demo_dispatchers :: "unit dispatch_mgr" where
  "demo_dispatchers = \<lparr>dm_all = [demo_dispatcher], dm_index = 0, dm_blockThread = 1, dm_calls = []\<rparr>"

lemma demo_message_simps [simp]: "nm_messageType (demo_message ty r) = ty" "nm_reqID (demo_message ty r) = r"
  "nm_messageID (demo_message ty r) = 0" "nm_channelID (demo_message ty r) = 5" "nm_errno (demo_message ty r) = 0"
  "nm_timeout (demo_message ty r) = 0" "(demo_message ty r)\<lparr>nm_reqID := r'\<rparr> = demo_message ty r'"
  by (simp_all add: demo_message_def Message_channel_def Message_plain_def)

lemma demo_waiting_reach: "dispatch_reach sv demo_dispatchers (\<lambda>_. [])"
proof -
  let ?m0 = "\<lparr>dm_all = [DispatchBase_new\<lparr>dp_index := 0\<rparr>], dm_index = 0, dm_blockThread = 1, dm_calls = []\<rparr> :: unit dispatch_mgr"
  let ?d1 = "DispatchBase_new\<lparr>dp_index := 0, dp_token := 2, dp_timeOut := [(1, \<lparr>ai_token = 1, ai_req = demo_message Request 1,
     ai_time = 1000\<rparr>)], dp_sendDeque := [(5, [demo_message Request 1])]\<rparr>"
  let ?m1 = "?m0\<lparr>dm_all := [?d1]\<rparr>"
  have "dispatch_reach sv ?m0 (\<lambda>_. [])"
    by (rule dispatch_reach.start [of 1 "\<lambda>_. True"]) (simp add: DispatchMgr_Init_def DispatchMgr_new_def eval_nat_numeral)
  moreover have "Send 1000 (demo_message Request 0) ?m0 = Inr ?m1" "Send 1000 (demo_message Request 0) ?m1 = Inr demo_dispatchers"
    by (simp_all add: Send_def GetDispatch_def rd_def AddSendMessage_def AddAckTimeOut_def GetToken_def c_int_def Let_def
      DispatchBase_new_def set_dispatcher_def MAX_EPOLL_fd_def demo_dispatchers_def demo_dispatcher_def)
  ultimately show ?thesis by (meson dispatch_reach.send)
qed

definition demo_answered :: "unit dispatch_mgr" where
  "demo_answered = demo_dispatchers\<lparr>dm_all := [demo_dispatcher\<lparr>dp_timeOut := [(2, \<lparr>ai_token = 2, ai_req = demo_message Request 2,
     ai_time = 1000\<rparr>)]\<rparr>], dm_calls := [(0, Handle_Ack () (demo_message Ack 1) (Some (demo_message Request 1)))]\<rparr>"

lemma demo_answered_reach: "dispatch_reach demo_service demo_answered (\<lambda>_. [])"
proof -
  let ?a = "demo_message Ack 1"
  let ?m1 = "demo_dispatchers\<lparr>dm_all := [demo_dispatcher\<lparr>dp_deque := [?a]\<rparr>]\<rparr>"
  have "Receive 5 [?a] demo_dispatchers = Inr ?m1"
    by (simp add: Receive_def GetDispatch_def rd_def set_dispatcher_def dp_AddMessages_def demo_dispatchers_def
      demo_dispatcher_def DispatchBase_new_def)
  then have 1: "dispatch_reach demo_service ?m1 (\<lambda>_. [])" using demo_waiting_reach by (rule dispatch_reach.receive [rotated])
  have "take_queue 0 ?m1 = Inr ([(?a, None)], demo_dispatchers)"
    by (simp add: take_queue_def rd_def set_dispatcher_def demo_dispatchers_def demo_dispatcher_def DispatchBase_new_def)
  from dispatch_reach.taken [OF 1 _ this] have 2: "dispatch_reach demo_service demo_dispatchers ((\<lambda>_. [])(0 := [(?a, None)]))" by simp
  have "Dispatch demo_service 0 (?a, None) demo_dispatchers = Inr (False, demo_answered)"
    by (subst Dispatch_ack [where d = demo_dispatcher])
      (simp_all add: demo_dispatchers_def demo_answered_def rd_def demo_dispatcher_def DispatchBase_new_def call_def
        demo_service_def GetAckHandler_def set_dispatcher_def map_erase_def eReqTimeOut_def)
  from dispatch_reach.dispatched [OF 2 fun_upd_same this]
  have r: "dispatch_reach demo_service demo_answered ((\<lambda>_. [])(0 := [(?a, None)], 0 := []))" .
  have h: "((\<lambda>_. [])(0 := [(?a, None)], 0 := [])) = (\<lambda>_. [])" by auto
  show ?thesis using r unfolding h .
qed

theorem request_answered_once_witness:
  "map_of (dp_timeOut (dm_all demo_answered ! 0)) 2 = Some \<lparr>ai_token = 2, ai_req = demo_message Request 2, ai_time = 1000\<rparr> \<and>
   (0, Handle_Ack () (demo_message Ack 1) (Some (demo_message Request 1))) \<in> set (dm_calls demo_answered) \<and>
   nm_reqID (demo_message Request 1) \<noteq> nm_reqID (demo_message Request 2)"
proof -
  let ?i = "\<lparr>ai_token = 2, ai_req = demo_message Request 2, ai_time = 1000\<rparr>"
  have l: "0 < length (dm_all demo_answered)" by (simp add: demo_answered_def)
  have "map_of (dp_timeOut (dm_all demo_answered ! 0)) 2 = Some ?i"
    "(0, Handle_Ack () (demo_message Ack 1) (Some (demo_message Request 1))) \<in> set (dm_calls demo_answered)"
    by (simp_all add: demo_answered_def)
  with request_answered_once [OF demo_answered_reach l, of _ _ _ _ _ _ _ _ _ 2 ?i] show ?thesis by auto
qed

end
