(* ===== verification/DispatchTurns.thy ===== *)
theory DispatchTurns
  imports DispatchReach
begin

text \<open>
  The turns of the dispatching threads: they are runs of the steps of \<open>DispatchReach\<close>, they settle
  overdue requests, they serve the queue in order; and what a handler that throws costs.
\<close>

section \<open>Turns are runs of steps\<close>

lemma dispatch_until_reach:
  "dispatch_reach sv m hand \<Longrightarrow> hand i = xs \<Longrightarrow> dispatch_until sv i xs m = Inr (t, m') \<Longrightarrow> dispatch_reach sv m' (hand(i := []))"
proof (induction xs arbitrary: m hand)
  case Nil
  then have "hand(i := []) = hand" by auto
  then show ?case using Nil by simp
next
  case (Cons x xs)
  then obtain t1 m1 where m1: "Dispatch sv i x m = Inr (t1, m1)"
    "(if t1 then Inr (True, m1) else dispatch_until sv i xs m1) = Inr (t, m')" by (auto simp: rbind_Inr_iff)
  show ?case
  proof (cases t1)
    case True
    then have "Dispatch sv i x m = Inr (True, m')" using m1 by simp
    from dispatch_reach.thrown [OF Cons.prems(1,2) this] show ?thesis .
  next
    case False
    then have "dispatch_until sv i xs m1 = Inr (t, m')" using m1(2) by simp
    from Cons.IH [OF dispatch_reach.dispatched [OF Cons.prems(1,2) m1(1)] fun_upd_same this]
    show ?thesis unfolding fun_upd_upd .
  qed
qed

lemma dispatch_each_reach:
  "dispatch_reach sv m hand \<Longrightarrow> hand i = xs \<Longrightarrow> dispatch_each sv i xs m = Inr m' \<Longrightarrow> dispatch_reach sv m' (hand(i := []))"
proof (induction xs arbitrary: m hand)
  case Nil
  then have "hand(i := []) = hand" by auto
  then show ?case using Nil by simp
next
  case (Cons x xs)
  then obtain t1 m1 where m1: "Dispatch sv i x m = Inr (t1, m1)" "dispatch_each sv i xs m1 = Inr m'"
    by (auto simp: rbind_Inr_iff)
  from Cons.IH [OF dispatch_reach.dispatched [OF Cons.prems(1,2) m1(1)] fun_upd_same m1(2)]
  show ?case unfolding fun_upd_upd .
qed

lemma expire_reach:
  assumes "dispatch_reach sv m hand" "hand i = []" "expire sv i now m = Inr (t, m')"
  shows "dispatch_reach sv m' hand"
proof -
  obtain d where d: "rd (dm_all m) i = Inr d" using assms(3) by (auto simp: expire_def rbind_Inr_iff)
  have h: "hand(i := []) = hand" using assms(2) by auto
  show ?thesis
  proof (cases "now div 1000 - dp_timeNow d > 1000")
    case False
    then show ?thesis using assms d by (simp add: expire_def)
  next
    case True
    obtain msgs d1 where t: "take_overdue (dv_old sv) (now div 1000) d = (msgs, d1)" by force
    then obtain t1 m1 where u: "dispatch_until sv i msgs (set_dispatcher i d1 m) = Inr (t1, m1)"
      "(if t1 then Inr (True, m1) else rbind (rd (dm_all m1) i) (\<lambda>d. Inr (False, set_dispatcher i (d\<lparr>dp_timeNow := now div 1000\<rparr>) m1))) = Inr (t, m')"
      using assms(3) d True by (auto simp: expire_def rbind_Inr_iff)
    have r: "dispatch_reach sv m1 hand"
      using dispatch_until_reach [OF dispatch_reach.overdue [OF assms(1,2) d t] _ u(1)] h by simp
    with u(2) show ?thesis by (auto simp: rbind_Inr_iff split: if_splits intro: dispatch_reach.noted)
  qed
qed

lemma take_queue_reach:
  assumes "dispatch_reach sv m hand" "hand i = []" "take_queue i m = Inr (msgs, m1)"
  shows "dispatch_each sv i msgs m1 = Inr m' \<Longrightarrow> dispatch_reach sv m' hand"
    "dispatch_until sv i msgs m1 = Inr (t, m') \<Longrightarrow> dispatch_reach sv m' hand"
proof -
  have h: "hand(i := msgs, i := []) = hand" using assms(2) by auto
  note r = dispatch_reach.taken [OF assms]
  from dispatch_each_reach [OF r, of i] h show "dispatch_each sv i msgs m1 = Inr m' \<Longrightarrow> dispatch_reach sv m' hand" by simp
  from dispatch_until_reach [OF r, of i] h show "dispatch_until sv i msgs m1 = Inr (t, m') \<Longrightarrow> dispatch_reach sv m' hand" by simp
qed

lemma ProcessMessage_reach:
  assumes "dispatch_reach sv m hand" "hand i = []" "ProcessMessage sv i now m = Inr (t, m')"
  shows "dispatch_reach sv m' hand"
proof -
  obtain t1 m1 where e: "expire sv i now m = Inr (t1, m1)"
    "t1 \<and> m' = m1 \<or> (\<exists>msgs m2. take_queue i m1 = Inr (msgs, m2) \<and> dispatch_each sv i msgs m2 = Inr m')"
    using assms(3) by (auto simp: ProcessMessage_def rbind_Inr_iff split: if_splits)
  from expire_reach [OF assms(1,2) e(1)] e(2) take_queue_reach(1) [of sv m1 hand i] assms(2) show ?thesis by blast
qed

lemma flush_sends_reach:
  assumes "dispatch_reach sv (fst w) hand" "flush_sends cx ctl i w = Inr w'"
  shows "dispatch_reach sv (fst w') hand"
  using assms by (auto simp: flush_sends_def rbind_Inr_iff intro: dispatch_reach.flushed)

lemma DispatchMessage_turn_reach:
  assumes "dispatch_reach sv (fst w) hand" "hand i = []" "DispatchMessage_turn sv cx ctl i now w = Inr w'"
  shows "dispatch_reach sv (fst w') hand"
proof -
  obtain t m where e: "expire sv i now (fst w) = Inr (t, m)" "\<not> t \<Longrightarrow> \<exists>msgs m1 t1 m2. take_queue i m = Inr (msgs, m1) \<and>
      dispatch_until sv i msgs m1 = Inr (t1, m2) \<and> (if t1 then w' = (m2, snd w) else flush_sends cx ctl i (m2, snd w) = Inr w')"
    "t \<Longrightarrow> w' = (m, snd w)"
    using assms(3) by (fastforce simp: DispatchMessage_turn_def rbind_Inr_iff split: if_splits)
  note r = expire_reach [OF assms(1,2) e(1)]
  show ?thesis
  proof (cases t)
    case False
    then obtain msgs m1 t1 m2 where q: "take_queue i m = Inr (msgs, m1)" "dispatch_until sv i msgs m1 = Inr (t1, m2)"
      "if t1 then w' = (m2, snd w) else flush_sends cx ctl i (m2, snd w) = Inr w'" using e(2) by blast
    have "dispatch_reach sv m2 hand" using take_queue_reach(2) [OF r assms(2) q(1,2)] .
    then show ?thesis using q(3) flush_sends_reach [of sv "(m2, snd w)"] by (auto split: if_splits)
  qed (use r e(3) in auto)
qed

text \<open>
  The turns of both kinds of dispatching threads, and what the handlers do within them, are runs
  of the steps of the interleaved system: whatever holds in all its states holds after every turn.
\<close>

lemma turns_are_runs:
  assumes "dispatch_reach sv m hand" "hand i = []"
  shows "(ProcessMessage sv i now m = Inr (t, m') \<longrightarrow> dispatch_reach sv m' hand) \<and>
    (DispatchMessage_turn sv cx ctl i now (m, loops) = Inr w' \<longrightarrow> dispatch_reach sv (fst w') hand) \<and>
    (SingleDispatchThread_turn cx ctl i (m, loops) = Inr w' \<longrightarrow> dispatch_reach sv (fst w') hand)"
proof (intro conjI impI)
  show "ProcessMessage sv i now m = Inr (t, m') \<Longrightarrow> dispatch_reach sv m' hand"
    using ProcessMessage_reach [OF assms] .
  show "DispatchMessage_turn sv cx ctl i now (m, loops) = Inr w' \<Longrightarrow> dispatch_reach sv (fst w') hand"
    using DispatchMessage_turn_reach [of sv "(m, loops)"] assms by simp
  show "SingleDispatchThread_turn cx ctl i (m, loops) = Inr w' \<Longrightarrow> dispatch_reach sv (fst w') hand"
    using assms(1) flush_sends_reach [of sv "(m, loops)" hand cx ctl i w']
    by (auto simp: SingleDispatchThread_turn_def rbind_Inr_iff split: if_splits)
qed

section \<open>Handlers that return\<close>

text \<open>The tokens of \<open>n\<close> more requests are left, and the requests known before are untouched.\<close>

definition tokens_left :: "int \<Rightarrow> 'h dispatch_mgr \<Rightarrow> bool" where
  "tokens_left n m \<longleftrightarrow> dm_all m \<noteq> [] \<and> (\<forall>j < length (dm_all m). 1 \<le> dp_token (dm_all m ! j) \<and> ordered (dp_timeOut (dm_all m ! j)) \<and>
     dp_token (dm_all m ! j) + n < 2 ^ 31)"

definition grown :: "'h dispatch_mgr \<Rightarrow> 'h dispatch_mgr \<Rightarrow> bool" where
  "grown m m' \<longleftrightarrow> length (dm_all m') = length (dm_all m) \<and> (\<forall>j < length (dm_all m).
     dp_token (dm_all m ! j) \<le> dp_token (dm_all m' ! j) \<and> dp_deque (dm_all m' ! j) = dp_deque (dm_all m ! j) \<and>
     dp_timeNow (dm_all m' ! j) = dp_timeNow (dm_all m ! j) \<and>
     (\<forall>k < dp_token (dm_all m ! j). map_of (dp_timeOut (dm_all m' ! j)) k = map_of (dp_timeOut (dm_all m ! j)) k))"

lemma grown_refl [simp]: "grown m m" by (simp add: grown_def)

lemma grown_calls [simp]: "grown (m\<lparr>dm_calls := cs\<rparr>) m' \<longleftrightarrow> grown m m'" by (simp add: grown_def)

lemma grownD:
  assumes "grown m m'" "j < length (dm_all m)"
  shows "j < length (dm_all m')" "dp_token (dm_all m ! j) \<le> dp_token (dm_all m' ! j)" "dp_deque (dm_all m' ! j) = dp_deque (dm_all m ! j)"
    "dp_timeNow (dm_all m' ! j) = dp_timeNow (dm_all m ! j)"
    "k < dp_token (dm_all m ! j) \<Longrightarrow> map_of (dp_timeOut (dm_all m' ! j)) k = map_of (dp_timeOut (dm_all m ! j)) k"
  using assms by (auto simp: grown_def)

lemma grown_trans:
  assumes "grown m1 m2" "grown m2 m3"
  shows "grown m1 m3"
proof -
  have l: "length (dm_all m3) = length (dm_all m1)" using assms by (simp add: grown_def)
  have "dp_token (dm_all m1 ! j) \<le> dp_token (dm_all m3 ! j) \<and> dp_deque (dm_all m3 ! j) = dp_deque (dm_all m1 ! j) \<and>
     dp_timeNow (dm_all m3 ! j) = dp_timeNow (dm_all m1 ! j) \<and>
     (\<forall>k < dp_token (dm_all m1 ! j). map_of (dp_timeOut (dm_all m3 ! j)) k = map_of (dp_timeOut (dm_all m1 ! j)) k)"
    if "j < length (dm_all m1)" for j
    using grownD [OF assms(1) that] grownD [OF assms(2), of j] by fastforce
  with l show ?thesis by (simp add: grown_def)
qed

lemma tokens_left_mono: "tokens_left n m \<Longrightarrow> k \<le> n \<Longrightarrow> tokens_left k m"
  by (force simp: tokens_left_def)

lemma tokens_left_calls [simp]: "tokens_left n (m\<lparr>dm_calls := cs\<rparr>) \<longleftrightarrow> tokens_left n m" by (simp add: tokens_left_def)

lemma AddSendMessage_total:
  assumes "1 \<le> dp_token d" "dp_token d + 1 < 2 ^ 31" "ordered (dp_timeOut d)"
  shows "\<exists>d'. AddSendMessage now msg d = Inr d' \<and> dp_token d \<le> dp_token d' \<and> dp_token d' \<le> dp_token d + 1 \<and>
    ordered (dp_timeOut d') \<and> dp_deque d' = dp_deque d \<and> dp_timeNow d' = dp_timeNow d \<and>
    (\<forall>k < dp_token d. map_of (dp_timeOut d') k = map_of (dp_timeOut d) k)"
proof (cases "nm_messageType msg = Request")
  case True
  have c: "c_int (dp_token d + 1) = Inr (dp_token d + 1)" using assms by (intro c_int_ok) auto
  show ?thesis using assms True by (auto simp: AddSendMessage_def AddAckTimeOut_def GetToken_def c Let_def)
qed (use assms in \<open>simp add: AddSendMessage_def Let_def\<close>)

lemma GetDispatch_ok: "dm_all m \<noteq> [] \<Longrightarrow> \<exists>j < length (dm_all m). GetDispatch c m = Inr j"
  by (auto simp: GetDispatch_def nat_less_iff)

lemma Send_total:
  assumes "tokens_left (n + 1) m" "0 \<le> n"
  shows "\<exists>m'. Send now msg m = Inr m' \<and> tokens_left n m' \<and> grown m m' \<and> dm_calls m' = dm_calls m"
proof (cases "nm_channelID msg < 0 \<or> nm_channelID msg \<ge> MAX_EPOLL_fd")
  case True
  then show ?thesis using tokens_left_mono [OF assms(1), of n] by (simp add: Send_def)
next
  case False
  obtain j where j: "j < length (dm_all m)" "GetDispatch (nm_channelID msg) m = Inr j"
    using GetDispatch_ok [of m "nm_channelID msg"] assms(1) by (auto simp: tokens_left_def)
  let ?d = "dm_all m ! j"
  have t: "1 \<le> dp_token ?d" "dp_token ?d + 1 < 2 ^ 31" "ordered (dp_timeOut ?d)" "dp_token ?d + (n + 1) < 2 ^ 31"
    using assms j(1) by (force simp: tokens_left_def)+
  obtain d' where d': "AddSendMessage now msg ?d = Inr d'" "dp_token ?d \<le> dp_token d'" "dp_token d' \<le> dp_token ?d + 1"
    "ordered (dp_timeOut d')" "dp_deque d' = dp_deque ?d" "dp_timeNow d' = dp_timeNow ?d"
    "\<forall>k < dp_token ?d. map_of (dp_timeOut d') k = map_of (dp_timeOut ?d) k"
    using AddSendMessage_total [OF t(1-3)] by blast
  have "Send now msg m = Inr (set_dispatcher j d' m)" using False j d'(1) by (simp add: Send_def rd_def)
  moreover have "tokens_left n (set_dispatcher j d' m)"
    using assms j d' t by (auto simp: tokens_left_def set_dispatcher_def nth_list_update)
  moreover have "grown m (set_dispatcher j d' m)"
    using j d' by (auto simp: grown_def set_dispatcher_def nth_list_update)
  ultimately show ?thesis by (simp add: set_dispatcher_def)
qed

lemma send_list_total:
  "tokens_left (n + int (length xs)) m \<Longrightarrow> 0 \<le> n \<Longrightarrow>
    \<exists>m'. send_list xs m = Inr m' \<and> tokens_left n m' \<and> grown m m' \<and> dm_calls m' = dm_calls m"
proof (induction xs arbitrary: m)
  case (Cons x xs)
  have "tokens_left (n + int (length xs) + 1) m" using Cons.prems(1) by (simp add: algebra_simps)
  from Send_total [OF this, of "fst x" "snd x"] Cons.prems(2)
  obtain m1 where m1: "Send (fst x) (snd x) m = Inr m1" "tokens_left (n + int (length xs)) m1" "grown m m1"
    "dm_calls m1 = dm_calls m" by auto
  from Cons.IH [OF m1(2) Cons.prems(2)] m1 show ?case by (auto intro: grown_trans)
qed auto

text \<open>A handler sends at most \<open>B\<close> messages in one call.\<close>

definition sends_at_most :: "nat \<Rightarrow> 'h service \<Rightarrow> bool" where
  "sends_at_most B sv \<longleftrightarrow> (\<forall>cs c. length (fst (dv_react sv cs c)) \<le> B)"

definition never_throws :: "'h service \<Rightarrow> bool" where
  "never_throws sv \<longleftrightarrow> (\<forall>cs c. \<not> snd (dv_react sv cs c))"

lemma call_total:
  assumes "tokens_left (n + int B) m" "0 \<le> n" "sends_at_most B sv"
  shows "\<exists>m'. call sv i c m = Inr (snd (dv_react sv (dm_calls m) (i, c)), m') \<and> tokens_left n m' \<and> grown m m' \<and>
    dm_calls m' = dm_calls m @ [(i, c)]"
proof -
  obtain sends t where r: "dv_react sv (dm_calls m) (i, c) = (sends, t)" by force
  have "length (fst (dv_react sv (dm_calls m) (i, c))) \<le> B" using assms(3) unfolding sends_at_most_def by blast
  then have "tokens_left (n + int (length sends)) (m\<lparr>dm_calls := dm_calls m @ [(i, c)]\<rparr>)"
    using r by (auto intro: tokens_left_mono [OF assms(1)])
  from send_list_total [OF this assms(2)] show ?thesis by (auto simp: call_def r)
qed

section \<open>Overdue requests\<close>

definition timeout_call :: "'h service \<Rightarrow> nat \<Rightarrow> net_message \<times> net_message option \<Rightarrow> (nat \<times> 'h delivery) list" where
  "timeout_call sv i x = (case GetAckHandler (nm_messageID (fst x)) (dv_handlers sv) of None \<Rightarrow> []
     | Some h \<Rightarrow> [(i, Handle_Ack h (fst x) (snd x))])"

lemma timeouts_total:
  assumes "sends_at_most B sv" "never_throws sv" "0 \<le> n"
  shows "\<forall>x \<in> set xs. nm_messageType (fst x) = Ack \<and> nm_errno (fst x) = eReqTimeOut \<Longrightarrow>
    tokens_left (n + int (B * length xs)) m \<Longrightarrow>
    \<exists>m'. dispatch_until sv i xs m = Inr (False, m') \<and> tokens_left n m' \<and> grown m m' \<and>
      dm_calls m' = dm_calls m @ concat (map (timeout_call sv i) xs)"
proof (induction xs arbitrary: m)
  case (Cons x xs)
  obtain msg req where x: "x = (msg, req)" by force
  have D: "Dispatch sv i x m = (case GetAckHandler (nm_messageID msg) (dv_handlers sv) of None \<Rightarrow> Inr (False, m)
      | Some h \<Rightarrow> call sv i (Handle_Ack h msg req) m)"
    using Dispatch_timed_out [of msg sv i req m] Cons.prems(1) by (simp add: x)
  have t: "tokens_left (n + int (B * length xs) + int B) m" using Cons.prems(2) by (simp add: algebra_simps)
  have t0: "tokens_left (n + int (B * length xs)) m" by (rule tokens_left_mono [OF t]) simp
  have "\<exists>m1. Dispatch sv i x m = Inr (False, m1) \<and> tokens_left (n + int (B * length xs)) m1 \<and> grown m m1 \<and>
      dm_calls m1 = dm_calls m @ timeout_call sv i x"
  proof (cases "GetAckHandler (nm_messageID msg) (dv_handlers sv)")
    case None
    then show ?thesis using D t0 by (simp add: timeout_call_def x)
  next
    case (Some h)
    from call_total [OF t _ assms(1), of i "Handle_Ack h msg req"] assms(2,3) Some D
    show ?thesis by (simp add: timeout_call_def x never_throws_def)
  qed
  then obtain m1 where m1: "Dispatch sv i x m = Inr (False, m1)" "tokens_left (n + int (B * length xs)) m1" "grown m m1"
    "dm_calls m1 = dm_calls m @ timeout_call sv i x" by blast
  from Cons.IH [OF _ m1(2)] Cons.prems(1) m1 show ?case by (auto intro: grown_trans)
qed auto

text \<open>
  C6. Every request is settled in the end. In a turn that comes more than a second after the last look at
  the clock, each request whose deadline has passed is taken from the table and its acknowledgement
  handler is called exactly once, in the order of the requests, with a message that carries the error
  \<open>eReqTimeOut\<close> and the request; the other requests go on waiting. The handlers return, send at
  most \<open>B\<close> messages in a call, and the numbers for requests are not used up.
\<close>

theorem overdue_requests_settled:
  assumes "i < length (dm_all m)" "d = dm_all m ! i" "dispatch_reach sv m hand"
    and "now div 1000 - dp_timeNow d > 1000" "late = filter (overdue (now div 1000)) (dp_timeOut d)"
    and "sends_at_most B sv" "never_throws sv" "\<forall>e \<in> set (dm_all m). dp_token e + int (B * length late) < 2 ^ 31"
  shows "\<exists>m'. expire sv i now m = Inr (False, m') \<and>
    dm_calls m' = dm_calls m @ concat (map (timeout_call sv i \<circ> timeout_message (dv_old sv) \<circ> snd) late) \<and>
    (\<forall>k < dp_token d. map_of (dp_timeOut (dm_all m' ! i)) k =
       (case map_of (dp_timeOut d) k of Some item \<Rightarrow> if ai_time item \<le> now div 1000 then None else Some item | None \<Rightarrow> None)) \<and>
    dp_timeNow (dm_all m' ! i) = now div 1000"
proof -
  let ?d = "d\<lparr>dp_timeOut := filter (Not \<circ> overdue (now div 1000)) (dp_timeOut d)\<rparr>" and ?m = "set_dispatcher i"
  let ?xs = "map (timeout_message (dv_old sv) \<circ> snd) late"
  have ok: "requests_ok j (dm_calls m) (hand j) (dm_all m ! j)" if "j < length (dm_all m)" for j
    using dispatch_reach_ok [OF assms(3)] that by (simp add: all_requests_ok_def)
  have xs: "\<forall>x \<in> set ?xs. nm_messageType (fst x) = Ack \<and> nm_errno (fst x) = eReqTimeOut"
    by (auto simp: timeout_message_def Let_def SetHead_def sHeader_def)
  have "tokens_left (0 + int (B * length ?xs)) (set_dispatcher i ?d m)"
    using ok assms(1,2,8) by (fastforce simp: tokens_left_def set_dispatcher_def nth_list_update requests_ok_def)
  from timeouts_total [OF assms(6,7) _ xs this] obtain m1 where
    m1: "dispatch_until sv i ?xs (set_dispatcher i ?d m) = Inr (False, m1)" "grown (set_dispatcher i ?d m) m1"
    "dm_calls m1 = dm_calls (set_dispatcher i ?d m) @ concat (map (timeout_call sv i) ?xs)" by auto
  have i1: "i < length (dm_all m1)" using m1(2) assms(1) by (simp add: grown_def set_dispatcher_def)
  let ?e = "(dm_all m1 ! i)\<lparr>dp_timeNow := now div 1000\<rparr>"
  have "expire sv i now m = Inr (False, set_dispatcher i ?e m1)"
    using assms(1,2,4,5) m1(1) i1 by (simp add: expire_def take_overdue_def rd_def)
  moreover have "map_of (dp_timeOut ?e) k =
       (case map_of (dp_timeOut d) k of Some item \<Rightarrow> if ai_time item \<le> now div 1000 then None else Some item | None \<Rightarrow> None)"
    if "k < dp_token d" for k
  proof -
    have "ordered (dp_timeOut d)" using ok [OF assms(1)] assms(2) by (simp add: requests_ok_def)
    then show ?thesis using grownD(5) [OF m1(2), of i k] assms(1) that
      by (auto simp: set_dispatcher_def map_of_filter overdue_def split: option.splits)
  qed
  ultimately show ?thesis using i1 m1(3) by (auto simp: set_dispatcher_def comp_assoc)
qed

section \<open>The queue\<close>

text \<open>The call for a message that is not an acknowledgement.\<close>

definition plain_call :: "'h service \<Rightarrow> nat \<Rightarrow> net_message \<Rightarrow> (nat \<times> 'h delivery) list" where
  "plain_call sv i msg =
     (if nm_messageType msg = SimpleMessage then (case GetMessageHandler (nm_messageID msg) (dv_handlers sv) of None \<Rightarrow> []
        | Some h \<Rightarrow> [(i, Handle_Message h msg)])
      else case GetRequestHandler (nm_messageID msg) (dv_handlers sv) of None \<Rightarrow> [] | Some h \<Rightarrow> [(i, Handle_Request h msg)])"

lemma Dispatch_plain:
  assumes "nm_messageType msg \<in> {SimpleMessage, Request}" "tokens_left (n + int B) m" "0 \<le> n" "sends_at_most B sv"
  shows "\<exists>t m'. Dispatch sv i (msg, req) m = Inr (t, m') \<and> tokens_left n m' \<and> grown m m' \<and>
    dm_calls m' = dm_calls m @ plain_call sv i msg"
proof -
  have t: "tokens_left n m" by (rule tokens_left_mono [OF assms(2)]) simp
  have "(\<exists>c. Dispatch sv i (msg, req) m = call sv i c m \<and> plain_call sv i msg = [(i, c)]) \<or>
      (Dispatch sv i (msg, req) m = Inr (False, m) \<and> plain_call sv i msg = [])"
    using assms(1) by (auto simp: Dispatch_def plain_call_def SimpleMessage_def Request_def split: option.splits)
  then show ?thesis
  proof
    assume "\<exists>c. Dispatch sv i (msg, req) m = call sv i c m \<and> plain_call sv i msg = [(i, c)]"
    then obtain c where "Dispatch sv i (msg, req) m = call sv i c m" "plain_call sv i msg = [(i, c)]" by blast
    with call_total [OF assms(2,3,4), of i c] show ?thesis by auto
  qed (use t in auto)
qed

lemma dispatch_each_total:
  assumes "sends_at_most B sv" "0 \<le> n"
  shows "\<forall>msg \<in> set q. nm_messageType msg \<in> {SimpleMessage, Request} \<Longrightarrow> tokens_left (n + int (B * length q)) m \<Longrightarrow>
    \<exists>m'. dispatch_each sv i (map (\<lambda>msg. (msg, None)) q) m = Inr m' \<and> tokens_left n m' \<and> grown m m' \<and>
      dm_calls m' = dm_calls m @ concat (map (plain_call sv i) q)"
proof (induction q arbitrary: m)
  case (Cons x xs)
  have t: "tokens_left (n + int (B * length xs) + int B) m" using Cons.prems(2) by (simp add: algebra_simps)
  from Dispatch_plain [OF _ t _ assms(1), of x i None] Cons.prems(1) assms(2) obtain t1 m1 where
    m1: "Dispatch sv i (x, None) m = Inr (t1, m1)" "tokens_left (n + int (B * length xs)) m1" "grown m m1"
    "dm_calls m1 = dm_calls m @ plain_call sv i x" by auto
  from Cons.IH [OF _ m1(2)] Cons.prems(1) m1 show ?case by (auto intro: grown_trans)
qed auto

lemma reach_tokens_left:
  assumes "dispatch_reach sv m hand" "dm_all m \<noteq> []" "\<forall>e \<in> set (dm_all m). dp_token e + n < 2 ^ 31"
  shows "tokens_left n m"
  using dispatch_reach_ok [OF assms(1)] assms(2,3) by (auto simp: tokens_left_def all_requests_ok_def requests_ok_def)

text \<open>
  C7. \<open>ProcessMessage\<close> serves the queue. Each waiting message or request gets one call, of the handler of its number,
  in the order of arrival; a number without a handler gets none. The queue is empty afterwards, and this
  is so even when handlers throw. The turn is one that does not look at the clock.
\<close>

theorem queue_served_in_order:
  assumes "i < length (dm_all m)" "dispatch_reach sv m hand" "\<not> now div 1000 - dp_timeNow (dm_all m ! i) > 1000"
    and "q = dp_deque (dm_all m ! i)" "\<forall>msg \<in> set q. nm_messageType msg \<in> {SimpleMessage, Request}"
    and "sends_at_most B sv" "\<forall>e \<in> set (dm_all m). dp_token e + int (B * length q) < 2 ^ 31"
  shows "\<exists>m'. ProcessMessage sv i now m = Inr (False, m') \<and> dm_calls m' = dm_calls m @ concat (map (plain_call sv i) q) \<and>
    dp_deque (dm_all m' ! i) = []"
proof -
  let ?m = "set_dispatcher i ((dm_all m ! i)\<lparr>dp_deque := []\<rparr>) m"
  have "tokens_left (0 + int (B * length q)) m" using reach_tokens_left [OF assms(2) _ assms(7)] assms(1) by fastforce
  then have "tokens_left (0 + int (B * length q)) ?m"
    using assms(1) by (auto simp: tokens_left_def set_dispatcher_def nth_list_update)
  from dispatch_each_total [OF assms(6) _ assms(5) this] obtain m' where
    m': "dispatch_each sv i (map (\<lambda>msg. (msg, None)) q) ?m = Inr m'" "grown ?m m'"
    "dm_calls m' = dm_calls m @ concat (map (plain_call sv i) q)" by (auto simp: set_dispatcher_def)
  have "ProcessMessage sv i now m = Inr (False, m')"
    using assms(1,3,4) m'(1) by (simp add: ProcessMessage_def expire_def take_queue_def rd_def)
  moreover have "dp_deque (dm_all m' ! i) = []"
    using grownD(3) [OF m'(2), of i] assms(1) by (simp add: set_dispatcher_def)
  ultimately show ?thesis using m'(3) by auto
qed

text \<open>
  With several dispatching threads, a handler that throws costs messages: the turn of
  \<open>DispatchMessage\<close> ends there, and every message behind is taken from the queue and never dispatched.
\<close>

theorem throwing_handler_loses_queue:
  assumes "i < length (dm_all m)" "dispatch_reach sv m hand" "\<not> now div 1000 - dp_timeNow (dm_all m ! i) > 1000"
    and "dp_deque (dm_all m ! i) = x # rest" "nm_messageType x \<in> {SimpleMessage, Request}" "plain_call sv i x = [c]"
    and "snd (dv_react sv (dm_calls m) c)" "sends_at_most B sv" "\<forall>e \<in> set (dm_all m). dp_token e + int B < 2 ^ 31"
  shows "\<exists>m'. DispatchMessage_turn sv cx ctl i now (m, loops) = Inr (m', loops) \<and> dm_calls m' = dm_calls m @ [c] \<and>
    dp_deque (dm_all m' ! i) = []"
proof -
  let ?m = "set_dispatcher i ((dm_all m ! i)\<lparr>dp_deque := []\<rparr>) m"
  have "tokens_left (0 + int B) m" using reach_tokens_left [OF assms(2) _ assms(9)] assms(1) by fastforce
  then have t: "tokens_left (0 + int B) ?m"
    using assms(1) by (auto simp: tokens_left_def set_dispatcher_def nth_list_update)
  obtain d where c: "c = (i, d)" "Dispatch sv i (x, None) ?m = call sv i d ?m"
    using assms(5,6) by (auto simp: Dispatch_def plain_call_def SimpleMessage_def Request_def split: option.splits if_splits)
  from call_total [OF t _ assms(8), of i d] assms(7) c obtain m' where
    m': "Dispatch sv i (x, None) ?m = Inr (True, m')" "grown ?m m'" "dm_calls m' = dm_calls m @ [c]"
    by (auto simp: set_dispatcher_def)
  have "DispatchMessage_turn sv cx ctl i now (m, loops) = Inr (m', loops)"
    using assms(1,3,4) m'(1) by (simp add: DispatchMessage_turn_def expire_def take_queue_def rd_def)
  moreover have "dp_deque (dm_all m' ! i) = []"
    using grownD(3) [OF m'(2), of i] assms(1) by (simp add: set_dispatcher_def)
  ultimately show ?thesis using m'(3) by auto
qed

section \<open>Examples\<close>

lemma demo_quiet: "sends_at_most 0 demo_service" "never_throws demo_service"
  by (simp_all add: sends_at_most_def never_throws_def demo_service_def)

theorem overdue_requests_settled_witness:
  "\<exists>m'. expire demo_service 0 2000000 demo_dispatchers = Inr (False, m') \<and> length (dm_calls m') = 2 \<and>
    map_of (dp_timeOut (dm_all m' ! 0)) 1 = None"
proof -
  let ?late = "filter (overdue (2000000 div 1000)) (dp_timeOut demo_dispatcher)"
  have l: "0 < length (dm_all demo_dispatchers)" "demo_dispatcher = dm_all demo_dispatchers ! 0"
    "2000000 div 1000 - dp_timeNow demo_dispatcher > 1000"
    "\<forall>e \<in> set (dm_all demo_dispatchers). dp_token e + int (0 * length ?late) < 2 ^ 31"
    by (simp_all add: demo_dispatchers_def demo_dispatcher_def DispatchBase_new_def)
  have t: "1 < dp_token demo_dispatcher" "map_of (dp_timeOut demo_dispatcher) 1 =
      Some \<lparr>ai_token = 1, ai_req = demo_message Request 1, ai_time = 1000\<rparr>" "length ?late = 2"
    by (simp_all add: demo_dispatcher_def overdue_def)
  have c: "length (concat (map (timeout_call demo_service 0 \<circ> timeout_message (dv_old demo_service) \<circ> snd) ?late)) = 2"
    by (simp add: demo_dispatcher_def overdue_def timeout_call_def timeout_message_def Let_def SetHead_def sHeader_def
      demo_service_def GetAckHandler_def)
  from overdue_requests_settled [OF l(1,2) demo_waiting_reach l(3) refl demo_quiet l(4)] obtain m' where
    m': "expire demo_service 0 2000000 demo_dispatchers = Inr (False, m')" "dm_calls m' = dm_calls demo_dispatchers @
      concat (map (timeout_call demo_service 0 \<circ> timeout_message (dv_old demo_service) \<circ> snd) ?late)"
    "map_of (dp_timeOut (dm_all m' ! 0)) 1 = None" using t(1,2) by force
  have "length (dm_calls m') = 2" using c by (simp add: m'(2) demo_dispatchers_def)
  with m' show ?thesis by blast
qed

text \<open>Two messages wait; the handler throws when \<open>thrower\<close> serves them.\<close>

definition demo_queue :: "unit dispatch_mgr" where
  "demo_queue = demo_dispatchers\<lparr>dm_all := [demo_dispatcher\<lparr>dp_deque := [demo_message SimpleMessage 0, demo_message SimpleMessage 0]\<rparr>]\<rparr>"

definition thrower :: "unit service" where
  "thrower = demo_service\<lparr>dv_react := (\<lambda>_ _. ([], True))\<rparr>"

lemma demo_queue_reach: "dispatch_reach sv demo_queue (\<lambda>_. [])"
proof -
  have "Receive 5 [demo_message SimpleMessage 0, demo_message SimpleMessage 0] demo_dispatchers = Inr demo_queue"
    by (simp add: Receive_def GetDispatch_def rd_def set_dispatcher_def dp_AddMessages_def demo_dispatchers_def
      demo_dispatcher_def DispatchBase_new_def demo_queue_def)
  with demo_waiting_reach show ?thesis by (rule dispatch_reach.receive)
qed

lemma demo_plain: "plain_call sv 0 (demo_message SimpleMessage 0) = [(0, Handle_Message () (demo_message SimpleMessage 0))]"
  if "dv_handlers sv = dv_handlers demo_service" for sv :: "unit service"
  by (simp add: plain_call_def that demo_service_def GetMessageHandler_def)

theorem queue_served_in_order_witness:
  "\<exists>m'. ProcessMessage demo_service 0 0 demo_queue = Inr (False, m') \<and> dp_deque (dm_all m' ! 0) = [] \<and>
    dm_calls m' = replicate 2 (0, Handle_Message () (demo_message SimpleMessage 0))"
proof -
  have q: "dp_deque (dm_all demo_queue ! 0) = [demo_message SimpleMessage 0, demo_message SimpleMessage 0]"
    by (simp add: demo_queue_def)
  have "\<exists>m'. ProcessMessage demo_service 0 0 demo_queue = Inr (False, m') \<and> dm_calls m' = dm_calls demo_queue @
      concat (map (plain_call demo_service 0) [demo_message SimpleMessage 0, demo_message SimpleMessage 0]) \<and>
      dp_deque (dm_all m' ! 0) = []"
    by (rule queue_served_in_order [OF _ demo_queue_reach _ q [symmetric] _ demo_quiet(1)])
      (simp_all add: demo_queue_def demo_dispatcher_def DispatchBase_new_def)
  then show ?thesis by (auto simp: demo_plain demo_queue_def demo_dispatchers_def eval_nat_numeral)
qed

theorem throwing_handler_loses_queue_witness:
  "\<forall>cx. \<exists>m'. DispatchMessage_turn thrower cx True 0 0 (demo_queue, []) = Inr (m', []) \<and> length (dm_calls m') = 1 \<and>
    dp_deque (dm_all m' ! 0) = []"
proof
  fix cx
  let ?x = "demo_message SimpleMessage 0"
  have q: "dp_deque (dm_all demo_queue ! 0) = ?x # [?x]" by (simp add: demo_queue_def)
  have t: "sends_at_most 0 thrower" "dv_handlers thrower = dv_handlers demo_service"
    by (simp_all add: sends_at_most_def thrower_def)
  have "\<exists>m'. DispatchMessage_turn thrower cx True 0 0 (demo_queue, []) = Inr (m', []) \<and>
      dm_calls m' = dm_calls demo_queue @ [(0, Handle_Message () ?x)] \<and> dp_deque (dm_all m' ! 0) = []"
    by (rule throwing_handler_loses_queue [OF _ demo_queue_reach _ q _ demo_plain [OF t(2)] _ t(1)])
      (simp_all add: demo_queue_def demo_dispatcher_def DispatchBase_new_def thrower_def)
  then show "\<exists>m'. DispatchMessage_turn thrower cx True 0 0 (demo_queue, []) = Inr (m', []) \<and> length (dm_calls m') = 1 \<and>
    dp_deque (dm_all m' ! 0) = []" by (auto simp: demo_queue_def demo_dispatchers_def)
qed

end
