(* ===== verification/ForgedEvents.thy ===== *)
theory ForgedEvents
  imports DispatchTurns SessionStream
begin

text \<open>
  The events of \<open>ChannelEvents\<close> are messages like those of the peers. What separates the two is the
  type of a message, which a peer writes itself.
\<close>

text \<open>
  C13. A peer can invent events. A packet of type \<open>SystemMessage\<close> passes the checks of the session like any
  other, and its body is what the service handler is told: that any connection of this process, not
  only the one it came over, was built, has failed or is broken. The packet needs no signature here, as
  on connections that are not secure.
\<close>

theorem peer_forges_event:
  assumes "md5_mem_ok (sv_md5 srv)" "frame_ok (h, con_bytes be e)" "accepted srv s (h, con_bytes be e)" "\<not> ns_security s"
    and "ph_messageType h = SystemMessage" "ph_messageID h = event_id (se_err e)" "event_for e = Some ev" "dv_be sv = be"
    and "dv_ip_of sv (GetIPToString be (fst (se_addr e))) = fst (se_addr e)"
    and "- (2 ^ 31) \<le> se_fd e" "se_fd e < 2 ^ 31" "- (2 ^ 31) \<le> se_err e" "se_err e < 2 ^ 31"
  shows "\<exists>msg. packet_message srv h (con_bytes be e) s = Inr (Some msg) \<and> nm_channelID msg = ns_sock s \<and>
    (\<forall>i m. Dispatch sv i (msg, None) m = call sv i (Service ev) m)"
proof -
  let ?b = "con_bytes be e"
  obtain msg where msg: "packet_message srv h ?b s = Inr (Some msg)" "seen msg = expected s (h, ?b)" "message_fields s h msg"
    using packet_message_any [OF assms(1,2), of s] assms(3,4) by auto
  have f: "nm_messageID msg = event_id (se_err e)" "nm_messageType msg = SystemMessage" "body msg = ?b" "nm_channelID msg = ns_sock s"
    using msg(2) assms(4-6) by (simp_all add: seen_def expected_def)
  have b: "body_ok msg" using msg(3) by (simp add: message_fields_def)
  have "length (body msg) = nat (nm_length msg)" using b by (auto simp: body_def body_ok_def)
  then have l: "nm_length msg = int con_size" using b f(3) by (auto simp: body_ok_def con_size_def)
  have "nm_content msg = ?b @ drop con_size (nm_content msg)"
    using f(3) l append_take_drop_id [of con_size "nm_content msg"] by (simp add: body_def)
  from event_of_con [where m = msg and be = be and e = e and ip_of = "dv_ip_of sv" and old = "dv_old sv", OF this l f(1) assms(9-13)]
    assms(7,8)
  have "event_of (dv_be sv) (dv_old sv) (dv_ip_of sv) msg = Inr (Some ev)" by simp
  then have "Dispatch sv i (msg, None) m = call sv i (Service ev) m" for i m
    using f(2) by (simp add: Dispatch_def SystemMessage_def SimpleMessage_def Request_def Ack_def)
  with msg(1) f(4) show ?thesis by blast
qed

definition forged_header :: packet_header where
  "forged_header = \<lparr>ph_length = 36, ph_security = 0, ph_remoteType = 2, ph_remoteID = 7, ph_localType = 1,
     ph_messageID = 1, ph_messageType = 4, ph_reqID = 0, ph_sendTime = 0\<rparr>"

theorem peer_forges_event_witness:
  "\<exists>msg. packet_message (demo_server 7 2) forged_header (con_bytes False lost_connection)
      (Session_new (demo_server 7 2) 9 0 (0, 0) False) = Inr (Some msg) \<and> nm_channelID msg = 9 \<and>
    (\<forall>i m. Dispatch (demo_service\<lparr>dv_ip_of := (\<lambda>_. 0x0100007F)\<rparr>) i (msg, None) m =
      call (demo_service\<lparr>dv_ip_of := (\<lambda>_. 0x0100007F)\<rparr>) i (Service (on_channel_error 7 1 2 3 4 23 (0x0100007F, 9000))) m)"
proof -
  let ?sv = "demo_service\<lparr>dv_ip_of := (\<lambda>_. 0x0100007F)\<rparr>" and ?s = "Session_new (demo_server 7 2) 9 0 (0, 0) False"
  have ev: "event_id (se_err lost_connection) = 1" "event_for lost_connection = Some (on_channel_error 7 1 2 3 4 23 (0x0100007F, 9000))"
    by (simp_all add: lost_connection_def event_for_def event_id_def eSocketClose_def eConnErr_def eAddSeTimeoutErr_def
      eGetSocketErr_def eSetSocketErr_def eCtlEpollErr_def eSessionAdded_def eNotTimeOut_def eEpollClose_def eEpollNull_def
      eConMessageErr_def eConnPacketErr_def eSessionTimeout_def eConnErrMessage_def eConnFailMessage_def)
  have fr: "frame_ok (forged_header, con_bytes False lost_connection)"
    "accepted (demo_server 7 2) ?s (forged_header, con_bytes False lost_connection)"
    by (simp_all add: frame_ok_def header_bad_def forged_header_def accepted_def demo_server_def con_size_def
      Session_new_def HEADER_SIZE_def eMax_def SystemMessage_def linorder_not_le)
  have md: "md5_mem_ok (sv_md5 (demo_server 7 2))" by (simp add: demo_server_def md5_mem_ok_def blank_md5_def)
  have e: "dv_ip_of ?sv x = fst (se_addr lost_connection)" "se_fd lost_connection = 7" "se_err lost_connection = 23" for x
    by (simp_all add: lost_connection_def eSocketClose_def)
  have "\<exists>msg. packet_message (demo_server 7 2) forged_header (con_bytes False lost_connection) ?s = Inr (Some msg) \<and>
      nm_channelID msg = ns_sock ?s \<and>
      (\<forall>i m. Dispatch ?sv i (msg, None) m = call ?sv i (Service (on_channel_error 7 1 2 3 4 23 (0x0100007F, 9000))) m)"
    by (rule peer_forges_event [OF md fr _ _ _ ev(2)])
      (use ev(1) e in \<open>simp_all add: Session_new_def forged_header_def SystemMessage_def demo_service_def\<close>)
  then show ?thesis by (simp add: Session_new_def)
qed

end
