(* ===== verification/Calendar.thy ===== *)
theory Calendar
  imports Prelude
begin

text \<open>
  The calendar of \<open>CommBase/util.cpp\<close>: lengths of months, the way to the same day of a later month,
  and the comparisons of a point in time with now. The broken-down times that \<open>localtime_r\<close> gives are
  arguments.
\<close>

section \<open>Definitions\<close>

record tm =
  tm_sec :: int
  tm_min :: int
  tm_hour :: int
  tm_mday :: int
  tm_mon :: int
  tm_year :: int
  tm_wday :: int

definition GetCurMonthDay :: "int \<Rightarrow> int \<Rightarrow> int" where
  "GetCurMonthDay year month =
     (if month \<in> {1, 3, 5, 7, 8, 10, 12} then 31
      else if month \<in> {4, 6, 9, 11} then 30
      else if month = 2 then (if (year mod 4 = 0 \<and> year mod 100 \<noteq> 0) \<or> year mod 400 = 0 then 29 else 28)
      else 0)"

text \<open>The loop of \<open>GetNextMonthDay\<close>: its counter, the time so far and the month that was found.\<close>

function month_loop :: "int \<Rightarrow> int \<Rightarrow> int \<Rightarrow> int \<Rightarrow> int \<Rightarrow> int \<Rightarrow> int \<Rightarrow> int \<times> int \<times> int" where
  "month_loop year day i j tyear diffTime nMonth =
     (if i \<le> 12 \<and> j \<le> 12 then
        let tmon = (if i + 1 > 12 then 1 else i + 1);
            tyear = (if i + 1 > 12 then year + 1 else tyear);
            tday = GetCurMonthDay tyear tmon
        in if tday \<ge> day then (j, diffTime, tmon)
           else month_loop year day (i + 1) (j + 1) tyear (diffTime + tday * 24 * 3600 * 1000) nMonth
      else (j, diffTime, nMonth))"
  by pat_completeness auto
termination by (relation "measure (\<lambda>(_, _, i, _). nat (13 - i))") auto

declare month_loop.simps [simp del]

definition GetNextMonthDay :: "int \<Rightarrow> int \<Rightarrow> int \<Rightarrow> int \<Rightarrow> int \<times> int" where
  "GetNextMonthDay year month day nMonth =
     (case month_loop year day month 1 year 0 nMonth of (j, diffTime, nMonth) \<Rightarrow>
        (if j > 12 then 0 else diffTime + GetCurMonthDay year month * 24 * 3600 * 1000, nMonth))"

definition IsSameDay :: "tm \<Rightarrow> tm \<Rightarrow> bool" where
  "IsSameDay pNow p \<longleftrightarrow> \<not> (tm_year pNow \<noteq> tm_year p \<or> tm_mon pNow \<noteq> tm_mon p \<or> tm_mday pNow \<noteq> tm_mday p)"

definition IsSameMonth :: "tm \<Rightarrow> tm \<Rightarrow> bool" where
  "IsSameMonth pNow p \<longleftrightarrow> \<not> (tm_year pNow \<noteq> tm_year p \<or> tm_mon pNow \<noteq> tm_mon p)"

definition week_day :: "tm \<Rightarrow> int" where
  "week_day p = (if tm_wday p = 0 then 7 else tm_wday p)"

text \<open>Years and months are given to \<open>GetCurMonthDay\<close> as \<open>struct tm\<close> holds them: from 1900 and from 0 on.\<close>

definition IsSameWeek :: "tm \<Rightarrow> tm \<Rightarrow> bool" where
  "IsSameWeek pNow p =
     (let nowyear = tm_year pNow; nowmon = tm_mon pNow; nowday = tm_mday pNow; nowweek = week_day pNow;
          year = tm_year p; mon = tm_mon p; day = tm_mday p; week = week_day p in
      if nowyear \<noteq> year then False
      else if nowmon = mon then
        (if \<bar>nowday - day\<bar> \<ge> 7 then False
         else if nowday > day then \<not> nowweek < week
         else if nowday < day then \<not> nowweek > week
         else True)
      else if \<bar>nowmon - mon\<bar> = 1 then
        (if nowmon > mon then
           (if GetCurMonthDay year mon - day + nowday \<ge> 7 then False else \<not> nowweek < week)
         else if GetCurMonthDay nowyear nowmon - nowday + day \<ge> 7 then False else \<not> nowweek < week)
      else False)"

section \<open>The same day of a later month\<close>

text \<open>Months counted through, and their lengths.\<close>

definition month_length :: "int \<Rightarrow> int" where
  "month_length n = GetCurMonthDay (n div 12) (n mod 12 + 1)"

lemma month_length_at: "1 \<le> month \<Longrightarrow> month \<le> 12 \<Longrightarrow> month_length (12 * year + (month - 1)) = GetCurMonthDay year month"
  by (simp add: month_length_def div_add1_eq)

lemma long_months: "month \<in> {1, 3, 5, 7, 8, 10, 12} \<Longrightarrow> GetCurMonthDay year month = 31"
  by (simp add: GetCurMonthDay_def)

lemma GetCurMonthDay_bounds: "1 \<le> month \<Longrightarrow> month \<le> 12 \<Longrightarrow> 28 \<le> GetCurMonthDay year month \<and> GetCurMonthDay year month \<le> 31"
  by (simp add: GetCurMonthDay_def) presburger

lemma next_length:
  assumes "1 \<le> month" "month \<le> 12"
  shows "month_length (12 * year + (month - 1) + 1) =
    GetCurMonthDay (if month + 1 > 12 then year + 1 else year) (if month + 1 > 12 then 1 else month + 1)"
proof (cases "month = 12")
  case True
  then have "month_length (12 * year + (month - 1) + 1) = month_length (12 * (year + 1) + (1 - 1))" by (simp add: algebra_simps)
  then show ?thesis using True month_length_at [of 1 "year + 1"] by simp
next
  case False
  then have "month_length (12 * year + (month - 1) + 1) = month_length (12 * year + ((month + 1) - 1))" by simp
  then show ?thesis using False assms month_length_at [of "month + 1" year] by simp
qed

text \<open>Short months are followed by long ones.\<close>

lemma after_short_month:
  assumes "1 \<le> month" "month \<le> 12" "GetCurMonthDay year month < 31"
  shows "month + 1 \<le> 12 \<and> GetCurMonthDay year (month + 1) = 31"
proof -
  have "month = 1 \<or> month = 2 \<or> month = 3 \<or> month = 4 \<or> month = 5 \<or> month = 6 \<or> month = 7 \<or> month = 8 \<or>
      month = 9 \<or> month = 10 \<or> month = 11 \<or> month = 12" using assms(1,2) by presburger
  then have "month \<in> {2, 4, 6, 9, 11}" using assms(3) by (auto simp: GetCurMonthDay_def)
  then show ?thesis by (auto simp: GetCurMonthDay_def)
qed

text \<open>
  C16. \<open>GetNextMonthDay\<close> is exact: from a day of a month, its result is the time to the same day of the
  first later month that has such a day (the days of all months in between), and the number of
  that month. At most one month is skipped.
\<close>

theorem next_month_day_exact:
  assumes "1 \<le> month" "month \<le> 12" "1 \<le> day" "day \<le> GetCurMonthDay year month"
  shows "\<exists>k n. k \<in> {1, 2} \<and> GetNextMonthDay year month day n0 =
      (86400000 * (\<Sum>i < k. month_length (12 * year + (month - 1) + int i)), n) \<and>
    n = (month - 1 + int k) mod 12 + 1 \<and> day \<le> month_length (12 * year + (month - 1) + int k) \<and>
    (\<forall>i. 0 < i \<and> i < k \<longrightarrow> month_length (12 * year + (month - 1) + int i) < day)"
proof -
  let ?idx = "12 * year + (month - 1)"
  let ?y = "if month + 1 > 12 then year + 1 else year" and ?m = "if month + 1 > 12 then 1 else month + 1"
  have d: "day \<le> 31" using assms GetCurMonthDay_bounds [of month year] by simp
  have l0: "month_length ?idx = GetCurMonthDay year month" using month_length_at assms by blast
  have l1: "month_length (?idx + 1) = GetCurMonthDay ?y ?m" using next_length assms(1,2) by blast
  have m: "?m = (month - 1 + 1) mod 12 + 1" using assms by (cases "month = 12") auto
  show ?thesis
  proof (cases "day \<le> GetCurMonthDay ?y ?m")
    case True
    then have "month_loop year day month 1 year 0 n0 = (1, 0, ?m)" using assms by (subst month_loop.simps) (simp add: Let_def)
    then have "GetNextMonthDay year month day n0 = (86400000 * month_length ?idx, ?m)" by (simp add: GetNextMonthDay_def l0)
    with True l1 m show ?thesis by (intro exI [of _ "1::nat"] exI [of _ ?m]) auto
  next
    case False
    then have short: "GetCurMonthDay ?y ?m < 31" using d by simp
    have m12: "month + 1 \<le> 12" using short assms(2) by (cases "month = 12") (simp_all add: GetCurMonthDay_def)
    then have y: "?y = year" "?m = month + 1" by auto
    from after_short_month [of "month + 1" year] short y assms
    have s: "month + 2 \<le> 12" "GetCurMonthDay year (month + 2) = 31" using m12 by (auto simp: algebra_simps)
    have l2: "month_length (?idx + 2) = 31"
      using next_length [of "month + 1" year] s assms by (simp add: algebra_simps)
    have "month_loop year day (month + 1) 2 year (GetCurMonthDay year (month + 1) * 86400000) n0 =
        (2, GetCurMonthDay year (month + 1) * 86400000, month + 2)"
      using assms s d by (subst month_loop.simps) (simp add: Let_def add.commute [of 2 month])
    then have "month_loop year day month 1 year 0 n0 = (2, GetCurMonthDay year (month + 1) * 86400000, month + 2)"
      using assms m12 False y by (subst month_loop.simps) (simp add: Let_def mult.commute)
    then have "GetNextMonthDay year month day n0 =
        (86400000 * (GetCurMonthDay year month + GetCurMonthDay year (month + 1)), month + 2)"
      by (simp add: GetNextMonthDay_def algebra_simps)
    moreover have "month_length (?idx + 1) = GetCurMonthDay year (month + 1)" using l1 unfolding y .
    ultimately have g: "GetNextMonthDay year month day n0 = (86400000 * (month_length ?idx + month_length (?idx + 1)), month + 2)"
      by (simp only: l0)
    have sum: "(\<Sum>i < (2::nat). month_length (?idx + int i)) = month_length ?idx + month_length (?idx + 1)"
      by (simp add: eval_nat_numeral)
    have lt: "month_length (?idx + int i) < day" if "0 < i \<and> i < 2" for i :: nat
      using that False l1 by (cases "i = 1") auto
    show ?thesis
      using g s d l2 lt sum assms by (intro exI [of _ "2::nat"] exI [of _ "month + 2"]) auto
  qed
qed

text \<open>From January 30 to the same day of March.\<close>

theorem next_month_day_exact_witness:
  "\<exists>k n. k \<in> {1, 2} \<and> GetNextMonthDay 2017 1 30 0 = (86400000 * (\<Sum>i < k. month_length (24204 + int i)), n) \<and>
    n = int k mod 12 + 1 \<and> 30 \<le> month_length (24204 + int k)"
proof -
  have "(30::int) \<le> GetCurMonthDay 2017 1" by (simp add: GetCurMonthDay_def)
  from next_month_day_exact [of 1 30 2017 0, OF _ _ _ this] show ?thesis by auto
qed

section \<open>The same week\<close>

text \<open>Days and weeks are counted from any Monday; \<open>first\<close> is the number of the first of the month.\<close>

definition day_of_month :: "int \<Rightarrow> tm \<Rightarrow> bool" where
  "day_of_month first p \<longleftrightarrow> week_day p = (first + tm_mday p - 1) mod 7 + 1"

lemma weeks_compare:
  fixes a b :: int
  assumes "a \<le> b" "b - a < 7"
  shows "a div 7 = b div 7 \<longleftrightarrow> a mod 7 \<le> b mod 7"
  using assms by presburger

definition in_2017 :: "int \<Rightarrow> int \<Rightarrow> int \<Rightarrow> tm" where
  "in_2017 mon day wday = \<lparr>tm_sec = 0, tm_min = 0, tm_hour = 12, tm_mday = day, tm_mon = mon, tm_year = 117, tm_wday = wday\<rparr>"

text \<open>
  Within one month \<open>IsSameWeek\<close> is right: it holds exactly for days of the same week from
  Monday to Sunday, when the days of the week fit the days of the month. Over the end of a month it is wrong in
  both directions: January 10 and February 1 of 2017 are taken for one week, and the neighbours January 31
  and February 1 are not.
\<close>

theorem same_week_within_month:
  "(day_of_month first pNow \<and> day_of_month first p \<and> tm_year pNow = tm_year p \<and> tm_mon pNow = tm_mon p \<longrightarrow>
     (IsSameWeek pNow p \<longleftrightarrow> (first + tm_mday pNow - 1) div 7 = (first + tm_mday p - 1) div 7)) \<and>
   IsSameWeek (in_2017 1 1 3) (in_2017 0 10 2) \<and> \<not> IsSameWeek (in_2017 0 31 2) (in_2017 1 1 3)"
proof (intro conjI impI)
  assume a: "day_of_month first pNow \<and> day_of_month first p \<and> tm_year pNow = tm_year p \<and> tm_mon pNow = tm_mon p"
  let ?n = "first + tm_mday pNow - 1" and ?p = "first + tm_mday p - 1"
  have w: "week_day pNow = ?n mod 7 + 1" "week_day p = ?p mod 7 + 1" using a by (simp_all add: day_of_month_def)
  have far: "\<bar>tm_mday pNow - tm_mday p\<bar> \<ge> 7 \<Longrightarrow> ?n div 7 \<noteq> ?p div 7" by presburger
  consider "\<bar>tm_mday pNow - tm_mday p\<bar> \<ge> 7" | "tm_mday pNow > tm_mday p" "\<bar>tm_mday pNow - tm_mday p\<bar> < 7"
    | "tm_mday pNow < tm_mday p" "\<bar>tm_mday pNow - tm_mday p\<bar> < 7" | "tm_mday pNow = tm_mday p" by linarith
  then show "IsSameWeek pNow p \<longleftrightarrow> ?n div 7 = ?p div 7"
  proof cases
    case 1
    then show ?thesis using a far by (simp add: IsSameWeek_def)
  next
    case 2
    then show ?thesis using a w weeks_compare [of ?p ?n] by (auto simp: IsSameWeek_def Let_def)
  next
    case 3
    then show ?thesis using a w weeks_compare [of ?n ?p] by (auto simp: IsSameWeek_def Let_def)
  next
    case 4
    then show ?thesis using a w by (simp add: IsSameWeek_def Let_def)
  qed
qed (simp_all add: in_2017_def IsSameWeek_def week_day_def GetCurMonthDay_def)

theorem same_week_within_month_witness:
  "IsSameWeek (in_2017 5 12 1) (in_2017 5 18 0)"
proof -
  have "day_of_month 3 (in_2017 5 12 1)" "day_of_month 3 (in_2017 5 18 0)"
    by (simp_all add: in_2017_def day_of_month_def week_day_def)
  with same_week_within_month [of 3 "in_2017 5 12 1" "in_2017 5 18 0"] show ?thesis by (simp add: in_2017_def)
qed

end
