(* ===== verification/TimerWheel.thy ===== *)
theory TimerWheel
  imports OrdMap Calendar
begin

text \<open>
  The timers of the C++ servers: \<open>CommBase/Timer\<close>. A wheel of 3000 slots turns by one slot every 100
  milliseconds; a timer waits in a slot for a number of rounds. \<open>SingleTimerManager\<close>
  (\<open>NewSingleTimerMgr.cpp\<close>) collects the timers that are due for the main loop, \<open>TimerManager\<close>
  (\<open>TimerManager.cpp\<close>) calls them itself. Timers are shared: they live in a store, and a reference is a
  place in it. \<open>react\<close> gives what the function of a timer does with the timers, from the timers that have
  been called so far. Times are in milliseconds.
\<close>

section \<open>Timers\<close>

definition SLOT_COUNT :: int where "SLOT_COUNT = 3000"
definition SLOT_CHANGE_TIME :: int where "SLOT_CHANGE_TIME = 100"

datatype timer_type = LoopTimer | OnceTimer | MonthLoopTimer

record wheel_timer =
  ti_type :: timer_type
  ti_ID :: u32
  ti_interval :: int
  ti_start :: u32
  ti_bePoint :: int
  ti_tickPoint :: int
  ti_elapseRound :: u16
  ti_delflag :: bool
  ti_ticks :: u32
  ti_round :: int

definition Timer_new :: wheel_timer where
  "Timer_new = \<lparr>ti_type = OnceTimer, ti_ID = 0, ti_interval = 0, ti_start = 0, ti_bePoint = 0, ti_tickPoint = 0,
     ti_elapseRound = 0, ti_delflag = False, ti_ticks = 0, ti_round = 0\<rparr>"

definition OnTickEx :: "int \<Rightarrow> wheel_timer \<Rightarrow> bool \<times> wheel_timer" where
  "OnTickEx tick t =
     (if tick - ti_bePoint t \<ge> 0 then (True, t)
      else let t = t\<lparr>ti_round := ti_round t - 1\<rparr> in (ti_round t \<le> 0, t))"

section \<open>The wheel\<close>

record timer_wheel =
  tw_timers :: "wheel_timer list"
  tw_slots :: "nat \<Rightarrow> (u32 \<times> nat) list"
  tw_currSlot :: nat
  tw_lastTimerID :: u32
  tw_timeout :: "nat list"
  tw_fired :: "nat list"

text \<open>\<open>tw_fired\<close>: the timers whose functions have been called, in order.\<close>

definition TimerManager_new :: timer_wheel where
  "TimerManager_new = \<lparr>tw_timers = [], tw_slots = (\<lambda>_. []), tw_currSlot = 0, tw_lastTimerID = 0, tw_timeout = [], tw_fired = []\<rparr>"

definition set_timer :: "nat \<Rightarrow> wheel_timer \<Rightarrow> timer_wheel \<Rightarrow> timer_wheel" where
  "set_timer r t w = w\<lparr>tw_timers := (tw_timers w)[r := t]\<rparr>"

text \<open>\<open>insert\<close> leaves an entry that is there.\<close>

definition Slot_AddTimer :: "nat \<Rightarrow> nat \<Rightarrow> timer_wheel \<Rightarrow> timer_wheel" where
  "Slot_AddTimer s r w =
     (let key = ti_ID (tw_timers w ! r); m = tw_slots w s
      in if map_of m key \<noteq> None then w else w\<lparr>tw_slots := (tw_slots w)(s := map_put key r m)\<rparr>)"

definition AddTimer_slot :: "nat \<Rightarrow> nat \<Rightarrow> timer_wheel \<Rightarrow> int \<times> timer_wheel" where
  "AddTimer_slot s r w = (if int s \<ge> SLOT_COUNT then (- 1, w) else (0, Slot_AddTimer s r w))"

text \<open>The end of \<open>AttachTimer\<close>: round and slot.\<close>

definition place_timer :: "nat \<Rightarrow> wheel_timer \<Rightarrow> timer_wheel \<Rightarrow> timer_wheel" where
  "place_timer r t w =
     (let t = t\<lparr>ti_round := uint (ti_ticks t div 3000 + 1)\<rparr>;
          slotNum = (tw_currSlot w + unat (ti_ticks t mod 3000)) mod 3000
      in Slot_AddTimer slotNum r (set_timer r t w))"

text \<open>A timer that is new, with its first number of ticks; \<open>lead\<close> is what the managers differ in.\<close>

definition attach_new :: "u32 \<Rightarrow> nat \<Rightarrow> timer_wheel \<Rightarrow> timer_wheel" where
  "attach_new lead r w =
     (let t = tw_timers w ! r in
      if ti_delflag t then w
      else let key = tw_lastTimerID w + 1; key = (if key = 0 then 1 else key)
        in place_timer r (t\<lparr>ti_ID := key, ti_ticks := (ti_start t - lead) div 100\<rparr>) (w\<lparr>tw_lastTimerID := key\<rparr>))"

text \<open>A timer that has gone off and comes again; \<open>date\<close> is the year, month and day of the call.\<close>

definition attach_again :: "int \<times> int \<times> int \<Rightarrow> int \<Rightarrow> nat \<Rightarrow> timer_wheel \<Rightarrow> timer_wheel" where
  "attach_again date tick r w =
     (let t = tw_timers w ! r in
      if ti_delflag t then w
      else let itv = (if ti_type t = MonthLoopTimer then (case date of (y, mo, d) \<Rightarrow> fst (GetNextMonthDay y mo d 0))
                 else ti_interval t);
               tSec = itv - tick + ti_bePoint t; tSec = (if tSec < 0 then 0 else tSec)
        in place_timer r (t\<lparr>ti_interval := itv, ti_ticks := word_of_int (tSec div SLOT_CHANGE_TIME),
             ti_bePoint := ti_bePoint t + itv, ti_tickPoint := 0, ti_elapseRound := 0\<rparr>) w)"

text \<open>What callers do with timers: add a new one, or cancel one.\<close>

datatype timer_op = Add_timer timer_type u32 int int | Cancel nat

definition SetDelete :: "nat \<Rightarrow> timer_wheel \<Rightarrow> timer_wheel" where
  "SetDelete r w = set_timer r ((tw_timers w ! r)\<lparr>ti_delflag := True\<rparr>) w"

fun timer_do :: "u32 \<Rightarrow> timer_op \<Rightarrow> timer_wheel \<Rightarrow> timer_wheel" where
  "timer_do lead (Add_timer ty start itv be) w =
     (if start = 0 then w
      else attach_new lead (length (tw_timers w)) (w\<lparr>tw_timers := tw_timers w @ [Timer_new\<lparr>ti_type := ty, ti_start := start,
             ti_interval := itv, ti_bePoint := be\<rparr>]\<rparr>))"
| "timer_do lead (Cancel r) w = SetDelete r w"

text \<open>The function of a timer is called.\<close>

definition OnTimeout :: "u32 \<Rightarrow> (nat list \<Rightarrow> nat \<Rightarrow> timer_op list) \<Rightarrow> nat \<Rightarrow> timer_wheel \<Rightarrow> timer_wheel" where
  "OnTimeout lead react r w = fold (timer_do lead) (react (tw_fired w) r) (w\<lparr>tw_fired := tw_fired w @ [r]\<rparr>)"

section \<open>A timer that is not due\<close>

text \<open>\<open>m_elapseRound * SLOT_CHANGE_TIME * SLOT_COUNT\<close> is computed as an \<open>int\<close>.\<close>

definition round_span :: "u16 \<Rightarrow> fault + int" where
  "round_span e = rbind (c_int (uint e * SLOT_CHANGE_TIME)) (\<lambda>x. c_int (x * SLOT_COUNT))"

datatype visit = Stays | Resets

definition visit_waiting :: "int \<Rightarrow> wheel_timer \<Rightarrow> fault + visit \<times> wheel_timer" where
  "visit_waiting tick t =
     (if ti_tickPoint t \<le> 0 then Inr (Stays, t\<lparr>ti_elapseRound := 1, ti_tickPoint := tick\<rparr>)
      else rbind (round_span (ti_elapseRound t)) (\<lambda>span.
        if tick - ti_tickPoint t > span \<and> (tick - ti_tickPoint t) mod (SLOT_CHANGE_TIME * SLOT_COUNT) \<ge> SLOT_CHANGE_TIME
        then Inr (Resets, t) else Inr (Stays, t\<lparr>ti_elapseRound := ti_elapseRound t + 1\<rparr>)))"

text \<open>A timer whose slot comes too late by its clock moves back by the delay.\<close>

definition reset_slot :: "int \<Rightarrow> nat \<Rightarrow> wheel_timer \<Rightarrow> nat" where
  "reset_slot tick s t =
     (let curslot = int s - ((tick - ti_tickPoint t) mod (SLOT_CHANGE_TIME * SLOT_COUNT)) div SLOT_CHANGE_TIME
      in nat (if curslot < 0 then curslot + SLOT_COUNT else curslot))"

definition reset_timer :: "int \<Rightarrow> nat \<Rightarrow> nat \<Rightarrow> timer_wheel \<Rightarrow> fault + timer_wheel" where
  "reset_timer tick s r w =
     (case AddTimer_slot (reset_slot tick s (tw_timers w ! r)) r w of (res, w) \<Rightarrow>
      let t = tw_timers w ! r in
      if res = 0 then rbind (round_span (ti_elapseRound t)) (\<lambda>span.
           Inr (set_timer r (t\<lparr>ti_tickPoint := ti_tickPoint t + span, ti_elapseRound := 1\<rparr>) w))
      else Inr (set_timer r (t\<lparr>ti_elapseRound := ti_elapseRound t + 1\<rparr>) w))"

definition next_slot :: "nat \<Rightarrow> nat" where
  "next_slot s = (if s + 1 \<ge> 3000 then 0 else s + 1)"

section \<open>SingleTimerManager\<close>

text \<open>The loop over a slot: the entries that stay, the timers that are due, those to be moved.\<close>

fun scan_slot :: "int \<Rightarrow> (u32 \<times> nat) list \<Rightarrow> wheel_timer list \<Rightarrow> fault + (u32 \<times> nat) list \<times> nat list \<times> nat list \<times> wheel_timer list" where
  "scan_slot tick [] ts = Inr ([], [], [], ts)"
| "scan_slot tick (p # ps) ts =
     (let r = snd p; t = ts ! r in
      if ti_delflag t then scan_slot tick ps ts
      else case OnTickEx tick t of (fired, t) \<Rightarrow>
        if fired then rbind (scan_slot tick ps (ts[r := t])) (\<lambda>(m, out, res, ts). Inr (m, r # out, res, ts))
        else rbind (visit_waiting tick t) (\<lambda>(v, t).
             rbind (scan_slot tick ps (ts[r := t])) (\<lambda>(m, out, res, ts).
             case v of Stays \<Rightarrow> Inr (p # m, out, res, ts) | Resets \<Rightarrow> Inr (m, out, r # res, ts))))"

primrec reset_timers :: "int \<Rightarrow> nat \<Rightarrow> nat list \<Rightarrow> timer_wheel \<Rightarrow> fault + timer_wheel" where
  "reset_timers tick s [] w = Inr w"
| "reset_timers tick s (r # rs) w = rbind (reset_timer tick s r w) (reset_timers tick s rs)"

definition Single_OnTick :: "int \<Rightarrow> timer_wheel \<Rightarrow> fault + timer_wheel" where
  "Single_OnTick tick w =
     (let s = tw_currSlot w; w = w\<lparr>tw_currSlot := next_slot s\<rparr> in
      rbind (scan_slot tick (tw_slots w s) (tw_timers w)) (\<lambda>(m, out, res, ts).
      rbind (reset_timers tick s res (w\<lparr>tw_slots := (tw_slots w)(s := m), tw_timers := ts\<rparr>)) (\<lambda>w.
      Inr (w\<lparr>tw_timeout := tw_timeout w @ out\<rparr>))))"

definition serve_timer :: "(nat list \<Rightarrow> nat \<Rightarrow> timer_op list) \<Rightarrow> nat \<Rightarrow> timer_wheel \<Rightarrow> timer_wheel" where
  "serve_timer react r w = (if \<not> ti_delflag (tw_timers w ! r) then OnTimeout 100 react r w else w)"

definition again :: "int \<times> int \<times> int \<Rightarrow> int \<Rightarrow> nat \<Rightarrow> timer_wheel \<Rightarrow> timer_wheel" where
  "again date tick r w = (if ti_type (tw_timers w ! r) \<noteq> OnceTimer then attach_again date tick r w else w)"

definition Single_Tick :: "(nat list \<Rightarrow> nat \<Rightarrow> timer_op list) \<Rightarrow> int \<times> int \<times> int \<Rightarrow> int \<Rightarrow> timer_wheel \<Rightarrow> timer_wheel" where
  "Single_Tick react date tick w =
     (let rs = tw_timeout w
      in fold (again date tick) rs (fold (serve_timer react) rs (w\<lparr>tw_timeout := []\<rparr>)))"

section \<open>TimerManager\<close>

text \<open>
  The timers that were alive when the slot was locked are visited one after the other, also those
  that a function called before has cancelled. The results: those to be taken out of
  the slot, and those that come again.
\<close>

primrec visit_live :: "(nat list \<Rightarrow> nat \<Rightarrow> timer_op list) \<Rightarrow> int \<Rightarrow> nat \<Rightarrow> nat list \<Rightarrow> timer_wheel \<Rightarrow>
    fault + nat list \<times> nat list \<times> timer_wheel" where
  "visit_live react tick s [] w = Inr ([], [], w)"
| "visit_live react tick s (r # rs) w =
     (case OnTickEx tick (tw_timers w ! r) of (fired, t) \<Rightarrow>
      let w = set_timer r t w in
      if fired then
        let w = OnTimeout 0 react r w; once = (ti_type (tw_timers w ! r) = OnceTimer);
            w = (if once then SetDelete r w else w)
        in rbind (visit_live react tick s rs w) (\<lambda>(gone, loops, w). Inr (r # gone, if once then loops else r # loops, w))
      else rbind (visit_waiting tick t) (\<lambda>(v, t). let w = set_timer r t w in
        case v of Stays \<Rightarrow> visit_live react tick s rs w
        | Resets \<Rightarrow> rbind (reset_timer tick s r w) (\<lambda>w.
            rbind (visit_live react tick s rs w) (\<lambda>(gone, loops, w). Inr (r # gone, loops, w)))))"

definition take_out :: "nat \<Rightarrow> nat \<Rightarrow> timer_wheel \<Rightarrow> timer_wheel" where
  "take_out s r w = w\<lparr>tw_slots := (tw_slots w)(s := map_erase (ti_ID (tw_timers w ! r)) (tw_slots w s))\<rparr>"

definition Slot_OnTick :: "(nat list \<Rightarrow> nat \<Rightarrow> timer_op list) \<Rightarrow> int \<Rightarrow> nat \<Rightarrow> timer_wheel \<Rightarrow> fault + nat list \<times> timer_wheel" where
  "Slot_OnTick react tick s w =
     (let live = filter (\<lambda>p. \<not> ti_delflag (tw_timers w ! snd p)) (tw_slots w s);
          w = w\<lparr>tw_slots := (tw_slots w)(s := live)\<rparr>
      in rbind (visit_live react tick s (map snd live) w) (\<lambda>(gone, loops, w). Inr (loops, fold (take_out s) gone w)))"

definition Multi_OnTick :: "(nat list \<Rightarrow> nat \<Rightarrow> timer_op list) \<Rightarrow> int \<times> int \<times> int \<Rightarrow> int \<Rightarrow> timer_wheel \<Rightarrow> fault + timer_wheel" where
  "Multi_OnTick react date tick w =
     (let s = tw_currSlot w; w = w\<lparr>tw_currSlot := next_slot s\<rparr> in
      rbind (Slot_OnTick react tick s w) (\<lambda>(loops, w). Inr (fold (attach_again date tick) loops w)))"

section \<open>The time to the next turn of the wheel\<close>

text \<open>\<open>svr\<close> sleeps for the rest of the 100 milliseconds.\<close>

definition sleep_time :: "int \<Rightarrow> int \<Rightarrow> int \<Rightarrow> int" where
  "sleep_time tFps beg fin =
     (let tFps = fin - beg - tFps; tFps = (if tFps < 0 then 0 else tFps); tFps = SLOT_CHANGE_TIME - tFps
      in if tFps < 0 then 0 else tFps)"

section \<open>Registration\<close>

text \<open>
  \<open>TimerInterface\<close>: the start, the point and the interval of a timer; \<open>now\<close> is the clock, \<open>tNow\<close> the
  broken-down time. The start is kept in 32 bits, and the point is computed from it.
\<close>

definition set_start :: "int \<Rightarrow> int \<Rightarrow> u32 \<times> int" where
  "set_start now diftime =
     (let start = word_of_int diftime :: u32; start = (if start < 100 then 100 else start) in (start, now + uint start))"

definition SetDistanceTime :: "int \<Rightarrow> int \<Rightarrow> int \<Rightarrow> int \<Rightarrow> int \<Rightarrow> u32 \<times> int" where
  "SetDistanceTime now hour minutes second microSec =
     set_start now (hour * 3600 * 1000 + minutes * 60 * 1000 + second * 1000 + microSec)"

definition SetDayTime :: "int \<Rightarrow> tm \<Rightarrow> int \<Rightarrow> int \<Rightarrow> int \<Rightarrow> u32 \<times> int" where
  "SetDayTime now tNow hour minutes second =
     (let diftime = (hour - tm_hour tNow) * 3600 * 1000 + (minutes - tm_min tNow) * 60 * 1000 + (second - tm_sec tNow) * 1000
      in set_start now (if diftime < 0 then diftime + 24 * 3600 * 1000 else diftime))"

definition SetWeekTime :: "int \<Rightarrow> tm \<Rightarrow> int \<Rightarrow> int \<Rightarrow> int \<Rightarrow> int \<Rightarrow> u32 \<times> int" where
  "SetWeekTime now tNow weekDay hour minutes second =
     (let diftime = (weekDay - week_day tNow) * 24 * 3600 * 1000 + (hour - tm_hour tNow) * 3600 * 1000 +
            (minutes - tm_min tNow) * 60 * 1000 + (second - tm_sec tNow) * 1000
      in set_start now (if diftime < 0 then diftime + 7 * 24 * 3600 * 1000 else diftime))"

definition SetMonthTime :: "int \<Rightarrow> tm \<Rightarrow> int \<Rightarrow> int \<Rightarrow> int \<Rightarrow> int \<Rightarrow> u32 \<times> int" where
  "SetMonthTime now tNow day hour minutes second =
     (let diftime = (day - tm_mday tNow) * 24 * 3600 * 1000 + (hour - tm_hour tNow) * 3600 * 1000 +
            (minutes - tm_min tNow) * 60 * 1000 + (second - tm_sec tNow) * 1000
      in set_start now (if diftime < 0
           then diftime + fst (GetNextMonthDay (tm_year tNow + 1900) (tm_mon tNow + 1) (tm_mday tNow) 0) else diftime))"

text \<open>The registrations, each as the timer it adds.\<close>

definition RegTimePoint_distance :: "int \<Rightarrow> int \<Rightarrow> int \<Rightarrow> int \<Rightarrow> int \<Rightarrow> timer_op" where
  "RegTimePoint_distance now hour minutes second microSec =
     (case SetDistanceTime now hour minutes second microSec of (start, be) \<Rightarrow> Add_timer OnceTimer start 0 be)"

definition RegTimePoint_day :: "int \<Rightarrow> tm \<Rightarrow> int \<Rightarrow> int \<Rightarrow> int \<Rightarrow> timer_op" where
  "RegTimePoint_day now tNow hour minutes second =
     (case SetDayTime now tNow hour minutes second of (start, be) \<Rightarrow> Add_timer OnceTimer start 0 be)"

definition RegRepeatedTime :: "int \<Rightarrow> int \<Rightarrow> int \<Rightarrow> int \<Rightarrow> int \<Rightarrow> int \<Rightarrow> timer_op" where
  "RegRepeatedTime now hour minutes second microSec itv =
     (let itv = (if itv < SLOT_CHANGE_TIME then SLOT_CHANGE_TIME else itv)
      in case SetDistanceTime now hour minutes second microSec of (start, be) \<Rightarrow> Add_timer LoopTimer start itv be)"

definition RegDayRepeatedTime :: "int \<Rightarrow> int \<Rightarrow> int \<Rightarrow> int \<Rightarrow> int \<Rightarrow> timer_op" where
  "RegDayRepeatedTime now hour minutes second microSec =
     (case SetDistanceTime now hour minutes second microSec of (start, be) \<Rightarrow> Add_timer LoopTimer start (24 * 3600 * 1000) be)"

definition RegDayPointRepeatedTime :: "int \<Rightarrow> tm \<Rightarrow> int \<Rightarrow> int \<Rightarrow> int \<Rightarrow> timer_op" where
  "RegDayPointRepeatedTime now tNow hour minutes second =
     (case SetDayTime now tNow hour minutes second of (start, be) \<Rightarrow> Add_timer LoopTimer start (24 * 3600 * 1000) be)"

definition RegWeekRepeatedTime :: "int \<Rightarrow> int \<Rightarrow> int \<Rightarrow> int \<Rightarrow> int \<Rightarrow> timer_op" where
  "RegWeekRepeatedTime now hour minutes second microSec =
     (case SetDistanceTime now hour minutes second microSec of (start, be) \<Rightarrow> Add_timer LoopTimer start (7 * 24 * 3600 * 1000) be)"

definition RegWeekPointRepeatedTime :: "int \<Rightarrow> tm \<Rightarrow> int \<Rightarrow> int \<Rightarrow> int \<Rightarrow> int \<Rightarrow> timer_op" where
  "RegWeekPointRepeatedTime now tNow weekDay hour minutes second =
     (case SetWeekTime now tNow weekDay hour minutes second of (start, be) \<Rightarrow> Add_timer LoopTimer start (7 * 24 * 3600 * 1000) be)"

definition RegMonthRepeatedTime :: "int \<Rightarrow> int \<Rightarrow> int \<Rightarrow> int \<Rightarrow> int \<Rightarrow> timer_op" where
  "RegMonthRepeatedTime now hour minutes second microSec =
     (case SetDistanceTime now hour minutes second microSec of (start, be) \<Rightarrow> Add_timer MonthLoopTimer start 0 be)"

definition RegMonthPointRepeatedTime :: "int \<Rightarrow> tm \<Rightarrow> int \<Rightarrow> int \<Rightarrow> int \<Rightarrow> int \<Rightarrow> timer_op" where
  "RegMonthPointRepeatedTime now tNow day hour minutes second =
     (case SetMonthTime now tNow day hour minutes second of (start, be) \<Rightarrow> Add_timer MonthLoopTimer start 0 be)"

end
