(* ===== verification/TimerWheelOk.thy ===== *)
theory TimerWheelOk
  imports TimerWheel
begin

text \<open>
  What every operation of \<open>SingleTimerManager\<close> keeps of the wheel: a timer is in one slot, under its
  own number, or it is due, or it is over.
\<close>

section \<open>The invariant\<close>

definition timer_key :: "nat \<Rightarrow> u32" where
  "timer_key r = of_nat (r + 1)"

text \<open>\<open>away\<close>: timers that an operation has in its hands.\<close>

definition wheel_ok :: "nat list \<Rightarrow> timer_wheel \<Rightarrow> bool" where
  "wheel_ok away w \<longleftrightarrow> tw_currSlot w < 3000 \<and> (\<forall>s. ordered (tw_slots w s)) \<and>
     (\<forall>s k r. map_of (tw_slots w s) k = Some r \<longrightarrow> s < 3000 \<and> r < length (tw_timers w) \<and> k = timer_key r \<and>
        r \<notin> set (away @ tw_timeout w)) \<and>
     (\<forall>r s s' k k'. map_of (tw_slots w s) k = Some r \<longrightarrow> map_of (tw_slots w s') k' = Some r \<longrightarrow> s = s') \<and>
     (\<forall>r < length (tw_timers w). ti_ID (tw_timers w ! r) = timer_key r) \<and>
     tw_lastTimerID w = of_nat (length (tw_timers w)) \<and>
     distinct (away @ tw_timeout w) \<and> set (away @ tw_timeout w) \<subseteq> {..<length (tw_timers w)}"

definition in_slot :: "timer_wheel \<Rightarrow> nat \<Rightarrow> nat \<Rightarrow> bool" where
  "in_slot w r s \<longleftrightarrow> map_of (tw_slots w s) (timer_key r) = Some r"

definition small :: "timer_wheel \<Rightarrow> bool" where
  "small w \<longleftrightarrow> length (tw_timers w) + 1 < 2 ^ 32"

lemma wheel_okD:
  assumes "wheel_ok away w"
  shows "tw_currSlot w < 3000" "ordered (tw_slots w s)"
    "map_of (tw_slots w s) k = Some r \<Longrightarrow> s < 3000 \<and> r < length (tw_timers w) \<and> k = timer_key r \<and> r \<notin> set away \<and> r \<notin> set (tw_timeout w)"
    "map_of (tw_slots w s) k = Some r \<Longrightarrow> map_of (tw_slots w s') k' = Some r \<Longrightarrow> s = s'"
    "r < length (tw_timers w) \<Longrightarrow> ti_ID (tw_timers w ! r) = timer_key r" "tw_lastTimerID w = of_nat (length (tw_timers w))"
    "distinct (away @ tw_timeout w)" "set (away @ tw_timeout w) \<subseteq> {..<length (tw_timers w)}"
  using assms unfolding wheel_ok_def by (blast | simp)+

lemma unat_timer_key: "r + 1 < 2 ^ 32 \<Longrightarrow> unat (timer_key r) = r + 1"
  unfolding timer_key_def by (subst unat_of_nat, rule mod_less) simp

lemma timer_key_inj: "timer_key a = timer_key b \<Longrightarrow> a + 1 < 2 ^ 32 \<Longrightarrow> b + 1 < 2 ^ 32 \<Longrightarrow> a = b"
  by (metis add_right_cancel unat_timer_key)

section \<open>Placing a timer\<close>

lemma set_timer_ok:
  assumes "wheel_ok away w" "ti_ID t = timer_key r"
  shows "wheel_ok away (set_timer r t w)"
proof (cases "r < length (tw_timers w)")
  case True
  then show ?thesis using assms unfolding wheel_ok_def set_timer_def by (simp add: nth_list_update)
next
  case False
  then have "set_timer r t w = w" by (simp add: set_timer_def list_update_beyond)
  then show ?thesis using assms(1) by simp
qed

lemma Slot_AddTimer_ok:
  assumes "wheel_ok (r # away) w" "s < 3000" "small w"
  shows "wheel_ok away (Slot_AddTimer s r w)" "in_slot (Slot_AddTimer s r w) r s"
    "tw_timers (Slot_AddTimer s r w) = tw_timers w" "tw_currSlot (Slot_AddTimer s r w) = tw_currSlot w"
    "tw_timeout (Slot_AddTimer s r w) = tw_timeout w" "tw_fired (Slot_AddTimer s r w) = tw_fired w"
    "r' \<noteq> r \<Longrightarrow> in_slot w r' s' \<Longrightarrow> in_slot (Slot_AddTimer s r w) r' s'"
proof -
  note ok = wheel_okD [OF assms(1)]
  have r: "r < length (tw_timers w)" "ti_ID (tw_timers w ! r) = timer_key r" using ok(5,8) by auto
  have none: "map_of (tw_slots w s') k \<noteq> Some r" for s' k using ok(3) by fastforce
  have free: "map_of (tw_slots w s) (timer_key r) = None"
  proof (rule ccontr)
    assume "map_of (tw_slots w s) (timer_key r) \<noteq> None"
    then obtain q where q: "map_of (tw_slots w s) (timer_key r) = Some q" by blast
    then have "q < length (tw_timers w)" "timer_key r = timer_key q" using ok(3) by blast+
    then have "q = r" using timer_key_inj [of r q] r(1) assms(3) by (simp add: small_def)
    with q none show False by blast
  qed
  then have w': "Slot_AddTimer s r w = w\<lparr>tw_slots := (tw_slots w)(s := map_put (timer_key r) r (tw_slots w s))\<rparr>"
    by (simp add: Slot_AddTimer_def r(2))
  have m: "map_of (tw_slots (Slot_AddTimer s r w) s') k =
      (if s' = s \<and> k = timer_key r then Some r else map_of (tw_slots w s') k)" for s' k
    using ok(2) by (simp add: w')
  show "wheel_ok away (Slot_AddTimer s r w)"
    unfolding wheel_ok_def
  proof (intro conjI allI impI)
    show "ordered (tw_slots (Slot_AddTimer s r w) s')" for s' using ok(2) by (simp add: w')
    show "s1 < 3000" "q < length (tw_timers (Slot_AddTimer s r w))" "k = timer_key q"
      "q \<notin> set (away @ tw_timeout (Slot_AddTimer s r w))"
      if "map_of (tw_slots (Slot_AddTimer s r w) s1) k = Some q" for s1 k q
      using that ok(3) [of s1 k q] ok(7) r(1) assms(2) m [of s1 k] by (auto simp: w' split: if_splits)
    show "s1 = s2" if "map_of (tw_slots (Slot_AddTimer s r w) s1) k1 = Some q"
      "map_of (tw_slots (Slot_AddTimer s r w) s2) k2 = Some q" for s1 k1 s2 k2 q
      using that none ok(4) [of s1 k1 q s2 k2] by (auto simp: m split: if_splits)
  qed (use ok in \<open>auto simp: w'\<close>)
  show "in_slot (Slot_AddTimer s r w) r s" by (simp add: in_slot_def m)
  show "r' \<noteq> r \<Longrightarrow> in_slot w r' s' \<Longrightarrow> in_slot (Slot_AddTimer s r w) r' s'"
    using free by (auto simp: in_slot_def m)
qed (simp_all add: Slot_AddTimer_def Let_def)

text \<open>Slots the wheel passes before it comes to a slot.\<close>

definition dist :: "nat \<Rightarrow> nat \<Rightarrow> int" where
  "dist s c = (int s - int c) mod 3000"

text \<open>The turns of the wheel that are left for a timer that waits, at most.\<close>

definition waits :: "nat \<Rightarrow> int \<Rightarrow> timer_wheel \<Rightarrow> bool" where
  "waits r n w \<longleftrightarrow> r < length (tw_timers w) \<and> \<not> ti_delflag (tw_timers w ! r) \<and> 1 \<le> ti_round (tw_timers w ! r) \<and>
     (\<exists>s. in_slot w r s \<and> dist s (tw_currSlot w) + 3000 * (ti_round (tw_timers w ! r) - 1) \<le> n)"

lemma place_timer_ok:
  assumes "wheel_ok (r # away) w" "small w" "ti_ID t = timer_key r"
  defines "w' \<equiv> place_timer r t w"
  shows "wheel_ok away w'" "length (tw_timers w') = length (tw_timers w)" "tw_timeout w' = tw_timeout w" "tw_fired w' = tw_fired w"
    "r' \<noteq> r \<Longrightarrow> in_slot w r' s' \<Longrightarrow> in_slot w' r' s'" "r' \<noteq> r \<Longrightarrow> tw_timers w' ! r' = tw_timers w ! r'"
    "tw_timers w' ! r = t\<lparr>ti_round := uint (ti_ticks t div 3000 + 1)\<rparr>" "tw_currSlot w' = tw_currSlot w"
    "in_slot w' r ((tw_currSlot w + unat (ti_ticks t mod 3000)) mod 3000)"
proof -
  let ?t = "t\<lparr>ti_round := uint (ti_ticks t div 3000 + 1)\<rparr>" and ?s = "(tw_currSlot w + unat (ti_ticks t mod 3000)) mod 3000"
  have w': "w' = Slot_AddTimer ?s r (set_timer r ?t w)" by (simp add: w'_def place_timer_def Let_def)
  have ok: "wheel_ok (r # away) (set_timer r ?t w)" using set_timer_ok [OF assms(1)] assms(3) by simp
  have sm: "small (set_timer r ?t w)" using assms(2) by (simp add: small_def set_timer_def)
  note a = Slot_AddTimer_ok [OF ok _ sm, of ?s]
  have r: "r < length (tw_timers w)" using wheel_okD(8) [OF assms(1)] by simp
  show "wheel_ok away w'" "in_slot w' r ?s" using a(1,2) by (simp_all add: w')
  show "r' \<noteq> r \<Longrightarrow> in_slot w r' s' \<Longrightarrow> in_slot w' r' s'"
    using a(7) by (simp add: w') (simp add: in_slot_def set_timer_def)
  show "length (tw_timers w') = length (tw_timers w)" "tw_timeout w' = tw_timeout w" "tw_fired w' = tw_fired w"
    "r' \<noteq> r \<Longrightarrow> tw_timers w' ! r' = tw_timers w ! r'" "tw_timers w' ! r = ?t" "tw_currSlot w' = tw_currSlot w"
    using a(3-6) r by (simp_all add: w' set_timer_def)
qed

text \<open>A timer is placed for its number of ticks.\<close>

lemma u32_div_mod: "uint (x div 3000 + 1) = uint x div 3000 + 1" "int (unat (x mod 3000)) = uint x mod 3000" for x :: u32
proof -
  have b: "0 \<le> uint x" "uint x < 2 ^ 32" using unsigned_less [of x, where ?'a = int] by simp_all
  have d: "uint (x div 3000) = uint x div 3000" by (simp add: uint_div_distrib)
  moreover have "uint x div 3000 + 1 < 2 ^ 32" using b(2) by simp
  moreover have "uint (x div 3000 + 1) = (uint (x div 3000) + uint (1 :: u32)) mod 2 ^ 32"
    by (simp add: uint_word_ariths(1))
  ultimately show "uint (x div 3000 + 1) = uint x div 3000 + 1" using b by simp
  show "int (unat (x mod 3000)) = uint x mod 3000" by (simp add: uint_mod_distrib)
qed

lemma dist_placed: "0 \<le> k \<Longrightarrow> k < 3000 \<Longrightarrow> dist ((c + nat k) mod 3000) c = k"
  by (simp add: dist_def zmod_int mod_diff_left_eq)

lemma place_timer_waits:
  assumes "wheel_ok (r # away) w" "small w" "ti_ID t = timer_key r" "\<not> ti_delflag t"
  shows "waits r (uint (ti_ticks t)) (place_timer r t w)"
proof -
  note a = place_timer_ok [OF assms(1-3)]
  have "r < length (tw_timers w)" using wheel_okD(8) [OF assms(1)] by simp
  let ?k = "uint (ti_ticks t)"
  have k: "nat (?k mod 3000) = unat (ti_ticks t mod 3000)" using u32_div_mod(2) [of "ti_ticks t"] by (metis nat_int)
  have "dist ((tw_currSlot w + unat (ti_ticks t mod 3000)) mod 3000) (tw_currSlot w) = ?k mod 3000"
    using dist_placed [of "?k mod 3000" "tw_currSlot w"] k by simp
  moreover have "?k mod 3000 + 3000 * (?k div 3000) = ?k" by simp
  ultimately show ?thesis
    using a assms(4) \<open>r < _\<close> by (auto simp: waits_def u32_div_mod(1) pos_imp_zdiv_nonneg_iff)
qed

section \<open>Adding, cancelling and serving\<close>

text \<open>What an operation leaves alone: the timers that wait, except those in \<open>gone\<close>.\<close>

definition undisturbed :: "nat set \<Rightarrow> timer_wheel \<Rightarrow> timer_wheel \<Rightarrow> bool" where
  "undisturbed gone w w' \<longleftrightarrow> length (tw_timers w) \<le> length (tw_timers w') \<and> tw_currSlot w' = tw_currSlot w \<and>
     set (tw_fired w) \<subseteq> set (tw_fired w') \<and>
     (\<forall>r < length (tw_timers w). r \<notin> gone \<longrightarrow> tw_timers w' ! r = tw_timers w ! r \<and> (\<forall>s. in_slot w r s \<longrightarrow> in_slot w' r s))"

lemma undisturbed_refl [simp]: "undisturbed gone w w" by (simp add: undisturbed_def)

lemma undisturbedD:
  assumes "undisturbed g w w'"
  shows "length (tw_timers w) \<le> length (tw_timers w')" "tw_currSlot w' = tw_currSlot w" "set (tw_fired w) \<subseteq> set (tw_fired w')"
    "r < length (tw_timers w) \<Longrightarrow> r \<notin> g \<Longrightarrow> tw_timers w' ! r = tw_timers w ! r"
    "r < length (tw_timers w) \<Longrightarrow> r \<notin> g \<Longrightarrow> in_slot w r s \<Longrightarrow> in_slot w' r s"
  using assms by (simp_all add: undisturbed_def)

lemma undisturbed_trans:
  assumes "undisturbed g w1 w2" "undisturbed g w2 w3"
  shows "undisturbed g w1 w3"
proof -
  note a = undisturbedD [OF assms(1)] and b = undisturbedD [OF assms(2)]
  have "tw_timers w3 ! r = tw_timers w1 ! r \<and> (\<forall>s. in_slot w1 r s \<longrightarrow> in_slot w3 r s)"
    if "r < length (tw_timers w1)" "r \<notin> g" for r
  proof -
    have "r < length (tw_timers w2)" using that(1) a(1) by simp
    then show ?thesis using that a(4,5) b(4,5) by simp
  qed
  then show ?thesis using a(1-3) b(1-3) by (auto simp: undisturbed_def)
qed

lemma undisturbed_waits: "undisturbed g w w' \<Longrightarrow> waits r n w \<Longrightarrow> r \<notin> g \<Longrightarrow> waits r n w'"
  by (auto simp: undisturbed_def waits_def)

lemma place_timer_undisturbed:
  assumes "wheel_ok (r # away) w" "small w" "ti_ID t = timer_key r" "r \<in> g"
  shows "undisturbed g w (place_timer r t w)"
proof -
  note a = place_timer_ok [OF assms(1-3)]
  have "q \<noteq> r" if "q \<notin> g" for q using that assms(4) by auto
  then have "tw_timers (place_timer r t w) ! q = tw_timers w ! q \<and> (\<forall>s. in_slot w q s \<longrightarrow> in_slot (place_timer r t w) q s)"
    if "q \<notin> g" for q using that a(5,6) by blast
  then show ?thesis using a(2,4,8) by (simp add: undisturbed_def)
qed

definition cancels :: "timer_op list \<Rightarrow> nat set" where
  "cancels ops = {r. Cancel r \<in> set ops}"

lemma attach_new_ok:
  fixes ty start itv be
  assumes "wheel_ok away w" "small w"
  defines "r \<equiv> length (tw_timers w)"
  defines "w1 \<equiv> w\<lparr>tw_timers := tw_timers w @ [Timer_new\<lparr>ti_type := ty, ti_start := start, ti_interval := itv, ti_bePoint := be\<rparr>]\<rparr>"
  assumes "small w1"
  shows "wheel_ok away (attach_new lead r w1)" "undisturbed g w (attach_new lead r w1)"
    "waits r (uint ((start - lead) div 100)) (attach_new lead r w1)" "length (tw_timers (attach_new lead r w1)) = Suc r"
    "tw_timeout (attach_new lead r w1) = tw_timeout w"
proof -
  note ok = wheel_okD [OF assms(1)]
  have key: "tw_lastTimerID w + 1 = timer_key r" by (simp add: ok(6) timer_key_def r_def)
  have "unat (timer_key r) \<noteq> 0" using unat_timer_key [of r] assms(5) by (simp add: small_def w1_def r_def)
  then have nz: "timer_key r \<noteq> 0" by (metis unat_0)
  let ?t = "Timer_new\<lparr>ti_type := ty, ti_start := start, ti_interval := itv, ti_bePoint := be, ti_ID := timer_key r,
    ti_ticks := (start - lead) div 100\<rparr>"
  let ?w2 = "w1\<lparr>tw_lastTimerID := timer_key r, tw_timers := tw_timers w @ [?t]\<rparr>"
  have eq: "attach_new lead r w1 = place_timer r ?t ?w2"
    using key nz by (simp add: attach_new_def Let_def w1_def r_def nth_append Timer_new_def place_timer_def set_timer_def)
  have none: "map_of (tw_slots w s) k \<noteq> Some r" for s k using ok(3) by (force simp: r_def)
  have nr: "r \<notin> set (away @ tw_timeout w)" using ok(8) by (auto simp: r_def)
  have "wheel_ok (r # away) ?w2"
    unfolding wheel_ok_def
  proof (intro conjI allI impI)
    show "s < 3000" "q < length (tw_timers ?w2)" "k = timer_key q" "q \<notin> set ((r # away) @ tw_timeout ?w2)"
      if "map_of (tw_slots ?w2 s) k = Some q" for s k q
      using that ok(3) [of s k q] none by (auto simp: w1_def)
    show "s1 = s2" if "map_of (tw_slots ?w2 s1) k1 = Some q" "map_of (tw_slots ?w2 s2) k2 = Some q" for s1 k1 s2 k2 q
      using that ok(4) [of s1 k1 q s2 k2] by (simp add: w1_def)
    show "ti_ID (tw_timers ?w2 ! q) = timer_key q" if "q < length (tw_timers ?w2)" for q
      using that ok(5) [of q] by (auto simp: nth_append r_def less_Suc_eq)
    show "set ((r # away) @ tw_timeout ?w2) \<subseteq> {..<length (tw_timers ?w2)}" using ok(8) by (auto simp: w1_def r_def)
  qed (use ok nr in \<open>auto simp: w1_def r_def timer_key_def\<close>)
  moreover have sm: "small ?w2" using assms(5) by (simp add: small_def w1_def)
  ultimately have o: "wheel_ok (r # away) ?w2" "small ?w2" "ti_ID ?t = timer_key r" by simp_all
  note a = place_timer_ok [OF o]
  show "wheel_ok away (attach_new lead r w1)" "length (tw_timers (attach_new lead r w1)) = Suc r"
    "tw_timeout (attach_new lead r w1) = tw_timeout w"
    using a(1-3) by (simp_all add: eq) (simp_all add: w1_def r_def)
  show "waits r (uint ((start - lead) div 100)) (attach_new lead r w1)"
    using place_timer_waits [OF o] by (simp add: eq) (simp add: Timer_new_def)
  have s: "in_slot w q s \<Longrightarrow> in_slot ?w2 q s" for q s by (simp add: in_slot_def w1_def)
  show "undisturbed g w (attach_new lead r w1)"
    using a(2,4,5,6,8) s unfolding undisturbed_def eq by (auto simp: w1_def r_def nth_append)
qed

lemma timer_do_ok:
  assumes "wheel_ok away w" "small (timer_do lead x w)"
  shows "wheel_ok away (timer_do lead x w) \<and> undisturbed (cancels [x]) w (timer_do lead x w) \<and>
    tw_timeout (timer_do lead x w) = tw_timeout w"
proof (cases x)
  case (Add_timer ty start itv be)
  let ?r = "length (tw_timers w)"
  let ?w1 = "w\<lparr>tw_timers := tw_timers w @ [Timer_new\<lparr>ti_type := ty, ti_start := start, ti_interval := itv, ti_bePoint := be\<rparr>]\<rparr>"
  have len: "length (tw_timers (attach_new lead ?r ?w1)) = Suc ?r"
    by (simp add: attach_new_def Let_def place_timer_def set_timer_def Slot_AddTimer_def)
  show ?thesis
  proof (cases "start = 0")
    case False
    have "small w" "small ?w1" using assms(2) Add_timer False len by (simp_all add: small_def)
    from attach_new_ok [OF assms(1) this(1,2), where lead = lead] show ?thesis using Add_timer False by simp
  qed (use assms Add_timer in simp)
next
  case (Cancel r)
  show ?thesis
  proof (cases "r < length (tw_timers w)")
    case True
    have "wheel_ok away (timer_do lead x w)"
      using set_timer_ok [OF assms(1)] wheel_okD(5) [OF assms(1) True] Cancel by (simp add: SetDelete_def)
    then show ?thesis using Cancel
      by (auto simp: SetDelete_def set_timer_def undisturbed_def cancels_def in_slot_def)
  next
    case False
    then have "timer_do lead x w = w" using Cancel by (simp add: SetDelete_def set_timer_def list_update_beyond)
    then show ?thesis using assms(1) by simp
  qed
qed

lemma timer_do_length: "length (tw_timers w) \<le> length (tw_timers (timer_do lead x w))"
  by (cases x) (auto simp: attach_new_def Let_def place_timer_def set_timer_def Slot_AddTimer_def SetDelete_def)

lemma fold_timer_do_length: "length (tw_timers w) \<le> length (tw_timers (fold (timer_do lead) ops w))"
  by (induction ops arbitrary: w) (auto intro: order_trans [OF timer_do_length])

lemma fold_timer_do_ok:
  "wheel_ok away w \<Longrightarrow> small (fold (timer_do lead) ops w) \<Longrightarrow> cancels ops \<subseteq> g \<Longrightarrow>
    wheel_ok away (fold (timer_do lead) ops w) \<and> undisturbed g w (fold (timer_do lead) ops w) \<and>
    tw_timeout (fold (timer_do lead) ops w) = tw_timeout w"
proof (induction ops arbitrary: w)
  case (Cons x ops)
  have "small (timer_do lead x w)"
    using Cons.prems(2) fold_timer_do_length [of "timer_do lead x w" lead ops] by (simp add: small_def)
  from timer_do_ok [OF Cons.prems(1) this] have x: "wheel_ok away (timer_do lead x w)"
    "undisturbed (cancels [x]) w (timer_do lead x w)" "tw_timeout (timer_do lead x w) = tw_timeout w" by blast+
  have "cancels [x] \<subseteq> g" "cancels ops \<subseteq> g" using Cons.prems(3) by (auto simp: cancels_def)
  then have "undisturbed g w (timer_do lead x w)" using x(2) by (auto simp: undisturbed_def)
  with Cons.IH [OF x(1)] Cons.prems(2) x(3) \<open>cancels ops \<subseteq> g\<close> show ?case by (auto intro: undisturbed_trans)
qed simp

section \<open>The main loop serves the timers that are due\<close>

definition react_cancels :: "(nat list \<Rightarrow> nat \<Rightarrow> timer_op list) \<Rightarrow> nat set" where
  "react_cancels react = (\<Union>h r. cancels (react h r))"

lemma wheel_ok_fired [simp]: "wheel_ok away (w\<lparr>tw_fired := f\<rparr>) = wheel_ok away w"
  by (simp add: wheel_ok_def)

lemma serve_timer_length: "length (tw_timers w) \<le> length (tw_timers (serve_timer react r w))"
  using fold_timer_do_length [of "w\<lparr>tw_fired := tw_fired w @ [r]\<rparr>"] by (simp add: serve_timer_def OnTimeout_def)

lemma serve_timer_ok:
  assumes "wheel_ok away w" "small (serve_timer react r w)"
  shows "wheel_ok away (serve_timer react r w)" "undisturbed (react_cancels react) w (serve_timer react r w)"
    "tw_timeout (serve_timer react r w) = tw_timeout w"
    "\<not> ti_delflag (tw_timers w ! r) \<Longrightarrow> r \<in> set (tw_fired (serve_timer react r w))"
proof -
  let ?w = "w\<lparr>tw_fired := tw_fired w @ [r]\<rparr>" and ?ops = "react (tw_fired w) r"
  have c: "cancels ?ops \<subseteq> react_cancels react" by (auto simp: react_cancels_def)
  have "wheel_ok away (serve_timer react r w) \<and> undisturbed (react_cancels react) w (serve_timer react r w) \<and>
    tw_timeout (serve_timer react r w) = tw_timeout w \<and>
    (\<not> ti_delflag (tw_timers w ! r) \<longrightarrow> r \<in> set (tw_fired (serve_timer react r w)))"
  proof (cases "ti_delflag (tw_timers w ! r)")
    case False
    then have s: "serve_timer react r w = fold (timer_do 100) ?ops ?w" by (simp add: serve_timer_def OnTimeout_def)
    from fold_timer_do_ok [of away ?w 100 ?ops] assms c
    have f: "wheel_ok away (serve_timer react r w)" "undisturbed (react_cancels react) ?w (serve_timer react r w)"
      "tw_timeout (serve_timer react r w) = tw_timeout w" by (simp_all add: s)
    moreover have "undisturbed (react_cancels react) w ?w" by (auto simp: undisturbed_def in_slot_def)
    ultimately show ?thesis using undisturbedD(3) [OF f(2)] by (auto intro: undisturbed_trans)
  qed (use assms in \<open>simp add: serve_timer_def\<close>)
  then show "wheel_ok away (serve_timer react r w)" "undisturbed (react_cancels react) w (serve_timer react r w)"
    "tw_timeout (serve_timer react r w) = tw_timeout w"
    "\<not> ti_delflag (tw_timers w ! r) \<Longrightarrow> r \<in> set (tw_fired (serve_timer react r w))" by blast+
qed

lemma fold_serve_length: "length (tw_timers w) \<le> length (tw_timers (fold (serve_timer react) rs w))"
  by (induction rs arbitrary: w) (auto intro: order_trans [OF serve_timer_length])

lemma fold_serve_ok:
  "wheel_ok away w \<Longrightarrow> small (fold (serve_timer react) rs w) \<Longrightarrow> w' = fold (serve_timer react) rs w \<Longrightarrow>
    wheel_ok away w' \<and> undisturbed (react_cancels react) w w' \<and> tw_timeout w' = tw_timeout w \<and>
    (\<forall>r \<in> set rs. r < length (tw_timers w) \<and> r \<notin> react_cancels react \<and> \<not> ti_delflag (tw_timers w ! r) \<longrightarrow> r \<in> set (tw_fired w'))"
proof (induction rs arbitrary: w)
  case (Cons x rs)
  let ?w1 = "serve_timer react x w"
  have "small ?w1" using Cons.prems(2) fold_serve_length [of ?w1 react rs] by (simp add: small_def)
  note x = serve_timer_ok [OF Cons.prems(1) this]
  have IH: "wheel_ok away w' \<and> undisturbed (react_cancels react) ?w1 w' \<and> tw_timeout w' = tw_timeout ?w1 \<and>
    (\<forall>r \<in> set rs. r < length (tw_timers ?w1) \<and> r \<notin> react_cancels react \<and> \<not> ti_delflag (tw_timers ?w1 ! r) \<longrightarrow> r \<in> set (tw_fired w'))"
    using Cons.IH [OF x(1)] Cons.prems(2,3) by simp
  have "r \<in> set (tw_fired w')" if "r \<in> set (x # rs)" "r < length (tw_timers w)" "r \<notin> react_cancels react"
    "\<not> ti_delflag (tw_timers w ! r)" for r
  proof (cases "r = x")
    case True
    then show ?thesis using x(4) that(4) IH undisturbedD(3) by blast
  next
    case False
    have "r < length (tw_timers ?w1)" "tw_timers ?w1 ! r = tw_timers w ! r"
      using undisturbedD(1,4) [OF x(2)] that by auto
    then show ?thesis using IH that False by auto
  qed
  with IH x(2,3) show ?case by (auto intro: undisturbed_trans)
qed simp

lemma wheel_ok_weaken: "wheel_ok (r # away) w \<Longrightarrow> wheel_ok away w"
  unfolding wheel_ok_def by auto

lemma again_ok:
  assumes "wheel_ok (r # away) w" "small w"
  shows "wheel_ok away (again date tick r w) \<and> undisturbed {r} w (again date tick r w) \<and>
    tw_timeout (again date tick r w) = tw_timeout w \<and> length (tw_timers (again date tick r w)) = length (tw_timers w)"
proof -
  have r: "r < length (tw_timers w)" using wheel_okD(8) [OF assms(1)] by simp
  have same: "again date tick r w = w \<or> (\<exists>t. again date tick r w = place_timer r t w \<and> ti_ID t = ti_ID (tw_timers w ! r))"
    by (auto simp: again_def attach_again_def Let_def)
  then show ?thesis
  proof
    assume "\<exists>t. again date tick r w = place_timer r t w \<and> ti_ID t = ti_ID (tw_timers w ! r)"
    then obtain t where t: "again date tick r w = place_timer r t w" "ti_ID t = timer_key r"
      using wheel_okD(5) [OF assms(1) r] by auto
    show ?thesis using place_timer_ok [OF assms t(2)] place_timer_undisturbed [OF assms t(2), of "{r}"] by (simp add: t(1))
  qed (use wheel_ok_weaken [OF assms(1)] in simp)
qed

lemma fold_again_ok:
  "wheel_ok (rs @ away) w \<Longrightarrow> small w \<Longrightarrow> w' = fold (again date tick) rs w \<Longrightarrow>
    wheel_ok away w' \<and> undisturbed (set rs) w w' \<and> tw_timeout w' = tw_timeout w \<and> length (tw_timers w') = length (tw_timers w)"
proof (induction rs arbitrary: w)
  case (Cons x rs)
  have o: "wheel_ok (x # (rs @ away)) w" using Cons.prems(1) by simp
  let ?w1 = "again date tick x w"
  from again_ok [OF o Cons.prems(2)] have x: "wheel_ok (rs @ away) ?w1" "undisturbed {x} w ?w1" "tw_timeout ?w1 = tw_timeout w"
    "length (tw_timers ?w1) = length (tw_timers w)" by blast+
  have "small ?w1" using Cons.prems(2) x(4) by (simp add: small_def)
  from Cons.IH [OF x(1) this] Cons.prems(3) have IH: "wheel_ok away w'" "undisturbed (set rs) ?w1 w'"
    "tw_timeout w' = tw_timeout ?w1" "length (tw_timers w') = length (tw_timers ?w1)" by simp_all
  have "undisturbed (set (x # rs)) w ?w1" "undisturbed (set (x # rs)) ?w1 w'"
    using x(2) IH(2) by (auto simp: undisturbed_def)
  with IH x show ?case using undisturbed_trans by simp
qed simp

lemma Single_Tick_ok:
  assumes "wheel_ok [] w" "w' = Single_Tick react date tick w" "small w'"
  shows "wheel_ok [] w'" "undisturbed (react_cancels react \<union> set (tw_timeout w)) w w'" "tw_timeout w' = []"
    "r \<in> set (tw_timeout w) \<Longrightarrow> r \<notin> react_cancels react \<Longrightarrow> \<not> ti_delflag (tw_timers w ! r) \<Longrightarrow> r \<in> set (tw_fired w')"
proof -
  let ?rs = "tw_timeout w" and ?w0 = "w\<lparr>tw_timeout := []\<rparr>" and ?g = "react_cancels react \<union> set (tw_timeout w)"
  let ?w1 = "fold (serve_timer react) ?rs ?w0"
  have w': "w' = fold (again date tick) ?rs ?w1" using assms(2) by (simp add: Single_Tick_def Let_def)
  have l: "length (tw_timers (fold (again date tick) rs v)) = length (tw_timers v)" for rs v
    by (induction rs arbitrary: v) (auto simp: again_def attach_again_def place_timer_def set_timer_def Slot_AddTimer_def Let_def)
  have sm: "small ?w1" using assms(3) by (simp add: w' small_def l)
  have "wheel_ok ?rs ?w0" using assms(1) by (auto simp: wheel_ok_def)
  from fold_serve_ok [OF this sm refl] have 1: "wheel_ok (?rs @ []) ?w1" "undisturbed (react_cancels react) ?w0 ?w1"
    "tw_timeout ?w1 = []" "\<forall>r \<in> set ?rs. r < length (tw_timers w) \<and> r \<notin> react_cancels react \<and> \<not> ti_delflag (tw_timers w ! r) \<longrightarrow>
      r \<in> set (tw_fired ?w1)" by simp_all
  from fold_again_ok [OF 1(1) sm w'] have 2: "wheel_ok [] w'" "undisturbed (set ?rs) ?w1 w'" "tw_timeout w' = []"
    using 1(3) by simp_all
  show "wheel_ok [] w'" "tw_timeout w' = []" using 2 by blast+
  have "undisturbed ?g w ?w0" "undisturbed ?g ?w0 ?w1" "undisturbed ?g ?w1 w'"
    using 1(2) 2(2) by (auto simp: undisturbed_def in_slot_def)
  then show "undisturbed ?g w w'" using undisturbed_trans by blast
  show "r \<in> set ?rs \<Longrightarrow> r \<notin> react_cancels react \<Longrightarrow> \<not> ti_delflag (tw_timers w ! r) \<Longrightarrow> r \<in> set (tw_fired w')"
    using 1(4) wheel_okD(8) [OF assms(1)] undisturbedD(3) [OF 2(2)] by auto
qed

section \<open>A turn of the wheel\<close>

datatype outcome = Over | Due | Keeps | Moves

text \<open>What a turn makes of a timer in the slot, and the timer after it.\<close>

definition outcome :: "int \<Rightarrow> wheel_timer \<Rightarrow> outcome" where
  "outcome tick t = (if ti_delflag t then Over else if fst (OnTickEx tick t) then Due
     else case visit_waiting tick (snd (OnTickEx tick t)) of Inr (Resets, _) \<Rightarrow> Moves | _ \<Rightarrow> Keeps)"

definition visited :: "int \<Rightarrow> wheel_timer \<Rightarrow> wheel_timer" where
  "visited tick t = (if ti_delflag t then t else if fst (OnTickEx tick t) then snd (OnTickEx tick t)
     else case visit_waiting tick (snd (OnTickEx tick t)) of Inr (_, t) \<Rightarrow> t | _ \<Rightarrow> t)"

lemma visited_same [simp]: "ti_ID (visited tick t) = ti_ID t" "ti_delflag (visited tick t) = ti_delflag t"
  by (auto simp: visited_def OnTickEx_def visit_waiting_def Let_def rbind_Inr_iff split: sum.splits prod.splits if_splits)

lemma scan_slot_spec:
  "scan_slot tick ps ts = Inr (m, out, res, ts') \<Longrightarrow> distinct (map snd ps) \<Longrightarrow>
    m = filter (\<lambda>p. outcome tick (ts ! snd p) = Keeps) ps \<and>
    out = map snd (filter (\<lambda>p. outcome tick (ts ! snd p) = Due) ps) \<and>
    res = map snd (filter (\<lambda>p. outcome tick (ts ! snd p) = Moves) ps) \<and> length ts' = length ts \<and>
    (\<forall>r < length ts. ts' ! r = (if r \<in> snd ` set ps then visited tick (ts ! r) else ts ! r))"
proof (induction ps arbitrary: ts m out res)
  case (Cons p ps)
  let ?r = "snd p" and ?t = "ts ! snd p"
  obtain f t where f: "OnTickEx tick ?t = (f, t)" by force
  have fresh: "?r \<notin> snd ` set ps" "distinct (map snd ps)" using Cons.prems(2) by auto
  have other: "filter (\<lambda>p. outcome tick (ts[?r := x] ! snd p) = z) ps = filter (\<lambda>p. outcome tick (ts ! snd p) = z) ps" for x z
    using fresh(1) by (intro filter_cong refl) (metis image_eqI nth_list_update_neq)
  have same: "(a, b) \<in> set ps \<Longrightarrow> ts[?r := x] ! b = ts ! b" for a b x
    using fresh(1) by (metis image_eqI nth_list_update_neq snd_conv)
  consider "ti_delflag ?t" | "\<not> ti_delflag ?t" f | "\<not> ti_delflag ?t" "\<not> f" by blast
  then show ?case
  proof cases
    case 1
    then have "outcome tick ?t = Over" "visited tick ?t = ?t" by (simp_all add: outcome_def visited_def)
    with Cons.IH [of ts m out res] Cons.prems 1 show ?thesis by auto
  next
    case 2
    then obtain out' where o: "out = ?r # out'" "scan_slot tick ps (ts[?r := t]) = Inr (m, out', res, ts')"
      using Cons.prems(1) f by (auto simp: rbind_Inr_iff Let_def)
    have "outcome tick ?t = Due" "visited tick ?t = t" using 2 f by (simp_all add: outcome_def visited_def)
    with Cons.IH [OF o(2) fresh(2)] o(1) other fresh(1) show ?thesis by (auto simp: nth_list_update same)
  next
    case 3
    then obtain v t2 m' out' res' where o: "visit_waiting tick t = Inr (v, t2)"
      "scan_slot tick ps (ts[?r := t2]) = Inr (m', out', res', ts')"
      "(m, out, res) = (case v of Stays \<Rightarrow> (p # m', out', res') | Resets \<Rightarrow> (m', out', ?r # res'))"
      using Cons.prems(1) f by (auto simp: rbind_Inr_iff Let_def split: visit.splits) (metis visit.exhaust)
    have "outcome tick ?t = (case v of Stays \<Rightarrow> Keeps | Resets \<Rightarrow> Moves)" "visited tick ?t = t2"
      using 3 f o(1) by (simp_all add: outcome_def visited_def split: visit.split)
    with Cons.IH [OF o(2) fresh(2)] o(3) other fresh(1) show ?thesis
      by (cases v) (auto simp: nth_list_update same)
  qed
qed simp

lemma reset_slot_less: "s < 3000 \<Longrightarrow> reset_slot tick s t < 3000"
  by (auto simp: reset_slot_def Let_def SLOT_COUNT_def SLOT_CHANGE_TIME_def)

text \<open>A timer that is moved: back by less than a round.\<close>

lemma reset_timer_ok:
  assumes "wheel_ok (r # away) w" "small w" "s < 3000" "reset_timer tick s r w = Inr w'"
  defines "t \<equiv> tw_timers w ! r"
  shows "wheel_ok away w'" "undisturbed {r} w w'" "tw_timeout w' = tw_timeout w" "length (tw_timers w') = length (tw_timers w)"
    "in_slot w' r (reset_slot tick s t)" "ti_round (tw_timers w' ! r) = ti_round t" "ti_delflag (tw_timers w' ! r) = ti_delflag t"
    "tw_currSlot w' = tw_currSlot w"
proof -
  let ?s = "reset_slot tick s t" and ?w1 = "Slot_AddTimer (reset_slot tick s t) r w"
  have s: "?s < 3000" using reset_slot_less [OF assms(3)] .
  then have a: "AddTimer_slot ?s r w = (0, ?w1)" by (simp add: AddTimer_slot_def SLOT_COUNT_def)
  note p = Slot_AddTimer_ok [OF assms(1) s assms(2)]
  have r: "r < length (tw_timers w)" "ti_ID t = timer_key r"
    using wheel_okD(5,8) [OF assms(1)] by (auto simp: t_def)
  obtain span where w': "w' = set_timer r (t\<lparr>ti_tickPoint := ti_tickPoint t + span, ti_elapseRound := 1\<rparr>) ?w1"
    using assms(4) a p(3) by (auto simp: reset_timer_def t_def [symmetric] rbind_Inr_iff Let_def)
  show "wheel_ok away w'" using set_timer_ok [OF p(1)] r(2) by (simp add: w')
  have "in_slot w' q x = in_slot ?w1 q x" for q x by (simp add: w' in_slot_def set_timer_def)
  then show "in_slot w' r ?s" "undisturbed {r} w w'"
    using p r(1) by (auto simp: undisturbed_def w' set_timer_def)
  show "tw_timeout w' = tw_timeout w" "length (tw_timers w') = length (tw_timers w)" "ti_round (tw_timers w' ! r) = ti_round t"
    "ti_delflag (tw_timers w' ! r) = ti_delflag t" "tw_currSlot w' = tw_currSlot w"
    using p r(1) by (simp_all add: w' set_timer_def)
qed

lemma reset_timers_ok:
  "wheel_ok (rs @ away) w \<Longrightarrow> small w \<Longrightarrow> s < 3000 \<Longrightarrow> reset_timers tick s rs w = Inr w' \<Longrightarrow>
    wheel_ok away w' \<and> undisturbed (set rs) w w' \<and> tw_timeout w' = tw_timeout w \<and> length (tw_timers w') = length (tw_timers w) \<and>
    (\<forall>r \<in> set rs. in_slot w' r (reset_slot tick s (tw_timers w ! r)) \<and> ti_round (tw_timers w' ! r) = ti_round (tw_timers w ! r) \<and>
       ti_delflag (tw_timers w' ! r) = ti_delflag (tw_timers w ! r))"
proof (induction rs arbitrary: w)
  case (Cons x rs)
  obtain w1 where w1: "reset_timer tick s x w = Inr w1" "reset_timers tick s rs w1 = Inr w'"
    using Cons.prems(4) by (auto simp: rbind_Inr_iff)
  have o: "wheel_ok (x # (rs @ away)) w" using Cons.prems(1) by simp
  note x = reset_timer_ok [OF o Cons.prems(2,3) w1(1)]
  have "small w1" using Cons.prems(2) x(4) by (simp add: small_def)
  from Cons.IH [OF x(1) this Cons.prems(3) w1(2)] have IH: "wheel_ok away w'" "undisturbed (set rs) w1 w'"
    "tw_timeout w' = tw_timeout w1" "length (tw_timers w') = length (tw_timers w1)"
    "\<And>r. r \<in> set rs \<Longrightarrow> in_slot w' r (reset_slot tick s (tw_timers w1 ! r)) \<and> ti_round (tw_timers w' ! r) = ti_round (tw_timers w1 ! r) \<and>
       ti_delflag (tw_timers w' ! r) = ti_delflag (tw_timers w1 ! r)" by blast+
  have d: "x \<notin> set rs" "set (x # rs) \<subseteq> {..<length (tw_timers w)}" using wheel_okD(7,8) [OF o] by auto
  have "undisturbed (set (x # rs)) w w1" "undisturbed (set (x # rs)) w1 w'" using x(2) IH(2) by (auto simp: undisturbed_def)
  then have u: "undisturbed (set (x # rs)) w w'" by (rule undisturbed_trans)
  have xs: "in_slot w' x (reset_slot tick s (tw_timers w ! x)) \<and> tw_timers w' ! x = tw_timers w1 ! x"
    using undisturbedD(4,5) [OF IH(2), of x] d x(4,5) by auto
  have "tw_timers w1 ! r = tw_timers w ! r" if "r \<in> set rs" for r
    using undisturbedD(4) [OF x(2), of r] d that by auto
  with IH(3-5) u xs x(3,4,6,7) IH(1) show ?case by auto
qed simp

lemma outcome_round:
  assumes "outcome tick t \<in> {Keeps, Moves}" "\<And>e. visit_waiting tick (snd (OnTickEx tick t)) \<noteq> Inl e"
  shows "ti_round (visited tick t) = ti_round t - 1" "2 \<le> ti_round t"
proof -
  obtain v t' where v: "visit_waiting tick (snd (OnTickEx tick t)) = Inr (v, t')"
    using assms(2) by (metis obj_sumE surj_pair)
  have n: "\<not> ti_delflag t" "\<not> fst (OnTickEx tick t)" using assms(1) by (auto simp: outcome_def split: if_splits)
  then have o: "snd (OnTickEx tick t) = t\<lparr>ti_round := ti_round t - 1\<rparr>" "2 \<le> ti_round t"
    by (auto simp: OnTickEx_def Let_def split: if_splits)
  have "ti_round t' = ti_round t - 1"
    using v by (auto simp: o(1) visit_waiting_def rbind_Inr_iff split: if_splits)
  then show "ti_round (visited tick t) = ti_round t - 1" "2 \<le> ti_round t" using n v o(2) by (simp_all add: visited_def)
qed

lemma scan_slot_total:
  "scan_slot tick ps ts = Inr x \<Longrightarrow> distinct (map snd ps) \<Longrightarrow> p \<in> set ps \<Longrightarrow> outcome tick (ts ! snd p) \<in> {Keeps, Moves} \<Longrightarrow>
    visit_waiting tick (snd (OnTickEx tick (ts ! snd p))) \<noteq> Inl e"
proof (induction ps arbitrary: ts x)
  case (Cons q ps)
  let ?t = "ts ! snd q"
  obtain f t where f: "OnTickEx tick ?t = (f, t)" by force
  show ?case
  proof (cases "p = q")
    case True
    then have n: "\<not> ti_delflag ?t" "\<not> f" using Cons.prems(4) f by (auto simp: outcome_def split: if_splits)
    then show ?thesis using Cons.prems(1) f True by (auto simp: rbind_Inr_iff Let_def)
  next
    case False
    then have p: "p \<in> set ps" "distinct (map snd ps)" using Cons.prems(2,3) by auto
    have "snd q \<notin> snd ` set ps" using Cons.prems(2) by simp
    then have "snd p \<noteq> snd q" using p(1) by (metis image_eqI)
    note p = p this
    have same: "ts[snd q := u] ! snd p = ts ! snd p" for u using p(3) by simp
    have "\<exists>u y. scan_slot tick ps u = Inr y \<and> u ! snd p = ts ! snd p"
    proof (cases "ti_delflag ?t")
      case True
      then show ?thesis using Cons.prems(1) by (intro exI [of _ ts] exI [of _ x]) (simp add: Let_def)
    next
      case alive: False
      show ?thesis
      proof (cases f)
        case True
        then obtain y where "scan_slot tick ps (ts[snd q := t]) = Inr y"
          using Cons.prems(1) f alive by (auto simp: Let_def rbind_Inr_iff)
        then show ?thesis using same by blast
      next
        case False
        then obtain v t2 y where "scan_slot tick ps (ts[snd q := t2]) = Inr y"
          using Cons.prems(1) f alive by (auto simp: Let_def rbind_Inr_iff)
        then show ?thesis using same by blast
      qed
    qed
    then obtain u y where u: "scan_slot tick ps u = Inr y" "u ! snd p = ts ! snd p" by blast
    from Cons.IH [OF u(1) p(2,1)] Cons.prems(4) show ?thesis by (simp add: u(2))
  qed
qed simp

lemma mod_3000: "- 3000 \<le> z \<Longrightarrow> z < 3000 \<Longrightarrow> z mod 3000 = (if z < 0 then z + 3000 else z)" for z :: int
proof -
  assume z: "- 3000 \<le> z" "z < 3000"
  have "z mod 3000 = (z + 3000) mod 3000" by simp
  with z show ?thesis by (auto simp: mod_pos_pos_trivial simp del: mod_add_self2)
qed

lemma dist_next: "c < 3000 \<Longrightarrow> s < 3000 \<Longrightarrow> dist s (next_slot c) = (if s = c then 2999 else dist s c - 1)"
  by (auto simp: dist_def next_slot_def mod_3000)

lemma dist_range: "0 \<le> dist s c" "dist s c < 3000" by (simp_all add: dist_def)

lemma dist_zero: "s < 3000 \<Longrightarrow> c < 3000 \<Longrightarrow> dist s c = 0 \<longleftrightarrow> s = c"
  by (auto simp: dist_def mod_3000)

lemma dist_reset:
  assumes "c < 3000"
  shows "dist (reset_slot tick c t) (next_slot c) \<le> 2999"
  using dist_range [of "reset_slot tick c t" "next_slot c"] by linarith

lemma slot_entries:
  assumes "wheel_ok away w"
  shows "distinct (map snd (tw_slots w s))" "p \<in> set (tw_slots w s) \<Longrightarrow> fst p = timer_key (snd p) \<and> map_of (tw_slots w s) (fst p) = Some (snd p)"
    "in_slot w r s \<longleftrightarrow> r \<in> snd ` set (tw_slots w s)"
proof -
  note ok = wheel_okD [OF assms]
  have m: "map_of (tw_slots w s) (fst p) = Some (snd p)" if "p \<in> set (tw_slots w s)" for p
    using ordered_in_set [OF ok(2), of s "fst p" "snd p"] that by simp
  have k: "fst p = timer_key (snd p)" if "p \<in> set (tw_slots w s)" for p using ok(3) m that by blast
  show "p \<in> set (tw_slots w s) \<Longrightarrow> fst p = timer_key (snd p) \<and> map_of (tw_slots w s) (fst p) = Some (snd p)" for p
    using m k by blast
  have "map fst (tw_slots w s) = map timer_key (map snd (tw_slots w s))" using k by simp
  then show "distinct (map snd (tw_slots w s))" using ordered_distinct [OF ok(2), of s] by (metis distinct_map)
  show "in_slot w r s \<longleftrightarrow> r \<in> snd ` set (tw_slots w s)"
  proof
    assume "in_slot w r s"
    then have "(timer_key r, r) \<in> set (tw_slots w s)" using map_of_SomeD by (simp add: in_slot_def) fast
    then show "r \<in> snd ` set (tw_slots w s)" by (metis image_eqI snd_conv)
  next
    assume "r \<in> snd ` set (tw_slots w s)"
    then obtain p where "p \<in> set (tw_slots w s)" "r = snd p" by blast
    then show "in_slot w r s" using k [of p] m [of p] by (simp add: in_slot_def)
  qed
qed

text \<open>The state between the two halves of a turn.\<close>

lemma scanned_ok:
  assumes "wheel_ok [] w" "scan_slot tick (tw_slots w (tw_currSlot w)) (tw_timers w) = Inr (m, out, res, ts)"
  defines "w1 \<equiv> w\<lparr>tw_currSlot := next_slot (tw_currSlot w), tw_slots := (tw_slots w)(tw_currSlot w := m), tw_timers := ts\<rparr>"
  shows "wheel_ok (res @ out) w1" "length ts = length (tw_timers w)"
    "in_slot w1 r s \<longleftrightarrow> in_slot w r s \<and> (s = tw_currSlot w \<longrightarrow> outcome tick (tw_timers w ! r) = Keeps)"
    "r < length ts \<Longrightarrow> ts ! r = (if in_slot w r (tw_currSlot w) then visited tick (tw_timers w ! r) else tw_timers w ! r)"
    "r \<in> set out \<longleftrightarrow> in_slot w r (tw_currSlot w) \<and> outcome tick (tw_timers w ! r) = Due"
    "r \<in> set res \<longleftrightarrow> in_slot w r (tw_currSlot w) \<and> outcome tick (tw_timers w ! r) = Moves"
proof -
  let ?c = "tw_currSlot w" and ?ts = "tw_timers w"
  note ok = wheel_okD [OF assms(1)] and e = slot_entries [OF assms(1)]
  from scan_slot_spec [OF assms(2) e(1)] have sc:
    "m = filter (\<lambda>p. outcome tick (?ts ! snd p) = Keeps) (tw_slots w ?c)"
    "out = map snd (filter (\<lambda>p. outcome tick (?ts ! snd p) = Due) (tw_slots w ?c))"
    "res = map snd (filter (\<lambda>p. outcome tick (?ts ! snd p) = Moves) (tw_slots w ?c))" "length ts = length ?ts"
    "\<forall>r < length ?ts. ts ! r = (if r \<in> snd ` set (tw_slots w ?c) then visited tick (?ts ! r) else ?ts ! r)" by blast+
  show "length ts = length ?ts" by (rule sc(4))
  show at: "r < length ts \<Longrightarrow> ts ! r = (if in_slot w r ?c then visited tick (?ts ! r) else ?ts ! r)" for r using sc(4,5) e(3) by simp
  show out: "r \<in> set out \<longleftrightarrow> in_slot w r ?c \<and> outcome tick (?ts ! r) = Due" for r unfolding sc(2) e(3) by auto
  show res: "r \<in> set res \<longleftrightarrow> in_slot w r ?c \<and> outcome tick (?ts ! r) = Moves" for r unfolding sc(3) e(3) by auto
  have mo: "map_of (tw_slots w1 s) k = (if s = ?c then case map_of (tw_slots w s) k of None \<Rightarrow> None
      | Some r \<Rightarrow> if outcome tick (?ts ! r) = Keeps then Some r else None else map_of (tw_slots w s) k)" for s k
    using map_of_filter [OF ok(2), of "\<lambda>p. outcome tick (?ts ! snd p) = Keeps" ?c k] by (simp add: w1_def sc(1) split: option.split)
  then show ins: "in_slot w1 r s \<longleftrightarrow> in_slot w r s \<and> (s = ?c \<longrightarrow> outcome tick (?ts ! r) = Keeps)" for r s
    by (auto simp: in_slot_def split: option.splits if_splits)
  have sub: "map_of (tw_slots w1 s) k = Some r \<Longrightarrow> map_of (tw_slots w s) k = Some r \<and> (s = ?c \<longrightarrow> outcome tick (?ts ! r) = Keeps)"
    for s k r using mo by (auto split: option.splits if_splits)
  have held: "\<not> (in_slot w r ?c \<and> map_of (tw_slots w s) k = Some r \<and> s \<noteq> ?c)" for r s k
    using ok(4) by (auto simp: in_slot_def)
  have range: "in_slot w r ?c \<Longrightarrow> r < length ?ts \<and> r \<notin> set (tw_timeout w)" for r
    using ok(3) by (auto simp: in_slot_def)
  show "wheel_ok (res @ out) w1"
    unfolding wheel_ok_def
  proof (intro conjI allI impI)
    show "tw_currSlot w1 < 3000" by (simp add: w1_def next_slot_def)
    show "ordered (tw_slots w1 s)" for s using ok(2) by (simp add: w1_def sc(1))
    show "s < 3000" "q < length (tw_timers w1)" "k = timer_key q" "q \<notin> set ((res @ out) @ tw_timeout w1)"
      if "map_of (tw_slots w1 s) k = Some q" for s k q
      using sub [OF that] ok(3) [of s k q] out [of q] res [of q] held [of q s k] sc(4) by (auto simp: w1_def)
    show "s1 = s2" if "map_of (tw_slots w1 s1) k1 = Some q" "map_of (tw_slots w1 s2) k2 = Some q" for s1 k1 s2 k2 q
      using sub [OF that(1)] sub [OF that(2)] ok(4) by blast
    show "ti_ID (tw_timers w1 ! q) = timer_key q" if "q < length (tw_timers w1)" for q
      using that at [of q] ok(5) [of q] sc(4) by (simp add: w1_def)
    show "tw_lastTimerID w1 = of_nat (length (tw_timers w1))" using ok(6) sc(4) by (simp add: w1_def)
    have "distinct out" "distinct res" using e(1) unfolding sc(2,3) by (auto simp: distinct_map_filter)
    then show "distinct ((res @ out) @ tw_timeout w1)" using ok(7) out res range by (auto simp: w1_def)
    show "set ((res @ out) @ tw_timeout w1) \<subseteq> {..<length (tw_timers w1)}" using ok(8) out res range sc(4) by (auto simp: w1_def)
  qed
qed

lemma reset_timer_fired: "reset_timer tick s r w = Inr w' \<Longrightarrow> tw_fired w' = tw_fired w"
  by (auto simp: reset_timer_def AddTimer_slot_def Slot_AddTimer_def set_timer_def rbind_Inr_iff Let_def split: if_splits)

lemma reset_timers_fired: "reset_timers tick s rs w = Inr w' \<Longrightarrow> tw_fired w' = tw_fired w"
  by (induction rs arbitrary: w) (auto simp: rbind_Inr_iff dest: reset_timer_fired)

lemma Single_OnTick_ok:
  assumes "wheel_ok [] w" "small w" "Single_OnTick tick w = Inr w'"
  shows "wheel_ok [] w'" "length (tw_timers w') = length (tw_timers w)" "tw_currSlot w' = next_slot (tw_currSlot w)"
    "tw_fired w' = tw_fired w" "r \<in> set (tw_timeout w') \<longleftrightarrow> r \<in> set (tw_timeout w) \<or>
      in_slot w r (tw_currSlot w) \<and> outcome tick (tw_timers w ! r) = Due"
    "r < length (tw_timers w) \<Longrightarrow> ti_delflag (tw_timers w' ! r) = ti_delflag (tw_timers w ! r)"
    "r < length (tw_timers w) \<Longrightarrow> \<not> in_slot w r (tw_currSlot w) \<Longrightarrow> tw_timers w' ! r = tw_timers w ! r \<and>
      (\<forall>s. in_slot w r s \<longrightarrow> in_slot w' r s)"
    "in_slot w r (tw_currSlot w) \<Longrightarrow> outcome tick (tw_timers w ! r) = Keeps \<Longrightarrow>
      tw_timers w' ! r = visited tick (tw_timers w ! r) \<and> in_slot w' r (tw_currSlot w) \<and> ti_round (tw_timers w' ! r) = ti_round (tw_timers w ! r) - 1"
    "in_slot w r (tw_currSlot w) \<Longrightarrow> outcome tick (tw_timers w ! r) = Moves \<Longrightarrow>
      in_slot w' r (reset_slot tick (tw_currSlot w) (visited tick (tw_timers w ! r))) \<and> ti_round (tw_timers w' ! r) = ti_round (tw_timers w ! r) - 1"
proof -
  let ?c = "tw_currSlot w" and ?ts = "tw_timers w"
  obtain m out res ts w2 where sc: "scan_slot tick (tw_slots w ?c) ?ts = Inr (m, out, res, ts)"
    "reset_timers tick ?c res (w\<lparr>tw_currSlot := next_slot ?c, tw_slots := (tw_slots w)(?c := m), tw_timers := ts\<rparr>) = Inr w2"
    "w' = w2\<lparr>tw_timeout := tw_timeout w2 @ out\<rparr>"
    using assms(3) by (auto simp: Single_OnTick_def Let_def rbind_Inr_iff)
  let ?w1 = "w\<lparr>tw_currSlot := next_slot ?c, tw_slots := (tw_slots w)(?c := m), tw_timers := ts\<rparr>"
  note s1 = scanned_ok [OF assms(1) sc(1)]
  have c: "?c < 3000" using wheel_okD(1) [OF assms(1)] .
  have sm: "small ?w1" using assms(2) s1(2) by (simp add: small_def)
  from reset_timers_ok [OF s1(1) sm c sc(2)] have s2: "wheel_ok out w2" "undisturbed (set res) ?w1 w2" "tw_timeout w2 = tw_timeout w"
    "length (tw_timers w2) = length ts" "\<And>r. r \<in> set res \<Longrightarrow> in_slot w2 r (reset_slot tick ?c (ts ! r)) \<and>
       ti_round (tw_timers w2 ! r) = ti_round (ts ! r) \<and> ti_delflag (tw_timers w2 ! r) = ti_delflag (ts ! r)" by auto
  note u = undisturbedD [OF s2(2)]
  have ins: "in_slot w' q s = in_slot w2 q s" "tw_timers w' = tw_timers w2" for q s by (simp_all add: sc(3) in_slot_def)
  show "wheel_ok [] w'" using s2(1) by (auto simp: wheel_ok_def sc(3))
  show "length (tw_timers w') = length ?ts" "tw_currSlot w' = next_slot ?c" using s2(4) s1(2) u(2) by (simp_all add: sc(3))
  have "tw_fired w2 = tw_fired w" using reset_timers_fired [OF sc(2)] by simp
  then show "tw_fired w' = tw_fired w" by (simp add: sc(3))
  show "r \<in> set (tw_timeout w') \<longleftrightarrow> r \<in> set (tw_timeout w) \<or> in_slot w r ?c \<and> outcome tick (?ts ! r) = Due"
    using s1(5) s2(3) by (simp add: sc(3))
  show "r < length ?ts \<Longrightarrow> ti_delflag (tw_timers w' ! r) = ti_delflag (?ts ! r)"
    using s1(2,4) s2(5) u(4) by (cases "r \<in> set res") (auto simp: ins)
  show "r < length ?ts \<Longrightarrow> \<not> in_slot w r ?c \<Longrightarrow> tw_timers w' ! r = ?ts ! r \<and> (\<forall>s. in_slot w r s \<longrightarrow> in_slot w' r s)"
  proof -
    assume r: "r < length ?ts" "\<not> in_slot w r ?c"
    then have n: "r \<notin> set res" "r < length ts" using s1(2,6) by auto
    have "in_slot w2 r s" if "in_slot w r s" for s using u(5) [of r s] s1(3) [of r s] n that r(2) by auto
    then show ?thesis using u(4) [of r] s1(4) [of r] n r(2) by (simp add: ins)
  qed
  have len: "in_slot w r ?c \<Longrightarrow> r < length ts" using wheel_okD(3) [OF assms(1)] s1(2) by (auto simp: in_slot_def)
  have rnd: "ti_round (visited tick (?ts ! r)) = ti_round (?ts ! r) - 1"
    if r: "in_slot w r ?c" "outcome tick (?ts ! r) \<in> {Keeps, Moves}"
  proof -
    have "r \<in> snd ` set (tw_slots w ?c)" using r(1) slot_entries(3) [OF assms(1)] by blast
    then obtain p where "p \<in> set (tw_slots w ?c)" "snd p = r" by auto
    then have "visit_waiting tick (snd (OnTickEx tick (?ts ! r))) \<noteq> Inl e" for e
      using scan_slot_total [OF sc(1) slot_entries(1) [OF assms(1)]] r(2) by blast
    from outcome_round(1) [OF r(2) this] show ?thesis .
  qed
  show "in_slot w r ?c \<Longrightarrow> outcome tick (?ts ! r) = Keeps \<Longrightarrow> tw_timers w' ! r = visited tick (?ts ! r) \<and> in_slot w' r ?c \<and>
      ti_round (tw_timers w' ! r) = ti_round (?ts ! r) - 1"
    using s1(3,4,6) u(4,5) len rnd by (auto simp: ins)
  show "in_slot w r ?c \<Longrightarrow> outcome tick (?ts ! r) = Moves \<Longrightarrow> in_slot w' r (reset_slot tick ?c (visited tick (?ts ! r))) \<and>
      ti_round (tw_timers w' ! r) = ti_round (?ts ! r) - 1"
  proof -
    assume r: "in_slot w r ?c" "outcome tick (?ts ! r) = Moves"
    then have "ts ! r = visited tick (?ts ! r)" "r \<in> set res" using s1(4,6) len by simp_all
    then show ?thesis using s2(5) [of r] rnd r by (simp add: ins)
  qed
qed

lemma Single_OnTick_waits:
  assumes "wheel_ok [] w" "small w" "Single_OnTick tick w = Inr w'" "waits r n w"
  shows "\<not> ti_delflag (tw_timers w' ! r)" "r \<in> set (tw_timeout w') \<or> 1 \<le> n \<and> waits r (n - 1) w'"
proof -
  let ?c = "tw_currSlot w" and ?t = "tw_timers w ! r"
  note t = Single_OnTick_ok [OF assms(1-3)]
  obtain s where s: "r < length (tw_timers w)" "\<not> ti_delflag ?t" "1 \<le> ti_round ?t" "in_slot w r s"
    "dist s ?c + 3000 * (ti_round ?t - 1) \<le> n" using assms(4) by (auto simp: waits_def)
  have s3: "s < 3000" "?c < 3000" using wheel_okD(1,3) [OF assms(1)] s(4) by (auto simp: in_slot_def)
  show alive: "\<not> ti_delflag (tw_timers w' ! r)" using t(6) s(1,2) by simp
  show "r \<in> set (tw_timeout w') \<or> 1 \<le> n \<and> waits r (n - 1) w'"
  proof (cases "s = ?c")
    case False
    then have "\<not> in_slot w r ?c" using wheel_okD(4) [OF assms(1)] s(4) by (auto simp: in_slot_def)
    note same = t(7) [OF s(1) this]
    have "1 \<le> dist s ?c" using dist_zero [OF s3] dist_range(1) [of s ?c] False by linarith
    moreover have "dist s (next_slot ?c) = dist s ?c - 1" using dist_next [OF s3(2,1)] False by simp
    ultimately have "1 \<le> n \<and> waits r (n - 1) w'" using s same alive t(2,3) by (auto simp: waits_def)
    then show ?thesis by blast
  next
    case True
    have d: "dist s ?c = 0" using dist_zero [OF s3] True by simp
    have "outcome tick ?t \<noteq> Over" using s(2) by (simp add: outcome_def split: sum.splits prod.splits visit.splits)
    then consider "outcome tick ?t = Due" | "outcome tick ?t = Keeps" | "outcome tick ?t = Moves" by (cases "outcome tick ?t") auto
    then show ?thesis
    proof cases
      case 1
      then show ?thesis using t(5) s(4) True by blast
    next
      case 2
      have r2: "2 \<le> ti_round ?t" using 2 s(2) by (auto simp: outcome_def OnTickEx_def Let_def split: if_splits)
      note k = t(8) [OF s(4) [unfolded True] 2]
      have "dist ?c (next_slot ?c) = 2999" using dist_next [OF s3(2,2)] by simp
      moreover have "in_slot w' r ?c" "ti_round (tw_timers w' ! r) = ti_round ?t - 1" using k by blast+
      ultimately have "1 \<le> n \<and> waits r (n - 1) w'" using t(2,3) s d r2 alive by (auto simp: waits_def)
      then show ?thesis by blast
    next
      case 3
      have r2: "2 \<le> ti_round ?t" using 3 s(2) by (auto simp: outcome_def OnTickEx_def Let_def split: if_splits)
      note m = t(9) [OF s(4) [unfolded True] 3]
      have "dist (reset_slot tick ?c (visited tick ?t)) (next_slot ?c) \<le> 2999" using dist_reset [OF s3(2)] .
      then have "1 \<le> n \<and> waits r (n - 1) w'" using t(2,3) s d r2 alive m by (auto simp: waits_def)
      then show ?thesis by blast
    qed
  qed
qed

end
