(* ===== verification/TimerRuns.thy ===== *)
theory TimerRuns
  imports TimerWheelOk
begin

text \<open>
  Runs of \<open>SingleTimerManager\<close>: the main loop adds and cancels timers and serves those that are due,
  the thread of the wheel turns it. What holds after every run: a timer waits in one slot, and it goes off
  in time; a timer that is registered for once goes off once.
\<close>

section \<open>Runs\<close>

datatype wheel_event = Does timer_op | Turns int | Serves "int \<times> int \<times> int" int

fun wheel_step :: "(nat list \<Rightarrow> nat \<Rightarrow> timer_op list) \<Rightarrow> wheel_event \<Rightarrow> timer_wheel \<Rightarrow> fault + timer_wheel" where
  "wheel_step react (Does x) w = Inr (timer_do 100 x w)"
| "wheel_step react (Turns tick) w = Single_OnTick tick w"
| "wheel_step react (Serves date tick) w = Inr (Single_Tick react date tick w)"

primrec single_run :: "(nat list \<Rightarrow> nat \<Rightarrow> timer_op list) \<Rightarrow> wheel_event list \<Rightarrow> timer_wheel \<Rightarrow> fault + timer_wheel" where
  "single_run react [] w = Inr w"
| "single_run react (e # es) w = rbind (wheel_step react e w) (single_run react es)"

definition turns :: "wheel_event list \<Rightarrow> nat" where
  "turns es = length (filter (\<lambda>e. case e of Turns _ \<Rightarrow> True | _ \<Rightarrow> False) es)"

definition cancelled_in :: "(nat list \<Rightarrow> nat \<Rightarrow> timer_op list) \<Rightarrow> wheel_event list \<Rightarrow> nat set" where
  "cancelled_in react es = react_cancels react \<union> {r. Does (Cancel r) \<in> set es}"

lemma cancelled_in_Cons: "cancelled_in react (e # es) = cancelled_in react [e] \<union> cancelled_in react es"
  by (auto simp: cancelled_in_def)

lemma single_run_append:
  "single_run react (es @ fs) w = rbind (single_run react es w) (single_run react fs)"
proof (induction es arbitrary: w)
  case (Cons e es)
  show ?case by (cases "wheel_step react e w") (simp_all add: Cons.IH)
qed simp

lemma Slot_AddTimer_same [simp]:
  "tw_timers (Slot_AddTimer s r w) = tw_timers w" "tw_fired (Slot_AddTimer s r w) = tw_fired w"
  "tw_timeout (Slot_AddTimer s r w) = tw_timeout w"
  by (simp_all add: Slot_AddTimer_def Let_def)

section \<open>Every step keeps the invariant\<close>

lemma Single_OnTick_length: "Single_OnTick tick w = Inr w' \<Longrightarrow> length (tw_timers w) \<le> length (tw_timers w')"
proof -
  have s: "scan_slot tick ps ts = Inr (m, out, res, ts') \<Longrightarrow> length ts' = length ts" for ps ts m out res ts'
    by (induction ps arbitrary: ts m out res) (auto simp: rbind_Inr_iff Let_def split: if_splits prod.splits visit.splits, metis visit.exhaust)
  have "reset_timer tick s r v = Inr v' \<Longrightarrow> length (tw_timers v') = length (tw_timers v)" for s r v v'
    by (auto simp: reset_timer_def AddTimer_slot_def Slot_AddTimer_def set_timer_def rbind_Inr_iff Let_def split: if_splits)
  then have r: "reset_timers tick s rs v = Inr v' \<Longrightarrow> length (tw_timers v') = length (tw_timers v)" for s rs v v'
    by (induction rs arbitrary: v) (auto simp: rbind_Inr_iff)
  show "Single_OnTick tick w = Inr w' \<Longrightarrow> length (tw_timers w) \<le> length (tw_timers w')"
    by (auto simp: Single_OnTick_def Let_def rbind_Inr_iff dest!: s r)
qed

lemma again_length: "length (tw_timers (again date tick r w)) = length (tw_timers w)"
  by (auto simp: again_def attach_again_def place_timer_def set_timer_def Slot_AddTimer_def Let_def)

lemma fold_again_length: "length (tw_timers (fold (again date tick) rs w)) = length (tw_timers w)"
  by (induction rs arbitrary: w) (simp_all add: again_length)

lemma wheel_step_length: "wheel_step react e w = Inr w' \<Longrightarrow> length (tw_timers w) \<le> length (tw_timers w')"
proof (cases e)
  case (Serves date tick)
  then show "wheel_step react e w = Inr w' \<Longrightarrow> length (tw_timers w) \<le> length (tw_timers w')"
    using fold_serve_length [of "w\<lparr>tw_timeout := []\<rparr>"] by (auto simp: Single_Tick_def Let_def fold_again_length)
qed (auto simp: timer_do_length Single_OnTick_length)

lemma single_run_length: "single_run react es w = Inr w' \<Longrightarrow> length (tw_timers w) \<le> length (tw_timers w')"
  by (induction es arbitrary: w) (auto simp: rbind_Inr_iff dest: wheel_step_length intro: order_trans)

lemma smallD: "small w' \<Longrightarrow> length (tw_timers w) \<le> length (tw_timers w') \<Longrightarrow> small w"
  by (simp add: small_def)

lemma wheel_step_ok:
  assumes "wheel_ok [] w" "wheel_step react e w = Inr w'" "small w'"
  shows "wheel_ok [] w'"
proof (cases e)
  case (Does x)
  then show ?thesis using timer_do_ok [OF assms(1), of 100 x] assms(2,3) by simp
next
  case (Turns tick)
  then have "Single_OnTick tick w = Inr w'" "small w" using assms(2) smallD [OF assms(3)] Single_OnTick_length by simp_all
  then show ?thesis using Single_OnTick_ok(1) [OF assms(1)] by blast
next
  case (Serves date tick)
  then show ?thesis using Single_Tick_ok(1) [OF assms(1) refl, of react date tick] assms(2,3) by simp
qed

lemma single_run_ok: "wheel_ok [] w \<Longrightarrow> single_run react es w = Inr w' \<Longrightarrow> small w' \<Longrightarrow> wheel_ok [] w'"
proof (induction es arbitrary: w)
  case (Cons e es)
  then obtain w1 where "wheel_step react e w = Inr w1" "single_run react es w1 = Inr w'" by (auto simp: rbind_Inr_iff)
  with Cons.IH wheel_step_ok [OF Cons.prems(1)] smallD [OF Cons.prems(3) single_run_length] Cons.prems(3) show ?case by blast
qed simp

lemma TimerManager_new_ok: "wheel_ok [] TimerManager_new"
  by (simp add: wheel_ok_def TimerManager_new_def)

section \<open>A timer on its way\<close>

text \<open>A timer has gone off, is due, or has at most \<open>n\<close> turns to wait.\<close>

definition on_way :: "nat \<Rightarrow> int \<Rightarrow> timer_wheel \<Rightarrow> bool" where
  "on_way r n w \<longleftrightarrow> r < length (tw_timers w) \<and>
     (r \<in> set (tw_fired w) \<or> r \<in> set (tw_timeout w) \<and> \<not> ti_delflag (tw_timers w ! r) \<or> waits r n w)"

lemma waits_not_due: "wheel_ok [] w \<Longrightarrow> waits r n w \<Longrightarrow> r \<notin> set (tw_timeout w)"
  using wheel_okD(3) by (auto simp: waits_def in_slot_def)

lemma Does_on_way:
  assumes "wheel_ok [] w" "small (timer_do 100 x w)" "on_way r n w" "x \<noteq> Cancel r"
  shows "on_way r n (timer_do 100 x w)"
proof -
  have u: "undisturbed (cancels [x]) w (timer_do 100 x w)" "tw_timeout (timer_do 100 x w) = tw_timeout w"
    using timer_do_ok [OF assms(1,2)] by blast+
  have "r \<notin> cancels [x]" using assms(4) by (auto simp: cancels_def)
  then show ?thesis using assms(3) undisturbedD [OF u(1)] undisturbed_waits [OF u(1)] u(2) by (auto simp: on_way_def)
qed

lemma Turns_on_way:
  assumes "wheel_ok [] w" "small w" "Single_OnTick tick w = Inr w'" "on_way r n w"
  shows "on_way r (n - 1) w'"
proof -
  note t = Single_OnTick_ok [OF assms(1-3)]
  have "r \<in> set (tw_fired w') \<or> r \<in> set (tw_timeout w') \<and> \<not> ti_delflag (tw_timers w' ! r) \<or> 1 \<le> n \<and> waits r (n - 1) w'"
  proof (cases "waits r n w")
    case True
    then show ?thesis using Single_OnTick_waits [OF assms(1-3) True] by blast
  next
    case False
    then show ?thesis using assms(4) t(4-6) by (auto simp: on_way_def)
  qed
  then show "on_way r (n - 1) w'"
    using assms(4) t(2) by (auto simp: on_way_def)
qed

lemma Serves_on_way:
  assumes "wheel_ok [] w" "small (Single_Tick react date tick w)" "on_way r n w" "r \<notin> react_cancels react"
  shows "on_way r n (Single_Tick react date tick w)"
    "r \<in> set (tw_timeout w) \<or> r \<in> set (tw_fired w) \<Longrightarrow> r \<in> set (tw_fired (Single_Tick react date tick w))"
proof -
  let ?w' = "Single_Tick react date tick w"
  note t = Single_Tick_ok [OF assms(1) refl assms(2)]
  note u = undisturbedD [OF t(2)]
  have fired: "r \<in> set (tw_fired ?w')" if "r \<in> set (tw_fired w) \<or> r \<in> set (tw_timeout w) \<and> \<not> ti_delflag (tw_timers w ! r)"
    using that t(4) [of r] u(3) assms(4) by blast
  show "on_way r n ?w'"
  proof (cases "waits r n w")
    case True
    then have "waits r n ?w'" using undisturbed_waits [OF t(2)] waits_not_due [OF assms(1) True] assms(4) by simp
    then show ?thesis using u(1) assms(3) by (simp add: on_way_def)
  next
    case False
    then show ?thesis using fired assms(3) u(1) by (auto simp: on_way_def)
  qed
  show "r \<in> set (tw_timeout w) \<or> r \<in> set (tw_fired w) \<Longrightarrow> r \<in> set (tw_fired ?w')"
    using fired assms(3) waits_not_due [OF assms(1)] by (auto simp: on_way_def)
qed

lemma wheel_step_on_way:
  assumes "wheel_ok [] w" "wheel_step react e w = Inr w'" "small w'" "on_way r n w" "r \<notin> cancelled_in react [e]"
  shows "on_way r (n - int (turns [e])) w'"
proof (cases e)
  case (Does x)
  then show ?thesis using Does_on_way [OF assms(1) _ assms(4), of x] assms(2,3,5) by (auto simp: turns_def cancelled_in_def)
next
  case (Turns tick)
  then have "Single_OnTick tick w = Inr w'" "small w" using assms(2) smallD [OF assms(3)] Single_OnTick_length by simp_all
  from Turns_on_way [OF assms(1) this(2,1) assms(4)] show ?thesis using Turns by (simp add: turns_def)
next
  case (Serves date tick)
  then show ?thesis using Serves_on_way(1) [OF assms(1) _ assms(4), of react date tick] assms(2,3,5)
    by (simp add: turns_def cancelled_in_def)
qed

lemma single_run_on_way:
  "wheel_ok [] w \<Longrightarrow> single_run react es w = Inr w' \<Longrightarrow> small w' \<Longrightarrow> on_way r n w \<Longrightarrow> r \<notin> cancelled_in react es \<Longrightarrow>
    on_way r (n - int (turns es)) w'"
proof (induction es arbitrary: w n)
  case (Cons e es)
  then obtain w1 where w1: "wheel_step react e w = Inr w1" "single_run react es w1 = Inr w'" by (auto simp: rbind_Inr_iff)
  have sm: "small w1" using smallD [OF Cons.prems(3) single_run_length [OF w1(2)]] .
  have c: "r \<notin> cancelled_in react [e]" "r \<notin> cancelled_in react es" using Cons.prems(5) cancelled_in_Cons [of react e es] by blast+
  from Cons.IH [OF wheel_step_ok [OF Cons.prems(1) w1(1) sm] w1(2) Cons.prems(3)
    wheel_step_on_way [OF Cons.prems(1) w1(1) sm Cons.prems(4) c(1)] c(2)]
  show ?case by (simp add: turns_def diff_diff_eq add.commute split: if_splits)
qed (simp add: turns_def)

lemma waits_nonneg: "waits r n w \<Longrightarrow> 0 \<le> n"
  using dist_range(1) by (auto simp: waits_def) (smt (verit) mult_nonneg_nonneg)

section \<open>What holds after every run\<close>

text \<open>
  C8. Timers go off in time. Take any run of the servers' main loop and wheel, from the start: timers added,
  cancelled and served, the wheel turned at any times of the clock, forwards or back. If a timer is added with
  a distance of \<open>start\<close> milliseconds, and the wheel is then turned more than \<open>(start - 100) / 100\<close> times,
  whatever else happens, and nobody cancels the timer, then its function has been called after the next
  time the main loop serves the timers. Timers added by the functions of timers that go off are part of the run.
\<close>

theorem timer_goes_off:
  assumes "single_run react (es @ Does (Add_timer ty start itv be) # fs) TimerManager_new = Inr w"
    and "single_run react es TimerManager_new = Inr w0" "r = length (tw_timers w0)" "100 \<le> uint start"
    and "r \<notin> cancelled_in react fs" "(uint start - 100) div 100 < int (turns fs)"
    and "length (tw_timers (Single_Tick react date tick w)) + 1 < 2 ^ 32"
  shows "r \<in> set (tw_fired (Single_Tick react date tick w))"
proof -
  let ?x = "Add_timer ty start itv be" and ?w' = "Single_Tick react date tick w"
  have run: "single_run react fs (timer_do 100 ?x w0) = Inr w" using assms(1,2) by (simp add: single_run_append)
  have sm': "small ?w'" using assms(7) by (simp add: small_def)
  have sm: "small w" using smallD [OF sm'] wheel_step_length [of react "Serves date tick" w ?w'] by simp
  have sm1: "small (timer_do 100 ?x w0)" using smallD [OF sm single_run_length [OF run]] .
  have sm0: "small w0" using smallD [OF sm1 timer_do_length] .
  have ok0: "wheel_ok [] w0" using single_run_ok [OF TimerManager_new_ok assms(2) sm0] .
  have nz: "start \<noteq> 0" using assms(4) by auto
  have "small (w0\<lparr>tw_timers := tw_timers w0 @ [Timer_new\<lparr>ti_type := ty, ti_start := start, ti_interval := itv, ti_bePoint := be\<rparr>]\<rparr>)"
    using sm1 nz by (simp add: small_def attach_new_def Let_def place_timer_def set_timer_def Slot_AddTimer_def split: if_splits)
  note n = attach_new_ok [OF ok0 sm0 this, where lead = 100]
  let ?n = "uint ((start - 100) div 100)"
  have eq: "timer_do 100 ?x w0 = attach_new 100 r (w0\<lparr>tw_timers := tw_timers w0 @ [Timer_new\<lparr>ti_type := ty, ti_start := start,
      ti_interval := itv, ti_bePoint := be\<rparr>]\<rparr>)" using nz by (simp add: assms(3))
  have "on_way r ?n (timer_do 100 ?x w0)" using n(3,4) assms(3) by (simp add: on_way_def eq del: timer_do.simps)
  moreover have ok1: "wheel_ok [] (timer_do 100 ?x w0)" using n(1) assms(3) by (simp add: eq del: timer_do.simps)
  ultimately have way: "on_way r (?n - int (turns fs)) w" using single_run_on_way [OF _ run sm _ assms(5)] by blast
  have ok: "wheel_ok [] w" using single_run_ok [OF ok1 run sm] .
  have "uint (start - 100) = uint start - 100"
    using assms(4) by (simp add: uint_sub_if')
  then have "?n = (uint start - 100) div 100" by (simp add: uint_div_distrib)
  with assms(6) have "\<not> waits r (?n - int (turns fs)) w" using waits_nonneg by fastforce
  then have "r \<in> set (tw_timeout w) \<or> r \<in> set (tw_fired w)" using way by (auto simp: on_way_def)
  moreover have "r \<notin> react_cancels react" using assms(5) by (simp add: cancelled_in_def)
  ultimately show ?thesis using Serves_on_way(2) [OF ok sm' way] by blast
qed

definition no_react :: "nat list \<Rightarrow> nat \<Rightarrow> timer_op list" where
  "no_react h r = []"

definition demo_turns :: "wheel_event list" where
  "demo_turns = [Does (Cancel 0), Turns 100, Turns 200, Serves (2020, 1, 1) 250, Turns 150]"

theorem timer_goes_off_witness:
  "1 \<in> set (tw_fired (Single_Tick no_react (2020, 1, 1) 400 (projr (single_run no_react
     ([Does (Add_timer LoopTimer 5000 5000 5000)] @ Does (Add_timer OnceTimer 350 0 9999) # demo_turns) TimerManager_new))))"
proof -
  let ?run = "\<lambda>es. single_run no_react es TimerManager_new" and ?a = "[Does (Add_timer LoopTimer 5000 5000 5000)]"
  let ?es = "?a @ Does (Add_timer OnceTimer 350 0 9999) # demo_turns"
  have c: "cancelled_in no_react demo_turns = {0}"
    by (auto simp: cancelled_in_def react_cancels_def no_react_def cancels_def demo_turns_def)
  show ?thesis
  proof (rule timer_goes_off [of no_react ?a OnceTimer 350 0 9999 demo_turns _ "projr (?run ?a)"])
    have "\<not> isl (?run ?es)" "\<not> isl (?run ?a)" by code_simp+
    then show "?run ?es = Inr (projr (?run ?es))" "?run ?a = Inr (projr (?run ?a))" by (metis sum.collapse(2))+
    show "1 = length (tw_timers (projr (?run ?a)))" by code_simp
    have "length (tw_timers (Single_Tick no_react (2020, 1, 1) 400 (projr (?run ?es)))) = 2" by code_simp
    then show "length (tw_timers (Single_Tick no_react (2020, 1, 1) 400 (projr (?run ?es)))) + 1 < 2 ^ 32"
      by (simp only: add_2_eq_Suc) simp
    show "1 \<notin> cancelled_in no_react demo_turns" by (simp add: c)
    show "(uint (350 :: u32) - 100) div 100 < int (turns demo_turns)" by (simp add: turns_def demo_turns_def)
  qed simp
qed

end
