(* ===== verification/TimerOnce.thy ===== *)
theory TimerOnce
  imports TimerRuns
begin

text \<open>
  A timer that is registered for one time goes off at most once, whatever the clock, the main loop and the
  functions of the timers do.
\<close>

section \<open>A once timer that has gone off is nowhere\<close>

definition held :: "timer_wheel \<Rightarrow> nat \<Rightarrow> bool" where
  "held w r \<longleftrightarrow> r \<in> set (tw_timeout w) \<or> (\<exists>s. in_slot w r s)"

text \<open>\<open>hand\<close>: the timers the main loop has in its hands.\<close>

definition once_ok :: "nat list \<Rightarrow> timer_wheel \<Rightarrow> bool" where
  "once_ok hand w \<longleftrightarrow> set (tw_fired w) \<subseteq> {..<length (tw_timers w)} \<and>
     (\<forall>r < length (tw_timers w). ti_type (tw_timers w ! r) = OnceTimer \<longrightarrow>
        count_list (tw_fired w) r \<le> 1 \<and> (r \<in> set (tw_fired w) \<longrightarrow> r \<notin> set hand \<and> \<not> held w r))"

lemma once_okI:
  assumes "once_ok hand w" "length (tw_timers w) \<le> length (tw_timers w')" "tw_fired w' = tw_fired w" "set hand' \<subseteq> set hand"
    "\<And>r. r < length (tw_timers w) \<Longrightarrow> ti_type (tw_timers w' ! r) = ti_type (tw_timers w ! r)"
    "\<And>r. r < length (tw_timers w) \<Longrightarrow> ti_type (tw_timers w ! r) = OnceTimer \<Longrightarrow> r \<in> set (tw_fired w) \<Longrightarrow> held w' r \<Longrightarrow> held w r"
  shows "once_ok hand' w'"
proof -
  have f: "r < length (tw_timers w)" if "r \<in> set (tw_fired w)" for r using assms(1) that by (auto simp: once_ok_def)
  have "count_list (tw_fired w) r \<le> 1 \<and> (r \<in> set (tw_fired w) \<longrightarrow> r \<notin> set hand' \<and> \<not> held w' r)"
    if t: "ti_type (tw_timers w' ! r) = OnceTimer" for r
  proof (cases "r \<in> set (tw_fired w)")
    case True
    then show ?thesis using f [OF True] t assms(1,4,5) assms(6) [of r] by (auto simp: once_ok_def)
  qed (simp add: count_notin)
  then show ?thesis using assms(2,3) f by (auto simp: once_ok_def dest: order_less_le_trans)
qed

section \<open>Adding, cancelling and calling\<close>

lemma Slot_AddTimer_in_slot:
  "wheel_ok away w \<Longrightarrow> in_slot (Slot_AddTimer s r w) q s' \<Longrightarrow> in_slot w q s' \<or> q = r"
  using wheel_okD(2) by (auto simp: in_slot_def Slot_AddTimer_def Let_def split: if_splits)

lemma place_timer_held:
  assumes "\<And>s. ordered (tw_slots w s)" "held (place_timer r t w) q"
  shows "held w q \<or> q = r"
  using assms by (auto simp: held_def place_timer_def Let_def in_slot_def Slot_AddTimer_def set_timer_def split: if_splits)

lemma place_timer_same [simp]:
  "length (tw_timers (place_timer r t w)) = length (tw_timers w)" "tw_fired (place_timer r t w) = tw_fired w"
  by (simp_all add: place_timer_def Let_def set_timer_def)

lemma place_timer_type:
  "r < length (tw_timers w) \<Longrightarrow> ti_type t = ti_type (tw_timers w ! r) \<Longrightarrow>
    ti_type (tw_timers (place_timer r t w) ! q) = ti_type (tw_timers w ! q)"
  by (simp add: place_timer_def Let_def set_timer_def nth_list_update)

lemma place_timer_once:
  assumes "once_ok hand w" "\<And>s. ordered (tw_slots w s)" "r < length (tw_timers w)" "ti_type t = ti_type (tw_timers w ! r)"
    "ti_type t = OnceTimer \<Longrightarrow> r \<notin> set (tw_fired w)"
  shows "once_ok hand (place_timer r t w)"
proof (rule once_okI [OF assms(1)])
  show "held w q" if "held (place_timer r t w) q" "ti_type (tw_timers w ! q) = OnceTimer" "q \<in> set (tw_fired w)" for q
    using place_timer_held [OF assms(2) that(1)] that assms(4,5) by auto
qed (use assms place_timer_type in simp_all)

lemma timer_do_once:
  assumes "wheel_ok away w" "once_ok hand w"
  shows "once_ok hand (timer_do lead x w)"
proof (cases x)
  case (Add_timer ty start itv be)
  show ?thesis
  proof (cases "start = 0")
    case False
    let ?r = "length (tw_timers w)" and ?t = "Timer_new\<lparr>ti_type := ty, ti_start := start, ti_interval := itv, ti_bePoint := be\<rparr>"
    obtain k where k: "timer_do lead x w = place_timer ?r (?t\<lparr>ti_ID := k, ti_ticks := (start - lead) div 100\<rparr>)
        (w\<lparr>tw_timers := tw_timers w @ [?t], tw_lastTimerID := k\<rparr>)"
      using Add_timer False by (simp add: attach_new_def Let_def Timer_new_def nth_append)
    have nf: "?r \<notin> set (tw_fired w)" using assms(2) by (auto simp: once_ok_def)
    have "once_ok hand (w\<lparr>tw_timers := tw_timers w @ [?t], tw_lastTimerID := k\<rparr>)"
      using assms(2) by (rule once_okI) (auto simp: nth_append held_def in_slot_def)
    then show ?thesis unfolding k
      by (rule place_timer_once) (use nf wheel_okD(2) [OF assms(1)] in \<open>simp_all add: nth_append\<close>)
  qed (use Add_timer assms(2) in simp)
next
  case (Cancel r)
  have "ti_type (tw_timers (SetDelete r w) ! q) = ti_type (tw_timers w ! q)" for q
    by (cases "r < length (tw_timers w)") (simp_all add: SetDelete_def set_timer_def nth_list_update list_update_beyond)
  then have "once_ok hand (SetDelete r w)"
    by (intro once_okI [OF assms(2)]) (simp_all add: SetDelete_def set_timer_def held_def in_slot_def)
  then show ?thesis using Cancel by simp
qed

lemma fold_timer_do_once:
  "wheel_ok away w \<Longrightarrow> small (fold (timer_do lead) ops w) \<Longrightarrow> once_ok hand w \<Longrightarrow> once_ok hand (fold (timer_do lead) ops w)"
proof (induction ops arbitrary: w)
  case (Cons x ops)
  have "small (timer_do lead x w)"
    using Cons.prems(2) fold_timer_do_length [of "timer_do lead x w" lead ops] by (simp add: small_def)
  with timer_do_ok [OF Cons.prems(1)] timer_do_once [OF Cons.prems(1,3)] Cons.IH Cons.prems(2) show ?case by simp
qed simp

lemma serve_timer_once:
  assumes "wheel_ok (r # away) w" "small (serve_timer react r w)" "once_ok (r # away) w"
  shows "once_ok away (serve_timer react r w)"
proof (cases "ti_delflag (tw_timers w ! r)")
  case True
  then show ?thesis using once_okI [OF assms(3)] by (simp add: serve_timer_def subset_insertI)
next
  case False
  let ?w = "w\<lparr>tw_fired := tw_fired w @ [r]\<rparr>"
  note ok = wheel_okD [OF assms(1)]
  have "\<not> held w r" using ok(3) ok(7) by (fastforce simp: held_def in_slot_def)
  moreover have "r \<notin> set away" using ok(7) by simp
  moreover have "held ?w q = held w q" for q by (simp add: held_def in_slot_def)
  ultimately have "once_ok away ?w" using assms(3) ok(8) by (auto simp: once_ok_def)
  moreover have "wheel_ok (r # away) ?w" using assms(1) by simp
  ultimately show ?thesis using fold_timer_do_once assms(2) False by (simp add: serve_timer_def OnTimeout_def)
qed

lemma fold_serve_once:
  "wheel_ok (rs @ away) w \<Longrightarrow> small (fold (serve_timer react) rs w) \<Longrightarrow> once_ok (rs @ away) w \<Longrightarrow>
    once_ok away (fold (serve_timer react) rs w)"
proof (induction rs arbitrary: w)
  case (Cons r rs)
  let ?w1 = "serve_timer react r w"
  have sm: "small ?w1" using Cons.prems(2) fold_serve_length [of ?w1 react rs] by (simp add: small_def)
  have ok: "wheel_ok (r # (rs @ away)) w" using Cons.prems(1) by simp
  have "wheel_ok (rs @ away) ?w1" using serve_timer_ok(1) [OF ok sm] wheel_ok_weaken by blast
  moreover have "once_ok (rs @ away) ?w1" using serve_timer_once [OF ok sm] Cons.prems(3) by simp
  ultimately show ?case using Cons.IH Cons.prems(2) by simp
qed simp

lemma again_once:
  assumes "wheel_ok (r # away) w" "once_ok hand w"
  shows "once_ok hand (again date tick r w)"
proof (cases "ti_type (tw_timers w ! r) = OnceTimer \<or> ti_delflag (tw_timers w ! r)")
  case False
  then obtain t where t: "again date tick r w = place_timer r t w" "ti_type t = ti_type (tw_timers w ! r)"
    by (auto simp: again_def attach_again_def Let_def)
  show ?thesis unfolding t(1)
    by (rule place_timer_once [OF assms(2)]) (use wheel_okD(2,8) [OF assms(1)] t(2) False in simp_all)
qed (use assms(2) in \<open>auto simp: again_def attach_again_def\<close>)

lemma fold_again_once:
  "wheel_ok (rs @ away) w \<Longrightarrow> small w \<Longrightarrow> once_ok hand w \<Longrightarrow> once_ok hand (fold (again date tick) rs w)"
proof (induction rs arbitrary: w)
  case (Cons r rs)
  have o: "wheel_ok (r # (rs @ away)) w" using Cons.prems(1) by simp
  from again_ok [OF o Cons.prems(2)] have "wheel_ok (rs @ away) (again date tick r w)" by blast
  moreover have "small (again date tick r w)" using Cons.prems(2) by (simp add: small_def again_length)
  ultimately show ?case using Cons.IH again_once [OF o Cons.prems(3)] by simp
qed simp

section \<open>A turn of the wheel\<close>

lemma visited_type [simp]: "ti_type (visited tick t) = ti_type t"
  by (auto simp: visited_def OnTickEx_def visit_waiting_def Let_def rbind_Inr_iff split: sum.splits prod.splits if_splits)

lemma reset_timer_keeps:
  assumes "reset_timer tick s r w = Inr w'" "\<And>s. ordered (tw_slots w s)"
  shows "ti_type (tw_timers w' ! q) = ti_type (tw_timers w ! q)" "held w' q \<Longrightarrow> held w q \<or> q = r" "ordered (tw_slots w' s')"
proof -
  let ?t = "tw_timers w ! r"
  obtain t' w1 where w': "w' = set_timer r t' w1" "ti_type t' = ti_type ?t" "w1 = w \<or> (\<exists>s. w1 = Slot_AddTimer s r w)"
    using assms(1) by (auto simp: reset_timer_def AddTimer_slot_def rbind_Inr_iff Let_def split: if_splits) fastforce
  then have t: "tw_timers w1 = tw_timers w" by auto
  have "held w' q \<longleftrightarrow> held w1 q" by (simp add: w'(1) held_def in_slot_def set_timer_def)
  then show "held w' q \<Longrightarrow> held w q \<or> q = r" "ordered (tw_slots w' s')"
    using w'(1,3) assms(2) by (auto simp: held_def in_slot_def set_timer_def Slot_AddTimer_def Let_def split: if_splits)
  show "ti_type (tw_timers w' ! q) = ti_type (tw_timers w ! q)"
    using w'(2) t by (cases "r < length (tw_timers w)") (simp_all add: w'(1) set_timer_def nth_list_update list_update_beyond)
qed

lemma reset_timers_keep:
  "reset_timers tick s rs w = Inr w' \<Longrightarrow> (\<And>s. ordered (tw_slots w s)) \<Longrightarrow>
    ti_type (tw_timers w' ! q) = ti_type (tw_timers w ! q) \<and> (held w' q \<longrightarrow> held w q \<or> q \<in> set rs)"
proof (induction rs arbitrary: w)
  case (Cons r rs)
  then obtain w1 where w1: "reset_timer tick s r w = Inr w1" "reset_timers tick s rs w1 = Inr w'" by (auto simp: rbind_Inr_iff)
  note k = reset_timer_keeps [OF w1(1) Cons.prems(2)]
  from Cons.IH [OF w1(2) k(3)] k(1,2) [of q] show ?case by auto
qed simp

lemma Single_OnTick_once:
  assumes "wheel_ok [] w" "small w" "Single_OnTick tick w = Inr w'" "once_ok [] w"
  shows "once_ok [] w'"
proof -
  let ?c = "tw_currSlot w" and ?ts = "tw_timers w"
  obtain m out res ts w2 where sc: "scan_slot tick (tw_slots w ?c) ?ts = Inr (m, out, res, ts)"
    "reset_timers tick ?c res (w\<lparr>tw_currSlot := next_slot ?c, tw_slots := (tw_slots w)(?c := m), tw_timers := ts\<rparr>) = Inr w2"
    "w' = w2\<lparr>tw_timeout := tw_timeout w2 @ out\<rparr>"
    using assms(3) by (auto simp: Single_OnTick_def Let_def rbind_Inr_iff)
  let ?w1 = "w\<lparr>tw_currSlot := next_slot ?c, tw_slots := (tw_slots w)(?c := m), tw_timers := ts\<rparr>"
  note t = Single_OnTick_ok [OF assms(1-3)] and s1 = scanned_ok [OF assms(1) sc(1)]
  have k: "ti_type (tw_timers w2 ! q) = ti_type (ts ! q)" "held w2 q \<longrightarrow> held ?w1 q \<or> q \<in> set res" for q
    using reset_timers_keep [OF sc(2), of q] wheel_okD(2) [OF s1(1)] by auto
  have h1: "held ?w1 q \<or> q \<in> set res \<or> q \<in> set out \<Longrightarrow> held w q" for q
    using s1(3,5,6) [of q] by (auto simp: held_def)
  have "held w' q \<Longrightarrow> held w2 q \<or> q \<in> set out" for q by (auto simp: sc(3) held_def in_slot_def)
  with k(2) h1 have "held w' q \<Longrightarrow> held w q" for q by blast
  moreover have "ti_type (tw_timers w' ! q) = ti_type (?ts ! q)" if "q < length ?ts" for q
    using k(1) [of q] s1(2) s1(4) [of q] that by (simp add: sc(3))
  ultimately show ?thesis using once_okI [OF assms(4), of w' "[]"] t(2,4) by simp
qed

section \<open>Runs\<close>

lemma Single_Tick_once:
  assumes "wheel_ok [] w" "small (Single_Tick react date tick w)" "once_ok [] w"
  shows "once_ok [] (Single_Tick react date tick w)"
proof -
  let ?rs = "tw_timeout w" and ?w0 = "w\<lparr>tw_timeout := []\<rparr>"
  let ?w1 = "fold (serve_timer react) ?rs ?w0"
  have sm: "small ?w1" using assms(2) by (simp add: small_def Single_Tick_def Let_def fold_again_length)
  have ok: "wheel_ok (?rs @ []) ?w0" using assms(1) by (auto simp: wheel_ok_def)
  have "once_ok (?rs @ []) ?w0" using assms(3) by (auto simp: once_ok_def held_def in_slot_def)
  from fold_serve_once [OF ok sm this] have "once_ok [] ?w1" .
  moreover have "wheel_ok (?rs @ []) ?w1" using fold_serve_ok [OF ok sm refl] by simp
  ultimately show ?thesis using fold_again_once [of ?rs "[]"] sm by (simp add: Single_Tick_def Let_def)
qed

lemma wheel_step_once:
  assumes "wheel_ok [] w" "wheel_step react e w = Inr w'" "small w'" "once_ok [] w"
  shows "once_ok [] w'"
proof (cases e)
  case (Turns tick)
  then have "Single_OnTick tick w = Inr w'" "small w" using assms(2) smallD [OF assms(3)] Single_OnTick_length by simp_all
  then show ?thesis using Single_OnTick_once [OF assms(1) _ _ assms(4)] by blast
qed (use assms timer_do_once Single_Tick_once in auto)

lemma single_run_once:
  "wheel_ok [] w \<Longrightarrow> single_run react es w = Inr w' \<Longrightarrow> small w' \<Longrightarrow> once_ok [] w \<Longrightarrow> once_ok [] w'"
proof (induction es arbitrary: w)
  case (Cons e es)
  then obtain w1 where w1: "wheel_step react e w = Inr w1" "single_run react es w1 = Inr w'" by (auto simp: rbind_Inr_iff)
  have sm: "small w1" using smallD [OF Cons.prems(3) single_run_length [OF w1(2)]] .
  show ?case
    using Cons.IH [OF wheel_step_ok [OF Cons.prems(1) w1(1) sm] w1(2) Cons.prems(3)]
      wheel_step_once [OF Cons.prems(1) w1(1) sm Cons.prems(4)] by blast
qed simp

text \<open>
  C9. A timer that is registered for one time goes off at most once. After any run from the start, with any
  clock, any functions of timers (which may add and cancel timers) and any order of adding, turning and serving,
  the function of a timer of type \<open>OnceTimer\<close> has been called at most once, and once it has been called
  the timer is in no slot and not among those that are due.
\<close>

theorem once_timer_fires_once:
  assumes "single_run react es TimerManager_new = Inr w" "length (tw_timers w) + 1 < 2 ^ 32"
    and "r < length (tw_timers w)" "ti_type (tw_timers w ! r) = OnceTimer"
  shows "count_list (tw_fired w) r \<le> 1 \<and>
    (r \<in> set (tw_fired w) \<longrightarrow> r \<notin> set (tw_timeout w) \<and> (\<forall>s k. map_of (tw_slots w s) k \<noteq> Some r))"
proof -
  have sm: "small w" using assms(2) by (simp add: small_def)
  have "once_ok [] w"
    by (rule single_run_once [OF TimerManager_new_ok assms(1) sm]) (simp add: once_ok_def TimerManager_new_def)
  then have o: "count_list (tw_fired w) r \<le> 1" "r \<in> set (tw_fired w) \<Longrightarrow> \<not> held w r" using assms(3,4) by (simp_all add: once_ok_def)
  have "map_of (tw_slots w s) k = Some r \<Longrightarrow> k = timer_key r" for s k
    using wheel_okD(3) [OF single_run_ok [OF TimerManager_new_ok assms(1) sm]] by blast
  then show ?thesis using o by (auto simp: held_def in_slot_def)
qed

definition demo_adds :: "nat list \<Rightarrow> nat \<Rightarrow> timer_op list" where
  "demo_adds h r = (if r = 0 then [Add_timer OnceTimer 200 0 9999] else [])"

definition demo_once :: "wheel_event list" where
  "demo_once = [Does (Add_timer LoopTimer 100 100 0), Turns 0, Serves (2020, 1, 1) 10, Turns 110, Serves (2020, 1, 1) 120,
     Turns 210, Serves (2020, 1, 1) 220, Turns 310, Serves (2020, 1, 1) 320]"

theorem once_timer_fires_once_witness:
  "let w = projr (single_run demo_adds demo_once TimerManager_new) in
     tw_fired w = [0, 0, 0, 1, 0, 2] \<and> count_list (tw_fired w) 1 \<le> 1"
proof -
  let ?w = "projr (single_run demo_adds demo_once TimerManager_new)"
  have "\<not> isl (single_run demo_adds demo_once TimerManager_new)" by code_simp
  then have run: "single_run demo_adds demo_once TimerManager_new = Inr ?w" by (metis sum.collapse(2))
  have n: "length (tw_timers ?w) = 5" by code_simp
  have "ti_type (tw_timers ?w ! 1) = OnceTimer" by code_simp
  from once_timer_fires_once [OF run _ _ this] n have "count_list (tw_fired ?w) 1 \<le> 1" by simp
  moreover have "tw_fired ?w = [0, 0, 0, 1, 0, 2]" by code_simp
  ultimately show ?thesis by (simp add: Let_def)
qed

end
