(* ===== verification/TimerBeat.thy ===== *)
theory TimerBeat
  imports TimerRuns
begin

text \<open>
  A timer that repeats does not drift: the point at which it goes off next is its first point and a whole
  number of intervals, one for each time it has gone off, however late the wheel and the main loop were.
\<close>

definition on_beat :: "nat \<Rightarrow> int \<Rightarrow> int \<Rightarrow> int \<Rightarrow> timer_wheel \<Rightarrow> bool" where
  "on_beat r be itv n w \<longleftrightarrow> r < length (tw_timers w) \<and> (let t = tw_timers w ! r in
     ti_type t = LoopTimer \<and> ti_interval t = itv \<and> (\<not> ti_delflag t \<longrightarrow> ti_bePoint t = be + itv * n))"

text \<open>What an operation keeps of a timer that is there: it may be deleted.\<close>

definition keeps_timer :: "nat \<Rightarrow> timer_wheel \<Rightarrow> timer_wheel \<Rightarrow> bool" where
  "keeps_timer r w w' \<longleftrightarrow> (r < length (tw_timers w) \<longrightarrow> r < length (tw_timers w') \<and>
     (let t = tw_timers w ! r; t' = tw_timers w' ! r in ti_type t' = ti_type t \<and> ti_interval t' = ti_interval t \<and>
        ti_bePoint t' = ti_bePoint t \<and> (ti_delflag t \<longrightarrow> ti_delflag t')))"

lemma keeps_timer_refl [simp]: "keeps_timer r w w" by (simp add: keeps_timer_def Let_def)

lemma keeps_timer_trans: "keeps_timer r w1 w2 \<Longrightarrow> keeps_timer r w2 w3 \<Longrightarrow> keeps_timer r w1 w3"
  by (auto simp: keeps_timer_def Let_def)

lemma keeps_timer_beat: "keeps_timer r w w' \<Longrightarrow> on_beat r be itv n w \<Longrightarrow> on_beat r be itv n w'"
  by (auto simp: keeps_timer_def on_beat_def Let_def)

lemma set_timer_keeps:
  assumes "ti_type t = ti_type (tw_timers w ! q)" "ti_interval t = ti_interval (tw_timers w ! q)"
    "ti_bePoint t = ti_bePoint (tw_timers w ! q)" "ti_delflag (tw_timers w ! q) \<Longrightarrow> ti_delflag t"
  shows "keeps_timer r w (set_timer q t w)"
  using assms by (cases "q = r") (auto simp: keeps_timer_def set_timer_def Let_def nth_list_update)

lemma keeps_timer_fields [simp]:
  "keeps_timer r (Slot_AddTimer s q w) w' = keeps_timer r w w'" "keeps_timer r w (Slot_AddTimer s q w') = keeps_timer r w w'"
  by (simp_all add: keeps_timer_def)

lemma place_timer_keeps_other: "r \<noteq> q \<Longrightarrow> keeps_timer r w (place_timer q t w)"
  by (simp add: keeps_timer_def place_timer_def set_timer_def Let_def)

lemma timer_do_keeps: "keeps_timer r w (timer_do lead x w)"
proof (cases x)
  case (Add_timer ty start itv be)
  then show ?thesis
    by (auto simp: attach_new_def Let_def Timer_new_def nth_append keeps_timer_def place_timer_def set_timer_def)
qed (auto simp: SetDelete_def intro: set_timer_keeps)

lemma fold_timer_do_keeps: "keeps_timer r w (fold (timer_do lead) ops w)"
  by (induction ops arbitrary: w) (auto intro: keeps_timer_trans [OF timer_do_keeps])

lemma timer_do_fired [simp]: "tw_fired (timer_do lead x w) = tw_fired w"
  by (cases x) (auto simp: attach_new_def Let_def place_timer_def set_timer_def SetDelete_def)

lemma fold_timer_do_fired [simp]: "tw_fired (fold (timer_do lead) ops w) = tw_fired w"
  by (induction ops arbitrary: w) auto

section \<open>Serving\<close>

lemma serve_timer_keeps: "keeps_timer r w (serve_timer react q w)"
proof -
  have "keeps_timer r w (w\<lparr>tw_fired := f\<rparr>)" for f by (simp add: keeps_timer_def Let_def)
  then show ?thesis by (auto simp: serve_timer_def OnTimeout_def intro: keeps_timer_trans [OF _ fold_timer_do_keeps])
qed

lemma serve_timer_fired:
  "tw_fired (serve_timer react q w) = tw_fired w @ (if ti_delflag (tw_timers w ! q) then [] else [q])"
  by (simp add: serve_timer_def OnTimeout_def)

lemma fold_serve_keeps: "keeps_timer r w (fold (serve_timer react) rs w)"
  by (induction rs arbitrary: w) (auto intro: keeps_timer_trans [OF serve_timer_keeps])

lemma fold_serve_fired:
  assumes "distinct rs" "w' = fold (serve_timer react) rs w" "r < length (tw_timers w)" "\<not> ti_delflag (tw_timers w' ! r)"
  shows "count_list (tw_fired w') r = count_list (tw_fired w) r + (if r \<in> set rs then 1 else 0)"
  using assms
proof (induction rs arbitrary: w)
  case (Cons q rs)
  let ?w1 = "serve_timer react q w"
  have w': "w' = fold (serve_timer react) rs ?w1" using Cons.prems(2) by simp
  have "keeps_timer r w ?w1" "keeps_timer r w w'" using serve_timer_keeps fold_serve_keeps Cons.prems(2) by blast+
  then have r: "r < length (tw_timers ?w1)" "\<not> ti_delflag (tw_timers w ! r)"
    using Cons.prems(3,4) by (auto simp: keeps_timer_def Let_def)
  from Cons.IH [OF _ w' r(1) Cons.prems(4)] Cons.prems(1)
  have "count_list (tw_fired w') r = count_list (tw_fired ?w1) r + (if r \<in> set rs then 1 else 0)" by simp
  then show ?case using Cons.prems(1) r(2) by (auto simp: serve_timer_fired)
qed simp

lemma again_other: "r \<noteq> q \<Longrightarrow> keeps_timer r w (again date tick q w)"
  by (auto simp: again_def attach_again_def Let_def place_timer_keeps_other)

lemma again_beat:
  assumes "on_beat r be itv n w"
  shows "on_beat r be itv (n + 1) (again date tick r w)"
proof -
  let ?t = "tw_timers w ! r"
  have t: "r < length (tw_timers w)" "ti_type ?t = LoopTimer" "ti_interval ?t = itv" using assms by (auto simp: on_beat_def Let_def)
  show ?thesis
  proof (cases "ti_delflag ?t")
    case True
    then show ?thesis using t by (simp add: on_beat_def again_def attach_again_def)
  next
    case False
    then have "ti_bePoint ?t = be + itv * n" using assms by (simp add: on_beat_def Let_def)
    then show ?thesis using t False
      by (simp add: on_beat_def again_def attach_again_def Let_def place_timer_def set_timer_def algebra_simps)
  qed
qed

lemma fold_again_beat:
  "distinct rs \<Longrightarrow> on_beat r be itv n w \<Longrightarrow> on_beat r be itv (n + (if r \<in> set rs then 1 else 0)) (fold (again date tick) rs w)"
proof (induction rs arbitrary: w n)
  case (Cons q rs)
  show ?case
  proof (cases "q = r")
    case True
    then show ?thesis using Cons.IH [OF _ again_beat [OF Cons.prems(2)]] Cons.prems(1) by simp
  next
    case False
    then show ?thesis using Cons.IH [OF _ keeps_timer_beat [OF again_other Cons.prems(2)]] Cons.prems(1) by simp
  qed
qed simp

lemma again_fired [simp]: "tw_fired (again date tick q w) = tw_fired w"
  by (auto simp: again_def attach_again_def Let_def place_timer_def set_timer_def)

lemma fold_again_fired [simp]: "tw_fired (fold (again date tick) rs w) = tw_fired w"
  by (induction rs arbitrary: w) auto

lemma again_delflag: "ti_delflag (tw_timers (again date tick q w) ! r) = ti_delflag (tw_timers w ! r)"
  by (cases "q < length (tw_timers w)")
     (auto simp: again_def attach_again_def Let_def place_timer_def set_timer_def nth_list_update list_update_beyond)

lemma fold_again_delflag: "ti_delflag (tw_timers (fold (again date tick) rs w) ! r) = ti_delflag (tw_timers w ! r)"
  by (induction rs arbitrary: w) (auto simp: again_delflag)

section \<open>A turn\<close>

lemma visited_keeps: "ti_type (visited tick t) = ti_type t" "ti_interval (visited tick t) = ti_interval t"
  "ti_bePoint (visited tick t) = ti_bePoint t" "ti_delflag (visited tick t) = ti_delflag t"
  by (auto simp: visited_def OnTickEx_def visit_waiting_def Let_def rbind_Inr_iff split: sum.splits prod.splits if_splits)

lemma set_placed_keeps:
  "ti_type t = ti_type (tw_timers w ! q) \<Longrightarrow> ti_interval t = ti_interval (tw_timers w ! q) \<Longrightarrow>
    ti_bePoint t = ti_bePoint (tw_timers w ! q) \<Longrightarrow> ti_delflag t = ti_delflag (tw_timers w ! q) \<Longrightarrow>
    keeps_timer r w (set_timer q t (Slot_AddTimer s q w))"
  using set_timer_keeps [of t "Slot_AddTimer s q w" q r] by simp

lemma reset_timer_keeps_timer: "reset_timer tick s q w = Inr w' \<Longrightarrow> keeps_timer r w w'"
  by (auto simp: reset_timer_def AddTimer_slot_def rbind_Inr_iff Let_def split: if_splits
      intro: set_timer_keeps set_placed_keeps)

lemma reset_timers_keep_timer: "reset_timers tick s rs w = Inr w' \<Longrightarrow> keeps_timer r w w'"
  by (induction rs arbitrary: w) (auto simp: rbind_Inr_iff intro: keeps_timer_trans dest: reset_timer_keeps_timer)

lemma Single_OnTick_keeps:
  assumes "wheel_ok [] w" "Single_OnTick tick w = Inr w'"
  shows "keeps_timer r w w'"
proof -
  let ?c = "tw_currSlot w"
  obtain m out res ts w2 where sc: "scan_slot tick (tw_slots w ?c) (tw_timers w) = Inr (m, out, res, ts)"
    "reset_timers tick ?c res (w\<lparr>tw_currSlot := next_slot ?c, tw_slots := (tw_slots w)(?c := m), tw_timers := ts\<rparr>) = Inr w2"
    "w' = w2\<lparr>tw_timeout := tw_timeout w2 @ out\<rparr>"
    using assms(2) by (auto simp: Single_OnTick_def Let_def rbind_Inr_iff)
  let ?w1 = "w\<lparr>tw_currSlot := next_slot ?c, tw_slots := (tw_slots w)(?c := m), tw_timers := ts\<rparr>"
  note s = scanned_ok(2,4) [OF assms(1) sc(1)]
  have "keeps_timer r w ?w1" using s by (auto simp: keeps_timer_def Let_def visited_keeps)
  moreover have "keeps_timer r w2 w'" by (simp add: sc(3) keeps_timer_def Let_def)
  ultimately show ?thesis using reset_timers_keep_timer [OF sc(2)] keeps_timer_trans by blast
qed

lemma Single_OnTick_fired: "Single_OnTick tick w = Inr w' \<Longrightarrow> tw_fired w' = tw_fired w"
  by (auto simp: Single_OnTick_def Let_def rbind_Inr_iff dest: reset_timers_fired)

section \<open>Runs\<close>

text \<open>An alive timer has come again as often as it has gone off.\<close>

lemma wheel_step_beat:
  assumes "wheel_ok [] w" "wheel_step react e w = Inr w'" "on_beat r be itv (int (count_list (tw_fired w) r) - n) w"
  shows "on_beat r be itv (int (count_list (tw_fired w') r) - n) w'"
proof (cases e)
  case (Does x)
  then show ?thesis using assms(2,3) keeps_timer_beat [OF timer_do_keeps] by auto
next
  case (Turns tick)
  then have "Single_OnTick tick w = Inr w'" using assms(2) by simp
  then show ?thesis using keeps_timer_beat [OF Single_OnTick_keeps [OF assms(1)] assms(3)] Single_OnTick_fired by metis
next
  case (Serves date tick)
  let ?rs = "tw_timeout w" and ?w0 = "w\<lparr>tw_timeout := []\<rparr>" and ?k = "int (count_list (tw_fired w) r) - n"
  let ?w1 = "fold (serve_timer react) ?rs ?w0"
  have w': "w' = fold (again date tick) ?rs ?w1" using Serves assms(2) by (simp add: Single_Tick_def Let_def)
  have d: "distinct ?rs" using wheel_okD(7) [OF assms(1)] by simp
  have "on_beat r be itv ?k ?w0" using assms(3) by (simp add: on_beat_def)
  then have "on_beat r be itv ?k ?w1" using keeps_timer_beat fold_serve_keeps by blast
  from fold_again_beat [OF d this] have b: "on_beat r be itv (?k + (if r \<in> set ?rs then 1 else 0)) w'" by (simp add: w')
  show ?thesis
  proof (cases "ti_delflag (tw_timers w' ! r)")
    case True
    then show ?thesis using b by (simp add: on_beat_def Let_def)
  next
    case False
    then have "\<not> ti_delflag (tw_timers ?w1 ! r)" by (simp add: w' fold_again_delflag)
    from fold_serve_fired [OF d refl _ this] have "count_list (tw_fired w') r = count_list (tw_fired w) r + (if r \<in> set ?rs then 1 else 0)"
      using assms(3) by (simp add: w' on_beat_def)
    then show ?thesis using b by (simp add: algebra_simps split: if_splits)
  qed
qed

lemma single_run_beat:
  "wheel_ok [] w \<Longrightarrow> single_run react es w = Inr w' \<Longrightarrow> small w' \<Longrightarrow> on_beat r be itv (int (count_list (tw_fired w) r) - n) w \<Longrightarrow>
    on_beat r be itv (int (count_list (tw_fired w') r) - n) w'"
proof (induction es arbitrary: w)
  case (Cons e es)
  then obtain w1 where w1: "wheel_step react e w = Inr w1" "single_run react es w1 = Inr w'" by (auto simp: rbind_Inr_iff)
  have sm: "small w1" using smallD [OF Cons.prems(3) single_run_length [OF w1(2)]] .
  show ?case
    using Cons.IH [OF wheel_step_ok [OF Cons.prems(1) w1(1) sm] w1(2) Cons.prems(3)]
      wheel_step_beat [OF Cons.prems(1) w1(1) Cons.prems(4)] by blast
qed simp

text \<open>
  C10. A repeated timer does not drift. Let a timer with the interval \<open>itv\<close> be due again and again in a run of the
  servers' main loop and wheel. As long as it is not cancelled, the point at which it is due next is the point \<open>be\<close> at which it was
  due before the run, plus one interval for each time its function has been called in the run, no
  matter how late the wheel turned or the main loop served it, and whatever the other timers did.
\<close>

theorem loop_timer_keeps_beat:
  assumes "single_run react es TimerManager_new = Inr w" "single_run react fs w = Inr w'" "length (tw_timers w') + 1 < 2 ^ 32"
    and "r < length (tw_timers w)" "ti_type (tw_timers w ! r) = LoopTimer" "\<not> ti_delflag (tw_timers w' ! r)"
  shows "ti_bePoint (tw_timers w' ! r) = ti_bePoint (tw_timers w ! r) +
    ti_interval (tw_timers w ! r) * (int (count_list (tw_fired w') r) - int (count_list (tw_fired w) r))"
proof -
  let ?t = "tw_timers w ! r"
  have sm: "small w'" using assms(3) by (simp add: small_def)
  have ok: "wheel_ok [] w"
    using single_run_ok [OF TimerManager_new_ok assms(1) smallD [OF sm single_run_length [OF assms(2)]]] .
  have "on_beat r (ti_bePoint ?t) (ti_interval ?t) (int (count_list (tw_fired w) r) - int (count_list (tw_fired w) r)) w"
    using assms(4,5) by (simp add: on_beat_def Let_def)
  from single_run_beat [OF ok assms(2) sm this] assms(6) show ?thesis by (simp add: on_beat_def Let_def)
qed

definition demo_late :: "wheel_event list" where
  "demo_late = [Turns 130, Serves (2020, 1, 1) 260, Turns 300, Serves (2020, 1, 1) 310]"

theorem loop_timer_keeps_beat_witness:
  "let w = projr (single_run no_react [Does (Add_timer LoopTimer 100 100 50)] TimerManager_new);
     w' = projr (single_run no_react demo_late w)
   in tw_fired w' = [0, 0] \<and> ti_bePoint (tw_timers w' ! 0) = 50 + 100 * 2"
proof -
  let ?a = "[Does (Add_timer LoopTimer 100 100 50)]"
  let ?w = "projr (single_run no_react ?a TimerManager_new)"
  let ?w' = "projr (single_run no_react demo_late ?w)"
  have "\<not> isl (single_run no_react ?a TimerManager_new)" "\<not> isl (single_run no_react demo_late ?w)" by code_simp+
  then have run: "single_run no_react ?a TimerManager_new = Inr ?w" "single_run no_react demo_late ?w = Inr ?w'"
    by (metis sum.collapse(2))+
  have n: "length (tw_timers ?w') = 1" "length (tw_timers ?w) = 1" by code_simp+
  have t: "ti_type (tw_timers ?w ! 0) = LoopTimer" "\<not> ti_delflag (tw_timers ?w' ! 0)" by code_simp+
  have f: "tw_fired ?w = []" "tw_fired ?w' = [0, 0]" "ti_bePoint (tw_timers ?w ! 0) = 50" "ti_interval (tw_timers ?w ! 0) = 100"
    by code_simp+
  have "ti_bePoint (tw_timers ?w' ! 0) = ti_bePoint (tw_timers ?w ! 0) +
    ti_interval (tw_timers ?w ! 0) * (int (count_list (tw_fired ?w') 0) - int (count_list (tw_fired ?w) 0))"
    by (rule loop_timer_keeps_beat [OF run _ _ t]; (unfold n)?; simp?)
  then have "ti_bePoint (tw_timers ?w' ! 0) = 50 + 100 * 2" unfolding f by simp
  with f(2) show ?thesis unfolding Let_def by blast
qed

end
