(* ===== verification/TimerFaults.thy ===== *)
theory TimerFaults
  imports TimerBeat
begin

text \<open>
  Where the wheel goes wrong: timers that wait for more than 7158 rounds, timers of \<open>TimerManager\<close> that
  are cancelled by another timer of the same turn.
\<close>

section \<open>Rounds\<close>

lemma round_span_eq: "round_span e = (if uint e \<le> 7158 then Inr (uint e * 300000) else Inl Overflow)"
proof -
  have "0 \<le> uint e" "uint e < 65536" using uint_lt2p [of e] by auto
  moreover have "rbind (c_int (x * 100)) (\<lambda>x. c_int (x * 3000)) = (if x \<le> 7158 then Inr (x * 300000) else Inl Overflow)"
    if "0 \<le> x" "x < 65536" for x
    using that by (auto simp: c_int_def)
  ultimately show ?thesis unfolding round_span_def SLOT_CHANGE_TIME_def SLOT_COUNT_def by blast
qed

text \<open>A timer that is visited before it is due and has waited too long.\<close>

definition outwaits :: "int \<Rightarrow> wheel_timer \<Rightarrow> bool" where
  "outwaits tick t \<longleftrightarrow> \<not> ti_delflag t \<and> tick < ti_bePoint t \<and> 1 < ti_round t \<and> 0 < ti_tickPoint t \<and> 7158 < uint (ti_elapseRound t)"

lemma visit_waiting_fault: "isl (visit_waiting tick t) \<longleftrightarrow> 0 < ti_tickPoint t \<and> 7158 < uint (ti_elapseRound t)"
  by (simp add: visit_waiting_def round_span_eq)

lemma scan_slot_fault:
  "distinct (map snd ps) \<Longrightarrow> isl (scan_slot tick ps ts) \<longleftrightarrow> (\<exists>p \<in> set ps. outwaits tick (ts ! snd p))"
proof (induction ps arbitrary: ts)
  case (Cons p ps)
  let ?t = "ts ! snd p"
  have fresh: "distinct (map snd ps)" "snd p \<notin> snd ` set ps" using Cons.prems by auto
  have same: "ts[snd p := u] ! snd q = ts ! snd q" if "q \<in> set ps" for q u
    using fresh(2) that by (metis image_eqI nth_list_update_neq)
  note IH = Cons.IH [OF fresh(1)]
  obtain f t where f: "OnTickEx tick ?t = (f, t)" by force
  consider "ti_delflag ?t" | "\<not> ti_delflag ?t" f | "\<not> ti_delflag ?t" "\<not> f" by blast
  then show ?case
  proof cases
    case 1
    then show ?thesis by (simp add: IH outwaits_def)
  next
    case 2
    have "\<not> outwaits tick ?t" using f 2 by (auto simp: outwaits_def OnTickEx_def Let_def split: if_splits)
    moreover have "isl (scan_slot tick (p # ps) ts) = isl (scan_slot tick ps (ts[snd p := t]))"
      using 2 f by (cases "scan_slot tick ps (ts[snd p := t])") (auto simp: Let_def)
    ultimately show ?thesis by (simp add: IH same)
  next
    case 3
    have t: "t = ?t\<lparr>ti_round := ti_round ?t - 1\<rparr>" "tick < ti_bePoint ?t" "1 < ti_round ?t"
      using f 3 by (auto simp: OnTickEx_def Let_def split: if_splits)
    then have o: "outwaits tick ?t \<longleftrightarrow> isl (visit_waiting tick t)" using 3 by (simp add: visit_waiting_fault outwaits_def)
    show ?thesis
    proof (cases "visit_waiting tick t")
      case (Inl e)
      then show ?thesis using 3 f o by (auto simp: Let_def)
    next
      case (Inr x)
      obtain v u where x: "x = (v, u)" by force
      have "isl (scan_slot tick (p # ps) ts) = isl (scan_slot tick ps (ts[snd p := u]))"
        using 3 f Inr x by (cases "scan_slot tick ps (ts[snd p := u])") (auto simp: Let_def split: visit.splits)
      then show ?thesis using o Inr by (simp add: IH same)
    qed
  qed
qed simp

lemma moves_in_time: "outcome tick t = Moves \<Longrightarrow> uint (ti_elapseRound (visited tick t)) \<le> 7158"
  by (auto simp: outcome_def visited_def visit_waiting_def round_span_eq split: if_splits sum.splits prod.splits visit.splits)

lemma reset_timer_total:
  assumes "uint (ti_elapseRound (tw_timers w ! r)) \<le> 7158"
  shows "\<exists>w'. reset_timer tick s r w = Inr w'"
  using assms by (auto simp: reset_timer_def AddTimer_slot_def Let_def round_span_eq)

lemma reset_timers_total:
  "wheel_ok (rs @ away) w \<Longrightarrow> small w \<Longrightarrow> s < 3000 \<Longrightarrow> \<forall>r \<in> set rs. uint (ti_elapseRound (tw_timers w ! r)) \<le> 7158 \<Longrightarrow>
    \<exists>w'. reset_timers tick s rs w = Inr w'"
proof (induction rs arbitrary: w)
  case (Cons r rs)
  have ok: "wheel_ok (r # (rs @ away)) w" using Cons.prems(1) by simp
  from reset_timer_total [of w r tick s] obtain w1 where w1: "reset_timer tick s r w = Inr w1" using Cons.prems(4) by auto
  note k = reset_timer_ok [OF ok Cons.prems(2,3) w1]
  have "tw_timers w1 ! q = tw_timers w ! q" if "q \<in> set rs" for q
    using undisturbedD(4) [OF k(2), of q] wheel_okD(7,8) [OF ok] that by auto
  then have "\<exists>w'. reset_timers tick s rs w1 = Inr w'"
    using Cons.IH [OF k(1)] Cons.prems(2-4) k(4) by (simp add: small_def)
  then show ?case using w1 by auto
qed simp

text \<open>
  C11. When a turn of the wheel is undefined. After every run from the start, the next turn computes its
  result, for any time of the clock, except in exactly one case: a timer in the current slot
  that is not due has been visited more than 7158 times since it was placed (its rounds take 300 seconds
  each, so it has waited for more than 24.8 days, which the 32 bits of the start of a timer allow). Then
  \<open>m_elapseRound * SLOT_CHANGE_TIME * SLOT_COUNT\<close> overflows an \<open>int\<close>.
\<close>

theorem wheel_turn_fault:
  assumes "single_run react es TimerManager_new = Inr w" "length (tw_timers w) + 1 < 2 ^ 32"
  shows "(\<nexists>w'. Single_OnTick tick w = Inr w') \<longleftrightarrow>
    (\<exists>p \<in> set (tw_slots w (tw_currSlot w)). let t = tw_timers w ! snd p in
       \<not> ti_delflag t \<and> tick < ti_bePoint t \<and> 1 < ti_round t \<and> 0 < ti_tickPoint t \<and> 7158 < uint (ti_elapseRound t))"
proof -
  let ?c = "tw_currSlot w"
  have sm: "small w" using assms(2) by (simp add: small_def)
  have ok: "wheel_ok [] w" using single_run_ok [OF TimerManager_new_ok assms(1) sm] .
  have f: "isl (scan_slot tick (tw_slots w ?c) (tw_timers w)) \<longleftrightarrow> (\<exists>p \<in> set (tw_slots w ?c). outwaits tick (tw_timers w ! snd p))"
    using scan_slot_fault slot_entries(1) [OF ok] by blast
  have "(\<nexists>w'. Single_OnTick tick w = Inr w') \<longleftrightarrow> isl (scan_slot tick (tw_slots w ?c) (tw_timers w))"
  proof (cases "scan_slot tick (tw_slots w ?c) (tw_timers w)")
    case (Inl e)
    then show ?thesis by (simp add: Single_OnTick_def Let_def)
  next
    case (Inr x)
    obtain m out res ts where "x = (m, out, res, ts)" using prod_cases4 by blast
    then have sc: "scan_slot tick (tw_slots w ?c) (tw_timers w) = Inr (m, out, res, ts)" using Inr by simp
    let ?w1 = "w\<lparr>tw_currSlot := next_slot ?c, tw_slots := (tw_slots w)(?c := m), tw_timers := ts\<rparr>"
    note s = scanned_ok [OF ok sc]
    have "uint (ti_elapseRound (ts ! r)) \<le> 7158" if r: "r \<in> set res" for r
    proof -
      have "r < length ts" using wheel_okD(8) [OF s(1)] r by auto
      then show ?thesis using s(4,6) [of r] r moves_in_time by auto
    qed
    then have "\<exists>w'. reset_timers tick ?c res ?w1 = Inr w'"
      using reset_timers_total [OF s(1)] wheel_okD(1) [OF ok] sm s(2) by (simp add: small_def)
    then show ?thesis using sc by (auto simp: Single_OnTick_def Let_def)
  qed
  then show ?thesis by (simp add: f outwaits_def Let_def)
qed

text \<open>A clock that is exact: a timer that is not due is visited every 300 seconds, at most 7159 times.\<close>

primrec visits :: "int \<Rightarrow> nat \<Rightarrow> wheel_timer \<Rightarrow> fault + wheel_timer" where
  "visits t0 0 t = Inr t"
| "visits t0 (Suc k) t = rbind (visits t0 k t) (\<lambda>t. rbind (visit_waiting (t0 + 300000 * int k) (snd (OnTickEx (t0 + 300000 * int k) t)))
     (\<lambda>(v, t). Inr t))"

lemma visits_count:
  assumes "0 < t0" "ti_tickPoint t = 0" "t0 + 300000 * 7159 < ti_bePoint t" "1 \<le> k" "k \<le> 7159"
  shows "\<exists>n. visits t0 k t = Inr (t\<lparr>ti_round := n, ti_elapseRound := of_nat k, ti_tickPoint := t0\<rparr>)"
  using assms(4,5)
proof (induction k rule: nat_induct_at_least)
  case base
  then show ?case using assms(2,3) by (simp add: visit_waiting_def OnTickEx_def Let_def) blast
next
  case (Suc k)
  then obtain n where n: "visits t0 k t = Inr (t\<lparr>ti_round := n, ti_elapseRound := of_nat k, ti_tickPoint := t0\<rparr>)" by auto
  have "(of_nat k :: u16) = word_of_int (int k)" by simp
  then have "uint (of_nat k :: u16) = int k" using Suc.prems by (simp add: unsigned_of_nat take_bit_eq_mod)
  then show ?case using n Suc.prems Suc.hyps assms(1,3)
    by (intro exI [of _ "n - 1"]) (simp add: visit_waiting_def OnTickEx_def Let_def round_span_eq add.commute)
qed

lemma exact_clock_overflows:
  assumes "0 < t0" "ti_tickPoint t = 0" "t0 + 300000 * 7159 < ti_bePoint t"
  shows "\<exists>t'. visits t0 7159 t = Inr t'" "visits t0 7160 t = Inl Overflow"
proof -
  obtain n where n: "visits t0 7159 t = Inr (t\<lparr>ti_round := n, ti_elapseRound := of_nat 7159, ti_tickPoint := t0\<rparr>)"
    using visits_count [OF assms, of 7159] by auto
  then show "\<exists>t'. visits t0 7159 t = Inr t'" by blast
  have Suc_eq: "7160 = Suc 7159" by simp
  have "visits t0 (Suc 7159) t = Inl Overflow"
    unfolding visits.simps n using assms by (simp add: visit_waiting_def OnTickEx_def Let_def round_span_eq)
  then show "visits t0 7160 t = Inl Overflow" by (simp only: Suc_eq)
qed

definition demo_waiting :: "wheel_event list" where
  "demo_waiting = [Does (Add_timer OnceTimer 300100 0 400000), Turns 100, Turns 200]"

theorem wheel_turn_fault_witness:
  "\<exists>w'. Single_OnTick 300 (projr (single_run no_react demo_waiting TimerManager_new)) = Inr w'"
proof -
  let ?w = "projr (single_run no_react demo_waiting TimerManager_new)"
  have "\<not> isl (single_run no_react demo_waiting TimerManager_new)" by code_simp
  then have run: "single_run no_react demo_waiting TimerManager_new = Inr ?w" by (metis sum.collapse(2))
  have n: "length (tw_timers ?w) = 1" "ti_tickPoint (tw_timers ?w ! 0) = 100" "ti_elapseRound (tw_timers ?w ! 0) = 1"
    "tw_slots ?w (tw_currSlot ?w) = []" by code_simp+
  have "length (tw_timers ?w) + 1 < 2 ^ 32" unfolding n(1) by simp
  from wheel_turn_fault [OF run this, of 300] show ?thesis unfolding n(4) by auto
qed

end
