(* ===== verification/TimerMulti.thy ===== *)
theory TimerMulti
  imports TimerFaults
begin

text \<open>
  \<open>TimerManager\<close> calls every timer that was alive when it locked the slot, also one that a timer before it has
  cancelled; the registrations of \<open>TimerInterface\<close> for a time of the day or the week.
\<close>

section \<open>A turn of TimerManager\<close>

text \<open>A timer that is due stays due until it is called.\<close>

definition due_now :: "int \<Rightarrow> nat \<Rightarrow> timer_wheel \<Rightarrow> bool" where
  "due_now tick r w \<longleftrightarrow> r < length (tw_timers w) \<and> ti_bePoint (tw_timers w ! r) \<le> tick"

lemma keeps_timer_due: "keeps_timer r w w' \<Longrightarrow> due_now tick r w \<Longrightarrow> due_now tick r w'"
  by (auto simp: keeps_timer_def due_now_def Let_def)

lemma OnTimeout_keeps: "keeps_timer r w (OnTimeout lead react q w)"
proof -
  have "keeps_timer r w (w\<lparr>tw_fired := f\<rparr>)" for f by (simp add: keeps_timer_def Let_def)
  then show ?thesis unfolding OnTimeout_def using keeps_timer_trans fold_timer_do_keeps by blast
qed

lemma OnTimeout_fired: "tw_fired (OnTimeout lead react q w) = tw_fired w @ [q]"
  by (simp add: OnTimeout_def)

lemma OnTickEx_same: "OnTickEx tick t = (f, t') \<Longrightarrow> ti_type t' = ti_type t \<and> ti_interval t' = ti_interval t \<and>
    ti_bePoint t' = ti_bePoint t \<and> ti_delflag t' = ti_delflag t \<and> (ti_bePoint t \<le> tick \<longrightarrow> f)"
  by (auto simp: OnTickEx_def Let_def split: if_splits)

lemma visit_waiting_same: "visit_waiting tick t = Inr (v, t') \<Longrightarrow> ti_type t' = ti_type t \<and> ti_interval t' = ti_interval t \<and>
    ti_bePoint t' = ti_bePoint t \<and> ti_delflag t' = ti_delflag t"
  by (auto simp: visit_waiting_def rbind_Inr_iff split: if_splits)

lemma set_timer_fired [simp]: "tw_fired (set_timer r t w) = tw_fired w" "tw_fired (SetDelete r w) = tw_fired w"
  by (simp_all add: set_timer_def SetDelete_def)

text \<open>What one step of the loop over the timers leaves alone.\<close>

definition calls_more :: "nat \<Rightarrow> timer_wheel \<Rightarrow> timer_wheel \<Rightarrow> bool" where
  "calls_more r w w' \<longleftrightarrow> keeps_timer r w w' \<and> set (tw_fired w) \<subseteq> set (tw_fired w')"

lemma calls_more_trans: "calls_more r w1 w2 \<Longrightarrow> calls_more r w2 w3 \<Longrightarrow> calls_more r w1 w3"
  by (auto simp: calls_more_def intro: keeps_timer_trans)

lemma visit_live_step:
  assumes "visit_live react tick s (q # rs) w = Inr (gone, loops, w')"
  shows "\<exists>gone' loops' w1. visit_live react tick s rs w1 = Inr (gone', loops', w') \<and> calls_more r w w1 \<and>
    (due_now tick q w \<longrightarrow> q \<in> set (tw_fired w1))"
proof -
  obtain f t where f: "OnTickEx tick (tw_timers w ! q) = (f, t)" by force
  note t = OnTickEx_same [OF f]
  let ?w1 = "set_timer q t w"
  have k1: "calls_more r w ?w1" using set_timer_keeps t by (simp add: calls_more_def)
  show ?thesis
  proof (cases f)
    case True
    let ?w2 = "OnTimeout 0 react q ?w1" and ?once = "ti_type (tw_timers (OnTimeout 0 react q (set_timer q t w)) ! q) = OnceTimer"
    let ?w3 = "if ?once then SetDelete q ?w2 else ?w2"
    obtain gone' loops' where v: "visit_live react tick s rs ?w3 = Inr (gone', loops', w')"
      using assms f True by (auto simp: Let_def rbind_Inr_iff)
    have "calls_more r ?w1 ?w2" "calls_more r ?w2 ?w3"
      using OnTimeout_keeps set_timer_keeps by (auto simp: calls_more_def OnTimeout_fired SetDelete_def)
    then have "calls_more r w ?w3" using k1 calls_more_trans by blast
    moreover have "q \<in> set (tw_fired ?w3)" by (auto simp: OnTimeout_fired)
    ultimately show ?thesis using v by blast
  next
    case False
    obtain v t2 where v: "visit_waiting tick t = Inr (v, t2)" using assms f False by (auto simp: Let_def rbind_Inr_iff)
    let ?w2 = "set_timer q t2 ?w1"
    have "ti_type (tw_timers ?w1 ! q) = ti_type t" if "q < length (tw_timers w)" using that by (simp add: set_timer_def)
    have k2: "calls_more r ?w1 ?w2"
    proof (cases "q < length (tw_timers w)")
      case True
      then show ?thesis using set_timer_keeps [of t2 ?w1 q r] visit_waiting_same [OF v] by (simp add: calls_more_def set_timer_def)
    next
      case False
      then show ?thesis by (simp add: calls_more_def set_timer_def list_update_beyond)
    qed
    have nd: "\<not> due_now tick q w" using t False by (auto simp: due_now_def)
    show ?thesis
    proof (cases v)
      case Stays
      then have "visit_live react tick s rs ?w2 = Inr (gone, loops, w')" using assms f False v by (simp add: Let_def)
      then show ?thesis using calls_more_trans [OF k1 k2] nd by blast
    next
      case Resets
      obtain gone' w3 where w3: "reset_timer tick s q ?w2 = Inr w3" "visit_live react tick s rs w3 = Inr (gone', loops, w')"
        using assms f False v Resets by (auto simp: Let_def rbind_Inr_iff)
      have "calls_more r ?w2 w3" using reset_timer_keeps_timer [OF w3(1)] reset_timer_fired [OF w3(1)] by (simp add: calls_more_def)
      then show ?thesis using calls_more_trans [OF calls_more_trans [OF k1 k2]] w3(2) nd by blast
    qed
  qed
qed

lemma visit_live_calls:
  "visit_live react tick s rs w = Inr (gone, loops, w') \<Longrightarrow>
    set (tw_fired w) \<subseteq> set (tw_fired w') \<and> (\<forall>r \<in> set rs. due_now tick r w \<longrightarrow> r \<in> set (tw_fired w'))"
proof (induction rs arbitrary: w gone loops)
  case (Cons q rs)
  have "set (tw_fired w) \<subseteq> set (tw_fired w') \<and> (r \<in> set (q # rs) \<longrightarrow> due_now tick r w \<longrightarrow> r \<in> set (tw_fired w'))" for r
  proof -
    obtain gone' loops' w1 where w1: "visit_live react tick s rs w1 = Inr (gone', loops', w')" "calls_more r w w1"
      "due_now tick q w \<longrightarrow> q \<in> set (tw_fired w1)" using visit_live_step [OF Cons.prems] by blast
    show ?thesis using Cons.IH [OF w1(1)] w1(2,3) keeps_timer_due by (auto simp: calls_more_def)
  qed
  then show ?case by blast
qed simp

lemma take_out_fired: "tw_fired (fold (take_out s) gone w) = tw_fired w"
  by (induction gone arbitrary: w) (simp_all add: take_out_def)

lemma attach_again_fired: "tw_fired (fold (attach_again date tick) loops w) = tw_fired w"
  by (induction loops arbitrary: w) (auto simp: attach_again_def Let_def place_timer_def set_timer_def)

text \<open>
  C14. \<open>TimerManager\<close> calls cancelled timers. Every timer that is due and not cancelled when a turn of
  the wheel locks its slot is called in this turn, whatever the functions of the timers before it do: also when one of
  them has cancelled it, since the flag is not read again before the call. (\<open>SingleTimerManager\<close>
  reads the flag before each call.)
\<close>

theorem multi_calls_all_live:
  assumes "Multi_OnTick react date tick w = Inr w'" "p \<in> set (tw_slots w (tw_currSlot w))" "snd p < length (tw_timers w)"
    and "\<not> ti_delflag (tw_timers w ! snd p)" "ti_bePoint (tw_timers w ! snd p) \<le> tick"
  shows "snd p \<in> set (tw_fired w')"
proof -
  let ?s = "tw_currSlot w" and ?live = "filter (\<lambda>p. \<not> ti_delflag (tw_timers w ! snd p)) (tw_slots w (tw_currSlot w))"
  let ?w1 = "w\<lparr>tw_currSlot := next_slot ?s, tw_slots := (tw_slots w)(?s := ?live)\<rparr>"
  obtain gone loops w2 where v: "visit_live react tick ?s (map snd ?live) ?w1 = Inr (gone, loops, w2)"
    "w' = fold (attach_again date tick) loops (fold (take_out ?s) gone w2)"
    using assms(1) by (auto simp: Multi_OnTick_def Slot_OnTick_def Let_def rbind_Inr_iff)
  have "snd p \<in> set (map snd ?live)" "due_now tick (snd p) ?w1" using assms(2-5) by (auto simp: due_now_def)
  then have "snd p \<in> set (tw_fired w2)" using visit_live_calls [OF v(1)] by blast
  then show ?thesis by (simp add: v(2) take_out_fired attach_again_fired)
qed

definition demo_cancels :: "nat list \<Rightarrow> nat \<Rightarrow> timer_op list" where
  "demo_cancels h r = (if r = 0 then [Cancel 1] else [])"

definition demo_pair :: timer_wheel where
  "demo_pair = fold (timer_do 0) [Add_timer OnceTimer 99 0 99, Add_timer OnceTimer 99 0 99] TimerManager_new"

theorem multi_calls_all_live_witness:
  "let w' = projr (Multi_OnTick demo_cancels (2020, 1, 1) 100 demo_pair)
   in tw_fired w' = [0, 1] \<and> 1 \<in> set (tw_fired w') \<and> tw_fired (Single_Tick demo_cancels (2020, 1, 1) 100
        (projr (Single_OnTick 100 (fold (timer_do 100) [Add_timer OnceTimer 100 0 99, Add_timer OnceTimer 100 0 99] TimerManager_new)))) = [0]"
proof -
  let ?w' = "projr (Multi_OnTick demo_cancels (2020, 1, 1) 100 demo_pair)"
  have "\<not> isl (Multi_OnTick demo_cancels (2020, 1, 1) 100 demo_pair)" by code_simp
  then have run: "Multi_OnTick demo_cancels (2020, 1, 1) 100 demo_pair = Inr ?w'" by (metis sum.collapse(2))
  have p: "(2, 1) \<in> set (tw_slots demo_pair (tw_currSlot demo_pair))" "snd (2 :: u32, 1 :: nat) < length (tw_timers demo_pair)"
    "\<not> ti_delflag (tw_timers demo_pair ! snd (2 :: u32, 1 :: nat))" "ti_bePoint (tw_timers demo_pair ! snd (2 :: u32, 1 :: nat)) \<le> 100"
    by code_simp+
  have "1 \<in> set (tw_fired ?w')" using multi_calls_all_live [OF run p] by (simp only: snd_conv)
  moreover have "tw_fired ?w' = [0, 1]" by code_simp
  moreover have "tw_fired (Single_Tick demo_cancels (2020, 1, 1) 100
    (projr (Single_OnTick 100 (fold (timer_do 100) [Add_timer OnceTimer 100 0 99, Add_timer OnceTimer 100 0 99] TimerManager_new)))) = [0]"
    by code_simp
  ultimately show ?thesis unfolding Let_def by blast
qed

section \<open>Registration for a time of the day, the week and the month\<close>

definition day_second :: "int \<Rightarrow> int \<Rightarrow> int \<Rightarrow> int" where
  "day_second hour minutes second = hour * 3600 + minutes * 60 + second"

definition time_of_day :: "int \<Rightarrow> int \<Rightarrow> int \<Rightarrow> bool" where
  "time_of_day hour minutes second \<longleftrightarrow> 0 \<le> hour \<and> hour < 24 \<and> 0 \<le> minutes \<and> minutes < 60 \<and> 0 \<le> second \<and> second < 60"

lemma day_second_range: "time_of_day h m s \<Longrightarrow> 0 \<le> day_second h m s \<and> day_second h m s < 86400"
  by (auto simp: time_of_day_def day_second_def)

lemma set_start_seconds:
  assumes "0 \<le> d" "d < 604800"
  shows "set_start now (d * 1000) = (if d = 0 then 100 else word_of_int (d * 1000), now + (if d = 0 then 100 else d * 1000))"
    "uint (fst (set_start now (d * 1000))) = (if d = 0 then 100 else d * 1000)"
proof -
  have "0 \<le> d * 1000" "d * 1000 < 2 ^ 32" using assms by simp_all
  then have u: "uint (word_of_int (d * 1000) :: u32) = d * 1000" using word_of_int_inverse [OF refl, of "d * 1000", where 'a = 32] by simp
  have "(word_of_int (d * 1000) :: u32) < 100 \<longleftrightarrow> uint (word_of_int (d * 1000) :: u32) < uint (100 :: u32)" by (rule word_less_def)
  also have "\<dots> \<longleftrightarrow> d * 1000 < 100" unfolding u by simp
  also have "\<dots> \<longleftrightarrow> d = 0" using assms(1) by auto
  finally have "(word_of_int (d * 1000) :: u32) < 100 \<longleftrightarrow> d = 0" .
  then show "set_start now (d * 1000) = (if d = 0 then 100 else word_of_int (d * 1000), now + (if d = 0 then 100 else d * 1000))"
    using u by (simp add: set_start_def Let_def)
  then show "uint (fst (set_start now (d * 1000))) = (if d = 0 then 100 else d * 1000)" using u by simp
qed

lemma mod_shift: "- b \<le> x \<Longrightarrow> x < b \<Longrightarrow> (if x < 0 then x + b else x) = x mod b" for x b :: int
proof -
  assume "- b \<le> x" "x < b"
  then have "0 < b \<or> b = 0" by linarith
  then show ?thesis using \<open>- b \<le> x\<close> \<open>x < b\<close>
    by (auto simp: mod_pos_pos_trivial intro: sym [OF trans [OF mod_add_self2 [symmetric] mod_pos_pos_trivial]])
qed

text \<open>
  C15. Registration for a time of the day and of the week is exact. The point of a timer that is registered for a time
  of the day lies at most a day ahead and falls on that time, and the same for a day of the week and
  at most a week; only when the time is the current second, the timer goes off 100 milliseconds
  later and not a day or a week later. The 32 bits of the start hold the distance, so the point is its end.
\<close>

theorem registered_time_exact:
  assumes "time_of_day h m s" "time_of_day (tm_hour tn) (tm_min tn) (tm_sec tn)" "1 \<le> wd" "wd \<le> 7" "0 \<le> tm_wday tn" "tm_wday tn \<le> 6"
  defines "here \<equiv> day_second (tm_hour tn) (tm_min tn) (tm_sec tn)"
  shows "(let (start, be) = SetDayTime now tn h m s; d = (day_second h m s - here) mod 86400
     in be = now + uint start \<and> uint start = (if d = 0 then 100 else d * 1000)) \<and>
    (let (start, be) = SetWeekTime now tn wd h m s; d = (86400 * wd + day_second h m s - (86400 * week_day tn + here)) mod 604800
     in be = now + uint start \<and> uint start = (if d = 0 then 100 else d * 1000))"
proof -
  note r = day_second_range [OF assms(1)] day_second_range [OF assms(2), folded here_def]
  let ?d = "day_second h m s - here" and ?e = "86400 * wd + day_second h m s - (86400 * week_day tn + here)"
  have w: "1 \<le> week_day tn" "week_day tn \<le> 7" using assms(5,6) by (auto simp: week_day_def)
  have d: "(h - tm_hour tn) * 3600 * 1000 + (m - tm_min tn) * 60 * 1000 + (s - tm_sec tn) * 1000 = ?d * 1000"
    by (simp add: day_second_def here_def algebra_simps)
  have e: "(wd - week_day tn) * 24 * 3600 * 1000 + (h - tm_hour tn) * 3600 * 1000 + (m - tm_min tn) * 60 * 1000 +
      (s - tm_sec tn) * 1000 = ?e * 1000"
    by (simp add: day_second_def here_def algebra_simps)
  have "(if ?d * 1000 < 0 then ?d * 1000 + 24 * 3600 * 1000 else ?d * 1000) = (if ?d < 0 then ?d + 86400 else ?d) * 1000" by auto
  also have "(if ?d < 0 then ?d + 86400 else ?d) = ?d mod 86400" using r by (intro mod_shift) auto
  finally have D: "SetDayTime now tn h m s = set_start now ((?d mod 86400) * 1000)" by (simp only: SetDayTime_def d Let_def)
  have "(if ?e * 1000 < 0 then ?e * 1000 + 7 * 24 * 3600 * 1000 else ?e * 1000) = (if ?e < 0 then ?e + 604800 else ?e) * 1000" by auto
  also have "(if ?e < 0 then ?e + 604800 else ?e) = ?e mod 604800" using r w assms(3,4) by (intro mod_shift) auto
  finally have E: "SetWeekTime now tn wd h m s = set_start now ((?e mod 604800) * 1000)" by (simp only: SetWeekTime_def e Let_def)
  have x: "0 \<le> ?d mod 86400" "?d mod 86400 < 604800" "0 \<le> ?e mod 604800" "?e mod 604800 < 604800"
    using pos_mod_bound [of 86400 ?d] by (simp_all add: order_less_trans)
  note a = set_start_seconds [OF x(1,2)] and b = set_start_seconds [OF x(3,4)]
  show ?thesis unfolding D E Let_def case_prod_beta a(2) b(2) using a(1) b(1) by simp
qed

theorem registered_time_exact_witness:
  "let tn = \<lparr>tm_sec = 30, tm_min = 59, tm_hour = 23, tm_mday = 1, tm_mon = 0, tm_year = 121, tm_wday = 0\<rparr> in
     SetDayTime 5000 tn 6 0 0 = (21630000, 21635000) \<and> uint (fst (SetWeekTime 5000 tn 7 23 59 0)) = 604770000"
proof -
  let ?tn = "\<lparr>tm_sec = 30, tm_min = 59, tm_hour = 23, tm_mday = 1, tm_mon = 0, tm_year = 121, tm_wday = 0\<rparr>"
  have t: "time_of_day 23 59 0" "time_of_day 6 0 0" "time_of_day (tm_hour ?tn) (tm_min ?tn) (tm_sec ?tn)" by (simp_all add: time_of_day_def)
  have "uint (fst (SetWeekTime 5000 ?tn 7 23 59 0)) = 604770000"
    using registered_time_exact [OF t(1,3), of 7 5000] by (simp add: day_second_def week_day_def split: prod.splits)
  moreover have "SetDayTime 5000 ?tn 6 0 0 = (21630000, 21635000)" by code_simp
  ultimately show ?thesis by (simp add: Let_def)
qed

text \<open>
  \<open>SetMonthTime\<close> moves on from today's day: on 31 January the 5th of the month is
  registered for 5 March, and on 30 January the 29th for a distance of 58 days, of which 32 bits keep 8.
\<close>

lemma month_registration_wrong:
  "fst (SetMonthTime 0 \<lparr>tm_sec = 0, tm_min = 0, tm_hour = 0, tm_mday = 31, tm_mon = 0, tm_year = 121, tm_wday = 0\<rparr> 5 0 0 0) =
    word_of_int ((59 - 26) * 86400000)"
  "uint (fst (SetMonthTime 0 \<lparr>tm_sec = 0, tm_min = 0, tm_hour = 0, tm_mday = 30, tm_mon = 0, tm_year = 121, tm_wday = 6\<rparr> 29 0 0 0)) =
    58 * 86400000 - 2 ^ 32"
  by code_simp+

end
