(* ===== verification/Spec2Isabelle.thy ===== *)
theory Spec2Isabelle
  imports Md5 EncryBook StrHash ServerConfig TcpQueue Squeue DoubleList Packets TcpProtocols Timer Handlers
    SessionLimits EpollRequests ServerHandshake ForgedEvents
    TimerOnce TimerMulti
begin

text \<open>
  The communication library \<open>antlib\<close>, the login service \<open>CS_LoginService\<close> on it, and the network
  layer \<open>CommBase\<close> of the C++ servers, as far as they are code of their own.

  How the parts work together. A connection (\<open>antlib/tcplib/tcp_connection.c\<close>) receives bytes
  into its buffer and hands them to the protocol it chose (\<open>antlib/protocollib/tcp_protocol*.c\<close>,
  \<open>http_protocol.c\<close>). The protocol cuts the bytes into messages, finds the table of each message
  by its number or by its two keys (\<open>tcp_msglist.c\<close>, over the hash table of
  \<open>commandlib/hash.c\<close>), collects the body into a stream (\<open>tcp_stream.h\<close>) and calls the handler of
  the table. Handlers answer with packets (\<open>CS_LoginService/packet.h\<close>, \<open>net_packet.h\<close>), which are
  queued on the connection (\<open>tcplib/tcp_queue.h\<close>) and written when the socket is ready. Between
  threads messages travel through the queues of \<open>commandlib/squeue.h\<close> to handlers
  (\<open>handlerlib/handler.c\<close>, \<open>handlerlib.c\<close>), and timers (\<open>handlerlib/timer.c\<close>) are messages that are
  sent later. Passwords are hashed by
  \<open>commandlib/md5.c\<close>, data may be encrypted by \<open>encry_book.c\<close>, and the service reads its
  configuration by \<open>ini_reader.c\<close> and \<open>server_config.c\<close>.

  The C++ servers talk to each other through sessions (\<open>CommBase/Network/Session.cpp\<close>): a message
  (\<open>MessageManager.cpp\<close>) is signed by the digest object of \<open>Encrypt/md5.cpp\<close>, gets a header
  (\<open>NetWorkConfig.h\<close>), is written to the send ring of the session (\<open>CircleBuffer.cpp\<close>), goes out as
  the socket takes it, is cut from the receive buffer of the peer's session, checked, and handed
  to the dispatcher. The session manager (the rest of \<open>Session.cpp\<close>) keeps the sessions of a loop
  (\<open>EpollMain.cpp\<close>), which gets its sockets from the threads that accept
  (\<open>AcceptManager.cpp\<close>) and connect (\<open>ConnManager.cpp\<close>); a session is established by an exchange
  of connection packets, and several sessions to one peer make a group (\<open>GroupSession.cpp\<close>).
  Messages and reports of connections go to the dispatcher (\<open>DispatchMessage.cpp\<close>), which calls the
  handlers of the application, keeps the requests that wait for an answer and hands what the
  application sends back to the sessions. The servers' main loops register timers
  (\<open>CommBase/Timer\<close>), which a wheel of slots collects when they are due.

  How the code is modelled. A function of the code is a function of the same name; what it
  changes is returned. A result type \<open>fault + 'a\<close> holds on the left what C leaves undefined or
  aborts: a failed \<open>ASSERT\<close>, an access outside an object, a null or dangling pointer, memory that
  was never written, a loop that can not end. Machine integers are words where they wrap and
  \<open>int\<close> where the code keeps them in range; memory is a list of characters; what fresh memory
  holds is the parameter \<open>old\<close>, and the byte order of the host is the parameter \<open>be\<close>. Sockets
  are lists of outcomes and clocks are arguments.

  Theories:

  \<^item> \<open>Prelude\<close>: faults, C strings, \<open>atoi\<close>, flat memory. \<open>Codec\<close>: byte order and network
    encoding. \<open>ByteSink\<close>: the interface of whatever bytes are pushed into; \<open>TcpStream\<close> and
    \<open>Packets\<close> provide it. A stream pops what was pushed, a packet is its header and its values.
  \<^item> \<open>Md5\<close>: \<open>md5.c\<close>. Feeding in pieces equals the digest of the whole. \<open>EncryBook\<close>:
    \<open>encry_book.c\<close>. Both tables are permutations and inverse to each other.
  \<^item> \<open>StringMap\<close>: the interface of a table with string keys; \<open>StrHash\<close> (\<open>hash.c\<close>) provides it and
    refines finite maps. \<open>IniReader\<close> (\<open>ini_reader.c\<close>) and \<open>ServerConfig\<close> (\<open>server_config.c\<close>):
    printing and reading are inverse, lookups give the entries.
  \<^item> \<open>Fifo\<close>: the interface of a queue; \<open>TcpQueue\<close> (\<open>tcp_queue.h\<close>) and \<open>Squeue\<close> (\<open>squeue.h\<close>,
    \<open>squeue.c\<close>, \<open>hqueue.h\<close>) provide it, in the range where they are queues. \<open>DoubleList\<close>
    (\<open>double_list.h\<close>, \<open>alloc.c\<close>): lists over a heap of nodes refine sequences.
  \<^item> \<open>Http\<close>: \<open>http_protocol.c\<close>. \<open>TcpMsgList\<close>: \<open>tcp_msglist.c\<close>. \<open>TcpConnection\<close>:
    \<open>tcp_connection.c\<close>. \<open>TcpProtocols\<close>: the framings, over the interface \<open>frame_parser\<close> that both
    of them provide; a read delivers the messages in the buffer, in order.
  \<^item> \<open>Traced\<close>: runs of operations with what they return. \<open>Timer\<close>: \<open>timer.c\<close>; which timers go off,
    when, and which are lost. \<open>Handlers\<close>: \<open>handler.c\<close>, \<open>handlerlib.c\<close>, \<open>thread_proc.h\<close>; the queue of
    a handler is served completely and in order, and a group serves all its handlers.
  \<^item> \<open>Md5Object\<close>: \<open>md5.cpp\<close>, simulated by \<open>Md5\<close>. \<open>PacketHeader\<close>: the header of \<open>NetWorkConfig.h\<close> and
    the byte moves of \<open>util.cpp\<close>. \<open>ByteOutlet\<close>: the interface of a buffer that bytes are written to
    and taken from; \<open>CircleBuffer\<close> (\<open>CircleBuffer.cpp\<close>) provides it. \<open>NetMessage\<close>:
    \<open>MessageManager.cpp\<close>, signing and checking.
  \<^item> \<open>NetSession\<close>: \<open>Session.cpp\<close>. \<open>SessionStream\<close>: what arrives in any pieces is delivered exactly.
    \<open>SessionPair\<close>: from the messages one server writes to those the other delivers.
    \<open>SessionLimits\<close>: where the receive path fails.
  \<^item> \<open>OrdMap\<close>: \<open>std::map\<close>. \<open>GroupSession\<close>: \<open>GroupSession.cpp\<close>. \<open>SessionManager\<close>: \<open>CSessionMgr\<close>; the
    session objects live in a store, since the tables and the event pointers share them.
    \<open>SessionTable\<close>: what every operation keeps of the tables. \<open>EpollLoop\<close>: requests, events and the
    connecting thread. \<open>EpollReach\<close>: the states a loop can reach, and what holds in them.
    \<open>EpollRequests\<close>: requests survive the pipe. \<open>SessionHandshake\<close>: the manager provides the
    interface \<open>conn_layer\<close> of \<open>SessionStream\<close>; what a connection packet does when it arrives in
    pieces. \<open>ServerHandshake\<close>: two servers build a connection.
  \<^item> \<open>ChannelEvents\<close>: the reports of \<open>Context::SystemErr\<close>, written and read. \<open>Dispatcher\<close>:
    \<open>DispatchMessage.cpp\<close>, \<open>Service_Handler.cpp\<close> and sending. \<open>DispatchReach\<close>: the states the
    dispatching threads can reach, call by call; a request is answered at most once.
    \<open>DispatchTurns\<close>: their turns are such runs, settle overdue requests and serve the queue.
    \<open>ForgedEvents\<close>: what a peer can make the service handler believe.
  \<^item> \<open>Calendar\<close>: months and days of \<open>CommBase/util.cpp\<close>. \<open>TimerWheel\<close>: \<open>CommBase/Timer\<close>, both managers.
    \<open>TimerWheelOk\<close>: what every operation keeps of the wheel. \<open>TimerRuns\<close>: runs of the main loop and the
    wheel; timers go off in time. \<open>TimerOnce\<close>: at most once, if they are for one time. \<open>TimerBeat\<close>: without
    drift, if they repeat. \<open>TimerFaults\<close>: when a turn is undefined. \<open>TimerMulti\<close>: the manager that
    calls its timers itself, and the registrations.

  Bounds. The read loops of \<open>TcpProtocols\<close> run with fuel: twice the bytes in the buffer and two
  turns, which \<open>protocol_read_loops_end\<close> proves to be enough; the walk over the allocation list
  is a partial function, and \<open>alloc_report_exact\<close> proves that it ends. The packets of
  \<open>session_delivers_stream\<close> are at most 32768 bytes long, half the receive buffer;
  \<open>session_drops_long_packet\<close> shows that longer ones are lost.

  Not modelled: sockets, threads, epoll itself, log files, the calls of the database client, and
  the game servers on top of \<open>CommBase\<close>.
\<close>

end
